(* ===== verification/V2Prelude.thy ===== *)
theory V2Prelude
  imports Main "HOL-Library.Word"
begin

text \<open>
  Shared vocabulary of the development: bytes and byte strings, the conversions between
  Go strings and byte slices, the big-endian 16-bit fields that every proxy header of the
  repository carries, and the collections of facts that the component proofs use.
  Go's \<open>int\<close> is a 64-bit two's complement integer. Where a shift or a conversion of such
  a value reaches the wire it is written out on \<open>64 word\<close> (or \<open>16 word\<close> where the code
  converts to \<open>int16\<close> first); the lemmas below show what it means on \<open>int\<close>.
\<close>

unbundle bit_operations_syntax

type_synonym byte = "8 word"
type_synonym bytes = "8 word list"

named_theorems reader_simps \<open>evaluation of the reader operations\<close>
named_theorems codec_simps \<open>round trips of wire formats\<close>
named_theorems model_defs \<open>definitions unfolded to evaluate a closed instance\<close>

section \<open>Strings and bytes\<close>

definition byte_to_char :: "byte \<Rightarrow> char" where
  "byte_to_char b = char_of (unat b)"

definition char_to_byte :: "char \<Rightarrow> byte" where
  "char_to_byte c = word_of_nat (of_char c)"

definition string_of_bytes :: "bytes \<Rightarrow> string" where
  "string_of_bytes bs = map byte_to_char bs"

definition bytes_of_string :: "string \<Rightarrow> bytes" where
  "bytes_of_string s = map char_to_byte s"

lemma of_char_less_256: "(of_char c :: nat) < 256"
  by (rule nat_of_char_less_256)

lemma unat_less_256: "unat (b :: byte) < 256"
  using unsigned_less [of b] by simp

lemma byte_char_byte [simp]: "char_to_byte (byte_to_char b) = b"
  by (simp add: char_to_byte_def byte_to_char_def unat_less_256)

lemma char_byte_char [simp]: "byte_to_char (char_to_byte c) = c"
  by (simp add: char_to_byte_def byte_to_char_def unat_of_nat of_char_less_256)

lemma string_of_bytes_of_string [simp, codec_simps]:
  "string_of_bytes (bytes_of_string s) = s"
  by (simp add: string_of_bytes_def bytes_of_string_def comp_def)

lemma bytes_of_string_of_bytes [simp, codec_simps]:
  "bytes_of_string (string_of_bytes bs) = bs"
  by (simp add: string_of_bytes_def bytes_of_string_def comp_def)

lemma length_bytes_of_string [simp]: "length (bytes_of_string s) = length s"
  by (simp add: bytes_of_string_def)

lemma length_string_of_bytes [simp]: "length (string_of_bytes bs) = length bs"
  by (simp add: string_of_bytes_def)

lemma bytes_of_string_Nil_iff [simp]: "bytes_of_string s = [] \<longleftrightarrow> s = []"
  by (simp add: bytes_of_string_def)

lemma string_of_bytes_Nil_iff [simp]: "string_of_bytes bs = [] \<longleftrightarrow> bs = []"
  by (simp add: string_of_bytes_def)

lemma bytes_of_string_inject [simp]:
  "bytes_of_string s = bytes_of_string t \<longleftrightarrow> s = t"
  by (metis string_of_bytes_of_string)

lemma string_of_bytes_append:
  "string_of_bytes (xs @ ys) = string_of_bytes xs @ string_of_bytes ys"
  by (simp add: string_of_bytes_def)

lemma string_of_bytes_inject [simp]:
  "string_of_bytes xs = string_of_bytes ys \<longleftrightarrow> xs = ys"
  by (metis bytes_of_string_of_bytes)

section \<open>Big-endian 16-bit fields\<close>

text \<open>\<open>byte(x >> 8)\<close> and \<open>byte(x << 8 >> 8)\<close> of a Go \<open>int\<close> \<open>x\<close>.\<close>

definition byte_shr8 :: "int \<Rightarrow> byte" where
  "byte_shr8 x = ucast (signed_drop_bit 8 (word_of_int x :: 64 word))"

definition byte_shl8_shr8 :: "int \<Rightarrow> byte" where
  "byte_shl8_shr8 x = ucast (signed_drop_bit 8 (push_bit 8 (word_of_int x :: 64 word)))"

text \<open>\<open>byte(int16(x) >> 8)\<close> and \<open>byte(int16(x) << 8 >> 8)\<close>.\<close>

definition byte_int16_shr8 :: "int \<Rightarrow> byte" where
  "byte_int16_shr8 x = ucast (signed_drop_bit 8 (word_of_int x :: 16 word))"

definition byte_int16_shl8_shr8 :: "int \<Rightarrow> byte" where
  "byte_int16_shl8_shr8 x = ucast (signed_drop_bit 8 (push_bit 8 (word_of_int x :: 16 word)))"

text \<open>\<open>byte(uint16(x) >> 8)\<close> and \<open>byte(uint16(x) << 8 >> 8)\<close>.\<close>

definition byte_uint16_shr8 :: "int \<Rightarrow> byte" where
  "byte_uint16_shr8 x = ucast (drop_bit 8 (word_of_int x :: 16 word))"

definition byte_uint16_shl8_shr8 :: "int \<Rightarrow> byte" where
  "byte_uint16_shl8_shr8 x = ucast (drop_bit 8 (push_bit 8 (word_of_int x :: 16 word)))"

text \<open>\<open>uint16(b1)<<8 + uint16(b2)\<close>.\<close>

definition uint16_be :: "byte \<Rightarrow> byte \<Rightarrow> 16 word" where
  "uint16_be b1 b2 = push_bit 8 (ucast b1) + ucast b2"

text \<open>The bytes these expressions denote, as numbers.\<close>

definition hi8 :: "int \<Rightarrow> byte" where "hi8 x = word_of_int (x div 256)"
definition lo8 :: "int \<Rightarrow> byte" where "lo8 x = word_of_int x"

lemma byte_shr8_eq [simp]: "byte_shr8 x = hi8 x"
  by (rule bit_word_eqI)
    (simp add: byte_shr8_def hi8_def bit_ucast_iff bit_signed_drop_bit_iff bit_word_of_int_iff
      drop_bit_eq_div [of 8 x, simplified, symmetric] bit_drop_bit_eq)

lemma byte_shl8_shr8_eq [simp]: "byte_shl8_shr8 x = lo8 x"
  by (rule bit_word_eqI)
    (simp add: byte_shl8_shr8_def lo8_def bit_ucast_iff bit_signed_drop_bit_iff
      bit_push_bit_iff bit_word_of_int_iff)

lemma byte_int16_shr8_eq [simp]: "byte_int16_shr8 x = hi8 x"
  by (rule bit_word_eqI)
    (simp add: byte_int16_shr8_def hi8_def bit_ucast_iff bit_signed_drop_bit_iff bit_word_of_int_iff
      drop_bit_eq_div [of 8 x, simplified, symmetric] bit_drop_bit_eq)

lemma byte_int16_shl8_shr8_eq [simp]: "byte_int16_shl8_shr8 x = lo8 x"
  by (rule bit_word_eqI)
    (simp add: byte_int16_shl8_shr8_def lo8_def bit_ucast_iff bit_signed_drop_bit_iff
      bit_push_bit_iff bit_word_of_int_iff)

lemma byte_uint16_shr8_eq [simp]: "byte_uint16_shr8 x = hi8 x"
  by (rule bit_word_eqI)
    (simp add: byte_uint16_shr8_def hi8_def bit_ucast_iff bit_drop_bit_eq bit_word_of_int_iff
      drop_bit_eq_div [of 8 x, simplified, symmetric])

lemma byte_uint16_shl8_shr8_eq [simp]: "byte_uint16_shl8_shr8 x = lo8 x"
  by (rule bit_word_eqI)
    (simp add: byte_uint16_shl8_shr8_def lo8_def bit_ucast_iff bit_drop_bit_eq
      bit_push_bit_iff bit_word_of_int_iff)

text \<open>\<open>int(b1)<<8 | int(b2)\<close> and \<open>int(b1)<<8 + int(b2)\<close> on Go \<open>int\<close>s.\<close>

definition int_or_be :: "byte \<Rightarrow> byte \<Rightarrow> int" where
  "int_or_be b1 b2 = push_bit 8 (uint b1) OR uint b2"

definition int_add_be :: "byte \<Rightarrow> byte \<Rightarrow> int" where
  "int_add_be b1 b2 = push_bit 8 (uint b1) + uint b2"

lemma uint_byte_bounds: "0 \<le> uint (b :: byte)" "uint (b :: byte) < 256"
  using unsigned_less [of b] by simp_all

lemma int_add_be_eq: "int_add_be b1 b2 = uint b1 * 256 + uint b2"
  by (simp add: int_add_be_def push_bit_eq_mult)

lemma int_or_be_eq [simp]: "int_or_be b1 b2 = int_add_be b1 b2"
proof -
  have "\<not> bit (uint b2) n" if "8 \<le> n" for n
    using that by (simp add: bit_uint_iff)
  then have "push_bit 8 (uint b1) AND uint b2 = 0"
    by (intro bit_eqI) (auto simp: bit_and_iff bit_push_bit_iff)
  then show ?thesis
    by (simp add: int_or_be_def int_add_be_def disjunctive_add_eq_or)
qed

lemma uint_uint16_be [codec_simps]: "uint (uint16_be b1 b2) = int_add_be b1 b2"
proof -
  have "uint b1 * 256 + uint b2 < 65536"
    using uint_byte_bounds [of b1] uint_byte_bounds [of b2] by simp
  moreover have "uint b1 * 256 < 65536" "uint b2 < 65536"
    using uint_byte_bounds [of b1] uint_byte_bounds [of b2] by simp_all
  ultimately show ?thesis
    using uint_byte_bounds [of b1] uint_byte_bounds [of b2]
    by (simp add: uint16_be_def int_add_be_eq uint_word_ariths push_bit_eq_mult
        uint_up_ucast is_up take_bit_eq_mod)
qed

lemma int_add_be_bounds: "0 \<le> int_add_be b1 b2" "int_add_be b1 b2 < 65536"
  using uint_byte_bounds [of b1] uint_byte_bounds [of b2] by (simp_all add: int_add_be_eq)

lemma int_add_be_hi_lo [codec_simps]: "int_add_be (hi8 x) (lo8 x) = x mod 65536"
proof -
  have "uint (hi8 x) = (x div 256) mod 256" "uint (lo8 x) = x mod 256"
    by (simp_all add: hi8_def lo8_def uint_word_of_int)
  then show ?thesis
    using mod_mult2_eq' [of x 256 256] by (simp add: int_add_be_eq)
qed

lemma uint16_be_hi_lo_zero_iff:
  "uint16_be (hi8 x) (lo8 x) = 0 \<longleftrightarrow> x mod 65536 = 0"
  by (metis int_add_be_hi_lo uint_0_iff uint_uint16_be)

lemma hi8_int_add_be [codec_simps]: "hi8 (int_add_be a b) = a"
  using uint_byte_bounds [of b] by (simp add: hi8_def int_add_be_eq)

lemma lo8_int_add_be [codec_simps]: "lo8 (int_add_be a b) = b"
proof (rule word_uint_eqI)
  have "uint (lo8 (int_add_be a b)) = int_add_be a b mod 256"
    unfolding lo8_def by (simp only: uint_word_of_int len_num1 len_of_numeral_defs) simp
  then show "uint (lo8 (int_add_be a b)) = uint b"
    using uint_byte_bounds [of b] by (simp add: int_add_be_eq)
qed

section \<open>List slices\<close>

text \<open>\<open>bs[lo:hi]\<close> of a Go slice whose bounds have been checked.\<close>

definition list_slice :: "nat \<Rightarrow> nat \<Rightarrow> 'a list \<Rightarrow> 'a list" where
  "list_slice lo hi xs = take (hi - lo) (drop lo xs)"

lemma length_list_slice [simp]:
  "length (list_slice lo hi xs) = min (hi - lo) (length xs - lo)"
  by (simp add: list_slice_def min.commute)

lemma list_slice_append_prefix [simp]:
  "list_slice (length xs) (length xs + length ys) (xs @ ys @ zs) = ys"
  by (simp add: list_slice_def)

lemma list_slice_full [simp]: "list_slice 0 (length xs) xs = xs"
  by (simp add: list_slice_def)

lemma list_slice_drop: "a \<le> b \<Longrightarrow> list_slice a b xs @ drop b xs = drop a xs"
  using append_take_drop_id [of "b - a" "drop a xs"] by (simp add: list_slice_def)

lemma nth_list_slice: "i < hi - lo \<Longrightarrow> lo + i < length xs \<Longrightarrow> list_slice lo hi xs ! i = xs ! (lo + i)"
  by (simp add: list_slice_def)

text \<open>\<open>bs[i]\<close> and \<open>bs[i:j]\<close> with the bounds check of Go: \<open>None\<close> is a panic. \<open>rest_len\<close> is
  \<open>len(bs[i:])\<close>.\<close>

definition byte_at :: "bytes \<Rightarrow> nat \<Rightarrow> byte option" where
  "byte_at bs i = (if i < length bs then Some (bs ! i) else None)"

definition bytes_slice :: "bytes \<Rightarrow> nat \<Rightarrow> nat \<Rightarrow> bytes option" where
  "bytes_slice bs i j = (if i \<le> j \<and> j \<le> length bs then Some (list_slice i j bs) else None)"

definition rest_len :: "bytes \<Rightarrow> nat \<Rightarrow> nat option" where
  "rest_len bs i = (if i \<le> length bs then Some (length bs - i) else None)"

lemma byte_at_Some [simp]: "i < length bs \<Longrightarrow> byte_at bs i = Some (bs ! i)"
  by (simp add: byte_at_def)

lemma bytes_slice_Some [simp]: "i \<le> j \<Longrightarrow> j \<le> length bs \<Longrightarrow> bytes_slice bs i j = Some (list_slice i j bs)"
  by (simp add: bytes_slice_def)

lemma byte_at_append [simp]: "byte_at (xs @ y # ys) (length xs) = Some y"
  by (simp add: byte_at_def)

lemma rest_len_Some [simp]: "i \<le> length bs \<Longrightarrow> rest_len bs i = Some (length bs - i)"
  by (simp add: rest_len_def)

end
