(* ===== verification/UtilsError.thy ===== *)
theory UtilsError
  imports V2Prelude
begin

text \<open>
  The error values of the repository (utils/error.go). Go errors are interface values; the
  model has one constructor per concrete error type that the code builds. A value of
  \<open>errors.New\<close> is identified by its text, which is what tells the package variables of
  utils/error.go and of package io apart. The \<open>Data\<close> field of \<open>ErrInErr\<close> only feeds the
  printed message and is left out. \<open>errors_Is\<close> is \<open>errors.Is\<close> for a target that is
  such a package variable: none of these types has an \<open>Unwrap\<close> method (the source spells
  it \<open>Unwarp\<close>), so the search follows the \<open>Is\<close> methods alone.
\<close>

datatype goerr =
    NewErr string
  | InvalidDataErr string
  | NumErr int goerr
  | NumStrErr int string
  | ErrBuffer goerr bytes
  | ErrInErr string "goerr option" "goerr list"
  | ErrList "(int \<times> goerr option) list"

abbreviation io_EOF :: goerr where "io_EOF \<equiv> NewErr ''EOF''"
abbreviation io_ErrUnexpectedEOF :: goerr where "io_ErrUnexpectedEOF \<equiv> NewErr ''unexpected EOF''"
abbreviation io_ErrShortWrite :: goerr where "io_ErrShortWrite \<equiv> NewErr ''short write''"

definition ErrUnImplemented :: goerr where "ErrUnImplemented = NewErr ''not implemented''"
definition ErrNilParameter :: goerr where "ErrNilParameter = NewErr ''nil parameter''"
definition ErrNilOrWrongParameter :: goerr where
  "ErrNilOrWrongParameter = NewErr ''nil or wrong parameter''"
definition ErrWrongParameter :: goerr where "ErrWrongParameter = NewErr ''wrong parameter''"
definition ErrInvalidData :: goerr where "ErrInvalidData = NewErr ''invalid data''"
definition ErrNoMatch :: goerr where "ErrNoMatch = NewErr ''no matched''"
definition ErrInvalidNumber :: goerr where "ErrInvalidNumber = NewErr ''invalid number''"
definition ErrInvalidWrite :: goerr where
  "ErrInvalidWrite = NewErr ''readfrom, invalid write result''"
definition ErrShortRead :: goerr where "ErrShortRead = NewErr ''short read''"
definition ErrHandled :: goerr where "ErrHandled = NewErr ''handled''"
definition ErrFailed :: goerr where "ErrFailed = NewErr ''failed''"

lemmas sentinel_defs [model_defs] =
  ErrUnImplemented_def ErrNilParameter_def ErrNilOrWrongParameter_def ErrWrongParameter_def
  ErrInvalidData_def ErrNoMatch_def ErrInvalidNumber_def ErrInvalidWrite_def ErrShortRead_def
  ErrHandled_def ErrFailed_def

text \<open>The frequent shape \<open>ErrInErr{ErrDesc: d, ErrDetail: ErrInvalidData}\<close>.\<close>

definition invalid_data :: "string \<Rightarrow> goerr" where
  "invalid_data d = ErrInErr d (Some ErrInvalidData) []"

definition err_wrap :: "string \<Rightarrow> goerr \<Rightarrow> goerr" where
  "err_wrap d e = ErrInErr d (Some e) []"

definition err_text :: "string \<Rightarrow> goerr" where
  "err_text d = ErrInErr d None []"

text \<open>The \<open>Is\<close> methods, for a sentinel target given by its text.\<close>

fun errors_Is :: "goerr \<Rightarrow> string \<Rightarrow> bool" where
  "errors_Is (NewErr s) t = (s = t)"
| "errors_Is (InvalidDataErr s) t = (t = ''invalid data'')"
| "errors_Is (NumErr n e) t = errors_Is e t"
| "errors_Is (NumStrErr n p) t = False"
| "errors_Is (ErrBuffer e b) t = errors_Is e t"
| "errors_Is (ErrInErr d det xs) t =
     ((case det of None \<Rightarrow> False | Some e \<Rightarrow> errors_Is e t) \<or> list_ex (\<lambda>e. errors_Is e t) xs)"
| "errors_Is (ErrList es) t =
     list_ex (\<lambda>(i, oe). case oe of None \<Rightarrow> False | Some e \<Rightarrow> errors_Is e t) es"

definition is_invalid_data :: "goerr \<Rightarrow> bool" where
  "is_invalid_data e = errors_Is e ''invalid data''"

lemma is_invalid_data_simps [simp]:
  "is_invalid_data ErrInvalidData"
  "is_invalid_data (invalid_data d)"
  "is_invalid_data (ErrBuffer e b) = is_invalid_data e"
  "is_invalid_data (err_wrap d e) = is_invalid_data e"
  "\<not> is_invalid_data (err_text d)"
  by (simp_all add: is_invalid_data_def ErrInvalidData_def invalid_data_def err_wrap_def err_text_def)

text \<open>The buffer a failed handshake hands to the fallback, if it hands one.\<close>

fun err_buffer :: "goerr \<Rightarrow> bytes option" where
  "err_buffer (ErrBuffer e b) = Some b"
| "err_buffer _ = None"

end
