(* ===== verification/GoReader.thy ===== *)
theory GoReader
  imports UtilsError "HOL-Library.Sublist"
begin

text \<open>
  The readers that the protocol parsers of the repository are written against
  (\<open>utils.ByteReader\<close> in utils/io.go: \<open>ReadByte\<close> and \<open>Read\<close>), and the two readers of
  Go's standard library that the code passes to them: \<open>bytes.Buffer\<close> and
  \<open>bufio.Reader\<close>. A reading computation takes the reader's state and returns an error or
  a value together with the new state. The locales \<open>stream_reader\<close> and \<open>byte_reader\<close> state what every reader
  promises, \<open>full_reader\<close> what only \<open>bytes.Buffer\<close> adds: a \<open>Read\<close> that is never short
  while bytes remain.
\<close>

type_synonym ('r, 'a) rd = "'r \<Rightarrow> (goerr + 'a) \<times> 'r"

definition rd_ok :: "'a \<Rightarrow> ('r, 'a) rd" where
  "rd_ok x = (\<lambda>r. (Inr x, r))"

definition rd_fail :: "goerr \<Rightarrow> ('r, 'a) rd" where
  "rd_fail e = (\<lambda>r. (Inl e, r))"

definition rd_bind :: "('r, 'a) rd \<Rightarrow> ('a \<Rightarrow> ('r, 'b) rd) \<Rightarrow> ('r, 'b) rd" where
  "rd_bind m f = (\<lambda>r. case m r of (Inl e, r') \<Rightarrow> (Inl e, r') | (Inr x, r') \<Rightarrow> f x r')"

lemma rd_ok_apply [simp]: "rd_ok x r = (Inr x, r)"
  by (simp add: rd_ok_def)

lemma rd_fail_apply [simp]: "rd_fail e r = (Inl e, r)"
  by (simp add: rd_fail_def)

lemma rd_bind_Inr [reader_simps]: "m r = (Inr x, r') \<Longrightarrow> rd_bind m f r = f x r'"
  by (simp add: rd_bind_def)

lemma rd_bind_Inl [reader_simps]: "m r = (Inl e, r') \<Longrightarrow> rd_bind m f r = (Inl e, r')"
  by (simp add: rd_bind_def)

lemma rd_bind_ok [simp]: "rd_bind (rd_ok x) f = f x"
  by (simp add: rd_bind_def fun_eq_iff)

lemma rd_bind_fail [simp]: "rd_bind (rd_fail e) f = rd_fail e"
  by (simp add: rd_bind_def fun_eq_iff)

lemma rd_bind_assoc: "rd_bind (rd_bind m f) g = rd_bind m (\<lambda>x. rd_bind (f x) g)"
  by (auto simp: rd_bind_def fun_eq_iff split: prod.splits sum.splits)

lemma rd_bind_InrE:
  assumes "rd_bind m f r = (Inr y, s)"
  obtains x r' where "m r = (Inr x, r')" "f x r' = (Inr y, s)"
  using assms by (auto simp: rd_bind_def split: prod.splits sum.splits)

section \<open>bytes.Buffer\<close>

text \<open>The state of a \<open>bytes.Buffer\<close> is its unread part.\<close>

fun buf_ReadByte :: "(bytes, byte) rd" where
  "buf_ReadByte [] = (Inl io_EOF, [])"
| "buf_ReadByte (b # bs) = (Inr b, bs)"

definition buf_Read :: "nat \<Rightarrow> (bytes, bytes) rd" where
  "buf_Read n bs =
     (if bs = [] then (if n = 0 then (Inr [], []) else (Inl io_EOF, []))
      else (Inr (take n bs), drop n bs))"

text \<open>\<open>Next(n)\<close> returns at most \<open>n\<close> bytes and never fails.\<close>

definition buf_Next :: "nat \<Rightarrow> bytes \<Rightarrow> bytes \<times> bytes" where
  "buf_Next n bs = (take n bs, drop n bs)"

section \<open>bufio.Reader\<close>

text \<open>
  The underlying connection is the list of chunks its successive \<open>Read\<close> calls return
  (each at least one byte); an exhausted list is the end of the stream. The reader keeps
  the bytes it has fetched and not handed out. \<open>Read\<close> fetches at most once, and only when
  nothing is buffered.
\<close>

record bufio =
  bufd :: bytes
  src :: "bytes list"

definition bufio_size :: nat where "bufio_size = 4096"

fun src_Read :: "nat \<Rightarrow> (bytes list, bytes) rd" where
  "src_Read n [] = (Inl io_EOF, [])"
| "src_Read n (c # cs) =
     (if length c \<le> n then (Inr c, cs) else (Inr (take n c), drop n c # cs))"

definition bufio_ReadByte :: "(bufio, byte) rd" where
  "bufio_ReadByte r =
     (case bufd r of
        b # bs \<Rightarrow> (Inr b, r\<lparr>bufd := bs\<rparr>)
      | [] \<Rightarrow>
          (case src_Read bufio_size (src r) of
             (Inl e, s) \<Rightarrow> (Inl e, r\<lparr>src := s\<rparr>)
           | (Inr [], s) \<Rightarrow> (Inl (NewErr ''multiple Read calls return no data or error''), r\<lparr>src := s\<rparr>)
           | (Inr (b # bs), s) \<Rightarrow> (Inr b, \<lparr>bufd = bs, src = s\<rparr>)))"

definition bufio_Read :: "nat \<Rightarrow> (bufio, bytes) rd" where
  "bufio_Read n r =
     (if n = 0 then (Inr [], r)
      else if bufd r \<noteq> [] then (Inr (take n (bufd r)), r\<lparr>bufd := drop n (bufd r)\<rparr>)
      else if bufio_size \<le> n then
        (case src_Read n (src r) of
           (Inl e, s) \<Rightarrow> (Inl e, r\<lparr>src := s\<rparr>)
         | (Inr c, s) \<Rightarrow> (Inr c, r\<lparr>src := s\<rparr>))
      else
        (case src_Read bufio_size (src r) of
           (Inl e, s) \<Rightarrow> (Inl e, r\<lparr>src := s\<rparr>)
         | (Inr c, s) \<Rightarrow> (Inr (take n c), \<lparr>bufd = drop n c, src = s\<rparr>)))"

definition bufio_content :: "bufio \<Rightarrow> bytes" where
  "bufio_content r = bufd r @ concat (src r)"

definition bufio_inv :: "bufio \<Rightarrow> bool" where
  "bufio_inv r \<longleftrightarrow> [] \<notin> set (src r)"

definition bufio_NewReader :: "bytes list \<Rightarrow> bufio" where
  "bufio_NewReader cs = \<lparr>bufd = [], src = cs\<rparr>"

section \<open>io.ReadFull\<close>

text \<open>
  \<open>io.ReadFull\<close> calls \<open>Read\<close> until the slice is full or an error comes. The result is the
  bytes read and the error. The fuel bounds the number of calls; \<open>n\<close> calls are enough for
  \<open>n\<close> bytes when every call makes progress (lemma \<open>ReadFull_reads\<close> below).
\<close>

fun ReadFull_loop :: "(nat \<Rightarrow> ('r, bytes) rd) \<Rightarrow> nat \<Rightarrow> nat \<Rightarrow> bytes \<Rightarrow> 'r \<Rightarrow> (bytes \<times> goerr option) \<times> 'r" where
  "ReadFull_loop read fuel 0 acc r = ((acc, None), r)"
| "ReadFull_loop read 0 (Suc n) acc r = ((acc, Some (NewErr ''no progress'')), r)"
| "ReadFull_loop read (Suc fuel) (Suc n) acc r =
     (case read (Suc n) r of
        (Inl e, r') \<Rightarrow> ((acc, Some (if acc \<noteq> [] \<and> e = io_EOF then io_ErrUnexpectedEOF else e)), r')
      | (Inr xs, r') \<Rightarrow> ReadFull_loop read fuel (Suc n - length xs) (acc @ xs) r')"

definition ReadFull :: "(nat \<Rightarrow> ('r, bytes) rd) \<Rightarrow> nat \<Rightarrow> 'r \<Rightarrow> (bytes \<times> goerr option) \<times> 'r" where
  "ReadFull read n r = ReadFull_loop read n n [] r"

text \<open>Callers that give up on any error.\<close>

definition rd_full :: "(nat \<Rightarrow> ('r, bytes) rd) \<Rightarrow> nat \<Rightarrow> ('r, bytes) rd" where
  "rd_full read n r =
     (case ReadFull read n r of
        ((bs, None), r') \<Rightarrow> (Inr bs, r') | ((bs, Some e), r') \<Rightarrow> (Inl e, r'))"

text \<open>The pattern \<open>n, err = buf.Read(bs); if err ...; if n != k { err = ErrShortRead }\<close>.\<close>

definition read_exact :: "(nat \<Rightarrow> ('r, bytes) rd) \<Rightarrow> nat \<Rightarrow> ('r, bytes) rd" where
  "read_exact read n =
     rd_bind (read n) (\<lambda>bs. if length bs \<noteq> n then rd_fail ErrShortRead else rd_ok bs)"

section \<open>The interface\<close>

text \<open>What a connection's \<open>Read\<close> promises: the bytes it hands out are the next ones, in order,
  and it makes progress while bytes remain.\<close>

locale stream_reader =
  fixes Read :: "nat \<Rightarrow> ('r, bytes) rd"
    and content :: "'r \<Rightarrow> bytes"
    and inv :: "'r \<Rightarrow> bool"
  assumes Read_split:
      "inv r \<Longrightarrow> Read n r = (Inr xs, r') \<Longrightarrow> inv r' \<and> content r = xs @ content r' \<and> length xs \<le> n"
    and Read_progress:
      "inv r \<Longrightarrow> content r \<noteq> [] \<Longrightarrow> 0 < n \<Longrightarrow> \<exists>xs r'. Read n r = (Inr xs, r') \<and> xs \<noteq> []"
    and Read_Nil:
      "inv r \<Longrightarrow> content r = [] \<Longrightarrow> 0 < n \<Longrightarrow> \<exists>r'. Read n r = (Inl io_EOF, r') \<and> inv r' \<and> content r' = []"
begin

text \<open>\<open>io.ReadFull\<close> hides how the bytes are chunked: it succeeds exactly when enough bytes
  are left, and then returns exactly those.\<close>

lemma ReadFull_loop_reads:
  assumes "inv r" "n \<le> fuel" "n \<le> length (content r)"
  shows "\<exists>r'. ReadFull_loop Read fuel n acc r = ((acc @ take n (content r), None), r')
    \<and> inv r' \<and> content r' = drop n (content r)"
  using assms
proof (induction fuel arbitrary: n acc r)
  case 0
  then show ?case by simp
next
  case (Suc fuel)
  show ?case
  proof (cases n)
    case 0
    with Suc.prems show ?thesis by simp
  next
    case [simp]: (Suc m)
    from Suc.prems(3) have ne0: "content r \<noteq> []" by auto
    have "0 < n" by simp
    from Read_progress [OF Suc.prems(1) ne0 this] obtain xs r1 where
      rd: "Read n r = (Inr xs, r1)" and ne: "xs \<noteq> []" by blast
    from Read_split [OF Suc.prems(1) rd] have r1: "inv r1" "content r = xs @ content r1" "length xs \<le> n"
      by auto
    from ne have "0 < length xs" by simp
    with Suc.prems(2) have a: "n - length xs \<le> fuel" by linarith
    from Suc.prems(3) r1(2) have b: "n - length xs \<le> length (content r1)" by simp
    from Suc.IH [OF r1(1) a b, of "acc @ xs"] obtain r2 where
      "ReadFull_loop Read fuel (n - length xs) (acc @ xs) r1
         = (((acc @ xs) @ take (n - length xs) (content r1), None), r2)"
      and "inv r2" "content r2 = drop (n - length xs) (content r1)" by blast
    with rd r1(2,3) show ?thesis by simp
  qed
qed

lemma rd_full_reads:
  assumes "inv r" "n \<le> length (content r)"
  shows "\<exists>r'. rd_full Read n r = (Inr (take n (content r)), r') \<and> inv r' \<and> content r' = drop n (content r)"
  using ReadFull_loop_reads [OF assms(1) order.refl assms(2), of "[]"]
  by (auto simp: rd_full_def ReadFull_def)

lemma ReadFull_loop_success:
  assumes "inv r" "ReadFull_loop Read fuel n acc r = ((bs, None), r')"
  shows "\<exists>ys. bs = acc @ ys \<and> length ys = n \<and> content r = ys @ content r' \<and> inv r'"
  using assms
proof (induction fuel arbitrary: n acc r)
  case 0
  then show ?case by (cases n) auto
next
  case (Suc fuel)
  show ?case
  proof (cases n)
    case 0
    with Suc.prems show ?thesis by auto
  next
    case [simp]: (Suc m)
    obtain xs r1 where rd: "Read n r = (Inr xs, r1)"
      and rest: "ReadFull_loop Read fuel (n - length xs) (acc @ xs) r1 = ((bs, None), r')"
      using Suc.prems(2) by (auto split: prod.splits sum.splits)
    from Read_split [OF Suc.prems(1) rd] have r1: "inv r1" "content r = xs @ content r1" "length xs \<le> n"
      by auto
    from Suc.IH [OF r1(1) rest] r1 show ?thesis by auto
  qed
qed

lemma rd_full_success:
  assumes "inv r" "rd_full Read n r = (Inr bs, r')"
  shows "length bs = n \<and> content r = bs @ content r' \<and> inv r'"
proof -
  have "ReadFull_loop Read n n [] r = ((bs, None), r')"
    using assms(2) by (auto simp: rd_full_def ReadFull_def split: prod.splits option.splits)
  from ReadFull_loop_success [OF assms(1) this] show ?thesis by auto
qed

text \<open>Any successful series of reads delivers a prefix of the content.\<close>

fun reads :: "nat list \<Rightarrow> ('r, bytes) rd" where
  "reads [] = rd_ok []"
| "reads (n # ns) = rd_bind (Read n) (\<lambda>xs. rd_bind (reads ns) (\<lambda>ys. rd_ok (xs @ ys)))"

lemma reads_prefix:
  "inv r \<Longrightarrow> reads ns r = (Inr xs, r') \<Longrightarrow> inv r' \<and> content r = xs @ content r'"
proof (induction ns arbitrary: r xs)
  case Nil
  then show ?case by simp
next
  case (Cons n ns)
  from Cons.prems(2) obtain ys r1 zs where "Read n r = (Inr ys, r1)" "reads ns r1 = (Inr zs, r')" "xs = ys @ zs"
    by (auto elim!: rd_bind_InrE)
  with Read_split [OF Cons.prems(1)] Cons.IH [of r1 zs] show ?case by auto
qed

text \<open>After a series of reads the next one goes on where the series stopped.\<close>

lemma reads_then_next:
  assumes "inv r" "reads ns r = (Inr got, st)" "0 < n"
  shows "\<exists>rest. content r = got @ rest \<and>
    (if rest = [] then fst (Read n st) = Inl io_EOF
     else \<exists>xs. fst (Read n st) = Inr xs \<and> xs \<noteq> [] \<and> prefix xs rest)"
proof -
  from reads_prefix [OF assms(1,2)] have st: "inv st" "content r = got @ content st" by auto
  show ?thesis
  proof (cases "content st = []")
    case True
    with Read_Nil [OF st(1) True assms(3)] st(2) show ?thesis by (intro exI [of _ "[]"]) auto
  next
    case False
    with Read_progress [OF st(1) False assms(3)] obtain xs st' where
      rd: "Read n st = (Inr xs, st')" and "xs \<noteq> []" by blast
    with Read_split [OF st(1) rd] st(2) False show ?thesis by (intro exI [of _ "content st"]) auto
  qed
qed

end

locale byte_reader = stream_reader Read content inv
  for ReadByte :: "('r, byte) rd" and Read :: "nat \<Rightarrow> ('r, bytes) rd"
    and content :: "'r \<Rightarrow> bytes" and inv :: "'r \<Rightarrow> bool" +
  assumes ReadByte_Cons:
      "inv r \<Longrightarrow> content r = b # bs \<Longrightarrow> \<exists>r'. ReadByte r = (Inr b, r') \<and> inv r' \<and> content r' = bs"
    and ReadByte_Nil:
      "inv r \<Longrightarrow> content r = [] \<Longrightarrow> \<exists>r'. ReadByte r = (Inl io_EOF, r')"
begin

text \<open>
  A computation on the reader refines one on \<open>bytes.Buffer\<close> when each of its successes is
  the success of the buffer computation on the reader's content: it may fail more often
  (a short \<open>Read\<close>), but it never returns something else and never skips a byte.
\<close>

definition refines :: "('r, 'a) rd \<Rightarrow> (bytes, 'a) rd \<Rightarrow> bool" where
  "refines m mb \<longleftrightarrow>
     (\<forall>r v r'. inv r \<longrightarrow> m r = (Inr v, r') \<longrightarrow> inv r' \<and> mb (content r) = (Inr v, content r'))"

lemma refinesI:
  "(\<And>r v r'. inv r \<Longrightarrow> m r = (Inr v, r') \<Longrightarrow> inv r' \<and> mb (content r) = (Inr v, content r'))
    \<Longrightarrow> refines m mb"
  by (auto simp: refines_def)

lemma refinesD:
  "refines m mb \<Longrightarrow> inv r \<Longrightarrow> m r = (Inr v, r') \<Longrightarrow> inv r' \<and> mb (content r) = (Inr v, content r')"
  by (auto simp: refines_def)

lemma refines_ok: "refines (rd_ok x) (rd_ok x)"
  by (auto simp: refines_def)

lemma refines_fail: "refines (rd_fail e) mb"
  by (auto simp: refines_def)

lemma refines_bind:
  "refines m mb \<Longrightarrow> (\<And>x. refines (f x) (g x)) \<Longrightarrow> refines (rd_bind m f) (rd_bind mb g)"
proof (rule refinesI)
  fix r v r' assume m: "refines m mb" and f: "\<And>x. refines (f x) (g x)"
    and inv: "inv r" and "rd_bind m f r = (Inr v, r')"
  then obtain x s where 1: "m r = (Inr x, s)" and 2: "f x s = (Inr v, r')"
    by (elim rd_bind_InrE)
  from refinesD [OF m inv 1] have "inv s" and mb: "mb (content r) = (Inr x, content s)" by auto
  from refinesD [OF f this(1) 2] mb
  show "inv r' \<and> rd_bind mb g (content r) = (Inr v, content r')" by (simp add: rd_bind_Inr)
qed

lemma refines_if:
  "(c \<Longrightarrow> refines m mb) \<Longrightarrow> (\<not> c \<Longrightarrow> refines m' mb') \<Longrightarrow>
    refines (if c then m else m') (if c then mb else mb')"
  by simp

lemma refines_ReadByte: "refines ReadByte buf_ReadByte"
proof (rule refinesI)
  fix r v r' assume "inv r" "ReadByte r = (Inr v, r')"
  then show "inv r' \<and> buf_ReadByte (content r) = (Inr v, content r')"
    using ReadByte_Cons ReadByte_Nil by (cases "content r") fastforce+
qed

lemma refines_read_exact:
  assumes "0 < n"
  shows "refines (read_exact Read n) (read_exact buf_Read n)"
proof (rule refinesI)
  fix r v r' assume inv: "inv r" and "read_exact Read n r = (Inr v, r')"
  then have rd: "Read n r = (Inr v, r')" and len: "length v = n"
    by (auto simp: read_exact_def elim!: rd_bind_InrE split: if_splits)
  from Read_split [OF inv rd] have "inv r'" and c: "content r = v @ content r'" by auto
  moreover have "buf_Read n (content r) = (Inr v, content r')"
    using len assms by (auto simp: buf_Read_def c)
  ultimately show "inv r' \<and> read_exact buf_Read n (content r) = (Inr v, content r')"
    using len by (simp add: read_exact_def rd_bind_Inr)
qed

lemmas refines_intros = refines_ok refines_fail refines_bind refines_if refines_ReadByte

end

locale full_reader = byte_reader ReadByte Read content inv
  for ReadByte :: "('r, byte) rd" and Read :: "nat \<Rightarrow> ('r, bytes) rd"
    and content :: "'r \<Rightarrow> bytes" and inv :: "'r \<Rightarrow> bool" +
  assumes Read_full:
    "inv r \<Longrightarrow> content r \<noteq> [] \<Longrightarrow> 0 < n \<Longrightarrow>
      \<exists>r'. Read n r = (Inr (take n (content r)), r') \<and> inv r' \<and> content r' = drop n (content r)"
begin

text \<open>A reader whose \<open>Read\<close> is never short behaves as the buffer, failures included.\<close>

definition mirrors :: "('r, 'a) rd \<Rightarrow> (bytes, 'a) rd \<Rightarrow> bool" where
  "mirrors m mb \<longleftrightarrow> (\<forall>r. inv r \<longrightarrow> fst (m r) = fst (mb (content r))
     \<and> (isl (fst (m r)) \<or> inv (snd (m r)) \<and> content (snd (m r)) = snd (mb (content r))))"

lemma mirrors_ok: "mirrors (rd_ok x) (rd_ok x)"
  by (simp add: mirrors_def)

lemma mirrors_fail: "mirrors (rd_fail e) (rd_fail e)"
  by (simp add: mirrors_def)

lemma mirrors_bind:
  assumes "mirrors m mb" "\<And>x. mirrors (f x) (g x)"
  shows "mirrors (rd_bind m f) (rd_bind mb g)"
  unfolding mirrors_def
proof (intro allI impI)
  fix r assume inv: "inv r"
  with assms(1) have m: "fst (m r) = fst (mb (content r))"
    "isl (fst (m r)) \<or> inv (snd (m r)) \<and> content (snd (m r)) = snd (mb (content r))"
    by (auto simp: mirrors_def)
  show "fst (rd_bind m f r) = fst (rd_bind mb g (content r)) \<and>
    (isl (fst (rd_bind m f r)) \<or> inv (snd (rd_bind m f r)) \<and>
     content (snd (rd_bind m f r)) = snd (rd_bind mb g (content r)))"
  proof (cases "m r")
    case (Pair v s)
    show ?thesis
    proof (cases v)
      case (Inl e)
      with Pair m(1) have "fst (mb (content r)) = Inl e" by simp
      then show ?thesis using Pair Inl by (cases "mb (content r)") (simp add: rd_bind_def)
    next
      case (Inr x)
      have "fst (m r) = Inr x" "snd (m r) = s" using Pair Inr by simp_all
      with m have "fst (mb (content r)) = Inr x" and "snd (mb (content r)) = content s" and s: "inv s"
        by (metis sum.disc(2))+
      then have "mb (content r) = (Inr x, content s)" by (metis prod.collapse)
      with s show ?thesis using Pair Inr assms(2) [of x] by (auto simp: rd_bind_def mirrors_def)
    qed
  qed
qed

lemma mirrors_if:
  "(c \<Longrightarrow> mirrors m mb) \<Longrightarrow> (\<not> c \<Longrightarrow> mirrors m' mb') \<Longrightarrow>
    mirrors (if c then m else m') (if c then mb else mb')"
  by simp

lemma mirrors_ReadByte: "mirrors ReadByte buf_ReadByte"
  unfolding mirrors_def
proof (intro allI impI)
  fix r assume "inv r"
  then show "fst (ReadByte r) = fst (buf_ReadByte (content r)) \<and>
    (isl (fst (ReadByte r)) \<or> inv (snd (ReadByte r)) \<and> content (snd (ReadByte r)) = snd (buf_ReadByte (content r)))"
    using ReadByte_Cons ReadByte_Nil by (cases "content r") fastforce+
qed

lemma mirrors_Read:
  assumes "0 < n"
  shows "mirrors (Read n) (buf_Read n)"
  unfolding mirrors_def
proof (intro allI impI)
  fix r assume inv: "inv r"
  show "fst (Read n r) = fst (buf_Read n (content r)) \<and>
    (isl (fst (Read n r)) \<or> inv (snd (Read n r)) \<and> content (snd (Read n r)) = snd (buf_Read n (content r)))"
  proof (cases "content r = []")
    case True
    from Read_Nil [OF inv True assms] obtain r' where "Read n r = (Inl io_EOF, r')" by blast
    with True assms show ?thesis by (simp add: buf_Read_def)
  next
    case False
    from Read_full [OF inv False assms] obtain r' where
      "Read n r = (Inr (take n (content r)), r')" "inv r'" "content r' = drop n (content r)" by blast
    with False show ?thesis by (simp add: buf_Read_def)
  qed
qed

lemma mirrors_read_exact: "0 < n \<Longrightarrow> mirrors (read_exact Read n) (read_exact buf_Read n)"
  unfolding read_exact_def
  by (intro mirrors_bind mirrors_Read mirrors_if mirrors_ok mirrors_fail)

end

section \<open>The two readers satisfy it\<close>

interpretation bytes_buffer: full_reader buf_ReadByte buf_Read "\<lambda>bs. bs" "\<lambda>_. True"
proof unfold_locales
  fix n :: nat and r :: bytes and xs r'
  assume "buf_Read n r = (Inr xs, r')"
  then show "True \<and> r = xs @ r' \<and> length xs \<le> n"
    by (auto simp: buf_Read_def split: if_splits)
qed (auto simp: buf_Read_def)

lemma take_drop_take: "n \<le> m \<Longrightarrow> take n xs @ drop n (take m xs) @ drop m xs = xs"
  by (metis append.assoc append_take_drop_id min.absorb1 take_take)

interpretation bufio_reader: byte_reader bufio_ReadByte bufio_Read bufio_content bufio_inv
proof unfold_locales
  fix r b bs assume "bufio_inv r" "bufio_content r = b # bs"
  then show "\<exists>r'. bufio_ReadByte r = (Inr b, r') \<and> bufio_inv r' \<and> bufio_content r' = bs"
    by (cases "bufd r"; cases "src r"; cases "hd (src r)")
      (auto simp: bufio_ReadByte_def bufio_inv_def bufio_content_def bufio_size_def
        take_Cons' drop_Cons' split: if_splits)
next
  fix r assume "bufio_inv r" "bufio_content r = []"
  then show "\<exists>r'. bufio_ReadByte r = (Inl io_EOF, r')"
    by (cases "src r") (auto simp: bufio_ReadByte_def bufio_inv_def bufio_content_def)
next
  fix r n xs r' assume "bufio_inv r" "bufio_Read n r = (Inr xs, r')"
  then show "bufio_inv r' \<and> bufio_content r = xs @ bufio_content r' \<and> length xs \<le> n"
    by (cases "src r")
      (auto simp: bufio_Read_def bufio_inv_def bufio_content_def bufio_size_def
        take_drop_take split: if_splits sum.splits prod.splits)
next
  fix r and n :: nat assume "bufio_inv r" "bufio_content r \<noteq> []" "0 < n"
  then show "\<exists>xs r'. bufio_Read n r = (Inr xs, r') \<and> xs \<noteq> []"
    by (cases "src r") (auto simp: bufio_Read_def bufio_inv_def bufio_content_def bufio_size_def)
next
  fix r and n :: nat assume "bufio_inv r" "bufio_content r = []" "0 < n"
  then show "\<exists>r'. bufio_Read n r = (Inl io_EOF, r') \<and> bufio_inv r' \<and> bufio_content r' = []"
    by (cases "src r") (auto simp: bufio_Read_def bufio_inv_def bufio_content_def)
qed

section \<open>Parsing from a buffer\<close>

text \<open>\<open>parses m bs v\<close>: the parser \<open>m\<close> takes exactly \<open>bs\<close> off the front of any buffer that
  starts with it, and returns \<open>v\<close>.\<close>

definition parses :: "(bytes, 'a) rd \<Rightarrow> bytes \<Rightarrow> 'a \<Rightarrow> bool" where
  "parses m bs v \<longleftrightarrow> (\<forall>rest. m (bs @ rest) = (Inr v, rest))"

lemma parsesD: "parses m bs v \<Longrightarrow> m (bs @ rest) = (Inr v, rest)"
  by (simp add: parses_def)

lemma parsesD_all: "parses m bs v \<Longrightarrow> m bs = (Inr v, [])"
  using parsesD [of m bs v "[]"] by simp

lemma parses_ok [intro]: "parses (rd_ok v) [] v"
  by (simp add: parses_def)

lemma parses_bind: "parses m xs v \<Longrightarrow> parses (f v) ys w \<Longrightarrow> parses (rd_bind m f) (xs @ ys) w"
  by (simp add: parses_def rd_bind_def)

lemma parses_ReadByte_bind: "parses (f b) ys w \<Longrightarrow> parses (rd_bind buf_ReadByte f) (b # ys) w"
  by (simp add: parses_def rd_bind_def)

lemma parses_exact: "0 < n \<Longrightarrow> length xs = n \<Longrightarrow> parses (read_exact buf_Read n) xs xs"
  by (auto simp: parses_def read_exact_def buf_Read_def rd_bind_def)

lemma parses_exact_ok:
  "0 < n \<Longrightarrow> length xs = n \<Longrightarrow> parses (rd_bind (read_exact buf_Read n) (\<lambda>bs. rd_ok (f bs))) xs (f xs)"
  by (auto simp: parses_def read_exact_def buf_Read_def rd_bind_def)

lemma rd_full_buf:
  "n \<le> length bs \<Longrightarrow> rd_full buf_Read n bs = (Inr (take n bs), drop n bs)"
  using bytes_buffer.rd_full_reads [where r = bs and n = n] by auto

lemma parses_full: "length xs = n \<Longrightarrow> parses (rd_full buf_Read n) xs xs"
  by (simp add: parses_def rd_full_buf)

text \<open>Inversion of the buffer reads.\<close>

lemma buf_ReadByte_InrE:
  assumes "buf_ReadByte r = (Inr b, s)"
  obtains "r = b # s"
  using assms by (cases r) auto

lemma read_exact_buf_InrE:
  assumes "read_exact buf_Read n r = (Inr bs, s)"
  obtains "length bs = n" "r = bs @ s"
  using assms
  by (auto simp: read_exact_def buf_Read_def elim!: rd_bind_InrE split: if_splits)

lemma rd_full_buf_InrE:
  assumes "rd_full buf_Read n r = (Inr bs, s)"
  obtains "length bs = n" "r = bs @ s"
  using bytes_buffer.rd_full_success [OF _ assms] by auto

lemmas buf_elims = rd_bind_InrE buf_ReadByte_InrE read_exact_buf_InrE rd_full_buf_InrE

section \<open>What is already buffered\<close>

text \<open>
  A computation that succeeds on the bytes a \<open>bufio.Reader\<close> has already fetched does the
  same on the reader, without touching the connection.
\<close>

definition bufd_local :: "(bufio, 'a) rd \<Rightarrow> (bytes, 'a) rd \<Rightarrow> bool" where
  "bufd_local m mb \<longleftrightarrow> (\<forall>r v bs. mb (bufd r) = (Inr v, bs) \<longrightarrow> m r = (Inr v, r\<lparr>bufd := bs\<rparr>))"

lemma bufd_localD: "bufd_local m mb \<Longrightarrow> mb (bufd r) = (Inr v, bs) \<Longrightarrow> m r = (Inr v, r\<lparr>bufd := bs\<rparr>)"
  by (simp add: bufd_local_def)

lemma bufd_local_ok: "bufd_local (rd_ok x) (rd_ok x)"
  by (simp add: bufd_local_def)

lemma bufd_local_fail: "bufd_local m (rd_fail e)"
  by (simp add: bufd_local_def)

lemma bufd_local_bind:
  assumes "bufd_local m mb" "\<And>x. bufd_local (f x) (g x)"
  shows "bufd_local (rd_bind m f) (rd_bind mb g)"
  unfolding bufd_local_def
proof (intro allI impI)
  fix r :: bufio and v bs assume "rd_bind mb g (bufd r) = (Inr v, bs)"
  then obtain x cs where "mb (bufd r) = (Inr x, cs)" and g: "g x cs = (Inr v, bs)"
    by (elim rd_bind_InrE)
  from bufd_localD [OF assms(1) this(1)] have "m r = (Inr x, r\<lparr>bufd := cs\<rparr>)" .
  moreover have "f x (r\<lparr>bufd := cs\<rparr>) = (Inr v, r\<lparr>bufd := bs\<rparr>)"
    using bufd_localD [OF assms(2), of x "r\<lparr>bufd := cs\<rparr>"] g by simp
  ultimately show "rd_bind m f r = (Inr v, r\<lparr>bufd := bs\<rparr>)" by (simp add: rd_bind_Inr)
qed

lemma bufd_local_if:
  "(c \<Longrightarrow> bufd_local m mb) \<Longrightarrow> (\<not> c \<Longrightarrow> bufd_local m' mb') \<Longrightarrow>
    bufd_local (if c then m else m') (if c then mb else mb')"
  by simp

lemma bufd_local_ReadByte: "bufd_local bufio_ReadByte buf_ReadByte"
  by (auto simp: bufd_local_def bufio_ReadByte_def elim!: buf_ReadByte_InrE)

lemma bufd_local_read_exact:
  assumes "0 < n"
  shows "bufd_local (read_exact bufio_Read n) (read_exact buf_Read n)"
  unfolding bufd_local_def
proof (intro allI impI)
  fix r :: bufio and v bs assume "read_exact buf_Read n (bufd r) = (Inr v, bs)"
  then have "length v = n" "bufd r = v @ bs" by (auto elim: read_exact_buf_InrE)
  with assms show "read_exact bufio_Read n r = (Inr v, r\<lparr>bufd := bs\<rparr>)"
    by (auto simp: read_exact_def bufio_Read_def rd_bind_def)
qed

lemmas bufd_local_intros = bufd_local_ok bufd_local_fail bufd_local_bind bufd_local_if bufd_local_ReadByte

text \<open>The reader inside one chunk: \<open>ys\<close> is what is left of the chunk, \<open>cs\<close> what follows it.\<close>

definition in_chunk :: "bufio \<Rightarrow> bytes \<Rightarrow> bytes list \<Rightarrow> bool" where
  "in_chunk r ys cs \<longleftrightarrow> (\<exists>x. ys = bufd r @ x \<and> src r = (if x = [] then cs else x # cs))"

lemma drop_split: "n \<le> m \<Longrightarrow> drop n (take m xs) @ drop m xs = drop n xs"
  by (metis append_same_eq append_take_drop_id same_append_eq take_drop_take)

lemma bufio_Read_in_chunk:
  assumes "in_chunk r ys cs" "0 < n" "ys \<noteq> []"
  shows "\<exists>k r'. bufio_Read n r = (Inr (take k ys), r') \<and> 0 < k \<and> k \<le> n \<and> k \<le> length ys
    \<and> in_chunk r' (drop k ys) cs"
proof -
  from assms(1) obtain x where x: "ys = bufd r @ x" "src r = (if x = [] then cs else x # cs)"
    by (auto simp: in_chunk_def)
  consider "bufd r \<noteq> []" | "bufd r = []" "bufio_size \<le> n" | "bufd r = []" "n < bufio_size" by linarith
  then show ?thesis
  proof cases
    case 1
    with assms(2) x show ?thesis
      by (intro exI [of _ "min n (length (bufd r))"])
        (auto simp: bufio_Read_def in_chunk_def min_def)
  next
    case 2
    with assms(2,3) x have "x \<noteq> []" by simp
    with 2 x assms(2) show ?thesis
      by (intro exI [of _ "min n (length x)"]) (auto simp: bufio_Read_def in_chunk_def min_def)
  next
    case 3
    with assms(2,3) x have "x \<noteq> []" by simp
    let ?k = "min n (length x)"
    show ?thesis
    proof (cases "length x \<le> bufio_size")
      case True
      with 3 x assms(2) \<open>x \<noteq> []\<close> have "bufio_Read n r = (Inr (take ?k ys), \<lparr>bufd = drop ?k x, src = cs\<rparr>)"
        by (auto simp: bufio_Read_def min_def)
      moreover have "in_chunk \<lparr>bufd = drop ?k x, src = cs\<rparr> (drop ?k ys) cs"
        using 3 x by (auto simp: in_chunk_def)
      ultimately show ?thesis using 3 x assms(2) \<open>x \<noteq> []\<close> by (intro exI [of _ ?k]) auto
    next
      case False
      let ?r = "\<lparr>bufd = drop n (take bufio_size x), src = drop bufio_size x # cs\<rparr>"
      from False 3 x \<open>x \<noteq> []\<close> assms(2) have "bufio_Read n r = (Inr (take n ys), ?r)"
        by (simp add: bufio_Read_def min_def)
      moreover have "in_chunk ?r (drop n ys) cs"
        using False 3 x
        unfolding in_chunk_def by (intro exI [of _ "drop bufio_size x"]) (simp add: drop_split)
      ultimately show ?thesis using False 3 x assms(2) by (intro exI [of _ n]) auto
    qed
  qed
qed

lemma ReadFull_loop_in_chunk:
  assumes "in_chunk r ys cs" "n \<le> fuel" "n \<le> length ys"
  shows "\<exists>r'. ReadFull_loop bufio_Read fuel n acc r = ((acc @ take n ys, None), r') \<and> in_chunk r' (drop n ys) cs"
  using assms
proof (induction fuel arbitrary: n acc r ys)
  case 0
  then show ?case by simp
next
  case (Suc fuel)
  show ?case
  proof (cases n)
    case 0
    with Suc.prems show ?thesis by auto
  next
    case [simp]: (Suc m)
    from Suc.prems(3) have "ys \<noteq> []" "0 < n" by auto
    from bufio_Read_in_chunk [OF Suc.prems(1) this(2,1)] obtain k r1 where
      rd: "bufio_Read n r = (Inr (take k ys), r1)" and k: "0 < k" "k \<le> n" "k \<le> length ys"
      and r1: "in_chunk r1 (drop k ys) cs" by blast
    have "n - k \<le> fuel" "n - k \<le> length (drop k ys)" using Suc.prems k by auto
    from Suc.IH [OF r1 this, of "acc @ take k ys"] rd k show ?thesis
      by (auto simp: min_def) (metis append_take_drop_id le_add_diff_inverse take_add take_drop)
  qed
qed

lemma rd_full_in_chunk:
  "in_chunk r ys cs \<Longrightarrow> n \<le> length ys \<Longrightarrow>
    \<exists>r'. rd_full bufio_Read n r = (Inr (take n ys), r') \<and> in_chunk r' (drop n ys) cs"
  using ReadFull_loop_in_chunk [of r ys cs n n "[]"] by (auto simp: rd_full_def ReadFull_def)

lemma in_chunk_end: "in_chunk r [] cs \<Longrightarrow> r = \<lparr>bufd = [], src = cs\<rparr>"
  by (cases r) (auto simp: in_chunk_def)

text \<open>The first byte of a chunk fetches the chunk.\<close>

definition fetch :: "bytes \<Rightarrow> bytes list \<Rightarrow> bufio" where
  "fetch c cs = (if length c \<le> bufio_size then \<lparr>bufd = c, src = cs\<rparr>
     else \<lparr>bufd = take bufio_size c, src = drop bufio_size c # cs\<rparr>)"

lemma bufio_ReadByte_fetch:
  "c \<noteq> [] \<Longrightarrow> bufio_ReadByte \<lparr>bufd = [], src = c # cs\<rparr> = bufio_ReadByte (fetch c cs)"
  by (auto simp: bufio_ReadByte_def fetch_def split: list.splits)

lemma in_chunk_fetch: "in_chunk (fetch c cs) c cs"
proof (cases "length c \<le> bufio_size")
  case False
  then show ?thesis unfolding in_chunk_def fetch_def
    by (intro exI [of _ "drop bufio_size c"]) simp
qed (simp add: in_chunk_def fetch_def)

lemma bufd_fetch: "bufd (fetch c cs) = take bufio_size c"
  by (simp add: fetch_def)

section \<open>Reading a header into a buffer\<close>

text \<open>The size of the buffers that handshakes read into (utils/pool.go).\<close>

definition MTU :: nat where "MTU = 1500"

text \<open>\<open>ReadByte\<close> with its error ignored yields byte 0 on an empty buffer.\<close>

definition buf_ReadByte0 :: "(bytes, byte) rd" where
  "buf_ReadByte0 bs = (case bs of [] \<Rightarrow> (Inr 0, []) | b # r \<Rightarrow> (Inr b, r))"

lemma src_Read_rest:
  "src_Read n conn = (Inr got, conn') \<Longrightarrow> length got < n \<Longrightarrow> length conn' < length conn"
  by (cases conn) (auto split: if_splits)

lemma buf_ReadByte0_InrE:
  assumes "buf_ReadByte0 r = (Inr b, s)"
  obtains "r = b # s" | "r = []" "b = 0" "s = []"
  using assms by (cases r) (auto simp: buf_ReadByte0_def)

lemma src_Read_split: "src_Read n conn = (Inr got, conn') \<Longrightarrow> concat conn = got @ concat conn'"
  by (cases conn) (auto split: if_splits)

lemma src_Read_first:
  "src_Read n (c # cs) = (Inr (take n c), if length c \<le> n then cs else drop n c # cs)"
  by auto

end
