(* ===== verification/NetAddr.thy ===== *)
theory NetAddr
  imports GoReader
begin

text \<open>
  Addresses (netLayer/addr.go) and the network names (netLayer/const.go): the record
  \<open>Addr\<close>, its comparable form \<open>HashableAddr\<close>, the address bytes every protocol writes,
  and the reader of the vmess/vless address format. A \<open>net.IP\<close> is nil (None) or a byte
  slice; nothing in Go forces its length to be 4 or 16. Ports are Go \<open>int\<close>s.
\<close>

section \<open>Networks\<close>

definition UnknownNetwork :: "16 word" where "UnknownNetwork = 0"
definition TCP :: "16 word" where "TCP = push_bit 0 1"
definition UDP :: "16 word" where "UDP = push_bit 1 1"
definition Dual :: "16 word" where "Dual = push_bit 2 1"
definition UNIX :: "16 word" where "UNIX = push_bit 3 1"
definition IP_network :: "16 word" where "IP_network = push_bit 4 1"
definition Raw_socket :: "16 word" where "Raw_socket = push_bit 5 1"
definition KCP :: "16 word" where "KCP = push_bit 6 1"
definition Quic :: "16 word" where "Quic = push_bit 7 1"

lemmas network_defs [model_defs] = UnknownNetwork_def TCP_def UDP_def Dual_def UNIX_def
  IP_network_def Raw_socket_def KCP_def Quic_def

definition DualNetworkName :: string where "DualNetworkName = ''dual''"

definition StrToTransportProtocol :: "string \<Rightarrow> 16 word" where
  "StrToTransportProtocol s =
     (if s \<in> {''tcp'', ''tcp4'', ''tcp6'', ''TCP'', ''TCP4'', ''TCP6''} then TCP
      else if s \<in> {''ip'', ''ipv4'', ''ipv6'', ''ip4'', ''ip6''} then IP_network
      else if s \<in> {''udp'', ''udp4'', ''udp6'', ''UDP'', ''UDP4'', ''UDP6''} then UDP
      else if s \<in> {DualNetworkName, ''mix'', ''mixed'', ''Mix'', ''MIX''} then Dual
      else if s \<in> {''unix'', ''Unix'', ''UNIX''} then UNIX
      else if s \<in> {''raw'', ''RAW''} then Raw_socket
      else if s \<in> {''kcp'', ''KCP''} then KCP
      else if s \<in> {''quic'', ''Quic'', ''QUIC''} then Quic
      else UnknownNetwork)"

definition NetworkHasNoPortField :: "string \<Rightarrow> bool" where
  "NetworkHasNoPortField s = (StrToTransportProtocol s \<in> {UNIX, IP_network, Raw_socket})"

definition IsStrUDP_network :: "string \<Rightarrow> bool" where
  "IsStrUDP_network s = (s \<in> {''udp'', ''udp4'', ''udp6''})"

section \<open>Address types\<close>

definition AtypIP4 :: byte where "AtypIP4 = 1"
definition AtypDomain :: byte where "AtypDomain = 2"
definition AtypIP6 :: byte where "AtypIP6 = 3"

lemmas atyp_defs [model_defs] = AtypIP4_def AtypDomain_def AtypIP6_def

definition ATypeToSocks5Standard :: "byte \<Rightarrow> byte" where
  "ATypeToSocks5Standard atype = (if atype = 1 then 1 else atype + 1)"

section \<open>Addr\<close>

record Addr =
  Network :: string
  Name :: string
  IP :: "bytes option"
  Port :: int

definition zero_Addr :: Addr where
  "zero_Addr = \<lparr>Network = [], Name = [], IP = None, Port = 0\<rparr>"

text \<open>\<open>len(a.IP)\<close>, which is 0 for nil.\<close>

definition ip_len :: "bytes option \<Rightarrow> nat" where
  "ip_len ip = (case ip of None \<Rightarrow> 0 | Some bs \<Rightarrow> length bs)"

text \<open>\<open>net.IP.To4\<close>: four bytes, or sixteen that embed an IPv4 address.\<close>

definition v4in6_prefix :: bytes where
  "v4in6_prefix = replicate 10 0 @ [0xff, 0xff]"

definition To4 :: "bytes option \<Rightarrow> bytes option" where
  "To4 ip = (case ip of None \<Rightarrow> None
     | Some bs \<Rightarrow>
         if length bs = 4 then Some bs
         else if length bs = 16 \<and> take 12 bs = v4in6_prefix then Some (drop 12 bs)
         else None)"

text \<open>\<open>netip.Addr\<close> and \<open>netip.AddrFromSlice\<close>.\<close>

datatype netip_Addr = InvalidAddr | AddrV4 bytes | AddrV6 bytes

definition AddrFromSlice :: "bytes option \<Rightarrow> netip_Addr" where
  "AddrFromSlice ip = (case ip of None \<Rightarrow> InvalidAddr
     | Some bs \<Rightarrow> if length bs = 4 then AddrV4 bs else if length bs = 16 then AddrV6 bs else InvalidAddr)"

record HashableAddr =
  hNetwork :: string
  hName :: string
  hIP :: netip_Addr
  hPort :: "16 word"

definition GetHashable :: "Addr \<Rightarrow> HashableAddr" where
  "GetHashable a =
     (let theip = (case To4 (IP a) of Some i4 \<Rightarrow> Some i4 | None \<Rightarrow> IP a)
      in \<lparr>hNetwork = Network a, hName = Name a, hIP = AddrFromSlice theip,
          hPort = word_of_int (Port a)\<rparr>)"

definition IsEmpty :: "Addr \<Rightarrow> bool" where
  "IsEmpty a = (Name a = [] \<and> ip_len (IP a) = 0 \<and> Network a = [] \<and> Port a = 0)"

definition IsIpv6 :: "Addr \<Rightarrow> bool" where
  "IsIpv6 a = (To4 (IP a) = None)"

definition GetNetIPAddr :: "Addr \<Rightarrow> netip_Addr" where
  "GetNetIPAddr a = (if ip_len (IP a) < 1 then InvalidAddr else AddrFromSlice (IP a))"

definition IsUDP :: "Addr \<Rightarrow> bool" where
  "IsUDP a = IsStrUDP_network (Network a)"

text \<open>\<open>copy(dst, src)\<close> into a fresh slice of length \<open>n\<close>.\<close>

definition copy_into :: "nat \<Rightarrow> bytes \<Rightarrow> bytes" where
  "copy_into n bs = take n bs @ replicate (n - length bs) 0"

definition AddressBytes :: "Addr \<Rightarrow> bytes \<times> byte" where
  "AddressBytes a =
     (case IP a of
        Some ip \<Rightarrow>
          (case To4 (Some ip) of
             Some ip4 \<Rightarrow> (copy_into 4 ip4, AtypIP4)
           | None \<Rightarrow> (copy_into 16 ip, AtypIP6))
      | None \<Rightarrow>
          if 255 < length (Name a) then ([], 0)
          else (word_of_nat (length (Name a)) # bytes_of_string (Name a), AtypDomain))"

section \<open>Reading the vmess/vless address format\<close>

definition V2rayGetAddrFrom :: "('r, byte) rd \<Rightarrow> (nat \<Rightarrow> ('r, bytes) rd) \<Rightarrow> ('r, Addr) rd" where
  "V2rayGetAddrFrom ReadByte Read =
     rd_bind ReadByte (\<lambda>pb1. rd_bind ReadByte (\<lambda>pb2.
       let port = uint16_be pb1 pb2 in
       if port = 0 then rd_fail ErrInvalidData
       else
         let addr = zero_Addr\<lparr>Port := uint port\<rparr> in
         rd_bind ReadByte (\<lambda>b1.
           if b1 = AtypDomain then
             rd_bind ReadByte (\<lambda>b2.
               if b2 = 0 then rd_fail (NewErr ''got ATypDomain with domain lenth marked as 0'')
               else rd_bind (read_exact Read (unat b2)) (\<lambda>bs. rd_ok (addr\<lparr>Name := string_of_bytes bs\<rparr>)))
           else if b1 = AtypIP4 then
             rd_bind (read_exact Read 4) (\<lambda>bs. rd_ok (addr\<lparr>IP := Some bs\<rparr>))
           else if b1 = AtypIP6 then
             rd_bind (read_exact Read 16) (\<lambda>bs. rd_ok (addr\<lparr>IP := Some bs\<rparr>))
           else rd_fail ErrInvalidData)))"

section \<open>Lemmas\<close>

lemma To4_None [simp]: "To4 None = None"
  by (simp add: To4_def)

lemma To4_four [simp]: "length ip = 4 \<Longrightarrow> To4 (Some ip) = Some ip"
  by (simp add: To4_def)

lemma length_v4in6_prefix [simp]: "length v4in6_prefix = 12"
  by (simp add: v4in6_prefix_def)

lemma To4_mapped [simp]: "length ip = 4 \<Longrightarrow> To4 (Some (v4in6_prefix @ ip)) = Some ip"
  by (simp add: To4_def)

lemma To4_Some_length: "To4 ip = Some ip4 \<Longrightarrow> length ip4 = 4"
  by (auto simp: To4_def split: option.splits if_splits)

lemma To4_Some_cases:
  assumes "To4 ip = Some ip4"
  shows "ip = Some ip4 \<or> ip = Some (v4in6_prefix @ ip4)"
  using assms by (auto simp: To4_def split: option.splits if_splits) (metis append_take_drop_id)

lemma To4_idem: "To4 ip = Some ip4 \<Longrightarrow> To4 (Some ip4) = Some ip4"
  by (simp add: To4_Some_length)

lemma copy_into_same [simp]: "length bs = n \<Longrightarrow> copy_into n bs = bs"
  by (simp add: copy_into_def)

lemma length_copy_into [simp]: "length (copy_into n bs) = n"
  by (simp add: copy_into_def)

text \<open>The addresses a header can carry: an IP of a real length or a name of 1 to 255 bytes,
  and a port in 1..65535.\<close>

definition ip_ok :: "bytes option \<Rightarrow> bool" where
  "ip_ok ip = (case ip of None \<Rightarrow> False | Some bs \<Rightarrow> length bs = 4 \<or> length bs = 16)"

definition name_ok :: "string \<Rightarrow> bool" where
  "name_ok s = (0 < length s \<and> length s \<le> 255)"

definition port_ok :: "int \<Rightarrow> bool" where
  "port_ok p = (0 < p \<and> p < 65536)"

definition dest_ok :: "Addr \<Rightarrow> bool" where
  "dest_ok a = (port_ok (Port a) \<and> (if IP a = None then name_ok (Name a) else ip_ok (IP a)))"

text \<open>What is left of an address after a header: the IPv4 form of a mapped address, no name
  beside an IP, no network.\<close>

definition wire_ip :: "bytes option \<Rightarrow> bytes option" where
  "wire_ip ip = (case To4 ip of Some i4 \<Rightarrow> Some i4 | None \<Rightarrow> ip)"

definition wire_Addr :: "Addr \<Rightarrow> Addr" where
  "wire_Addr a = \<lparr>Network = [], Name = (if IP a = None then Name a else []),
                  IP = wire_ip (IP a), Port = Port a\<rparr>"

lemma wire_ip_None [simp]: "wire_ip ip = None \<longleftrightarrow> ip = None"
  by (cases ip) (auto simp: wire_ip_def split: option.splits)

lemma wire_ip_of_None [simp]: "wire_ip None = None"
  by (simp add: wire_ip_def)

lemma wire_ip_wire_ip [simp]: "wire_ip (wire_ip ip) = wire_ip ip"
  by (auto simp: wire_ip_def To4_idem split: option.splits)

lemma wire_Addr_wire_Addr [simp]: "wire_Addr (wire_Addr a) = wire_Addr a"
  by (simp add: wire_Addr_def)

lemma GetHashable_eq:
  "GetHashable a = \<lparr>hNetwork = Network a, hName = Name a, hIP = AddrFromSlice (wire_ip (IP a)),
     hPort = word_of_int (Port a)\<rparr>"
  by (simp add: GetHashable_def wire_ip_def Let_def split: option.splits)

lemma AddrFromSlice_inject:
  "ip_ok ip \<Longrightarrow> ip_ok ip' \<Longrightarrow> AddrFromSlice ip = AddrFromSlice ip' \<longleftrightarrow> ip = ip'"
  by (auto simp: AddrFromSlice_def ip_ok_def split: option.splits if_splits)

lemma ip_ok_wire_ip: "ip_ok ip \<Longrightarrow> ip_ok (wire_ip ip)"
  by (auto simp: wire_ip_def ip_ok_def split: option.splits dest: To4_Some_length)

lemma port_word_inject:
  "port_ok p \<Longrightarrow> port_ok q \<Longrightarrow> (word_of_int p :: 16 word) = word_of_int q \<longleftrightarrow> p = q"
  by (auto simp: port_ok_def word_of_int_eq_iff take_bit_eq_mod)

lemma AddressBytes_cases:
  assumes "dest_ok a"
  obtains (ip4) i4 where "To4 (IP a) = Some i4" "length i4 = 4" "AddressBytes a = (i4, AtypIP4)"
      "IP a \<noteq> None" "wire_ip (IP a) = Some i4"
  | (ip6) i6 where "IP a = Some i6" "To4 (IP a) = None" "length i6 = 16"
      "AddressBytes a = (i6, AtypIP6)" "wire_ip (IP a) = Some i6"
  | (domain) "IP a = None" "name_ok (Name a)"
      "AddressBytes a = (word_of_nat (length (Name a)) # bytes_of_string (Name a), AtypDomain)"
proof (cases "IP a")
  case None
  with assms show ?thesis by (intro domain) (auto simp: dest_ok_def AddressBytes_def name_ok_def)
next
  case (Some ip)
  show ?thesis
  proof (cases "To4 (IP a)")
    case (Some i4)
    with \<open>IP a = Some ip\<close> To4_Some_length show ?thesis
      by (intro ip4 [of i4]) (auto simp: AddressBytes_def wire_ip_def)
  next
    case None
    with \<open>IP a = Some ip\<close> assms have "length ip = 16" by (auto simp: dest_ok_def ip_ok_def)
    with None \<open>IP a = Some ip\<close> show ?thesis
      by (intro ip6 [of ip]) (auto simp: AddressBytes_def wire_ip_def)
  qed
qed

lemma unat_len_byte: "n \<le> 255 \<Longrightarrow> unat (word_of_nat n :: byte) = n"
  by (simp add: unat_of_nat)

lemma len_byte_nonzero: "0 < n \<Longrightarrow> n \<le> 255 \<Longrightarrow> (word_of_nat n :: byte) \<noteq> 0"
  by (metis unat_0 unat_len_byte less_irrefl)

lemma uint_port_be: "port_ok p \<Longrightarrow> uint (uint16_be (hi8 p) (lo8 p)) = p"
  by (simp add: uint_uint16_be int_add_be_hi_lo port_ok_def)

lemma port_be_nonzero: "port_ok p \<Longrightarrow> uint16_be (hi8 p) (lo8 p) \<noteq> 0"
  by (simp add: uint16_be_hi_lo_zero_iff port_ok_def)

lemma port_ok_be: "uint16_be b1 b2 \<noteq> 0 \<Longrightarrow> port_ok (uint (uint16_be b1 b2))"
  using unsigned_less [of "uint16_be b1 b2"] uint_0_iff [of "uint16_be b1 b2"]
    unsigned_greater_eq [of "uint16_be b1 b2"] by (simp add: port_ok_def order_less_le)

lemma port_zero_or_ok: "\<not> port_ok (uint (uint16_be b1 b2)) \<Longrightarrow> uint (uint16_be b1 b2) = 0"
  using port_ok_be by (metis uint_0_iff)

lemma byte_of_length_unat: "word_of_nat (unat (b :: byte)) = b"
  by simp

lemma hi8_uint_be [simp]: "hi8 (uint (uint16_be b1 b2)) = b1"
  by (simp add: uint_uint16_be hi8_int_add_be)

lemma lo8_uint_be [simp]: "lo8 (uint (uint16_be b1 b2)) = b2"
  by (simp add: uint_uint16_be lo8_int_add_be)

text \<open>An address for the examples.\<close>

definition sample_dest :: Addr where
  "sample_dest = zero_Addr\<lparr>Name := ''example.com'', Port := 443\<rparr>"

lemma sample_dest_ok: "dest_ok sample_dest"
  by (simp add: sample_dest_def dest_ok_def zero_Addr_def port_ok_def name_ok_def)

section \<open>The vmess/vless address format round-trips\<close>

definition v2ray_wire :: "Addr \<Rightarrow> bytes" where
  "v2ray_wire a = (case AddressBytes a of (ab, atyp) \<Rightarrow>
     [byte_shr8 (Port a), byte_shl8_shr8 (Port a)] @ [atyp] @ ab)"

lemma Atyp_distinct [simp]:
  "AtypIP4 \<noteq> AtypDomain" "AtypDomain \<noteq> AtypIP4" "AtypIP6 \<noteq> AtypDomain" "AtypIP6 \<noteq> AtypIP4"
  "AtypIP4 \<noteq> AtypIP6" "AtypDomain \<noteq> AtypIP6"
  by (simp_all add: model_defs)

lemma parses_V2rayGetAddrFrom:
  assumes "dest_ok a"
  shows "parses (V2rayGetAddrFrom buf_ReadByte buf_Read) (v2ray_wire a) (wire_Addr a)"
proof -
  from assms have port: "port_ok (Port a)" by (simp add: dest_ok_def)
  let ?z = "zero_Addr\<lparr>Port := Port a\<rparr>"
  from assms show ?thesis
  proof (cases rule: AddressBytes_cases)
    case (ip4 i4)
    have "parses (rd_bind (read_exact buf_Read 4) (\<lambda>bs. rd_ok (?z\<lparr>IP := Some bs\<rparr>))) i4 (?z\<lparr>IP := Some i4\<rparr>)"
      by (rule parses_exact_ok) (simp_all add: ip4(2))
    with ip4 show ?thesis
      unfolding V2rayGetAddrFrom_def Let_def v2ray_wire_def
      by (auto intro!: parses_ReadByte_bind simp: port_be_nonzero [OF port] uint_port_be [OF port]
          wire_Addr_def zero_Addr_def)
  next
    case (ip6 i6)
    have "parses (rd_bind (read_exact buf_Read 16) (\<lambda>bs. rd_ok (?z\<lparr>IP := Some bs\<rparr>))) i6 (?z\<lparr>IP := Some i6\<rparr>)"
      by (rule parses_exact_ok) (simp_all add: ip6(3))
    with ip6 show ?thesis
      unfolding V2rayGetAddrFrom_def Let_def v2ray_wire_def
      by (auto intro!: parses_ReadByte_bind simp: port_be_nonzero [OF port] uint_port_be [OF port]
          wire_Addr_def zero_Addr_def)
  next
    case domain
    then have len: "unat (word_of_nat (length (Name a)) :: byte) = length (Name a)"
      "(word_of_nat (length (Name a)) :: byte) \<noteq> 0"
      by (auto simp: name_ok_def unat_len_byte len_byte_nonzero)
    have "parses (rd_bind (read_exact buf_Read (length (Name a))) (\<lambda>bs. rd_ok (?z\<lparr>Name := string_of_bytes bs\<rparr>)))
        (bytes_of_string (Name a)) (?z\<lparr>Name := string_of_bytes (bytes_of_string (Name a))\<rparr>)"
      using domain by (intro parses_exact_ok) (auto simp: name_ok_def)
    with domain len show ?thesis
      unfolding V2rayGetAddrFrom_def Let_def v2ray_wire_def
      by (auto intro!: parses_ReadByte_bind simp: port_be_nonzero [OF port] uint_port_be [OF port]
          wire_Addr_def zero_Addr_def)
  qed
qed

definition v2ray_raw :: "Addr \<Rightarrow> bytes" where
  "v2ray_raw a = [hi8 (Port a), lo8 (Port a)]
     @ (case IP a of
          None \<Rightarrow> AtypDomain # word_of_nat (length (Name a)) # bytes_of_string (Name a)
        | Some ip \<Rightarrow> (if length ip = 4 then AtypIP4 else AtypIP6) # ip)"

definition v2ray_parsed_ok :: "Addr \<Rightarrow> bool" where
  "v2ray_parsed_ok a \<longleftrightarrow> Network a = [] \<and> dest_ok a \<and> (IP a \<noteq> None \<longrightarrow> Name a = [])"

lemma V2rayGetAddrFrom_sound:
  assumes "V2rayGetAddrFrom buf_ReadByte buf_Read bs = (Inr a, rest)"
  shows "bs = v2ray_raw a @ rest \<and> v2ray_parsed_ok a"
proof -
  have len: "name_ok (string_of_bytes xs)" if "length xs = unat (b :: byte)" "b \<noteq> 0" for xs b
    using that unat_less_256 [of b] by (simp add: name_ok_def unat_gt_0)
  from assms obtain p1 p2 t bs1 where bs: "bs = p1 # p2 # t # bs1" and nz: "uint16_be p1 p2 \<noteq> 0"
    and host: "(t = AtypDomain \<and> (\<exists>b2 xs. b2 \<noteq> 0 \<and> length xs = unat b2 \<and> bs1 = b2 # xs @ rest
          \<and> a = zero_Addr\<lparr>Port := uint (uint16_be p1 p2), Name := string_of_bytes xs\<rparr>))
      \<or> (t = AtypIP4 \<and> (\<exists>xs. length xs = 4 \<and> bs1 = xs @ rest \<and> a = zero_Addr\<lparr>Port := uint (uint16_be p1 p2), IP := Some xs\<rparr>))
      \<or> (t = AtypIP6 \<and> (\<exists>xs. length xs = 16 \<and> bs1 = xs @ rest \<and> a = zero_Addr\<lparr>Port := uint (uint16_be p1 p2), IP := Some xs\<rparr>))"
    unfolding V2rayGetAddrFrom_def Let_def
    by (auto elim!: buf_elims split: if_splits)
  from host show ?thesis
    using bs port_ok_be [OF nz] by (auto simp: v2ray_raw_def v2ray_parsed_ok_def dest_ok_def zero_Addr_def len ip_ok_def)
qed

end
