(* ===== verification/SocksFormat.thy ===== *)
theory SocksFormat
  imports NetAddr
begin

text \<open>
  The address format that trojan, simplesocks, shadowsocks and socks5 share: one type byte
  (1 for IPv4, 3 for a domain, 4 for IPv6), the address, a big-endian port. Each package
  has its own copy of the reader \<open>GetAddrFrom\<close>; the copies differ in their error texts
  and in whether port 0 is let through, and are instances of \<open>socks_GetAddrFrom\<close>.
  Read against a \<open>bytes.Buffer\<close> the format round-trips; against a \<open>bufio.Reader\<close> the
  single \<open>Read\<close> of the address may be short.
\<close>

definition ATypIP4 :: byte where "ATypIP4 = 1"
definition ATypDomain :: byte where "ATypDomain = 3"
definition ATypIP6 :: byte where "ATypIP6 = 4"

lemmas atyp_socks_defs [model_defs] = ATypIP4_def ATypDomain_def ATypIP6_def

definition crlf :: bytes where "crlf = [0x0d, 0x0a]"

text \<open>The \<open>switch\<close> on the type byte.\<close>

definition socks_read_host ::
    "goerr \<Rightarrow> goerr \<Rightarrow> ('r, byte) rd \<Rightarrow> (nat \<Rightarrow> ('r, bytes) rd) \<Rightarrow> byte \<Rightarrow> ('r, Addr) rd" where
  "socks_read_host emptyErr atypErr ReadByte Read b1 =
     (if b1 = ATypDomain then
        rd_bind ReadByte (\<lambda>b2.
          if b2 = 0 then rd_fail emptyErr
          else rd_bind (read_exact Read (unat b2))
                 (\<lambda>bs. rd_ok (zero_Addr\<lparr>Name := string_of_bytes bs\<rparr>)))
      else if b1 = ATypIP4 then
        rd_bind (read_exact Read 4) (\<lambda>bs. rd_ok (zero_Addr\<lparr>IP := Some bs\<rparr>))
      else if b1 = ATypIP6 then
        rd_bind (read_exact Read 16) (\<lambda>bs. rd_ok (zero_Addr\<lparr>IP := Some bs\<rparr>))
      else rd_fail atypErr)"

text \<open>The two port bytes.\<close>

definition socks_read_port :: "goerr \<Rightarrow> bool \<Rightarrow> ('r, byte) rd \<Rightarrow> Addr \<Rightarrow> ('r, Addr) rd" where
  "socks_read_port portErr zeroPortOk ReadByte addr =
     rd_bind ReadByte (\<lambda>pb1.
     rd_bind ReadByte (\<lambda>pb2.
       let port = uint16_be pb1 pb2 in
       if port = 0 \<and> \<not> zeroPortOk then rd_fail portErr
       else rd_ok (addr\<lparr>Port := uint port\<rparr>)))"

definition socks_GetAddrFrom ::
    "goerr \<Rightarrow> goerr \<Rightarrow> goerr \<Rightarrow> bool \<Rightarrow> ('r, byte) rd \<Rightarrow> (nat \<Rightarrow> ('r, bytes) rd) \<Rightarrow> ('r, Addr) rd" where
  "socks_GetAddrFrom emptyErr atypErr portErr zeroPortOk ReadByte Read =
     rd_bind ReadByte (\<lambda>b1.
     rd_bind (socks_read_host emptyErr atypErr ReadByte Read b1)
       (socks_read_port portErr zeroPortOk ReadByte))"

text \<open>The bytes the format assigns to an address.\<close>

definition socks_wire :: "Addr \<Rightarrow> bytes" where
  "socks_wire a = (case AddressBytes a of (ab, atyp) \<Rightarrow>
     ATypeToSocks5Standard atyp # ab @ [byte_shr8 (Port a), byte_shl8_shr8 (Port a)])"

text \<open>\<open>WriteAddrToBuf\<close> of trojan and simplesocks, up to the CRLF that trojan adds.\<close>

definition socks_WriteAddr :: "Addr \<Rightarrow> bytes" where
  "socks_WriteAddr target =
     (if 0 < ip_len (IP target) then
        (case To4 (IP target) of
           None \<Rightarrow> ATypIP6 # (case IP target of None \<Rightarrow> [] | Some ip \<Rightarrow> ip)
         | Some ip4 \<Rightarrow> ATypIP4 # ip4)
      else if 0 < length (Name target) then
        ATypDomain # word_of_nat (length (Name target)) # bytes_of_string (Name target)
      else [])
     @ [byte_shr8 (Port target), byte_shl8_shr8 (Port target)]"

section \<open>Round trip\<close>

lemma ATypeToSocks5Standard_simps [simp]:
  "ATypeToSocks5Standard AtypIP4 = ATypIP4"
  "ATypeToSocks5Standard AtypDomain = ATypDomain"
  "ATypeToSocks5Standard AtypIP6 = ATypIP6"
  by (simp_all add: ATypeToSocks5Standard_def model_defs)

lemma ATyp_distinct [simp]:
  "ATypIP4 \<noteq> ATypDomain" "ATypDomain \<noteq> ATypIP4" "ATypIP6 \<noteq> ATypDomain" "ATypIP6 \<noteq> ATypIP4"
  "ATypIP4 \<noteq> ATypIP6" "ATypDomain \<noteq> ATypIP6"
  by (simp_all add: model_defs)

lemma ip_len_pos: "ip_ok ip \<Longrightarrow> 0 < ip_len ip"
  by (auto simp: ip_ok_def ip_len_def split: option.splits)

lemma socks_WriteAddr_wire:
  assumes "dest_ok a"
  shows "socks_WriteAddr a = socks_wire a"
  using assms
proof (cases rule: AddressBytes_cases)
  case (ip4 i4)
  then have "0 < ip_len (IP a)"
    using assms by (intro ip_len_pos) (auto simp: dest_ok_def)
  with ip4 show ?thesis by (simp add: socks_WriteAddr_def socks_wire_def)
next
  case (ip6 i6)
  then have "0 < ip_len (IP a)"
    using assms by (intro ip_len_pos) (auto simp: dest_ok_def)
  with ip6 show ?thesis by (simp add: socks_WriteAddr_def socks_wire_def)
next
  case domain
  then show ?thesis by (simp add: socks_WriteAddr_def socks_wire_def ip_len_def name_ok_def)
qed

lemma socks_wire_length:
  assumes "dest_ok a"
  shows "5 \<le> length (socks_wire a) \<and> length (socks_wire a) \<le> 259"
  using assms
proof (cases rule: AddressBytes_cases)
  case (ip4 i4)
  then show ?thesis by (simp add: socks_wire_def)
next
  case (ip6 i6)
  then show ?thesis by (simp add: socks_wire_def)
next
  case domain
  then show ?thesis by (cases "Name a") (auto simp: socks_wire_def name_ok_def)
qed

lemma parses_port:
  "port_ok (Port a) \<Longrightarrow>
    parses (socks_read_port e z buf_ReadByte addr) [hi8 (Port a), lo8 (Port a)] (addr\<lparr>Port := Port a\<rparr>)"
  unfolding socks_read_port_def
  by (intro parses_ReadByte_bind) (simp add: Let_def port_be_nonzero uint_port_be parses_ok)

lemma parses_host_ip4:
  "length i4 = 4 \<Longrightarrow> parses (socks_read_host e1 e2 buf_ReadByte buf_Read ATypIP4) i4 (zero_Addr\<lparr>IP := Some i4\<rparr>)"
  using parses_exact_ok [of 4 i4 "\<lambda>bs. zero_Addr\<lparr>IP := Some bs\<rparr>"] by (simp add: socks_read_host_def)

lemma parses_host_ip6:
  "length i6 = 16 \<Longrightarrow> parses (socks_read_host e1 e2 buf_ReadByte buf_Read ATypIP6) i6 (zero_Addr\<lparr>IP := Some i6\<rparr>)"
  using parses_exact_ok [of 16 i6 "\<lambda>bs. zero_Addr\<lparr>IP := Some bs\<rparr>"] by (simp add: socks_read_host_def)

lemma parses_host_domain:
  assumes "name_ok s"
  shows "parses (socks_read_host e1 e2 buf_ReadByte buf_Read ATypDomain)
    (word_of_nat (length s) # bytes_of_string s) (zero_Addr\<lparr>Name := s\<rparr>)"
proof -
  from assms have len: "unat (word_of_nat (length s) :: byte) = length s"
    "(word_of_nat (length s) :: byte) \<noteq> 0"
    by (auto simp: name_ok_def unat_len_byte len_byte_nonzero)
  from assms have "parses (rd_bind (read_exact buf_Read (length s))
      (\<lambda>bs. rd_ok (zero_Addr\<lparr>Name := string_of_bytes bs\<rparr>)))
      (bytes_of_string s) (zero_Addr\<lparr>Name := string_of_bytes (bytes_of_string s)\<rparr>)"
    by (intro parses_exact_ok) (auto simp: name_ok_def)
  with len show ?thesis
    unfolding socks_read_host_def by (auto intro: parses_ReadByte_bind)
qed

lemma parses_socks_GetAddrFrom:
  assumes "dest_ok a"
  shows "parses (socks_GetAddrFrom e1 e2 e3 z buf_ReadByte buf_Read) (socks_wire a) (wire_Addr a)"
proof -
  from assms have port: "port_ok (Port a)" by (simp add: dest_ok_def)
  have step: "parses (socks_GetAddrFrom e1 e2 e3 z buf_ReadByte buf_Read)
      (t # host @ [hi8 (Port a), lo8 (Port a)]) (addr\<lparr>Port := Port a\<rparr>)"
    if "parses (socks_read_host e1 e2 buf_ReadByte buf_Read t) host addr" for t host addr
    unfolding socks_GetAddrFrom_def
    by (intro parses_ReadByte_bind parses_bind [OF that] parses_port port)
  from assms show ?thesis
  proof (cases rule: AddressBytes_cases)
    case (ip4 i4)
    with step [OF parses_host_ip4] show ?thesis
      by (auto simp: socks_wire_def wire_Addr_def zero_Addr_def)
  next
    case (ip6 i6)
    with step [OF parses_host_ip6] show ?thesis
      by (auto simp: socks_wire_def wire_Addr_def zero_Addr_def)
  next
    case domain
    with step [OF parses_host_domain] show ?thesis
      by (auto simp: socks_wire_def wire_Addr_def zero_Addr_def)
  qed
qed

text \<open>What the reader accepts is exactly an encoding: nothing is skipped or invented. Port 0
  only comes back where it is let through; a mapped IPv4 address comes back as sent.\<close>

definition socks_host :: "Addr \<Rightarrow> bytes" where
  "socks_host a = (case IP a of
       None \<Rightarrow> ATypDomain # word_of_nat (length (Name a)) # bytes_of_string (Name a)
     | Some ip \<Rightarrow> (if length ip = 4 then ATypIP4 else ATypIP6) # ip)"

definition socks_raw :: "Addr \<Rightarrow> bytes" where
  "socks_raw a = socks_host a @ [hi8 (Port a), lo8 (Port a)]"

definition parsed_ok :: "bool \<Rightarrow> Addr \<Rightarrow> bool" where
  "parsed_ok z a \<longleftrightarrow> Network a = [] \<and> (if IP a = None then name_ok (Name a) else ip_ok (IP a) \<and> Name a = [])
     \<and> (port_ok (Port a) \<or> z \<and> Port a = 0)"

lemma socks_raw_Network [simp]: "socks_raw (x\<lparr>Network := m\<rparr>) = socks_raw x"
  by (simp add: socks_raw_def socks_host_def split: option.splits)

lemma parsed_ok_network: "parsed_ok z x \<Longrightarrow> parsed_ok z (x\<lparr>Network := []\<rparr>)"
  by (simp add: parsed_ok_def)

lemma socks_read_host_sound:
  assumes "socks_read_host e1 e2 buf_ReadByte buf_Read b bs = (Inr a, rest)"
  shows "b # bs @ q = socks_host a @ rest @ q \<and> Network a = [] \<and> Port a = 0 \<and>
    (if IP a = None then name_ok (Name a) else ip_ok (IP a) \<and> Name a = [])"
proof -
  have len: "name_ok (string_of_bytes xs)" if "length xs = unat (b :: byte)" "b \<noteq> 0" for xs b
    using that unat_less_256 [of b] by (simp add: name_ok_def unat_gt_0)
  show ?thesis
    using assms unfolding socks_read_host_def
    by (auto elim!: buf_elims split: if_splits simp: socks_host_def zero_Addr_def len ip_ok_def)
qed

lemma socks_read_port_sound:
  assumes "socks_read_port e z buf_ReadByte addr bs = (Inr a, rest)"
  shows "\<exists>p. a = addr\<lparr>Port := p\<rparr> \<and> bs = [hi8 p, lo8 p] @ rest \<and> (port_ok p \<or> z \<and> p = 0)"
proof -
  from assms obtain b1 b2 where bs: "bs = b1 # b2 # rest"
    and a: "a = addr\<lparr>Port := uint (uint16_be b1 b2)\<rparr>" and z: "uint16_be b1 b2 \<noteq> 0 \<or> z"
    unfolding socks_read_port_def Let_def
    by (auto elim!: rd_bind_InrE buf_ReadByte_InrE split: if_splits)
  show ?thesis
    using bs a z port_ok_be port_zero_or_ok
    by (intro exI [of _ "uint (uint16_be b1 b2)"]) auto
qed

lemma socks_GetAddrFrom_sound:
  assumes "socks_GetAddrFrom e1 e2 e3 z buf_ReadByte buf_Read bs = (Inr a, rest)"
  shows "bs = socks_raw a @ rest \<and> parsed_ok z a"
proof -
  from assms obtain b bs1 addr bs2 where
    1: "bs = b # bs1" and 2: "socks_read_host e1 e2 buf_ReadByte buf_Read b bs1 = (Inr addr, bs2)"
    and 3: "socks_read_port e3 z buf_ReadByte addr bs2 = (Inr a, rest)"
    unfolding socks_GetAddrFrom_def by (auto elim!: rd_bind_InrE buf_ReadByte_InrE)
  from socks_read_port_sound [OF 3] obtain p where
    p: "a = addr\<lparr>Port := p\<rparr>" "bs2 = [hi8 p, lo8 p] @ rest" "port_ok p \<or> z \<and> p = 0" by blast
  from socks_read_host_sound [OF 2, of "[]"] p 1 show ?thesis
    by (auto simp: socks_raw_def socks_host_def parsed_ok_def split: option.splits if_splits)
qed

lemma socks_raw_wire:
  assumes "dest_ok a" "wire_Addr a = a"
  shows "socks_raw a = socks_wire a"
proof -
  from assms(2) have "wire_ip (IP a) = IP a"
    by (metis Addr.select_convs(3) wire_Addr_def)
  with assms(1) show ?thesis
    by (elim AddressBytes_cases) (auto simp: socks_raw_def socks_host_def socks_wire_def)
qed

section \<open>On any reader\<close>

context byte_reader
begin

lemma refines_socks_GetAddrFrom:
  "refines (socks_GetAddrFrom e1 e2 e3 z ReadByte Read) (socks_GetAddrFrom e1 e2 e3 z buf_ReadByte buf_Read)"
  unfolding socks_GetAddrFrom_def socks_read_host_def socks_read_port_def Let_def
  by (intro refines_intros refines_read_exact) (simp_all add: unat_gt_0)

lemma refines_V2rayGetAddrFrom:
  "refines (V2rayGetAddrFrom ReadByte Read) (V2rayGetAddrFrom buf_ReadByte buf_Read)"
  unfolding V2rayGetAddrFrom_def Let_def
  by (intro refines_intros refines_read_exact) (simp_all add: unat_gt_0)

end

context full_reader
begin

lemmas mirrors_intros = mirrors_ok mirrors_fail mirrors_bind mirrors_if mirrors_ReadByte

lemma mirrors_socks_GetAddrFrom:
  "mirrors (socks_GetAddrFrom e1 e2 e3 z ReadByte Read) (socks_GetAddrFrom e1 e2 e3 z buf_ReadByte buf_Read)"
  unfolding socks_GetAddrFrom_def socks_read_host_def socks_read_port_def Let_def
  by (intro mirrors_intros mirrors_read_exact) (simp_all add: unat_gt_0)

end

end
