(* ===== verification/MsgCodec.thy ===== *)
theory MsgCodec
  imports SocksFormat
begin

text \<open>
  Datagrams over a byte stream. trojan, simplesocks and vless carry UDP packets as a
  sequence of frames in one connection; each conn type has a \<open>WriteMsg\<close> that makes a frame
  and a \<open>ReadMsg\<close> that takes one. The locale \<open>msg_codec\<close> is what the two promise each
  other: \<open>encode\<close> builds a frame, \<open>decode\<close> takes exactly that frame off the stream and
  returns the payload and the address (\<open>canon\<close> says in which form). Whoever satisfies
  it carries any sequence of datagrams without losing, merging or reordering them.
\<close>

fun read_n :: "nat \<Rightarrow> ('r, 'a) rd \<Rightarrow> ('r, 'a list) rd" where
  "read_n 0 m = rd_ok []"
| "read_n (Suc n) m = rd_bind m (\<lambda>x. rd_bind (read_n n m) (\<lambda>xs. rd_ok (x # xs)))"

locale msg_codec =
  fixes encode :: "bytes \<Rightarrow> Addr \<Rightarrow> bytes"
    and decode :: "(bytes, bytes \<times> Addr) rd"
    and ok :: "bytes \<Rightarrow> Addr \<Rightarrow> bool"
    and canon :: "Addr \<Rightarrow> Addr"
  assumes decode_encode: "ok p a \<Longrightarrow> parses decode (encode p a) (p, canon a)"
begin

lemma read_n_frames:
  assumes "list_all (\<lambda>(p, a). ok p a) ms"
  shows "read_n (length ms) decode (concat (map (\<lambda>(p, a). encode p a) ms) @ rest)
    = (Inr (map (\<lambda>(p, a). (p, canon a)) ms), rest)"
  using assms
proof (induction ms)
  case Nil
  then show ?case by simp
next
  case (Cons m ms)
  obtain p a where m: "m = (p, a)" by (cases m)
  with Cons.prems have "parses decode (encode p a) (p, canon a)"
    by (auto intro: decode_encode)
  from parsesD [OF this] Cons m show ?case
    by (simp add: rd_bind_def)
qed

lemma frames_inject:
  assumes "list_all (\<lambda>(p, a). ok p a) ms" "list_all (\<lambda>(p, a). ok p a) ns" "length ms = length ns"
    and "concat (map (\<lambda>(p, a). encode p a) ms) = concat (map (\<lambda>(p, a). encode p a) ns)"
  shows "map (\<lambda>(p, a). (p, canon a)) ms = map (\<lambda>(p, a). (p, canon a)) ns"
  using read_n_frames [OF assms(1), of "[]"] read_n_frames [OF assms(2), of "[]"] assms(3,4) by simp

end

text \<open>A reading computation on any reader that refines a buffer computation sees the same
  messages, as long as it does not fail.\<close>

context byte_reader
begin

lemma refines_read_n: "refines m mb \<Longrightarrow> refines (read_n n m) (read_n n mb)"
  by (induction n) (auto intro!: refines_intros)

lemma refines_rd_full: "refines (rd_full Read n) (rd_full buf_Read n)"
proof (rule refinesI)
  fix r v r' assume "inv r" "rd_full Read n r = (Inr v, r')"
  from rd_full_success [OF this] have "length v = n" "content r = v @ content r'" "inv r'" by auto
  then show "inv r' \<and> rd_full buf_Read n (content r) = (Inr v, content r')"
    by (simp add: rd_full_buf)
qed

end

section \<open>The frame of trojan and simplesocks\<close>

text \<open>Both packages read a datagram as address, big-endian length, CRLF, payload, and refuse
  length 0. The address reader is the package's own.\<close>

definition socks_ReadMsg ::
    "('r, Addr) rd \<Rightarrow> ('r, byte) rd \<Rightarrow> (nat \<Rightarrow> ('r, bytes) rd) \<Rightarrow> ('r, bytes \<times> Addr) rd" where
  "socks_ReadMsg getAddr ReadByte Read =
     rd_bind getAddr (\<lambda>addr.
     let addr = addr\<lparr>Network := ''udp''\<rparr> in
     rd_bind ReadByte (\<lambda>lb1.
     rd_bind ReadByte (\<lambda>lb2.
     let lenth = uint16_be lb1 lb2 in
     if lenth = 0 then rd_fail ErrInvalidData
     else
       rd_bind ReadByte (\<lambda>cr_b.
       rd_bind ReadByte (\<lambda>lf_b.
       if cr_b \<noteq> crlf ! 0 \<or> lf_b \<noteq> crlf ! 1 then rd_fail ErrInvalidData
       else rd_bind (rd_full Read (unat lenth)) (\<lambda>bs. rd_ok (bs, addr)))))))"

text \<open>The tail that both writers append after the address.\<close>

definition socks_msg_tail :: "bytes \<Rightarrow> bytes" where
  "socks_msg_tail bs = [byte_shr8 (int (length bs)), byte_shl8_shr8 (int (length bs))] @ crlf @ bs"

definition payload_ok :: "bytes \<Rightarrow> bool" where
  "payload_ok p \<longleftrightarrow> 0 < length p \<and> length p < 65536"

definition udp_canon :: "Addr \<Rightarrow> Addr" where
  "udp_canon a = (wire_Addr a)\<lparr>Network := ''udp''\<rparr>"

lemma crlf_nth [simp]: "crlf ! 0 = 0x0d" "crlf ! Suc 0 = 0x0a" "length crlf = 2"
  by (simp_all add: crlf_def)

lemma payload_ok_port: "payload_ok p \<longleftrightarrow> port_ok (int (length p))"
  by (auto simp: payload_ok_def port_ok_def)

lemma parses_socks_ReadMsg:
  assumes "parses getAddr abytes a" "payload_ok p"
  shows "parses (socks_ReadMsg getAddr buf_ReadByte buf_Read) (abytes @ socks_msg_tail p)
    (p, a\<lparr>Network := ''udp''\<rparr>)"
proof -
  let ?l = "int (length p)"
  from assms(2) have port: "port_ok ?l" by (simp add: payload_ok_port)
  have len: "unat (uint16_be (hi8 ?l) (lo8 ?l)) = length p"
    using uint_port_be [OF port] by (metis nat_int unat_eq_nat_uint)
  have "parses (rd_bind (rd_full buf_Read (unat (uint16_be (hi8 ?l) (lo8 ?l))))
      (\<lambda>bs. rd_ok (bs, a\<lparr>Network := ''udp''\<rparr>))) (p @ []) (p, a\<lparr>Network := ''udp''\<rparr>)"
    by (rule parses_bind [OF parses_full parses_ok]) (simp add: len)
  then show ?thesis
    unfolding socks_ReadMsg_def Let_def socks_msg_tail_def crlf_def
    by (intro parses_bind [OF assms(1)])
      (auto intro!: parses_ReadByte_bind simp: port_be_nonzero [OF port])
qed

text \<open>A frame with an empty payload is refused, and nothing after it is read.\<close>

lemma socks_ReadMsg_empty:
  assumes "parses getAddr abytes a"
  shows "fst (socks_ReadMsg getAddr buf_ReadByte buf_Read (abytes @ socks_msg_tail [] @ rest))
    = Inl ErrInvalidData"
  using parsesD [OF assms, of "socks_msg_tail [] @ rest"]
  by (simp add: socks_ReadMsg_def rd_bind_def socks_msg_tail_def Let_def hi8_def lo8_def uint16_be_def)

context byte_reader
begin

lemma refines_socks_ReadMsg:
  "refines g gb \<Longrightarrow> refines (socks_ReadMsg g ReadByte Read) (socks_ReadMsg gb buf_ReadByte buf_Read)"
  unfolding socks_ReadMsg_def Let_def
  by (intro refines_intros refines_rd_full)

end

section \<open>Frames and chunks\<close>

text \<open>The part of \<open>socks_ReadMsg\<close> before the payload.\<close>

definition socks_msg_head :: "('r, Addr) rd \<Rightarrow> ('r, byte) rd \<Rightarrow> ('r, 16 word \<times> Addr) rd" where
  "socks_msg_head getAddr ReadByte =
     rd_bind getAddr (\<lambda>addr.
     let addr = addr\<lparr>Network := ''udp''\<rparr> in
     rd_bind ReadByte (\<lambda>lb1.
     rd_bind ReadByte (\<lambda>lb2.
     let lenth = uint16_be lb1 lb2 in
     if lenth = 0 then rd_fail ErrInvalidData
     else
       rd_bind ReadByte (\<lambda>cr_b.
       rd_bind ReadByte (\<lambda>lf_b.
       if cr_b \<noteq> crlf ! 0 \<or> lf_b \<noteq> crlf ! 1 then rd_fail ErrInvalidData
       else rd_ok (lenth, addr))))))"

lemma rd_bind_if: "rd_bind (if c then m else m') f = (if c then rd_bind m f else rd_bind m' f)"
  by simp

lemma socks_ReadMsg_head:
  "socks_ReadMsg getAddr ReadByte Read =
     rd_bind (socks_msg_head getAddr ReadByte) (\<lambda>(lenth, addr).
       rd_bind (rd_full Read (unat lenth)) (\<lambda>bs. rd_ok (bs, addr)))"
  by (simp add: socks_ReadMsg_def socks_msg_head_def Let_def rd_bind_assoc rd_bind_if cong: if_cong)

lemma bufd_local_head:
  "bufd_local g gb \<Longrightarrow> bufd_local (socks_msg_head g bufio_ReadByte) (socks_msg_head gb buf_ReadByte)"
  unfolding socks_msg_head_def Let_def
  by (intro bufd_local_intros)

definition socks_msg_mid :: "bytes \<Rightarrow> bytes" where
  "socks_msg_mid bs = [byte_shr8 (int (length bs)), byte_shl8_shr8 (int (length bs))] @ crlf"

lemma parses_socks_head:
  assumes "parses gb abytes a" "payload_ok p"
  shows "parses (socks_msg_head gb buf_ReadByte) (abytes @ socks_msg_mid p)
    (word_of_nat (length p), a\<lparr>Network := ''udp''\<rparr>)"
proof -
  let ?l = "int (length p)"
  from assms(2) have port: "port_ok ?l" by (simp add: payload_ok_port)
  have len: "uint16_be (hi8 ?l) (lo8 ?l) = word_of_nat (length p)"
    using uint_port_be [OF port] by (metis of_int_of_nat_eq word_of_int_uint)
  show ?thesis
    unfolding socks_msg_head_def Let_def socks_msg_mid_def crlf_def
    using port_be_nonzero [OF port]
    by (intro parses_bind [OF assms(1)])
      (auto intro!: parses_ReadByte_bind simp: len parses_ok)
qed

text \<open>On a transport that keeps the writes apart (one chunk per frame) the \<open>bufio.Reader\<close>
  delivers every frame, whatever its payload, and stops at its end.\<close>

lemma socks_ReadMsg_chunk:
  assumes local: "bufd_local g gb"
    and fetch: "\<And>c cs. c \<noteq> [] \<Longrightarrow> g \<lparr>bufd = [], src = c # cs\<rparr> = g (fetch c cs)"
    and parse: "parses gb abytes a" and p: "payload_ok p" and len: "length abytes \<le> 4000"
  shows "socks_ReadMsg g bufio_ReadByte bufio_Read \<lparr>bufd = [], src = (abytes @ socks_msg_tail p) # cs\<rparr>
    = (Inr (p, a\<lparr>Network := ''udp''\<rparr>), \<lparr>bufd = [], src = cs\<rparr>)"
proof -
  let ?h = "abytes @ socks_msg_mid p" and ?c = "abytes @ socks_msg_tail p"
  let ?f = "fetch ?c cs" and ?v = "(word_of_nat (length p) :: 16 word, a\<lparr>Network := ''udp''\<rparr>)"
  have c: "?c = ?h @ p" by (simp add: socks_msg_tail_def socks_msg_mid_def)
  have hlen: "length ?h \<le> bufio_size"
    using len by (simp add: socks_msg_mid_def crlf_def bufio_size_def)
  let ?r = "?f\<lparr>bufd := take (bufio_size - length ?h) p\<rparr>"
  have "bufd ?f = ?h @ take (bufio_size - length ?h) p"
    using take_append [of bufio_size ?h p] take_all [OF hlen] unfolding bufd_fetch c by simp
  with parsesD [OF parses_socks_head [OF parse p]]
  have "socks_msg_head gb buf_ReadByte (bufd ?f) = (Inr ?v, take (bufio_size - length ?h) p)" by simp
  from bufd_localD [OF bufd_local_head [OF local] this]
  have "socks_msg_head g bufio_ReadByte ?f = (Inr ?v, ?r)" .
  moreover have "socks_msg_head g bufio_ReadByte \<lparr>bufd = [], src = ?c # cs\<rparr> = socks_msg_head g bufio_ReadByte ?f"
    using fetch [of ?c cs] by (simp add: socks_msg_head_def rd_bind_def socks_msg_tail_def crlf_def)
  ultimately have head: "socks_msg_head g bufio_ReadByte \<lparr>bufd = [], src = ?c # cs\<rparr> = (Inr ?v, ?r)" by simp
  have "in_chunk ?r p cs"
    using hlen unfolding in_chunk_def fetch_def c
    by (cases "length (?h @ p) \<le> bufio_size") (auto intro!: exI [of _ "drop (bufio_size - length ?h) p"])
  from rd_full_in_chunk [OF this order.refl] obtain r' where
    "rd_full bufio_Read (length p) ?r = (Inr p, r')" "in_chunk r' [] cs" by auto
  moreover have "unat (word_of_nat (length p) :: 16 word) = length p"
    using p by (simp add: payload_ok_def unat_of_nat)
  ultimately show ?thesis
    using head in_chunk_end unfolding socks_ReadMsg_head by (auto simp: rd_bind_def)
qed

lemma read_n_chunks:
  assumes "\<And>p a cs. ok p a \<Longrightarrow> m \<lparr>bufd = [], src = enc p a # cs\<rparr> = (Inr (p, canon a), \<lparr>bufd = [], src = cs\<rparr>)"
    and "list_all (\<lambda>(p, a). ok p a) ms"
  shows "read_n (length ms) m \<lparr>bufd = [], src = map (\<lambda>(p, a). enc p a) ms @ cs\<rparr>
    = (Inr (map (\<lambda>(p, a). (p, canon a)) ms), \<lparr>bufd = [], src = cs\<rparr>)"
  using assms(2) by (induction ms) (auto simp: rd_bind_def assms(1))

lemma bufd_local_socks_GetAddrFrom:
  "bufd_local (socks_GetAddrFrom e1 e2 e3 z bufio_ReadByte bufio_Read)
     (socks_GetAddrFrom e1 e2 e3 z buf_ReadByte buf_Read)"
  unfolding socks_GetAddrFrom_def socks_read_host_def socks_read_port_def Let_def
  by (intro bufd_local_intros bufd_local_read_exact) (simp_all add: unat_gt_0)

lemma socks_GetAddrFrom_fetch:
  "c \<noteq> [] \<Longrightarrow> socks_GetAddrFrom e1 e2 e3 z bufio_ReadByte bufio_Read \<lparr>bufd = [], src = c # cs\<rparr>
    = socks_GetAddrFrom e1 e2 e3 z bufio_ReadByte bufio_Read (fetch c cs)"
  by (simp add: socks_GetAddrFrom_def rd_bind_def bufio_ReadByte_fetch)

text \<open>A domain that is cut by a chunk boundary is a short read.\<close>

lemma socks_GetAddrFrom_straddle:
  assumes "name = x @ y" "x \<noteq> []" "y \<noteq> []" "name_ok name"
  shows "socks_GetAddrFrom e1 e2 e3 z bufio_ReadByte bufio_Read
     \<lparr>bufd = [], src = (ATypDomain # word_of_nat (length name) # bytes_of_string x) # cs\<rparr>
    = (Inl ErrShortRead, \<lparr>bufd = [], src = cs\<rparr>)"
proof -
  from assms(4) have n: "length name \<le> 255" "0 < length name" by (auto simp: name_ok_def)
  then have u: "unat (word_of_nat (length name) :: byte) = length name"
    and nz: "(word_of_nat (length name) :: byte) \<noteq> 0"
    by (auto simp: unat_len_byte len_byte_nonzero)
  have lt: "length x < length name" using assms by simp
  have sz: "length x + 2 \<le> bufio_size" using lt n by (simp add: bufio_size_def)
  from sz have rb: "bufio_ReadByte \<lparr>bufd = [], src = (ATypDomain # word_of_nat (length name) # bytes_of_string x) # cs\<rparr>
     = (Inr ATypDomain, \<lparr>bufd = word_of_nat (length name) # bytes_of_string x, src = cs\<rparr>)"
    by (simp add: bufio_ReadByte_def)
  have rd: "bufio_Read (length name) \<lparr>bufd = bytes_of_string x, src = cs\<rparr>
     = (Inr (bytes_of_string x), \<lparr>bufd = [], src = cs\<rparr>)"
    using lt assms(2) n by (auto simp: bufio_Read_def bytes_of_string_def)
  show ?thesis
    using lt sz by (simp add: socks_GetAddrFrom_def socks_read_host_def rd_bind_def rb u nz rd read_exact_def
        bufio_ReadByte_def)
qed

section \<open>Datagrams a frame can carry\<close>

definition udp_ok :: "bytes \<Rightarrow> Addr \<Rightarrow> bool" where
  "udp_ok p a \<longleftrightarrow> payload_ok p \<and> dest_ok a"

lemma sample_udp_ok: "udp_ok [1, 2, 3] sample_dest"
  by (simp add: udp_ok_def payload_ok_def sample_dest_ok)

end
