(* ===== verification/GoStrings.thy ===== *)
theory GoStrings
  imports V2Prelude
begin

text \<open>
  The functions of Go's packages strings and bytes that the repository calls, on lists of
  characters or bytes: \<open>Index\<close>, \<open>LastIndex\<close>, \<open>Contains\<close>, \<open>HasPrefix\<close>, \<open>HasSuffix\<close>,
  \<open>Split\<close>, \<open>SplitN(s, sep, 2)\<close>, \<open>TrimLeft\<close>, \<open>TrimSuffix\<close> and the ASCII case
  conversions. An index is \<open>None\<close> where Go returns -1.
\<close>

fun list_index :: "'a list \<Rightarrow> 'a list \<Rightarrow> nat option" where
  "list_index sep [] = (if sep = [] then Some 0 else None)"
| "list_index sep (x # xs) =
     (if take (length sep) (x # xs) = sep then Some 0 else map_option Suc (list_index sep xs))"

definition list_contains :: "'a list \<Rightarrow> 'a list \<Rightarrow> bool" where
  "list_contains xs sep = (list_index sep xs \<noteq> None)"

definition has_prefix :: "'a list \<Rightarrow> 'a list \<Rightarrow> bool" where
  "has_prefix xs p = (take (length p) xs = p)"

definition has_suffix :: "'a list \<Rightarrow> 'a list \<Rightarrow> bool" where
  "has_suffix xs p = has_prefix (rev xs) (rev p)"

definition trim_suffix :: "'a list \<Rightarrow> 'a list \<Rightarrow> 'a list" where
  "trim_suffix xs p = (if has_suffix xs p then take (length xs - length p) xs else xs)"

definition trim_left :: "'a \<Rightarrow> 'a list \<Rightarrow> 'a list" where
  "trim_left c xs = dropWhile (\<lambda>x. x = c) xs"

definition trim_right :: "'a \<Rightarrow> 'a list \<Rightarrow> 'a list" where
  "trim_right c xs = rev (dropWhile (\<lambda>x. x = c) (rev xs))"

text \<open>\<open>LastIndex\<close> of a one-element separator.\<close>

fun last_index1 :: "'a \<Rightarrow> 'a list \<Rightarrow> nat option" where
  "last_index1 c [] = None"
| "last_index1 c (x # xs) =
     (case last_index1 c xs of Some i \<Rightarrow> Some (Suc i) | None \<Rightarrow> if x = c then Some 0 else None)"

definition splitN2 :: "'a list \<Rightarrow> 'a list \<Rightarrow> 'a list list" where
  "splitN2 xs sep =
     (case list_index sep xs of None \<Rightarrow> [xs] | Some i \<Rightarrow> [take i xs, drop (i + length sep) xs])"

function split_on :: "'a list \<Rightarrow> 'a list \<Rightarrow> 'a list list" where
  "split_on xs sep =
     (if sep = [] then [xs]
      else case list_index sep xs of
             None \<Rightarrow> [xs]
           | Some i \<Rightarrow> take i xs # split_on (drop (i + length sep) xs) sep)"
  by pat_completeness auto

lemma list_index_bound: "list_index sep xs = Some i \<Longrightarrow> i + length sep \<le> length xs"
proof (induction sep xs arbitrary: i rule: list_index.induct)
  case (2 sep x xs)
  then show ?case
    by (auto split: if_splits) (metis length_Cons length_take min.cobounded1 min_def not_less_eq_eq)
qed (auto split: if_splits)

termination split_on
  by (relation "measure (\<lambda>(xs, sep). length xs)")
    (auto dest!: list_index_bound simp flip: length_greater_0_conv)

declare split_on.simps [simp del]

definition ascii_upper :: "char \<Rightarrow> char" where
  "ascii_upper c = (if 97 \<le> (of_char c :: nat) \<and> (of_char c :: nat) \<le> 122
                    then char_of ((of_char c :: nat) - 32) else c)"

definition ascii_lower :: "char \<Rightarrow> char" where
  "ascii_lower c = (if 65 \<le> (of_char c :: nat) \<and> (of_char c :: nat) \<le> 90
                    then char_of ((of_char c :: nat) + 32) else c)"

section \<open>Lemmas\<close>

lemma list_index_SomeD:
  "list_index sep xs = Some i \<Longrightarrow> xs = take i xs @ sep @ drop (i + length sep) xs"
proof (induction sep xs arbitrary: i rule: list_index.induct)
  case (2 sep x xs)
  show ?case
  proof (cases "take (length sep) (x # xs) = sep")
    case True
    with 2 show ?thesis by simp (metis append_take_drop_id)
  next
    case False
    with 2 show ?thesis by auto
  qed
qed (auto split: if_splits)

lemma list_index_Some_take: "list_index sep xs = Some i \<Longrightarrow> take (length sep) (drop i xs) = sep"
  by (metis list_index_SomeD list_index_bound append_eq_conv_conj length_take min.absorb2
      add_leD1)

lemma list_index_least:
  "list_index sep xs = Some i \<Longrightarrow> j < i \<Longrightarrow> take (length sep) (drop j xs) \<noteq> sep"
proof (induction sep xs arbitrary: i j rule: list_index.induct)
  case (2 sep x xs)
  then show ?case by (cases j) (auto split: if_splits)
qed (auto split: if_splits)

lemma list_index_NoneD:
  "list_index sep xs = None \<Longrightarrow> j \<le> length xs \<Longrightarrow> take (length sep) (drop j xs) \<noteq> sep"
proof (induction sep xs arbitrary: j rule: list_index.induct)
  case (2 sep x xs)
  then show ?case by (cases j) (auto split: if_splits)
qed (auto split: if_splits)

lemma list_index_eq_Some_iff:
  "list_index sep xs = Some i \<longleftrightarrow>
     i \<le> length xs \<and> take (length sep) (drop i xs) = sep
     \<and> (\<forall>j<i. take (length sep) (drop j xs) \<noteq> sep)"
proof
  assume "list_index sep xs = Some i"
  then show "i \<le> length xs \<and> take (length sep) (drop i xs) = sep
     \<and> (\<forall>j<i. take (length sep) (drop j xs) \<noteq> sep)"
    using list_index_bound list_index_Some_take list_index_least by (metis add_leD1)
next
  assume *: "i \<le> length xs \<and> take (length sep) (drop i xs) = sep
     \<and> (\<forall>j<i. take (length sep) (drop j xs) \<noteq> sep)"
  then obtain k where k: "list_index sep xs = Some k"
    using list_index_NoneD by (cases "list_index sep xs") auto
  then show "list_index sep xs = Some i"
    using * list_index_least list_index_Some_take by (metis linorder_neqE_nat)
qed

lemma list_index_append_sep: "\<exists>i \<le> length xs. list_index sep (xs @ sep @ ys) = Some i"
proof (cases "list_index sep (xs @ sep @ ys)")
  case None
  then show ?thesis using list_index_NoneD [OF None, of "length xs"] by simp
next
  case (Some i)
  have "take (length sep) (drop (length xs) (xs @ sep @ ys)) = sep" by simp
  then have "i \<le> length xs"
    using list_index_least [OF Some, of "length xs"] by (meson linorder_not_less)
  with Some show ?thesis by simp
qed

text \<open>One-element separators.\<close>

lemma list_index1_eq_None [simp]: "list_index [c] xs = None \<longleftrightarrow> c \<notin> set xs"
  by (induction xs) auto

lemma list_index1_append: "c \<notin> set xs \<Longrightarrow> list_index [c] (xs @ c # ys) = Some (length xs)"
  by (induction xs) auto

lemma splitN2_append: "c \<notin> set xs \<Longrightarrow> splitN2 (xs @ c # ys) [c] = [xs, ys]"
  by (simp add: splitN2_def list_index1_append)

lemma splitN2_no_sep:
  assumes "c \<notin> set xs"
  shows "splitN2 xs [c] = [xs]"
proof -
  from assms have "list_index [c] xs = None" by simp
  then show ?thesis by (simp only: splitN2_def option.case)
qed

lemma has_suffix1: "has_suffix xs [c] \<longleftrightarrow> xs \<noteq> [] \<and> last xs = c"
  by (cases xs rule: rev_cases) (simp_all add: has_suffix_def has_prefix_def)

lemma trim_suffix_id: "\<not> has_suffix xs p \<Longrightarrow> trim_suffix xs p = xs"
  by (simp add: trim_suffix_def)

lemma last_index1_None [simp]: "last_index1 c xs = None \<longleftrightarrow> c \<notin> set xs"
  by (induction xs) (auto split: option.splits)

lemma last_index1_append: "c \<notin> set ys \<Longrightarrow> last_index1 c (xs @ c # ys) = Some (length xs)"
  by (induction xs) (auto split: option.splits)

lemma last_index1_SomeD:
  "last_index1 c xs = Some i \<Longrightarrow> i < length xs \<and> xs ! i = c \<and> c \<notin> set (drop (Suc i) xs)"
  by (induction xs arbitrary: i) (auto split: option.splits if_splits)

text \<open>Separators whose first element does not occur in the pieces.\<close>

lemma list_index_skip:
  "c \<notin> set xs \<Longrightarrow> list_index (c # sep) (xs @ ys) = map_option ((+) (length xs)) (list_index (c # sep) ys)"
  by (cases "list_index (c # sep) ys") (induction xs, auto)+

lemma list_index_absent: "c \<notin> set xs \<Longrightarrow> list_index (c # sep) xs = None"
  by (induction xs) auto

lemma list_index_here: "list_index (c # sep) (c # sep @ ys) = Some 0"
  by simp

lemma split_on_app:
  "c \<notin> set xs \<Longrightarrow> split_on (xs @ c # sep @ ys) (c # sep) = xs # split_on ys (c # sep)"
  using list_index_here [of c sep ys]
  by (subst split_on.simps) (simp add: list_index_skip)

lemma split_on_absent: "c \<notin> set xs \<Longrightarrow> split_on xs (c # sep) = [xs]"
  by (subst split_on.simps) (simp add: list_index_absent)

fun join :: "'a list \<Rightarrow> 'a list list \<Rightarrow> 'a list" where
  "join sep [] = []"
| "join sep [x] = x"
| "join sep (x # y # ys) = x @ sep @ join sep (y # ys)"

lemma split_on_join:
  "list_all (\<lambda>x. c \<notin> set x) xs \<Longrightarrow> xs \<noteq> [] \<Longrightarrow> split_on (join (c # sep) xs) (c # sep) = xs"
  by (induction "c # sep" xs rule: join.induct) (simp_all add: split_on_app split_on_absent)

text \<open>\<open>strings.TrimSpace\<close>, \<open>ToUpper\<close> and \<open>ToLower\<close>, on ASCII.\<close>

definition is_space :: "char \<Rightarrow> bool" where
  "is_space c = (c \<in> {CHR '' '', CHR 0x09, CHR 0x0A, CHR 0x0B, CHR 0x0C, CHR 0x0D})"

definition TrimSpace :: "string \<Rightarrow> string" where
  "TrimSpace s = rev (dropWhile is_space (rev (dropWhile is_space s)))"

definition ToUpper :: "string \<Rightarrow> string" where "ToUpper s = map ascii_upper s"
definition ToLower :: "string \<Rightarrow> string" where "ToLower s = map ascii_lower s"

end
