(* ===== verification/UtilsStrings.thy ===== *)
theory UtilsStrings
  imports GoStrings UtilsError
begin

text \<open>
  String utilities: hexadecimal coding as in Go's encoding/hex, the uuid text form
  (utils/uuid.go), and \<open>CommonSplit\<close> with the configuration idiom
  \<open>"e1:v1\ne2:v2"\<close> (utils/strings.go). \<open>CommonSplit\<close> indexes the result of \<open>SplitN\<close>
  without looking at its length, so its result is an option, \<open>None\<close> for the run-time panic.
\<close>

section \<open>encoding/hex\<close>

definition hex_char :: "nat \<Rightarrow> char" where
  "hex_char n = char_of (if n < 10 then 48 + n else 87 + n)"

definition hex_val :: "char \<Rightarrow> nat option" where
  "hex_val c =
     (let n = of_char c :: nat in
      if 48 \<le> n \<and> n \<le> 57 then Some (n - 48)
      else if 97 \<le> n \<and> n \<le> 102 then Some (n - 87)
      else if 65 \<le> n \<and> n \<le> 70 then Some (n - 55)
      else None)"

definition hex_byte :: "byte \<Rightarrow> string" where
  "hex_byte b = [hex_char (unat b div 16), hex_char (unat b mod 16)]"

definition hex_Encode :: "bytes \<Rightarrow> string" where
  "hex_Encode bs = concat (map hex_byte bs)"

fun hex_Decode :: "string \<Rightarrow> goerr + bytes" where
  "hex_Decode [] = Inr []"
| "hex_Decode [c] = Inl (NewErr ''encoding/hex: invalid byte or odd length'')"
| "hex_Decode (a # b # s) =
     (case (hex_val a, hex_val b) of
        (Some x, Some y) \<Rightarrow>
          (case hex_Decode s of
             Inl e \<Rightarrow> Inl e
           | Inr bs \<Rightarrow> Inr (word_of_nat (16 * x + y) # bs))
      | _ \<Rightarrow> Inl (NewErr ''encoding/hex: invalid byte or odd length''))"

section \<open>uuid\<close>

definition UUID_BytesLen :: nat where "UUID_BytesLen = 16"

definition remove_char :: "char \<Rightarrow> string \<Rightarrow> string" where
  "remove_char c s = filter (\<lambda>x. x \<noteq> c) s"

definition StrToUUID :: "string \<Rightarrow> goerr + bytes" where
  "StrToUUID s =
     (if length s \<noteq> 36 then Inl (invalid_data ''invalid UUID Str'')
      else let b = remove_char (CHR ''-'') s in
           if length b \<noteq> 32 then Inl (invalid_data ''invalid UUID Str'')
           else hex_Decode b)"

text \<open>\<open>nil\<close> is the empty list_slice here: the callers only copy from it.\<close>

definition StrToUUID_slice :: "string \<Rightarrow> bytes" where
  "StrToUUID_slice s = (case StrToUUID s of Inl _ \<Rightarrow> [] | Inr bs \<Rightarrow> bs)"

definition UUIDToStr :: "bytes \<Rightarrow> string" where
  "UUIDToStr u =
     (if length u \<noteq> UUID_BytesLen then []
      else hex_Encode (list_slice 0 4 u) @ ''-'' @ hex_Encode (list_slice 4 6 u) @ ''-''
           @ hex_Encode (list_slice 6 8 u) @ ''-'' @ hex_Encode (list_slice 8 10 u) @ ''-''
           @ hex_Encode (drop 10 u))"

text \<open>\<open>GenerateUUID_v4\<close>: the 16 bytes that the random source delivers are an argument.\<close>

definition GenerateUUID_v4 :: "bytes \<Rightarrow> bytes" where
  "GenerateUUID_v4 r =
     (let r = r[6 := (r ! 6 AND 0x0f) OR 0x40] in r[8 := (r ! 8 AND 0x3f) OR 0x80])"

section \<open>CommonSplit\<close>

definition newline :: char where "newline = CHR 0x0A"

definition CommonSplit_strings :: "string \<Rightarrow> string \<Rightarrow> string \<Rightarrow> (bool \<times> string \<times> string) option" where
  "CommonSplit_strings s e1 e2 =
     (let s = trim_suffix s [newline];
          lines = splitN2 s [newline]
      in if length lines \<noteq> 2 then Some (False, [], [])
         else
           let strs1 = splitN2 (lines ! 0) '':'' in
           if strs1 ! 0 \<noteq> e1 then Some (False, [], [])
           else if length strs1 < 2 then None
           else
             let v1 = strs1 ! 1; strs2 = splitN2 (lines ! 1) '':'' in
             if strs2 ! 0 \<noteq> e2 then Some (False, v1, [])
             else if length strs2 < 2 then None
             else Some (True, v1, strs2 ! 1))"

definition CommonSplit :: "string \<Rightarrow> string \<Rightarrow> string \<Rightarrow> (bool \<times> string \<times> string) option" where
  "CommonSplit s e1 e2 = CommonSplit_strings s e1 e2"

section \<open>Lemmas\<close>

lemma hex_val_char [simp]: "n < 16 \<Longrightarrow> hex_val (hex_char n) = Some n"
  by (simp add: hex_char_def hex_val_def Let_def)

lemma hex_char_not_dash [simp]: "n < 16 \<Longrightarrow> hex_char n \<noteq> CHR ''-''"
  using hex_val_char [of n] by (auto simp: hex_val_def)

lemma unat_byte_div16: "unat (b :: byte) div 16 < 16"
  using unat_less_256 [of b] by simp

lemma hex_Encode_Nil [simp]: "hex_Encode [] = []"
  by (simp add: hex_Encode_def)

lemma hex_Encode_append: "hex_Encode (xs @ ys) = hex_Encode xs @ hex_Encode ys"
  by (simp add: hex_Encode_def)

lemma length_hex_Encode [simp]: "length (hex_Encode bs) = 2 * length bs"
  by (induction bs) (simp_all add: hex_Encode_def hex_byte_def)

lemma hex_Decode_Encode [simp, codec_simps]: "hex_Decode (hex_Encode bs) = Inr bs"
  by (induction bs) (simp_all add: hex_Encode_def hex_byte_def unat_byte_div16)

lemma remove_dash_hex_Encode [simp]: "remove_char (CHR ''-'') (hex_Encode bs) = hex_Encode bs"
  by (induction bs) (simp_all add: remove_char_def hex_Encode_def hex_byte_def unat_byte_div16)

lemma remove_char_append [simp]: "remove_char c (s @ t) = remove_char c s @ remove_char c t"
  by (simp add: remove_char_def)

lemma remove_char_Cons [simp]:
  "remove_char c (x # s) = (if x = c then remove_char c s else x # remove_char c s)"
  by (simp add: remove_char_def)

lemma uuid_parts:
  "list_slice 0 4 u @ list_slice 4 6 u @ list_slice 6 8 u @ list_slice 8 10 u @ drop 10 u = u"
  by (simp add: list_slice_drop)

lemma StrToUUID_UUIDToStr [codec_simps]:
  assumes "length u = UUID_BytesLen"
  shows "StrToUUID (UUIDToStr u) = Inr u"
proof -
  from assms have u: "length u = 16" by (simp add: UUID_BytesLen_def)
  have "remove_char (CHR ''-'') (UUIDToStr u)
      = hex_Encode (list_slice 0 4 u @ list_slice 4 6 u @ list_slice 6 8 u @ list_slice 8 10 u @ drop 10 u)"
    using assms by (simp add: UUIDToStr_def hex_Encode_append)
  also have "\<dots> = hex_Encode u" by (simp only: uuid_parts)
  finally have "remove_char (CHR ''-'') (UUIDToStr u) = hex_Encode u" .
  moreover have "length (UUIDToStr u) = 36"
    using assms u by (simp add: UUIDToStr_def)
  ultimately show ?thesis using u by (simp add: StrToUUID_def)
qed

lemma UUIDToStr_inject:
  "length u = UUID_BytesLen \<Longrightarrow> length v = UUID_BytesLen \<Longrightarrow> UUIDToStr u = UUIDToStr v \<longleftrightarrow> u = v"
  by (metis StrToUUID_UUIDToStr sum.inject(2))

lemma hex_Decode_length: "hex_Decode s = Inr bs \<Longrightarrow> length s = 2 * length bs"
  by (induction s arbitrary: bs rule: hex_Decode.induct) (auto split: option.splits sum.splits)

lemma StrToUUID_length: "StrToUUID s = Inr u \<Longrightarrow> length u = UUID_BytesLen"
  using hex_Decode_length [of "remove_char (CHR ''-'') s" u]
  by (auto simp: StrToUUID_def Let_def UUID_BytesLen_def split: if_splits)

end
