(* ===== verification/UtilsUser.thy ===== *)
theory UtilsUser
  imports UtilsStrings
begin

text \<open>
  Users and the user container (utils/user.go). The interface \<open>User\<close> is the record of the
  four values its methods return; the concrete types build such records. \<open>MultiUserMap\<close>
  keeps one map by identity and one by authentication string; its four conversion functions
  are optional, as in the source, and its mutex only serialises the operations. The locale
  \<open>user_authenticator\<close> is what a handshake may rely on (\<open>UserAuthenticator\<close> and
  \<open>UserBus\<close> in the source); the protocol servers interpret it for their configuration of
  the map.
\<close>

record User =
  IdentityStr :: string
  IdentityBytes :: bytes
  AuthStr :: string
  AuthBytes :: bytes

record UserConf =
  confUser :: string
  confPass :: string

section \<open>Concrete users\<close>

text \<open>\<open>copy(vu[:], bs)\<close> into a zero array of 16 bytes.\<close>

definition copy_uuid :: "bytes \<Rightarrow> bytes" where
  "copy_uuid bs = take UUID_BytesLen bs @ replicate (UUID_BytesLen - length bs) 0"

definition V2rayUser :: "bytes \<Rightarrow> User" where
  "V2rayUser u = \<lparr>IdentityStr = UUIDToStr u, IdentityBytes = u, AuthStr = UUIDToStr u, AuthBytes = u\<rparr>"

definition NewV2rayUser :: "string \<Rightarrow> goerr + User" where
  "NewV2rayUser s = (case StrToUUID s of Inl e \<Rightarrow> Inl e | Inr u \<Rightarrow> Inr (V2rayUser u))"

definition InitV2rayUsers :: "UserConf list \<Rightarrow> User list" where
  "InitV2rayUsers uc = map (\<lambda>theuc. V2rayUser (copy_uuid (StrToUUID_slice (confUser theuc)))) uc"

record UserPass =
  UserID :: bytes
  Password :: bytes

definition NewUserPass :: "UserConf \<Rightarrow> UserPass" where
  "NewUserPass uc = \<lparr>UserID = bytes_of_string (confUser uc), Password = bytes_of_string (confPass uc)\<rparr>"

definition NewUserPassByData :: "bytes \<Rightarrow> bytes \<Rightarrow> UserPass" where
  "NewUserPassByData user pass = \<lparr>UserID = user, Password = pass\<rparr>"

definition UserPass_AuthStr :: "UserPass \<Rightarrow> string" where
  "UserPass_AuthStr ph = string_of_bytes (UserID ph) @ [newline] @ string_of_bytes (Password ph)"

definition UserPass_User :: "UserPass \<Rightarrow> User" where
  "UserPass_User ph =
     \<lparr>IdentityStr = string_of_bytes (UserID ph), IdentityBytes = UserID ph,
      AuthStr = UserPass_AuthStr ph, AuthBytes = bytes_of_string (UserPass_AuthStr ph)\<rparr>"

definition UserPass_Valid :: "UserPass \<Rightarrow> bool" where
  "UserPass_Valid ph = (0 < length (UserID ph) \<and> 0 < length (Password ph))"

definition GetUserByPass :: "UserPass \<Rightarrow> bytes \<Rightarrow> bytes \<Rightarrow> User option" where
  "GetUserByPass ph user pass =
     (if user = UserID ph \<and> pass = Password ph then Some (UserPass_User ph) else None)"

definition UserPass_AuthUserByStr :: "UserPass \<Rightarrow> string \<Rightarrow> User option" where
  "UserPass_AuthUserByStr ph s = (if s = UserPass_AuthStr ph then Some (UserPass_User ph) else None)"

text \<open>\<open>InitWithStr\<close> writes the fields only on success; \<open>None\<close> is a panic in \<open>CommonSplit\<close>.\<close>

definition InitWithStr :: "UserPass \<Rightarrow> string \<Rightarrow> (bool \<times> UserPass) option" where
  "InitWithStr ph str =
     (case CommonSplit str ''user'' ''pass'' of
        None \<Rightarrow> None
      | Some (ok, v1, v2) \<Rightarrow>
          if \<not> ok then Some (False, ph)
          else Some (True, \<lparr>UserID = bytes_of_string v1, Password = bytes_of_string v2\<rparr>))"

section \<open>MultiUserMap\<close>

record MultiUserMap =
  IDMap :: "string \<rightharpoonup> User"
  AuthMap :: "string \<rightharpoonup> User"
  TheIDBytesLen :: nat
  TheAuthBytesLen :: nat
  StoreKeyByStr :: bool
  IDStrToBytesFunc :: "(string \<Rightarrow> bytes) option"
  IDBytesToStrFunc :: "(bytes \<Rightarrow> string) option"
  AuthStrToBytesFunc :: "(string \<Rightarrow> bytes) option"
  AuthBytesToStrFunc :: "(bytes \<Rightarrow> string) option"

definition NewMultiUserMap :: MultiUserMap where
  "NewMultiUserMap =
     \<lparr>IDMap = Map.empty, AuthMap = Map.empty, TheIDBytesLen = 0, TheAuthBytesLen = 0,
      StoreKeyByStr = False, IDStrToBytesFunc = None, IDBytesToStrFunc = None,
      AuthStrToBytesFunc = None, AuthBytesToStrFunc = None\<rparr>"

definition SetUseUUIDStr_asKey :: "MultiUserMap \<Rightarrow> MultiUserMap" where
  "SetUseUUIDStr_asKey mu =
     mu\<lparr>StoreKeyByStr := True, TheIDBytesLen := UUID_BytesLen, TheAuthBytesLen := UUID_BytesLen,
        IDBytesToStrFunc := Some UUIDToStr, AuthBytesToStrFunc := Some UUIDToStr,
        IDStrToBytesFunc := Some StrToUUID_slice, AuthStrToBytesFunc := Some StrToUUID_slice\<rparr>"

definition AddUser_nolock :: "User \<Rightarrow> MultiUserMap \<Rightarrow> MultiUserMap" where
  "AddUser_nolock u mu =
     (if StoreKeyByStr mu then
        mu\<lparr>IDMap := (IDMap mu)(IdentityStr u \<mapsto> u), AuthMap := (AuthMap mu)(AuthStr u \<mapsto> u)\<rparr>
      else
        mu\<lparr>IDMap := (IDMap mu)(string_of_bytes (IdentityBytes u) \<mapsto> u),
           AuthMap := (AuthMap mu)(string_of_bytes (AuthBytes u) \<mapsto> u)\<rparr>)"

definition AddUser :: "User \<Rightarrow> MultiUserMap \<Rightarrow> MultiUserMap" where
  "AddUser u mu = AddUser_nolock u mu"

definition DelUser :: "User \<Rightarrow> MultiUserMap \<Rightarrow> MultiUserMap" where
  "DelUser u mu =
     (if StoreKeyByStr mu then
        mu\<lparr>IDMap := (IDMap mu)(AuthStr u := None), AuthMap := (AuthMap mu)(IdentityStr u := None)\<rparr>
      else
        mu\<lparr>IDMap := (IDMap mu)(string_of_bytes (AuthBytes u) := None),
           AuthMap := (AuthMap mu)(string_of_bytes (IdentityBytes u) := None)\<rparr>)"

definition LoadUsers :: "User list \<Rightarrow> MultiUserMap \<Rightarrow> MultiUserMap" where
  "LoadUsers us mu = fold AddUser_nolock us mu"

definition HasUserByStr :: "MultiUserMap \<Rightarrow> string \<Rightarrow> bool" where
  "HasUserByStr mu str =
     (case (StoreKeyByStr mu, IDStrToBytesFunc mu) of
        (False, Some f) \<Rightarrow> IDMap mu (string_of_bytes (f str)) \<noteq> None
      | _ \<Rightarrow> IDMap mu str \<noteq> None)"

definition HasUserByBytes :: "MultiUserMap \<Rightarrow> bytes \<Rightarrow> User option" where
  "HasUserByBytes mu bs =
     (case (StoreKeyByStr mu, IDBytesToStrFunc mu) of
        (True, Some f) \<Rightarrow> IDMap mu (f bs)
      | _ \<Rightarrow> IDMap mu (string_of_bytes bs))"

definition IDBytesLen :: "MultiUserMap \<Rightarrow> nat" where "IDBytesLen mu = TheIDBytesLen mu"

definition AuthBytesLen :: "MultiUserMap \<Rightarrow> nat" where "AuthBytesLen mu = TheAuthBytesLen mu"

definition AuthUserByStr :: "MultiUserMap \<Rightarrow> string \<Rightarrow> User option" where
  "AuthUserByStr mu str =
     (case (StoreKeyByStr mu, AuthStrToBytesFunc mu) of
        (False, Some f) \<Rightarrow> AuthMap mu (string_of_bytes (f str))
      | _ \<Rightarrow> AuthMap mu str)"

definition AuthUserByBytes :: "MultiUserMap \<Rightarrow> bytes \<Rightarrow> User option" where
  "AuthUserByBytes mu bs =
     (case (StoreKeyByStr mu, AuthBytesToStrFunc mu) of
        (True, Some f) \<Rightarrow> AuthMap mu (f bs)
      | _ \<Rightarrow> AuthMap mu (string_of_bytes bs))"

lemmas MultiUserMap_ops = AddUser_def AddUser_nolock_def DelUser_def HasUserByStr_def
  HasUserByBytes_def AuthUserByStr_def AuthUserByBytes_def

section \<open>What a handshake relies on\<close>

locale user_authenticator =
  fixes Add :: "User \<Rightarrow> 's \<Rightarrow> 's"
    and ByStr :: "'s \<Rightarrow> string \<Rightarrow> User option"
    and ByBytes :: "'s \<Rightarrow> bytes \<Rightarrow> User option"
    and inv :: "'s \<Rightarrow> bool"
    and ok :: "User \<Rightarrow> bool"
  assumes inv_Add: "inv s \<Longrightarrow> ok u \<Longrightarrow> inv (Add u s)"
    and ByStr_Add: "inv s \<Longrightarrow> ok u \<Longrightarrow> ByStr (Add u s) a = (if a = AuthStr u then Some u else ByStr s a)"
    and ByBytes_Add:
      "inv s \<Longrightarrow> ok u \<Longrightarrow> ByBytes (Add u s) b = (if b = AuthBytes u then Some u else ByBytes s b)"
    and ByStr_sound: "inv s \<Longrightarrow> ByStr s a = Some u \<Longrightarrow> ok u \<and> AuthStr u = a"
    and ByBytes_sound: "inv s \<Longrightarrow> ByBytes s b = Some u \<Longrightarrow> ok u \<and> AuthBytes u = b"
begin

lemma inv_load: "inv s \<Longrightarrow> list_all ok us \<Longrightarrow> inv (fold Add us s)"
  by (induction us arbitrary: s) (simp_all add: inv_Add)

lemma ByStr_load:
  assumes "inv s" "list_all ok us"
  shows "ByStr (fold Add us s) a \<noteq> None \<longleftrightarrow> a \<in> AuthStr ` set us \<or> ByStr s a \<noteq> None"
  using assms by (induction us arbitrary: s) (auto simp: inv_Add ByStr_Add)

lemma ByBytes_load:
  assumes "inv s" "list_all ok us"
  shows "ByBytes (fold Add us s) b \<noteq> None \<longleftrightarrow> b \<in> AuthBytes ` set us \<or> ByBytes s b \<noteq> None"
  using assms by (induction us arbitrary: s) (auto simp: inv_Add ByBytes_Add)

end

text \<open>
  A \<open>MultiUserMap\<close> that stores under strings serves as an authenticator whenever its key
  function agrees with the users it holds.
\<close>

definition auth_key :: "MultiUserMap \<Rightarrow> bytes \<Rightarrow> string" where
  "auth_key mu = (case AuthBytesToStrFunc mu of Some f \<Rightarrow> f | None \<Rightarrow> string_of_bytes)"

definition auth_inv :: "(bytes \<Rightarrow> string) \<Rightarrow> (User \<Rightarrow> bool) \<Rightarrow> MultiUserMap \<Rightarrow> bool" where
  "auth_inv f ok mu \<longleftrightarrow> StoreKeyByStr mu \<and> auth_key mu = f
     \<and> (\<forall>k u. AuthMap mu k = Some u \<longrightarrow> ok u \<and> AuthStr u = k)"

lemma AuthUserByStr_str: "StoreKeyByStr mu \<Longrightarrow> AuthUserByStr mu a = AuthMap mu a"
  by (simp add: AuthUserByStr_def)

lemma AuthUserByBytes_str: "StoreKeyByStr mu \<Longrightarrow> AuthUserByBytes mu b = AuthMap mu (auth_key mu b)"
  by (simp add: AuthUserByBytes_def auth_key_def split: option.splits)

lemma AddUser_str:
  "StoreKeyByStr mu \<Longrightarrow> AddUser u mu =
     mu\<lparr>IDMap := (IDMap mu)(IdentityStr u \<mapsto> u), AuthMap := (AuthMap mu)(AuthStr u \<mapsto> u)\<rparr>"
  by (simp add: AddUser_def AddUser_nolock_def)

lemma LoadUsers_eq: "LoadUsers us mu = fold AddUser us mu"
  by (simp add: LoadUsers_def AddUser_def [abs_def])

locale keyed_users =
  fixes f :: "bytes \<Rightarrow> string" and ok :: "User \<Rightarrow> bool"
  assumes key: "ok u \<Longrightarrow> f b = AuthStr u \<longleftrightarrow> b = AuthBytes u"
begin

sublocale user_authenticator AddUser AuthUserByStr AuthUserByBytes "auth_inv f ok" ok
proof unfold_locales
  fix s u assume "auth_inv f ok s" "ok u"
  then show "auth_inv f ok (AddUser u s)"
    by (auto simp: auth_inv_def AddUser_str auth_key_def)
next
  fix s u a assume "auth_inv f ok s" "ok u"
  then show "AuthUserByStr (AddUser u s) a = (if a = AuthStr u then Some u else AuthUserByStr s a)"
    by (simp add: auth_inv_def AddUser_str AuthUserByStr_str)
next
  fix s u b assume "auth_inv f ok s" "ok u"
  then show "AuthUserByBytes (AddUser u s) b = (if b = AuthBytes u then Some u else AuthUserByBytes s b)"
    using key [of u b] by (auto simp: auth_inv_def AddUser_str AuthUserByBytes_str auth_key_def)
next
  fix s a u assume "auth_inv f ok s" "AuthUserByStr s a = Some u"
  then show "ok u \<and> AuthStr u = a" by (simp add: auth_inv_def AuthUserByStr_str)
next
  fix s b u assume "auth_inv f ok s" "AuthUserByBytes s b = Some u"
  then have "ok u" "AuthStr u = f b" by (auto simp: auth_inv_def AuthUserByBytes_str)
  then show "ok u \<and> AuthBytes u = b" using key [of u b] by simp
qed

end

text \<open>The configuration of vless and vmess servers: uuid users under their text form.\<close>

definition uuid_user :: "User \<Rightarrow> bool" where
  "uuid_user u \<longleftrightarrow> length (AuthBytes u) = UUID_BytesLen \<and> u = V2rayUser (AuthBytes u)"

lemma uuid_user_V2rayUser [simp]: "length b = UUID_BytesLen \<Longrightarrow> uuid_user (V2rayUser b)"
  by (simp add: uuid_user_def V2rayUser_def)

lemma length_UUIDToStr: "length u = UUID_BytesLen \<Longrightarrow> length (UUIDToStr u) = 36"
  by (simp add: UUIDToStr_def UUID_BytesLen_def)

lemma UUIDToStr_short: "length u \<noteq> UUID_BytesLen \<Longrightarrow> UUIDToStr u = []"
  by (simp add: UUIDToStr_def)

lemma uuid_user_AuthStr: "uuid_user u \<Longrightarrow> AuthStr u = UUIDToStr (AuthBytes u)"
  by (metis User.select_convs(3) V2rayUser_def uuid_user_def)

lemma uuid_key:
  assumes "uuid_user u"
  shows "UUIDToStr b = AuthStr u \<longleftrightarrow> b = AuthBytes u"
proof (cases "length b = UUID_BytesLen")
  case True
  with assms show ?thesis by (simp add: uuid_user_AuthStr uuid_user_def UUIDToStr_inject)
next
  case False
  with assms length_UUIDToStr [of "AuthBytes u"] show ?thesis
    by (auto simp: uuid_user_AuthStr uuid_user_def UUIDToStr_short)
qed

interpretation uuid_users: keyed_users UUIDToStr uuid_user
  by unfold_locales (rule uuid_key)

lemma auth_inv_uuid: "auth_inv UUIDToStr uuid_user (SetUseUUIDStr_asKey NewMultiUserMap)"
  by (simp add: auth_inv_def SetUseUUIDStr_asKey_def NewMultiUserMap_def auth_key_def)

lemma length_copy_uuid [simp]: "length (copy_uuid bs) = UUID_BytesLen"
  by (simp add: copy_uuid_def)

lemma InitV2rayUsers_ok: "list_all uuid_user (InitV2rayUsers uc)"
  by (simp add: InitV2rayUsers_def list_all_iff)

section \<open>Properties\<close>

text \<open>
  A uuid server accepts exactly the uuids it was given: after \<open>LoadUsers\<close> on a fresh map
  in uuid mode, \<open>AuthUserByBytes\<close> finds a user for 16 credential bytes iff they are the
  bytes of one of the users.
\<close>

theorem uuid_auth_exact:
  assumes "list_all uuid_user us"
  shows "AuthUserByBytes (LoadUsers us (SetUseUUIDStr_asKey NewMultiUserMap)) b \<noteq> None
    \<longleftrightarrow> b \<in> AuthBytes ` set us"
proof -
  have "AuthUserByBytes (SetUseUUIDStr_asKey NewMultiUserMap) b = None"
    by (simp add: AuthUserByBytes_def SetUseUUIDStr_asKey_def NewMultiUserMap_def)
  with uuid_users.ByBytes_load [OF auth_inv_uuid assms] show ?thesis
    by (simp add: LoadUsers_eq)
qed

text \<open>Deleting a user: the keys of the two maps are swapped in the source, so the user is
  gone exactly when its identity and its authentication string coincide.\<close>

theorem DelUser_revokes_iff:
  assumes "StoreKeyByStr mu" "AuthMap mu (AuthStr u) = Some u"
  shows "AuthUserByStr (DelUser u mu) (AuthStr u) = None \<longleftrightarrow> IdentityStr u = AuthStr u"
  using assms by (auto simp: DelUser_def AuthUserByStr_str)

lemma DelUser_uuid_inv:
  "auth_inv f ok mu \<Longrightarrow> auth_inv f ok (DelUser u mu)"
  by (auto simp: auth_inv_def DelUser_def auth_key_def)

text \<open>The configuration string that clients build from a user and a password
  (\<open>"user:" + user + "\npass:" + pass\<close>) is read back as that user and password.\<close>

lemma CommonSplit_join:
  assumes "'':'' = [c]" "c \<notin> set e1" "c \<notin> set e2" "newline \<notin> set e1" "newline \<notin> set v1"
    "v2 = [] \<or> last v2 \<noteq> newline"
  shows "CommonSplit (e1 @ c # v1 @ newline # e2 @ c # v2) e1 e2 = Some (True, v1, v2)"
proof -
  have c: "c = CHR '':''" using assms(1) by simp
  then have cn: "c \<noteq> newline" by (simp add: newline_def)
  have "\<not> has_suffix (e1 @ c # v1 @ newline # e2 @ c # v2) [newline]"
    using assms(6) cn by (auto simp: has_suffix1)
  moreover have "splitN2 (e1 @ c # v1 @ newline # e2 @ c # v2) [newline] = [e1 @ c # v1, e2 @ c # v2]"
    using splitN2_append [of newline "e1 @ c # v1" "e2 @ c # v2"] assms cn by simp
  moreover have "splitN2 (e1 @ c # v1) '':'' = [e1, v1]" "splitN2 (e2 @ c # v2) '':'' = [e2, v2]"
    using assms(1-3) by (simp_all add: splitN2_append)
  ultimately show ?thesis
    by (simp add: CommonSplit_def CommonSplit_strings_def trim_suffix_id Let_def)
qed

theorem InitWithStr_join:
  assumes "newline \<notin> set user" "pass = [] \<or> last pass \<noteq> newline"
  shows "InitWithStr ph (''user:'' @ user @ [newline] @ ''pass:'' @ pass)
    = Some (True, \<lparr>UserID = bytes_of_string user, Password = bytes_of_string pass\<rparr>)"
proof -
  have "CommonSplit (''user'' @ CHR '':'' # user @ newline # ''pass'' @ CHR '':'' # pass) ''user'' ''pass''
      = Some (True, user, pass)"
    by (rule CommonSplit_join) (use assms in \<open>simp_all add: newline_def\<close>)
  then show ?thesis by (simp add: InitWithStr_def)
qed

text \<open>A line that consists of the key alone, without a colon, is an index out of range.\<close>

theorem CommonSplit_panics:
  assumes "CHR '':'' \<notin> set e1" "newline \<notin> set e1" "v = [] \<or> last v \<noteq> newline" "v \<noteq> []"
  shows "CommonSplit (e1 @ [newline] @ v) e1 e2 = None"
proof -
  have "\<not> has_suffix (e1 @ newline # v) [newline]"
    using assms by (auto simp: has_suffix1)
  moreover have "splitN2 (e1 @ newline # v) [newline] = [e1, v]"
    using assms by (simp add: splitN2_append)
  ultimately show ?thesis
    using assms by (simp add: CommonSplit_def CommonSplit_strings_def trim_suffix_id splitN2_no_sep Let_def)
qed

end
