(* ===== verification/ProxyTrojan.thy ===== *)
theory ProxyTrojan
  imports MsgCodec UtilsUser
begin

text \<open>
  The trojan protocol (proxy/trojan): users and their password hash, the client's request
  header, the server handshake with its read loop and its fallback buffer, and the UDP
  frames. SHA-224 is an argument \<open>digest\<close>; what is used of it is that a digest has 28
  bytes. A connection is the list of chunks its \<open>Read\<close> calls return; the handshake returns
  what is left of it beside its result.
\<close>

definition CmdConnect :: byte where "CmdConnect = 0x01"
definition CmdUDPAssociate :: byte where "CmdUDPAssociate = 0x03"
definition CmdMux :: byte where "CmdMux = 0x7f"

lemmas trojan_cmd_defs [model_defs] = CmdConnect_def CmdUDPAssociate_def CmdMux_def

definition passBytesLen :: nat where "passBytesLen = 28"
definition passStrLen :: nat where "passStrLen = passBytesLen * 2"
section \<open>Users\<close>

definition PassStrToBytes :: "string \<Rightarrow> bytes" where
  "PassStrToBytes str = (case hex_Decode str of Inl _ \<Rightarrow> [] | Inr bs \<Rightarrow> bs)"

definition PassBytesToStr :: "bytes \<Rightarrow> string" where
  "PassBytesToStr bs = hex_Encode bs"

definition SHA224_hexString :: "(string \<Rightarrow> bytes) \<Rightarrow> string \<Rightarrow> string" where
  "SHA224_hexString digest password = PassBytesToStr (digest password)"

definition NewUserByPlainTextPassword :: "(string \<Rightarrow> bytes) \<Rightarrow> string \<Rightarrow> User" where
  "NewUserByPlainTextPassword digest plainPass =
     \<lparr>IdentityStr = plainPass, IdentityBytes = bytes_of_string plainPass,
      AuthStr = SHA224_hexString digest plainPass, AuthBytes = digest plainPass\<rparr>"

definition trojan_InitUsers :: "(string \<Rightarrow> bytes) \<Rightarrow> UserConf list \<Rightarrow> User list" where
  "trojan_InitUsers digest uc = map (\<lambda>theuc. NewUserByPlainTextPassword digest (confUser theuc)) uc"

definition trojan_newServer :: "(string \<Rightarrow> bytes) \<Rightarrow> string \<Rightarrow> MultiUserMap" where
  "trojan_newServer digest plainPassStr =
     (let s = NewMultiUserMap\<lparr>StoreKeyByStr := True, AuthBytesToStrFunc := Some PassBytesToStr,
                AuthStrToBytesFunc := Some PassStrToBytes, TheAuthBytesLen := passBytesLen\<rparr>
      in if plainPassStr \<noteq> [] then AddUser (NewUserByPlainTextPassword digest plainPassStr) s else s)"

definition trojan_NewServer :: "(string \<Rightarrow> bytes) \<Rightarrow> string \<Rightarrow> UserConf list \<Rightarrow> MultiUserMap" where
  "trojan_NewServer digest uuidStr users =
     (let s = trojan_newServer digest uuidStr
      in if 0 < length users then LoadUsers (trojan_InitUsers digest users) s else s)"

section \<open>Addresses\<close>

definition trojan_GetAddrFrom :: "bool \<Rightarrow> ('r, byte) rd \<Rightarrow> (nat \<Rightarrow> ('r, bytes) rd) \<Rightarrow> ('r, Addr) rd" where
  "trojan_GetAddrFrom ismux =
     socks_GetAddrFrom
       (NewErr ''got ATypDomain but domain lenth is marked to be 0'')
       (invalid_data ''trojan GetAddrFrom err'')
       (invalid_data ''trojan GetAddrFrom, port is zero, which is bad'')
       ismux"

text \<open>\<open>WriteAddrToBuf\<close> appends these bytes to the buffer.\<close>

definition trojan_WriteAddrToBuf :: "Addr \<Rightarrow> bytes" where
  "trojan_WriteAddrToBuf target = socks_WriteAddr target @ crlf"

section \<open>Client\<close>

text \<open>The bytes of the one \<open>Write\<close> call of \<open>Client.Handshake\<close>.\<close>

definition trojan_client_Handshake :: "User \<Rightarrow> bool \<Rightarrow> bytes \<Rightarrow> Addr \<Rightarrow> goerr + bytes" where
  "trojan_client_Handshake u use_mux firstPayload target =
     (if Port target \<le> 0 then Inl (NewErr ''trojan Client Handshake failed, target port invalid'')
      else Inr (bytes_of_string (AuthStr u) @ crlf @ [if use_mux then CmdMux else CmdConnect]
                @ trojan_WriteAddrToBuf target @ firstPayload))"

text \<open>A UDP conn's pending handshake bytes, and what its \<open>WriteMsg\<close> passes to the one \<open>Write\<close>
  of the underlying connection.\<close>

definition trojan_WriteMsg :: "bytes option \<Rightarrow> bytes \<Rightarrow> Addr \<Rightarrow> bytes \<times> bytes option" where
  "trojan_WriteMsg handshakeBuf bs addr =
     (let buf = (case handshakeBuf of Some h \<Rightarrow> h | None \<Rightarrow> []);
          (ab, atype) = AddressBytes addr;
          atype = ATypeToSocks5Standard atype
      in (buf @ [atype] @ ab @ [byte_shr8 (Port addr), byte_shl8_shr8 (Port addr)]
          @ [byte_shr8 (int (length bs)), byte_shl8_shr8 (int (length bs))] @ crlf @ bs, None))"

text \<open>\<open>EstablishUDPChannel\<close>: the writes made at once, and the conn's pending handshake bytes.\<close>

definition trojan_EstablishUDPChannel ::
    "User \<Rightarrow> bytes \<Rightarrow> Addr \<Rightarrow> goerr + bytes list \<times> bytes option" where
  "trojan_EstablishUDPChannel u firstPayload target =
     (if Port target \<le> 0 then Inl (err_text ''trojan Client EstablishUDPChannel failed, target port invalid'')
      else
        let buf = bytes_of_string (AuthStr u) @ crlf @ [CmdUDPAssociate] @ trojan_WriteAddrToBuf target
        in if firstPayload = [] then Inr ([], Some buf)
           else case trojan_WriteMsg (Some buf) firstPayload target of (w, h) \<Rightarrow> Inr ([w], h))"

definition trojan_ReadMsg :: "('r, byte) rd \<Rightarrow> (nat \<Rightarrow> ('r, bytes) rd) \<Rightarrow> ('r, bytes \<times> Addr) rd" where
  "trojan_ReadMsg ReadByte Read = socks_ReadMsg (trojan_GetAddrFrom False ReadByte Read) ReadByte Read"

section \<open>Server handshake\<close>

text \<open>The loop that reads until a CRLF shows up after the first byte of what one \<open>Read\<close>
  returned, or \<open>MTU\<close> bytes are in.\<close>

definition crlf_seen :: "bytes \<Rightarrow> bool" where
  "crlf_seen got = (case list_index crlf got of Some i \<Rightarrow> 0 < i | None \<Rightarrow> False)"

function trojan_read_loop :: "bytes \<Rightarrow> bytes list \<Rightarrow> (goerr + bytes) \<times> bytes list" where
  "trojan_read_loop acc conn =
     (case src_Read (MTU - length acc) conn of
        (Inl e, conn') \<Rightarrow> (Inl (err_wrap ''read underlay failed'' e), conn')
      | (Inr got, conn') \<Rightarrow>
          if crlf_seen got \<or> MTU \<le> length (acc @ got) then (Inr (acc @ got), conn')
          else trojan_read_loop (acc @ got) conn')"
  by pat_completeness auto

termination trojan_read_loop
proof (relation "measure (\<lambda>(acc, conn). length conn)")
  fix acc conn v conn' got
  assume "(v, conn') = src_Read (MTU - length acc) conn" "v = Inr got"
    and "\<not> (crlf_seen got \<or> MTU \<le> length (acc @ got))"
  then have "src_Read (MTU - length acc) conn = (Inr got, conn')" "length got < MTU - length acc"
    by auto
  then show "((acc @ got, conn'), acc, conn) \<in> measure (\<lambda>(acc, conn). length conn)"
    by (simp add: src_Read_rest)
qed simp

declare trojan_read_loop.simps [simp del]

datatype inner_kind = MuxStream | UDPStream | TCPStream

definition buf_Next_rd :: "nat \<Rightarrow> (bytes, bytes) rd" where
  "buf_Next_rd n bs = (Inr (take n bs), drop n bs)"

definition trojan_kind :: "byte \<Rightarrow> inner_kind option" where
  "trojan_kind cmdb =
     (if cmdb = CmdConnect then Some TCPStream
      else if cmdb = CmdUDPAssociate then Some UDPStream
      else if cmdb = CmdMux then Some MuxStream
      else None)"

text \<open>The part after the label \<open>realPart\<close>, up to the construction of the result.\<close>

definition trojan_realPart :: "(string \<Rightarrow> User option) \<Rightarrow> nat \<Rightarrow> (bytes, User \<times> inner_kind \<times> Addr) rd" where
  "trojan_realPart auth wholeReadLen =
     (if wholeReadLen < passStrLen + 8 + 1 then rd_fail (invalid_data ''handshake len too short'')
      else
        rd_bind (buf_Next_rd passStrLen) (\<lambda>hash.
        case (if length hash \<noteq> passStrLen then None else auth (string_of_bytes hash)) of
          None \<Rightarrow> rd_fail (invalid_data ''hash not match'')
        | Some theUser \<Rightarrow>
            rd_bind buf_ReadByte0 (\<lambda>crb. rd_bind buf_ReadByte0 (\<lambda>lfb.
            if crb \<noteq> crlf ! 0 \<or> lfb \<noteq> crlf ! 1 then rd_fail (invalid_data ''crlf wrong'')
            else
              rd_bind buf_ReadByte0 (\<lambda>cmdb.
              case trojan_kind cmdb of
                None \<Rightarrow> rd_fail (invalid_data ''cmd byte wrong'')
              | Some kind \<Rightarrow>
                  rd_bind (trojan_GetAddrFrom (kind = MuxStream) buf_ReadByte buf_Read) (\<lambda>targetAddr.
                  let targetAddr = (if kind = UDPStream then targetAddr\<lparr>Network := ''udp''\<rparr> else targetAddr) in
                  rd_bind buf_ReadByte (\<lambda>crb. rd_bind buf_ReadByte (\<lambda>lfb.
                  if crb \<noteq> crlf ! 0 \<or> lfb \<noteq> crlf ! 1 then rd_fail (invalid_data ''crlf wrong'')
                  else rd_ok (theUser, kind, targetAddr)))))))))"

record handshake =
  hs_user :: User
  hs_kind :: inner_kind
  hs_target :: Addr
  hs_remain :: bytes

definition trojan_Handshake ::
    "(string \<Rightarrow> User option) \<Rightarrow> bytes list \<Rightarrow> (goerr + handshake) \<times> bytes list" where
  "trojan_Handshake auth conn =
     (case trojan_read_loop [] conn of
        (Inl e, conn') \<Rightarrow> (Inl e, conn')
      | (Inr readbs, conn') \<Rightarrow>
          if length readbs < 17 then (Inl (err_text ''fallback, msg too short''), conn')
          else
            (case trojan_realPart auth (length readbs) readbs of
               (Inl e, _) \<Rightarrow> (Inl (ErrBuffer e readbs), conn')
             | (Inr (u, kind, target), remain) \<Rightarrow>
                 (Inr \<lparr>hs_user = u, hs_kind = kind, hs_target = target, hs_remain = remain\<rparr>, conn')))"

section \<open>Users and their hash\<close>

definition trojan_user :: "User \<Rightarrow> bool" where
  "trojan_user u \<longleftrightarrow> length (AuthBytes u) = passBytesLen \<and> AuthStr u = PassBytesToStr (AuthBytes u)"

lemma hex_Encode_inject: "hex_Encode a = hex_Encode b \<longleftrightarrow> a = b"
  by (metis hex_Decode_Encode sum.inject(2))

interpretation trojan_users: keyed_users PassBytesToStr trojan_user
  by unfold_locales (auto simp: trojan_user_def PassBytesToStr_def hex_Encode_inject)

lemma trojan_user_new:
  "length (digest pw) = passBytesLen \<Longrightarrow> trojan_user (NewUserByPlainTextPassword digest pw)"
  by (simp add: trojan_user_def NewUserByPlainTextPassword_def SHA224_hexString_def)

text \<open>The passwords a server is configured with.\<close>

definition trojan_passwords :: "string \<Rightarrow> UserConf list \<Rightarrow> string set" where
  "trojan_passwords uuidStr users = (if uuidStr = [] then {} else {uuidStr}) \<union> confUser ` set users"

lemma auth_inv_trojan_newServer:
  assumes "\<And>pw. length (digest pw) = passBytesLen"
  shows "auth_inv PassBytesToStr trojan_user (trojan_newServer digest pw)"
  using trojan_user_new [OF assms]
  by (auto simp: trojan_newServer_def auth_inv_def auth_key_def NewMultiUserMap_def AddUser_str Let_def)

lemma NewUser_AuthStr: "AuthStr (NewUserByPlainTextPassword digest pw) = hex_Encode (digest pw)"
  by (simp add: NewUserByPlainTextPassword_def SHA224_hexString_def PassBytesToStr_def)

lemma trojan_InitUsers_ok:
  "(\<And>pw. length (digest pw) = passBytesLen) \<Longrightarrow> list_all trojan_user (trojan_InitUsers digest uc)"
  by (auto simp: trojan_InitUsers_def list_all_iff trojan_user_new)

lemma trojan_auth_inv:
  assumes "\<And>pw. length (digest pw) = passBytesLen"
  shows "auth_inv PassBytesToStr trojan_user (trojan_NewServer digest uuidStr users)"
  using trojan_users.inv_load [OF auth_inv_trojan_newServer trojan_InitUsers_ok] assms
    auth_inv_trojan_newServer [of digest, OF assms]
  by (simp add: trojan_NewServer_def Let_def LoadUsers_eq)

lemma trojan_auth_iff:
  assumes "\<And>pw. length (digest pw) = passBytesLen"
  shows "AuthUserByStr (trojan_NewServer digest uuidStr users) a \<noteq> None
    \<longleftrightarrow> a \<in> (\<lambda>pw. hex_Encode (digest pw)) ` trojan_passwords uuidStr users"
proof -
  have 1: "AuthUserByStr (trojan_newServer digest uuidStr) a \<noteq> None
      \<longleftrightarrow> uuidStr \<noteq> [] \<and> a = hex_Encode (digest uuidStr)"
    by (simp add: trojan_newServer_def Let_def AuthUserByStr_def NewMultiUserMap_def AddUser_str
        NewUser_AuthStr)
  have "AuthUserByStr (LoadUsers (trojan_InitUsers digest users) (trojan_newServer digest uuidStr)) a \<noteq> None
    \<longleftrightarrow> a \<in> AuthStr ` set (trojan_InitUsers digest users) \<or>
      AuthUserByStr (trojan_newServer digest uuidStr) a \<noteq> None"
    unfolding LoadUsers_eq
    by (rule trojan_users.ByStr_load [OF auth_inv_trojan_newServer [OF assms] trojan_InitUsers_ok [OF assms]])
  with 1 show ?thesis
    by (cases users)
     (auto simp: trojan_NewServer_def Let_def trojan_passwords_def trojan_InitUsers_def NewUser_AuthStr image_iff
        LoadUsers_def)
qed

section \<open>The read loop\<close>

lemma trojan_read_loop_stream:
  "trojan_read_loop acc conn = (Inr bs, conn') \<Longrightarrow> bs @ concat conn' = acc @ concat conn"
proof (induction acc conn rule: trojan_read_loop.induct)
  case (1 acc conn)
  obtain r c1 where rd: "src_Read (MTU - length acc) conn = (r, c1)" by force
  show ?case
  proof (cases r)
    case (Inl e)
    with rd "1.prems" show ?thesis by (subst (asm) trojan_read_loop.simps) simp
  next
    case (Inr got)
    have split: "concat conn = got @ concat c1"
      using rd Inr by (cases conn) (auto split: if_splits)
    show ?thesis
    proof (cases "crlf_seen got \<or> MTU \<le> length (acc @ got)")
      case True
      with rd Inr "1.prems" split show ?thesis by (subst (asm) trojan_read_loop.simps) auto
    next
      case False
      with rd Inr "1.prems" have "trojan_read_loop (acc @ got) c1 = (Inr bs, conn')"
        by (subst (asm) trojan_read_loop.simps) auto
      from "1.IH" [OF rd [symmetric] Inr False this] split show ?thesis by simp
    qed
  qed
qed

lemma trojan_read_loop_first:
  assumes "crlf_seen (take MTU c)"
  shows "trojan_read_loop [] (c # cs) =
    (Inr (take MTU c), if length c \<le> MTU then cs else drop MTU c # cs)"
  using assms by (subst trojan_read_loop.simps) auto

lemma char_to_byte_hex: "b \<in> set (bytes_of_string (hex_Encode xs)) \<Longrightarrow> b \<noteq> 0x0d"
proof -
  have hc: "char_to_byte (hex_char n) \<noteq> 0x0d" if "n < 16" for n
  proof
    assume "char_to_byte (hex_char n) = 0x0d"
    then have "hex_char n = byte_to_char 0x0d" by (metis char_byte_char)
    with hex_val_char [OF that] have "hex_val (byte_to_char 0x0d) = Some n" by simp
    then show False by (simp add: hex_val_def byte_to_char_def Let_def)
  qed
  assume "b \<in> set (bytes_of_string (hex_Encode xs))"
  then show ?thesis
    by (induction xs) (auto simp: hex_Encode_def hex_byte_def bytes_of_string_def unat_byte_div16 hc)
qed

section \<open>The handshake\<close>

lemma trojan_WriteAddrToBuf_wire: "dest_ok a \<Longrightarrow> trojan_WriteAddrToBuf a = socks_wire a @ crlf"
  by (simp add: trojan_WriteAddrToBuf_def socks_WriteAddr_wire)

text \<open>The request header up to the payload.\<close>

definition trojan_header :: "User \<Rightarrow> byte \<Rightarrow> Addr \<Rightarrow> bytes" where
  "trojan_header u cmd a = bytes_of_string (AuthStr u) @ crlf @ [cmd] @ socks_wire a @ crlf"

definition kind_cmd :: "inner_kind \<Rightarrow> byte" where
  "kind_cmd k = (case k of TCPStream \<Rightarrow> CmdConnect | UDPStream \<Rightarrow> CmdUDPAssociate | MuxStream \<Rightarrow> CmdMux)"

lemma trojan_kind_cmd [simp]: "trojan_kind (kind_cmd k) = Some k"
  by (cases k) (simp_all add: kind_cmd_def trojan_kind_def model_defs)

lemma trojan_kind_SomeD: "trojan_kind b = Some k \<Longrightarrow> b = kind_cmd k"
  by (auto simp: kind_cmd_def trojan_kind_def split: if_splits)

definition trojan_target :: "inner_kind \<Rightarrow> Addr \<Rightarrow> Addr" where
  "trojan_target k a = (if k = UDPStream then (wire_Addr a)\<lparr>Network := ''udp''\<rparr> else wire_Addr a)"

lemma trojan_user_AuthStr: "trojan_user u \<Longrightarrow> AuthStr u = hex_Encode (AuthBytes u) \<and> length (AuthStr u) = 56
    \<and> length (AuthBytes u) = 28"
  by (simp add: trojan_user_def PassBytesToStr_def passBytesLen_def)

lemma trojan_client_header:
  assumes "dest_ok a"
  shows "trojan_client_Handshake u mux p a = Inr (trojan_header u (kind_cmd (if mux then MuxStream else TCPStream)) a @ p)"
  using assms by (auto simp: trojan_client_Handshake_def trojan_header_def trojan_WriteAddrToBuf_wire
      kind_cmd_def dest_ok_def port_ok_def)

lemma parses_trojan_addr:
  "dest_ok a \<Longrightarrow> parses (trojan_GetAddrFrom z buf_ReadByte buf_Read) (socks_wire a) (wire_Addr a)"
  unfolding trojan_GetAddrFrom_def by (rule parses_socks_GetAddrFrom)

lemma trojan_realPart_header:
  assumes "trojan_user u" "dest_ok a" "auth (AuthStr u) = Some u'"
  shows "trojan_realPart auth (length (trojan_header u (kind_cmd k) a @ rest)) (trojan_header u (kind_cmd k) a @ rest)
    = (Inr (u', k, trojan_target k a), rest)"
proof -
  from trojan_user_AuthStr [OF assms(1)] have len: "length (AuthStr u) = 56" by (elim conjE)
  have "length (trojan_header u (kind_cmd k) a) \<ge> 66"
    using socks_wire_length [OF assms(2)] len by (simp add: trojan_header_def crlf_def)
  then have long: "\<not> length (trojan_header u (kind_cmd k) a @ rest) < passStrLen + 8 + 1"
    by (simp add: passStrLen_def passBytesLen_def)
  have addr: "trojan_GetAddrFrom z buf_ReadByte buf_Read (socks_wire a @ r) = (Inr (wire_Addr a), r)" for z r
    by (rule parsesD [OF parses_trojan_addr [OF assms(2)]])
  show ?thesis
    unfolding trojan_realPart_def if_not_P [OF long]
    by (simp add: rd_bind_def trojan_header_def buf_Next_rd_def passStrLen_def passBytesLen_def len assms(3)
        buf_ReadByte0_def crlf_def addr trojan_target_def)
qed

lemma crlf_seen_header:
  assumes "trojan_user u"
  shows "crlf_seen (trojan_header u c a @ rest)"
proof -
  let ?h = "bytes_of_string (AuthStr u)"
  have "list_index crlf (?h @ crlf @ ([c] @ socks_wire a @ crlf @ rest)) \<noteq> Some 0"
  proof
    assume "list_index crlf (?h @ crlf @ ([c] @ socks_wire a @ crlf @ rest)) = Some 0"
    from list_index_Some_take [OF this] have *: "take 2 (?h @ crlf @ ([c] @ socks_wire a @ crlf @ rest)) = crlf"
      by simp
    from trojan_user_AuthStr [OF assms] have "length ?h = 56" "?h = bytes_of_string (hex_Encode (AuthBytes u))"
      by (simp_all)
    then obtain x xs where "?h = x # xs" "x \<noteq> 0x0d"
      by (metis char_to_byte_hex length_0_conv list.exhaust list.set_intros(1) zero_neq_numeral)
    with * show False by (simp add: crlf_def)
  qed
  moreover from list_index_append_sep [of ?h crlf] obtain i where
    "list_index crlf (?h @ crlf @ ([c] @ socks_wire a @ crlf @ rest)) = Some i" by blast
  ultimately show ?thesis by (cases i) (simp_all add: crlf_seen_def trojan_header_def)
qed

lemma trojan_Handshake_header:
  assumes "trojan_user u" "dest_ok a" "auth (AuthStr u) = Some u'"
  shows "\<exists>remain conn'. trojan_Handshake auth ((trojan_header u (kind_cmd k) a @ p) # cs)
     = (Inr \<lparr>hs_user = u', hs_kind = k, hs_target = trojan_target k a, hs_remain = remain\<rparr>, conn')
    \<and> remain @ concat conn' = p @ concat cs"
proof -
  let ?h = "trojan_header u (kind_cmd k) a"
  from trojan_user_AuthStr [OF assms(1)] have "length ?h \<le> MTU" and h17: "17 \<le> length ?h"
    using socks_wire_length [OF assms(2)] by (simp_all add: trojan_header_def crlf_def MTU_def)
  then have tk: "take MTU (?h @ p) = ?h @ take (MTU - length ?h) p" by simp
  let ?p = "take (MTU - length ?h) p"
  let ?cs = "if length (?h @ p) \<le> MTU then cs else drop MTU (?h @ p) # cs"
  have "trojan_read_loop [] ((?h @ p) # cs) = (Inr (?h @ ?p), ?cs)"
    using trojan_read_loop_first [of "?h @ p" cs] crlf_seen_header [OF assms(1), of "kind_cmd k" a ?p]
    unfolding tk by simp
  then have "trojan_Handshake auth ((?h @ p) # cs) =
      (Inr \<lparr>hs_user = u', hs_kind = k, hs_target = trojan_target k a, hs_remain = ?p\<rparr>, ?cs)"
    using trojan_realPart_header [of u a auth u' k ?p] assms h17 by (simp add: trojan_Handshake_def)
  moreover have "?p @ concat ?cs = p @ concat cs"
    using \<open>length ?h \<le> MTU\<close> by auto
  ultimately show ?thesis by blast
qed

text \<open>What the server accepts.\<close>

lemma trojan_realPart_sound:
  assumes "trojan_realPart auth n bs = (Inr (u, k, a), rest)"
  shows "\<exists>h. bs = bytes_of_string h @ crlf @ [kind_cmd k] @ socks_raw a @ crlf @ rest
    \<and> length h = passStrLen \<and> auth h = Some u \<and> parsed_ok (k = MuxStream) (a\<lparr>Network := []\<rparr>)
    \<and> Network a = (if k = UDPStream then ''udp'' else [])"
proof -
  let ?hash = "take passStrLen bs" and ?r0 = "drop passStrLen bs"
  from assms obtain r1 r2 r3 cmd x where
    hash: "length ?hash = passStrLen" "auth (string_of_bytes ?hash) = Some u"
    and c1: "buf_ReadByte0 ?r0 = (Inr 0x0d, r1)" and c2: "buf_ReadByte0 r1 = (Inr 0x0a, r2)"
    and cmd: "buf_ReadByte0 r2 = (Inr cmd, r3)" "trojan_kind cmd = Some k"
    and addr: "trojan_GetAddrFrom (k = MuxStream) buf_ReadByte buf_Read r3 = (Inr x, 0x0d # 0x0a # rest)"
    and a: "a = (if k = UDPStream then x\<lparr>Network := ''udp''\<rparr> else x)"
    unfolding trojan_realPart_def Let_def
    by (fastforce simp: buf_Next_rd_def elim!: rd_bind_InrE buf_ReadByte_InrE split: if_splits option.splits)
  have cmd0: "cmd \<noteq> 0" using cmd(2) by (auto simp: trojan_kind_def model_defs)
  from c1 have r0: "?r0 = 0x0d # r1" by (auto elim: buf_ReadByte0_InrE)
  from c2 have r1: "r1 = 0x0a # r2" by (auto elim: buf_ReadByte0_InrE)
  from cmd(1) cmd0 have r2: "r2 = cmd # r3" by (auto elim: buf_ReadByte0_InrE)
  from socks_GetAddrFrom_sound [OF addr [unfolded trojan_GetAddrFrom_def]]
  have x: "r3 = socks_raw x @ 0x0d # 0x0a # rest" "parsed_ok (k = MuxStream) x" by auto
  then have nw: "Network x = []" "x\<lparr>Network := []\<rparr> = x" by (auto simp: parsed_ok_def)
  have "bs = ?hash @ 0x0d # 0x0a # cmd # socks_raw x @ 0x0d # 0x0a # rest"
    using append_take_drop_id [of passStrLen bs] r0 r1 r2 x(1) by simp
  then show ?thesis
    using hash x(2) a nw trojan_kind_SomeD [OF cmd(2)]
    by (intro exI [of _ "string_of_bytes ?hash"]) (auto simp: crlf_def parsed_ok_network)
qed

section \<open>UDP frames\<close>

definition trojan_frame :: "bytes \<Rightarrow> Addr \<Rightarrow> bytes" where
  "trojan_frame p a = fst (trojan_WriteMsg None p a)"

lemma trojan_WriteMsg_frame:
  "trojan_WriteMsg h p a = ((case h of Some b \<Rightarrow> b | None \<Rightarrow> []) @ socks_wire a @ socks_msg_tail p, None)"
  by (simp add: trojan_WriteMsg_def socks_wire_def socks_msg_tail_def Let_def split: prod.splits)

lemma trojan_frame_eq: "trojan_frame p a = socks_wire a @ socks_msg_tail p"
  by (simp add: trojan_frame_def trojan_WriteMsg_frame)

lemma parses_trojan_ReadMsg:
  "udp_ok p a \<Longrightarrow> parses (trojan_ReadMsg buf_ReadByte buf_Read) (trojan_frame p a) (p, udp_canon a)"
  unfolding trojan_ReadMsg_def trojan_frame_eq udp_canon_def udp_ok_def
  by (intro parses_socks_ReadMsg parses_trojan_addr) auto

interpretation trojan_msg: msg_codec trojan_frame "trojan_ReadMsg buf_ReadByte buf_Read" udp_ok udp_canon
  by unfold_locales (rule parses_trojan_ReadMsg)

lemma trojan_ReadMsg_chunk:
  assumes "udp_ok p a"
  shows "trojan_ReadMsg bufio_ReadByte bufio_Read \<lparr>bufd = [], src = trojan_frame p a # cs\<rparr>
    = (Inr (p, udp_canon a), \<lparr>bufd = [], src = cs\<rparr>)"
proof -
  from assms have a: "dest_ok a" "payload_ok p" by (simp_all add: udp_ok_def)
  show ?thesis
    unfolding trojan_ReadMsg_def trojan_frame_eq udp_canon_def
    by (rule socks_ReadMsg_chunk [OF _ _ parses_trojan_addr [OF a(1), of False] a(2)])
      (use socks_wire_length [OF a(1)] in
        \<open>simp_all add: trojan_GetAddrFrom_def bufd_local_socks_GetAddrFrom socks_GetAddrFrom_fetch\<close>)
qed

lemma refines_trojan_ReadMsg:
  "bufio_reader.refines (trojan_ReadMsg bufio_ReadByte bufio_Read) (trojan_ReadMsg buf_ReadByte buf_Read)"
  unfolding trojan_ReadMsg_def trojan_GetAddrFrom_def
  by (intro bufio_reader.refines_socks_ReadMsg bufio_reader.refines_socks_GetAddrFrom)

section \<open>Properties\<close>

lemma trojan_auth_user:
  assumes "\<And>pw. length (digest pw) = passBytesLen" "pw \<in> trojan_passwords uuidStr users"
  obtains u' where "AuthUserByStr (trojan_NewServer digest uuidStr users) (hex_Encode (digest pw)) = Some u'"
    and "AuthStr u' = hex_Encode (digest pw)"
proof -
  from assms trojan_auth_iff [of digest] obtain u' where
    u': "AuthUserByStr (trojan_NewServer digest uuidStr users) (hex_Encode (digest pw)) = Some u'"
    by blast
  from trojan_users.ByStr_sound [OF trojan_auth_inv [of digest, OF assms(1)] u'] that [OF u'] show thesis by blast
qed


text \<open>C6: Nobody else is let in.\<close>

theorem trojan_handshake_sound:
  assumes "\<And>pw. length (digest pw) = passBytesLen"
    and "trojan_Handshake (AuthUserByStr (trojan_NewServer digest uuidStr users)) conn = (Inr h, conn')"
  shows "\<exists>pw \<in> trojan_passwords uuidStr users.
      AuthStr (hs_user h) = hex_Encode (digest pw)
    \<and> concat conn = bytes_of_string (hex_Encode (digest pw)) @ crlf @ [kind_cmd (hs_kind h)]
        @ socks_raw (hs_target h) @ crlf @ hs_remain h @ concat conn'
    \<and> parsed_ok (hs_kind h = MuxStream) ((hs_target h)\<lparr>Network := []\<rparr>)
    \<and> Network (hs_target h) = (if hs_kind h = UDPStream then ''udp'' else [])"
proof -
  let ?auth = "AuthUserByStr (trojan_NewServer digest uuidStr users)"
  from assms(2) obtain bs where loop: "trojan_read_loop [] conn = (Inr bs, conn')"
    and real: "trojan_realPart ?auth (length bs) bs = (Inr (hs_user h, hs_kind h, hs_target h), hs_remain h)"
    by (auto simp: trojan_Handshake_def split: prod.splits sum.splits if_splits)
  from trojan_realPart_sound [OF real] obtain s where
    s: "bs = bytes_of_string s @ crlf @ [kind_cmd (hs_kind h)] @ socks_raw (hs_target h) @ crlf @ hs_remain h"
    "?auth s = Some (hs_user h)" and
    rest: "parsed_ok (hs_kind h = MuxStream) ((hs_target h)\<lparr>Network := []\<rparr>)"
    "Network (hs_target h) = (if hs_kind h = UDPStream then ''udp'' else [])"
    by blast
  from s(2) trojan_auth_iff [of digest uuidStr users s, OF assms(1)] obtain pw where
    pw: "pw \<in> trojan_passwords uuidStr users" "s = hex_Encode (digest pw)" by blast
  from trojan_users.ByStr_sound [OF trojan_auth_inv [of digest, OF assms(1)] s(2)] have "AuthStr (hs_user h) = s" by blast
  with trojan_read_loop_stream [OF loop] s(1) pw rest show ?thesis by (intro bexI [of _ pw]) auto
qed

text \<open>C9: A refused connection can be handed to the fallback as it came.\<close>

theorem trojan_fallback_complete:
  assumes "trojan_Handshake auth conn = (Inl e, conn')"
  shows "(\<exists>e' bs. e = ErrBuffer e' bs \<and> 17 \<le> length bs \<and> bs @ concat conn' = concat conn)
    \<or> (\<exists>bs. trojan_read_loop [] conn = (Inr bs, conn') \<and> length bs < 17)
    \<or> trojan_read_loop [] conn = (Inl e, conn')"
  using assms trojan_read_loop_stream [of "[]" conn]
  by (auto simp: trojan_Handshake_def split: prod.splits sum.splits if_splits)

lemma trojan_Establish_writes:
  assumes "dest_ok a" "p \<noteq> []"
  shows "trojan_EstablishUDPChannel u p a =
    Inr ([trojan_header u CmdUDPAssociate a @ trojan_frame p a], None)"
  using assms by (simp add: trojan_EstablishUDPChannel_def trojan_WriteMsg_frame trojan_frame_eq Let_def
      trojan_header_def trojan_WriteAddrToBuf_wire dest_ok_def port_ok_def)

text \<open>Datagrams sent through a trojan UDP channel arrive complete, in order and unmerged.\<close>

theorem trojan_udp_end_to_end:
  assumes "\<And>pw. length (digest pw) = passBytesLen"
    and "pw \<in> trojan_passwords uuidStr users" "udp_ok p a" "list_all (\<lambda>(q, b). udp_ok q b) ms"
  shows "\<exists>w h conn'.
      trojan_EstablishUDPChannel (NewUserByPlainTextPassword digest pw) p a = Inr ([w], None)
    \<and> trojan_Handshake (AuthUserByStr (trojan_NewServer digest uuidStr users))
        (w # map (\<lambda>(q, b). fst (trojan_WriteMsg None q b)) ms) = (Inr h, conn')
    \<and> hs_kind h = UDPStream
    \<and> read_n (Suc (length ms)) (trojan_ReadMsg buf_ReadByte buf_Read) (hs_remain h @ concat conn')
        = (Inr ((p, udp_canon a) # map (\<lambda>(q, b). (q, udp_canon b)) ms), [])"
proof -
  let ?u = "NewUserByPlainTextPassword digest pw"
  let ?fs = "map (\<lambda>(q, b). trojan_frame q b) ms"
  have a: "dest_ok a" "p \<noteq> []" using assms(3) by (auto simp: udp_ok_def payload_ok_def)
  obtain u where u: "AuthUserByStr (trojan_NewServer digest uuidStr users) (AuthStr ?u) = Some u"
    by (rule trojan_auth_user [of digest, OF assms(1,2)]) (simp add: NewUser_AuthStr)
  have "kind_cmd UDPStream = CmdUDPAssociate" by (simp add: kind_cmd_def)
  with trojan_Handshake_header [where u = ?u and auth = "AuthUserByStr (trojan_NewServer digest uuidStr users)",
      OF trojan_user_new [of digest pw, OF assms(1)] a(1) u, of UDPStream "trojan_frame p a" ?fs]
  obtain remain conn' where
    h: "trojan_Handshake (AuthUserByStr (trojan_NewServer digest uuidStr users))
        ((trojan_header ?u CmdUDPAssociate a @ trojan_frame p a) # ?fs)
      = (Inr \<lparr>hs_user = u, hs_kind = UDPStream, hs_target = trojan_target UDPStream a, hs_remain = remain\<rparr>, conn')"
    and stream: "remain @ concat conn' = trojan_frame p a @ concat ?fs" by auto
  have "read_n (length ((p, a) # ms)) (trojan_ReadMsg buf_ReadByte buf_Read)
      (concat (map (\<lambda>(p, a). trojan_frame p a) ((p, a) # ms)) @ [])
    = (Inr (map (\<lambda>(p, a). (p, udp_canon a)) ((p, a) # ms)), [])"
    by (rule trojan_msg.read_n_frames) (use assms(3,4) in simp)
  with h stream trojan_Establish_writes [OF a, of ?u] show ?thesis
    by (auto simp: trojan_frame_def)
qed

text \<open>Over a transport that keeps writes apart the conn's own buffered reader delivers them.\<close>

theorem trojan_udp_chunks:
  assumes "list_all (\<lambda>(q, b). udp_ok q b) ms"
  shows "read_n (length ms) (trojan_ReadMsg bufio_ReadByte bufio_Read)
      (bufio_NewReader (map (\<lambda>(q, b). fst (trojan_WriteMsg None q b)) ms @ cs))
    = (Inr (map (\<lambda>(q, b). (q, udp_canon b)) ms), bufio_NewReader cs)"
  using read_n_chunks [where ok = udp_ok and m = "trojan_ReadMsg bufio_ReadByte bufio_Read"
      and enc = trojan_frame, OF trojan_ReadMsg_chunk assms, of cs]
  by (simp add: bufio_NewReader_def trojan_frame_def)

text \<open>However the stream is cut, the buffered reader never delivers a wrong datagram.\<close>

theorem trojan_udp_bufio_sound:
  assumes "list_all (\<lambda>(q, b). udp_ok q b) ms" "[] \<notin> set cs"
    and "concat cs = concat (map (\<lambda>(q, b). fst (trojan_WriteMsg None q b)) ms)"
    and "read_n (length ms) (trojan_ReadMsg bufio_ReadByte bufio_Read) (bufio_NewReader cs) = (Inr xs, r)"
  shows "xs = map (\<lambda>(q, b). (q, udp_canon b)) ms"
proof -
  have "bufio_inv (bufio_NewReader cs)" using assms(2) by (simp add: bufio_inv_def bufio_NewReader_def)
  from bufio_reader.refinesD [OF bufio_reader.refines_read_n [OF refines_trojan_ReadMsg] this assms(4)]
  have "read_n (length ms) (trojan_ReadMsg buf_ReadByte buf_Read) (concat cs) = (Inr xs, bufio_content r)"
    by (simp add: bufio_content_def bufio_NewReader_def)
  with trojan_msg.read_n_frames [OF assms(1), of "[]"] assms(3) show ?thesis
    by (simp add: trojan_frame_def)
qed

text \<open>A domain cut by a chunk boundary is refused, though the stream is a valid frame.\<close>

theorem trojan_udp_straddle:
  assumes "IP a = None" "Name a = x @ y" "x \<noteq> []" "y \<noteq> []" "udp_ok p a"
  shows "\<exists>c1 c2. fst (trojan_WriteMsg None p a) = c1 @ c2
    \<and> fst (trojan_ReadMsg buf_ReadByte buf_Read (c1 @ c2)) = Inr (p, udp_canon a)
    \<and> fst (trojan_ReadMsg bufio_ReadByte bufio_Read (bufio_NewReader [c1, c2])) = Inl ErrShortRead"
proof -
  from assms(5) have ok: "dest_ok a" "name_ok (Name a)"
    using assms(1) by (auto simp: udp_ok_def dest_ok_def)
  let ?c1 = "ATypDomain # word_of_nat (length (Name a)) # bytes_of_string x"
  let ?c2 = "bytes_of_string y @ [byte_shr8 (Port a), byte_shl8_shr8 (Port a)] @ socks_msg_tail p"
  have w: "trojan_frame p a = ?c1 @ ?c2"
    using ok assms(1,2) by (auto simp: trojan_frame_eq socks_wire_def AddressBytes_def name_ok_def
        bytes_of_string_def)
  from socks_GetAddrFrom_straddle [OF assms(2-4) ok(2)]
  have "fst (trojan_ReadMsg bufio_ReadByte bufio_Read (bufio_NewReader [?c1, ?c2])) = Inl ErrShortRead"
    by (simp add: trojan_ReadMsg_def socks_ReadMsg_def trojan_GetAddrFrom_def rd_bind_def bufio_NewReader_def)
  moreover have "fst (trojan_ReadMsg buf_ReadByte buf_Read (?c1 @ ?c2)) = Inr (p, udp_canon a)"
    using parsesD_all [OF parses_trojan_ReadMsg [OF assms(5)]] w by simp
  moreover have "fst (trojan_WriteMsg None p a) = ?c1 @ ?c2" using w by (simp add: trojan_frame_def)
  ultimately show ?thesis by blast
qed

text \<open>The writer emits a frame for an empty datagram that the reader refuses.\<close>

theorem trojan_udp_empty:
  assumes "dest_ok a"
  shows "fst (trojan_ReadMsg buf_ReadByte buf_Read (fst (trojan_WriteMsg None [] a) @ rest)) = Inl ErrInvalidData"
  using socks_ReadMsg_empty [OF parses_trojan_addr [OF assms], of False rest]
  by (simp add: trojan_ReadMsg_def trojan_WriteMsg_frame)

text \<open>Deleting a trojan user leaves the password valid.\<close>

theorem trojan_DelUser_no_revocation:
  assumes "\<And>pw. length (digest pw) = passBytesLen"
    and "pw \<in> trojan_passwords uuidStr users" "pw \<noteq> hex_Encode (digest pw)"
  shows "AuthUserByStr (DelUser (NewUserByPlainTextPassword digest pw) (trojan_NewServer digest uuidStr users))
    (hex_Encode (digest pw)) \<noteq> None"
proof -
  obtain u' where u: "AuthUserByStr (trojan_NewServer digest uuidStr users) (hex_Encode (digest pw)) = Some u'"
    by (rule trojan_auth_user [of digest, OF assms(1,2)])
  moreover from trojan_auth_inv [of digest, OF assms(1)]
  have "StoreKeyByStr (trojan_NewServer digest uuidStr users)" by (simp add: auth_inv_def)
  ultimately show ?thesis using assms(3)
    by (simp add: DelUser_def AuthUserByStr_str NewUser_AuthStr)
      (simp add: NewUserByPlainTextPassword_def)
qed

section \<open>Witnesses\<close>

definition sample_digest :: "string \<Rightarrow> bytes" where
  "sample_digest pw = take 28 (bytes_of_string pw @ replicate 28 0)"

lemma length_sample_digest: "length (sample_digest pw) = passBytesLen"
  by (simp add: sample_digest_def passBytesLen_def)

lemma sample_password: "''pw'' \<in> trojan_passwords ''pw'' []"
  by (simp add: trojan_passwords_def)

lemmas sample_facts = length_sample_digest sample_password sample_dest_ok sample_udp_ok


theorem trojan_udp_end_to_end_witness:
  "\<exists>w h conn'.
      trojan_EstablishUDPChannel (NewUserByPlainTextPassword sample_digest ''pw'') [1, 2, 3] sample_dest = Inr ([w], None)
    \<and> trojan_Handshake (AuthUserByStr (trojan_NewServer sample_digest ''pw'' []))
        [w, fst (trojan_WriteMsg None [1, 2, 3] sample_dest)] = (Inr h, conn')
    \<and> hs_kind h = UDPStream
    \<and> read_n 2 (trojan_ReadMsg buf_ReadByte buf_Read) (hs_remain h @ concat conn')
        = (Inr [([1, 2, 3], udp_canon sample_dest), ([1, 2, 3], udp_canon sample_dest)], [])"
  using trojan_udp_end_to_end [where digest = sample_digest and ms = "[([1, 2, 3], sample_dest)]",
      OF length_sample_digest sample_password sample_udp_ok] sample_udp_ok
  by (simp add: numeral_2_eq_2)

theorem trojan_udp_chunks_witness:
  "read_n (length [([1::byte, 2, 3], sample_dest)]) (trojan_ReadMsg bufio_ReadByte bufio_Read)
      (bufio_NewReader (map (\<lambda>(q, b). fst (trojan_WriteMsg None q b)) [([1, 2, 3], sample_dest)] @ [[9]]))
    = (Inr (map (\<lambda>(q, b). (q, udp_canon b)) [([1, 2, 3], sample_dest)]), bufio_NewReader [[9]])"
  by (rule trojan_udp_chunks) (simp add: sample_udp_ok)

theorem trojan_udp_straddle_witness:
  "\<exists>c1 c2. fst (trojan_WriteMsg None [1, 2, 3] sample_dest) = c1 @ c2
    \<and> fst (trojan_ReadMsg buf_ReadByte buf_Read (c1 @ c2)) = Inr ([1, 2, 3], udp_canon sample_dest)
    \<and> fst (trojan_ReadMsg bufio_ReadByte bufio_Read (bufio_NewReader [c1, c2])) = Inl ErrShortRead"
proof (rule trojan_udp_straddle [where x = "''example''" and y = "''.com''"])
  show "IP sample_dest = None" "Name sample_dest = ''example'' @ ''.com''"
    by (simp_all add: sample_dest_def zero_Addr_def)
qed (simp_all add: sample_udp_ok)

theorem trojan_udp_empty_witness:
  "fst (trojan_ReadMsg buf_ReadByte buf_Read (fst (trojan_WriteMsg None [] sample_dest) @ [])) = Inl ErrInvalidData"
  by (rule trojan_udp_empty [OF sample_dest_ok])

theorem trojan_DelUser_no_revocation_witness:
  "AuthUserByStr (DelUser (NewUserByPlainTextPassword sample_digest ''pw'') (trojan_NewServer sample_digest ''pw'' []))
    (hex_Encode (sample_digest ''pw'')) \<noteq> None"
proof (rule trojan_DelUser_no_revocation [OF length_sample_digest sample_password])
  have "length ''pw'' \<noteq> length (hex_Encode (sample_digest ''pw''))"
    using length_sample_digest [of "''pw''"] by (simp add: passBytesLen_def)
  then show "''pw'' \<noteq> hex_Encode (sample_digest ''pw'')" by metis
qed

text \<open>A short request is refused, a long one with an unknown password goes to the fallback.\<close>

theorem trojan_fallback_complete_witness:
  "\<exists>e' bs. fst (trojan_Handshake (\<lambda>_. None) [[65, 65, 65, 65, 65, 65, 65, 65, 65, 65, 65, 65, 65, 65, 65, 65, 65, 65, 65, 65, 13, 10], [9]]) = Inl (ErrBuffer e' bs)
    \<and> bs @ concat [[9]] = [65, 65, 65, 65, 65, 65, 65, 65, 65, 65, 65, 65, 65, 65, 65, 65, 65, 65, 65, 65, 13, 10] @ [9]"
proof -
  have l: "trojan_read_loop [] [[65, 65, 65, 65, 65, 65, 65, 65, 65, 65, 65, 65, 65, 65, 65, 65, 65, 65, 65, 65, 13, 10], [9]] = (Inr ([65, 65, 65, 65, 65, 65, 65, 65, 65, 65, 65, 65, 65, 65, 65, 65, 65, 65, 65, 65, 13, 10]), [[9]])"
    by (subst trojan_read_loop.simps) (simp add: MTU_def crlf_seen_def crlf_def)
  then have e: "trojan_Handshake (\<lambda>_. None) [[65, 65, 65, 65, 65, 65, 65, 65, 65, 65, 65, 65, 65, 65, 65, 65, 65, 65, 65, 65, 13, 10], [9]]
      = (Inl (ErrBuffer (invalid_data ''handshake len too short'') ([65, 65, 65, 65, 65, 65, 65, 65, 65, 65, 65, 65, 65, 65, 65, 65, 65, 65, 65, 65, 13, 10])), [[9]])"
    by (simp add: trojan_Handshake_def trojan_realPart_def passStrLen_def passBytesLen_def crlf_def)
  from trojan_fallback_complete [OF e] l e show ?thesis by auto
qed

theorem trojan_handshake_sound_witness:
  "\<exists>w h conn'. trojan_Handshake (AuthUserByStr (trojan_NewServer sample_digest ''pw'' [])) [w] = (Inr h, conn')
    \<and> (\<exists>pw \<in> trojan_passwords ''pw'' []. AuthStr (hs_user h) = hex_Encode (sample_digest pw))"
proof -
  let ?u = "NewUserByPlainTextPassword sample_digest ''pw''"
  obtain u where u: "AuthUserByStr (trojan_NewServer sample_digest ''pw'' []) (AuthStr ?u) = Some u"
    by (rule trojan_auth_user [of sample_digest, OF length_sample_digest sample_password]) (simp add: NewUser_AuthStr)
  from trojan_Handshake_header [where u = ?u and auth = "AuthUserByStr (trojan_NewServer sample_digest ''pw'' [])",
      OF trojan_user_new [of sample_digest "''pw''", OF length_sample_digest] sample_dest_ok u, of TCPStream "[]" "[]"]
  obtain w h conn' where
    "trojan_Handshake (AuthUserByStr (trojan_NewServer sample_digest ''pw'' [])) [w] = (Inr h, conn')" by blast
  with trojan_handshake_sound [where digest = sample_digest, OF length_sample_digest this] show ?thesis by blast
qed

theorem trojan_udp_bufio_sound_witness:
  "\<exists>xs. fst (read_n (length [([1::byte, 2, 3], sample_dest)]) (trojan_ReadMsg bufio_ReadByte bufio_Read)
      (bufio_NewReader [fst (trojan_WriteMsg None [1, 2, 3] sample_dest)])) = Inr xs
    \<and> xs = map (\<lambda>(q, b). (q, udp_canon b)) [([1, 2, 3], sample_dest)]"
proof -
  let ?ms = "[([1::byte, 2, 3], sample_dest)]"
  let ?f = "fst (trojan_WriteMsg None [1, 2, 3] sample_dest)"
  have ne: "[] \<notin> set [?f]" by (simp add: trojan_WriteMsg_frame socks_msg_tail_def)
  have r: "read_n (length ?ms) (trojan_ReadMsg bufio_ReadByte bufio_Read) (bufio_NewReader [?f])
      = (Inr [([1, 2, 3], udp_canon sample_dest)], bufio_NewReader [])"
    using trojan_ReadMsg_chunk [OF sample_udp_ok, of "[]"]
    by (simp add: rd_bind_def bufio_NewReader_def trojan_frame_def)
  from trojan_udp_bufio_sound [where ms = ?ms, OF _ ne _ r] r sample_udp_ok show ?thesis by simp
qed

end
