(* ===== verification/ProxySimplesocks.thy ===== *)
theory ProxySimplesocks
  imports MsgCodec
begin

text \<open>
  The simplesocks protocol (proxy/simplesocks), which carries the streams inside a trojan
  multiplexer: no user, one command byte and an address. The server handshake makes one
  \<open>Read\<close>; the UDP frames are those of trojan, except for the address type that \<open>WriteMsg\<close>
  emits.
\<close>

definition CmdTCP :: byte where "CmdTCP = 0x01"
definition CmdUDP :: byte where "CmdUDP = 0x03"

lemmas simple_cmd_defs [model_defs] = CmdTCP_def CmdUDP_def

definition simple_GetAddrFrom :: "('r, byte) rd \<Rightarrow> (nat \<Rightarrow> ('r, bytes) rd) \<Rightarrow> ('r, Addr) rd" where
  "simple_GetAddrFrom =
     socks_GetAddrFrom
       (NewErr ''got ATypDomain but domain lenth is marked to be 0'')
       (invalid_data ''Err, simplesocks GetAddrFrom'')
       (invalid_data ''Err, simplesocks port is zero, which is bad'')
       False"

definition simple_WriteAddrToBuf :: "Addr \<Rightarrow> bytes" where
  "simple_WriteAddrToBuf target = socks_WriteAddr target"

section \<open>Client\<close>

text \<open>The bytes of the one \<open>Write\<close> call of \<open>Client.Handshake\<close>.\<close>

definition simple_client_Handshake :: "bytes \<Rightarrow> Addr \<Rightarrow> goerr + bytes" where
  "simple_client_Handshake firstPayload target =
     (if Port target \<le> 0 then Inl (NewErr ''simplesocks Client Handshake failed, target port invalid'')
      else Inr ([CmdTCP] @ simple_WriteAddrToBuf target @ firstPayload))"

text \<open>\<open>WriteMsg\<close> converts the address type twice: once into a variable, once on writing it.\<close>

definition simple_WriteMsg :: "bytes option \<Rightarrow> bytes \<Rightarrow> Addr \<Rightarrow> bytes \<times> bytes option" where
  "simple_WriteMsg handshakeBuf bs addr =
     (let buf = (case handshakeBuf of Some h \<Rightarrow> h | None \<Rightarrow> []);
          (ab, atype) = AddressBytes addr;
          atype = ATypeToSocks5Standard atype
      in (buf @ [ATypeToSocks5Standard atype] @ ab @ [byte_shr8 (Port addr), byte_shl8_shr8 (Port addr)]
          @ [byte_shr8 (int (length bs)), byte_shl8_shr8 (int (length bs))] @ crlf @ bs, None))"

definition simple_EstablishUDPChannel :: "bytes \<Rightarrow> Addr \<Rightarrow> goerr + bytes list \<times> bytes option" where
  "simple_EstablishUDPChannel firstPayload target =
     (if Port target \<le> 0 then
        Inl (NewErr ''simplesocks Client EstablishUDPChannel failed, target port invalid'')
      else
        let buf = [CmdUDP] @ simple_WriteAddrToBuf target
        in if firstPayload = [] then Inr ([], Some buf)
           else case simple_WriteMsg (Some buf) firstPayload target of (w, h) \<Rightarrow> Inr ([w], h))"

definition simple_ReadMsg :: "('r, byte) rd \<Rightarrow> (nat \<Rightarrow> ('r, bytes) rd) \<Rightarrow> ('r, bytes \<times> Addr) rd" where
  "simple_ReadMsg ReadByte Read = socks_ReadMsg (simple_GetAddrFrom ReadByte Read) ReadByte Read"

section \<open>Server handshake\<close>

definition simple_realPart :: "(bytes, bool \<times> Addr) rd" where
  "simple_realPart =
     rd_bind buf_ReadByte0 (\<lambda>cmdb.
       if cmdb \<noteq> CmdTCP \<and> cmdb \<noteq> CmdUDP then rd_fail (invalid_data ''Err, simplesocks, cmd byte wrong'')
       else
         let isudp = (cmdb = CmdUDP) in
         rd_bind (simple_GetAddrFrom buf_ReadByte buf_Read) (\<lambda>targetAddr.
         rd_ok (isudp, if isudp then targetAddr\<lparr>Network := ''udp''\<rparr> else targetAddr)))"

record simple_handshake =
  sh_isudp :: bool
  sh_target :: Addr
  sh_remain :: bytes

definition simple_Handshake :: "bytes list \<Rightarrow> (goerr + simple_handshake) \<times> bytes list" where
  "simple_Handshake conn =
     (case src_Read MTU conn of
        (Inl e, conn') \<Rightarrow> (Inl (err_wrap ''Err, simplesocks handshake, read underlay'' e), conn')
      | (Inr readbs, conn') \<Rightarrow>
          if length readbs < 4 then (Inl (err_text ''Err, simplesocks, msg too short''), conn')
          else
            (case simple_realPart readbs of
               (Inl e, _) \<Rightarrow> (Inl (ErrBuffer e readbs), conn')
             | (Inr (isudp, target), remain) \<Rightarrow>
                 (Inr \<lparr>sh_isudp = isudp, sh_target = target, sh_remain = remain\<rparr>, conn')))"

section \<open>Lemmas\<close>

lemma parses_simple_addr:
  "dest_ok a \<Longrightarrow> parses (simple_GetAddrFrom buf_ReadByte buf_Read) (socks_wire a) (wire_Addr a)"
  unfolding simple_GetAddrFrom_def by (rule parses_socks_GetAddrFrom)

definition simple_cmd :: "bool \<Rightarrow> byte" where
  "simple_cmd udp = (if udp then CmdUDP else CmdTCP)"

definition simple_target :: "bool \<Rightarrow> Addr \<Rightarrow> Addr" where
  "simple_target udp a = (if udp then (wire_Addr a)\<lparr>Network := ''udp''\<rparr> else wire_Addr a)"

lemma simple_realPart_header:
  assumes "dest_ok a"
  shows "simple_realPart (simple_cmd udp # socks_wire a @ rest) = (Inr (udp, simple_target udp a), rest)"
  using parsesD [OF parses_simple_addr [OF assms], of rest]
  by (simp add: simple_realPart_def rd_bind_def buf_ReadByte0_def simple_cmd_def simple_target_def
      Let_def simple_cmd_defs)

lemma simple_Handshake_header:
  assumes "dest_ok a"
  shows "\<exists>remain conn'. simple_Handshake ((simple_cmd udp # socks_wire a @ p) # cs)
     = (Inr \<lparr>sh_isudp = udp, sh_target = simple_target udp a, sh_remain = remain\<rparr>, conn')
    \<and> remain @ concat conn' = p @ concat cs"
proof -
  let ?h = "simple_cmd udp # socks_wire a"
  have h: "length ?h \<le> MTU" "4 \<le> length ?h"
    using socks_wire_length [OF assms] by (simp_all add: MTU_def)
  let ?p = "take (MTU - length ?h) p"
  let ?cs = "if length (?h @ p) \<le> MTU then cs else drop MTU (?h @ p) # cs"
  have "take MTU (?h @ p) = ?h @ ?p" using h(1) by (simp only: take_append take_all)
  with src_Read_first [of MTU "?h @ p" cs] have rd: "src_Read MTU ((?h @ p) # cs) = (Inr (?h @ ?p), ?cs)"
    by simp
  moreover from src_Read_split [OF rd] have "?p @ concat ?cs = p @ concat cs" by simp
  moreover have "simple_realPart (?h @ ?p) = (Inr (udp, simple_target udp a), ?p)"
    using simple_realPart_header [OF assms, of udp ?p] by simp
  ultimately show ?thesis using h(2) by (auto simp: simple_Handshake_def simp del: src_Read.simps)
qed

lemma simple_realPart_sound:
  assumes "simple_realPart bs = (Inr (udp, a), rest)"
  shows "bs = simple_cmd udp # socks_raw a @ rest \<and> parsed_ok False (a\<lparr>Network := []\<rparr>)
    \<and> Network a = (if udp then ''udp'' else [])"
proof -
  from assms obtain cmd r x where cmd: "buf_ReadByte0 bs = (Inr cmd, r)" "cmd = CmdTCP \<or> cmd = CmdUDP"
    and addr: "simple_GetAddrFrom buf_ReadByte buf_Read r = (Inr x, rest)"
    and a: "udp = (cmd = CmdUDP)" "a = (if udp then x\<lparr>Network := ''udp''\<rparr> else x)"
    unfolding simple_realPart_def Let_def by (fastforce elim!: rd_bind_InrE split: if_splits)
  have "cmd \<noteq> 0" using cmd(2) by (auto simp: model_defs)
  with cmd(1) have bs: "bs = cmd # r" by (auto elim: buf_ReadByte0_InrE)
  from socks_GetAddrFrom_sound [OF addr [unfolded simple_GetAddrFrom_def]]
  have x: "r = socks_raw x @ rest" "parsed_ok False x" by auto
  then have "Network x = []" by (simp add: parsed_ok_def)
  with bs x a cmd(2) show ?thesis by (auto simp: simple_cmd_def parsed_ok_network)
qed

text \<open>The frames: right for IPv4 only.\<close>

definition simple_frame :: "bytes \<Rightarrow> Addr \<Rightarrow> bytes" where
  "simple_frame p a = fst (simple_WriteMsg None p a)"

definition is_v4 :: "Addr \<Rightarrow> bool" where
  "is_v4 a \<longleftrightarrow> To4 (IP a) \<noteq> None"

definition udp4_ok :: "bytes \<Rightarrow> Addr \<Rightarrow> bool" where
  "udp4_ok p a \<longleftrightarrow> udp_ok p a \<and> is_v4 a"

lemma simple_frame_v4: "dest_ok a \<Longrightarrow> is_v4 a \<Longrightarrow> simple_frame p a = socks_wire a @ socks_msg_tail p"
  by (erule AddressBytes_cases)
    (auto simp: is_v4_def simple_frame_def simple_WriteMsg_def socks_wire_def socks_msg_tail_def
      ATypeToSocks5Standard_def ATypIP4_def AtypIP4_def)

interpretation simple_msg: msg_codec simple_frame "simple_ReadMsg buf_ReadByte buf_Read" udp4_ok udp_canon
proof unfold_locales
  fix p a assume "udp4_ok p a"
  then have *: "dest_ok a" "payload_ok p" "is_v4 a" by (simp_all add: udp4_ok_def udp_ok_def)
  show "parses (simple_ReadMsg buf_ReadByte buf_Read) (simple_frame p a) (p, udp_canon a)"
    unfolding simple_ReadMsg_def simple_frame_v4 [OF *(1,3)] udp_canon_def
    by (rule parses_socks_ReadMsg [OF parses_simple_addr [OF *(1)] *(2)])
qed

section \<open>Properties\<close>

text \<open>Client and server of simplesocks agree on kind, destination and payload.\<close>

theorem simple_handshake_roundtrip:
  assumes "dest_ok a"
  shows "\<exists>w remain conn'. simple_client_Handshake p a = Inr w
    \<and> simple_Handshake (w # cs)
        = (Inr \<lparr>sh_isudp = False, sh_target = wire_Addr a, sh_remain = remain\<rparr>, conn')
    \<and> remain @ concat conn' = p @ concat cs"
  using simple_Handshake_header [OF assms, of False p cs] assms
  by (auto simp: simple_client_Handshake_def simple_WriteAddrToBuf_def socks_WriteAddr_wire simple_cmd_def
      simple_target_def dest_ok_def port_ok_def)

text \<open>Whatever the simplesocks server accepts is a well-formed request, and no byte of the
  stream is lost.\<close>

theorem simple_handshake_sound:
  assumes "simple_Handshake conn = (Inr h, conn')"
  shows "concat conn = simple_cmd (sh_isudp h) # socks_raw (sh_target h) @ sh_remain h @ concat conn'
    \<and> parsed_ok False ((sh_target h)\<lparr>Network := []\<rparr>)
    \<and> Network (sh_target h) = (if sh_isudp h then ''udp'' else [])"
proof -
  from assms obtain bs where rd: "src_Read MTU conn = (Inr bs, conn')"
    and real: "simple_realPart bs = (Inr (sh_isudp h, sh_target h), sh_remain h)"
    by (auto simp: simple_Handshake_def split: prod.splits sum.splits if_splits)
  from simple_realPart_sound [OF real] src_Read_split [OF rd] show ?thesis by auto
qed

text \<open>simplesocks datagrams to IPv4 destinations arrive complete and in order.\<close>

theorem simple_udp_v4_roundtrip:
  assumes "list_all (\<lambda>(q, b). udp_ok q b \<and> To4 (IP b) \<noteq> None) ms"
  shows "read_n (length ms) (simple_ReadMsg buf_ReadByte buf_Read)
      (concat (map (\<lambda>(q, b). fst (simple_WriteMsg None q b)) ms) @ rest)
    = (Inr (map (\<lambda>(q, b). (q, udp_canon b)) ms), rest)"
  using simple_msg.read_n_frames [of ms rest] assms
  by (simp add: udp4_ok_def is_v4_def simple_frame_def)

text \<open>A simplesocks datagram to any other destination is not readable: the address type is
  converted twice, a domain arrives as an IPv6 address or an error, and an IPv6 address is
  refused.\<close>

theorem simple_udp_other_lost:
  assumes "udp_ok p a" "To4 (IP a) = None"
  shows "fst (simple_ReadMsg buf_ReadByte buf_Read (fst (simple_WriteMsg None p a) @ rest)) \<noteq> Inr (p, udp_canon a)"
proof
  let ?f = "fst (simple_WriteMsg None p a)"
  assume "fst (simple_ReadMsg buf_ReadByte buf_Read (?f @ rest)) = Inr (p, udp_canon a)"
  then obtain r where "simple_ReadMsg buf_ReadByte buf_Read (?f @ rest) = (Inr (p, udp_canon a), r)"
    by (metis prod.collapse)
  then obtain x s where "simple_GetAddrFrom buf_ReadByte buf_Read (?f @ rest) = (Inr x, s)"
    and x: "x\<lparr>Network := ''udp''\<rparr> = udp_canon a"
    unfolding simple_ReadMsg_def socks_ReadMsg_def Let_def
    by (auto elim!: rd_bind_InrE split: if_splits)
  from socks_GetAddrFrom_sound [OF this(1) [unfolded simple_GetAddrFrom_def]]
  have raw: "?f @ rest = socks_raw x @ s" by simp
  from x have ip: "IP x = IP (udp_canon a)" by (metis Addr.select_convs(3) Addr.surjective Addr.update_convs(1))
  from assms(1) have "dest_ok a" by (simp add: udp_ok_def)
  then show False
  proof (cases rule: AddressBytes_cases)
    case (ip4 i4)
    with assms(2) show False by simp
  next
    case (ip6 i6)
    with ip have "IP x = Some i6" by (simp add: udp_canon_def wire_Addr_def)
    with ip6 raw show False
      by (simp add: simple_WriteMsg_def socks_raw_def socks_host_def ATypeToSocks5Standard_def
          AtypIP6_def ATypIP6_def)
  next
    case domain
    with ip have "IP x = None" by (simp add: udp_canon_def wire_Addr_def)
    with domain raw show False
      by (simp add: simple_WriteMsg_def socks_raw_def socks_host_def ATypeToSocks5Standard_def
          AtypDomain_def ATypDomain_def)
  qed
qed

section \<open>Witnesses\<close>

definition sample_v4 :: Addr where
  "sample_v4 = zero_Addr\<lparr>IP := Some [1, 2, 3, 4], Port := 53\<rparr>"

lemma sample_v4_ok: "udp_ok [9] sample_v4 \<and> To4 (IP sample_v4) \<noteq> None"
  by (simp add: udp_ok_def payload_ok_def sample_v4_def dest_ok_def zero_Addr_def port_ok_def ip_ok_def)

theorem simple_handshake_roundtrip_witness:
  "\<exists>w remain conn'. simple_client_Handshake [5] sample_dest = Inr w
    \<and> simple_Handshake [w] = (Inr \<lparr>sh_isudp = False, sh_target = wire_Addr sample_dest, sh_remain = remain\<rparr>, conn')
    \<and> remain @ concat conn' = [5]"
  using simple_handshake_roundtrip [OF sample_dest_ok, of "[5]" "[]"] by simp

theorem simple_handshake_sound_witness:
  "concat [[1, 1, 9, 9, 9, 9, 0, 80, 7]] = simple_cmd False #
     socks_raw \<lparr>Network = [], Name = [], IP = Some [9, 9, 9, 9], Port = 80\<rparr> @ [7] @ concat []"
proof -
  have "simple_Handshake [[1, 1, 9, 9, 9, 9, 0, 80, 7]]
     = (Inr \<lparr>sh_isudp = False, sh_target = \<lparr>Network = [], Name = [], IP = Some [9, 9, 9, 9], Port = 80\<rparr>,
              sh_remain = [7]\<rparr>, [])"
    by (simp add: simple_Handshake_def simple_realPart_def MTU_def rd_bind_def buf_ReadByte0_def model_defs
        simple_GetAddrFrom_def socks_GetAddrFrom_def socks_read_host_def socks_read_port_def read_exact_def
        buf_Read_def zero_Addr_def Let_def uint16_be_def)
  from simple_handshake_sound [OF this] show ?thesis by simp
qed

theorem simple_udp_v4_roundtrip_witness:
  "read_n (length [([9::byte], sample_v4)]) (simple_ReadMsg buf_ReadByte buf_Read)
      (concat (map (\<lambda>(q, b). fst (simple_WriteMsg None q b)) [([9], sample_v4)]) @ [1])
    = (Inr (map (\<lambda>(q, b). (q, udp_canon b)) [([9], sample_v4)]), [1])"
  by (rule simple_udp_v4_roundtrip) (use sample_v4_ok in simp)

theorem simple_udp_other_lost_witness:
  "fst (simple_ReadMsg buf_ReadByte buf_Read (fst (simple_WriteMsg None [1, 2, 3] sample_dest) @ []))
    \<noteq> Inr ([1, 2, 3], udp_canon sample_dest)"
proof (rule simple_udp_other_lost [OF sample_udp_ok])
  show "To4 (IP sample_dest) = None" by (simp add: sample_dest_def zero_Addr_def)
qed

end
