(* ===== verification/UtilsBuffers.thy ===== *)
theory UtilsBuffers
  imports UtilsError
begin

text \<open>
  Buffer lists (utils/buffers.go): shrinking and restoring the buffers of a readv call,
  merging a buffer list into one slice, writing it out. A Go slice is the cells of its
  backing array from its start to its capacity, and its length; reslicing beyond the
  capacity panics (\<open>None\<close>). \<open>GetPacket\<close> returns a recycled packet, so its old content is
  an argument.
\<close>

record gslice =
  cells :: bytes
  slen :: nat

definition view :: "gslice \<Rightarrow> bytes" where
  "view s = take (slen s) (cells s)"

definition slice_ok :: "gslice \<Rightarrow> bool" where
  "slice_ok s \<longleftrightarrow> slen s \<le> length (cells s)"

definition reslice :: "nat \<Rightarrow> gslice \<Rightarrow> gslice option" where
  "reslice n s = (if n \<le> length (cells s) then Some (s\<lparr>slen := n\<rparr>) else None)"

text \<open>\<open>copy(dst[cursor:], src)\<close>: the cells afterwards and the number of bytes copied. The
  destination slice ends at \<open>slen\<close>.\<close>

definition copy_at :: "gslice \<Rightarrow> nat \<Rightarrow> bytes \<Rightarrow> gslice \<times> nat" where
  "copy_at dst cursor src =
     (let n = min (slen dst - cursor) (length src)
      in (dst\<lparr>cells := take cursor (cells dst) @ take n src @ drop (cursor + n) (cells dst)\<rparr>, n))"

definition MaxPacketLen :: nat where "MaxPacketLen = 64 * 1024"

definition BuffersLen :: "gslice list \<Rightarrow> nat" where
  "BuffersLen bs = (if length bs < 1 then 0 else fold (\<lambda>b allnum. allnum + slen b) bs 0)"

section \<open>Operations\<close>

text \<open>The loop of \<open>ShrinkBuffers\<close>: the buffers after it and the final index.\<close>

fun ShrinkBuffers :: "gslice list \<Rightarrow> int \<Rightarrow> nat \<Rightarrow> (gslice list \<times> nat) option" where
  "ShrinkBuffers [] all_len SingleBufLen = Some ([], 0)"
| "ShrinkBuffers (b # bs) all_len SingleBufLen =
     (if all_len \<le> 0 then Some (b # bs, 0)
      else
        let e = (if int SingleBufLen < all_len then int SingleBufLen else all_len) in
        case reslice (nat e) b of
          None \<Rightarrow> None
        | Some b' \<Rightarrow>
            (case ShrinkBuffers bs (all_len - e) SingleBufLen of
               None \<Rightarrow> None
             | Some (bs', i) \<Rightarrow> Some (b' # bs', Suc i)))"

fun reslice_all :: "nat \<Rightarrow> gslice list \<Rightarrow> gslice list option" where
  "reslice_all n [] = Some []"
| "reslice_all n (b # bs) =
     (case reslice n b of None \<Rightarrow> None
      | Some b' \<Rightarrow> (case reslice_all n bs of None \<Rightarrow> None | Some bs' \<Rightarrow> Some (b' # bs')))"

text \<open>The first argument is the whole backing array of the outer slice.\<close>

definition RecoverBuffers :: "gslice list \<Rightarrow> nat \<Rightarrow> nat \<Rightarrow> gslice list option" where
  "RecoverBuffers bs oldLen old_sub_len =
     (if length bs < oldLen then None else reslice_all old_sub_len (take oldLen bs))"

fun BuffersWriteTo ::
    "gslice list \<Rightarrow> (bytes \<Rightarrow> 'w \<Rightarrow> (nat \<times> goerr option) \<times> 'w) \<Rightarrow> 'w \<Rightarrow> (nat \<times> goerr option) \<times> 'w" where
  "BuffersWriteTo [] write w = ((0, None), w)"
| "BuffersWriteTo (b # bs) write w =
     (case write (view b) w of
        ((nb, Some e), w') \<Rightarrow> ((nb, Some e), w')
      | ((nb, None), w') \<Rightarrow>
          (case BuffersWriteTo bs write w' of ((num, err), w'') \<Rightarrow> ((nb + num, err), w'')))"

text \<open>The copying loop of both merge functions.\<close>

fun copy_all :: "gslice \<Rightarrow> nat \<Rightarrow> gslice list \<Rightarrow> gslice" where
  "copy_all dst cursor [] = dst"
| "copy_all dst cursor (b # bs) =
     (case copy_at dst cursor (view b) of (dst', n) \<Rightarrow> copy_all dst' (cursor + n) bs)"

text \<open>The packet that both merge functions copy into: recycled, or freshly allocated.\<close>

definition merge_target :: "bytes \<Rightarrow> nat \<Rightarrow> gslice" where
  "merge_target packet allLen =
     (if allLen \<le> MaxPacketLen then \<lparr>cells = packet, slen = MaxPacketLen\<rparr>
      else \<lparr>cells = replicate allLen 0, slen = allLen\<rparr>)"

definition MergeBuffers :: "bytes \<Rightarrow> gslice list \<Rightarrow> gslice \<times> bool" where
  "MergeBuffers packet bs =
     (case bs of
        [] \<Rightarrow> (\<lparr>cells = [], slen = 0\<rparr>, False)
      | [b0] \<Rightarrow> (b0, False)
      | b0 # rest \<Rightarrow>
          let allLen = BuffersLen bs in
          if allLen \<le> length (cells b0) then
            let b0 = b0\<lparr>slen := allLen\<rparr> in (copy_all b0 (slen b0) rest, False)
          else
            let result = copy_all (merge_target packet allLen) 0 bs
            in (result\<lparr>slen := allLen\<rparr>, True))"

definition MergeBuffersWithPrefix :: "bytes \<Rightarrow> gslice \<Rightarrow> gslice list \<Rightarrow> gslice \<times> bool" where
  "MergeBuffersWithPrefix packet prefix bs =
     (if length bs = 0 then (prefix, False)
      else
        let allLen = BuffersLen bs + slen prefix in
        if allLen \<le> length (cells prefix) then
          let b0 = prefix\<lparr>slen := allLen\<rparr> in (copy_all b0 (slen b0) bs, False)
        else
          let (result, cursor) = copy_at (merge_target packet allLen) 0 (view prefix);
              result = copy_all result cursor bs
          in (result\<lparr>slen := allLen\<rparr>, True))"

section \<open>Lemmas\<close>

definition views :: "gslice list \<Rightarrow> bytes" where
  "views bs = concat (map view bs)"

lemma length_view [simp]: "slice_ok s \<Longrightarrow> length (view s) = slen s"
  by (simp add: slice_ok_def view_def)

lemma fold_slen: "fold (\<lambda>b allnum. allnum + slen b) bs n = n + sum_list (map slen bs)"
  by (induction bs arbitrary: n) simp_all

lemma BuffersLen_sum: "BuffersLen bs = sum_list (map slen bs)"
  by (cases bs) (simp_all add: BuffersLen_def fold_slen)

lemma length_views: "list_all slice_ok bs \<Longrightarrow> length (views bs) = BuffersLen bs"
  by (induction bs) (simp_all add: views_def BuffersLen_sum)

lemma copy_all_fits:
  assumes "slice_ok dst" "cursor + length (views bs) \<le> slen dst"
  shows "slice_ok (copy_all dst cursor bs) \<and> slen (copy_all dst cursor bs) = slen dst
    \<and> length (cells (copy_all dst cursor bs)) = length (cells dst)
    \<and> take (cursor + length (views bs)) (cells (copy_all dst cursor bs)) = take cursor (cells dst) @ views bs"
  using assms
proof (induction bs arbitrary: dst cursor)
  case Nil
  then show ?case by (simp add: views_def)
next
  case (Cons b bs)
  let ?v = "view b"
  let ?d = "dst\<lparr>cells := take cursor (cells dst) @ ?v @ drop (cursor + length ?v) (cells dst)\<rparr>"
  have len: "cursor + length ?v + length (views bs) \<le> slen dst"
    using Cons.prems(2) by (simp add: views_def)
  have c: "copy_at dst cursor ?v = (?d, length ?v)"
  proof -
    have "min (slen dst - cursor) (length ?v) = length ?v" using len by simp
    then show ?thesis unfolding copy_at_def Let_def by (simp only: take_all order.refl)
  qed
  have le: "cursor + length ?v \<le> length (cells dst)"
    using len Cons.prems(1) by (simp add: slice_ok_def)
  then have d: "slice_ok ?d" "slen ?d = slen dst" "length (cells ?d) = length (cells dst)"
    "take (cursor + length ?v) (cells ?d) = take cursor (cells dst) @ ?v"
    using Cons.prems(1) by (simp_all add: slice_ok_def)
  have "cursor + length ?v + length (views bs) \<le> slen ?d" using len d(2) by simp
  from Cons.IH [OF d(1) this] d c show ?case by (simp add: views_def add.assoc)
qed

lemma copy_all_end: "slice_ok dst \<Longrightarrow> copy_all dst (slen dst) bs = dst"
proof (induction bs)
  case (Cons b bs)
  then show ?case by (cases dst) (simp add: copy_at_def)
qed simp

lemma merge_target_ok:
  "length packet = MaxPacketLen \<Longrightarrow> slice_ok (merge_target packet n) \<and> n \<le> slen (merge_target packet n)"
  by (simp add: merge_target_def slice_ok_def)

lemma BuffersLen_Cons: "BuffersLen (b # bs) = slen b + BuffersLen bs"
  by (simp add: BuffersLen_sum)

lemma copy_all_whole:
  assumes "slice_ok dst" "list_all slice_ok bs" "BuffersLen bs \<le> slen dst"
  shows "view ((copy_all dst 0 bs)\<lparr>slen := BuffersLen bs\<rparr>) = views bs"
  using copy_all_fits [of dst 0 bs] assms by (simp add: length_views view_def)

lemma reslice_all_slen:
  "list_all (\<lambda>b. n \<le> length (cells b)) bs \<Longrightarrow> reslice_all n bs = Some (map (\<lambda>b. b\<lparr>slen := n\<rparr>) bs)"
  by (induction bs) (simp_all add: reslice_def)

lemma ShrinkBuffers_gen:
  assumes "list_all (\<lambda>b. k \<le> length (cells b)) bs" "0 < k" "n \<le> length bs * k"
  shows "\<exists>bs' i. ShrinkBuffers bs (int n) k = Some (bs', i) \<and> i \<le> length bs
    \<and> views (take i bs') = take n (concat (map (\<lambda>b. take k (cells b)) bs))
    \<and> map cells bs' = map cells bs"
  using assms
proof (induction bs arbitrary: n)
  case Nil
  then show ?case by (simp add: views_def)
next
  case (Cons b bs)
  show ?case
  proof (cases "n = 0")
    case True
    then show ?thesis by (simp add: views_def)
  next
    case False
    let ?e = "min k n"
    have e: "(if int k < int n then int k else int n) = int ?e" by simp
    have r: "reslice ?e b = Some (b\<lparr>slen := ?e\<rparr>)" using Cons.prems(1) by (simp add: reslice_def min.coboundedI1)
    have "n - ?e \<le> length bs * k" using Cons.prems(3) by (auto simp: min_def)
    moreover have "list_all (\<lambda>b. k \<le> length (cells b)) bs" using Cons.prems(1) by simp
    ultimately obtain bs' i where IH: "ShrinkBuffers bs (int (n - ?e)) k = Some (bs', i)" "i \<le> length bs"
      "views (take i bs') = take (n - ?e) (concat (map (\<lambda>b. take k (cells b)) bs))"
      "map cells bs' = map cells bs" using Cons.IH [of "n - ?e"] Cons.prems(2) by blast
    have d: "int n - int ?e = int (n - ?e)" by simp
    have pos: "(int n \<le> 0) = False" using False by simp
    have "ShrinkBuffers (b # bs) (int n) k = Some (b\<lparr>slen := ?e\<rparr> # bs', Suc i)"
      by (simp only: ShrinkBuffers.simps Let_def e d nat_int r IH(1) pos if_False option.case prod.case)
    moreover have "views (take (Suc i) (b\<lparr>slen := ?e\<rparr> # bs'))
        = take n (concat (map (\<lambda>b. take k (cells b)) (b # bs)))"
      using IH(3) Cons.prems(1) by (auto simp: views_def view_def min_def)
    ultimately show ?thesis using IH(2,4) by auto
  qed
qed

section \<open>Properties\<close>

text \<open>Merging into a fresh or recycled packet yields the concatenated contents, whatever the
  packet held before.\<close>

theorem MergeBuffers_copies:
  assumes "list_all slice_ok (b0 # b1 # bs)" "length packet = MaxPacketLen"
    and "length (cells b0) < BuffersLen (b0 # b1 # bs)"
  shows "view (fst (MergeBuffers packet (b0 # b1 # bs))) = concat (map view (b0 # b1 # bs))
    \<and> snd (MergeBuffers packet (b0 # b1 # bs))"
proof -
  have "slice_ok (merge_target packet (BuffersLen (b0 # b1 # bs)))"
    "BuffersLen (b0 # b1 # bs) \<le> slen (merge_target packet (BuffersLen (b0 # b1 # bs)))"
    using merge_target_ok [OF assms(2)] by auto
  from copy_all_whole [OF this(1) assms(1) this(2)] assms(3) show ?thesis
    unfolding MergeBuffers_def Let_def views_def by simp
qed

text \<open>When everything would fit into the first buffer, nothing is copied: the result is the old
  content of that buffer's array, which is the right answer only if it already holds the rest.\<close>

theorem MergeBuffers_inplace_stale:
  assumes "list_all slice_ok (b0 # b1 # bs)" "BuffersLen (b0 # b1 # bs) \<le> length (cells b0)"
  shows "view (fst (MergeBuffers packet (b0 # b1 # bs))) = take (BuffersLen (b0 # b1 # bs)) (cells b0)
    \<and> (view (fst (MergeBuffers packet (b0 # b1 # bs))) = concat (map view (b0 # b1 # bs))
        \<longleftrightarrow> take (BuffersLen (b1 # bs)) (drop (slen b0) (cells b0)) = concat (map view (b1 # bs)))"
proof -
  let ?n = "BuffersLen (b0 # b1 # bs)"
  have "slice_ok (b0\<lparr>slen := ?n\<rparr>)" using assms(2) by (simp add: slice_ok_def)
  from copy_all_end [OF this, of "b1 # bs"] assms(2)
  have v: "view (fst (MergeBuffers packet (b0 # b1 # bs))) = take ?n (cells b0)"
    unfolding MergeBuffers_def Let_def by (simp add: view_def del: copy_all.simps)
  have "take ?n (cells b0) = take (slen b0) (cells b0) @ take (BuffersLen (b1 # bs)) (drop (slen b0) (cells b0))"
    by (simp only: BuffersLen_Cons [of b0] take_add)
  with v show ?thesis by (simp add: view_def)
qed

text \<open>After a readv of \<open>n\<close> bytes into buffers of \<open>k\<close> bytes, \<open>ShrinkBuffers\<close> leaves exactly
  those bytes in the buffers below the returned index, and \<open>RecoverBuffers\<close> restores all of
  them to their full length.\<close>

theorem Shrink_Recover:
  assumes "list_all (\<lambda>b. k \<le> length (cells b)) bs" "0 < k" "n \<le> length bs * k"
  shows "\<exists>bs' i. ShrinkBuffers bs (int n) k = Some (bs', i)
    \<and> concat (map view (take i bs')) = take n (concat (map (\<lambda>b. take k (cells b)) bs))
    \<and> map_option (map view) (RecoverBuffers bs' (length bs) k) = Some (map (\<lambda>b. take k (cells b)) bs)"
proof -
  from ShrinkBuffers_gen [OF assms] obtain bs' i where
    *: "ShrinkBuffers bs (int n) k = Some (bs', i)"
    "views (take i bs') = take n (concat (map (\<lambda>b. take k (cells b)) bs))"
    and c: "map cells bs' = map cells bs" by blast
  from c have len: "length bs' = length bs" by (metis length_map)
  have "list_all (\<lambda>x. k \<le> length x) (map cells bs')"
    using assms(1) c by (simp add: list_all_iff)
  then have cap: "list_all (\<lambda>b. k \<le> length (cells b)) bs'" by (simp add: list_all_iff)
  have "map (\<lambda>b. take k (cells b)) bs' = map (take k) (map cells bs')" by simp
  also have "\<dots> = map (\<lambda>b. take k (cells b)) bs" unfolding c by simp
  finally have "map (\<lambda>b. take k (cells b)) bs' = map (\<lambda>b. take k (cells b)) bs" .
  with * reslice_all_slen [OF cap] len show ?thesis
    by (simp add: RecoverBuffers_def views_def view_def o_def)
qed

section \<open>Witnesses\<close>

theorem MergeBuffers_copies_witness:
  "view (fst (MergeBuffers (replicate MaxPacketLen 7) [\<lparr>cells = [1, 2], slen = 2\<rparr>, \<lparr>cells = [3], slen = 1\<rparr>])) = [1, 2, 3]"
  using MergeBuffers_copies [of "\<lparr>cells = [1, 2], slen = 2\<rparr>" "\<lparr>cells = [3], slen = 1\<rparr>" "[]" "replicate MaxPacketLen 7"]
  by (simp add: slice_ok_def view_def BuffersLen_def)

theorem MergeBuffers_inplace_stale_witness:
  "view (fst (MergeBuffers [] [\<lparr>cells = [1, 9, 9], slen = 1\<rparr>, \<lparr>cells = [2], slen = 1\<rparr>])) = [1, 9]"
  using MergeBuffers_inplace_stale [of "\<lparr>cells = [1, 9, 9], slen = 1\<rparr>" "\<lparr>cells = [2], slen = 1\<rparr>" "[]" "[]"]
  by (simp add: slice_ok_def view_def BuffersLen_def)

theorem Shrink_Recover_witness:
  "\<exists>bs' i. ShrinkBuffers [\<lparr>cells = [1, 2], slen = 2\<rparr>, \<lparr>cells = [3, 4], slen = 2\<rparr>] (int 3) 2 = Some (bs', i)
    \<and> concat (map view (take i bs')) = [1, 2, 3]"
  using Shrink_Recover [of 2 "[\<lparr>cells = [1, 2], slen = 2\<rparr>, \<lparr>cells = [3, 4], slen = 2\<rparr>]" 3] by auto

end
