(* ===== verification/ProxyConn.thy ===== *)
theory ProxyConn
  imports GoReader UtilsBuffers
begin

text \<open>
  The connection a server returns after a handshake. The handshake reads a first chunk into
  a buffer and may read past the header, so \<open>UserTCPConn\<close> of trojan, \<open>TCPConn\<close> of
  simplesocks, the server end of vless's \<open>UserTCPConn\<close> and \<open>netLayer.ReadWrapper\<close> all read
  from an \<open>io.MultiReader\<close> over that buffer and the connection while
  \<open>remainFirstBufLen\<close> is positive, and from the connection afterwards. Splicing and writing
  the buffers of a \<open>WriteBuffers\<close> call are modelled with the capabilities of the
  underlying connection as arguments.
\<close>

text \<open>\<open>io.MultiReader(readbuf, conn)\<close>: the buffer is dropped at its first EOF.\<close>

fun multi_Read :: "nat \<Rightarrow> (bytes option \<times> bytes list, bytes) rd" where
  "multi_Read n (Some b, c) =
     (if b \<noteq> [] then (Inr (take n b), (Some (drop n b), c))
      else if n = 0 then (Inr [], (Some [], c))
      else (case src_Read n c of (v, c') \<Rightarrow> (v, (None, c'))))"
| "multi_Read n (None, c) = (case src_Read n c of (v, c') \<Rightarrow> (v, (None, c')))"

record tconn =
  optionalReader :: "bytes option"
  tconn_Conn :: "bytes list"
  remainFirstBufLen :: int

definition new_tconn :: "bytes \<Rightarrow> bytes list \<Rightarrow> tconn" where
  "new_tconn readbuf conn =
     \<lparr>optionalReader = Some readbuf, tconn_Conn = conn, remainFirstBufLen = int (length readbuf)\<rparr>"

definition tconn_Read :: "nat \<Rightarrow> (tconn, bytes) rd" where
  "tconn_Read n c =
     (if 0 < remainFirstBufLen c then
        (case multi_Read n (optionalReader c, tconn_Conn c) of
           (Inl e, (o', c')) \<Rightarrow> (Inl e, c\<lparr>optionalReader := o', tconn_Conn := c'\<rparr>)
         | (Inr xs, (o', c')) \<Rightarrow>
             (Inr xs, c\<lparr>optionalReader := o', tconn_Conn := c',
                       remainFirstBufLen := (if 0 < length xs then remainFirstBufLen c - int (length xs)
                                             else remainFirstBufLen c)\<rparr>))
      else
        (case src_Read n (tconn_Conn c) of (v, c') \<Rightarrow> (v, c\<lparr>tconn_Conn := c'\<rparr>)))"

text \<open>\<open>CanSpliceRead\<close>: whether the socket may be handed to the kernel; \<open>raw\<close> is what
  \<open>netLayer.ReturnSpliceRead\<close> says of the underlying connection.\<close>

definition tconn_CanSpliceRead :: "bool \<Rightarrow> bool \<Rightarrow> tconn \<Rightarrow> bool" where
  "tconn_CanSpliceRead isServerEnd raw c =
     (if isServerEnd \<and> 0 < remainFirstBufLen c then False else raw)"

text \<open>The byte slices that \<open>WriteBuffers\<close> passes to the underlying connection's \<open>Write\<close>
  (or to its \<open>WriteBuffers\<close>, when it is a \<open>MultiWriter\<close>), all writes succeeding.\<close>

definition tconn_WriteBuffers :: "bool \<Rightarrow> bool \<Rightarrow> bool \<Rightarrow> bytes \<Rightarrow> tconn \<Rightarrow> gslice list \<Rightarrow> bytes list" where
  "tconn_WriteBuffers isServerEnd underlayIsBasic hasMultiWriter packet c buffers =
     (if (isServerEnd \<or> remainFirstBufLen c \<le> 0) \<and> underlayIsBasic then map view buffers
      else if (isServerEnd \<or> remainFirstBufLen c \<le> 0) \<and> hasMultiWriter then map view buffers
      else [view (fst (MergeBuffers packet buffers))])"

section \<open>The stream is preserved\<close>

definition tconn_content :: "tconn \<Rightarrow> bytes" where
  "tconn_content c = (case optionalReader c of Some b \<Rightarrow> b | None \<Rightarrow> []) @ concat (tconn_Conn c)"

definition tconn_inv :: "tconn \<Rightarrow> bool" where
  "tconn_inv c \<longleftrightarrow> [] \<notin> set (tconn_Conn c)
     \<and> remainFirstBufLen c = int (length (case optionalReader c of Some b \<Rightarrow> b | None \<Rightarrow> []))"

lemma tconn_inv_new: "[] \<notin> set conn \<Longrightarrow> tconn_inv (new_tconn readbuf conn)"
  by (simp add: tconn_inv_def new_tconn_def)

lemma tconn_content_new [simp]: "tconn_content (new_tconn readbuf conn) = readbuf @ concat conn"
  by (simp add: tconn_content_def new_tconn_def)

interpretation tconn_reader: stream_reader tconn_Read tconn_content tconn_inv
proof unfold_locales
  fix r :: tconn and n xs r' assume "tconn_inv r" "tconn_Read n r = (Inr xs, r')"
  then show "tconn_inv r' \<and> tconn_content r = xs @ tconn_content r' \<and> length xs \<le> n"
    by (cases "tconn_Conn r"; cases "optionalReader r")
      (auto simp: tconn_Read_def tconn_inv_def tconn_content_def min_def split: if_splits)
next
  fix r :: tconn and n :: nat assume "tconn_inv r" "tconn_content r \<noteq> []" "0 < n"
  then show "\<exists>xs r'. tconn_Read n r = (Inr xs, r') \<and> xs \<noteq> []"
    by (cases "tconn_Conn r"; cases "optionalReader r")
      (auto simp: tconn_Read_def tconn_inv_def tconn_content_def)
next
  fix r :: tconn and n :: nat assume "tconn_inv r" "tconn_content r = []" "0 < n"
  then show "\<exists>r'. tconn_Read n r = (Inl io_EOF, r') \<and> tconn_inv r' \<and> tconn_content r' = []"
    by (cases "tconn_Conn r"; cases "optionalReader r")
      (auto simp: tconn_Read_def tconn_inv_def tconn_content_def)
qed

text \<open>Bypassing the wrapper never skips bytes of the handshake buffer.\<close>

lemma tconn_splice_safe:
  "tconn_inv c \<Longrightarrow> tconn_CanSpliceRead True raw c \<Longrightarrow> tconn_content c = concat (tconn_Conn c)"
  by (auto simp: tconn_inv_def tconn_CanSpliceRead_def tconn_content_def split: if_splits option.splits)

section \<open>Properties\<close>

text \<open>Any series of reads on the connection returned by a handshake, and after it a spliced
  read of the raw connection once that is allowed, delivers the buffered rest of the first
  chunk followed by the connection's bytes, none lost, repeated or reordered.\<close>

theorem tconn_stream_then_splice:
  assumes "[] \<notin> set conn" "tconn_reader.reads ns (new_tconn readbuf conn) = (Inr xs, c)"
    and "tconn_CanSpliceRead True raw c"
  shows "readbuf @ concat conn = xs @ concat (tconn_Conn c)"
proof -
  from tconn_reader.reads_prefix [OF tconn_inv_new [OF assms(1)] assms(2)]
  have "tconn_inv c" "readbuf @ concat conn = xs @ tconn_content c" by auto
  with tconn_splice_safe [OF this(1) assms(3)] show ?thesis by simp
qed

text \<open>Reading as many bytes as there are succeeds, however the connection chunks them.\<close>

theorem tconn_read_all:
  assumes "[] \<notin> set conn"
  shows "fst (rd_full tconn_Read (length (readbuf @ concat conn)) (new_tconn readbuf conn))
    = Inr (readbuf @ concat conn)"
  using tconn_reader.rd_full_reads [OF tconn_inv_new [OF assms],
      of "length (readbuf @ concat conn)" readbuf] by auto

section \<open>Witnesses\<close>

theorem tconn_read_all_witness:
  "fst (rd_full tconn_Read (length ([1, 2] @ concat [[3, 4], [5::byte]])) (new_tconn [1, 2] [[3, 4], [5]]))
    = Inr ([1, 2] @ concat [[3, 4], [5]])"
  by (rule tconn_read_all) simp

theorem tconn_stream_then_splice_witness:
  "[1, 2] @ concat [[3, 4], [5::byte]] = [1, 2, 3] @ concat [[4], [5]]"
proof -
  let ?c = "\<lparr>optionalReader = Some [], tconn_Conn = [[4], [5]], remainFirstBufLen = 0\<rparr>"
  have "tconn_reader.reads [2, 1] (new_tconn [1, 2] [[3, 4], [5]]) = (Inr [1, 2, 3], ?c)"
    by (simp add: rd_bind_def tconn_Read_def new_tconn_def)
  from tconn_stream_then_splice [OF _ this, of True] show ?thesis
    by (simp add: tconn_CanSpliceRead_def)
qed

end
