(* ===== verification/ProxyVless.thy ===== *)
theory ProxyVless
  imports MsgCodec UtilsUser ProxyConn
begin

text \<open>
  The vless protocol, versions 0 and 1 (proxy/vless): request header and server handshake,
  the three UDP framings with the response header of version 0, and the TCP conn. Version 0
  sends one destination per UDP channel; version 1 sends an address with every datagram, or,
  with \<open>udp_multi\<close>, a flag and an address only for a source that is not the channel's own.
\<close>

definition addon_udp_multi_flag :: byte where "addon_udp_multi_flag = 1"
definition vless_CmdTCP :: byte where "vless_CmdTCP = 1"
definition vless_CmdUDP :: byte where "vless_CmdUDP = 2"
definition vless_CmdMux :: byte where "vless_CmdMux = 3"
definition flag_orig :: byte where "flag_orig = 0"
definition flag_new_source :: byte where "flag_new_source = 1"

lemmas vless_cmd_defs [model_defs] = vless_CmdTCP_def vless_CmdUDP_def vless_CmdMux_def

definition vless_WriteAddrTo :: "Addr \<Rightarrow> bytes" where
  "vless_WriteAddrTo raddr =
     (case AddressBytes raddr of (ab, atyp) \<Rightarrow>
        [byte_shr8 (Port raddr), byte_shl8_shr8 (Port raddr)] @ [atyp] @ ab)"

section \<open>Client\<close>

record vless_client =
  vc_version :: byte
  vc_user :: bytes
  vc_udp_multi :: bool
  vc_use_mux :: bool

text \<open>\<open>NewClient\<close>: the version of the configuration is an \<open>int\<close>; \<open>extra\<close> is whether the option
  \<open>vless1_udp_multi\<close> is set to true.\<close>

definition vless_NewClient :: "string \<Rightarrow> int \<Rightarrow> bool \<Rightarrow> bool \<Rightarrow> goerr + vless_client" where
  "vless_NewClient uuidStr v mux extra =
     (case StrToUUID uuidStr of
        Inl e \<Rightarrow> Inl e
      | Inr u \<Rightarrow>
          let c = \<lparr>vc_version = 0, vc_user = u, vc_udp_multi = False, vc_use_mux = False\<rparr> in
          if 0 < v then
            if v = 1 then Inr (c\<lparr>vc_version := 1, vc_use_mux := mux, vc_udp_multi := extra\<rparr>)
            else Inl (err_wrap ''given version bigger than 1'' ErrUnImplemented)
          else Inr c)"

definition getBufWithCmd :: "vless_client \<Rightarrow> byte \<Rightarrow> bytes" where
  "getBufWithCmd c cmd =
     [vc_version c] @ vc_user c
     @ (if vc_version c = 0 then [0]
        else if vc_udp_multi c then [addon_udp_multi_flag] else [0])
     @ [cmd]"

text \<open>The bytes of the one \<open>Write\<close> call of \<open>Client.Handshake\<close>.\<close>

definition vless_client_Handshake :: "vless_client \<Rightarrow> bytes \<Rightarrow> Addr \<Rightarrow> bytes" where
  "vless_client_Handshake c firstPayload target =
     (case AddressBytes target of (ab, atyp) \<Rightarrow>
        getBufWithCmd c (if vc_use_mux c then vless_CmdMux else vless_CmdTCP)
        @ [byte_uint16_shr8 (Port target), byte_uint16_shl8_shr8 (Port target)]
        @ [atyp] @ ab @ firstPayload)"

section \<open>UDP conn\<close>

record vless_udp =
  vu_version :: byte
  vu_udp_multi :: bool
  vu_isClientEnd :: bool
  vu_notFirst :: bool
  vu_raddr :: Addr
  vu_handshakeBuf :: "bytes option"

definition writeDataTo :: "bytes \<Rightarrow> bytes \<Rightarrow> bytes list" where
  "writeDataTo writeBuf p =
     [writeBuf @ [byte_shr8 (int (length p)), byte_shl8_shr8 (int (length p))], p]"

text \<open>The writes of one \<open>WriteMsg\<close>, and the conn after it.\<close>

definition vless_WriteMsg :: "vless_udp \<Rightarrow> bytes \<Rightarrow> Addr \<Rightarrow> bytes list \<times> vless_udp" where
  "vless_WriteMsg u p raddr =
     (let writeBuf = (case vu_handshakeBuf u of Some h \<Rightarrow> h | None \<Rightarrow> []);
          u = u\<lparr>vu_handshakeBuf := None\<rparr>
      in if vu_version u = 0 then
           if \<not> vu_isClientEnd u \<and> \<not> vu_notFirst u then
             (writeDataTo (writeBuf @ [0, 0]) p, u\<lparr>vu_notFirst := True\<rparr>)
           else (writeDataTo writeBuf p, u)
         else if vu_udp_multi u then
           if vu_isClientEnd u then (writeDataTo writeBuf p, u)
           else if GetHashable (vu_raddr u) = GetHashable raddr then
             (writeDataTo (writeBuf @ [flag_orig]) p, u)
           else (writeDataTo (writeBuf @ [flag_new_source] @ vless_WriteAddrTo raddr) p, u)
         else (writeDataTo (writeBuf @ vless_WriteAddrTo raddr) p, u))"

text \<open>\<open>EstablishUDPChannel\<close>: the writes made at once, and the conn.\<close>

definition vless_EstablishUDPChannel :: "vless_client \<Rightarrow> bytes \<Rightarrow> Addr \<Rightarrow> bytes list \<times> vless_udp" where
  "vless_EstablishUDPChannel c firstPayload target =
     (case AddressBytes target of (ab, atyp) \<Rightarrow>
        let buf = getBufWithCmd c vless_CmdUDP
                  @ [byte_uint16_shr8 (Port target), byte_uint16_shl8_shr8 (Port target)] @ [atyp] @ ab;
            target = target\<lparr>Network := ''udp''\<rparr>;
            uc = \<lparr>vu_version = vc_version c, vu_udp_multi = vc_udp_multi c, vu_isClientEnd = True,
                  vu_notFirst = False, vu_raddr = target, vu_handshakeBuf = Some buf\<rparr>
        in if firstPayload = [] then ([], uc) else vless_WriteMsg uc firstPayload target)"

definition readData_with_len :: "('r, byte) rd \<Rightarrow> (nat \<Rightarrow> ('r, bytes) rd) \<Rightarrow> ('r, bytes) rd" where
  "readData_with_len ReadByte Read =
     rd_bind ReadByte (\<lambda>b1. rd_bind ReadByte (\<lambda>b2. rd_full Read (unat (uint16_be b1 b2))))"

text \<open>What \<open>ReadMsg\<close> reads, and the conn after it.\<close>

definition vless_ReadMsg ::
    "vless_udp \<Rightarrow> ('r, byte) rd \<Rightarrow> (nat \<Rightarrow> ('r, bytes) rd) \<Rightarrow> ('r, bytes \<times> Addr) rd" where
  "vless_ReadMsg u ReadByte Read =
     (let data = (\<lambda>a. rd_bind (readData_with_len ReadByte Read) (\<lambda>bs. rd_ok (bs, a))) in
      if vu_version u = 0 then
        if vu_isClientEnd u \<and> \<not> vu_notFirst u then
          rd_bind ReadByte (\<lambda>_. rd_bind ReadByte (\<lambda>_. data (vu_raddr u)))
        else data (vu_raddr u)
      else if vu_udp_multi u then
        if vu_isClientEnd u then
          rd_bind ReadByte (\<lambda>b1.
            if b1 = flag_orig then data (vu_raddr u)
            else if b1 = flag_new_source then rd_bind (V2rayGetAddrFrom ReadByte Read) data
            else rd_fail (invalid_data ''Vless udp_multi client read first byte unexpected''))
        else data (vu_raddr u)
      else rd_bind (V2rayGetAddrFrom ReadByte Read) data)"

definition vless_after_ReadMsg :: "vless_udp \<Rightarrow> vless_udp" where
  "vless_after_ReadMsg u =
     (if vu_version u = 0 \<and> vu_isClientEnd u then u\<lparr>vu_notFirst := True\<rparr> else u)"

section \<open>Server\<close>

definition vless_newServer :: MultiUserMap where
  "vless_newServer = SetUseUUIDStr_asKey NewMultiUserMap"

definition newServerWithConf :: "string \<Rightarrow> goerr + MultiUserMap" where
  "newServerWithConf uuid =
     (case NewV2rayUser uuid of Inl e \<Rightarrow> Inl e | Inr u \<Rightarrow> Inr (AddUser u vless_newServer))"

definition vless_NewServer :: "string \<Rightarrow> UserConf list \<Rightarrow> goerr + MultiUserMap" where
  "vless_NewServer uuidStr users =
     (case (if uuidStr \<noteq> [] then newServerWithConf uuidStr else Inr vless_newServer) of
        Inl e \<Rightarrow> Inl e
      | Inr s \<Rightarrow> Inr (if 0 < length users then LoadUsers (InitV2rayUsers users) s else s))"

datatype vless_kind = VTCP | VUDP | VMux

record vless_handshake =
  vh_version :: byte
  vh_user :: bytes
  vh_kind :: vless_kind
  vh_udp_multi :: bool
  vh_target :: Addr
  vh_remain :: bytes

text \<open>How the handshake ends: with the whole read buffer for a fallback, or without.\<close>

datatype vless_error = WithFallback goerr | NoFallback goerr

text \<open>\<open>netLayer.V2rayGetAddrFrom\<close> and the command, after the addon.\<close>

definition vless_command :: "byte \<Rightarrow> bytes \<Rightarrow> (vless_error + vless_kind \<times> Addr) \<times> bytes" where
  "vless_command version bs =
     (case buf_ReadByte bs of
        (Inl e, r) \<Rightarrow> (Inl (WithFallback (err_wrap ''Vless read commandByte failed '' e)), r)
      | (Inr cmd, r) \<Rightarrow>
          if cmd = vless_CmdMux \<and> version = 0 then
            (Inl (NoFallback (NewErr ''mux for vless v0 is not supported by verysimple'')), r)
          else if cmd = vless_CmdMux \<or> cmd = vless_CmdTCP \<or> cmd = vless_CmdUDP then
            (case V2rayGetAddrFrom buf_ReadByte buf_Read r of
               (Inl e, r') \<Rightarrow> (Inl (WithFallback (err_wrap ''Vless parse addr failed'' e)), r')
             | (Inr a, r') \<Rightarrow>
                 if cmd = vless_CmdUDP then (Inr (VUDP, a\<lparr>Network := ''udp''\<rparr>), r')
                 else (Inr (if cmd = vless_CmdMux then VMux else VTCP, a), r'))
          else (Inl (WithFallback (invalid_data ''Vless Invalid command '')), r))"

text \<open>The addon: whether \<open>udp_multi\<close> is asked for.\<close>

definition vless_addon :: "byte \<Rightarrow> bytes \<Rightarrow> (vless_error + bool) \<times> bytes" where
  "vless_addon version bs =
     (case buf_ReadByte bs of
        (Inl e, r) \<Rightarrow> (Inl (NoFallback e), r)
      | (Inr b, r) \<Rightarrow>
          if version = 0 then
            if b \<noteq> 0 then
              if length (fst (buf_Next (unat b) r)) \<noteq> unat b then
                (Inl (NoFallback (NewErr ''vless short read in addon'')), snd (buf_Next (unat b) r))
              else (Inr False, snd (buf_Next (unat b) r))
            else (Inr False, r)
          else (Inr (b = addon_udp_multi_flag), r))"

definition vless_realPart :: "(bytes \<Rightarrow> User option) \<Rightarrow> bytes \<Rightarrow> vless_error + vless_handshake" where
  "vless_realPart auth readbs =
     (let (authbs, r) = buf_Next 17 readbs;
          version = authbs ! 0;
          idBytes = list_slice 1 17 authbs
      in if 1 < version then Inl (WithFallback (invalid_data ''Vless Invalid version ''))
         else if auth idBytes = None then Inl (WithFallback (invalid_data ''Vless Invalid user ''))
         else
           case vless_addon version r of
             (Inl e, _) \<Rightarrow> Inl e
           | (Inr multi, r) \<Rightarrow>
               (case vless_command version r of
                  (Inl e, _) \<Rightarrow> Inl e
                | (Inr (kind, a), r) \<Rightarrow>
                    Inr \<lparr>vh_version = version, vh_user = idBytes, vh_kind = kind, vh_udp_multi = multi,
                         vh_target = a, vh_remain = r\<rparr>))"

definition vless_Handshake ::
    "(bytes \<Rightarrow> User option) \<Rightarrow> bytes list \<Rightarrow> (goerr + vless_handshake) \<times> bytes list" where
  "vless_Handshake auth conn =
     (case src_Read MTU conn of
        (Inl e, conn') \<Rightarrow> (Inl (err_wrap ''Vless read err'' e), conn')
      | (Inr readbs, conn') \<Rightarrow>
          if length readbs < 17 then (Inl (err_text ''Vless msg too short''), conn')
          else
            (case vless_realPart auth readbs of
               Inl (WithFallback e) \<Rightarrow> (Inl (ErrBuffer e readbs), conn')
             | Inl (NoFallback e) \<Rightarrow> (Inl e, conn')
             | Inr h \<Rightarrow> (Inr h, conn')))"

text \<open>The UDP conn the server returns.\<close>

definition vless_server_udp :: "vless_handshake \<Rightarrow> vless_udp" where
  "vless_server_udp h =
     \<lparr>vu_version = vh_version h, vu_udp_multi = vh_udp_multi h, vu_isClientEnd = False,
      vu_notFirst = False, vu_raddr = vh_target h, vu_handshakeBuf = None\<rparr>"

section \<open>Lemmas on vless\<close>

lemma vless_WriteAddrTo_wire [simp]: "vless_WriteAddrTo a = v2ray_wire a"
  by (simp add: vless_WriteAddrTo_def v2ray_wire_def)

lemma parses_readData_with_len:
  assumes "length p < 65536"
  shows "parses (readData_with_len buf_ReadByte buf_Read) ([hi8 (int (length p)), lo8 (int (length p))] @ p) p"
proof -
  have "unat (uint16_be (hi8 (int (length p))) (lo8 (int (length p)))) = length p"
    using assms uint_uint16_be int_add_be_hi_lo by (simp add: unat_eq_nat_uint)
  then show ?thesis
    unfolding readData_with_len_def
    by (auto intro!: parses_ReadByte_bind parses_full)
qed

lemma parses_data:
  assumes "length p < 65536"
  shows "parses (rd_bind (readData_with_len buf_ReadByte buf_Read) (\<lambda>bs. rd_ok (bs, a)))
     (hi8 (int (length p)) # lo8 (int (length p)) # p) (p, a)"
  using parses_readData_with_len [OF assms] by (simp add: parses_def rd_bind_def)

section \<open>UDP sessions\<close>

text \<open>The two ends of a UDP channel, ready for \<open>w\<close> to write to \<open>r\<close>.\<close>

definition vless_peers :: "vless_udp \<Rightarrow> vless_udp \<Rightarrow> bool" where
  "vless_peers w r \<longleftrightarrow> vu_version w = vu_version r \<and> vu_udp_multi w = vu_udp_multi r
     \<and> vu_isClientEnd w = (\<not> vu_isClientEnd r) \<and> vu_handshakeBuf w = None
     \<and> (vu_version r = 0 \<and> vu_isClientEnd r \<longrightarrow> vu_notFirst w = vu_notFirst r)"

text \<open>Whether \<open>w\<close> puts the address of a datagram on the wire.\<close>

definition vless_sends_addr :: "vless_udp \<Rightarrow> Addr \<Rightarrow> bool" where
  "vless_sends_addr w a \<longleftrightarrow> vu_version w \<noteq> 0 \<and>
     (vu_udp_multi w \<longrightarrow> \<not> vu_isClientEnd w \<and> GetHashable (vu_raddr w) \<noteq> GetHashable a)"

definition vless_msg_ok :: "vless_udp \<Rightarrow> bytes \<Rightarrow> Addr \<Rightarrow> bool" where
  "vless_msg_ok w p a \<longleftrightarrow> length p < 65536 \<and> (vless_sends_addr w a \<longrightarrow> dest_ok a)"

definition vless_canon :: "vless_udp \<Rightarrow> vless_udp \<Rightarrow> Addr \<Rightarrow> Addr" where
  "vless_canon w r a = (if vless_sends_addr w a then wire_Addr a else vu_raddr r)"

definition same_channel :: "vless_udp \<Rightarrow> vless_udp \<Rightarrow> bool" where
  "same_channel u v \<longleftrightarrow> vu_version u = vu_version v \<and> vu_udp_multi u = vu_udp_multi v
     \<and> vu_isClientEnd u = vu_isClientEnd v \<and> vu_raddr u = vu_raddr v"

lemma same_channel_sends: "same_channel u v \<Longrightarrow> vless_sends_addr u a = vless_sends_addr v a"
  by (simp add: same_channel_def vless_sends_addr_def)

lemma WriteMsg_channel: "same_channel (snd (vless_WriteMsg w p a)) w"
  by (simp add: vless_WriteMsg_def same_channel_def Let_def)

lemma after_ReadMsg_channel: "same_channel (vless_after_ReadMsg r) r"
  by (simp add: vless_after_ReadMsg_def same_channel_def)

lemma peers_step: "vless_peers w r \<Longrightarrow> vless_peers (snd (vless_WriteMsg w p a)) (vless_after_ReadMsg r)"
  by (auto simp: vless_peers_def vless_WriteMsg_def vless_after_ReadMsg_def Let_def)

lemma concat_writeDataTo:
  "concat (writeDataTo h p) = h @ hi8 (int (length p)) # lo8 (int (length p)) # p"
  by (simp add: writeDataTo_def)

lemma parses_vless_msg:
  assumes "vless_peers w r" "vless_msg_ok w p a"
  shows "parses (vless_ReadMsg r buf_ReadByte buf_Read) (concat (fst (vless_WriteMsg w p a))) (p, vless_canon w r a)"
proof -
  from assms(2) have p: "length p < 65536" by (simp add: vless_msg_ok_def)
  have addr: "parses (rd_bind (V2rayGetAddrFrom buf_ReadByte buf_Read)
      (\<lambda>a. rd_bind (readData_with_len buf_ReadByte buf_Read) (\<lambda>bs. rd_ok (bs, a))))
      (v2ray_wire a @ hi8 (int (length p)) # lo8 (int (length p)) # p) (p, wire_Addr a)"
    if "dest_ok a"
    by (rule parses_bind [OF parses_V2rayGetAddrFrom [OF that] parses_data [OF p]])
  consider (v0) "vu_version r = 0" | (multi) "vu_version r \<noteq> 0" "vu_udp_multi r"
    | (plain) "vu_version r \<noteq> 0" "\<not> vu_udp_multi r" by blast
  then show ?thesis
  proof cases
    case v0
    with assms(1) show ?thesis
      by (auto simp: vless_peers_def vless_ReadMsg_def vless_WriteMsg_def Let_def concat_writeDataTo
          vless_canon_def vless_sends_addr_def intro!: parses_ReadByte_bind parses_data [OF p])
  next
    case multi
    with assms addr show ?thesis
      by (auto simp: vless_peers_def vless_ReadMsg_def vless_WriteMsg_def Let_def concat_writeDataTo
          vless_canon_def vless_sends_addr_def vless_msg_ok_def flag_orig_def flag_new_source_def
          intro!: parses_ReadByte_bind parses_data [OF p])
  next
    case plain
    with assms addr show ?thesis
      by (auto simp: vless_peers_def vless_ReadMsg_def vless_WriteMsg_def Let_def concat_writeDataTo
          vless_canon_def vless_sends_addr_def vless_msg_ok_def)
  qed
qed

fun vless_write_all :: "vless_udp \<Rightarrow> (bytes \<times> Addr) list \<Rightarrow> bytes list" where
  "vless_write_all w [] = []"
| "vless_write_all w ((p, a) # ms) =
     (case vless_WriteMsg w p a of (ws, w') \<Rightarrow> ws @ vless_write_all w' ms)"

fun vless_read_all ::
    "vless_udp \<Rightarrow> ('r, byte) rd \<Rightarrow> (nat \<Rightarrow> ('r, bytes) rd) \<Rightarrow> nat \<Rightarrow> ('r, (bytes \<times> Addr) list) rd" where
  "vless_read_all r ReadByte Read 0 = rd_ok []"
| "vless_read_all r ReadByte Read (Suc n) =
     rd_bind (vless_ReadMsg r ReadByte Read) (\<lambda>m.
     rd_bind (vless_read_all (vless_after_ReadMsg r) ReadByte Read n) (\<lambda>ms. rd_ok (m # ms)))"

lemma vless_session_gen:
  assumes "vless_peers w r" "list_all (\<lambda>(p, a). vless_msg_ok w p a) ms"
  shows "parses (vless_read_all r buf_ReadByte buf_Read (length ms)) (concat (vless_write_all w ms))
    (map (\<lambda>(p, a). (p, vless_canon w r a)) ms)"
  using assms
proof (induction ms arbitrary: w r)
  case Nil
  then show ?case using parses_ok [of "[]"] by (simp del: rd_ok_apply)
next
  case (Cons m ms)
  obtain p a where m: "m = (p, a)" by (cases m)
  obtain ws w' where w: "vless_WriteMsg w p a = (ws, w')" by (cases "vless_WriteMsg w p a")
  have ch: "same_channel w' w" "same_channel (vless_after_ReadMsg r) r"
    using WriteMsg_channel [of w p a] after_ReadMsg_channel w by simp_all
  have ok: "vless_msg_ok w' q b = vless_msg_ok w q b"
    "vless_canon w' (vless_after_ReadMsg r) b = vless_canon w r b" for q b
    using same_channel_sends [OF ch(1)] ch(2) by (simp_all add: vless_msg_ok_def vless_canon_def same_channel_def)
  have peers: "vless_peers w' (vless_after_ReadMsg r)" using peers_step [OF Cons.prems(1), of p a] w by simp
  have msgs: "list_all (\<lambda>(p, a). vless_msg_ok w' p a) ms" using Cons.prems(2) by (simp add: ok)
  have IH: "parses (vless_read_all (vless_after_ReadMsg r) buf_ReadByte buf_Read (length ms))
      (concat (vless_write_all w' ms)) (map (\<lambda>(p, a). (p, vless_canon w r a)) ms)"
    using Cons.IH [OF peers msgs] by (simp add: ok)
  have 1: "parses (vless_ReadMsg r buf_ReadByte buf_Read) (concat ws) (p, vless_canon w r a)"
    using parses_vless_msg [OF Cons.prems(1), of p a] Cons.prems(2) w m by simp
  have "parses (rd_bind (vless_read_all (vless_after_ReadMsg r) buf_ReadByte buf_Read (length ms))
      (\<lambda>xs. rd_ok ((p, vless_canon w r a) # xs))) (concat (vless_write_all w' ms) @ [])
      ((p, vless_canon w r a) # map (\<lambda>(p, a). (p, vless_canon w r a)) ms)"
    by (rule parses_bind [OF IH parses_ok])
  with parses_bind [OF 1] show ?case by (simp add: m w)
qed

section \<open>The handshake\<close>

definition kind_cmdbyte :: "vless_kind \<Rightarrow> byte" where
  "kind_cmdbyte k = (case k of VTCP \<Rightarrow> vless_CmdTCP | VUDP \<Rightarrow> vless_CmdUDP | VMux \<Rightarrow> vless_CmdMux)"

definition vless_header :: "vless_client \<Rightarrow> vless_kind \<Rightarrow> Addr \<Rightarrow> bytes" where
  "vless_header c k a = getBufWithCmd c (kind_cmdbyte k) @ v2ray_wire a"

definition vless_target :: "vless_kind \<Rightarrow> Addr \<Rightarrow> Addr" where
  "vless_target k a = (if k = VUDP then (wire_Addr a)\<lparr>Network := ''udp''\<rparr> else wire_Addr a)"

definition vless_client_ok :: "vless_client \<Rightarrow> bool" where
  "vless_client_ok c \<longleftrightarrow> vc_version c \<in> {0, 1} \<and> length (vc_user c) = UUID_BytesLen"

lemma vless_client_Handshake_header:
  "vless_client_Handshake c p a = vless_header c (if vc_use_mux c then VMux else VTCP) a @ p"
  by (simp add: vless_client_Handshake_def vless_header_def v2ray_wire_def kind_cmdbyte_def split: prod.splits)

lemma v2ray_wire_length:
  assumes "dest_ok a"
  shows "length (v2ray_wire a) \<le> 259"
  using assms
proof (cases rule: AddressBytes_cases)
  case (ip4 i4)
  then show ?thesis by (simp add: v2ray_wire_def)
next
  case (ip6 i6)
  then show ?thesis by (simp add: v2ray_wire_def)
next
  case domain
  then show ?thesis by (auto simp: v2ray_wire_def name_ok_def)
qed

lemma vless_command_header:
  assumes "dest_ok a" "k = VMux \<longrightarrow> v \<noteq> 0"
  shows "vless_command v (kind_cmdbyte k # v2ray_wire a @ rest) = (Inr (k, vless_target k a), rest)"
  using parsesD [OF parses_V2rayGetAddrFrom [OF assms(1)], of rest] assms(2)
  by (cases k) (simp_all add: vless_command_def kind_cmdbyte_def vless_target_def vless_cmd_defs)

definition vless_accepted :: "vless_client \<Rightarrow> vless_kind \<Rightarrow> Addr \<Rightarrow> bytes \<Rightarrow> vless_handshake" where
  "vless_accepted c k a remain =
     \<lparr>vh_version = vc_version c, vh_user = vc_user c, vh_kind = k,
      vh_udp_multi = (vc_version c \<noteq> 0 \<and> vc_udp_multi c), vh_target = vless_target k a, vh_remain = remain\<rparr>"

lemma vless_realPart_header:
  assumes "vless_client_ok c" "dest_ok a" "k = VMux \<longrightarrow> vc_version c \<noteq> 0" "auth (vc_user c) \<noteq> None"
  shows "vless_realPart auth (vless_header c k a @ rest) = Inr (vless_accepted c k a rest)"
proof -
  from assms(1) have v: "\<not> 1 < vc_version c" and u: "length (vc_user c) = 16"
    by (auto simp: vless_client_ok_def UUID_BytesLen_def)
  have slice: "list_slice 1 17 (vc_version c # vc_user c) = vc_user c"
    using u by (simp add: list_slice_def)
  show ?thesis
    using v u assms(4) vless_command_header [OF assms(2,3), of rest] slice
    by (auto simp: vless_realPart_def vless_header_def getBufWithCmd_def buf_Next_def Let_def vless_addon_def
        vless_accepted_def addon_udp_multi_flag_def)
qed

lemma vless_Handshake_header:
  assumes "vless_client_ok c" "dest_ok a" "k = VMux \<longrightarrow> vc_version c \<noteq> 0" "auth (vc_user c) \<noteq> None"
  shows "\<exists>remain conn'. vless_Handshake auth ((vless_header c k a @ p) # cs) = (Inr (vless_accepted c k a remain), conn')
    \<and> remain @ concat conn' = p @ concat cs"
proof -
  let ?h = "vless_header c k a"
  from assms(1) have "length (vc_user c) = 16" by (simp add: vless_client_ok_def UUID_BytesLen_def)
  then have h: "length ?h \<le> MTU" "17 \<le> length ?h"
    using v2ray_wire_length [OF assms(2)] by (simp_all add: MTU_def vless_header_def getBufWithCmd_def)
  let ?p = "take (MTU - length ?h) p"
  let ?cs = "if length (?h @ p) \<le> MTU then cs else drop MTU (?h @ p) # cs"
  have "take MTU (?h @ p) = ?h @ ?p" using h(1) by (simp only: take_append take_all)
  with src_Read_first [of MTU "?h @ p" cs] have rd: "src_Read MTU ((?h @ p) # cs) = (Inr (?h @ ?p), ?cs)"
    by simp
  from src_Read_split [OF rd] have "?p @ concat ?cs = p @ concat cs" by simp
  moreover have "vless_Handshake auth ((?h @ p) # cs) = (Inr (vless_accepted c k a ?p), ?cs)"
    using rd vless_realPart_header [of c a k auth ?p] assms h(2)
    by (simp add: vless_Handshake_def del: src_Read.simps)
  ultimately show ?thesis by blast
qed

lemma vless_addon_sound:
  assumes "vless_addon v bs = (Inr m, rest)"
  shows "\<exists>addon. bs = addon @ rest"
proof (cases bs)
  case Nil
  with assms show ?thesis by (simp add: vless_addon_def)
next
  case (Cons b r)
  with assms have "rest = r \<or> rest = drop (unat b) r"
    by (auto simp: vless_addon_def buf_Next_def split: if_splits)
  then show ?thesis
  proof
    assume "rest = r"
    with Cons show ?thesis by (intro exI [of _ "[b]"]) simp
  next
    assume "rest = drop (unat b) r"
    with Cons show ?thesis by (intro exI [of _ "b # take (unat b) r"]) simp
  qed
qed

lemma vless_command_sound:
  assumes "vless_command v bs = (Inr (k, a), rest)"
  shows "bs = kind_cmdbyte k # v2ray_raw a @ rest \<and> v2ray_parsed_ok (a\<lparr>Network := []\<rparr>)
    \<and> Network a = (if k = VUDP then ''udp'' else []) \<and> (k = VMux \<longrightarrow> v \<noteq> 0)"
proof -
  from assms obtain cmd r x where bs: "bs = cmd # r"
    and x: "V2rayGetAddrFrom buf_ReadByte buf_Read r = (Inr x, rest)"
    and k: "(cmd = vless_CmdUDP \<and> k = VUDP \<and> a = x\<lparr>Network := ''udp''\<rparr>)
      \<or> (cmd = vless_CmdMux \<and> v \<noteq> 0 \<and> k = VMux \<and> a = x) \<or> (cmd = vless_CmdTCP \<and> k = VTCP \<and> a = x)"
    by (cases bs) (auto simp: vless_command_def vless_cmd_defs split: if_splits prod.splits sum.splits)
  from V2rayGetAddrFrom_sound [OF x] have "r = v2ray_raw x @ rest" "v2ray_parsed_ok x" by auto
  moreover have "v2ray_raw (x\<lparr>Network := n\<rparr>) = v2ray_raw x" "v2ray_parsed_ok x \<Longrightarrow> v2ray_parsed_ok (x\<lparr>Network := []\<rparr>)" for n
    by (auto simp: v2ray_raw_def v2ray_parsed_ok_def dest_ok_def split: option.splits)
  ultimately show ?thesis
    using bs k by (auto simp: kind_cmdbyte_def v2ray_parsed_ok_def)
qed

lemma vless_realPart_sound:
  assumes "vless_realPart auth bs = Inr h" "17 \<le> length bs"
  shows "\<exists>addon. bs = [vh_version h] @ vh_user h @ addon @ [kind_cmdbyte (vh_kind h)] @ v2ray_raw (vh_target h) @ vh_remain h
    \<and> vh_version h \<le> 1 \<and> length (vh_user h) = 16 \<and> auth (vh_user h) \<noteq> None
    \<and> v2ray_parsed_ok ((vh_target h)\<lparr>Network := []\<rparr>)
    \<and> Network (vh_target h) = (if vh_kind h = VUDP then ''udp'' else [])"
proof -
  obtain v bs1 where bs: "bs = v # bs1" using assms(2) by (cases bs) auto
  have hd: "(take 17 bs) ! 0 = v" "list_slice (Suc 0) 17 (take 17 bs) = take 16 bs1"
    using bs by (simp_all add: list_slice_def take_Cons')
  from assms(1) obtain m r k a rest where v: "\<not> 1 < v" and auth: "auth (take 16 bs1) \<noteq> None"
    and addon: "vless_addon v (drop 17 bs) = (Inr m, r)" and cmd: "vless_command v r = (Inr (k, a), rest)"
    and h: "h = \<lparr>vh_version = v, vh_user = take 16 bs1, vh_kind = k, vh_udp_multi = m, vh_target = a, vh_remain = rest\<rparr>"
    unfolding vless_realPart_def buf_Next_def Let_def
    by (auto simp: hd split: if_splits prod.splits sum.splits)
  from vless_addon_sound [OF addon] obtain ad where ad: "drop 17 bs = ad @ r" by blast
  have "bs = v # take 16 bs1 @ ad @ r"
    using bs ad append_take_drop_id [of 16 bs1] by (simp add: drop_Cons')
  moreover have "length (take 16 bs1) = 16" using bs assms(2) by simp
  ultimately show ?thesis using v auth h vless_command_sound [OF cmd] by auto
qed

section \<open>Who is let in\<close>

definition vless_uuids :: "string \<Rightarrow> UserConf list \<Rightarrow> bytes set" where
  "vless_uuids uuidStr users =
     (if uuidStr = [] then {} else case StrToUUID uuidStr of Inl _ \<Rightarrow> {} | Inr u \<Rightarrow> {u})
     \<union> (\<lambda>c. copy_uuid (StrToUUID_slice (confUser c))) ` set users"

lemma auth_inv_newServer: "auth_inv UUIDToStr uuid_user vless_newServer"
  unfolding vless_newServer_def by (rule auth_inv_uuid)

lemma AuthUserByBytes_newServer: "AuthUserByBytes vless_newServer b = None"
  by (simp add: vless_newServer_def AuthUserByBytes_def SetUseUUIDStr_asKey_def NewMultiUserMap_def)

lemma vless_NewServer_auth:
  assumes "vless_NewServer uuidStr users = Inr s"
  shows "auth_inv UUIDToStr uuid_user s \<and> (AuthUserByBytes s b \<noteq> None \<longleftrightarrow> b \<in> vless_uuids uuidStr users)"
proof -
  let ?s0 = "if uuidStr \<noteq> [] then newServerWithConf uuidStr else Inr vless_newServer"
  from assms obtain s0 where s0: "?s0 = Inr s0"
    and s: "s = LoadUsers (InitV2rayUsers users) s0"
    by (cases users) (auto simp: vless_NewServer_def LoadUsers_def InitV2rayUsers_def split: sum.splits)
  have base: "auth_inv UUIDToStr uuid_user s0 \<and> (AuthUserByBytes s0 b \<noteq> None \<longleftrightarrow>
      b \<in> (if uuidStr = [] then {} else case StrToUUID uuidStr of Inl _ \<Rightarrow> {} | Inr u \<Rightarrow> {u}))"
  proof (cases "uuidStr = []")
    case True
    with s0 auth_inv_newServer AuthUserByBytes_newServer show ?thesis by simp
  next
    case False
    with s0 obtain u where u: "StrToUUID uuidStr = Inr u" and eq: "s0 = AddUser (V2rayUser u) vless_newServer"
      by (auto simp: newServerWithConf_def NewV2rayUser_def split: sum.splits)
    from u have ok: "uuid_user (V2rayUser u)" by (simp add: StrToUUID_length)
    from uuid_users.inv_Add [OF auth_inv_newServer ok] uuid_users.ByBytes_Add [OF auth_inv_newServer ok, of b]
    show ?thesis using False u eq AuthUserByBytes_newServer by (simp add: V2rayUser_def)
  qed
  then have inv: "auth_inv UUIDToStr uuid_user s0" by blast
  have img: "AuthBytes ` set (InitV2rayUsers users) = (\<lambda>c. copy_uuid (StrToUUID_slice (confUser c))) ` set users"
    by (simp add: InitV2rayUsers_def image_image V2rayUser_def)
  from uuid_users.inv_load [OF inv InitV2rayUsers_ok] uuid_users.ByBytes_load [OF inv InitV2rayUsers_ok, of users b]
  show ?thesis
    unfolding s LoadUsers_eq vless_uuids_def using base by (auto simp: img)
qed

lemma vless_NewClient_ok:
  assumes "vless_NewClient uuidStr v mux extra = Inr c"
  shows "vless_client_ok c \<and> StrToUUID uuidStr = Inr (vc_user c) \<and> (vc_use_mux c \<longrightarrow> vc_version c \<noteq> 0)
    \<and> (vc_udp_multi c \<longrightarrow> vc_version c \<noteq> 0)"
  using assms StrToUUID_length [of uuidStr]
  by (auto simp: vless_NewClient_def vless_client_ok_def Let_def split: sum.splits if_splits)

section \<open>Properties\<close>


text \<open>C8: The vless server lets in only configured uuids, on a well-formed request of which nothing is
  lost.\<close>

theorem vless_handshake_sound:
  assumes "vless_NewServer suuid users = Inr s" "vless_Handshake (AuthUserByBytes s) conn = (Inr h, conn')"
  shows "vh_user h \<in> vless_uuids suuid users \<and> vh_version h \<le> 1
    \<and> (\<exists>addon. concat conn = [vh_version h] @ vh_user h @ addon @ [kind_cmdbyte (vh_kind h)]
          @ v2ray_raw (vh_target h) @ vh_remain h @ concat conn')
    \<and> v2ray_parsed_ok ((vh_target h)\<lparr>Network := []\<rparr>)"
proof -
  from assms(2) obtain bs where rd: "src_Read MTU conn = (Inr bs, conn')" and len: "17 \<le> length bs"
    and real: "vless_realPart (AuthUserByBytes s) bs = Inr h"
    by (auto simp: vless_Handshake_def split: prod.splits sum.splits if_splits vless_error.splits)
  from vless_realPart_sound [OF real len] vless_NewServer_auth [OF assms(1), of "vh_user h"] src_Read_split [OF rd]
  show ?thesis by auto
qed

text \<open>An entry of the user list that is not a uuid silently admits the all-zero uuid.\<close>

theorem vless_malformed_uuid_admits_zero:
  assumes "vless_NewServer suuid users = Inr s" "uc \<in> set users" "StrToUUID (confUser uc) = Inl e"
  shows "AuthUserByBytes s (replicate 16 0) \<noteq> None"
proof -
  have "copy_uuid (StrToUUID_slice (confUser uc)) = replicate 16 0"
    using assms(3) by (simp add: StrToUUID_slice_def copy_uuid_def UUID_BytesLen_def)
  with assms(2) have "replicate 16 0 \<in> vless_uuids suuid users"
    unfolding vless_uuids_def by (metis UnI2 image_eqI)
  with vless_NewServer_auth [OF assms(1)] show ?thesis by blast
qed

text \<open>Between the two ends of a UDP channel, in either direction, in each of the three framings and
  with the response header of version 0, datagrams arrive complete, in order and unmerged, with
  the address the framing carries or the channel's own.\<close>

theorem vless_udp_session:
  assumes "vless_peers w r" "list_all (\<lambda>(p, a). vless_msg_ok w p a) ms"
  shows "vless_read_all r buf_ReadByte buf_Read (length ms) (concat (vless_write_all w ms) @ rest)
    = (Inr (map (\<lambda>(p, a). (p, vless_canon w r a)) ms), rest)"
  by (rule parsesD [OF vless_session_gen [OF assms]])

lemma vless_Establish_writes:
  assumes "p \<noteq> []"
  shows "\<exists>uc. vless_EstablishUDPChannel c p a
      = ([vless_header c VUDP a @ hd (fst (vless_WriteMsg (uc\<lparr>vu_handshakeBuf := None\<rparr>) p (a\<lparr>Network := ''udp''\<rparr>))), p],
         uc\<lparr>vu_handshakeBuf := None\<rparr>)
    \<and> vu_version uc = vc_version c \<and> vu_udp_multi uc = vc_udp_multi c \<and> vu_isClientEnd uc
    \<and> vu_raddr uc = a\<lparr>Network := ''udp''\<rparr>"
  using assms
  by (auto simp: vless_EstablishUDPChannel_def vless_header_def v2ray_wire_def kind_cmdbyte_def
      vless_WriteMsg_def Let_def writeDataTo_def split: prod.splits
      intro!: exI [of _ "\<lparr>vu_version = vc_version c, vu_udp_multi = vc_udp_multi c, vu_isClientEnd = True,
        vu_notFirst = False, vu_raddr = a\<lparr>Network := ''udp''\<rparr>, vu_handshakeBuf = None\<rparr>"])

lemma client_WriteMsg:
  assumes "vu_isClientEnd u" "vu_handshakeBuf u = None"
  shows "\<exists>w. vless_WriteMsg u p a = ([w, p], u)"
  using assms by (cases u) (auto simp: vless_WriteMsg_def writeDataTo_def Let_def)

text \<open>A whole vless UDP channel: opening it with a first datagram and sending more, the server accepts
  it and reads exactly these datagrams; each comes with the address the framing carries or with
  the channel's destination.\<close>

theorem vless_udp_end_to_end:
  assumes "vless_NewClient cuuid v mux extra = Inr c" "vless_NewServer suuid users = Inr s"
    and "vc_user c \<in> vless_uuids suuid users" "p \<noteq> []"
    and "list_all (\<lambda>(q, b). length q < 65536 \<and> dest_ok b) ((p, a) # ms)"
  shows "\<exists>ws uc h conn'. vless_EstablishUDPChannel c p a = (ws, uc)
    \<and> vless_Handshake (AuthUserByBytes s) (ws @ vless_write_all uc ms) = (Inr h, conn') \<and> vh_kind h = VUDP
    \<and> vless_read_all (vless_server_udp h) buf_ReadByte buf_Read (Suc (length ms)) (vh_remain h @ concat conn')
      = (Inr (map (\<lambda>(q, b). (q, if vless_sends_addr uc b then wire_Addr b else (wire_Addr a)\<lparr>Network := ''udp''\<rparr>))
                ((p, a\<lparr>Network := ''udp''\<rparr>) # ms)), [])"
proof -
  let ?a = "a\<lparr>Network := ''udp''\<rparr>" and ?auth = "AuthUserByBytes s"
  from assms(5) have a: "dest_ok a" by simp
  from vless_NewClient_ok [OF assms(1)] have c: "vless_client_ok c" "vc_udp_multi c \<longrightarrow> vc_version c \<noteq> 0" by auto
  from vless_NewServer_auth [OF assms(2)] assms(3) have auth: "?auth (vc_user c) \<noteq> None" by blast
  from vless_Establish_writes [OF assms(4), of c a] obtain u0 where
    e: "vless_EstablishUDPChannel c p a = ([vless_header c VUDP a @ hd (fst (vless_WriteMsg (u0\<lparr>vu_handshakeBuf := None\<rparr>) p ?a)), p],
      u0\<lparr>vu_handshakeBuf := None\<rparr>)"
    and u0: "vu_version u0 = vc_version c" "vu_udp_multi u0 = vc_udp_multi c" "vu_isClientEnd u0" by blast
  let ?u = "u0\<lparr>vu_handshakeBuf := None\<rparr>"
  obtain w where w: "vless_WriteMsg ?u p ?a = ([w, p], ?u)" using client_WriteMsg [of ?u p ?a] u0 by auto
  let ?rest = "p # vless_write_all ?u ms"
  have "VUDP = VMux \<longrightarrow> vc_version c \<noteq> 0" by simp
  from vless_Handshake_header [where auth = ?auth, OF c(1) a this auth, of w ?rest] obtain remain conn' where
    h: "vless_Handshake ?auth ((vless_header c VUDP a @ w) # ?rest) = (Inr (vless_accepted c VUDP a remain), conn')"
      "remain @ concat conn' = w @ concat ?rest" by blast
  let ?h = "vless_accepted c VUDP a remain"
  have "vless_peers ?u (vless_server_udp ?h)"
    using u0 c(2) by (auto simp: vless_peers_def vless_server_udp_def vless_accepted_def)
  moreover have "list_all (\<lambda>(q, b). vless_msg_ok ?u q b) ((p, ?a) # ms)"
    using assms(5) by (auto simp: list_all_iff vless_msg_ok_def dest_ok_def)
  ultimately have "vless_read_all (vless_server_udp ?h) buf_ReadByte buf_Read (length ((p, ?a) # ms))
      (concat (vless_write_all ?u ((p, ?a) # ms)) @ [])
    = (Inr (map (\<lambda>(q, b). (q, vless_canon ?u (vless_server_udp ?h) b)) ((p, ?a) # ms)), [])"
    by (rule parsesD [OF vless_session_gen])
  moreover have "vless_canon ?u (vless_server_udp ?h) b
      = (if vless_sends_addr ?u b then wire_Addr b else (wire_Addr a)\<lparr>Network := ''udp''\<rparr>)" for b
    by (simp add: vless_canon_def vless_server_udp_def vless_accepted_def vless_target_def)
  ultimately show ?thesis
    using e w h
    by (intro exI [of _ "[vless_header c VUDP a @ w, p]"] exI [of _ ?u] exI [of _ ?h] exI [of _ conn'])
      (simp add: vless_accepted_def)
qed

section \<open>TCP conn\<close>

record vless_tcp = tconn +
  vt_version :: byte
  vt_isServerEnd :: bool
  vt_isntFirstPacket :: bool

definition vless_canDirectWrite :: "vless_tcp \<Rightarrow> bool" where
  "vless_canDirectWrite c \<longleftrightarrow>
     vt_version c = 1 \<or> (vt_version c = 0 \<and> \<not> (vt_isServerEnd c \<and> \<not> vt_isntFirstPacket c))"

definition vless_noHandshakeShit :: "vless_tcp \<Rightarrow> bool" where
  "vless_noHandshakeShit c =
     (if vt_isServerEnd c then (if 0 < remainFirstBufLen c then False else True)
      else if vt_version c = 0 then (if \<not> vt_isntFirstPacket c then False else True)
      else True)"

text \<open>The one write of \<open>Write\<close>, which succeeds, and the conn after it.\<close>

definition vless_tcp_Write :: "bytes \<Rightarrow> vless_tcp \<Rightarrow> bytes \<times> vless_tcp" where
  "vless_tcp_Write p c =
     (if vt_version c = 0 then
        if vt_isServerEnd c \<and> \<not> vt_isntFirstPacket c then ([0, 0] @ p, c\<lparr>vt_isntFirstPacket := True\<rparr>)
        else (p, c)
      else (p, c))"

definition vless_tcp_Read :: "nat \<Rightarrow> (vless_tcp, bytes) rd" where
  "vless_tcp_Read n c =
     (if vt_isServerEnd c then
        if 0 < remainFirstBufLen c then
          (case multi_Read n (optionalReader c, tconn_Conn c) of
             (Inl e, (o', c')) \<Rightarrow> (Inl e, c\<lparr>optionalReader := o', tconn_Conn := c'\<rparr>)
           | (Inr xs, (o', c')) \<Rightarrow>
               let rest = remainFirstBufLen c - int (length xs) in
               (Inr xs, c\<lparr>optionalReader := (if 0 < length xs \<and> rest \<le> 0 then None else o'),
                         tconn_Conn := c',
                         remainFirstBufLen := (if 0 < length xs then rest else remainFirstBufLen c)\<rparr>))
        else (case src_Read n (tconn_Conn c) of (v, c') \<Rightarrow> (v, c\<lparr>tconn_Conn := c'\<rparr>))
      else if vt_version c = 0 \<and> \<not> vt_isntFirstPacket c then
        (case src_Read MaxPacketLen (tconn_Conn c) of
           (Inl e, c') \<Rightarrow> (Inl e, c\<lparr>vt_isntFirstPacket := True, tconn_Conn := c'\<rparr>)
         | (Inr bs, c') \<Rightarrow>
             let c = c\<lparr>vt_isntFirstPacket := True, tconn_Conn := c'\<rparr> in
             if length bs < 2 then (Inl (NewErr ''vless response head too short''), c)
             else (Inr (take n (drop 2 bs)), c))
      else (case src_Read n (tconn_Conn c) of (v, c') \<Rightarrow> (v, c\<lparr>tconn_Conn := c'\<rparr>)))"

definition vless_tcp_content :: "vless_tcp \<Rightarrow> bytes" where
  "vless_tcp_content c = (case optionalReader c of Some b \<Rightarrow> b | None \<Rightarrow> []) @ concat (tconn_Conn c)"

text \<open>The server end, and a client end past its first packet.\<close>

definition vless_tcp_inv :: "vless_tcp \<Rightarrow> bool" where
  "vless_tcp_inv c \<longleftrightarrow> [] \<notin> set (tconn_Conn c)
     \<and> (if vt_isServerEnd c then
          remainFirstBufLen c = int (length (case optionalReader c of Some b \<Rightarrow> b | None \<Rightarrow> []))
        else optionalReader c = None \<and> (vt_version c = 0 \<longrightarrow> vt_isntFirstPacket c))"

interpretation vless_tcp_reader: stream_reader vless_tcp_Read vless_tcp_content vless_tcp_inv
proof unfold_locales
  fix r :: vless_tcp and n xs r' assume "vless_tcp_inv r" "vless_tcp_Read n r = (Inr xs, r')"
  then show "vless_tcp_inv r' \<and> vless_tcp_content r = xs @ vless_tcp_content r' \<and> length xs \<le> n"
    by (cases "tconn_Conn r"; cases "optionalReader r")
      (auto simp: vless_tcp_Read_def vless_tcp_inv_def vless_tcp_content_def min_def Let_def split: if_splits)
next
  fix r :: vless_tcp and n :: nat assume "vless_tcp_inv r" "vless_tcp_content r \<noteq> []" "0 < n"
  then show "\<exists>xs r'. vless_tcp_Read n r = (Inr xs, r') \<and> xs \<noteq> []"
    by (cases "tconn_Conn r"; cases "optionalReader r")
      (auto simp: vless_tcp_Read_def vless_tcp_inv_def vless_tcp_content_def Let_def split: if_splits)
next
  fix r :: vless_tcp and n :: nat assume "vless_tcp_inv r" "vless_tcp_content r = []" "0 < n"
  then show "\<exists>r'. vless_tcp_Read n r = (Inl io_EOF, r') \<and> vless_tcp_inv r' \<and> vless_tcp_content r' = []"
    by (cases "tconn_Conn r"; cases "optionalReader r")
      (auto simp: vless_tcp_Read_def vless_tcp_inv_def vless_tcp_content_def Let_def split: if_splits)
qed

text \<open>The first response of version 0: the client's first \<open>Read\<close> strips the header, but what does
  not fit into the caller's buffer is gone; the stream is intact exactly when the payload of the
  first chunk fits.\<close>

theorem vless_v0_first_read:
  assumes "vt_version srv = 0" "vt_isServerEnd srv" "\<not> vt_isntFirstPacket srv"
    and "vt_version cl = 0" "\<not> vt_isServerEnd cl" "\<not> vt_isntFirstPacket cl" "optionalReader cl = None"
    and "tconn_Conn cl = fst (vless_tcp_Write p srv) # cs" "length p + 2 \<le> MaxPacketLen"
  shows "\<exists>cl'. vless_tcp_Read n cl = (Inr (take n p), cl') \<and> vless_tcp_content cl' = concat cs
    \<and> (take n p @ vless_tcp_content cl' = p @ concat cs \<longleftrightarrow> length p \<le> n)"
proof -
  have "src_Read MaxPacketLen (tconn_Conn cl) = (Inr (0 # 0 # p), cs)"
    using assms by (simp add: vless_tcp_Write_def)
  then show ?thesis
    using assms(4-7) by (auto simp: vless_tcp_Read_def Let_def vless_tcp_content_def) 
qed

section \<open>Witnesses\<close>

definition sample_uuid :: string where "sample_uuid = UUIDToStr (replicate 16 1)"

definition sample_vless_client :: vless_client where
  "sample_vless_client = \<lparr>vc_version = 1, vc_user = replicate 16 1, vc_udp_multi = False, vc_use_mux = False\<rparr>"

lemma sample_uuid_ok: "StrToUUID sample_uuid = Inr (replicate 16 1)"
  unfolding sample_uuid_def by (rule StrToUUID_UUIDToStr) (simp add: UUID_BytesLen_def)

lemma sample_uuid_nonempty: "sample_uuid \<noteq> []"
  using sample_uuid_ok by (auto simp: StrToUUID_def Let_def UUID_BytesLen_def)

lemma sample_vless_client_ok: "vless_NewClient sample_uuid 1 False False = Inr sample_vless_client"
  by (simp add: vless_NewClient_def sample_uuid_ok sample_vless_client_def)

lemma sample_vless_server: "\<exists>s. vless_NewServer sample_uuid [] = Inr s"
  by (simp add: vless_NewServer_def newServerWithConf_def NewV2rayUser_def sample_uuid_ok)

lemma sample_vless_uuids: "vc_user sample_vless_client \<in> vless_uuids sample_uuid []"
  by (simp add: vless_uuids_def sample_uuid_ok sample_uuid_nonempty sample_vless_client_def)


theorem vless_udp_end_to_end_witness:
  "\<exists>s ws uc h conn'. vless_NewServer sample_uuid [] = Inr s
    \<and> vless_EstablishUDPChannel sample_vless_client [1, 2] sample_dest = (ws, uc)
    \<and> vless_Handshake (AuthUserByBytes s) ws = (Inr h, conn') \<and> vh_kind h = VUDP"
proof -
  obtain s where s: "vless_NewServer sample_uuid [] = Inr s" using sample_vless_server by blast
  have p: "[1, 2 :: byte] \<noteq> []" "list_all (\<lambda>(q :: bytes, b). length q < 65536 \<and> dest_ok b) (([1, 2], sample_dest) # [])"
    by (simp_all add: sample_dest_ok)
  from vless_udp_end_to_end [OF sample_vless_client_ok s sample_vless_uuids p] s
  show ?thesis by simp blast
qed

theorem vless_udp_session_witness:
  "\<exists>w r. vless_read_all r buf_ReadByte buf_Read (length [([1 :: byte], sample_dest)])
      (concat (vless_write_all w [([1], sample_dest)]) @ [])
    = (Inr (map (\<lambda>(p, a). (p, vless_canon w r a)) [([1], sample_dest)]), [])"
proof -
  define w where "w = \<lparr>vu_version = 1, vu_udp_multi = False, vu_isClientEnd = True, vu_notFirst = False,
    vu_raddr = sample_dest, vu_handshakeBuf = None\<rparr>"
  have peers: "vless_peers w (w\<lparr>vu_isClientEnd := False\<rparr>)" by (simp add: vless_peers_def w_def)
  have "list_all (\<lambda>(p :: bytes, a). vless_msg_ok w p a) [([1], sample_dest)]"
    by (simp add: vless_msg_ok_def sample_dest_ok)
  from vless_udp_session [OF peers this, of "[]"] show ?thesis by blast
qed

lemma sample_accepts:
  assumes "vless_NewServer sample_uuid [] = Inr s"
  shows "\<exists>h conn'. vless_Handshake (AuthUserByBytes s) [vless_header sample_vless_client VTCP sample_dest @ [7]] = (Inr h, conn')"
proof -
  have c: "vless_client_ok sample_vless_client" "VTCP = VMux \<longrightarrow> vc_version sample_vless_client \<noteq> 0"
    by (simp_all add: vless_client_ok_def sample_vless_client_def UUID_BytesLen_def)
  from vless_NewServer_auth [OF assms] sample_vless_uuids
  have "AuthUserByBytes s (vc_user sample_vless_client) \<noteq> None" by blast
  from vless_Handshake_header [where auth = "AuthUserByBytes s", OF c(1) sample_dest_ok c(2) this, of "[7]" "[]"]
  show ?thesis by blast
qed

theorem vless_handshake_sound_witness:
  "\<exists>s conn h conn'. vless_NewServer sample_uuid [] = Inr s \<and> vless_Handshake (AuthUserByBytes s) conn = (Inr h, conn')
    \<and> vh_user h \<in> vless_uuids sample_uuid []"
proof -
  obtain s where s: "vless_NewServer sample_uuid [] = Inr s" using sample_vless_server by blast
  from sample_accepts [OF s] obtain h conn' where
    h: "vless_Handshake (AuthUserByBytes s) [vless_header sample_vless_client VTCP sample_dest @ [7]] = (Inr h, conn')"
    by blast
  from vless_handshake_sound [OF s h] s h show ?thesis by blast
qed

end
