(* ===== verification/GoNet.thy ===== *)
theory GoNet
  imports NetAddr UtilsStrings "HOL-Library.Monad_Syntax"
begin

text \<open>
  The text forms of Go's standard library that the addresses of the repository are read from and
  printed to (Go 1.19): \<open>strconv.Itoa\<close> and \<open>Atoi\<close>, \<open>net.ParseIP\<close> and \<open>IP.String\<close>,
  \<open>net.SplitHostPort\<close> and \<open>JoinHostPort\<close>. A string that does not parse is \<open>None\<close>; for
  \<open>Atoi\<close> and \<open>SplitHostPort\<close> an error with the text of Go's (without its quotes).
\<close>

section \<open>Numbers\<close>

definition is_digit :: "char \<Rightarrow> bool" where
  "is_digit c \<longleftrightarrow> 48 \<le> (of_char c :: nat) \<and> (of_char c :: nat) \<le> 57"

definition digit_val :: "char \<Rightarrow> nat" where
  "digit_val c = of_char c - 48"

definition digit_char :: "nat \<Rightarrow> char" where
  "digit_char d = char_of (48 + d)"

fun dec_of_nat :: "nat \<Rightarrow> string" where
  "dec_of_nat n = (if n < 10 then [digit_char n] else dec_of_nat (n div 10) @ [digit_char (n mod 10)])"

declare dec_of_nat.simps [simp del]

definition Itoa :: "int \<Rightarrow> string" where
  "Itoa i = (if i < 0 then CHR ''-'' # dec_of_nat (nat (- i)) else dec_of_nat (nat i))"

definition nat_of_dec :: "string \<Rightarrow> nat" where
  "nat_of_dec s = foldl (\<lambda>n c. n * 10 + digit_val c) 0 s"

definition Atoi :: "string \<Rightarrow> goerr + int" where
  "Atoi s =
     (let neg = (s \<noteq> [] \<and> hd s = CHR ''-'');
          ds = (if s \<noteq> [] \<and> (hd s = CHR ''-'' \<or> hd s = CHR ''+'') then tl s else s)
      in if ds = [] \<or> \<not> list_all is_digit ds then Inl (NewErr ''invalid syntax'')
         else
           let v = (if neg then - int (nat_of_dec ds) else int (nat_of_dec ds)) in
           if v < - (2 ^ 63) \<or> 2 ^ 63 \<le> v then Inl (NewErr ''value out of range'') else Inr v)"

section \<open>IPv4\<close>

text \<open>\<open>dtoi\<close> and \<open>xtoi\<close>: value and length of the longest numeral at the front, unless it is
  empty or reaches \<open>0xFFFFFF\<close>.\<close>

definition big :: nat where "big = 0xFFFFFF"

definition dtoi :: "string \<Rightarrow> (nat \<times> nat) option" where
  "dtoi s =
     (let ds = takeWhile is_digit s
      in if ds = [] \<or> nat_of_dec ds \<ge> big then None else Some (nat_of_dec ds, length ds))"

fun parseIPv4_loop :: "nat \<Rightarrow> nat \<Rightarrow> string \<Rightarrow> (bytes \<times> string) option" where
  "parseIPv4_loop i 0 s = Some ([], s)"
| "parseIPv4_loop i (Suc k) s =
     (if s = [] \<or> (0 < i \<and> hd s \<noteq> CHR ''.'') then None
      else
        let s = (if 0 < i then tl s else s) in
        do {
          (n, c) \<leftarrow> dtoi s;
          if n > 0xFF \<or> (1 < c \<and> hd s = CHR ''0'') then None
          else do {
            (bs, s') \<leftarrow> parseIPv4_loop (Suc i) k (drop c s);
            Some (word_of_nat n # bs, s') } })"

text \<open>The result of \<open>net.IPv4\<close> has sixteen bytes.\<close>

definition IPv4 :: "bytes \<Rightarrow> bytes" where
  "IPv4 bs = v4in6_prefix @ bs"

definition parseIPv4 :: "string \<Rightarrow> bytes option" where
  "parseIPv4 s =
     do {
       (bs, rest) \<leftarrow> parseIPv4_loop 0 4 s;
       if rest \<noteq> [] then None else Some (IPv4 bs) }"

section \<open>IPv6\<close>

definition nat_of_hex :: "string \<Rightarrow> nat" where
  "nat_of_hex s = foldl (\<lambda>n c. n * 16 + the (hex_val c)) 0 s"

definition xtoi :: "string \<Rightarrow> (nat \<times> nat) option" where
  "xtoi s =
     (let ds = takeWhile (\<lambda>c. hex_val c \<noteq> None) s
      in if ds = [] \<or> nat_of_hex ds \<ge> big then None else Some (nat_of_hex ds, length ds))"

text \<open>The loop over the groups: the bytes written so far, the position of the ellipsis, and the rest
  of the string; the fuel is the number of groups that still fit, so that \<open>i = IPv6len\<close> is
  \<open>0\<close>.\<close>

fun parseIPv6_loop :: "nat \<Rightarrow> bytes \<Rightarrow> nat option \<Rightarrow> string \<Rightarrow> (bytes \<times> nat option \<times> string) option" where
  "parseIPv6_loop 0 ip ellipsis s = Some (ip, ellipsis, s)"
| "parseIPv6_loop (Suc k) ip ellipsis s =
     do {
       (n, c) \<leftarrow> xtoi s;
       if n > 0xFFFF then None
       else if c < length s \<and> s ! c = CHR ''.'' then
         (if (ellipsis = None \<and> length ip \<noteq> 12) \<or> length ip + 4 > 16 then None
          else do {
            ip4 \<leftarrow> parseIPv4 s;
            Some (ip @ drop 12 ip4, ellipsis, []) })
       else
         let ip = ip @ [word_of_nat (n div 256), word_of_nat n]; s = drop c s in
         if s = [] then Some (ip, ellipsis, s)
         else if hd s \<noteq> CHR '':'' \<or> length s = 1 then None
         else
           let s = tl s in
           if hd s = CHR '':'' then
             (if ellipsis \<noteq> None then None
              else
                let s = tl s in
                if s = [] then Some (ip, Some (length ip), s)
                else parseIPv6_loop k ip (Some (length ip)) s)
           else parseIPv6_loop k ip ellipsis s }"

definition expand_ellipsis :: "bytes \<Rightarrow> nat option \<Rightarrow> bytes option" where
  "expand_ellipsis ip ellipsis =
     (if length ip < 16 then
        (case ellipsis of None \<Rightarrow> None | Some e \<Rightarrow> Some (take e ip @ replicate (16 - length ip) 0 @ drop e ip))
      else if ellipsis \<noteq> None then None else Some ip)"

definition parseIPv6 :: "string \<Rightarrow> bytes option" where
  "parseIPv6 s =
     (let lead = (take 2 s = ''::''); s = (if lead then drop 2 s else s) in
      if lead \<and> s = [] then Some (replicate 16 0)
      else do {
        (ip, ellipsis, rest) \<leftarrow> parseIPv6_loop 8 [] (if lead then Some 0 else None) s;
        if rest \<noteq> [] then None else expand_ellipsis ip ellipsis })"

definition ParseIP :: "string \<Rightarrow> bytes option" where
  "ParseIP s =
     (case find (\<lambda>c. c = CHR ''.'' \<or> c = CHR '':'') s of
        None \<Rightarrow> None
      | Some c \<Rightarrow> if c = CHR ''.'' then parseIPv4 s else parseIPv6 s)"

section \<open>Printing an IP\<close>

fun hex_of_nat :: "nat \<Rightarrow> string" where
  "hex_of_nat n = (if n < 16 then [hex_char n] else hex_of_nat (n div 16) @ [hex_char (n mod 16)])"

declare hex_of_nat.simps [simp del]

fun dotted :: "bytes \<Rightarrow> string" where
  "dotted [] = []"
| "dotted [b] = dec_of_nat (unat b)"
| "dotted (b # bs) = dec_of_nat (unat b) @ ''.'' @ dotted bs"

text \<open>The longest run of zero groups, the first of that length: groups \<open>e0\<close> to \<open>e1\<close>. The loop
  goes on from the group after a run that it took.\<close>

fun zero_run :: "nat list \<Rightarrow> nat" where
  "zero_run (0 # gs) = Suc (zero_run gs)"
| "zero_run _ = 0"

fun longest_run :: "nat list \<Rightarrow> nat \<Rightarrow> nat \<Rightarrow> nat \<times> nat \<Rightarrow> nat \<times> nat" where
  "longest_run gs i 0 best = best"
| "longest_run gs i (Suc k) best =
     (if length gs \<le> i then best
      else
        let l = zero_run (drop i gs) in
        if 0 < l \<and> l > snd best then longest_run gs (i + l + 1) k (i, l)
        else longest_run gs (i + 1) k best)"

definition groups :: "bytes \<Rightarrow> nat list" where
  "groups bs = map (\<lambda>i. unat (bs ! (2 * i)) * 256 + unat (bs ! (2 * i + 1))) [0..<8]"

definition colon_hex :: "nat list \<Rightarrow> string" where
  "colon_hex gs = join '':'' (map hex_of_nat gs)"

definition ip6_String :: "bytes \<Rightarrow> string" where
  "ip6_String bs =
     (let gs = groups bs; (e0, l) = longest_run gs 0 8 (0, 0) in
      if l \<le> 1 then colon_hex gs
      else colon_hex (take e0 gs) @ ''::'' @ colon_hex (drop (e0 + l) gs))"

definition IP_String :: "bytes \<Rightarrow> string" where
  "IP_String ip =
     (if ip = [] then ''<nil>''
      else case To4 (Some ip) of
             Some p4 \<Rightarrow> dotted p4
           | None \<Rightarrow>
               if length ip \<noteq> 16 then CHR ''?'' # concat (map (\<lambda>b. [hex_char (unat b div 16), hex_char (unat b mod 16)]) ip)
               else ip6_String ip)"

section \<open>host:port\<close>

definition SplitHostPort :: "string \<Rightarrow> goerr + string \<times> string" where
  "SplitHostPort hostport =
     (case last_index1 CHR '':'' hostport of
        None \<Rightarrow> Inl (NewErr ''missing port in address'')
      | Some i \<Rightarrow>
          let finish = (\<lambda>host j k.
                if CHR ''['' \<in> set (drop j hostport) then Inl (NewErr ''unexpected [' in address'')
                else if CHR '']'' \<in> set (drop k hostport) then Inl (NewErr ''unexpected ] in address'')
                else Inr (host, drop (i + 1) hostport)) in
          if hd hostport = CHR ''['' then
            (case list_index '']'' hostport of
               None \<Rightarrow> Inl (NewErr ''missing ] in address'')
             | Some e \<Rightarrow>
                 if e + 1 = length hostport then Inl (NewErr ''missing port in address'')
                 else if e + 1 = i then finish (list_slice 1 e hostport) 1 (e + 1)
                 else if hostport ! (e + 1) = CHR '':'' then Inl (NewErr ''too many colons in address'')
                 else Inl (NewErr ''missing port in address''))
          else if CHR '':'' \<in> set (take i hostport) then Inl (NewErr ''too many colons in address'')
          else finish (take i hostport) 0 0)"

definition JoinHostPort :: "string \<Rightarrow> string \<Rightarrow> string" where
  "JoinHostPort host port =
     (if CHR '':'' \<in> set host then ''['' @ host @ '']:'' @ port else host @ '':'' @ port)"

section \<open>Numerals read back\<close>

lemma of_char_digit [simp]: "d < 10 \<Longrightarrow> (of_char (digit_char d) :: nat) = 48 + d"
  by (simp add: digit_char_def)

lemma is_digit_char [simp]: "d < 10 \<Longrightarrow> is_digit (digit_char d)" "d < 10 \<Longrightarrow> digit_val (digit_char d) = d"
  by (simp_all add: is_digit_def digit_val_def)

lemma dec_of_nat_digits: "list_all is_digit (dec_of_nat n)"
proof (induction n rule: dec_of_nat.induct)
  case (1 n)
  then show ?case by (subst dec_of_nat.simps) simp
qed

lemma dec_of_nat_ne [simp]: "dec_of_nat n \<noteq> []"
  by (subst dec_of_nat.simps) simp

lemma nat_of_dec_append: "nat_of_dec (s @ [c]) = nat_of_dec s * 10 + digit_val c"
  by (simp add: nat_of_dec_def)

lemma nat_of_dec_of_nat [simp]: "nat_of_dec (dec_of_nat n) = n"
proof (induction n rule: dec_of_nat.induct)
  case (1 n)
  show ?case
  proof (cases "n < 10")
    case True
    then show ?thesis by (subst dec_of_nat.simps) (simp add: nat_of_dec_def)
  next
    case False
    with 1 show ?thesis by (subst dec_of_nat.simps) (simp add: nat_of_dec_append)
  qed
qed

lemma digit_char_eq_0: "d < 10 \<Longrightarrow> digit_char d = CHR ''0'' \<longleftrightarrow> d = 0"
proof
  assume d: "d < 10" and "digit_char d = CHR ''0''"
  then have "(of_char (digit_char d) :: nat) = of_char (CHR ''0'')" by simp
  with d show "d = 0" by simp
next
  assume "d = 0"
  then show "digit_char d = CHR ''0''"
    using char_of_char [of "CHR ''0''", where ?'a = nat] by (simp add: digit_char_def)
qed

lemma hd_dec_of_nat: "hd (dec_of_nat n) = CHR ''0'' \<longleftrightarrow> n = 0"
proof (induction n rule: dec_of_nat.induct)
  case (1 n)
  show ?case
  proof (cases "n < 10")
    case True
    then show ?thesis by (subst dec_of_nat.simps) (simp add: digit_char_eq_0)
  next
    case False
    with 1 show ?thesis by (subst dec_of_nat.simps) simp
  qed
qed

lemma length_dec_of_nat: "1 < length (dec_of_nat n) \<longleftrightarrow> 10 \<le> n"
  by (subst dec_of_nat.simps) (simp add: not_less)

lemma digits_not: "list_all is_digit s \<Longrightarrow> \<not> is_digit c \<Longrightarrow> c \<notin> set s"
  by (auto simp: list_all_iff)

lemma not_digit [simp]: "\<not> is_digit CHR ''-''" "\<not> is_digit CHR ''+''" "\<not> is_digit CHR '':''" "\<not> is_digit CHR ''.''"
  "\<not> is_digit CHR ''[''" "\<not> is_digit CHR '']''"
  by (simp_all add: is_digit_def)

lemma hd_digits: "hd (dec_of_nat n) \<noteq> c" if "\<not> is_digit c"
  using digits_not [OF dec_of_nat_digits that, of n] hd_in_set [OF dec_of_nat_ne, of n] by auto

theorem Atoi_Itoa: "- (2 ^ 63) \<le> i \<Longrightarrow> i < 2 ^ 63 \<Longrightarrow> Atoi (Itoa i) = Inr i"
  by (auto simp: Atoi_def Itoa_def Let_def dec_of_nat_digits hd_digits not_less)

lemma dtoi_dec: "n < big \<Longrightarrow> rest = [] \<or> \<not> is_digit (hd rest)
    \<Longrightarrow> dtoi (dec_of_nat n @ rest) = Some (n, length (dec_of_nat n))"
proof -
  assume n: "n < big" and r: "rest = [] \<or> \<not> is_digit (hd rest)"
  have "takeWhile is_digit (dec_of_nat n @ rest) = dec_of_nat n"
    using dec_of_nat_digits [of n] r by (cases rest) (auto simp: list_all_iff takeWhile_append)
  with n show ?thesis by (simp add: dtoi_def)
qed

section \<open>Addresses read back\<close>

lemma parseIPv4_loop_step:
  assumes "rest = [] \<or> \<not> is_digit (hd rest)"
  shows "parseIPv4_loop i (Suc k) ((if 0 < i then ''.'' else []) @ dec_of_nat (unat b) @ rest)
    = map_option (\<lambda>(bs, s'). (b # bs, s')) (parseIPv4_loop (Suc i) k rest)"
proof -
  have d: "dtoi (dec_of_nat (unat b) @ rest) = Some (unat b, length (dec_of_nat (unat b)))"
    using dtoi_dec [OF _ assms, of "unat b"] unat_less_256 [of b] by (simp add: big_def)
  have "\<not> (255 < unat b \<or> 1 < length (dec_of_nat (unat b)) \<and> hd (dec_of_nat (unat b)) = CHR ''0'')"
    using length_dec_of_nat [of "unat b"] hd_dec_of_nat [of "unat b"] unat_less_256 [of b] by auto
  with d show ?thesis
    by (cases "parseIPv4_loop (Suc i) k rest") (auto simp: Let_def)
qed

lemma parseIPv4_loop_dotted:
  "bs \<noteq> [] \<Longrightarrow> parseIPv4_loop i (length bs) ((if 0 < i then ''.'' else []) @ dotted bs) = Some (bs, [])"
proof (induction bs arbitrary: i rule: dotted.induct)
  case (2 b)
  then show ?case using parseIPv4_loop_step [of "[]" i 0 b] by simp
next
  case (3 b b' bs)
  have "parseIPv4_loop (Suc i) (length (b' # bs)) (''.'' @ dotted (b' # bs)) = Some (b' # bs, [])"
    using "3.IH" [of "Suc i"] by simp
  then show ?case using parseIPv4_loop_step [of "''.'' @ dotted (b' # bs)" i "length (b' # bs)" b] by simp
qed simp

lemma parseIPv4_dotted: "length bs = 4 \<Longrightarrow> parseIPv4 (dotted bs) = Some (IPv4 bs)"
  using parseIPv4_loop_dotted [of bs 0] by (cases "bs = []") (auto simp: parseIPv4_def)

lemma dotted_chars: "c \<in> set (dotted bs) \<Longrightarrow> is_digit c \<or> c = CHR ''.''"
proof (induction bs rule: dotted.induct)
  case (2 b)
  then show ?case using dec_of_nat_digits [of "unat b"] by (auto simp: list_all_iff)
next
  case (3 b b' bs)
  then show ?case using dec_of_nat_digits [of "unat b"] by (auto simp: list_all_iff)
qed simp

lemma find_append_none: "(\<forall>x\<in>set xs. \<not> P x) \<Longrightarrow> find P (xs @ ys) = find P ys"
  by (induction xs) auto

lemma ParseIP_dotted: "length bs = 4 \<Longrightarrow> ParseIP (dotted bs) = Some (IPv4 bs)"
proof -
  assume l: "length bs = 4"
  then obtain a b bs' where bs: "bs = a # b # bs'" by (auto simp: numeral_eq_Suc length_Suc_conv)
  have "find (\<lambda>c. c = CHR ''.'' \<or> c = CHR '':'') (dec_of_nat (unat a) @ ''.'' @ dotted (b # bs')) = Some CHR ''.''"
    by (subst find_append_none) (use dec_of_nat_digits [of "unat a"] in \<open>auto simp: list_all_iff\<close>)
  then show "ParseIP (dotted bs) = Some (IPv4 bs)"
    using parseIPv4_dotted [OF l] by (simp add: ParseIP_def bs)
qed

section \<open>IPv6 read back\<close>

lemma hex_of_nat_ne [simp]: "hex_of_nat n \<noteq> []"
  by (subst hex_of_nat.simps) simp

lemma hex_of_nat_hex: "\<forall>c\<in>set (hex_of_nat n). hex_val c \<noteq> None"
proof (induction n rule: hex_of_nat.induct)
  case (1 n)
  then show ?case by (subst hex_of_nat.simps) (auto simp: not_less)
qed

lemma nat_of_hex_of_nat [simp]: "nat_of_hex (hex_of_nat n) = n"
proof (induction n rule: hex_of_nat.induct)
  case (1 n)
  show ?case
  proof (cases "n < 16")
    case True
    then show ?thesis by (subst hex_of_nat.simps) (simp add: nat_of_hex_def)
  next
    case False
    with 1 show ?thesis by (subst hex_of_nat.simps) (simp add: nat_of_hex_def)
  qed
qed

lemma colon_not_hex [simp]: "hex_val CHR '':'' = None" "hex_val CHR ''.'' = None"
  by (simp_all add: hex_val_def is_digit_def Let_def)

lemma xtoi_hex:
  assumes "n < 65536" "rest = [] \<or> hd rest = CHR '':''"
  shows "xtoi (hex_of_nat n @ rest) = Some (n, length (hex_of_nat n))"
proof -
  have "takeWhile (\<lambda>c. hex_val c \<noteq> None) (hex_of_nat n @ rest) = hex_of_nat n"
    using hex_of_nat_hex [of n] assms(2) by (cases rest) (auto simp: takeWhile_append)
  with assms(1) show ?thesis by (simp add: xtoi_def big_def)
qed

definition group_bytes :: "nat \<Rightarrow> bytes" where
  "group_bytes g = [word_of_nat (g div 256), word_of_nat g]"

text \<open>One group of the loop.\<close>

lemma parseIPv6_group:
  assumes "g < 65536"
  shows "parseIPv6_loop (Suc k) ip e (hex_of_nat g) = Some (ip @ group_bytes g, e, [])"
    and "c \<noteq> CHR '':'' \<Longrightarrow> parseIPv6_loop (Suc k) ip e (hex_of_nat g @ '':'' @ c # s)
        = parseIPv6_loop k (ip @ group_bytes g) e (c # s)"
    and "parseIPv6_loop (Suc k) ip None (hex_of_nat g @ ''::'') = Some (ip @ group_bytes g, Some (length ip + 2), [])"
    and "s \<noteq> [] \<Longrightarrow> parseIPv6_loop (Suc k) ip None (hex_of_nat g @ ''::'' @ s)
        = parseIPv6_loop k (ip @ group_bytes g) (Some (length ip + 2)) s"
  using xtoi_hex [OF assms, of "[]"] xtoi_hex [OF assms, of "'':'' @ c # s"] xtoi_hex [OF assms, of "''::''"]
    xtoi_hex [OF assms, of "''::'' @ s"] assms
  by (simp_all add: group_bytes_def nth_append Let_def)

declare parseIPv6_loop.simps(2) [simp del]

lemma colon_hex_Cons [simp]:
  "colon_hex [g] = hex_of_nat g" "colon_hex (g # g' # gs) = hex_of_nat g @ '':'' @ colon_hex (g' # gs)"
  by (simp_all add: colon_hex_def)

lemma colon_hex_start: "gs \<noteq> [] \<Longrightarrow> \<exists>c s. colon_hex gs @ rest = c # s \<and> c \<noteq> CHR '':'' \<and> c \<noteq> CHR ''.''"
proof -
  assume "gs \<noteq> []"
  then obtain g gs' where g: "gs = g # gs'" by (cases gs) auto
  obtain c s where h: "hex_of_nat g = c # s" by (cases "hex_of_nat g") auto
  then have "hex_val c \<noteq> None" using hex_of_nat_hex [of g] by simp
  then have "c \<noteq> CHR '':'' \<and> c \<noteq> CHR ''.''" by (metis colon_not_hex)
  with g h show ?thesis by (cases gs') auto
qed

lemma parseIPv6_groups:
  "gs \<noteq> [] \<Longrightarrow> length gs \<le> k \<Longrightarrow> \<forall>g\<in>set gs. g < 65536
    \<Longrightarrow> parseIPv6_loop k ip e (colon_hex gs) = Some (ip @ concat (map group_bytes gs), e, [])"
proof (induction gs arbitrary: k ip)
  case (Cons g gs)
  obtain k' where k: "k = Suc k'" using Cons.prems(2) by (cases k) auto
  show ?case
  proof (cases gs)
    case Nil
    with Cons k show ?thesis by (simp add: parseIPv6_group(1))
  next
    case (Cons g' gs')
    obtain c s where c: "colon_hex gs = c # s" "c \<noteq> CHR '':''"
      using colon_hex_start [of gs "[]"] local.Cons by auto
    have "parseIPv6_loop k ip e (colon_hex (g # gs)) = parseIPv6_loop k' (ip @ group_bytes g) e (colon_hex gs)"
      using parseIPv6_group(2) [OF _ c(2), of g k' ip e s] Cons.prems(3) local.Cons c(1) k by simp
    then show ?thesis using Cons.IH [of k' "ip @ group_bytes g"] Cons.prems k local.Cons by simp
  qed
qed simp

lemma parseIPv6_ellipsis:
  "gs \<noteq> [] \<Longrightarrow> length gs + length hs \<le> k \<Longrightarrow> \<forall>g\<in>set gs \<union> set hs. g < 65536
    \<Longrightarrow> parseIPv6_loop k ip None (colon_hex gs @ ''::'' @ colon_hex hs)
      = Some (ip @ concat (map group_bytes (gs @ hs)), Some (length ip + 2 * length gs), [])"
proof (induction gs arbitrary: k ip)
  case (Cons g gs)
  obtain k' where k: "k = Suc k'" using Cons.prems(2) by (cases k) auto
  show ?case
  proof (cases gs)
    case Nil
    show ?thesis
    proof (cases hs)
      case Nil
      with \<open>gs = []\<close> Cons.prems k show ?thesis by (simp add: parseIPv6_group(3) colon_hex_def)
    next
      case (Cons h hs')
      then have "colon_hex hs \<noteq> []" using colon_hex_start [of hs "[]"] by auto
      with \<open>gs = []\<close> Cons.prems k show ?thesis
        using parseIPv6_groups [of hs k' "ip @ group_bytes g" "Some (length ip + 2)"] local.Cons
          parseIPv6_group(4) [of g "colon_hex hs" k' ip] by simp
    qed
  next
    case (Cons g' gs')
    obtain c s where c: "colon_hex gs @ ''::'' @ colon_hex hs = c # s" "c \<noteq> CHR '':''"
      using colon_hex_start [of gs "''::'' @ colon_hex hs"] local.Cons by auto
    have "parseIPv6_loop k ip None (colon_hex (g # gs) @ ''::'' @ colon_hex hs)
        = parseIPv6_loop k' (ip @ group_bytes g) None (colon_hex gs @ ''::'' @ colon_hex hs)"
      using parseIPv6_group(2) [OF _ c(2), of g k' ip None s] Cons.prems(3) local.Cons c(1) k by simp
    moreover have "length (group_bytes g) = 2" by (simp add: group_bytes_def)
    ultimately show ?thesis using Cons.IH [of k' "ip @ group_bytes g"] Cons.prems k local.Cons by simp
  qed
qed simp

text \<open>The run that is printed as an ellipsis consists of zeros.\<close>

lemma zero_run_take: "take (zero_run gs) gs = replicate (zero_run gs) 0 \<and> zero_run gs \<le> length gs"
  by (induction gs rule: zero_run.induct) auto

definition run_ok :: "nat list \<Rightarrow> nat \<times> nat \<Rightarrow> bool" where
  "run_ok gs r \<longleftrightarrow> fst r + snd r \<le> length gs \<and> take (snd r) (drop (fst r) gs) = replicate (snd r) 0"

lemma longest_run_ok: "run_ok gs best \<Longrightarrow> run_ok gs (longest_run gs i k best)"
proof (induction gs i k best rule: longest_run.induct)
  case (2 gs i k best)
  have "run_ok gs (i, zero_run (drop i gs))" if "i < length gs"
    using zero_run_take [of "drop i gs"] that by (auto simp: run_ok_def)
  with 2 show ?case by (auto simp: Let_def)
qed simp

lemma groups_bounds: "length (groups bs) = 8" "\<forall>g\<in>set (groups bs). g < 65536"
proof -
  have "unat (b :: byte) * 256 + unat (b' :: byte) < 65536" for b b'
    using unat_less_256 [of b] unat_less_256 [of b'] by simp
  then show "length (groups bs) = 8" "\<forall>g\<in>set (groups bs). g < 65536" by (auto simp: groups_def)
qed

lemma group_bytes_pair: "group_bytes (unat (a :: byte) * 256 + unat (b :: byte)) = [a, b]"
proof -
  have "(unat a * 256 + unat b) div 256 = unat a" using unat_less_256 [of b] by simp
  moreover have "(word_of_nat (unat a * 256 + unat b) :: byte) = b"
  proof -
    have z: "(256 :: byte) = 0" by (rule word_uint_eqI) simp
    have "a * 256 = 0" by (subst z) simp
    then show ?thesis by simp
  qed
  ultimately show ?thesis by (simp add: group_bytes_def)
qed

lemma bytes_of_groups: "length bs = 16 \<Longrightarrow> concat (map group_bytes (groups bs)) = bs"
proof -
  assume "length bs = 16"
  then have "concat (map (\<lambda>i. [bs ! (2 * i), bs ! (2 * i + 1)]) [0..<8]) = bs"
    by (intro nth_equalityI) (auto simp: numeral_eq_Suc length_Suc_conv less_Suc_eq)
  then show ?thesis by (simp add: groups_def comp_def group_bytes_pair)
qed

lemma length_group_bytes: "length (concat (map group_bytes gs)) = 2 * length gs"
  by (induction gs) (simp_all add: group_bytes_def)

lemma zero_groups: "concat (replicate n (group_bytes 0)) = replicate (2 * n) 0"
  by (induction n) (simp_all add: group_bytes_def)

lemma parseIPv6_String:
  assumes "length bs = 16"
  shows "parseIPv6 (ip6_String bs) = Some bs"
proof -
  let ?gs = "groups bs"
  obtain e l where r: "longest_run ?gs 0 8 (0, 0) = (e, l)" by fastforce
  have ok: "run_ok ?gs (e, l)" using longest_run_ok [of ?gs "(0, 0)" 0 8] r by (simp add: run_ok_def)
  have len: "length ?gs = 8" "\<forall>g\<in>set ?gs. g < 65536" by (rule groups_bounds)+
  show ?thesis
  proof (cases "l \<le> 1")
    case True
    obtain c s where c: "colon_hex ?gs = c # s" "c \<noteq> CHR '':''"
      using colon_hex_start [of ?gs "[]"] len(1) by force
    have "parseIPv6_loop 8 [] None (colon_hex ?gs) = Some (bs, None, [])"
      using parseIPv6_groups [of ?gs 8 "[]" None] len bytes_of_groups [OF assms] by force
    with True r c assms show ?thesis
      by (simp add: parseIPv6_def ip6_String_def expand_ellipsis_def take_Cons')
  next
    case False
    let ?a = "take e ?gs" and ?b = "drop (e + l) ?gs"
    have gs: "?gs = ?a @ replicate l 0 @ ?b"
      using ok by (metis append_take_drop_id drop_drop add.commute fst_conv run_ok_def snd_conv)
    have bs: "bs = concat (map group_bytes ?a) @ replicate (2 * l) 0 @ concat (map group_bytes ?b)"
      using arg_cong [OF gs, of "\<lambda>g. concat (map group_bytes g)"] bytes_of_groups [OF assms]
      by (simp add: zero_groups del: append_take_drop_id)
    have sz: "length ?a = e" "length ?b = 8 - (e + l)" "e + l \<le> 8"
      using ok len(1) by (auto simp: run_ok_def)
    have small: "\<forall>g\<in>set ?a \<union> set ?b. g < 65536"
      using len(2) by (auto dest: in_set_takeD in_set_dropD)
    let ?ip = "concat (map group_bytes (?a @ ?b))"
    have ip: "length ?ip = 2 * (8 - l)" "length ?ip < 16"
      using sz False by (simp_all only: length_group_bytes length_append) auto
    have ex: "expand_ellipsis ?ip (Some (2 * e)) = Some bs"
    proof -
      have "length (concat (map group_bytes ?a)) = 2 * e" using sz(1) by (simp only: length_group_bytes)
      moreover have "16 - length ?ip = 2 * l" using ip sz(3) by simp
      ultimately show ?thesis using ip(2) by (subst bs) (simp add: expand_ellipsis_def)
    qed
    have str: "ip6_String bs = colon_hex ?a @ ''::'' @ colon_hex ?b"
      using False r by (simp add: ip6_String_def Let_def)
    show ?thesis
    proof (cases "?a = []")
      case True
      then have e: "e = 0" using sz(1) by (simp only: list.size)
      show ?thesis
      proof (cases "?b = []")
        case True
        then have "bs = replicate 16 0" using bs \<open>?a = []\<close> sz e by simp
        moreover have "ip6_String bs = ''::''"
          unfolding str True \<open>?a = []\<close> by (simp add: colon_hex_def)
        moreover have "parseIPv6 ''::'' = Some (replicate 16 0)" by (simp add: parseIPv6_def)
        ultimately show ?thesis by simp
      next
        case False
        then have "colon_hex ?b \<noteq> []" using colon_hex_start [of ?b "[]"] by auto
        moreover have "parseIPv6_loop 8 [] (Some 0) (colon_hex ?b) = Some (?ip, Some 0, [])"
          using parseIPv6_groups [of ?b 8 "[]" "Some 0"] False small sz \<open>?a = []\<close> by simp
        moreover have "ip6_String bs = ''::'' @ colon_hex ?b"
          unfolding str \<open>?a = []\<close> by (simp add: colon_hex_def)
        ultimately show ?thesis
          using ex e by (simp add: parseIPv6_def Let_def)
      qed
    next
      case False
      obtain c s where c: "ip6_String bs = c # s" "c \<noteq> CHR '':''"
        using colon_hex_start [OF False, of "''::'' @ colon_hex ?b"] str by auto
      have "parseIPv6_loop 8 [] None (ip6_String bs) = Some (?ip, Some (2 * e), [])"
        using parseIPv6_ellipsis [OF False, of ?b 8 "[]"] small sz str by simp
      with c ex show ?thesis by (simp add: parseIPv6_def take_Cons')
    qed
  qed
qed

section \<open>Both families\<close>

lemma colon_hex_chars: "c \<in> set (colon_hex gs) \<Longrightarrow> c = CHR '':'' \<or> hex_val c \<noteq> None"
proof (induction gs)
  case (Cons g gs)
  then show ?case using hex_of_nat_hex [of g] by (cases gs) auto
qed (simp add: colon_hex_def)

lemma ip6_String_chars: "c \<in> set (ip6_String bs) \<Longrightarrow> c = CHR '':'' \<or> hex_val c \<noteq> None"
  using colon_hex_chars by (auto simp: ip6_String_def Let_def split: if_splits prod.splits)

lemma ip6_String_colon: "CHR '':'' \<in> set (ip6_String bs)"
proof -
  have "length (groups bs) = 8" by (rule groups_bounds)
  then obtain g h gs where "groups bs = g # h # gs" by (auto simp: numeral_eq_Suc length_Suc_conv)
  then show ?thesis by (cases "longest_run (groups bs) 0 8 (0, 0)") (auto simp: ip6_String_def Let_def)
qed

lemma find_colon:
  "CHR '':'' \<in> set s \<Longrightarrow> CHR ''.'' \<notin> set s \<Longrightarrow> find (\<lambda>c. c = CHR ''.'' \<or> c = CHR '':'') s = Some CHR '':''"
  by (induction s) auto

lemma ParseIP_ip6: "length bs = 16 \<Longrightarrow> ParseIP (ip6_String bs) = Some bs"
proof -
  have "CHR ''.'' \<notin> set (ip6_String bs)" using ip6_String_chars [of "CHR ''.''" bs] by auto
  from find_colon [OF ip6_String_colon this] show "length bs = 16 \<Longrightarrow> ?thesis"
    by (simp add: ParseIP_def parseIPv6_String)
qed

text \<open>The form in which \<open>ParseIP\<close> returns an address: sixteen bytes.\<close>

definition To16 :: "bytes \<Rightarrow> bytes" where
  "To16 ip = (if length ip = 4 then IPv4 ip else ip)"

lemma ParseIP_String: "length ip \<in> {4, 16} \<Longrightarrow> ParseIP (IP_String ip) = Some (To16 ip)"
proof -
  assume l: "length ip \<in> {4, 16}"
  then have ne: "ip \<noteq> []" by auto
  show ?thesis
  proof (cases "To4 (Some ip)")
    case None
    with l have "length ip = 16" by (auto simp: To4_def split: if_splits)
    with ne None show ?thesis by (simp add: IP_String_def ParseIP_ip6 To16_def)
  next
    case (Some p4)
    then have p: "length p4 = 4" "IPv4 p4 = To16 ip"
      using l append_take_drop_id [of 12 ip]
      by (auto simp: To4_def To16_def IPv4_def simp del: append_take_drop_id split: if_splits)
    with ne Some show ?thesis by (simp add: IP_String_def ParseIP_dotted)
  qed
qed

lemma IP_String_chars:
  "length ip \<in> {4, 16} \<Longrightarrow> c \<in> set (IP_String ip) \<Longrightarrow> c = CHR ''.'' \<or> c = CHR '':'' \<or> hex_val c \<noteq> None"
  using dotted_chars [of c] ip6_String_chars [of c ip]
  by (auto simp: IP_String_def hex_val_def is_digit_def Let_def split: option.splits if_splits)

lemma not_hex_bracket [simp]: "hex_val CHR ''['' = None" "hex_val CHR '']'' = None"
  by (simp_all add: hex_val_def is_digit_def Let_def)

section \<open>host:port read back\<close>

lemma list_index_bracket: "CHR '']'' \<notin> set h \<Longrightarrow> list_index '']'' (h @ CHR '']'' # r) = Some (length h)"
  by (induction h) auto

lemma SplitHostPort_Join:
  assumes "CHR ''['' \<notin> set host" "CHR '']'' \<notin> set host"
    "CHR '':'' \<notin> set port" "CHR ''['' \<notin> set port" "CHR '']'' \<notin> set port"
  shows "SplitHostPort (JoinHostPort host port) = Inr (host, port)"
proof (cases "CHR '':'' \<in> set host")
  case True
  have "last_index1 CHR '':'' ((''['' @ host @ '']'') @ CHR '':'' # port) = Some (length (''['' @ host @ '']''))"
    by (rule last_index1_append [OF assms(3)])
  then have i: "last_index1 CHR '':'' (CHR ''['' # host @ CHR '']'' # CHR '':'' # port) = Some (length host + 2)"
    by simp
  have b: "list_index '']'' (CHR ''['' # host @ CHR '']'' # CHR '':'' # port) = Some (Suc (length host))"
    using list_index_bracket [of "CHR ''['' # host" "CHR '':'' # port"] assms(2) by simp
  show ?thesis
    using True assms
    by (simp add: JoinHostPort_def SplitHostPort_def i b del: last_index1.simps list_index.simps)
      (simp add: list_slice_def)
next
  case False
  then have "last_index1 CHR '':'' (host @ CHR '':'' # port) = Some (length host)"
    by (intro last_index1_append assms(3))
  moreover have "hd (host @ CHR '':'' # port) \<noteq> CHR ''[''"
    using assms(1) by (cases host) auto
  ultimately show ?thesis
    using False assms by (simp add: JoinHostPort_def SplitHostPort_def)
qed

lemma Itoa_chars: "c \<in> set (Itoa i) \<Longrightarrow> c = CHR ''-'' \<or> is_digit c"
  using dec_of_nat_digits by (auto simp: Itoa_def list_all_iff split: if_splits)

lemma Split_Join_Itoa:
  "CHR ''['' \<notin> set host \<Longrightarrow> CHR '']'' \<notin> set host \<Longrightarrow> SplitHostPort (JoinHostPort host (Itoa i)) = Inr (host, Itoa i)"
  by (rule SplitHostPort_Join) (auto dest: Itoa_chars)

end
