(* ===== verification/NetAddrText.thy ===== *)
theory NetAddrText
  imports GoNet
begin

text \<open>
  The rest of \<open>netLayer/addr.go\<close>: making an \<open>Addr\<close> from text, from configuration values and
  from the addresses of package net, and printing it. A \<open>net.UDPAddr\<close> or \<open>TCPAddr\<close> is its
  pair of IP and port. The resolver of the system (\<open>net.ResolveUDPAddr\<close> and the like), the random
  source and the attempt to listen on a port are arguments. A configuration value of type
  \<open>any\<close> is a \<open>dest_any\<close>; a floating-point number is given by its exact value, a fraction.
\<close>

type_synonym net_addr = "bytes option \<times> int"

section \<open>Conversions\<close>

definition NewAddrFromUDPAddr :: "net_addr \<Rightarrow> Addr" where
  "NewAddrFromUDPAddr a = zero_Addr\<lparr>IP := fst a, Port := snd a, Network := ''udp''\<rparr>"

definition NewAddrFromTCPAddr :: "net_addr \<Rightarrow> Addr" where
  "NewAddrFromTCPAddr a = zero_Addr\<lparr>IP := fst a, Port := snd a, Network := ''tcp''\<rparr>"

definition set_host :: "string \<Rightarrow> Addr \<Rightarrow> Addr" where
  "set_host host a = (case ParseIP host of Some ip \<Rightarrow> a\<lparr>IP := Some ip\<rparr> | None \<Rightarrow> a\<lparr>Name := host\<rparr>)"

definition NewAddrByHostPort :: "string \<Rightarrow> goerr + Addr" where
  "NewAddrByHostPort hostPortStr =
     (case SplitHostPort hostPortStr of
        Inl e \<Rightarrow> Inl e
      | Inr (host, portStr) \<Rightarrow>
          let host = (if host = [] then ''127.0.0.1'' else host) in
          (case Atoi portStr of
             Inl e \<Rightarrow> Inl e
           | Inr port \<Rightarrow> Inr (set_host host (zero_Addr\<lparr>Port := port\<rparr>))))"

definition NewAddr :: "string \<Rightarrow> goerr + Addr" where
  "NewAddr addrStr =
     (if CHR '':'' \<notin> set addrStr then Inr (zero_Addr\<lparr>Name := addrStr\<rparr>) else NewAddrByHostPort addrStr)"

definition NewAddrByURL :: "string \<Rightarrow> goerr + Addr" where
  "NewAddrByURL addrStr =
     (case list_index ''://'' addrStr of
        None \<Rightarrow> Inl (NewErr ''not a url'')
      | Some indexOfColonSlash \<Rightarrow>
          let network = take indexOfColonSlash addrStr;
              addrStr = drop (indexOfColonSlash + 3) addrStr;
              noPortField = NetworkHasNoPortField network in
          if last_index1 CHR '':'' addrStr = None \<and> \<not> noPortField
          then Inl (NewErr ''unsupported url, no colon'')
          else
            let lastColonIndex = (case last_index1 CHR '':'' addrStr of Some i \<Rightarrow> i | None \<Rightarrow> length addrStr);
                host = take lastColonIndex addrStr in
            (case (if noPortField then Inr 0 else Atoi (drop (lastColonIndex + 1) addrStr)) of
               Inl e \<Rightarrow> Inl e
             | Inr port \<Rightarrow>
                 let host = (if host = [] then ''127.0.0.1'' else host);
                     a = zero_Addr\<lparr>Port := port, Network := network\<rparr>;
                     host = (if has_prefix host ''['' \<and> has_suffix host '']''
                             then trim_right CHR '']'' (trim_left CHR ''['' host) else host) in
                 Inr (set_host host a)))"

datatype dest_any =
    AnyFloat int nat
  | AnyInt int
  | AnySmallInt int
  | AnyUint nat
  | AnySmallUint nat
  | AnyString string
  | AnyTCPAddr net_addr
  | AnyUDPAddr net_addr
  | AnyNetAddr string string
  | AnyOther

text \<open>\<open>AnyFloat n d\<close> is \<open>n/d\<close>. \<open>AnyInt\<close> stands for int64, int and int32, \<open>AnySmallInt\<close> for
  int16 and int8, \<open>AnyUint\<close> for uint64, uint and uint32, \<open>AnySmallUint\<close> for uint16 and uint8;
  \<open>AnyNetAddr\<close> is another \<open>net.Addr\<close>, with what its \<open>Network\<close> and \<open>String\<close> return.\<close>

definition invalid_port :: goerr where "invalid_port = err_text ''Invalid port''"

definition addr_of_port :: "int \<Rightarrow> Addr" where
  "addr_of_port p = zero_Addr\<lparr>IP := Some (IPv4 [127, 0, 0, 1]), Port := p\<rparr>"

definition addr_of_string :: "string \<Rightarrow> goerr + Addr" where
  "addr_of_string value =
     (if value = [] then Inl (err_wrap ''empty string given'' ErrNilParameter)
      else case NewAddrByURL value of
             Inr a \<Rightarrow> Inr a
           | Inl _ \<Rightarrow>
               if CHR '':'' \<in> set value then
                 (case NewAddrByHostPort value of
                    Inr a \<Rightarrow> Inr a
                  | Inl e \<Rightarrow> Inl (err_wrap ''Failed in addr create with given string'' e))
               else Inr (zero_Addr\<lparr>Network := ''unix'', Name := value\<rparr>))"

fun NewAddrFromAny :: "dest_any \<Rightarrow> goerr + Addr" where
  "NewAddrFromAny (AnyFloat n d) =
     (if n > 65535 * int d \<or> n < 0 then Inl invalid_port else Inr (addr_of_port (n div int d)))"
| "NewAddrFromAny (AnyInt n) = (if n > 65535 \<or> n < 0 then Inl invalid_port else Inr (addr_of_port n))"
| "NewAddrFromAny (AnySmallInt n) = Inr (addr_of_port n)"
| "NewAddrFromAny (AnyUint n) = (if n > 65535 then Inl invalid_port else Inr (addr_of_port (int n)))"
| "NewAddrFromAny (AnySmallUint n) = Inr (addr_of_port (int n))"
| "NewAddrFromAny (AnyString s) = addr_of_string s"
| "NewAddrFromAny (AnyTCPAddr a) = Inr (NewAddrFromTCPAddr a)"
| "NewAddrFromAny (AnyUDPAddr a) = Inr (NewAddrFromUDPAddr a)"
| "NewAddrFromAny (AnyNetAddr network s) =
     (case SplitHostPort s of
        Inl e \<Rightarrow> Inl e
      | Inr (host, port) \<Rightarrow>
          (case Atoi port of
             Inl e \<Rightarrow> Inl e
           | Inr p \<Rightarrow> Inr (zero_Addr\<lparr>Network := network, IP := ParseIP host, Port := p\<rparr>)))"
| "NewAddrFromAny AnyOther = Inl (err_text ''Failed in Fallback dest config type'')"

section \<open>Printing\<close>

definition Addr_String :: "Addr \<Rightarrow> string" where
  "Addr_String a =
     (if Network a = ''unix'' then Name a
      else JoinHostPort (case IP a of None \<Rightarrow> Name a | Some ip \<Rightarrow> IP_String ip) (Itoa (Port a)))"

text \<open>\<open>url.PathEscape\<close>: letters, digits and the characters that are allowed in a path segment
  stay.\<close>

definition path_char :: "char \<Rightarrow> bool" where
  "path_char c \<longleftrightarrow> (let n = (of_char c :: nat) in
     is_digit c \<or> 97 \<le> n \<and> n \<le> 122 \<or> 65 \<le> n \<and> n \<le> 90) \<or> c \<in> set ''-_.~$&+:=@''"

definition upper_hex :: "nat \<Rightarrow> char" where
  "upper_hex d = char_of (if d < 10 then 48 + d else 55 + d)"

definition PathEscape :: "string \<Rightarrow> string" where
  "PathEscape s = concat (map (\<lambda>c. if path_char c then [c]
     else [CHR ''%'', upper_hex (of_char c div 16), upper_hex (of_char c mod 16)]) s)"

definition UrlString :: "Addr \<Rightarrow> string" where
  "UrlString a =
     (if Network a \<noteq> [] then
        (if Network a = ''unix'' then Network a @ ''://'' @ PathEscape (Addr_String a)
         else Network a @ ''://'' @ Addr_String a)
      else ''tcp://'' @ Addr_String a)"

definition RawUrlString :: "Addr \<Rightarrow> string" where
  "RawUrlString a = (if Network a \<noteq> [] then Network a @ ''://'' @ Addr_String a else ''tcp://'' @ Addr_String a)"

definition HostStr :: "Addr \<Rightarrow> string" where
  "HostStr a = (case IP a of None \<Rightarrow> Name a | Some ip \<Rightarrow> IP_String ip)"

section \<open>With the resolver\<close>

definition ToUDPAddr :: "(string \<Rightarrow> net_addr option) \<Rightarrow> Addr \<Rightarrow> net_addr option" where
  "ToUDPAddr resolve a = (if IsEmpty a then None else resolve (Addr_String a))"

definition ToTCPAddr :: "(string \<Rightarrow> net_addr option) \<Rightarrow> Addr \<Rightarrow> net_addr option" where
  "ToTCPAddr resolve a = resolve (Addr_String a)"

text \<open>\<open>ParseStrToAddr\<close>: the named results \<open>(atyp, addr, port)\<close> and the error.\<close>

definition ParseUint16 :: "string \<Rightarrow> goerr + nat" where
  "ParseUint16 s =
     (if s = [] \<or> \<not> list_all is_digit s then Inl (NewErr ''invalid syntax'')
      else if 65535 < nat_of_dec s then Inl (NewErr ''value out of range'') else Inr (nat_of_dec s))"

definition ParseStrToAddr :: "string \<Rightarrow> byte \<times> bytes \<times> 16 word \<times> goerr option" where
  "ParseStrToAddr s =
     (case SplitHostPort s of
        Inl e \<Rightarrow> (0, [], 0, Some e)
      | Inr (host, portStr) \<Rightarrow>
          let found =
            (case ParseIP host of
               Some ip \<Rightarrow>
                 (case To4 (Some ip) of
                    Some ip4 \<Rightarrow> Some (AtypIP4, copy_into 4 ip4)
                  | None \<Rightarrow> Some (AtypIP6, copy_into 16 ip))
             | None \<Rightarrow>
                 if length host > 255 then None
                 else Some (AtypDomain, word_of_nat (length host) # bytes_of_string host)) in
          (case found of
             None \<Rightarrow> (0, [], 0, None)
           | Some (atyp, addr) \<Rightarrow>
               (case ParseUint16 portStr of
                  Inl e \<Rightarrow> (atyp, addr, 0, Some e)
                | Inr p \<Rightarrow> (atyp, addr, word_of_nat p, None))))"

definition UDPAddr2AddrPort :: "net_addr option \<Rightarrow> netip_Addr \<times> 16 word" where
  "UDPAddr2AddrPort ua = (case ua of None \<Rightarrow> (InvalidAddr, 0) | Some (ip, port) \<Rightarrow> (AddrFromSlice ip, word_of_int port))"

section \<open>Random ports\<close>

text \<open>\<open>RandPort\<close>: \<open>rnd k\<close> is the \<open>k\<close>-th value of \<open>rand.Intn(randPortBase)\<close>, \<open>free\<close> tells
  whether listening on a port succeeds. Recursion stops at depth 20, with a port that was not
  found free.\<close>

function RandPort :: "(nat \<Rightarrow> nat) \<Rightarrow> (nat \<Rightarrow> bool) \<Rightarrow> bool \<Rightarrow> nat \<Rightarrow> nat" where
  "RandPort rnd free mustValid depth =
     (let p = rnd depth + 4096 in
      if \<not> mustValid then p
      else if \<not> free p then (if depth < 20 then RandPort rnd free mustValid (depth + 1) else p)
      else p)"
  by pat_completeness auto
termination by (relation "measure (\<lambda>(_, _, _, depth). 21 - depth)") auto

declare RandPort.simps [simp del]

definition RandPortStr :: "(nat \<Rightarrow> nat) \<Rightarrow> (nat \<Rightarrow> bool) \<Rightarrow> bool \<Rightarrow> string" where
  "RandPortStr rnd free mustValid = Itoa (int (RandPort rnd free mustValid 0))"

definition GetRandLocalAddr :: "(nat \<Rightarrow> nat) \<Rightarrow> (nat \<Rightarrow> bool) \<Rightarrow> bool \<Rightarrow> string" where
  "GetRandLocalAddr rnd free mustValid = ''0.0.0.0:'' @ RandPortStr rnd free mustValid"

definition GetRandLocalPrivateAddr :: "(nat \<Rightarrow> nat) \<Rightarrow> (nat \<Rightarrow> bool) \<Rightarrow> bool \<Rightarrow> string" where
  "GetRandLocalPrivateAddr rnd free mustValid = ''127.0.0.1:'' @ RandPortStr rnd free mustValid"

section \<open>Printed addresses read back\<close>

text \<open>The addresses whose text can be read back: the port is a Go \<open>int\<close>; an IP has a real length;
  a name is not empty, has no brackets and is not the text of an IP.\<close>

definition text_ok :: "Addr \<Rightarrow> bool" where
  "text_ok a \<longleftrightarrow> - (2 ^ 63) \<le> Port a \<and> Port a < 2 ^ 63 \<and>
     (case IP a of Some ip \<Rightarrow> length ip \<in> {4, 16}
      | None \<Rightarrow> Name a \<noteq> [] \<and> CHR ''['' \<notin> set (Name a) \<and> CHR '']'' \<notin> set (Name a) \<and> ParseIP (Name a) = None)"

text \<open>What is read: no name beside an IP, the IP in its sixteen-byte form.\<close>

definition text_Addr :: "Addr \<Rightarrow> Addr" where
  "text_Addr a = \<lparr>Network = [], Name = (if IP a = None then Name a else []), IP = map_option To16 (IP a), Port = Port a\<rparr>"

lemma HostStr_ok:
  assumes "text_ok a"
  shows "HostStr a \<noteq> []" "CHR ''['' \<notin> set (HostStr a)" "CHR '']'' \<notin> set (HostStr a)"
    "set_host (HostStr a) (zero_Addr\<lparr>Port := Port a\<rparr>) = text_Addr a"
    "set_host (HostStr a) (zero_Addr\<lparr>Port := Port a, Network := n\<rparr>) = (text_Addr a)\<lparr>Network := n\<rparr>"
proof -
  have "HostStr a \<noteq> [] \<and> CHR ''['' \<notin> set (HostStr a) \<and> CHR '']'' \<notin> set (HostStr a) \<and>
    set_host (HostStr a) (zero_Addr\<lparr>Port := Port a\<rparr>) = text_Addr a \<and>
    set_host (HostStr a) (zero_Addr\<lparr>Port := Port a, Network := n\<rparr>) = (text_Addr a)\<lparr>Network := n\<rparr>"
  proof (cases "IP a")
    case None
    with assms show ?thesis by (simp add: text_ok_def HostStr_def set_host_def zero_Addr_def text_Addr_def)
  next
    case (Some ip)
    with assms have l: "length ip \<in> {4, 16}" by (simp add: text_ok_def)
    have p: "ParseIP (IP_String ip) = Some (To16 ip)" by (rule ParseIP_String [OF l])
    have "ParseIP [] = None" by (simp add: ParseIP_def)
    with p have "IP_String ip \<noteq> []" by auto
    moreover have "CHR ''['' \<notin> set (IP_String ip)" "CHR '']'' \<notin> set (IP_String ip)"
      using IP_String_chars [OF l] not_hex_bracket by fastforce+
    ultimately show ?thesis
      using Some p by (simp add: HostStr_def set_host_def zero_Addr_def text_Addr_def)
  qed
  then show "HostStr a \<noteq> []" "CHR ''['' \<notin> set (HostStr a)" "CHR '']'' \<notin> set (HostStr a)"
    "set_host (HostStr a) (zero_Addr\<lparr>Port := Port a\<rparr>) = text_Addr a"
    "set_host (HostStr a) (zero_Addr\<lparr>Port := Port a, Network := n\<rparr>) = (text_Addr a)\<lparr>Network := n\<rparr>" by blast+
qed

lemma Addr_String_host: "Network a \<noteq> ''unix'' \<Longrightarrow> Addr_String a = JoinHostPort (HostStr a) (Itoa (Port a))"
  by (simp add: Addr_String_def HostStr_def)

lemma Atoi_Port: "text_ok a \<Longrightarrow> Atoi (Itoa (Port a)) = Inr (Port a)"
  by (rule Atoi_Itoa) (auto simp: text_ok_def)

text \<open>C20: 
  An address whose network is not a unix socket is read back from its \<open>String\<close>: the same host and
  port, for IPv4 and IPv6 in the form of \<open>IP.String\<close> (the longest run of zero groups written as
  an ellipsis) and for names.
\<close>
theorem host_port_roundtrip:
  assumes "Network a \<noteq> ''unix''" and "text_ok a"
  shows "NewAddrByHostPort (Addr_String a) = Inr (text_Addr a)"
  using assms HostStr_ok [OF assms(2)]
  by (simp add: NewAddrByHostPort_def Addr_String_host Split_Join_Itoa Atoi_Port)

lemma host_port_roundtrip_witness:
  "Addr_String (zero_Addr\<lparr>IP := Some (replicate 15 0 @ [1]), Port := 443\<rparr>) = ''[::1]:443'' \<and>
   NewAddrByHostPort (Addr_String (zero_Addr\<lparr>IP := Some (replicate 15 0 @ [1]), Port := 443\<rparr>))
     = Inr (text_Addr (zero_Addr\<lparr>IP := Some (replicate 15 0 @ [1]), Port := 443\<rparr>))"
proof (rule conjI, goal_cases)
  case 1
  show ?case by code_simp
next
  case 2
  show ?case
    by (rule host_port_roundtrip) (simp_all add: zero_Addr_def text_ok_def)
qed

lemma trim_brackets:
  assumes "h \<noteq> []" "CHR ''['' \<notin> set h" "CHR '']'' \<notin> set h"
  shows "has_prefix h ''['' = False" "trim_right CHR '']'' (trim_left CHR ''['' (''['' @ h @ '']'')) = h"
    "has_prefix (''['' @ h @ '']'') ''[''" "has_suffix (''['' @ h @ '']'') '']''"
proof -
  show "has_prefix h ''['' = False" using assms(1,2) by (cases h) (auto simp: has_prefix_def)
  have "trim_left CHR ''['' (''['' @ h @ '']'') = h @ '']''"
    using assms(1,2) by (cases h) (auto simp: trim_left_def)
  moreover have "trim_right CHR '']'' (h @ '']'') = h"
    using assms(1,3) by (cases h rule: rev_cases) (auto simp: trim_right_def)
  ultimately show "trim_right CHR '']'' (trim_left CHR ''['' (''['' @ h @ '']'')) = h" by simp
  show "has_prefix (''['' @ h @ '']'') ''[''" "has_suffix (''['' @ h @ '']'') '']''"
    by (simp_all add: has_prefix_def has_suffix_def)
qed

lemma list_index_url: "CHR '':'' \<notin> set network \<Longrightarrow> list_index ''://'' (network @ ''://'' @ rest) = Some (length network)"
  by (induction network) auto

lemma NewAddrByURL_host:
  assumes "CHR '':'' \<notin> set network" "\<not> NetworkHasNoPortField network" "host \<noteq> []" "CHR '':'' \<notin> set portStr"
    "Atoi portStr = Inr port"
  shows "NewAddrByURL (network @ ''://'' @ host @ CHR '':'' # portStr) =
    Inr (set_host (if has_prefix host ''['' \<and> has_suffix host '']''
                   then trim_right CHR '']'' (trim_left CHR ''['' host) else host)
           (zero_Addr\<lparr>Port := port, Network := network\<rparr>))"
proof -
  have "last_index1 CHR '':'' (host @ CHR '':'' # portStr) = Some (length host)"
    by (rule last_index1_append [OF assms(4)])
  with assms(2,3,5) show ?thesis
    unfolding NewAddrByURL_def list_index_url [OF assms(1)] by (simp del: Addr.update_convs)
qed

text \<open>
  The same for a URL: \<open>RawUrlString\<close> is read back with its network by \<open>NewAddrByURL\<close>, for every
  network that has a port field; the brackets around an IPv6 host are added and removed.
\<close>
theorem url_roundtrip:
  assumes "text_ok a" and "CHR '':'' \<notin> set (Network a)" and "Network a \<noteq> []"
    and "\<not> NetworkHasNoPortField (Network a)"
  shows "NewAddrByURL (RawUrlString a) = Inr ((text_Addr a)\<lparr>Network := Network a\<rparr>)"
proof -
  let ?h = "HostStr a" and ?p = "Itoa (Port a)"
  note host = HostStr_ok [OF assms(1)]
  have p: "CHR '':'' \<notin> set ?p" by (auto dest: Itoa_chars)
  note url = NewAddrByURL_host [OF assms(2,4) _ p Atoi_Port [OF assms(1)]]
  have "Network a \<noteq> ''unix''"
    using assms(4) by (auto simp: NetworkHasNoPortField_def StrToTransportProtocol_def DualNetworkName_def)
  then have s: "RawUrlString a = Network a @ ''://'' @ JoinHostPort ?h ?p"
    using assms(3) by (simp add: RawUrlString_def Addr_String_host)
  show ?thesis
  proof (cases "CHR '':'' \<in> set ?h")
    case True
    then show ?thesis
      using url [of "''['' @ ?h @ '']''"] trim_brackets [OF host(1-3)] host(5)
      by (simp add: s JoinHostPort_def del: append_Cons append_assoc) simp
  next
    case False
    then show ?thesis
      using url [of ?h] trim_brackets(1) [OF host(1-3)] host(1,5) by (simp add: s JoinHostPort_def)
  qed
qed

lemma url_roundtrip_witness:
  "RawUrlString (zero_Addr\<lparr>Name := ''a.com'', Port := 443, Network := ''tcp''\<rparr>) = ''tcp://a.com:443'' \<and>
   NewAddrByURL (RawUrlString (zero_Addr\<lparr>Name := ''a.com'', Port := 443, Network := ''tcp''\<rparr>))
     = Inr ((text_Addr (zero_Addr\<lparr>Name := ''a.com'', Port := 443, Network := ''tcp''\<rparr>))\<lparr>Network := ''tcp''\<rparr>)"
proof (rule conjI, goal_cases)
  case 1
  show ?case by code_simp
next
  case 2
  have "text_ok (zero_Addr\<lparr>Name := ''a.com'', Port := 443, Network := ''tcp''\<rparr>)" by code_simp
  from url_roundtrip [OF this] show ?case
    by (simp add: zero_Addr_def NetworkHasNoPortField_def StrToTransportProtocol_def TCP_def UNIX_def
        IP_network_def Raw_socket_def)
qed

section \<open>The two parsers agree\<close>

lemma ParseUint16_Atoi: "ParseUint16 s = Inr p \<Longrightarrow> Atoi s = Inr (int p) \<and> p < 65536"
proof -
  assume a: "ParseUint16 s = Inr p"
  then have s: "s \<noteq> []" "list_all is_digit s" "p = nat_of_dec s" "p \<le> 65535"
    by (auto simp: ParseUint16_def split: if_splits)
  then have "is_digit (hd s)" by (cases s) auto
  then have "hd s \<noteq> CHR ''-''" "hd s \<noteq> CHR ''+''" by auto
  with s show ?thesis by (simp add: Atoi_def)
qed

text \<open>
  \<open>ParseStrToAddr\<close> is \<open>NewAddrByHostPort\<close> followed by \<open>AddressBytes\<close>, for a host that is not empty
  and a decimal port below 65536; but a name of more than 255 bytes is no error: the call
  succeeds with type 0, no address and port 0.
\<close>
theorem ParseStrToAddr_agrees:
  assumes "SplitHostPort s = Inr (host, portStr)" and "host \<noteq> []" and "ParseUint16 portStr = Inr p"
  shows "\<exists>a. NewAddrByHostPort s = Inr a \<and> Port a = int p \<and>
    ParseStrToAddr s =
      (if IP a = None \<and> 255 < length (Name a) then (0, [], 0, None)
       else (snd (AddressBytes a), fst (AddressBytes a), word_of_nat p, None))"
proof -
  let ?a = "set_host host (zero_Addr\<lparr>Port := int p\<rparr>)"
  have "NewAddrByHostPort s = Inr ?a"
    using assms ParseUint16_Atoi [OF assms(3)] by (simp add: NewAddrByHostPort_def)
  moreover have "Port ?a = int p" by (simp add: set_host_def split: option.split)
  moreover have "ParseStrToAddr s =
      (if IP ?a = None \<and> 255 < length (Name ?a) then (0, [], 0, None)
       else (snd (AddressBytes ?a), fst (AddressBytes ?a), word_of_nat p, None))"
    using assms(3)
    by (cases "ParseIP host")
      (auto simp: ParseStrToAddr_def assms(1) set_host_def AddressBytes_def zero_Addr_def split: option.splits)
  ultimately show ?thesis by blast
qed

lemma ParseStrToAddr_agrees_witness:
  "\<exists>a. NewAddrByHostPort ''a.com:80'' = Inr a \<and> Port a = int 80 \<and>
    ParseStrToAddr ''a.com:80'' =
      (if IP a = None \<and> 255 < length (Name a) then (0, [], 0, None)
       else (snd (AddressBytes a), fst (AddressBytes a), word_of_nat 80, None))"
proof (rule ParseStrToAddr_agrees)
  show "SplitHostPort ''a.com:80'' = Inr (''a.com'', ''80'')" by (simp add: SplitHostPort_def)
  show "ParseUint16 ''80'' = Inr 80"
    by (simp add: ParseUint16_def nat_of_dec_def digit_val_def is_digit_def)
qed simp

section \<open>Random ports\<close>

lemma RandPort_tries:
  "depth \<le> 20 \<Longrightarrow> (\<exists>k. depth \<le> k \<and> k \<le> 20 \<and> RandPort rnd free True depth = rnd k + 4096 \<and>
     (free (rnd k + 4096) \<or> k = 20) \<and> (\<forall>j. depth \<le> j \<and> j < k \<longrightarrow> \<not> free (rnd j + 4096)))"
proof (induction "20 - depth" arbitrary: depth)
  case 0
  then have "depth = 20" by simp
  then show ?case by (intro exI [of _ 20]) (subst RandPort.simps, auto simp: Let_def)
next
  case (Suc n)
  show ?case
  proof (cases "free (rnd depth + 4096)")
    case True
    then show ?thesis using Suc.prems by (intro exI [of _ depth]) (subst RandPort.simps, auto simp: Let_def)
  next
    case False
    have n: "n = 20 - Suc depth" "Suc depth \<le> 20" using Suc.hyps(2) by auto
    obtain k where k: "Suc depth \<le> k" "k \<le> 20" "RandPort rnd free True (Suc depth) = rnd k + 4096"
      "free (rnd k + 4096) \<or> k = 20" "\<forall>j. Suc depth \<le> j \<and> j < k \<longrightarrow> \<not> free (rnd j + 4096)"
      using Suc.hyps(1) [OF n] by blast
    have "RandPort rnd free True depth = RandPort rnd free True (Suc depth)"
      using False n(2) by (subst RandPort.simps) (simp add: Let_def)
    moreover have "\<forall>j. depth \<le> j \<and> j < k \<longrightarrow> \<not> free (rnd j + 4096)"
      using k(5) False by (metis le_antisym not_less_eq_eq)
    ultimately show ?thesis using k by (intro exI [of _ k]) auto
  qed
qed

text \<open>
  \<open>RandPort\<close> makes at most 21 attempts: with \<open>mustValid\<close> its result is a free port exactly when
  one of the 21 ports that are drawn is free; otherwise it is the last one, although its comment
  says that a valid port is assured.
\<close>
theorem RandPort_free_iff:
  "free (RandPort rnd free True 0) \<longleftrightarrow> (\<exists>k. k \<le> 20 \<and> free (rnd k + 4096))"
proof -
  obtain k where k: "k \<le> 20" "RandPort rnd free True 0 = rnd k + 4096"
    "free (rnd k + 4096) \<or> k = 20" "\<forall>j. j < k \<longrightarrow> \<not> free (rnd j + 4096)"
    using RandPort_tries [of 0 rnd free] by auto
  show ?thesis
  proof (cases "free (rnd k + 4096)")
    case True
    with k show ?thesis by auto
  next
    case False
    with k have "\<not> free (rnd j + 4096)" if "j \<le> 20" for j using that by (cases "j = 20") auto
    with False k show ?thesis by auto
  qed
qed

lemma RandPort_bounds: "(\<And>k. rnd k < base)
    \<Longrightarrow> 4096 \<le> RandPort rnd free mustValid 0 \<and> RandPort rnd free mustValid 0 < base + 4096"
proof -
  assume b: "\<And>k. rnd k < base"
  have "\<exists>k. RandPort rnd free mustValid 0 = rnd k + 4096"
  proof (cases mustValid)
    case True
    then show ?thesis using RandPort_tries [of 0 rnd free] by auto
  next
    case False
    then show ?thesis by (subst RandPort.simps) auto
  qed
  with b show ?thesis by auto
qed

section \<open>Configuration values\<close>

text \<open>
  The port of an address made from a number is in 0..65535 for every type of number except
  int16 and int8, whose negative values pass: \<open>int16(-1)\<close> gives the port -1.
\<close>
theorem NewAddrFromAny_port:
  "(case thing of
      AnySmallInt n \<Rightarrow> NewAddrFromAny thing = Inr (addr_of_port n)
    | AnyFloat n d \<Rightarrow> (case NewAddrFromAny thing of Inr a \<Rightarrow> 0 \<le> Port a \<and> Port a \<le> 65535 \<and> Port a = n div int d
        | Inl e \<Rightarrow> n < 0 \<or> 65535 * int d < n)
    | AnyInt n \<Rightarrow> (case NewAddrFromAny thing of Inr a \<Rightarrow> 0 \<le> Port a \<and> Port a \<le> 65535 \<and> Port a = n
        | Inl e \<Rightarrow> n < 0 \<or> 65535 < n)
    | AnyUint n \<Rightarrow> (case NewAddrFromAny thing of Inr a \<Rightarrow> 0 \<le> Port a \<and> Port a \<le> 65535 \<and> Port a = int n
        | Inl e \<Rightarrow> 65535 < n)
    | _ \<Rightarrow> True)"
proof (cases thing)
  case (AnyFloat n d)
  have "n div int d \<le> 65535" if "n \<le> 65535 * int d" "0 \<le> n"
    using zdiv_mono1 [OF that(1), of "int d"] by (cases "d = 0") auto
  moreover have "0 \<le> n div int d" if "0 \<le> n" using that by (cases "d = 0") (simp_all add: pos_imp_zdiv_nonneg_iff)
  ultimately show ?thesis using AnyFloat by (auto simp: addr_of_port_def zero_Addr_def)
qed (auto simp: addr_of_port_def zero_Addr_def split: if_splits)

end
