(* ===== verification/ProxyShadowsocks.thy ===== *)
theory ProxyShadowsocks
  imports SocksFormat NetAddrText UtilsStrings
begin

text \<open>
  The shadowsocks protocol (proxy/shadowsocks). The cipher is a library: \<open>PickCipher\<close> is an argument, and a stream or a
  packet connection of a cipher carries plain bytes from end to end, so the model sees the plain side. The UDP
  server is one goroutine that reads every datagram and hands it to the channel of its source, and one handler per source;
  their interleavings are the steps of a relation. Logging and deadlines are left out.
\<close>

section \<open>The user\<close>

record MethodPass =
  Method :: string
  mp_Password :: string

text \<open>The result of \<open>InitWithStr\<close> on a fresh value; \<open>None\<close> is the panic of \<open>CommonSplit\<close>.\<close>

definition MethodPass_InitWithStr :: "string \<Rightarrow> (bool \<times> MethodPass) option" where
  "MethodPass_InitWithStr str =
     (case CommonSplit str ''method'' ''pass'' of
        None \<Rightarrow> None
      | Some (ok, potentialMethod, potentialPass) \<Rightarrow>
          Some (if \<not> ok then (False, \<lparr>Method = [], mp_Password = []\<rparr>)
            else if potentialMethod \<noteq> [] \<and> potentialPass \<noteq> [] then (True, \<lparr>Method = potentialMethod, mp_Password = potentialPass\<rparr>)
            else (ok, \<lparr>Method = [], mp_Password = []\<rparr>)))"

definition MethodPass_IdentityStr :: "MethodPass \<Rightarrow> string" where "MethodPass_IdentityStr ph = mp_Password ph"

definition MethodPass_AuthStr :: "MethodPass \<Rightarrow> string" where
  "MethodPass_AuthStr ph = Method ph @ [newline] @ mp_Password ph"

text \<open>\<open>None\<close> is the nil cipher.\<close>

definition initShadowCipher :: "(string \<Rightarrow> string \<Rightarrow> goerr + 'k) \<Rightarrow> MethodPass \<Rightarrow> 'k option" where
  "initShadowCipher PickCipher info =
     (if Method info = [] \<or> mp_Password info = [] then None
      else case PickCipher (ToUpper (Method info)) (mp_Password info) of Inl e \<Rightarrow> None | Inr k \<Rightarrow> Some k)"

section \<open>The address in front of the data\<close>

definition ss_makeWriteBuf :: "bytes \<Rightarrow> Addr \<Rightarrow> bytes" where
  "ss_makeWriteBuf bs addr =
     (case AddressBytes addr of (ab, atype) \<Rightarrow>
        ATypeToSocks5Standard atype # ab @ [byte_shr8 (Port addr), byte_shl8_shr8 (Port addr)] @ bs)"

definition ss_GetAddrFrom :: "('r, byte) rd \<Rightarrow> (nat \<Rightarrow> ('r, bytes) rd) \<Rightarrow> ('r, Addr) rd" where
  "ss_GetAddrFrom =
     socks_GetAddrFrom
       (NewErr ''got ATypDomain but domain lenth is marked to be 0'')
       (invalid_data ''shadowsocks GetAddrFrom err'')
       (invalid_data ''shadowsocks GetAddrFrom, port is zero, which is bad'')
       False"

section \<open>TCP\<close>

text \<open>The client: the slices it writes to the stream of the cipher. The buffer that \<open>makeWriteBuf\<close> builds is dropped, and the one
  written is empty. Without a cipher the call of \<open>StreamConn\<close> panics.\<close>

definition ss_client_Handshake :: "'k option \<Rightarrow> bytes \<Rightarrow> Addr \<Rightarrow> bytes list option" where
  "ss_client_Handshake cipher firstPayload target =
     (case cipher of
        None \<Rightarrow> None
      | Some k \<Rightarrow> (let buf = []; ignored = ss_makeWriteBuf firstPayload target in Some [buf]))"

record ss_handshake =
  ss_target :: Addr
  ss_remain :: bytes
  ss_remain_len :: nat
  ss_user :: MethodPass

text \<open>The server, on the plain stream; \<open>MTU\<close> bytes at most are read for the address.\<close>

definition ss_Handshake :: "'k option \<Rightarrow> MethodPass \<Rightarrow> bytes list \<Rightarrow> ((goerr + ss_handshake) \<times> bytes list) option" where
  "ss_Handshake cipher mp conn =
     (case cipher of
        None \<Rightarrow> None
      | Some k \<Rightarrow> Some
          (case src_Read MTU conn of
             (Inl e, conn') \<Rightarrow> (Inl (err_wrap ''read underlay failed'' e), conn')
           | (Inr readbs, conn') \<Rightarrow>
               (case ss_GetAddrFrom buf_ReadByte buf_Read readbs of
                  (Inl e, _) \<Rightarrow> (Inl (ErrBuffer e readbs), conn')
                | (Inr target, remain) \<Rightarrow>
                    (Inr \<lparr>ss_target = target, ss_remain = remain, ss_remain_len = length remain, ss_user = mp\<rparr>, conn'))))"

definition ss_NewServer :: "(string \<Rightarrow> string \<Rightarrow> goerr + 'k) \<Rightarrow> string \<Rightarrow> (goerr + 'k option \<times> MethodPass) option" where
  "ss_NewServer PickCipher uuidStr =
     (case MethodPass_InitWithStr uuidStr of
        None \<Rightarrow> None
      | Some (ok, mp) \<Rightarrow> Some (if ok then Inr (initShadowCipher PickCipher mp, mp) else Inl ErrNilOrWrongParameter))"

definition ss_NewClient :: "(string \<Rightarrow> string \<Rightarrow> goerr + 'k) \<Rightarrow> string \<Rightarrow> (goerr + 'k option) option" where
  "ss_NewClient PickCipher uuidStr =
     (case MethodPass_InitWithStr uuidStr of
        None \<Rightarrow> None
      | Some (ok, mp) \<Rightarrow> Some (if ok then Inr (initShadowCipher PickCipher mp) else Inl ErrNilOrWrongParameter))"

definition ss_Network :: "string \<Rightarrow> string" where
  "ss_Network TransportLayer = (if TransportLayer = [] then DualNetworkName else TransportLayer)"

definition ss_SelfListen :: "string \<Rightarrow> bool \<times> int" where
  "ss_SelfListen TransportLayer =
     (let n = ss_Network TransportLayer;
          udp = (if n = [] \<or> n = DualNetworkName then 1 else if n = ''tcp'' then 0 else if n = ''udp'' then 1 else 0)
      in (udp > 0, udp))"

section \<open>UDP, client\<close>

definition ss_client_WriteMsg :: "bytes \<Rightarrow> Addr \<Rightarrow> bytes" where
  "ss_client_WriteMsg bs addr = ss_makeWriteBuf bs addr"

definition ss_client_ReadMsg :: "bytes \<Rightarrow> goerr + bytes \<times> Addr" where
  "ss_client_ReadMsg packet =
     (case ss_GetAddrFrom buf_ReadByte buf_Read packet of
        (Inl e, _) \<Rightarrow> Inl e
      | (Inr targetAddr, bs) \<Rightarrow> Inr (bs, targetAddr))"

text \<open>The datagrams sent, \<open>None\<close> for a panic: \<open>underlay\<close> says whether there is an underlying connection, and whether that is a
  packet connection; \<open>dialed\<close> is the result of \<open>DialUDP\<close>.\<close>

definition ss_EstablishUDPChannel :: "bool option \<Rightarrow> goerr option \<Rightarrow> bytes option \<Rightarrow> Addr \<Rightarrow> (goerr + bytes list) option" where
  "ss_EstablishUDPChannel underlay dialed firstPayload target =
     (case (if underlay = Some True then None else dialed) of
        Some e \<Rightarrow> Some (Inl e)
      | None \<Rightarrow>
          if underlay = None then None
          else Some (Inr (case firstPayload of None \<Rightarrow> [] | Some p \<Rightarrow> [ss_client_WriteMsg p target])))"

section \<open>UDP, server\<close>

record ss_msgconn =
  sc_raddr :: dest_any
  sc_hash :: HashableAddr
  sc_readChan :: "(bytes \<times> Addr) list"
  sc_closed :: bool

text \<open>A pointer to a \<open>serverMsgConn\<close> is its position in the list of all that were made. \<open>us_blocked\<close> is the send the listener waits
  in; \<open>us_started\<close> are the calls of \<open>udpFunc\<close>.\<close>

record ss_udp =
  us_map :: "HashableAddr \<rightharpoonup> nat"
  us_conns :: "ss_msgconn list"
  us_started :: "(nat \<times> Addr) list"
  us_blocked :: "(nat \<times> (bytes \<times> Addr)) option"
  us_stopped :: bool

definition ss_udp_init :: ss_udp where
  "ss_udp_init = \<lparr>us_map = Map.empty, us_conns = [], us_started = [], us_blocked = None, us_stopped = False\<rparr>"

definition chan_cap :: nat where "chan_cap = 5"

definition ss_send :: "nat \<Rightarrow> bytes \<times> Addr \<Rightarrow> ss_udp \<Rightarrow> ss_udp" where
  "ss_send c m s =
     (let conn = us_conns s ! c in
      if length (sc_readChan conn) < chan_cap
      then s\<lparr>us_conns := (us_conns s)[c := conn\<lparr>sc_readChan := sc_readChan conn @ [m]\<rparr>]\<rparr>
      else s\<lparr>us_blocked := Some (c, m)\<rparr>)"

text \<open>The connection of a source, made when there is none yet.\<close>

definition ss_session :: "dest_any \<Rightarrow> HashableAddr \<Rightarrow> ss_udp \<Rightarrow> (nat \<times> bool) \<times> ss_udp" where
  "ss_session addr hash s =
     (case us_map s hash of
        Some c \<Rightarrow> ((c, True), s)
      | None \<Rightarrow>
          let c = length (us_conns s) in
          ((c, False), s\<lparr>us_conns := us_conns s @ [\<lparr>sc_raddr = addr, sc_hash = hash, sc_readChan = [], sc_closed = False\<rparr>],
                        us_map := (us_map s)(hash \<mapsto> c)\<rparr>))"

text \<open>One turn of the loop of \<open>StartListen\<close>.\<close>

definition ss_listen :: "dest_any \<Rightarrow> bytes \<Rightarrow> ss_udp \<Rightarrow> ss_udp" where
  "ss_listen addr packet s =
     (case NewAddrFromAny addr of
        Inl e \<Rightarrow> s\<lparr>us_stopped := True\<rparr>
      | Inr ad \<Rightarrow>
          (case ss_session addr (GetHashable ad) s of ((c, found), s) \<Rightarrow>
             (case ss_GetAddrFrom buf_ReadByte buf_Read packet of
                (Inl e, _) \<Rightarrow> s
              | (Inr destAddr, dat) \<Rightarrow>
                  let destAddr = destAddr\<lparr>Network := ''udp''\<rparr>; s = ss_send c (dat, destAddr) s
                  in if found then s else s\<lparr>us_started := us_started s @ [(c, destAddr)]\<rparr>)))"

text \<open>The \<open>select\<close> of \<open>ReadMsg\<close>, for the case that is taken; \<open>None\<close> when it is not ready.\<close>

datatype ss_select = SelClosed | SelTimeout | SelMsg

definition ss_ReadMsg :: "ss_select \<Rightarrow> ss_msgconn \<Rightarrow> ((goerr + bytes \<times> Addr) \<times> ss_msgconn) option" where
  "ss_ReadMsg sel mc =
     (case sel of
        SelClosed \<Rightarrow> if sc_closed mc then Some (Inl io_EOF, mc) else None
      | SelTimeout \<Rightarrow> Some (Inl (NewErr ''i/o timeout''), mc)
      | SelMsg \<Rightarrow> (case sc_readChan mc of [] \<Rightarrow> None | m # ms \<Rightarrow> Some (Inr m, mc\<lparr>sc_readChan := ms\<rparr>)))"

text \<open>After a message is taken the blocked send goes through, when it was for this channel.\<close>

definition ss_unblock :: "nat \<Rightarrow> ss_udp \<Rightarrow> ss_udp" where
  "ss_unblock c s =
     (case us_blocked s of
        Some (c', m) \<Rightarrow>
          if c' = c \<and> length (sc_readChan (us_conns s ! c)) < chan_cap
          then ss_send c m (s\<lparr>us_blocked := None\<rparr>) else s
      | None \<Rightarrow> s)"

definition ss_Close :: "nat \<Rightarrow> ss_udp \<Rightarrow> ss_udp" where
  "ss_Close c s =
     (let mc = us_conns s ! c in
      if sc_closed mc then s
      else s\<lparr>us_conns := (us_conns s)[c := mc\<lparr>sc_closed := True\<rparr>], us_map := (us_map s)(sc_hash mc := None)\<rparr>)"

definition ss_server_WriteMsg :: "nat \<Rightarrow> bytes \<Rightarrow> Addr \<Rightarrow> ss_udp \<Rightarrow> dest_any \<times> bytes" where
  "ss_server_WriteMsg c p addr s = (sc_raddr (us_conns s ! c), ss_makeWriteBuf p addr)"

text \<open>The steps: the listener takes a datagram or fails; a handler that was started reads, gets an error, or closes.\<close>

datatype ss_event = Datagram dest_any bytes | ListenErr | Got nat "bytes \<times> Addr" | GotErr nat | Closed nat

inductive ss_step :: "ss_udp \<Rightarrow> ss_event \<Rightarrow> ss_udp \<Rightarrow> bool" where
  datagram: "us_blocked s = None \<Longrightarrow> \<not> us_stopped s \<Longrightarrow> ss_step s (Datagram addr packet) (ss_listen addr packet s)"
| listen_err: "us_blocked s = None \<Longrightarrow> \<not> us_stopped s \<Longrightarrow> ss_step s ListenErr (s\<lparr>us_stopped := True\<rparr>)"
| got: "c \<in> fst ` set (us_started s) \<Longrightarrow> ss_ReadMsg SelMsg (us_conns s ! c) = Some (Inr m, mc) \<Longrightarrow>
    ss_step s (Got c m) (ss_unblock c (s\<lparr>us_conns := (us_conns s)[c := mc]\<rparr>))"
| got_err: "c \<in> fst ` set (us_started s) \<Longrightarrow> ss_ReadMsg sel (us_conns s ! c) = Some (Inl e, mc) \<Longrightarrow> ss_step s (GotErr c) s"
| closed: "c \<in> fst ` set (us_started s) \<Longrightarrow> ss_step s (Closed c) (ss_Close c s)"

inductive ss_run :: "ss_udp \<Rightarrow> ss_event list \<Rightarrow> ss_udp \<Rightarrow> bool" where
  start: "ss_run s [] s"
| more: "ss_run s tr s' \<Longrightarrow> ss_step s' e s'' \<Longrightarrow> ss_run s (tr @ [e]) s''"

inductive_cases ss_stepE: "ss_step s e s'"

section \<open>Lemmas\<close>

lemma ss_makeWriteBuf_wire: "ss_makeWriteBuf p a = socks_wire a @ p"
  by (simp add: ss_makeWriteBuf_def socks_wire_def split: prod.split)

lemma parses_ss_addr: "dest_ok a \<Longrightarrow> parses (ss_GetAddrFrom buf_ReadByte buf_Read) (socks_wire a) (wire_Addr a)"
  unfolding ss_GetAddrFrom_def by (rule parses_socks_GetAddrFrom)

lemma ss_GetAddrFrom_wire: "dest_ok a \<Longrightarrow> ss_GetAddrFrom buf_ReadByte buf_Read (ss_makeWriteBuf p a) = (Inr (wire_Addr a), p)"
  using parsesD [OF parses_ss_addr] by (simp add: ss_makeWriteBuf_wire)

lemma ss_GetAddrFrom_bad_type:
  "t \<notin> {ATypIP4, ATypDomain, ATypIP6} \<Longrightarrow>
   ss_GetAddrFrom buf_ReadByte buf_Read (t # bs) = (Inl (invalid_data ''shadowsocks GetAddrFrom err''), bs)"
  by (simp add: ss_GetAddrFrom_def socks_GetAddrFrom_def socks_read_host_def rd_bind_def)

text \<open>What a datagram holds, when it is well formed.\<close>

definition ss_decode :: "bytes \<Rightarrow> (bytes \<times> Addr) option" where
  "ss_decode packet =
     (case ss_GetAddrFrom buf_ReadByte buf_Read packet of
        (Inl e, _) \<Rightarrow> None | (Inr a, dat) \<Rightarrow> Some (dat, a\<lparr>Network := ''udp''\<rparr>))"

definition ss_source :: "dest_any \<Rightarrow> HashableAddr option" where
  "ss_source addr = (case NewAddrFromAny addr of Inl e \<Rightarrow> None | Inr ad \<Rightarrow> Some (GetHashable ad))"

lemma ss_listen_eq:
  "ss_listen addr packet s =
     (case ss_source addr of
        None \<Rightarrow> s\<lparr>us_stopped := True\<rparr>
      | Some h \<Rightarrow>
          (case ss_session addr h s of ((c, found), s) \<Rightarrow>
             (case ss_decode packet of
                None \<Rightarrow> s
              | Some m \<Rightarrow> if found then ss_send c m s else (ss_send c m s)\<lparr>us_started := us_started s @ [(c, snd m)]\<rparr>)))"
  by (auto simp: ss_listen_def ss_source_def ss_decode_def ss_send_def Let_def split: sum.split prod.split)

lemma ss_send_simps [simp]:
  "us_map (ss_send c m s) = us_map s" "us_started (ss_send c m s) = us_started s" "us_stopped (ss_send c m s) = us_stopped s"
  "length (us_conns (ss_send c m s)) = length (us_conns s)"
  "sc_hash (us_conns (ss_send c m s) ! i) = sc_hash (us_conns s ! i)"
  "sc_closed (us_conns (ss_send c m s) ! i) = sc_closed (us_conns s ! i)"
proof -
  have "sc_hash (xs[c := (xs ! c)\<lparr>sc_readChan := y\<rparr>] ! i) = sc_hash (xs ! i) \<and>
      sc_closed (xs[c := (xs ! c)\<lparr>sc_readChan := y\<rparr>] ! i) = sc_closed (xs ! i)" for xs :: "ss_msgconn list" and y
    by (cases "c < length xs") (auto simp: nth_list_update list_update_beyond)
  then show "sc_hash (us_conns (ss_send c m s) ! i) = sc_hash (us_conns s ! i)"
    "sc_closed (us_conns (ss_send c m s) ! i) = sc_closed (us_conns s ! i)"
    by (simp_all add: ss_send_def Let_def)
qed (simp_all add: ss_send_def Let_def)

definition ss_inv :: "ss_udp \<Rightarrow> bool" where
  "ss_inv s \<longleftrightarrow>
     (\<forall>h c. us_map s h = Some c \<longleftrightarrow> c < length (us_conns s) \<and> sc_hash (us_conns s ! c) = h \<and> \<not> sc_closed (us_conns s ! c)) \<and>
     fst ` set (us_started s) \<subseteq> {..<length (us_conns s)} \<and>
     (\<forall>c m. us_blocked s = Some (c, m) \<longrightarrow> c < length (us_conns s))"

lemma ss_inv_mapD:
  "ss_inv s \<Longrightarrow> us_map s h = Some c \<longleftrightarrow> c < length (us_conns s) \<and> sc_hash (us_conns s ! c) = h \<and> \<not> sc_closed (us_conns s ! c)"
  by (simp add: ss_inv_def)

lemma ss_inv_rest:
  "ss_inv s \<Longrightarrow> c \<in> fst ` set (us_started s) \<Longrightarrow> c < length (us_conns s)"
  "ss_inv s \<Longrightarrow> us_blocked s = Some (c, m) \<Longrightarrow> c < length (us_conns s)"
  by (auto simp: ss_inv_def)

lemma ss_inv_init: "ss_inv ss_udp_init"
  by (simp add: ss_inv_def ss_udp_init_def)

lemma ss_blocked_send: "us_blocked (ss_send c m s) = (if length (sc_readChan (us_conns s ! c)) < chan_cap then us_blocked s else Some (c, m))"
  by (simp add: ss_send_def Let_def)

lemma ss_inv_send: "ss_inv s \<Longrightarrow> c < length (us_conns s) \<Longrightarrow> ss_inv (ss_send c m s)"
  by (simp add: ss_inv_def ss_blocked_send)

lemma ss_inv_session:
  assumes "ss_inv s" "ss_session addr h s = ((c, found), s')"
  shows "ss_inv s' \<and> c < length (us_conns s') \<and> us_map s' h = Some c \<and> us_started s' = us_started s \<and>
    us_blocked s' = us_blocked s \<and> us_stopped s' = us_stopped s"
proof (cases "us_map s h")
  case (Some d)
  with assms show ?thesis by (auto simp: ss_session_def ss_inv_def)
next
  case None
  with assms(2) have s': "c = length (us_conns s)" "\<not> found"
    "s' = s\<lparr>us_conns := us_conns s @ [\<lparr>sc_raddr = addr, sc_hash = h, sc_readChan = [], sc_closed = False\<rparr>],
        us_map := (us_map s)(h \<mapsto> c)\<rparr>" by (auto simp: ss_session_def Let_def)
  have free: "\<not> (c < length (us_conns s) \<and> sc_hash (us_conns s ! c) = h \<and> \<not> sc_closed (us_conns s ! c))" for c
    using ss_inv_mapD [OF assms(1), of h c] None by simp
  have "ss_inv s'"
    unfolding ss_inv_def
  proof (intro conjI allI)
    fix k d
    show "us_map s' k = Some d \<longleftrightarrow> d < length (us_conns s') \<and> sc_hash (us_conns s' ! d) = k \<and> \<not> sc_closed (us_conns s' ! d)"
      using ss_inv_mapD [OF assms(1), of k d] free [of d] by (auto simp: s' nth_append less_Suc_eq)
  next
    have "fst ` set (us_started s) \<subseteq> {..<length (us_conns s)}" using assms(1) by (simp add: ss_inv_def)
    then show "fst ` set (us_started s') \<subseteq> {..<length (us_conns s')}" by (auto simp: s')
  next
    fix d m show "us_blocked s' = Some (d, m) \<longrightarrow> d < length (us_conns s')" using ss_inv_rest(2) [OF assms(1)] by (auto simp: s' less_Suc_eq)
  qed
  with s' show ?thesis by simp
qed

lemma ss_inv_started: "ss_inv s \<Longrightarrow> c < length (us_conns s) \<Longrightarrow> ss_inv (s\<lparr>us_started := us_started s @ [(c, a)]\<rparr>)"
  by (simp add: ss_inv_def)

lemma ss_inv_listen: "ss_inv s \<Longrightarrow> ss_inv (ss_listen addr packet s)"
proof -
  assume inv: "ss_inv s"
  show ?thesis
  proof (cases "ss_source addr")
    case None
    with inv show ?thesis by (simp add: ss_listen_eq ss_inv_def)
  next
    case (Some h)
    obtain c found s' where se: "ss_session addr h s = ((c, found), s')" by (metis prod.exhaust)
    from ss_inv_session [OF inv se] have "ss_inv s'" "c < length (us_conns s')" "us_started s' = us_started s" by auto
    with Some se ss_inv_send ss_inv_started [of "ss_send c m s'" c for m] show ?thesis
      by (auto simp: ss_listen_eq split: option.split)
  qed
qed

lemma ss_inv_update:
  assumes "ss_inv s" "sc_hash mc = sc_hash (us_conns s ! c)" "sc_closed mc = sc_closed (us_conns s ! c)"
  shows "ss_inv (s\<lparr>us_conns := (us_conns s)[c := mc]\<rparr>)"
proof -
  have "sc_hash ((us_conns s)[c := mc] ! d) = sc_hash (us_conns s ! d) \<and> sc_closed ((us_conns s)[c := mc] ! d) = sc_closed (us_conns s ! d)"
    if "d < length (us_conns s)" for d using that assms(2,3) by (cases "d = c") simp_all
  then show ?thesis using assms(1) by (auto simp: ss_inv_def)
qed

lemma ss_inv_unblock: "ss_inv s \<Longrightarrow> ss_inv (ss_unblock c s)"
proof (cases "us_blocked s")
  case (Some cm)
  moreover assume inv: "ss_inv s"
  moreover obtain d m where "cm = (d, m)" by (cases cm)
  moreover have "ss_inv (s\<lparr>us_blocked := None\<rparr>)" using inv by (simp add: ss_inv_def)
  ultimately show ?thesis using ss_inv_rest(2) [OF inv] ss_inv_send [of "s\<lparr>us_blocked := None\<rparr>" c m]
    by (simp add: ss_unblock_def)
qed (simp add: ss_unblock_def)

lemma ss_inv_Close:
  assumes "ss_inv s" "c < length (us_conns s)"
  shows "ss_inv (ss_Close c s)"
proof (cases "sc_closed (us_conns s ! c)")
  case False
  then have s': "ss_Close c s = s\<lparr>us_conns := (us_conns s)[c := (us_conns s ! c)\<lparr>sc_closed := True\<rparr>],
      us_map := (us_map s)(sc_hash (us_conns s ! c) := None)\<rparr>" by (simp add: ss_Close_def Let_def)
  have only: "us_map s (sc_hash (us_conns s ! c)) = Some c" using assms False by (simp add: ss_inv_mapD)
  show ?thesis
    unfolding ss_inv_def
  proof (intro conjI allI)
    fix k d
    show "us_map (ss_Close c s) k = Some d \<longleftrightarrow> d < length (us_conns (ss_Close c s)) \<and>
        sc_hash (us_conns (ss_Close c s) ! d) = k \<and> \<not> sc_closed (us_conns (ss_Close c s) ! d)"
      using ss_inv_mapD [OF assms(1), of k d] only by (cases "d = c"; cases "k = sc_hash (us_conns s ! c)") (auto simp: s')
  next
    have "fst ` set (us_started s) \<subseteq> {..<length (us_conns s)}" using assms(1) by (simp add: ss_inv_def)
    then show "fst ` set (us_started (ss_Close c s)) \<subseteq> {..<length (us_conns (ss_Close c s))}" by (simp add: s')
  next
    fix d m show "us_blocked (ss_Close c s) = Some (d, m) \<longrightarrow> d < length (us_conns (ss_Close c s))"
      using ss_inv_rest(2) [OF assms(1)] by (simp add: s')
  qed
qed (use assms in \<open>simp add: ss_Close_def\<close>)

lemma ss_inv_step: "ss_step s e s' \<Longrightarrow> ss_inv s \<Longrightarrow> ss_inv s'"
proof (induction rule: ss_step.induct)
  case (got c s m mc)
  then have "sc_hash mc = sc_hash (us_conns s ! c)" "sc_closed mc = sc_closed (us_conns s ! c)"
    by (auto simp: ss_ReadMsg_def split: list.splits)
  with got.prems show ?case by (intro ss_inv_unblock ss_inv_update)
next
  case (listen_err s)
  then show ?case by (simp add: ss_inv_def)
qed (auto simp: ss_inv_listen ss_inv_Close ss_inv_rest)

lemma ss_inv_run: "ss_run s tr s' \<Longrightarrow> ss_inv s \<Longrightarrow> ss_inv s'"
  by (induction rule: ss_run.induct) (auto dest: ss_inv_step)

section \<open>Every datagram reaches the handler of its source\<close>

definition ss_got :: "nat \<Rightarrow> ss_event list \<Rightarrow> (bytes \<times> Addr) list" where
  "ss_got c tr = concat (map (\<lambda>e. case e of Got d m \<Rightarrow> if d = c then [m] else [] | _ \<Rightarrow> []) tr)"

text \<open>The well-formed datagrams of a source, decoded, in the order they came.\<close>

definition ss_sent :: "HashableAddr \<Rightarrow> ss_event list \<Rightarrow> (bytes \<times> Addr) list" where
  "ss_sent h tr = concat (map (\<lambda>e. case e of
       Datagram addr packet \<Rightarrow> if ss_source addr = Some h then (case ss_decode packet of None \<Rightarrow> [] | Some m \<Rightarrow> [m]) else []
     | _ \<Rightarrow> []) tr)"

definition ss_waiting :: "nat \<Rightarrow> ss_udp \<Rightarrow> (bytes \<times> Addr) list" where
  "ss_waiting c s = sc_readChan (us_conns s ! c) @ (case us_blocked s of Some (d, m) \<Rightarrow> if d = c then [m] else [] | None \<Rightarrow> [])"

lemma ss_got_snoc: "ss_got c (tr @ [e]) = ss_got c tr @ (case e of Got d m \<Rightarrow> if d = c then [m] else [] | _ \<Rightarrow> [])"
  by (simp add: ss_got_def)

lemma ss_sent_snoc: "ss_sent h (tr @ [e]) = ss_sent h tr @ (case e of
    Datagram addr packet \<Rightarrow> if ss_source addr = Some h then (case ss_decode packet of None \<Rightarrow> [] | Some m \<Rightarrow> [m]) else [] | _ \<Rightarrow> [])"
  by (simp add: ss_sent_def)

lemma ss_waiting_send:
  assumes "us_blocked s = None" "c < length (us_conns s)"
  shows "ss_waiting d (ss_send c m s) = ss_waiting d s @ (if d = c then [m] else [])"
  using assms by (auto simp: ss_waiting_def ss_send_def Let_def nth_list_update)

definition ss_ordered :: "ss_event list \<Rightarrow> ss_udp \<Rightarrow> bool" where
  "ss_ordered tr s \<longleftrightarrow>
     (\<forall>c < length (us_conns s). ss_got c tr @ ss_waiting c s = ss_sent (sc_hash (us_conns s ! c)) tr \<and> \<not> sc_closed (us_conns s ! c)) \<and>
     (\<forall>h. us_map s h = None \<longrightarrow> ss_sent h tr = []) \<and> (\<forall>c. c \<ge> length (us_conns s) \<longrightarrow> ss_got c tr = [])"

lemma ss_waiting_session:
  assumes "ss_session addr h s = ((c, found), s')" "d < length (us_conns s')" "us_blocked s = None"
  shows "if d < length (us_conns s) then ss_waiting d s' = ss_waiting d s \<and> us_conns s' ! d = us_conns s ! d
    else d = c \<and> us_map s h = None \<and> ss_waiting d s' = [] \<and> sc_hash (us_conns s' ! d) = h \<and> \<not> sc_closed (us_conns s' ! d)"
  using assms by (auto simp: ss_session_def ss_waiting_def Let_def nth_append less_Suc_eq split: option.splits)

lemma ss_session_map:
  "ss_session addr h s = ((c, found), s') \<Longrightarrow> us_map s' = (us_map s)(h \<mapsto> c) \<and> length (us_conns s) \<le> length (us_conns s')"
  by (auto simp: ss_session_def Let_def split: option.splits)

lemma ss_ordered_session:
  assumes "ss_ordered tr s" "ss_inv s" "us_blocked s = None" "ss_session addr h s = ((c, found), s')"
  shows "ss_ordered tr s'"
  unfolding ss_ordered_def
proof (intro conjI allI impI)
  fix d assume "d < length (us_conns s')"
  with ss_waiting_session [OF assms(4) this assms(3)] assms(1)
  show "ss_got d tr @ ss_waiting d s' = ss_sent (sc_hash (us_conns s' ! d)) tr" "\<not> sc_closed (us_conns s' ! d)"
    by (auto simp: ss_ordered_def split: if_splits)
qed (use assms(1) ss_session_map [OF assms(4)] in \<open>auto simp: ss_ordered_def split: if_splits\<close>)

lemma ss_ordered_datagram:
  assumes "ss_ordered tr s" "ss_inv s" "us_blocked s = None"
  shows "ss_ordered (tr @ [Datagram addr packet]) (ss_listen addr packet s)"
proof (cases "ss_source addr")
  case None
  with assms(1) show ?thesis by (simp add: ss_listen_eq ss_ordered_def ss_waiting_def ss_got_snoc ss_sent_snoc)
next
  case (Some h)
  obtain c found s' where se: "ss_session addr h s = ((c, found), s')" by (metis prod.exhaust)
  from ss_ordered_session [OF assms se] have o: "ss_ordered tr s'" .
  from ss_inv_session [OF assms(2) se] assms(3)
  have c: "ss_inv s'" "c < length (us_conns s')" "us_map s' h = Some c" "us_blocked s' = None" by auto
  then have hash: "sc_hash (us_conns s' ! d) = h \<longleftrightarrow> d = c" if "d < length (us_conns s')" for d
    using ss_inv_mapD [OF c(1), of h d] ss_inv_mapD [OF c(1), of h c] o that by (auto simp: ss_ordered_def)
  show ?thesis
  proof (cases "ss_decode packet")
    case None
    with Some se o show ?thesis
      by (simp add: ss_listen_eq ss_ordered_def ss_got_snoc ss_sent_snoc)
  next
    case m: (Some m)
    let ?s = "ss_send c m s'"
    have w: "ss_waiting d (?s\<lparr>us_started := x\<rparr>) = ss_waiting d ?s" for d x by (simp add: ss_waiting_def)
    have "ss_ordered (tr @ [Datagram addr packet]) ?s"
      using o c hash m Some ss_waiting_send [OF c(4,2)]
      by (auto simp: ss_ordered_def ss_got_snoc ss_sent_snoc)
    then show ?thesis using Some se m w by (simp add: ss_listen_eq ss_ordered_def)
  qed
qed

lemma ss_ordered_got:
  assumes "ss_ordered tr s" "c < length (us_conns s)" "ss_ReadMsg SelMsg (us_conns s ! c) = Some (Inr m, mc)"
  shows "ss_ordered (tr @ [Got c m]) (ss_unblock c (s\<lparr>us_conns := (us_conns s)[c := mc]\<rparr>))"
proof -
  from assms(3) obtain ms where chan: "sc_readChan (us_conns s ! c) = m # ms" and mc: "mc = (us_conns s ! c)\<lparr>sc_readChan := ms\<rparr>"
    by (auto simp: ss_ReadMsg_def split: list.splits)
  let ?s = "s\<lparr>us_conns := (us_conns s)[c := mc]\<rparr>"
  have w: "(if d = c then [m] else []) @ ss_waiting d (ss_unblock c ?s) = ss_waiting d s" if "d < length (us_conns s)" for d
  proof (cases "us_blocked s")
    case None
    with chan mc assms(2) that show ?thesis by (auto simp: ss_unblock_def ss_waiting_def nth_list_update)
  next
    case (Some bm)
    obtain b m' where bm: "bm = (b, m')" by (cases bm)
    show ?thesis
    proof (cases "b = c \<and> length ms < chan_cap")
      case True
      then have u: "ss_unblock c ?s = ss_send c m' (?s\<lparr>us_blocked := None\<rparr>)" using Some bm mc assms(2) by (simp add: ss_unblock_def)
      have "ss_waiting d (ss_unblock c ?s) = ss_waiting d (?s\<lparr>us_blocked := None\<rparr>) @ (if d = c then [m'] else [])"
        unfolding u by (rule ss_waiting_send) (use assms(2) in simp_all)
      with Some bm True chan mc assms(2) that show ?thesis by (auto simp: ss_waiting_def nth_list_update)
    next
      case False
      then have "ss_unblock c ?s = ?s" using Some bm mc assms(2) by (auto simp: ss_unblock_def)
      with Some bm chan mc assms(2) that show ?thesis by (auto simp: ss_waiting_def nth_list_update)
    qed
  qed
  have same: "us_map (ss_unblock c ?s) = us_map s" "length (us_conns (ss_unblock c ?s)) = length (us_conns s)"
    "sc_hash (us_conns (ss_unblock c ?s) ! d) = sc_hash (us_conns s ! d)"
    "sc_closed (us_conns (ss_unblock c ?s) ! d) = sc_closed (us_conns s ! d)" for d
    using assms(2) mc by (auto simp: ss_unblock_def nth_list_update split: option.splits)
  have "ss_got d (tr @ [Got c m]) @ ss_waiting d (ss_unblock c ?s) = ss_got d tr @ ss_waiting d s" if "d < length (us_conns s)" for d
    using w [OF that] by (auto simp: ss_got_snoc split: if_splits)
  with assms(1,2) show ?thesis unfolding ss_ordered_def same by (auto simp: ss_sent_snoc ss_got_snoc)
qed

lemma ss_run_ordered:
  "ss_run s0 tr s \<Longrightarrow> s0 = ss_udp_init \<Longrightarrow> \<forall>c. Closed c \<notin> set tr \<Longrightarrow> ss_inv s \<and> ss_ordered tr s"
proof (induction rule: ss_run.induct)
  case (start s)
  then show ?case by (simp add: ss_inv_init) (simp add: ss_ordered_def ss_udp_init_def ss_sent_def ss_got_def)
next
  case (more s tr s' e s'')
  then have IH: "ss_inv s'" "ss_ordered tr s'" by auto
  from more(2) IH(1) have "ss_inv s''" by (rule ss_inv_step)
  moreover from more(2) have "ss_ordered (tr @ [e]) s''"
  proof cases
    case (datagram addr packet)
    with IH show ?thesis by (simp add: ss_ordered_datagram)
  next
    case (got c m mc)
    with IH ss_inv_rest(1) [OF IH(1)] show ?thesis by (auto intro!: ss_ordered_got)
  next
    case (closed c)
    with more.prems show ?thesis by auto
  qed (use IH in \<open>auto simp: ss_ordered_def ss_waiting_def ss_got_snoc ss_sent_snoc\<close>)
  ultimately show ?case by blast
qed

section \<open>A source that is never served\<close>

definition ss_dead :: "nat \<Rightarrow> HashableAddr \<Rightarrow> ss_udp \<Rightarrow> bool" where
  "ss_dead c h s \<longleftrightarrow> us_map s h = Some c \<and> c \<notin> fst ` set (us_started s)"

lemma ss_dead_listen:
  assumes "ss_dead c h s" "ss_inv s"
  shows "ss_dead c h (ss_listen addr packet s)"
proof (cases "ss_source addr")
  case None
  with assms show ?thesis by (simp add: ss_listen_eq ss_dead_def)
next
  case (Some k)
  have "c < length (us_conns s)" using assms by (simp add: ss_dead_def ss_inv_mapD)
  with assms(1) Some show ?thesis
    by (cases "us_map s k") (auto simp: ss_listen_eq ss_dead_def ss_session_def Let_def split: option.split)
qed

lemma ss_dead_step: "ss_step s e s' \<Longrightarrow> ss_dead c h s \<Longrightarrow> ss_inv s \<Longrightarrow> ss_dead c h s' \<and> (\<forall>m. e \<noteq> Got c m)"
proof (induction rule: ss_step.induct)
  case (datagram s addr packet)
  then show ?case by (simp add: ss_dead_listen)
next
  case (got d s m mc)
  then have "d \<noteq> c" by (auto simp: ss_dead_def)
  with got show ?case by (auto simp: ss_dead_def ss_unblock_def split: option.split)
next
  case (closed d s)
  then have "d \<noteq> c" "us_map s h = Some c" by (auto simp: ss_dead_def)
  with ss_inv_mapD [OF closed.prems(2), of h d] ss_inv_rest(1) [OF closed.prems(2) closed.hyps] closed.prems(1)
  show ?case by (auto simp: ss_Close_def Let_def ss_dead_def)
qed (simp_all add: ss_dead_def)

lemma ss_dead_run: "ss_run s tr s' \<Longrightarrow> ss_dead c h s \<Longrightarrow> ss_inv s \<Longrightarrow> ss_dead c h s' \<and> (\<forall>m. Got c m \<notin> set tr)"
  by (induction rule: ss_run.induct) (auto dest: ss_dead_step ss_inv_run)

lemma ss_dead_start:
  "ss_inv s \<Longrightarrow> ss_source addr = Some h \<Longrightarrow> us_map s h = None \<Longrightarrow> ss_decode packet = None \<Longrightarrow>
    ss_dead (length (us_conns s)) h (ss_listen addr packet s)"
  by (auto simp: ss_listen_eq ss_session_def Let_def ss_dead_def dest: ss_inv_rest)

text \<open>A listener that waits for a handler that was never started waits for ever.\<close>

lemma ss_stuck_step:
  "ss_step s e s' \<Longrightarrow> us_blocked s = Some (c, m) \<Longrightarrow> c \<notin> fst ` set (us_started s) \<Longrightarrow>
    us_blocked s' = Some (c, m) \<and> us_started s' = us_started s \<and> (\<forall>addr packet. e \<noteq> Datagram addr packet)"
  by (induction rule: ss_step.induct) (auto simp: ss_unblock_def ss_Close_def Let_def)

lemma ss_stuck_run:
  "ss_run s tr s' \<Longrightarrow> us_blocked s = Some (c, m) \<Longrightarrow> c \<notin> fst ` set (us_started s) \<Longrightarrow>
    us_blocked s' = Some (c, m) \<and> us_started s' = us_started s \<and> (\<forall>addr packet. Datagram addr packet \<notin> set tr)"
proof (induction rule: ss_run.induct)
  case (more s tr s' e s'')
  with ss_stuck_step [OF more(2)] show ?case by auto
qed simp

text \<open>The well-formed datagrams of a source whose handler was never started fill its channel, and the sixth blocks.\<close>

lemma ss_fill:
  assumes "ss_inv s" "ss_dead c h s" "us_blocked s = None" "\<not> us_stopped s" "ss_source addr = Some h" "list_all (\<lambda>p. ss_decode p \<noteq> None) ps"
    and "length (sc_readChan (us_conns s ! c)) + length ps \<le> chan_cap"
  shows "let s' = fold (ss_listen addr) ps s in
    ss_run s (map (Datagram addr) ps) s' \<and> ss_inv s' \<and> ss_dead c h s' \<and> us_blocked s' = None \<and> \<not> us_stopped s' \<and>
    length (sc_readChan (us_conns s' ! c)) = length (sc_readChan (us_conns s ! c)) + length ps"
  using assms(6,7)
proof (induction ps rule: rev_induct)
  case Nil
  with assms show ?case by (simp add: ss_run.start)
next
  case (snoc p ps)
  let ?s = "fold (ss_listen addr) ps s"
  from snoc have IH: "ss_run s (map (Datagram addr) ps) ?s" "ss_inv ?s" "ss_dead c h ?s" "us_blocked ?s = None" "\<not> us_stopped ?s"
    "length (sc_readChan (us_conns ?s ! c)) = length (sc_readChan (us_conns s ! c)) + length ps" by (auto simp: Let_def)
  from snoc.prems obtain m where m: "ss_decode p = Some m" by auto
  have room: "length (sc_readChan (us_conns ?s ! c)) < chan_cap" using IH(6) snoc.prems(2) by simp
  have c: "c < length (us_conns ?s)" using IH(2,3) by (simp add: ss_dead_def ss_inv_mapD)
  have "ss_listen addr p ?s = ss_send c m ?s" using IH(3) assms(5) m by (simp add: ss_listen_eq ss_dead_def ss_session_def)
  moreover have "ss_step ?s (Datagram addr p) (ss_listen addr p ?s)" using IH(4,5) by (rule ss_step.datagram)
  moreover have "ss_dead c h (ss_send c m ?s)" using IH(3) by (simp add: ss_dead_def)
  moreover have "length (sc_readChan (us_conns (ss_send c m ?s) ! c)) = Suc (length (sc_readChan (us_conns ?s ! c)))"
    using room c by (simp add: ss_send_def Let_def)
  ultimately show ?case
    using IH room ss_inv_send [OF IH(2) c] ss_run.more [OF IH(1)] by (simp add: ss_blocked_send Let_def)
qed

section \<open>Properties\<close>

text \<open>
  A client that writes the address first, as the protocol wants it, is let in, wherever the stream is cut behind the
  address; the server sees its destination, and what follows is its payload.
\<close>
theorem ss_handshake_roundtrip:
  assumes "dest_ok a"
  shows "\<exists>h conn'. ss_Handshake (Some k) mp ((ss_makeWriteBuf p a) # cs) = Some (Inr h, conn') \<and>
    ss_target h = wire_Addr a \<and> ss_user h = mp \<and> ss_remain h @ concat conn' = p @ concat cs \<and> ss_remain_len h = length (ss_remain h)"
proof -
  let ?h = "socks_wire a"
  have h: "length ?h \<le> MTU" using socks_wire_length [OF assms] by (simp add: MTU_def)
  let ?p = "take (MTU - length ?h) p"
  let ?cs = "if length (?h @ p) \<le> MTU then cs else drop MTU (?h @ p) # cs"
  have "take MTU (?h @ p) = ?h @ ?p" using h by (simp only: take_append take_all)
  with src_Read_first [of MTU "?h @ p" cs] have rd: "src_Read MTU ((?h @ p) # cs) = (Inr (?h @ ?p), ?cs)" by simp
  moreover from src_Read_split [OF rd] have "?p @ concat ?cs = p @ concat cs" by simp
  moreover have "ss_GetAddrFrom buf_ReadByte buf_Read (?h @ ?p) = (Inr (wire_Addr a), ?p)"
    by (rule parsesD [OF parses_ss_addr [OF assms]])
  ultimately show ?thesis by (simp add: ss_Handshake_def ss_makeWriteBuf_wire del: src_Read.simps)
qed

lemma ss_handshake_roundtrip_witness:
  "\<exists>h conn'. ss_Handshake (Some ()) \<lparr>Method = ''m'', mp_Password = ''p''\<rparr> ((ss_makeWriteBuf [1, 2] sample_dest) # [[3]]) = Some (Inr h, conn') \<and>
    ss_target h = wire_Addr sample_dest \<and> ss_remain h @ concat conn' = [1, 2, 3]"
  using ss_handshake_roundtrip [OF sample_dest_ok, of "()" "\<lparr>Method = ''m'', mp_Password = ''p''\<rparr>" "[1, 2]" "[[3]]"] by auto

text \<open>
  The client of this package never sends the destination: whatever the target and the first payload, it writes nothing. The server
  takes the first data of the application for an address, and refuses the connection unless they begin like one.
\<close>
theorem ss_client_sends_no_address:
  assumes "hd d \<notin> {ATypIP4, ATypDomain, ATypIP6}" and "d \<noteq> []" and "length d \<le> MTU"
  shows "\<exists>ws. ss_client_Handshake (Some k) p a = Some ws \<and> concat ws = [] \<and>
    ss_Handshake (Some k) mp (filter (\<lambda>w. w \<noteq> []) ws @ d # ds) = Some (Inl (ErrBuffer (invalid_data ''shadowsocks GetAddrFrom err'') d), ds)"
  using assms by (cases d) (simp_all add: ss_client_Handshake_def Let_def ss_Handshake_def ss_GetAddrFrom_bad_type)

lemma ss_client_sends_no_address_witness:
  "\<exists>ws. ss_client_Handshake (Some ()) [1] sample_dest = Some ws \<and> concat ws = [] \<and>
    ss_Handshake (Some ()) \<lparr>Method = ''m'', mp_Password = ''p''\<rparr> (filter (\<lambda>w. w \<noteq> []) ws @ bytes_of_string ''GET /'' # []) =
      Some (Inl (ErrBuffer (invalid_data ''shadowsocks GetAddrFrom err'') (bytes_of_string ''GET /'')), [])"
  by (rule ss_client_sends_no_address) (simp_all add: bytes_of_string_def char_to_byte_def ATypIP4_def ATypDomain_def ATypIP6_def MTU_def)

text \<open>C28: 
  The UDP server keeps the sources apart and each in order: while no handler closes, what the handler of a connection has got, with what waits
  in its channel and in the listener, is every well-formed datagram of its source, decoded, in the order of arrival, in every
  interleaving of the listener and the handlers.
\<close>
theorem ss_udp_in_order:
  assumes "ss_run ss_udp_init tr s" and "\<forall>c. Closed c \<notin> set tr" and "c < length (us_conns s)"
  shows "ss_got c tr @ ss_waiting c s = ss_sent (sc_hash (us_conns s ! c)) tr"
  using ss_run_ordered [OF assms(1) refl assms(2)] assms(3) by (simp add: ss_ordered_def)

text \<open>
  A source whose first datagram is malformed is never served: its connection is entered in the table, but no handler is started for it then or
  later, so the datagrams that follow go where nobody reads, and the entry is never removed.
\<close>
theorem ss_udp_malformed_first:
  assumes "ss_run ss_udp_init tr s" and "ss_source addr = Some h" and "us_map s h = None" and "ss_decode packet = None"
    and "ss_run (ss_listen addr packet s) tr' s'"
  shows "us_map s' h = Some (length (us_conns s)) \<and> length (us_conns s) \<notin> fst ` set (us_started s') \<and>
    (\<forall>m. Got (length (us_conns s)) m \<notin> set tr')"
  using ss_dead_run [OF assms(5) ss_dead_start [OF _ assms(2-4)] ss_inv_listen] ss_inv_run [OF assms(1) ss_inv_init]
  by (auto simp: ss_dead_def)

lemma ss_run_trans: "ss_run s' tr' s'' \<Longrightarrow> ss_run s tr s' \<Longrightarrow> ss_run s (tr @ tr') s''"
proof (induction rule: ss_run.induct)
  case (more s1 t1 s2 e s3)
  then have "ss_run s ((tr @ t1) @ [e]) s3" by (intro ss_run.more)
  then show ?case by simp
qed simp

lemma ss_run_step: "ss_step s e s' \<Longrightarrow> ss_run s [e] s'"
  using ss_run.more [OF ss_run.start] by simp

lemma ss_hang_lemma:
  assumes "ss_inv s" "us_blocked s = None" "\<not> us_stopped s" "ss_source addr = Some h" "us_map s h = None" "ss_decode bad = None"
    and "list_all (\<lambda>p. ss_decode p \<noteq> None) (ps @ [p])" "length ps = chan_cap"
  shows "let s' = fold (ss_listen addr) (bad # ps @ [p]) s; c = length (us_conns s) in
    ss_run s (map (Datagram addr) (bad # ps @ [p])) s' \<and> (\<exists>m. us_blocked s' = Some (c, m)) \<and> c \<notin> fst ` set (us_started s')"
proof -
  let ?c = "length (us_conns s)" and ?s1 = "ss_listen addr bad s"
  have s1: "ss_inv ?s1" "ss_dead ?c h ?s1" "us_blocked ?s1 = None" "\<not> us_stopped ?s1" "sc_readChan (us_conns ?s1 ! ?c) = []"
    by (rule ss_inv_listen [OF assms(1)], rule ss_dead_start [OF assms(1,4-6)])
      (use assms in \<open>simp_all add: ss_listen_eq ss_session_def Let_def\<close>)
  have "list_all (\<lambda>p. ss_decode p \<noteq> None) ps" "length (sc_readChan (us_conns ?s1 ! ?c)) + length ps \<le> chan_cap"
    using assms(7,8) s1(5) by simp_all
  from ss_fill [OF s1(1-4) assms(4) this] obtain s2 where s2: "fold (ss_listen addr) ps ?s1 = s2"
    "ss_run ?s1 (map (Datagram addr) ps) s2" "ss_inv s2" "ss_dead ?c h s2" "us_blocked s2 = None" "\<not> us_stopped s2"
    "length (sc_readChan (us_conns s2 ! ?c)) = chan_cap"
    using s1(5) assms(8) by (simp add: Let_def)
  obtain m where m: "ss_decode p = Some m" using assms(7) by auto
  have s3: "ss_listen addr p s2 = ss_send ?c m s2" using s2(4) assms(4) m by (simp add: ss_listen_eq ss_dead_def ss_session_def)
  have "ss_run s [Datagram addr bad] ?s1" using assms(2,3) by (intro ss_run_step ss_step.datagram)
  from ss_run_trans [OF s2(2) this] have "ss_run s (Datagram addr bad # map (Datagram addr) ps) s2" by simp
  from ss_run_trans [OF ss_run_step [OF ss_step.datagram [OF s2(5,6), of addr p]] this]
  have "ss_run s (Datagram addr bad # map (Datagram addr) ps @ [Datagram addr p]) (ss_send ?c m s2)" by (simp add: s3)
  with s2 s3 show ?thesis by (simp add: Let_def ss_blocked_send ss_dead_def)
qed

text \<open>
  Seven datagrams stop the UDP server for everybody: after a malformed first datagram, five well-formed ones of the same source fill the channel
  nobody reads, the next blocks the listener, and whatever the handlers do, no datagram of anybody is read again.
\<close>
theorem ss_udp_hangs:
  assumes "ss_run ss_udp_init tr s" and "us_blocked s = None" and "\<not> us_stopped s"
    and "ss_source addr = Some h" and "us_map s h = None" and "ss_decode bad = None"
    and "list_all (\<lambda>p. ss_decode p \<noteq> None) (ps @ [p])" and "length ps = chan_cap"
  shows "ss_run s (map (Datagram addr) (bad # ps @ [p])) (fold (ss_listen addr) (bad # ps @ [p]) s) \<and>
    (ss_run (fold (ss_listen addr) (bad # ps @ [p]) s) tr' s' \<longrightarrow> us_blocked s' \<noteq> None \<and> (\<forall>a q. Datagram a q \<notin> set tr'))"
proof -
  from ss_hang_lemma [OF ss_inv_run [OF assms(1) ss_inv_init] assms(2-8)] obtain m where
    "ss_run s (map (Datagram addr) (bad # ps @ [p])) (fold (ss_listen addr) (bad # ps @ [p]) s)"
    and b: "us_blocked (fold (ss_listen addr) (bad # ps @ [p]) s) = Some (length (us_conns s), m)"
      "length (us_conns s) \<notin> fst ` set (us_started (fold (ss_listen addr) (bad # ps @ [p]) s))"
    unfolding Let_def by blast
  with ss_stuck_run [OF _ b] show ?thesis by blast
qed

text \<open>A datagram arrives as it was sent.\<close>

lemma ss_decode_WriteMsg: "dest_ok a \<Longrightarrow> ss_decode (ss_client_WriteMsg p a) = Some (p, (wire_Addr a)\<lparr>Network := ''udp''\<rparr>)"
  by (simp add: ss_decode_def ss_client_WriteMsg_def ss_GetAddrFrom_wire)

lemma ss_client_ReadMsg_server_WriteMsg:
  "dest_ok a \<Longrightarrow> ss_client_ReadMsg (snd (ss_server_WriteMsg c p a s)) = Inr (p, wire_Addr a)"
  by (simp add: ss_client_ReadMsg_def ss_server_WriteMsg_def ss_GetAddrFrom_wire)

text \<open>A configuration with an empty method is accepted, without a cipher; the first connection then panics. So does a UDP channel
  without an underlying connection.\<close>

lemma ss_empty_method_panics:
  "ss_NewServer PickCipher (''method:'' @ [newline] @ ''pass:x'') = Some (Inr (None, \<lparr>Method = [], mp_Password = []\<rparr>))"
  "ss_Handshake None mp conn = None"
  by (simp_all add: ss_NewServer_def MethodPass_InitWithStr_def CommonSplit_def CommonSplit_strings_def newline_def
      trim_suffix_def has_suffix_def has_prefix_def splitN2_def initShadowCipher_def ss_Handshake_def Let_def)

lemma ss_udp_no_underlay_panics: "ss_EstablishUDPChannel None None p a = None"
  by (simp add: ss_EstablishUDPChannel_def)

text \<open>Examples: a source with an IPv4 address, a datagram with an unknown address type, and one that is well formed.\<close>

definition demo_source :: dest_any where "demo_source = AnyUDPAddr (Some [10, 0, 0, 1], 5000)"

lemma demo_source_hash: "\<exists>h. ss_source demo_source = Some h"
  by (simp add: demo_source_def ss_source_def)

lemma demo_bad: "ss_decode [9] = None"
  by (simp add: ss_decode_def ss_GetAddrFrom_bad_type ATypIP4_def ATypDomain_def ATypIP6_def)

lemma demo_good: "ss_decode (ss_makeWriteBuf [7] sample_dest) = Some ([7], (wire_Addr sample_dest)\<lparr>Network := ''udp''\<rparr>)" 
  by (simp add: ss_decode_def ss_GetAddrFrom_wire sample_dest_ok)

lemma ss_udp_in_order_witness:
  "\<exists>s h. ss_run ss_udp_init [Datagram demo_source (ss_makeWriteBuf [7] sample_dest)] s \<and> ss_source demo_source = Some h \<and>
    ss_got 0 [Datagram demo_source (ss_makeWriteBuf [7] sample_dest)] @ ss_waiting 0 s =
      ss_sent h [Datagram demo_source (ss_makeWriteBuf [7] sample_dest)]"
proof -
  obtain h where h: "ss_source demo_source = Some h" using demo_source_hash by blast
  let ?e = "Datagram demo_source (ss_makeWriteBuf [7] sample_dest)"
  let ?s = "ss_listen demo_source (ss_makeWriteBuf [7] sample_dest) ss_udp_init"
  have run: "ss_run ss_udp_init [?e] ?s" by (intro ss_run_step ss_step.datagram) (simp_all add: ss_udp_init_def)
  have s: "0 < length (us_conns ?s)" "sc_hash (us_conns ?s ! 0) = h"
    using h by (simp_all add: ss_listen_eq demo_good ss_session_def ss_udp_init_def)
  from ss_udp_in_order [OF run _ s(1)] run h s(2) show ?thesis by (intro exI [of _ ?s] exI [of _ h]) simp
qed

lemma ss_udp_hangs_witness:
  "\<exists>s'. ss_run ss_udp_init (map (Datagram demo_source) ([9] # replicate 6 (ss_makeWriteBuf [7] sample_dest))) s' \<and>
    (\<forall>tr' s''. ss_run s' tr' s'' \<longrightarrow> us_blocked s'' \<noteq> None \<and> (\<forall>a q. Datagram a q \<notin> set tr'))"
proof -
  obtain h where h: "ss_source demo_source = Some h" using demo_source_hash by blast
  have "list_all (\<lambda>p. ss_decode p \<noteq> None) (replicate 5 (ss_makeWriteBuf [7] sample_dest) @ [ss_makeWriteBuf [7] sample_dest])"
    by (simp add: demo_good list_all_iff)
  from ss_udp_hangs [OF ss_run.start _ _ h _ demo_bad this] show ?thesis
    by (intro exI [of _ "fold (ss_listen demo_source) ([9] # replicate 5 (ss_makeWriteBuf [7] sample_dest) @ [ss_makeWriteBuf [7] sample_dest]) ss_udp_init"])
      (auto simp: ss_udp_init_def chan_cap_def replicate_append_same eval_nat_numeral)
qed

lemma ss_udp_malformed_first_witness:
  "\<forall>tr' s'. ss_run (ss_listen demo_source [9] ss_udp_init) tr' s' \<longrightarrow> 0 \<notin> fst ` set (us_started s') \<and> (\<forall>m. Got 0 m \<notin> set tr')"
proof -
  obtain h where h: "ss_source demo_source = Some h" using demo_source_hash by blast
  from ss_udp_malformed_first [OF ss_run.start h _ demo_bad] show ?thesis by (auto simp: ss_udp_init_def)
qed

end
