(* ===== verification/HttpRequest.thy ===== *)
theory HttpRequest
  imports GoStrings GoReader UtilsBuffers "HOL-Library.Monad_Syntax"
begin

text \<open>
  \<open>httpLayer/h1_requestfilter.go\<close> and the request reader of \<open>httpLayer/httpLayer.go\<close>: the
  filter that decides whether the first bytes of a connection are an HTTP/1 request, and takes
  method, path, version and headers from it. Every access of the code to the byte slice goes
  through \<open>byte_at\<close> or \<open>bytes_slice\<close>, which are \<open>None\<close> where Go panics. A result is the
  tuple of the function's named results; a failing return keeps what was set before.
\<close>

abbreviation ch :: "char \<Rightarrow> byte" where "ch \<equiv> char_to_byte"

text \<open>\<open>bs[i] == 'a' && bs[i+1] == 'b' && ...\<close>, evaluated from the left.\<close>

fun matches_at :: "bytes \<Rightarrow> nat \<Rightarrow> string \<Rightarrow> bool option" where
  "matches_at bs i [] = Some True"
| "matches_at bs i (c # cs) =
     do { b \<leftarrow> byte_at bs i; if b = ch c then matches_at bs (Suc i) cs else Some False }"

definition MaxParseUrlLen :: nat where "MaxParseUrlLen = 3000"

definition CR :: byte where "CR = 13"
definition LF :: byte where "LF = 10"

definition CRLF :: bytes where "CRLF = [CR, LF]"
definition HeaderENDING :: bytes where "HeaderENDING = CRLF @ CRLF"

definition Fail_tooShort :: int where "Fail_tooShort = 1"
definition Fail_not_for_h2c :: int where "Fail_not_for_h2c = 2"
definition Fail_method_len_wrong :: int where "Fail_method_len_wrong = 3"
definition Fail_unexpected_proxy :: int where "Fail_unexpected_proxy = 4"
definition Fail_space_index_wrong :: int where "Fail_space_index_wrong = 5"
definition Fail_is_11proxy_butNot_11 :: int where "Fail_is_11proxy_butNot_11 = 6"
definition Fail_no_slash :: int where "Fail_no_slash = 7"
definition Fail_earlyLinefeed :: int where "Fail_earlyLinefeed = 8"
definition Fail_firstline_less_than_10 :: int where "Fail_firstline_less_than_10 = 9"
definition Fail_no_endMark :: int where "Fail_no_endMark = -12"

lemmas fail_defs [model_defs] =
  Fail_tooShort_def Fail_not_for_h2c_def Fail_method_len_wrong_def Fail_unexpected_proxy_def
  Fail_space_index_wrong_def Fail_is_11proxy_butNot_11_def Fail_no_slash_def Fail_earlyLinefeed_def
  Fail_firstline_less_than_10_def Fail_no_endMark_def

record RawHeader =
  Head :: bytes
  Value :: bytes

record h1_request =
  h1_version :: string
  h1_method :: string
  h1_path :: string
  h1_headers :: "RawHeader list"
  h1_failreason :: int

definition no_request :: h1_request where
  "no_request = \<lparr>h1_version = [], h1_method = [], h1_path = [], h1_headers = [], h1_failreason = 0\<rparr>"

section \<open>The first line\<close>

text \<open>The method switch: method, \<open>shouldSpaceIndex\<close> and \<open>failreason\<close> after it.\<close>

definition h1_method_of :: "bytes \<Rightarrow> bool \<Rightarrow> (string \<times> nat \<times> int) option" where
  "h1_method_of bs isproxy =
     do {
       b0 \<leftarrow> byte_at bs 0;
       if b0 = ch CHR ''G'' then
         do { m \<leftarrow> matches_at bs 1 ''ET''; Some (if m then (''GET'', 3, 0) else ([], 0, 0)) }
       else if b0 = ch CHR ''P'' then
         do {
           m \<leftarrow> matches_at bs 1 ''UT'';
           if m then Some (''PUT'', 3, 0)
           else do { m \<leftarrow> matches_at bs 1 ''OST''; Some (if m then (''POST'', 4, 0) else ([], 0, 0)) } }
       else if b0 = ch CHR ''H'' then
         do { m \<leftarrow> matches_at bs 1 ''EAD''; Some (if m then (''HEAD'', 4, 0) else ([], 0, 0)) }
       else if b0 = ch CHR ''D'' then
         do { m \<leftarrow> matches_at bs 1 ''ELETE''; Some (if m then (''DELETE'', 6, 0) else ([], 0, 0)) }
       else if b0 = ch CHR ''O'' then
         do { m \<leftarrow> matches_at bs 1 ''PTIONS''; Some (if m then (''OPTIONS'', 7, 0) else ([], 0, 0)) }
       else if b0 = ch CHR ''C'' then
         do { m \<leftarrow> matches_at bs 1 ''ONNECT'';
              Some (if m then (''CONNECT'', 7, if isproxy then 0 else Fail_unexpected_proxy) else ([], 0, 0)) }
       else Some ([], 0, 0) }"

text \<open>The headers, up to the first one that has no colon.\<close>

fun h1_parse_headers :: "bytes list \<Rightarrow> RawHeader list \<times> bool" where
  "h1_parse_headers [] = ([], True)"
| "h1_parse_headers (header # rest) =
     (case splitN2 header [ch CHR '':''] of
        [s0, s1] \<Rightarrow>
          (case h1_parse_headers rest of (hs, ok) \<Rightarrow>
             (\<lparr>Head = trim_left (ch CHR '' '') s0, Value = trim_left (ch CHR '' '') s1\<rparr> # hs, ok))
      | _ \<Rightarrow> ([], False))"

text \<open>The rest of the function once the space after the path is found at \<open>i\<close>.\<close>

definition h1_after_path :: "bytes \<Rightarrow> nat \<Rightarrow> nat \<Rightarrow> h1_request \<Rightarrow> h1_request option" where
  "h1_after_path bs shouldSlashIndex i r =
     (if int (length bs) - int i - 1 < 10 then Some (r\<lparr>h1_failreason := Fail_firstline_less_than_10\<rparr>)
      else do {
        path \<leftarrow> bytes_slice bs shouldSlashIndex i;
        r \<leftarrow> Some (r\<lparr>h1_path := string_of_bytes path\<rparr>);
        http \<leftarrow> bytes_slice bs (i + 1) (i + 5);
        if http \<noteq> bytes_of_string ''HTTP'' then Some (r\<lparr>h1_failreason := 10\<rparr>)
        else do {
          version \<leftarrow> bytes_slice bs (i + 6) (i + 9);
          r \<leftarrow> Some (r\<lparr>h1_version := string_of_bytes version\<rparr>);
          cr \<leftarrow> byte_at bs (i + 9);
          crlf \<leftarrow> (if cr \<noteq> CR then Some False else do { lf \<leftarrow> byte_at bs (i + 10); Some (lf = LF) });
          if \<not> crlf then Some (r\<lparr>h1_failreason := -11\<rparr>)
          else do {
            leftBs \<leftarrow> bytes_slice bs (i + 11) (length bs);
            (case list_index HeaderENDING leftBs of
               None \<Rightarrow> Some (r\<lparr>h1_failreason := Fail_no_endMark\<rparr>)
             | Some indexOfEnding \<Rightarrow>
                 (case h1_parse_headers (split_on (take indexOfEnding leftBs) CRLF) of (hs, ok) \<Rightarrow>
                    Some (if ok then r\<lparr>h1_headers := hs\<rparr>
                          else r\<lparr>h1_headers := hs, h1_failreason := -13\<rparr>))) } } })"

text \<open>The loop over the indices from \<open>shouldSlashIndex\<close> to \<open>last\<close>.\<close>

fun h1_scan :: "bytes \<Rightarrow> nat \<Rightarrow> nat \<Rightarrow> nat list \<Rightarrow> h1_request \<Rightarrow> h1_request option" where
  "h1_scan bs shouldSlashIndex limit [] r = Some (r\<lparr>h1_failreason := int limit\<rparr>)"
| "h1_scan bs shouldSlashIndex limit (i # is) r =
     do {
       b \<leftarrow> byte_at bs i;
       if b = CR \<or> b = LF then Some (r\<lparr>h1_failreason := Fail_earlyLinefeed\<rparr>)
       else if b = ch CHR '' '' then h1_after_path bs shouldSlashIndex i r
       else h1_scan bs shouldSlashIndex limit is r }"

text \<open>The test of the byte or bytes after the space: \<open>None\<close> inside when it passes.\<close>

definition h1_check_start :: "bytes \<Rightarrow> bool \<Rightarrow> string \<Rightarrow> nat \<Rightarrow> int option option" where
  "h1_check_start bs isproxy method shouldSlashIndex =
     (if isproxy then
        (if method = ''CONNECT'' then Some None
         else do { s \<leftarrow> bytes_slice bs shouldSlashIndex (shouldSlashIndex + 7);
                   Some (if s \<noteq> bytes_of_string ''http://'' then Some Fail_is_11proxy_butNot_11 else None) })
      else do { b \<leftarrow> byte_at bs shouldSlashIndex;
                Some (if b \<noteq> ch CHR ''/'' then Some Fail_no_slash else None) })"

definition ParseH1Request :: "bytes \<Rightarrow> bool \<Rightarrow> h1_request option" where
  "ParseH1Request bs isproxy =
     (if length bs < 16 then Some (no_request\<lparr>h1_failreason := Fail_tooShort\<rparr>)
      else do {
        b4 \<leftarrow> byte_at bs 4;
        if b4 = ch CHR ''*'' then Some (no_request\<lparr>h1_failreason := Fail_not_for_h2c\<rparr>)
        else do {
          b5 \<leftarrow> byte_at bs 5;
          wrong \<leftarrow> (if b5 = ch CHR '' '' then do { b3 \<leftarrow> byte_at bs 3; Some (b3 \<noteq> ch CHR '' '') } else Some False);
          if wrong then Some (no_request\<lparr>h1_failreason := Fail_method_len_wrong\<rparr>)
          else do {
            (method, shouldSpaceIndex, failreason) \<leftarrow> h1_method_of bs isproxy;
            r \<leftarrow> Some (no_request\<lparr>h1_method := method, h1_failreason := failreason\<rparr>);
            badspace \<leftarrow> (if shouldSpaceIndex = 0 then Some True
                        else do { b \<leftarrow> byte_at bs shouldSpaceIndex; Some (b \<noteq> ch CHR '' '') });
            if badspace then Some (r\<lparr>h1_failreason := Fail_space_index_wrong\<rparr>)
            else do {
              start \<leftarrow> h1_check_start bs isproxy method (shouldSpaceIndex + 1);
              (case start of
                 Some f \<Rightarrow> Some (r\<lparr>h1_failreason := f\<rparr>)
               | None \<Rightarrow>
                   (let last = (if \<not> isproxy \<and> length bs > MaxParseUrlLen then MaxParseUrlLen else length bs)
                    in h1_scan bs (shouldSpaceIndex + 1) last [shouldSpaceIndex + 1..<last] r)) } } } })"

section \<open>No access is out of range\<close>

lemma matches_at_eq:
  "i + length cs \<le> length bs \<Longrightarrow> matches_at bs i cs = Some (take (length cs) (drop i bs) = bytes_of_string cs)"
proof (induction cs arbitrary: i)
  case (Cons c cs)
  then have "drop i bs = bs ! i # drop (Suc i) bs" by (simp add: Cons_nth_drop_Suc)
  with Cons show ?case by (simp add: bytes_of_string_def)
qed (simp add: bytes_of_string_def)

text \<open>The methods the filter knows.\<close>

definition h1_methods :: "string list" where
  "h1_methods = [''GET'', ''PUT'', ''POST'', ''HEAD'', ''DELETE'', ''OPTIONS'', ''CONNECT'']"

lemma has_prefix_Cons [simp]: "has_prefix (x # xs) (y # ys) \<longleftrightarrow> x = y \<and> has_prefix xs ys"
  by (auto simp: has_prefix_def)

lemma has_prefix_Nil [simp]: "has_prefix xs []" "has_prefix [] (y # ys) \<longleftrightarrow> False"
  by (simp_all add: has_prefix_def)

lemma ch_inject [simp]: "ch c = ch d \<longleftrightarrow> c = d"
  by (metis char_byte_char)

lemma has_prefix_bytes:
  assumes "bs \<noteq> []"
  shows "has_prefix bs (bytes_of_string (c # cs)) \<longleftrightarrow>
    bs ! 0 = ch c \<and> take (length cs) (drop 1 bs) = bytes_of_string cs"
  using assms by (cases bs) (auto simp: has_prefix_def bytes_of_string_def)

text \<open>What the switch finds, stated without the nesting of the code.\<close>

lemma h1_method_of_eq:
  assumes "7 \<le> length bs"
  shows "h1_method_of bs isproxy = Some (case find (\<lambda>m. has_prefix bs (bytes_of_string m)) h1_methods of
      None \<Rightarrow> ([], 0, 0)
    | Some m \<Rightarrow> (m, length m, if m = ''CONNECT'' \<and> \<not> isproxy then Fail_unexpected_proxy else 0))"
proof -
  from assms have "bs \<noteq> []" by (cases bs) simp_all
  define p where "p cs \<longleftrightarrow> take (length cs) (drop 1 bs) = bytes_of_string cs" for cs
  have m: "matches_at bs 1 cs = Some (p cs)" if "length cs < 7" for cs
    using that assms by (simp add: p_def matches_at_eq)
  have b: "byte_at bs 0 = Some (bs ! 0)" using \<open>bs \<noteq> []\<close> by (simp add: byte_at_def)
  note ms = m [of "''ET''"] m [of "''UT''"] m [of "''OST''"] m [of "''EAD''"] m [of "''ELETE''"]
    m [of "''PTIONS''"] m [of "''ONNECT''"]
  note red = h1_method_of_def h1_methods_def has_prefix_bytes [OF \<open>bs \<noteq> []\<close>] p_def [symmetric] find.simps
    b Option.bind.bind_lunit
  consider "bs ! 0 = ch CHR ''G''" | "bs ! 0 = ch CHR ''P''" | "bs ! 0 = ch CHR ''H''" | "bs ! 0 = ch CHR ''D''"
    | "bs ! 0 = ch CHR ''O''" | "bs ! 0 = ch CHR ''C''"
    | "bs ! 0 \<notin> {ch CHR ''G'', ch CHR ''P'', ch CHR ''H'', ch CHR ''D'', ch CHR ''O'', ch CHR ''C''}"
    by blast
  then show ?thesis
    unfolding red by cases (use ms in \<open>simp_all del: matches_at.simps One_nat_def\<close>)
qed

definition stop_byte :: "byte \<Rightarrow> bool" where
  "stop_byte b \<longleftrightarrow> b = CR \<or> b = LF \<or> b = ch CHR '' ''"

lemma h1_after_path_total: "i < length bs \<Longrightarrow> s \<le> i \<Longrightarrow> h1_after_path bs s i r \<noteq> None"
  by (auto simp: h1_after_path_def split: option.splits prod.splits)

lemma h1_scan_total:
  "list_all (\<lambda>i. s \<le> i \<and> i < length bs) is \<Longrightarrow> h1_scan bs s limit is r \<noteq> None"
  by (induction "is") (auto simp: h1_after_path_total simp del: not_None_eq)

lemma h1_method_len:
  assumes "7 \<le> length bs" "h1_method_of bs isproxy = Some (m, n, f)"
  shows "n \<le> 7 \<and> (n \<noteq> 0 \<longrightarrow> m \<in> set h1_methods \<and> n = length m \<and> has_prefix bs (bytes_of_string m)
    \<and> f = (if m = ''CONNECT'' \<and> \<not> isproxy then Fail_unexpected_proxy else 0))"
proof -
  have "length m \<le> 7" if "m \<in> set h1_methods" for m
    using that by (auto simp: h1_methods_def)
  with assms show ?thesis
    unfolding h1_method_of_eq [OF assms(1)]
    by (auto split: option.splits simp: find_Some_iff in_set_conv_nth)
qed

lemma h1_check_start_total:
  "16 \<le> length bs \<Longrightarrow> n \<le> 7 \<Longrightarrow> h1_check_start bs isproxy m (n + 1) \<noteq> None"
  by (simp add: h1_check_start_def)

text \<open>The function once the length is checked, with the accesses resolved.\<close>

lemma ParseH1Request_long:
  assumes "16 \<le> length bs" "h1_method_of bs isproxy = Some (m, n, f)"
  defines "r \<equiv> no_request\<lparr>h1_method := m, h1_failreason := f\<rparr>"
  shows "ParseH1Request bs isproxy =
    (if bs ! 4 = ch CHR ''*'' then Some (no_request\<lparr>h1_failreason := Fail_not_for_h2c\<rparr>)
     else if bs ! 5 = ch CHR '' '' \<and> bs ! 3 \<noteq> ch CHR '' ''
       then Some (no_request\<lparr>h1_failreason := Fail_method_len_wrong\<rparr>)
     else if n = 0 \<or> bs ! n \<noteq> ch CHR '' '' then Some (r\<lparr>h1_failreason := Fail_space_index_wrong\<rparr>)
     else case the (h1_check_start bs isproxy m (n + 1)) of
         Some f \<Rightarrow> Some (r\<lparr>h1_failreason := f\<rparr>)
       | None \<Rightarrow> (let limit = if \<not> isproxy \<and> length bs > MaxParseUrlLen then MaxParseUrlLen else length bs
                 in h1_scan bs (n + 1) limit [n + 1..<limit] r))"
proof -
  have n: "n \<le> 7" using h1_method_len [OF _ assms(2)] assms(1) by simp
  obtain st where "h1_check_start bs isproxy m (n + 1) = Some st"
    using h1_check_start_total [OF assms(1) n] by blast
  with assms(1) n show ?thesis
    by (simp add: ParseH1Request_def assms(2) r_def split: option.splits)
qed

section \<open>Requests as they are written\<close>

definition header_line :: "RawHeader \<Rightarrow> bytes" where
  "header_line h = Head h @ [ch CHR '':'', ch CHR '' ''] @ Value h"

definition header_ok :: "RawHeader \<Rightarrow> bool" where
  "header_ok h \<longleftrightarrow> ch CHR '':'' \<notin> set (Head h) \<and> CR \<notin> set (Head h) \<and> CR \<notin> set (Value h)
     \<and> take 1 (Head h) \<noteq> [ch CHR '' ''] \<and> take 1 (Value h) \<noteq> [ch CHR '' '']"

definition h1_head :: "string \<Rightarrow> string \<Rightarrow> bytes" where
  "h1_head method path = bytes_of_string method @ ch CHR '' '' # bytes_of_string path @ [ch CHR '' '']"

definition h1_rest :: "string \<Rightarrow> bytes \<Rightarrow> bytes" where
  "h1_rest version left = bytes_of_string ''HTTP/'' @ bytes_of_string version @ CRLF @ left"

definition h1_render :: "string \<Rightarrow> string \<Rightarrow> string \<Rightarrow> RawHeader list \<Rightarrow> bytes \<Rightarrow> bytes" where
  "h1_render method path version headers body =
     h1_head method path @ h1_rest version (join CRLF (map header_line headers) @ HeaderENDING @ body)"

definition path_ok :: "string \<Rightarrow> bool" where
  "path_ok path \<longleftrightarrow> take 1 path = ''/'' \<and> list_all (\<lambda>b. \<not> stop_byte b) (bytes_of_string path)"

lemma splitN2_header:
  "header_ok h \<Longrightarrow> splitN2 (header_line h) [ch CHR '':''] = [Head h, ch CHR '' '' # Value h]"
  by (simp add: header_ok_def header_line_def splitN2_append)

lemma trim_left_id: "take 1 xs \<noteq> [c] \<Longrightarrow> trim_left c xs = xs"
  by (cases xs) (simp_all add: trim_left_def)

lemma trim_left_Cons [simp]: "trim_left c (c # xs) = trim_left c xs"
  by (simp add: trim_left_def)

lemma h1_parse_headers_lines: "list_all header_ok hs \<Longrightarrow> h1_parse_headers (map header_line hs) = (hs, True)"
  by (induction hs) (simp_all add: splitN2_header header_ok_def trim_left_id)

lemma CR_neq [simp]: "CR \<noteq> ch CHR '' ''" "CR \<noteq> ch CHR '':''" "CR \<noteq> LF"
  by (simp_all add: CR_def LF_def char_to_byte_def)

lemma header_line_CR: "header_ok h \<Longrightarrow> CR \<notin> set (header_line h)"
  by (auto simp: header_ok_def header_line_def)

lemma split_headers:
  assumes "list_all header_ok hs" "hs \<noteq> []"
  shows "split_on (join CRLF (map header_line hs)) CRLF = map header_line hs"
  unfolding CRLF_def
  by (rule split_on_join) (use assms in \<open>auto simp: list_all_iff header_line_CR\<close>)

lemma ending_index:
  assumes "list_all (\<lambda>l. CR \<notin> set l \<and> l \<noteq> []) ls" "ls \<noteq> []"
  shows "list_index HeaderENDING (join CRLF ls @ HeaderENDING @ body) = Some (length (join CRLF ls))"
  using assms
proof (induction CRLF ls rule: join.induct)
  case (2 x)
  then show ?case by (simp add: HeaderENDING_def CRLF_def list_index_skip)
next
  case (3 x y ys)
  obtain b y' where y: "join CRLF (y # ys) @ HeaderENDING @ body = b # y'" "b \<noteq> CR"
    using 3(2) by (cases ys; cases y) auto
  from 3 have "list_index HeaderENDING (b # y') = Some (length (join CRLF (y # ys)))"
    by (simp add: y(1) [symmetric])
  with 3(2) y show ?case
    by (auto simp: HeaderENDING_def CRLF_def list_index_skip)
qed simp

section \<open>The scan of the path\<close>

lemma h1_scan_path:
  assumes "list_all (\<lambda>b. \<not> stop_byte b) p" "length pre + length p < limit" "limit \<le> length bs"
    "bs = pre @ p @ ch CHR '' '' # rest"
  shows "h1_scan bs s limit [length pre..<limit] r = h1_after_path bs s (length pre + length p) r"
  using assms
proof (induction p arbitrary: pre)
  case Nil
  then show ?case by (simp add: upt_conv_Cons) (simp add: CR_def LF_def char_to_byte_def nth_append)
next
  case (Cons b p)
  then have "h1_scan bs s limit [length (pre @ [b])..<limit] r
      = h1_after_path bs s (length (pre @ [b]) + length p) r"
    by (intro Cons.IH) simp_all
  with Cons.prems show ?case
    by (simp add: upt_conv_Cons nth_append stop_byte_def)
qed

lemma list_slice_app: "list_slice (length pre + k) (length pre + l) (pre @ xs) = list_slice k l xs"
  by (simp add: list_slice_def)

lemma h1_after_path_render:
  assumes bs: "bs = pre @ ch CHR '' '' # h1_rest version left" and v: "length version = 3"
    and s: "s \<le> length pre"
  shows "h1_after_path bs s (length pre) r =
    (let r = r\<lparr>h1_path := string_of_bytes (drop s pre), h1_version := version\<rparr> in
     case list_index HeaderENDING left of
       None \<Rightarrow> Some (r\<lparr>h1_failreason := Fail_no_endMark\<rparr>)
     | Some k \<Rightarrow>
         (case h1_parse_headers (split_on (take k left) CRLF) of (hs, ok) \<Rightarrow>
            Some (if ok then r\<lparr>h1_headers := hs\<rparr> else r\<lparr>h1_headers := hs, h1_failreason := -13\<rparr>)))"
proof -
  obtain v0 v1 v2 where vv: "version = [v0, v1, v2]"
    using v by (auto simp: numeral_3_eq_3 length_Suc_conv)
  have bs': "bs = pre @ map ch '' HTTP/'' @ map ch version @ CR # LF # left"
    by (simp add: bs h1_rest_def bytes_of_string_def CRLF_def)
  have len: "length bs = length pre + 11 + length left" by (simp add: bs' vv)
  have sl: "list_slice (length pre + k) (length pre + l) bs
      = list_slice k l (map ch '' HTTP/'' @ map ch version @ CR # LF # left)" for k l
    unfolding bs' by (rule list_slice_app)
  have "list_slice s (length pre) bs = drop s pre" using s by (simp add: bs' list_slice_def)
  moreover have "list_slice (length pre + 1) (length pre + 5) bs = bytes_of_string ''HTTP''"
    unfolding sl by (simp add: list_slice_def bytes_of_string_def)
  moreover have "list_slice (length pre + 6) (length pre + 9) bs = bytes_of_string version"
    unfolding sl by (simp add: list_slice_def bytes_of_string_def vv eval_nat_numeral)
  moreover have "list_slice (length pre + 11) (length bs) bs = left"
    by (simp add: list_slice_def bs' vv)
  moreover have "bs ! (length pre + 9) = CR" "bs ! (length pre + 10) = LF"
    by (simp_all add: bs' vv nth_append)
  ultimately show ?thesis
    using s by (simp add: h1_after_path_def len Let_def split: option.splits prod.splits)
qed

lemma h1_start_render:
  assumes "m \<in> set h1_methods" "m \<noteq> ''CONNECT''" "bs = bytes_of_string m @ ch CHR '' '' # ch CHR ''/'' # rest"
    "6 \<le> length rest"
  shows "h1_method_of bs False = Some (m, length m, 0)" "bs ! 4 \<noteq> ch CHR ''*''"
    "bs ! 5 = ch CHR '' '' \<Longrightarrow> bs ! 3 = ch CHR '' ''" "bs ! length m = ch CHR '' ''"
    "h1_check_start bs False m (length m + 1) = Some None" "length m \<noteq> 0"
proof -
  from assms(1,2) have m: "m \<in> {''GET'', ''PUT'', ''POST'', ''HEAD'', ''DELETE'', ''OPTIONS''}"
    by (auto simp: h1_methods_def)
  have "7 \<le> length bs" using assms(3,4) m by auto
  note eq = h1_method_of_eq [OF this, of False]
  show "bs ! length m = ch CHR '' ''"
    using nth_append_length [of "bytes_of_string m"] by (simp add: assms(3))
  have "bs ! (length m + 1) = ch CHR ''/''"
    unfolding assms(3) by (simp only: nth_append length_bytes_of_string) simp
  then show "h1_check_start bs False m (length m + 1) = Some None"
    by (simp add: h1_check_start_def assms(3))
  show "length m \<noteq> 0" using m by auto
  have "find (\<lambda>m. has_prefix bs (bytes_of_string m)) h1_methods = Some m"
    using m unfolding assms(3) h1_methods_def
    by (elim insertE emptyE) (simp_all add: bytes_of_string_def)
  then show "h1_method_of bs False = Some (m, length m, 0)"
    using assms(2) by (simp add: eq)
  show "bs ! 4 \<noteq> ch CHR ''*''" "bs ! 5 = ch CHR '' '' \<Longrightarrow> bs ! 3 = ch CHR '' ''"
    using m unfolding assms(3) by (elim insertE emptyE; simp add: bytes_of_string_def)+
qed

lemma h1_total: "\<exists>r. ParseH1Request bs isproxy = Some r"
proof (cases "16 \<le> length bs")
  case long: True
  obtain m n f where mo: "h1_method_of bs isproxy = Some (m, n, f)"
    using h1_method_of_eq [of bs isproxy] long by (auto split: option.splits)
  have "n \<le> 7" using h1_method_len [OF _ mo] long by simp
  then show ?thesis
    using h1_scan_total [of "n + 1" bs]
    by (auto simp: ParseH1Request_long [OF long mo] Let_def list_all_iff MaxParseUrlLen_def
        simp del: upt_Suc not_None_eq simp flip: not_None_eq split: option.splits)
qed (simp add: ParseH1Request_def)

text \<open>C12: The parser never reads out of range: for any bytes it returns.\<close>

theorem ParseH1Request_no_panic: "\<exists>r. ParseH1Request bs isproxy = Some r"
  by (rule h1_total)

lemma h1_line:
  assumes m: "m \<in> set h1_methods" "m \<noteq> ''CONNECT''" and p: "path_ok path" "length m + length path < 2999"
    and v: "length version = 3" and left: "3 \<le> length left"
  shows "ParseH1Request (h1_head m path @ h1_rest version left) False =
    (let r = no_request\<lparr>h1_method := m, h1_path := path, h1_version := version\<rparr> in
     case list_index HeaderENDING left of
       None \<Rightarrow> Some (r\<lparr>h1_failreason := Fail_no_endMark\<rparr>)
     | Some k \<Rightarrow>
         (case h1_parse_headers (split_on (take k left) CRLF) of (hs, ok) \<Rightarrow>
            Some (if ok then r\<lparr>h1_headers := hs\<rparr> else r\<lparr>h1_headers := hs, h1_failreason := -13\<rparr>)))"
proof -
  define bs where "bs = h1_head m path @ h1_rest version left"
  define pre where "pre = bytes_of_string m @ [ch CHR '' '']"
  define r where "r = no_request\<lparr>h1_method := m, h1_failreason := 0\<rparr>"
  obtain p' where path: "path = CHR ''/'' # p'" using p(1) by (cases path) (auto simp: path_ok_def)
  have bs: "bs = pre @ bytes_of_string path @ ch CHR '' '' # h1_rest version left"
    by (simp add: bs_def h1_head_def pre_def)
  define rest where "rest = bytes_of_string p' @ ch CHR '' '' # h1_rest version left"
  have bs2: "bs = bytes_of_string m @ ch CHR '' '' # ch CHR ''/'' # rest"
    by (simp add: bs pre_def path rest_def bytes_of_string_def)
  have lr: "13 \<le> length (h1_rest version left)" using left by (simp add: h1_rest_def v CRLF_def)
  then have "6 \<le> length rest" by (simp add: rest_def)
  note st = h1_start_render [OF m bs2 this]
  have len: "16 \<le> length bs" "length m + length path + 1 < length bs"
    using lr st(6) by (simp_all add: bs pre_def path)
  define limit where "limit = (if length bs > MaxParseUrlLen then MaxParseUrlLen else length bs)"
  have limit: "length pre + length (bytes_of_string path) < limit" "limit \<le> length bs"
    using p(2) len(2) by (auto simp: limit_def MaxParseUrlLen_def pre_def)
  have "ParseH1Request bs False = h1_scan bs (length pre) limit [length pre..<limit] r"
    using st ParseH1Request_long [OF len(1) st(1)] by (auto simp: limit_def r_def pre_def Let_def)
  also have "\<dots> = h1_after_path bs (length pre) (length (pre @ bytes_of_string path)) r"
    using h1_scan_path [OF _ limit bs] p(1) by (simp add: path_ok_def)
  finally have eq: "ParseH1Request bs False = \<dots>" .
  have "bs = (pre @ bytes_of_string path) @ ch CHR '' '' # h1_rest version left" by (simp add: bs)
  note after = h1_after_path_render [OF this v, of "length pre" r]
  show ?thesis
    unfolding bs_def [symmetric] eq
    by (subst after) (simp_all add: Let_def r_def no_request_def split: option.splits prod.splits)
qed

lemma h1_complete:
  assumes m: "m \<in> set h1_methods" "m \<noteq> ''CONNECT''" and p: "path_ok path" "length m + length path < 2999"
    and v: "length version = 3" and h: "headers \<noteq> []" "list_all header_ok headers"
  shows "ParseH1Request (h1_render m path version headers body) False =
    Some \<lparr>h1_version = version, h1_method = m, h1_path = path, h1_headers = headers, h1_failreason = 0\<rparr>"
proof -
  define hdrs where "hdrs = join CRLF (map header_line headers)"
  have ls: "list_all (\<lambda>l. CR \<notin> set l \<and> l \<noteq> []) (map header_line headers)"
    using h(2) header_line_CR by (fastforce simp: list_all_iff header_line_def)
  have "list_index HeaderENDING (hdrs @ HeaderENDING @ body) = Some (length hdrs)"
    unfolding hdrs_def by (rule ending_index [OF ls]) (simp add: h)
  moreover have "h1_parse_headers (split_on hdrs CRLF) = (headers, True)"
    unfolding hdrs_def split_headers [OF h(2,1)] by (rule h1_parse_headers_lines [OF h(2)])
  moreover have "3 \<le> length (hdrs @ HeaderENDING @ body)" by (simp add: HeaderENDING_def CRLF_def)
  ultimately show ?thesis
    using h1_line [OF m p v, of "hdrs @ HeaderENDING @ body"]
    by (simp add: h1_render_def hdrs_def [symmetric] no_request_def)
qed

text \<open>Every well-formed request, with any method of the filter but \<open>CONNECT\<close> and at least one
  header, is recognised: method, path, version and headers come back as they were written.\<close>

theorem ParseH1Request_complete:
  assumes "m \<in> set h1_methods" "m \<noteq> ''CONNECT''" "path_ok path" "length m + length path < 2999"
    and "length version = 3" "headers \<noteq> []" "list_all header_ok headers"
  shows "ParseH1Request (h1_render m path version headers body) False =
    Some \<lparr>h1_version = version, h1_method = m, h1_path = path, h1_headers = headers, h1_failreason = 0\<rparr>"
  using assms by (rule h1_complete)

definition sample_headers :: "RawHeader list" where
  "sample_headers = [\<lparr>Head = bytes_of_string ''Host'', Value = bytes_of_string ''a.b''\<rparr>]"

lemma sample_ok: "''GET'' \<in> set h1_methods" "''GET'' \<noteq> ''CONNECT''" "path_ok ''/x''"
  "length ''GET'' + length ''/x'' < 2999" "length ''1.1'' = 3" "sample_headers \<noteq> []"
  "list_all header_ok sample_headers"
  by (simp_all add: h1_methods_def path_ok_def stop_byte_def sample_headers_def header_ok_def
      bytes_of_string_def char_to_byte_def CR_def LF_def)

theorem ParseH1Request_complete_witness:
  "ParseH1Request (h1_render ''GET'' ''/x'' ''1.1'' sample_headers [1, 2]) False =
    Some \<lparr>h1_version = ''1.1'', h1_method = ''GET'', h1_path = ''/x'', h1_headers = sample_headers,
          h1_failreason = 0\<rparr>"
  by (rule ParseH1Request_complete [OF sample_ok])

section \<open>Soundness\<close>

lemma h1_after_path_sound:
  assumes "h1_after_path bs s i r = Some r'" "h1_failreason r' = 0" "i < length bs" "s \<le> i"
  shows "h1_failreason r = 0 \<and> h1_method r' = h1_method r \<and> h1_path r' = string_of_bytes (list_slice s i bs)
    \<and> length (h1_version r') = 3
    \<and> (\<exists>x hdrs body. drop (Suc i) bs = bytes_of_string ''HTTP'' @ x # bytes_of_string (h1_version r') @ CRLF
          @ hdrs @ HeaderENDING @ body \<and> h1_parse_headers (split_on hdrs CRLF) = (h1_headers r', True))"
proof -
  from assms obtain k where len: "i + 10 < length bs"
    and http: "list_slice (i + 1) (i + 5) bs = bytes_of_string ''HTTP''"
    and crlf: "bs ! (i + 9) = CR" "bs ! (i + 10) = LF"
    and k: "list_index HeaderENDING (list_slice (i + 11) (length bs) bs) = Some k"
    and r': "r' = r\<lparr>h1_path := string_of_bytes (list_slice s i bs),
        h1_version := string_of_bytes (list_slice (i + 6) (i + 9) bs),
        h1_headers := fst (h1_parse_headers (split_on (take k (list_slice (i + 11) (length bs) bs)) CRLF))\<rparr>"
    and ok: "snd (h1_parse_headers (split_on (take k (list_slice (i + 11) (length bs) bs)) CRLF))"
    by (auto simp: h1_after_path_def fail_defs split: if_splits option.splits prod.splits)
  define left where "left = list_slice (i + 11) (length bs) bs"
  have "drop (Suc i) bs = list_slice (i + 1) (i + 5) bs @ [bs ! (i + 5)] @ list_slice (i + 6) (i + 9) bs
      @ [bs ! (i + 9), bs ! (i + 10)] @ left"
  proof -
    have "drop (i + 5) bs = bs ! (i + 5) # drop (i + 6) bs"
      "drop (i + 9) bs = bs ! (i + 9) # drop (i + 10) bs"
      "drop (i + 10) bs = bs ! (i + 10) # drop (i + 11) bs"
      using len Cons_nth_drop_Suc [of "i + 5" bs] Cons_nth_drop_Suc [of "i + 9" bs]
        Cons_nth_drop_Suc [of "i + 10" bs] by (simp_all add: add.commute)
    moreover have "left = drop (i + 11) bs" by (simp add: left_def list_slice_def)
    ultimately show ?thesis
      using list_slice_drop [of "i + 1" "i + 5" bs] list_slice_drop [of "i + 6" "i + 9" bs] by simp
  qed
  then have "drop (Suc i) bs = bytes_of_string ''HTTP'' @ bs ! (i + 5) # bytes_of_string (h1_version r') @ CRLF
      @ take k left @ HeaderENDING @ drop (k + length HeaderENDING) left"
    using list_index_SomeD [OF k] http by (simp add: crlf r' CRLF_def left_def [symmetric])
  moreover have "length (h1_version r') = 3" using len by (simp add: r')
  ultimately show ?thesis using ok assms(2) by (auto simp: r' left_def prod_eq_iff) 
qed

lemma h1_scan_sound:
  assumes "h1_scan bs s limit is r = Some r'" "h1_failreason r' = 0" "0 < limit"
  shows "\<exists>k < length is. bs ! (is ! k) = ch CHR '' '' \<and> (\<forall>j < k. \<not> stop_byte (bs ! (is ! j)))
    \<and> is ! k < length bs \<and> h1_after_path bs s (is ! k) r = Some r'"
  using assms
proof (induction "is")
  case (Cons i "is")
  then have i: "i < length bs" by (auto simp: byte_at_def split: if_splits)
  show ?case
  proof (cases "bs ! i = ch CHR '' ''")
    case True
    with Cons.prems i show ?thesis
      by (intro exI [of _ 0]) (auto simp: Fail_earlyLinefeed_def split: if_splits)
  next
    case False
    with Cons.prems i have "\<not> stop_byte (bs ! i)" "h1_scan bs s limit is r = Some r'"
      by (auto simp: stop_byte_def Fail_earlyLinefeed_def split: if_splits)
    with Cons.IH Cons.prems obtain k where "k < length is" "bs ! (is ! k) = ch CHR '' ''"
      "\<forall>j < k. \<not> stop_byte (bs ! (is ! j))" "is ! k < length bs" "h1_after_path bs s (is ! k) r = Some r'"
      by blast
    with \<open>\<not> stop_byte (bs ! i)\<close> show ?thesis
      by (intro exI [of _ "Suc k"]) (auto simp: less_Suc_eq_0_disj)
  qed
qed auto

text \<open>C11: What the filter takes for a request is one: the bytes read are a known method, a path that
  starts with a slash and holds no space or line break, \<open>HTTP\<close>, one byte, the version, and
  headers that end with an empty line.\<close>

theorem ParseH1Request_sound:
  assumes "ParseH1Request bs False = Some r" "h1_failreason r = 0"
  shows "\<exists>x hdrs body. bs = h1_head (h1_method r) (h1_path r) @ bytes_of_string ''HTTP'' @ x
        # bytes_of_string (h1_version r) @ CRLF @ hdrs @ HeaderENDING @ body
      \<and> h1_method r \<in> set h1_methods - {''CONNECT''} \<and> path_ok (h1_path r) \<and> length (h1_version r) = 3
      \<and> h1_parse_headers (split_on hdrs CRLF) = (h1_headers r, True)"
proof -
  have long: "16 \<le> length bs"
    using assms by (auto simp: ParseH1Request_def fail_defs split: if_splits)
  obtain m n f where mo: "h1_method_of bs False = Some (m, n, f)"
    using h1_method_of_eq [of bs False] long by (auto split: option.splits)
  note ml = h1_method_len [OF _ mo]
  have n_le: "n \<le> 7" using ml long by simp
  define limit where "limit = (if length bs > MaxParseUrlLen then MaxParseUrlLen else length bs)"
  define r0 where "r0 = no_request\<lparr>h1_method := m, h1_failreason := f\<rparr>"
  have P: "ParseH1Request bs False = Some r" by fact
  from P n_le have n: "n \<noteq> 0" "bs ! n = ch CHR '' ''"
    using assms(2) unfolding ParseH1Request_long [OF long mo] by (auto simp: fail_defs split: if_splits)
  from P n assms(2) obtain slash: "bs ! (n + 1) = ch CHR ''/''"
    and scan: "h1_scan bs (n + 1) limit [n + 1..<limit] r0 = Some r"
    using n_le long unfolding ParseH1Request_long [OF long mo] limit_def r0_def
    by (auto simp: fail_defs h1_check_start_def Let_def simp del: upt_Suc split: if_splits)
  have "0 < limit" using long by (auto simp: limit_def MaxParseUrlLen_def)
  from h1_scan_sound [OF scan assms(2) this] obtain k where
    k: "n + 1 + k < limit" "bs ! (n + 1 + k) = ch CHR '' ''"
      "\<forall>j < k. \<not> stop_byte (bs ! (n + 1 + j))" "n + 1 + k < length bs"
      and after: "h1_after_path bs (n + 1) (n + 1 + k) r0 = Some r"
    by (auto simp del: upt_Suc simp: less_diff_conv add.commute)
  define p where "p = list_slice (n + 1) (n + 1 + k) bs"
  note snd = h1_after_path_sound [OF after assms(2) k(4) le_add1]
  have "k \<noteq> 0" using k(2) slash by (intro notI) simp
  have path: "path_ok (h1_path r)"
  proof -
    have "length p = k" using k(4) by (simp add: p_def)
    then have "p \<noteq> []" using \<open>k \<noteq> 0\<close> by auto
    have "p ! 0 = ch CHR ''/''"
      using \<open>k \<noteq> 0\<close> k(4) slash by (auto simp: p_def nth_list_slice)
    note p0 = \<open>p \<noteq> []\<close> this
    from p0 have "take 1 (string_of_bytes p) = ''/''" by (cases p) (auto simp: string_of_bytes_def)
    moreover have "list_all (\<lambda>b. \<not> stop_byte b) p"
      using k(3,4) by (auto simp: p_def list_all_length nth_list_slice)
    ultimately show ?thesis using snd by (simp add: path_ok_def p_def)
  qed
  have split: "bs = h1_head m (string_of_bytes p) @ drop (Suc (n + 1 + k)) bs"
  proof -
    have "take n bs = bytes_of_string m" using ml n long by (auto simp: has_prefix_def)
    moreover have "bs = take n bs @ bs ! n # drop (n + 1) bs" using n_le long by (simp add: id_take_nth_drop)
    moreover have "drop (n + 1) bs = p @ drop (n + 1 + k) bs" by (simp add: p_def list_slice_drop)
    moreover have "drop (n + 1 + k) bs = bs ! (n + 1 + k) # drop (Suc (n + 1 + k)) bs"
      using k(4) by (simp add: Cons_nth_drop_Suc)
    ultimately show ?thesis using n(2) k(2) unfolding h1_head_def by (metis append.assoc append_Cons append_Nil bytes_of_string_of_bytes)
  qed
  have fields: "h1_method r = m" "h1_path r = string_of_bytes p" "f = 0" using snd by (simp_all add: r0_def p_def)
  have meth: "m \<in> set h1_methods - {''CONNECT''}"
    using ml n(1) long fields(3) by (auto simp: Fail_unexpected_proxy_def split: if_splits)
  from snd obtain x hdrs body where "drop (Suc (n + 1 + k)) bs = bytes_of_string ''HTTP'' @ x
      # bytes_of_string (h1_version r) @ CRLF @ hdrs @ HeaderENDING @ body"
    and hs: "h1_parse_headers (split_on hdrs CRLF) = (h1_headers r, True)" and v: "length (h1_version r) = 3"
    by blast
  with split have "bs = h1_head (h1_method r) (h1_path r) @ bytes_of_string ''HTTP'' @ x
      # bytes_of_string (h1_version r) @ CRLF @ hdrs @ HeaderENDING @ body"
    unfolding fields(1,2) by metis
  with path meth hs v show ?thesis unfolding fields(1) by blast
qed

theorem ParseH1Request_sound_witness:
  "\<exists>bs r. ParseH1Request bs False = Some r \<and> h1_method r \<in> set h1_methods - {''CONNECT''}
    \<and> bs = h1_render ''GET'' ''/x'' ''1.1'' sample_headers [1, 2]"
proof -
  define r where "r = \<lparr>h1_version = ''1.1'', h1_method = ''GET'', h1_path = ''/x'',
    h1_headers = sample_headers, h1_failreason = 0\<rparr>"
  have "ParseH1Request (h1_render ''GET'' ''/x'' ''1.1'' sample_headers [1, 2]) False = Some r"
    unfolding r_def by (rule h1_complete [OF sample_ok])
  from this ParseH1Request_sound [OF this] show ?thesis by (auto simp: r_def)
qed

section \<open>Reading a request\<close>

text \<open>\<open>H1RequestParser\<close> after a read: the parsed request and \<open>WholeRequestBuf\<close>.\<close>

record h1_parser =
  hp_request :: h1_request
  WholeRequestBuf :: bytes

definition ErrNotHTTP_Request :: goerr where "ErrNotHTTP_Request = InvalidDataErr ''not http request''"

definition read_failed :: "h1_request \<Rightarrow> goerr option" where
  "read_failed r =
     (if h1_failreason r \<noteq> 0 then Some (err_wrap ''httpLayer ReadAndParse failed'' ErrNotHTTP_Request) else None)"

text \<open>The connection is the chunks of its reads. The results are the parser's new fields (unless
  the read failed), the error, and the connection afterwards; \<open>None\<close> is a panic.\<close>

definition ReadAndParse :: "bytes list \<Rightarrow> ((h1_parser option \<times> goerr option) \<times> bytes list) option" where
  "ReadAndParse conn =
     (case src_Read MaxPacketLen conn of
        (Inl e, conn') \<Rightarrow> Some ((None, Some e), conn')
      | (Inr data, conn') \<Rightarrow>
          do { r \<leftarrow> ParseH1Request data False;
               Some ((Some \<lparr>hp_request = r, WholeRequestBuf = data\<rparr>, read_failed r), conn') })"

text \<open>The second read goes behind the first. The slice parsed then ends at \<open>n\<close> plus the length of
  the first buffer, which is \<open>n\<close> again. \<open>packet\<close> is what the recycled packet held before; its
  capacity is its length.\<close>

definition ReadAndParse_2 ::
    "bytes \<Rightarrow> bytes list \<Rightarrow> ((h1_parser option \<times> goerr option) \<times> bytes list) option" where
  "ReadAndParse_2 packet conn =
     (case src_Read MaxPacketLen conn of
        (Inl e, conn') \<Rightarrow> Some ((None, Some e), conn')
      | (Inr data, conn') \<Rightarrow>
          do {
            r \<leftarrow> ParseH1Request data False;
            let p = \<lparr>hp_request = r, WholeRequestBuf = data\<rparr>;
            if h1_failreason r = Fail_no_endMark then
              (case src_Read (MaxPacketLen - length data) conn' of
                 (Inl e2, conn'') \<Rightarrow> Some ((Some p, read_failed r), conn'')
               | (Inr got, conn'') \<Rightarrow>
                   do {
                     let bs = data @ got @ drop (length data + length got) packet;
                     data2 \<leftarrow> bytes_slice bs 0 (length data + length (WholeRequestBuf p));
                     r2 \<leftarrow> ParseH1Request data2 False;
                     Some ((Some \<lparr>hp_request = r2, WholeRequestBuf = data2\<rparr>, read_failed r2), conn'') })
            else Some ((Some p, read_failed r), conn') })"

text \<open>After a first read without the end mark, the bytes that are parsed are cut at twice the
  length of the first read: a longer rest of the header is lost, and a shorter one is followed by
  what the recycled packet held.\<close>

theorem ReadAndParse_2_cuts:
  assumes "ParseH1Request c1 False = Some r1" "h1_failreason r1 = Fail_no_endMark"
    and "c1 \<noteq> []" "c2 \<noteq> []" "2 * length c1 \<le> MaxPacketLen" "length c1 + length c2 \<le> MaxPacketLen"
    and "length packet = MaxPacketLen"
  shows "\<exists>p e. ReadAndParse_2 packet (c1 # c2 # cs) = Some ((Some p, e), cs)
    \<and> WholeRequestBuf p = take (2 * length c1) (c1 @ c2 @ drop (length c1 + length c2) packet)
    \<and> ParseH1Request (WholeRequestBuf p) False = Some (hp_request p)"
proof -
  have "src_Read (MaxPacketLen - length c1) (c2 # cs) = (Inr c2, cs)"
    "src_Read MaxPacketLen (c1 # c2 # cs) = (Inr c1, c2 # cs)"
    using assms by simp_all
  moreover obtain r2 where
    "ParseH1Request (take (2 * length c1) (c1 @ c2 @ drop (length c1 + length c2) packet)) False = Some r2"
    using h1_total by blast
  moreover have "bytes_slice (c1 @ c2 @ drop (length c1 + length c2) packet) 0 (length c1 + length c1)
      = Some (take (2 * length c1) (c1 @ c2 @ drop (length c1 + length c2) packet))"
    using assms by (simp add: list_slice_def mult_2)
  ultimately show ?thesis using assms(1,2) by (simp add: ReadAndParse_2_def)
qed


text \<open>A first read of more than half a packet without the end mark, followed by any second read,
  is an index out of range.\<close>

theorem ReadAndParse_2_panics:
  assumes "ParseH1Request c1 False = Some r1" "h1_failreason r1 = Fail_no_endMark"
    and "MaxPacketLen < 2 * length c1" "length c1 + length c2 \<le> MaxPacketLen" "c2 \<noteq> []"
    and "length packet = MaxPacketLen"
  shows "ReadAndParse_2 packet (c1 # c2 # cs) = None"
proof -
  have "src_Read (MaxPacketLen - length c1) (c2 # cs) = (Inr c2, cs)"
    "src_Read MaxPacketLen (c1 # c2 # cs) = (Inr c1, c2 # cs)"
    using assms by simp_all
  moreover have "bytes_slice (c1 @ c2 @ drop (length c1 + length c2) packet) 0 (length c1 + length c1) = None"
    using assms by (simp add: bytes_slice_def)
  ultimately show ?thesis using assms(1,2) by (simp add: ReadAndParse_2_def)
qed


text \<open>A request cut inside its first header.\<close>

lemma sample_partial:
  assumes "CR \<notin> set left" "3 \<le> length left"
  shows "\<exists>r. ParseH1Request (h1_head ''GET'' ''/x'' @ h1_rest ''1.1'' left) False = Some r
    \<and> h1_failreason r = Fail_no_endMark"
  using h1_line [OF sample_ok(1-5) assms(2)] assms(1)
  by (simp add: HeaderENDING_def CRLF_def list_index_absent)

lemma length_partial: "length (h1_head ''GET'' ''/x'' @ h1_rest ''1.1'' left) = 17 + length left"
  by (simp add: h1_head_def h1_rest_def CRLF_def)

theorem ReadAndParse_2_cuts_witness:
  "\<exists>c1 c2 p e. ReadAndParse_2 (replicate MaxPacketLen 0) [c1, c2] = Some ((Some p, e), [])
    \<and> WholeRequestBuf p \<noteq> c1 @ c2"
proof -
  define c1 where "c1 = h1_head ''GET'' ''/x'' @ h1_rest ''1.1'' [65, 65, 65]"
  obtain r1 where r1: "ParseH1Request c1 False = Some r1" "h1_failreason r1 = Fail_no_endMark"
    using sample_partial [of "[65, 65, 65]"] by (auto simp: c1_def CR_def)
  have "length c1 = 20" unfolding c1_def length_partial by simp
  then have "c1 \<noteq> []" "2 * length c1 \<le> MaxPacketLen" "length c1 + length [58 :: byte] \<le> MaxPacketLen"
    by (auto simp: MaxPacketLen_def)
  from ReadAndParse_2_cuts [OF r1 this(1) _ this(2,3), of "replicate MaxPacketLen 0" "[]"]
  obtain p e where "ReadAndParse_2 (replicate MaxPacketLen 0) [c1, [58]] = Some ((Some p, e), [])"
    "WholeRequestBuf p = take (2 * length c1) (c1 @ [58] @ drop (length c1 + length [58 :: byte]) (replicate MaxPacketLen 0))"
    by auto
  moreover from this(2) have "length (WholeRequestBuf p) = 40"
    using \<open>length c1 = 20\<close> by (simp add: MaxPacketLen_def)
  then have "WholeRequestBuf p \<noteq> c1 @ [58]" using \<open>length c1 = 20\<close> by auto
  ultimately show ?thesis by blast
qed

theorem ReadAndParse_2_panics_witness: "\<exists>c1. ReadAndParse_2 (replicate MaxPacketLen 0) [c1, [58]] = None"
proof -
  define c1 where "c1 = h1_head ''GET'' ''/x'' @ h1_rest ''1.1'' (replicate 40000 65)"
  obtain r1 where r1: "ParseH1Request c1 False = Some r1" "h1_failreason r1 = Fail_no_endMark"
    using sample_partial [of "replicate 40000 65"] by (auto simp: c1_def CR_def)
  have "length c1 = 40017" unfolding c1_def length_partial by simp
  with ReadAndParse_2_panics [OF r1, of "[58]" "replicate MaxPacketLen 0" "[]"] show ?thesis
    by (intro exI [of _ c1]) (simp add: MaxPacketLen_def)
qed

end
