(* ===== verification/ProxyHttp.thy ===== *)
theory ProxyHttp
  imports HttpRequest UtilsUser NetAddrText
begin

text \<open>
  The HTTP proxy server (proxy/http/server.go). One \<open>Read\<close> fetches the request, \<open>ParseH1Request\<close> takes it apart in its
  proxy mode, \<open>Proxy-Authorization\<close> is checked when there are users, and the target is the path of \<open>CONNECT\<close> or the host
  of the URL. The parts of encoding/base64 and net/url that this uses come first. Texts of library errors are abridged.
\<close>

section \<open>encoding/base64\<close>

definition base64_char :: "nat \<Rightarrow> byte" where
  "base64_char i = word_of_nat
     (if i < 26 then 65 + i else if i < 52 then 71 + i else if i < 62 then i - 4 else if i = 62 then 43 else 47)"

definition base64_val :: "byte \<Rightarrow> nat option" where
  "base64_val b =
     (let n = unat b in
      if 65 \<le> n \<and> n \<le> 90 then Some (n - 65)
      else if 97 \<le> n \<and> n \<le> 122 then Some (n - 71)
      else if 48 \<le> n \<and> n \<le> 57 then Some (n + 4)
      else if n = 43 then Some 62 else if n = 47 then Some 63 else None)"

definition base64_pad :: byte where "base64_pad = 61"

text \<open>Bytes written by \<open>StdEncoding.Decode\<close>, and whether it fails. Line breaks are skipped wherever they stand.\<close>

fun base64_quanta :: "bytes \<Rightarrow> bytes \<times> bool" where
  "base64_quanta [] = ([], False)"
| "base64_quanta (c1 # c2 # c3 # c4 # rest) =
     (case (base64_val c1, base64_val c2) of
        (Some v1, Some v2) \<Rightarrow>
          let b1 = word_of_nat (v1 * 4 + v2 div 16) in
          (case base64_val c3 of
             None \<Rightarrow> if c3 = base64_pad \<and> c4 = base64_pad then ([b1], rest \<noteq> []) else ([], True)
           | Some v3 \<Rightarrow>
               let b2 = word_of_nat (v2 mod 16 * 16 + v3 div 4) in
               (case base64_val c4 of
                  None \<Rightarrow> if c4 = base64_pad then ([b1, b2], rest \<noteq> []) else ([], True)
                | Some v4 \<Rightarrow>
                    let b3 = word_of_nat (v3 mod 4 * 64 + v4) in
                    (case base64_quanta rest of (bs, err) \<Rightarrow> (b1 # b2 # b3 # bs, err))))
      | _ \<Rightarrow> ([], True))"
| "base64_quanta _ = ([], True)"

definition base64_Decode :: "bytes \<Rightarrow> bytes \<times> bool" where
  "base64_Decode s = base64_quanta (filter (\<lambda>b. b \<noteq> CR \<and> b \<noteq> LF) s)"

text \<open>What a client sends.\<close>

fun base64_Encode :: "bytes \<Rightarrow> bytes" where
  "base64_Encode [] = []"
| "base64_Encode [a] = [base64_char (unat a div 4), base64_char (unat a mod 4 * 16), base64_pad, base64_pad]"
| "base64_Encode [a, b] =
     [base64_char (unat a div 4), base64_char (unat a mod 4 * 16 + unat b div 16), base64_char (unat b mod 16 * 4), base64_pad]"
| "base64_Encode (a # b # c # bs) =
     base64_char (unat a div 4) # base64_char (unat a mod 4 * 16 + unat b div 16) #
     base64_char (unat b mod 16 * 4 + unat c div 64) # base64_char (unat c mod 64) # base64_Encode bs"

section \<open>net/url\<close>

definition url_alnum :: "char \<Rightarrow> bool" where
  "url_alnum c \<longleftrightarrow> is_digit c \<or> (let n = (of_char c :: nat) in 97 \<le> n \<and> n \<le> 122 \<or> 65 \<le> n \<and> n \<le> 90)"

datatype url_mode = EncHost | EncZone | EncOther

text \<open>\<open>shouldEscape\<close> for hosts and zones.\<close>

definition url_host_char :: "char \<Rightarrow> bool" where
  "url_host_char c \<longleftrightarrow> url_alnum c \<or> c \<in> set ''!$&()*+,;=:[]<>-_.~'' \<or> c \<in> {CHR 0x27, CHR 0x22}"

text \<open>\<open>unescape\<close>; \<open>None\<close> is an error.\<close>

fun url_unescape :: "url_mode \<Rightarrow> string \<Rightarrow> string option" where
  "url_unescape mode [] = Some []"
| "url_unescape mode (c # s) =
     (if c = CHR ''%'' then
        (case s of
           x # y # s' \<Rightarrow>
             (case (hex_val x, hex_val y) of
                (Some h, Some l) \<Rightarrow>
                  let v = char_of (16 * h + l); pct = (x = CHR ''2'' \<and> y = CHR ''5'') in
                  if mode = EncHost \<and> h < 8 \<and> \<not> pct \<or> mode = EncZone \<and> \<not> pct \<and> v \<noteq> CHR '' '' \<and> \<not> url_host_char v then None
                  else map_option ((#) v) (url_unescape mode s')
              | _ \<Rightarrow> None)
         | _ \<Rightarrow> None)
      else if mode \<noteq> EncOther \<and> (of_char c :: nat) < 128 \<and> \<not> url_host_char c then None
      else map_option ((#) c) (url_unescape mode s))"

definition url_validOptionalPort :: "string \<Rightarrow> bool" where
  "url_validOptionalPort port = (case port of [] \<Rightarrow> True | c # ds \<Rightarrow> c = CHR '':'' \<and> list_all is_digit ds)"

definition url_parseHost :: "string \<Rightarrow> string option" where
  "url_parseHost host =
     (if has_prefix host ''['' then
        (case last_index1 CHR '']'' host of
           None \<Rightarrow> None
         | Some i \<Rightarrow>
             if \<not> url_validOptionalPort (drop (i + 1) host) then None
             else (case list_index ''%25'' (take i host) of
                 Some zone \<Rightarrow>
                   (case (url_unescape EncHost (take zone host), url_unescape EncZone (list_slice zone i host),
                          url_unescape EncHost (drop i host)) of
                      (Some host1, Some host2, Some host3) \<Rightarrow> Some (host1 @ host2 @ host3)
                    | _ \<Rightarrow> None)
               | None \<Rightarrow> url_unescape EncHost host))
      else
        (case last_index1 CHR '':'' host of
           Some i \<Rightarrow> if url_validOptionalPort (drop i host) then url_unescape EncHost host else None
         | None \<Rightarrow> url_unescape EncHost host))"

definition url_validUserinfo :: "string \<Rightarrow> bool" where
  "url_validUserinfo s = list_all (\<lambda>c. url_alnum c \<or> c \<in> set ''-._:~!$&()*+,;=%@'' \<or> c = CHR 0x27) s"

definition url_parseAuthority :: "string \<Rightarrow> string option" where
  "url_parseAuthority authority =
     (case last_index1 CHR ''@'' authority of
        None \<Rightarrow> url_parseHost authority
      | Some i \<Rightarrow>
          (case url_parseHost (drop (i + 1) authority) of
             None \<Rightarrow> None
           | Some host \<Rightarrow>
               let userinfo = take i authority in
               if \<not> url_validUserinfo userinfo then None
               else if list_all (\<lambda>s. url_unescape EncOther s \<noteq> None) (splitN2 userinfo '':'') then Some host
               else None))"

text \<open>The \<open>Host\<close> of \<open>url.Parse\<close> for a text that starts with \<open>http://\<close>.\<close>

definition cut_at :: "char \<Rightarrow> string \<Rightarrow> string \<times> string" where
  "cut_at c s = (takeWhile (\<lambda>x. x \<noteq> c) s, tl (dropWhile (\<lambda>x. x \<noteq> c) s))"

definition url_Parse_Host :: "string \<Rightarrow> goerr + string" where
  "url_Parse_Host rawURL =
     (let u = fst (cut_at CHR ''#'' rawURL); frag = snd (cut_at CHR ''#'' rawURL);
          rest = drop 7 (fst (cut_at CHR ''?'' u));
          authority = takeWhile (\<lambda>c. c \<noteq> CHR ''/'') rest; path = dropWhile (\<lambda>c. c \<noteq> CHR ''/'') rest in
      if list_ex (\<lambda>c. (of_char c :: nat) < 32 \<or> (of_char c :: nat) = 127) u then Inl (NewErr ''net/url: invalid control character in URL'')
      else case url_parseAuthority authority of
             None \<Rightarrow> Inl (NewErr ''net/url: invalid authority'')
           | Some host \<Rightarrow>
               if url_unescape EncOther path = None \<or> url_unescape EncOther frag = None
               then Inl (NewErr ''net/url: invalid URL escape'') else Inr host)"

section \<open>The server\<close>

definition connectReturnBytes :: bytes where
  "connectReturnBytes = bytes_of_string ''HTTP/1.1 200 Connection established'' @ HeaderENDING"

definition basicAuthValue_prefix :: bytes where "basicAuthValue_prefix = bytes_of_string ''Basic ''"

definition proxyAuth_headerBytes :: bytes where "proxyAuth_headerBytes = bytes_of_string ''Proxy-Authorization''"

record http_server =
  http_users :: MultiUserMap
  OnlyConnect :: bool

definition http_NewServer :: "string \<Rightarrow> UserConf list \<Rightarrow> http_server option" where
  "http_NewServer uuid users =
     (let mu = NewMultiUserMap\<lparr>StoreKeyByStr := True\<rparr>;
          add = (\<lambda>mu. \<lparr>http_users = fold (\<lambda>uc. AddUser (UserPass_User (NewUserPass uc))) users mu, OnlyConnect = False\<rparr>) in
      if uuid = [] then Some (add mu)
      else case InitWithStr \<lparr>UserID = [], Password = []\<rparr> uuid of
             None \<Rightarrow> None
           | Some (ok, up) \<Rightarrow> Some (add (if ok then AddUser (UserPass_User up) mu else mu)))"

text \<open>The search for the credentials: whether they are those of a user, and the value of \<open>n\<close>, when it is assigned.\<close>

fun http_auth :: "MultiUserMap \<Rightarrow> RawHeader list \<Rightarrow> bool \<times> nat option" where
  "http_auth mu [] = (False, None)"
| "http_auth mu (h # hs) =
     (if Head h = proxyAuth_headerBytes then
        (if \<not> has_prefix (Value h) basicAuthValue_prefix then (False, None)
         else (case base64_Decode (drop (length basicAuthValue_prefix) (Value h)) of (bs, err) \<Rightarrow>
           if err then (False, Some (length bs))
           else (case list_index [ch CHR '':''] bs of
               None \<Rightarrow> (False, Some (length bs))
             | Some colonIndex \<Rightarrow>
                 (AuthUserByStr mu (UserPass_AuthStr (NewUserPassByData (take colonIndex bs) (drop (colonIndex + 1) bs))) \<noteq> None,
                  Some (length bs)))))
      else http_auth mu hs)"

definition http_address :: "http_server \<Rightarrow> string \<Rightarrow> string \<Rightarrow> goerr + string" where
  "http_address s method path =
     (if method = ''CONNECT'' then Inr path
      else if OnlyConnect s then Inl (NewErr ''non-connect method not supported'')
      else case url_Parse_Host path of
             Inl e \<Rightarrow> Inl e
           | Inr host \<Rightarrow> Inr (if CHR '':'' \<notin> set host then host @ '':80'' else host))"

text \<open>The connection returned: the one underneath, or a \<open>ProxyConn\<close>, with its \<open>firstData\<close> and \<open>notFirst\<close>.\<close>

record http_conn =
  firstData :: "bytes option"
  http_Conn :: "bytes list"

record http_result =
  http_target :: Addr
  http_written :: "bytes list"
  http_newconn :: http_conn

definition http_Handshake :: "http_server \<Rightarrow> bytes list \<Rightarrow> ((goerr + http_result) \<times> bytes list) option" where
  "http_Handshake s conn =
     (case src_Read MTU conn of
        (Inl e, conn') \<Rightarrow> Some (Inl e, conn')
      | (Inr bs, conn') \<Rightarrow>
          do {
            r \<leftarrow> ParseH1Request bs True;
            let failed = (\<lambda>n e. Some (Inl (ErrBuffer e (take n bs)), conn'));
            if h1_failreason r \<noteq> 0 then failed (length bs) (invalid_data ''get method/path failed'')
            else
              let auth = (if IDMap (http_users s) \<noteq> Map.empty then http_auth (http_users s) (h1_headers r) else (True, None));
                  n = (case snd auth of None \<Rightarrow> length bs | Some n \<Rightarrow> n) in
              if \<not> fst auth then failed n (invalid_data ''http require auth not got no valid user/header'')
              else case http_address s (h1_method r) (h1_path r) of
                     Inl e \<Rightarrow> failed n e
                   | Inr addressStr \<Rightarrow>
                       (case NewAddr addressStr of
                          Inl e \<Rightarrow> failed n e
                        | Inr targetAddr \<Rightarrow>
                            Some (Inr \<lparr>http_target = targetAddr,
                                http_written = (if h1_method r = ''CONNECT'' then [connectReturnBytes] else []),
                                http_newconn = \<lparr>firstData = (if h1_method r = ''CONNECT'' then None else Some (take n bs)),
                                                http_Conn = conn'\<rparr>\<rparr>, conn')) })"

text \<open>\<open>ProxyConn.Read\<close>; a \<open>firstData\<close> that is gone is \<open>notFirst\<close>.\<close>

definition http_Read :: "nat \<Rightarrow> (http_conn, bytes) rd" where
  "http_Read k pc =
     (case firstData pc of
        None \<Rightarrow> (case src_Read k (http_Conn pc) of (v, c) \<Rightarrow> (v, pc\<lparr>http_Conn := c\<rparr>))
      | Some bs \<Rightarrow> (Inr (take k bs), pc\<lparr>firstData := None\<rparr>))"

section \<open>Base64\<close>

lemma unat_base64_char: "i < 64 \<Longrightarrow> unat (base64_char i) =
    (if i < 26 then 65 + i else if i < 52 then 71 + i else if i < 62 then i - 4 else if i = 62 then 43 else 47)"
  unfolding base64_char_def by (simp only: unat_of_nat) (auto simp: take_bit_nat_eq_self)

lemma base64_val_char [simp]: "i < 64 \<Longrightarrow> base64_val (base64_char i) = Some i"
  unfolding base64_val_def unat_base64_char by (auto simp: Let_def)

lemma base64_char_plain: "i < 64 \<Longrightarrow> base64_char i \<noteq> CR \<and> base64_char i \<noteq> LF"
proof -
  assume i: "i < 64"
  have "unat (base64_char i) \<ge> 43" unfolding unat_base64_char [OF i] using i by auto
  moreover have "unat CR = 13" "unat LF = 10" by (simp_all add: CR_def LF_def)
  ultimately show ?thesis by (metis less_numeral_extra(3) not_numeral_le_zero numeral_le_iff semiring_norm order_trans)
qed

lemma base64_val_pad [simp]: "base64_val base64_pad = None"
  by (simp add: base64_val_def base64_pad_def)

lemma byte_parts: "unat (a :: byte) div 4 < 64" "unat a mod 4 * 16 < 64" "unat (b :: byte) div 16 < 16"
  using unat_less_256 [of a] unat_less_256 [of b] by (simp_all add: div_less_iff_less_mult)

lemma base64_mix:
  "unat (a :: byte) mod 4 * 16 + unat (b :: byte) div 16 < 64" "unat b mod 16 * 4 + unat (c :: byte) div 64 < 64"
  "unat b mod 16 * 4 < 64" "unat c mod 64 < 64"
  using unat_less_256 [of b] unat_less_256 [of c]
  by (simp_all add: div_less_iff_less_mult)

lemma split16: "y < 16 \<Longrightarrow> (x * 16 + y) div 16 = x \<and> (x * 16 + y) mod 16 = (y :: nat)"
  by simp

lemma split4: "y < 4 \<Longrightarrow> (x * 4 + y) div 4 = x \<and> (x * 4 + y) mod 4 = (y :: nat)"
  by simp

lemma base64_back:
  "unat (a :: byte) div 4 * 4 + (unat a mod 4 * 16 + unat (b :: byte) div 16) div 16 = unat a"
  "(unat a mod 4 * 16 + unat b div 16) mod 16 * 16 + (unat b mod 16 * 4 + unat (c :: byte) div 64) div 4 = unat b"
  "(unat b mod 16 * 4 + unat c div 64) mod 4 * 64 + unat c mod 64 = unat c"
proof -
  have "unat b div 16 < 16" "unat c div 64 < 4"
    using unat_less_256 [of b] unat_less_256 [of c] by (simp_all add: div_less_iff_less_mult)
  then have b: "(unat a mod 4 * 16 + unat b div 16) div 16 = unat a mod 4" "(unat a mod 4 * 16 + unat b div 16) mod 16 = unat b div 16"
    and c: "(unat b mod 16 * 4 + unat c div 64) div 4 = unat b mod 16" "(unat b mod 16 * 4 + unat c div 64) mod 4 = unat c div 64"
    using split16 split4 by blast+
  show "unat a div 4 * 4 + (unat a mod 4 * 16 + unat b div 16) div 16 = unat a"
    "(unat a mod 4 * 16 + unat b div 16) mod 16 * 16 + (unat b mod 16 * 4 + unat c div 64) div 4 = unat b"
    "(unat b mod 16 * 4 + unat c div 64) mod 4 * 64 + unat c mod 64 = unat c"
    unfolding b c by (rule div_mult_mod_eq)+
qed

lemma base64_back_end:
  "unat (a :: byte) div 4 * 4 + (unat a mod 4 * 16) div 16 = unat a"
  "(unat a mod 4 * 16 + unat (b :: byte) div 16) mod 16 * 16 + (unat b mod 16 * 4) div 4 = unat b"
proof -
  have "unat b div 16 < 16" using unat_less_256 [of b] by (simp add: div_less_iff_less_mult)
  then have b: "(unat a mod 4 * 16 + unat b div 16) mod 16 = unat b div 16" "(unat b mod 16 * 4) div 4 = unat b mod 16"
    "unat a mod 4 * 16 div 16 = unat a mod 4"
    using split16 by auto
  show "unat a div 4 * 4 + (unat a mod 4 * 16) div 16 = unat a"
    "(unat a mod 4 * 16 + unat b div 16) mod 16 * 16 + (unat b mod 16 * 4) div 4 = unat b"
    unfolding b by (rule div_mult_mod_eq)+
qed

lemma base64_quantum:
  assumes "base64_val c1 = Some v1" "base64_val c2 = Some v2"
  shows "base64_quanta [c1, c2, base64_pad, base64_pad] = ([word_of_nat (v1 * 4 + v2 div 16)], False)"
    and "base64_val c3 = Some v3 \<Longrightarrow>
      base64_quanta [c1, c2, c3, base64_pad] = ([word_of_nat (v1 * 4 + v2 div 16), word_of_nat (v2 mod 16 * 16 + v3 div 4)], False)"
    and "base64_val c3 = Some v3 \<Longrightarrow> base64_val c4 = Some v4 \<Longrightarrow>
      base64_quanta (c1 # c2 # c3 # c4 # rest) =
        (word_of_nat (v1 * 4 + v2 div 16) # word_of_nat (v2 mod 16 * 16 + v3 div 4) # word_of_nat (v3 mod 4 * 64 + v4) #
           fst (base64_quanta rest), snd (base64_quanta rest))"
  using assms by (simp_all add: Let_def split: prod.split)

lemma base64_quanta_Encode: "base64_quanta (base64_Encode bs) = (bs, False)"
proof (induction bs rule: base64_Encode.induct)
  case (2 a)
  note v = base64_val_char [OF byte_parts(1) [of a]] base64_val_char [OF byte_parts(2) [of a]]
  show ?case unfolding base64_Encode.simps base64_quantum(1) [OF v] base64_back_end by simp
next
  case (3 a b)
  note v = base64_val_char [OF byte_parts(1) [of a]] base64_val_char [OF base64_mix(1) [of a b]] base64_val_char [OF base64_mix(3) [of b]]
  show ?case
    using base64_quantum(2) [OF v] base64_back(1) [of a b] base64_back_end(2) [of a b] by (simp only: base64_Encode.simps byte_of_length_unat)
next
  case (4 a b c bs)
  note v = base64_val_char [OF byte_parts(1) [of a]] base64_val_char [OF base64_mix(1) [of a b]]
    base64_val_char [OF base64_mix(2) [of b c]] base64_val_char [OF base64_mix(4) [of c]]
  show ?case
    using base64_quantum(3) [OF v] 4
    by (simp only: base64_Encode.simps base64_back byte_of_length_unat fst_conv snd_conv)
qed simp

lemma base64_Encode_plain: "list_all (\<lambda>b. b \<noteq> CR \<and> b \<noteq> LF) (base64_Encode bs)"
  by (induction bs rule: base64_Encode.induct)
    (simp_all add: base64_char_plain byte_parts base64_mix, simp_all add: base64_pad_def CR_def LF_def)

lemma base64_Decode_Encode [codec_simps]: "base64_Decode (base64_Encode bs) = (bs, False)"
  using base64_Encode_plain [of bs] by (simp add: base64_Decode_def base64_quanta_Encode list_all_iff cong: filter_cong)

lemma base64_quanta_length: "length (fst (base64_quanta s)) \<le> length s"
  by (induction s rule: base64_quanta.induct) (fastforce simp: Let_def intro: le_SucI split: option.splits prod.splits if_splits)+

lemma base64_Decode_length: "length (fst (base64_Decode s)) \<le> length s"
  unfolding base64_Decode_def by (rule order_trans [OF base64_quanta_length length_filter_le])

section \<open>Requests to a proxy\<close>

lemma has_prefixD: "has_prefix xs p \<Longrightarrow> \<exists>q. xs = p @ q"
  by (metis append_take_drop_id has_prefix_def)

lemma h1_proxy_start:
  assumes "m \<in> set h1_methods" "bs = bytes_of_string m @ ch CHR '' '' # bytes_of_string path @ ch CHR '' '' # rest"
    "if m = ''CONNECT'' then path \<noteq> [] else has_prefix path ''http://''" "6 \<le> length rest"
  shows "h1_method_of bs True = Some (m, length m, 0)" "bs ! 4 \<noteq> ch CHR ''*''"
    "bs ! 5 = ch CHR '' '' \<Longrightarrow> bs ! 3 = ch CHR '' ''" "bs ! length m = ch CHR '' ''"
    "h1_check_start bs True m (length m + 1) = Some None" "length m \<noteq> 0" "16 \<le> length bs"
proof -
  from assms(1) have m: "m \<in> {''GET'', ''PUT'', ''POST'', ''HEAD'', ''DELETE'', ''OPTIONS'', ''CONNECT''}"
    by (auto simp: h1_methods_def)
  show "length m \<noteq> 0" using m by auto
  show "bs ! length m = ch CHR '' ''"
    using nth_append_length [of "bytes_of_string m"] by (simp add: assms(2))
  consider "m = ''CONNECT''" "path \<noteq> []" | q where "m \<noteq> ''CONNECT''" "path = ''http://'' @ q"
    using assms(3) has_prefixD [of path "''http://''"] by (cases "m = ''CONNECT''") (simp_all, blast)
  then have all: "16 \<le> length bs \<and> h1_check_start bs True m (length m + 1) = Some None \<and>
      bs ! 4 \<noteq> ch CHR ''*'' \<and> (bs ! 5 = ch CHR '' '' \<longrightarrow> bs ! 3 = ch CHR '' '')"
  proof cases
    case 1
    moreover obtain c cs where "path = c # cs" using 1(2) by (cases path) auto
    ultimately show ?thesis using assms(4) by (simp add: assms(2) h1_check_start_def bytes_of_string_def)
  next
    case 2
    then have "list_slice (length m + 1) (length m + 8) bs = bytes_of_string ''http://''"
      using list_slice_app [of "bytes_of_string m @ [ch CHR '' '']" 0 7 "bytes_of_string path @ ch CHR '' '' # rest"]
      by (simp add: assms(2) list_slice_def bytes_of_string_def)
    moreover have "16 \<le> length bs" using 2 assms(4) m by (auto simp: assms(2))
    ultimately show ?thesis using 2 m unfolding assms(2)
      by (elim insertE emptyE) (simp_all add: bytes_of_string_def h1_check_start_def)
  qed
  then show "16 \<le> length bs" "h1_check_start bs True m (length m + 1) = Some None" "bs ! 4 \<noteq> ch CHR ''*''"
    "bs ! 5 = ch CHR '' '' \<Longrightarrow> bs ! 3 = ch CHR '' ''" by auto
  then have "7 \<le> length bs" by simp
  note eq = h1_method_of_eq [OF this, of True]
  have "find (\<lambda>m. has_prefix bs (bytes_of_string m)) h1_methods = Some m"
    using m unfolding assms(2) h1_methods_def
    by (elim insertE emptyE) (simp_all add: bytes_of_string_def)
  then show "h1_method_of bs True = Some (m, length m, 0)" by (simp add: eq)
qed

definition proxy_path_ok :: "string \<Rightarrow> string \<Rightarrow> bool" where
  "proxy_path_ok m path \<longleftrightarrow> (if m = ''CONNECT'' then path \<noteq> [] else has_prefix path ''http://'') \<and>
     list_all (\<lambda>b. \<not> stop_byte b) (bytes_of_string path)"

text \<open>A proxy request is read back as written.\<close>

lemma h1_proxy_complete:
  assumes m: "m \<in> set h1_methods" and p: "proxy_path_ok m path"
    and v: "length version = 3" and h: "headers \<noteq> []" "list_all header_ok headers"
  shows "ParseH1Request (h1_render m path version headers body) True =
    Some \<lparr>h1_version = version, h1_method = m, h1_path = path, h1_headers = headers, h1_failreason = 0\<rparr>"
proof -
  define hdrs where "hdrs = join CRLF (map header_line headers)"
  define left where "left = hdrs @ HeaderENDING @ body"
  have ls: "list_all (\<lambda>l. CR \<notin> set l \<and> l \<noteq> []) (map header_line headers)"
    using h(2) header_line_CR by (fastforce simp: list_all_iff header_line_def)
  have e: "list_index HeaderENDING left = Some (length hdrs)"
    unfolding hdrs_def left_def by (rule ending_index [OF ls]) (simp add: h)
  have hs: "h1_parse_headers (split_on (take (length hdrs) left) CRLF) = (headers, True)"
    unfolding left_def using split_headers [OF h(2,1)] h1_parse_headers_lines [OF h(2)] by (simp add: hdrs_def)
  define bs where "bs = h1_head m path @ h1_rest version left"
  define pre where "pre = bytes_of_string m @ [ch CHR '' '']"
  define r where "r = no_request\<lparr>h1_method := m, h1_failreason := 0\<rparr>"
  have bs: "bs = pre @ bytes_of_string path @ ch CHR '' '' # h1_rest version left" by (simp add: bs_def h1_head_def pre_def)
  have bs2: "bs = bytes_of_string m @ ch CHR '' '' # bytes_of_string path @ ch CHR '' '' # h1_rest version left"
    by (simp add: bs pre_def)
  have "6 \<le> length (h1_rest version left)" by (simp add: h1_rest_def v CRLF_def)
  note st = h1_proxy_start [OF m bs2 _ this]
  have p': "if m = ''CONNECT'' then path \<noteq> [] else has_prefix path ''http://''" using p by (simp add: proxy_path_ok_def)
  have limit: "length pre + length (bytes_of_string path) < length bs" "length bs \<le> length bs"
    by (simp_all add: bs)
  have "ParseH1Request bs True = h1_scan bs (length pre) (length bs) [length pre..<length bs] r"
    using st [OF p'] ParseH1Request_long [OF st(7) st(1)] p' by (auto simp: r_def pre_def Let_def)
  also have "\<dots> = h1_after_path bs (length pre) (length (pre @ bytes_of_string path)) r"
    using h1_scan_path [OF _ limit bs] p by (simp add: proxy_path_ok_def)
  finally have eq: "ParseH1Request bs True = \<dots>" .
  have "bs = (pre @ bytes_of_string path) @ ch CHR '' '' # h1_rest version left" by (simp add: bs)
  note after = h1_after_path_render [OF this v, of "length pre" r]
  have "ParseH1Request bs True = Some \<lparr>h1_version = version, h1_method = m, h1_path = path, h1_headers = headers, h1_failreason = 0\<rparr>"
    unfolding eq by (subst after) (simp_all add: Let_def r_def no_request_def e hs)
  then show ?thesis by (simp add: bs_def left_def hdrs_def h1_render_def)
qed

section \<open>Users\<close>

lemma fold_AddUser_str:
  "StoreKeyByStr mu \<Longrightarrow> let mu' = fold (\<lambda>uc. AddUser (UserPass_User (NewUserPass uc))) users mu in
    StoreKeyByStr mu' \<and> (IDMap mu' = Map.empty \<longleftrightarrow> users = [] \<and> IDMap mu = Map.empty) \<and>
    (\<forall>s. AuthMap mu' s \<noteq> None \<longleftrightarrow> AuthMap mu s \<noteq> None \<or> (\<exists>uc \<in> set users. UserPass_AuthStr (NewUserPass uc) = s))"
proof (induction users arbitrary: mu)
  case (Cons uc users)
  have "StoreKeyByStr (AddUser (UserPass_User (NewUserPass uc)) mu)" using Cons.prems by (simp add: AddUser_def AddUser_nolock_def)
  from Cons.IH [OF this] Cons.prems show ?case
    by (auto simp: Let_def AddUser_def AddUser_nolock_def UserPass_User_def split: if_splits)
qed simp

lemma http_NewServer_users:
  assumes "http_NewServer [] users = Some s"
  shows "(IDMap (http_users s) = Map.empty \<longleftrightarrow> users = []) \<and>
    (\<forall>str. AuthUserByStr (http_users s) str \<noteq> None \<longleftrightarrow> (\<exists>uc \<in> set users. UserPass_AuthStr (NewUserPass uc) = str))"
  using assms fold_AddUser_str [of "NewMultiUserMap\<lparr>StoreKeyByStr := True\<rparr>" users]
  by (auto simp: http_NewServer_def Let_def AuthUserByStr_def NewMultiUserMap_def)

lemma list_index1_SomeD:
  assumes "list_index [c] xs = Some i"
  shows "\<exists>ys zs. xs = ys @ c # zs \<and> c \<notin> set ys \<and> i = length ys"
proof -
  have "c \<in> set xs" using assms list_index1_eq_None [of c xs] by auto
  then obtain ys zs where "xs = ys @ c # zs" "c \<notin> set ys" using split_list_first by metis
  with assms show ?thesis by (auto simp: list_index1_append)
qed

lemma http_auth_sound:
  "http_auth mu hs = (True, n) \<Longrightarrow>
    \<exists>x u p. \<lparr>Head = proxyAuth_headerBytes, Value = basicAuthValue_prefix @ x\<rparr> \<in> set hs \<and> base64_Decode x = (u @ ch CHR '':'' # p, False) \<and>
      ch CHR '':'' \<notin> set u \<and> AuthUserByStr mu (UserPass_AuthStr (NewUserPassByData u p)) \<noteq> None \<and> n = Some (length u + 1 + length p)"
proof (induction hs)
  case (Cons h hs)
  show ?case
  proof (cases "Head h = proxyAuth_headerBytes")
    case False
    with Cons show ?thesis by (auto split: if_splits)
  next
    case True
    with Cons.prems have pre: "has_prefix (Value h) basicAuthValue_prefix" by (auto split: if_splits)
    then obtain x where x: "Value h = basicAuthValue_prefix @ x" using has_prefixD by blast
    obtain bs err where d: "base64_Decode x = (bs, err)" by (cases "base64_Decode x")
    with True Cons.prems pre x obtain i where i: "\<not> err" "list_index [ch CHR '':''] bs = Some i"
      "AuthUserByStr mu (UserPass_AuthStr (NewUserPassByData (take i bs) (drop (i + 1) bs))) \<noteq> None" "n = Some (length bs)"
      by (auto split: option.splits if_splits)
    from list_index1_SomeD [OF i(2)] obtain u p where up: "bs = u @ ch CHR '':'' # p" "ch CHR '':'' \<notin> set u" "i = length u" by blast
    have "\<lparr>Head = proxyAuth_headerBytes, Value = basicAuthValue_prefix @ x\<rparr> = h" using True x by (cases h) simp
    then show ?thesis using d i up by (intro exI [of _ x] exI [of _ u] exI [of _ p]) auto
  qed
qed simp

text \<open>The header with the credentials of a user.\<close>

definition http_auth_header :: "bytes \<Rightarrow> bytes \<Rightarrow> RawHeader" where
  "http_auth_header u p =
     \<lparr>Head = proxyAuth_headerBytes, Value = basicAuthValue_prefix @ base64_Encode (u @ ch CHR '':'' # p)\<rparr>"

lemma http_auth_complete:
  assumes "ch CHR '':'' \<notin> set u"
  shows "http_auth mu (http_auth_header u p # hs) =
    (AuthUserByStr mu (UserPass_AuthStr (NewUserPassByData u p)) \<noteq> None, Some (length u + 1 + length p))"
  using assms by (simp add: http_auth_header_def base64_Decode_Encode list_index1_append has_prefix_def)

lemma http_Handshake_parsed:
  assumes "ParseH1Request req True = Some r" "h1_failreason r = 0" "req \<noteq> []" "length req \<le> MTU"
    and "if IDMap (http_users s) \<noteq> Map.empty then http_auth (http_users s) (h1_headers r) = (True, Some n) else n = length req"
    and "http_address s (h1_method r) (h1_path r) = Inr addressStr" "NewAddr addressStr = Inr a"
  shows "http_Handshake s (req # cs) = Some (Inr
    \<lparr>http_target = a, http_written = (if h1_method r = ''CONNECT'' then [connectReturnBytes] else []),
     http_newconn = \<lparr>firstData = (if h1_method r = ''CONNECT'' then None else Some (take n req)), http_Conn = cs\<rparr>\<rparr>, cs)"
proof -
  have "src_Read MTU (req # cs) = (Inr req, cs)" using assms(4) by simp
  with assms show ?thesis by (simp add: http_Handshake_def Let_def del: src_Read.simps split: if_splits)
qed

lemma http_Handshake_accepted:
  assumes "http_Handshake s conn = Some (Inr res, conn')"
  shows "\<exists>req r. src_Read MTU conn = (Inr req, conn') \<and> ParseH1Request req True = Some r \<and> h1_failreason r = 0 \<and>
    (IDMap (http_users s) \<noteq> Map.empty \<longrightarrow> (\<exists>n. http_auth (http_users s) (h1_headers r) = (True, n)))"
proof -
  obtain v c where rd: "src_Read MTU conn = (v, c)" by fastforce
  with assms obtain req where req: "v = Inr req" by (cases v) (auto simp: http_Handshake_def)
  obtain r where r: "ParseH1Request req True = Some r" using h1_total by blast
  obtain ok n where a: "http_auth (http_users s) (h1_headers r) = (ok, n)" by fastforce
  show ?thesis
    using assms rd req r a by (auto simp: http_Handshake_def Let_def split: if_splits sum.splits)
qed

section \<open>Properties\<close>

text \<open>C29: 
  A proxy with users lets nobody through without the credentials of one: an accepted connection has a request that the parser takes,
  with a \<open>Proxy-Authorization\<close> header whose decoded value is the name and password of a configured user.
\<close>
theorem http_handshake_sound:
  assumes "http_NewServer [] users = Some s" and "users \<noteq> []" and "http_Handshake s conn = Some (Inr res, conn')"
  shows "\<exists>req r x u p uc. src_Read MTU conn = (Inr req, conn') \<and> ParseH1Request req True = Some r \<and> h1_failreason r = 0 \<and>
    \<lparr>Head = proxyAuth_headerBytes, Value = basicAuthValue_prefix @ x\<rparr> \<in> set (h1_headers r) \<and>
    base64_Decode x = (u @ ch CHR '':'' # p, False) \<and>
    uc \<in> set users \<and> UserPass_AuthStr (NewUserPass uc) = UserPass_AuthStr (NewUserPassByData u p)"
proof -
  from http_Handshake_accepted [OF assms(3)] http_NewServer_users [OF assms(1)] assms(2) obtain req r n where
    "src_Read MTU conn = (Inr req, conn')" "ParseH1Request req True = Some r" "h1_failreason r = 0"
    "http_auth (http_users s) (h1_headers r) = (True, n)" by blast
  moreover from http_auth_sound [OF this(4)] http_NewServer_users [OF assms(1)] obtain x u p uc where
    "\<lparr>Head = proxyAuth_headerBytes, Value = basicAuthValue_prefix @ x\<rparr> \<in> set (h1_headers r)"
    "base64_Decode x = (u @ ch CHR '':'' # p, False)" "uc \<in> set users"
    "UserPass_AuthStr (NewUserPass uc) = UserPass_AuthStr (NewUserPassByData u p)" by blast
  ultimately show ?thesis by blast
qed

text \<open>
  A proxy without users forwards a plain request as it came: the target is the host of the URL, with port 80 when none is given, and the
  first read with room for it returns the whole request, body included.
\<close>
theorem http_request_forwarded:
  assumes "m \<in> set h1_methods" and "m \<noteq> ''CONNECT''" and "proxy_path_ok m path" and "length version = 3"
    and "headers \<noteq> []" and "list_all header_ok headers" and "length req \<le> MTU" and "length req \<le> k"
    and "req = h1_render m path version headers body"
    and "IDMap (http_users s) = Map.empty" and "\<not> OnlyConnect s"
    and "url_Parse_Host path = Inr host" and "NewAddr (if CHR '':'' \<in> set host then host else host @ '':80'') = Inr a"
  shows "\<exists>res. http_Handshake s (req # cs) = Some (Inr res, cs) \<and> http_target res = a \<and> http_written res = [] \<and>
    http_Read k (http_newconn res) = (Inr req, \<lparr>firstData = None, http_Conn = cs\<rparr>)"
proof -
  let ?r = "\<lparr>h1_version = version, h1_method = m, h1_path = path, h1_headers = headers, h1_failreason = 0\<rparr>"
  have parse: "ParseH1Request req True = Some ?r" unfolding assms(9) by (rule h1_proxy_complete [OF assms(1,3-6)])
  have "http_address s m path = Inr (if CHR '':'' \<in> set host then host else host @ '':80'')"
    using assms(2,11,12) by (simp add: http_address_def)
  moreover have "req \<noteq> []" by (simp add: assms(9) h1_render_def h1_head_def)
  ultimately show ?thesis
    using http_Handshake_parsed [OF parse _ _ assms(7), of s "length req" _ a cs] assms by (simp add: http_Read_def)
qed

text \<open>
  A proxy with users cuts a plain request: \<open>n\<close>, the length of the request, is overwritten by the length of the decoded credentials, so
  the target gets only that many bytes of the request, and the rest of it is lost.
\<close>
theorem http_authenticated_request_cut:
  assumes "m \<in> set h1_methods" and "m \<noteq> ''CONNECT''" and "proxy_path_ok m path" and "length version = 3"
    and "list_all header_ok headers" and "header_ok (http_auth_header u p)" and "length req \<le> MTU"
    and "req = h1_render m path version (http_auth_header u p # headers) body"
    and "IDMap (http_users s) \<noteq> Map.empty" and "\<not> OnlyConnect s" and "ch CHR '':'' \<notin> set u"
    and "AuthUserByStr (http_users s) (UserPass_AuthStr (NewUserPassByData u p)) \<noteq> None"
    and "url_Parse_Host path = Inr host" and "NewAddr (if CHR '':'' \<in> set host then host else host @ '':80'') = Inr a"
  shows "\<exists>res. http_Handshake s (req # cs) = Some (Inr res, cs) \<and> http_target res = a \<and>
    (\<forall>k. http_Read k (http_newconn res) = (Inr (take k (take (length u + 1 + length p) req)), \<lparr>firstData = None, http_Conn = cs\<rparr>)) \<and>
    length u + 1 + length p < length req"
proof -
  let ?hs = "http_auth_header u p # headers"
  let ?r = "\<lparr>h1_version = version, h1_method = m, h1_path = path, h1_headers = ?hs, h1_failreason = 0\<rparr>"
  have parse: "ParseH1Request req True = Some ?r"
    unfolding assms(8) by (rule h1_proxy_complete [OF assms(1,3,4)]) (use assms(5,6) in simp_all)
  have addr: "http_address s m path = Inr (if CHR '':'' \<in> set host then host else host @ '':80'')"
    using assms(2,10,13) by (simp add: http_address_def)
  have "length (base64_Encode bs) \<ge> length bs" for bs by (induction bs rule: base64_Encode.induct) auto
  from this [of "u @ ch CHR '':'' # p"] have "length u + 1 + length p \<le> length (header_line (http_auth_header u p))"
    by (simp add: header_line_def http_auth_header_def)
  also have "\<dots> \<le> length (join CRLF (map header_line ?hs))" by (cases headers) simp_all
  also have "\<dots> < length req" by (simp add: assms(8) h1_render_def h1_head_def h1_rest_def)
  finally have short: "length u + 1 + length p < length req" .
  then have "req \<noteq> []" by auto
  moreover have "http_auth (http_users s) (h1_headers ?r) = (True, Some (length u + 1 + length p))"
    using http_auth_complete [OF assms(11)] assms(12) by simp
  ultimately show ?thesis
    using short http_Handshake_parsed [OF parse _ _ assms(7), of s "length u + 1 + length p" _ a cs] assms addr by (simp add: http_Read_def)
qed

text \<open>
  \<open>CONNECT\<close> answers 200 and passes the connection on, to the target that the request names; what came in the same read behind the request
  is dropped.
\<close>
theorem http_connect_drops_early_data:
  assumes "path \<noteq> []" and "list_all (\<lambda>b. \<not> stop_byte b) (bytes_of_string path)" and "length version = 3"
    and "headers \<noteq> []" and "list_all header_ok headers" and "length req \<le> MTU" and "req = h1_render ''CONNECT'' path version headers early"
    and "IDMap (http_users s) = Map.empty" and "NewAddr path = Inr a"
  shows "http_Handshake s (req # cs) = Some (Inr \<lparr>http_target = a, http_written = [connectReturnBytes],
    http_newconn = \<lparr>firstData = None, http_Conn = cs\<rparr>\<rparr>, cs)"
proof -
  let ?r = "\<lparr>h1_version = version, h1_method = ''CONNECT'', h1_path = path, h1_headers = headers, h1_failreason = 0\<rparr>"
  have parse: "ParseH1Request req True = Some ?r"
    unfolding assms(7) by (rule h1_proxy_complete [OF _ _ assms(3-5)]) (use assms(1,2) in \<open>simp_all add: h1_methods_def proxy_path_ok_def\<close>)
  have "req \<noteq> []" by (simp add: assms(7) h1_render_def h1_head_def)
  then show ?thesis using http_Handshake_parsed [OF parse _ _ assms(6), of s "length req" path a cs] assms(8,9) by (simp add: http_address_def)
qed


section \<open>Examples\<close>

definition demo_users :: "UserConf list" where
  "demo_users = [\<lparr>confUser = ''a'', confPass = ''b''\<rparr>]"

definition demo_http_server :: "UserConf list \<Rightarrow> http_server" where
  "demo_http_server users =
     \<lparr>http_users = fold (\<lambda>uc. AddUser (UserPass_User (NewUserPass uc))) users (NewMultiUserMap\<lparr>StoreKeyByStr := True\<rparr>), OnlyConnect = False\<rparr>"

lemma demo_http_NewServer: "http_NewServer [] users = Some (demo_http_server users)"
  by (simp add: http_NewServer_def demo_http_server_def)

definition demo_auth :: RawHeader where "demo_auth = http_auth_header (bytes_of_string ''a'') (bytes_of_string ''b'')"

definition demo_request :: "RawHeader list \<Rightarrow> bytes" where
  "demo_request hs = h1_render ''GET'' ''http://a.b/'' ''1.1'' hs [1, 2]"

lemma demo_path: "proxy_path_ok ''GET'' ''http://a.b/''" "list_all header_ok sample_headers" "url_Parse_Host ''http://a.b/'' = Inr ''a.b''"
    "NewAddr ''a.b:80'' = Inr (zero_Addr\<lparr>Name := ''a.b'', Port := 80\<rparr>)"
  by code_simp+

lemma demo_auth_ok: "header_ok demo_auth" by code_simp

lemma demo_request_length: "length (demo_request sample_headers) \<le> MTU" "length (demo_request [demo_auth]) \<le> MTU"
  by (code_simp, code_simp)

lemma http_request_forwarded_witness:
  "\<exists>res. http_Handshake (demo_http_server []) [demo_request sample_headers, [3]] = Some (Inr res, [[3]]) \<and>
    http_target res = zero_Addr\<lparr>Name := ''a.b'', Port := 80\<rparr> \<and> http_written res = [] \<and>
    http_Read MTU (http_newconn res) = (Inr (demo_request sample_headers), \<lparr>firstData = None, http_Conn = [[3]]\<rparr>)"
  by (rule http_request_forwarded [OF _ _ demo_path(1) _ _ demo_path(2) demo_request_length(1) demo_request_length(1) demo_request_def [of sample_headers]
        _ _ demo_path(3)])
    (use http_NewServer_users [OF demo_http_NewServer, of "[]"] demo_path(4) in
      \<open>auto simp: h1_methods_def sample_headers_def demo_http_server_def\<close>)

lemma demo_user_ok:
  "IDMap (http_users (demo_http_server demo_users)) \<noteq> Map.empty"
  "AuthUserByStr (http_users (demo_http_server demo_users)) (UserPass_AuthStr (NewUserPassByData (bytes_of_string ''a'') (bytes_of_string ''b''))) \<noteq> None"
  using http_NewServer_users [OF demo_http_NewServer, of demo_users]
  by (simp_all add: demo_users_def NewUserPass_def NewUserPassByData_def)

lemma http_authenticated_request_cut_witness:
  "\<exists>res. http_Handshake (demo_http_server demo_users) [demo_request [demo_auth]] = Some (Inr res, []) \<and>
    fst (http_Read MTU (http_newconn res)) = Inr (bytes_of_string ''GET'')"
proof -
  have req: "demo_request [demo_auth] = h1_render ''GET'' ''http://a.b/'' ''1.1'' [http_auth_header (bytes_of_string ''a'') (bytes_of_string ''b'')] [1, 2]"
    by (simp add: demo_request_def demo_auth_def)
  have "\<exists>res. http_Handshake (demo_http_server demo_users) [demo_request [demo_auth]] = Some (Inr res, []) \<and>
      http_target res = zero_Addr\<lparr>Name := ''a.b'', Port := 80\<rparr> \<and>
      (\<forall>k. http_Read k (http_newconn res) =
        (Inr (take k (take (length (bytes_of_string ''a'') + 1 + length (bytes_of_string ''b'')) (demo_request [demo_auth]))), \<lparr>firstData = None, http_Conn = []\<rparr>)) \<and>
      length (bytes_of_string ''a'') + 1 + length (bytes_of_string ''b'') < length (demo_request [demo_auth])"
    by (rule http_authenticated_request_cut [OF _ _ demo_path(1) _ _ demo_auth_ok [unfolded demo_auth_def] demo_request_length(2)
          req demo_user_ok(1) _ _ demo_user_ok(2) demo_path(3)])
      (use demo_path(4) in \<open>auto simp: h1_methods_def demo_http_server_def demo_auth_def char_to_byte_def bytes_of_string_def\<close>)
  moreover have "take MTU (take (length (bytes_of_string ''a'') + 1 + length (bytes_of_string ''b'')) (demo_request [demo_auth])) = bytes_of_string ''GET''"
    by (simp add: demo_request_def h1_render_def h1_head_def bytes_of_string_def MTU_def)
  ultimately show ?thesis by (metis fst_conv)
qed

lemma http_handshake_sound_witness:
  "\<exists>res. http_Handshake (demo_http_server demo_users) [demo_request [demo_auth]] = Some (Inr res, []) \<and>
    (\<exists>req r x u p uc. src_Read MTU [demo_request [demo_auth]] = (Inr req, []) \<and> ParseH1Request req True = Some r \<and> uc \<in> set demo_users \<and>
      \<lparr>Head = proxyAuth_headerBytes, Value = basicAuthValue_prefix @ x\<rparr> \<in> set (h1_headers r) \<and>
      base64_Decode x = (u @ ch CHR '':'' # p, False) \<and>
      UserPass_AuthStr (NewUserPass uc) = UserPass_AuthStr (NewUserPassByData u p))"
proof -
  let ?r = "\<lparr>h1_version = ''1.1'', h1_method = ''GET'', h1_path = ''http://a.b/'', h1_headers = [demo_auth], h1_failreason = 0\<rparr>"
  have parse: "ParseH1Request (demo_request [demo_auth]) True = Some ?r"
    unfolding demo_request_def by (rule h1_proxy_complete [OF _ demo_path(1)]) (simp_all add: h1_methods_def demo_auth_ok)
  have auth: "http_auth (http_users (demo_http_server demo_users)) [demo_auth] = (True, Some 3)"
    using http_auth_complete [of "bytes_of_string ''a''"] demo_user_ok(2) by (simp add: demo_auth_def bytes_of_string_def)
  have "demo_request [demo_auth] \<noteq> []" by (simp add: demo_request_def h1_render_def h1_head_def)
  from http_Handshake_parsed [OF parse _ this demo_request_length(2), of "demo_http_server demo_users" 3 "''a.b:80''" _ "[]"] auth demo_user_ok(1) demo_path(3,4)
  obtain res where res: "http_Handshake (demo_http_server demo_users) [demo_request [demo_auth]] = Some (Inr res, [])"
    by (auto simp: http_address_def demo_http_server_def)
  have "demo_users \<noteq> []" by (simp add: demo_users_def)
  from http_handshake_sound [OF demo_http_NewServer this res] res show ?thesis by blast
qed

lemma http_connect_drops_early_data_witness:
  "http_Handshake (demo_http_server []) [h1_render ''CONNECT'' ''a.b:443'' ''1.1'' sample_headers [1, 2], [3]] =
    Some (Inr \<lparr>http_target = zero_Addr\<lparr>Name := ''a.b'', Port := 443\<rparr>, http_written = [connectReturnBytes],
      http_newconn = \<lparr>firstData = None, http_Conn = [[3]]\<rparr>\<rparr>, [[3]])"
proof -
  have "length (h1_render ''CONNECT'' ''a.b:443'' ''1.1'' sample_headers [1, 2]) \<le> MTU" "NewAddr ''a.b:443'' = Inr (zero_Addr\<lparr>Name := ''a.b'', Port := 443\<rparr>)"
    "list_all (\<lambda>b. \<not> stop_byte b) (bytes_of_string ''a.b:443'')"
    by code_simp+
  then show ?thesis
    by (intro http_connect_drops_early_data [OF _ _ _ _ demo_path(2)])
      (auto simp: sample_headers_def demo_http_server_def NewMultiUserMap_def)
qed

text \<open>An IPv6 host without a port is refused, as the colons are taken for a port; a URL without a host goes to port 80 of this machine.\<close>

lemma http_ipv6_without_port:
  "url_Parse_Host ''http://[::1]/'' = Inr ''[::1]'' \<and> NewAddr ''[::1]'' = Inl (NewErr ''missing port in address'')"
  by code_simp

lemma http_no_host: "url_Parse_Host ''http:///x'' = Inr [] \<and> NewAddr '':80'' = Inr (set_host ''127.0.0.1'' (zero_Addr\<lparr>Port := 80\<rparr>))"
proof -
  have "url_Parse_Host ''http:///x'' = Inr []" "SplitHostPort '':80'' = Inr ([], ''80'')" "Atoi ''80'' = Inr 80" by code_simp+
  then show ?thesis by (simp add: NewAddr_def NewAddrByHostPort_def)
qed

end
