(* ===== verification/ProxySocks5.thy ===== *)
theory ProxySocks5
  imports NetAddrText UtilsUser MsgCodec
begin

text \<open>
  The socks5 protocol (proxy/socks5): the server handshake with its two authentication methods,
  the client handshake, the UDP association and the datagrams of both ends. The server reads
  every message with one \<open>Read\<close> into one buffer of 1500 bytes from a pool, so what the buffer held
  before is an argument, and bytes behind the end of a message are the old ones. \<open>None\<close> is an index or
  a slice expression out of range, which ends the process: nothing recovers. A connection is the
  list of chunks its reads return, with the messages written to it and the outcomes of the writes to
  come. The resolver, the port that \<open>RandPort\<close> draws and the attempt to listen on it are arguments.
\<close>

section \<open>Constants\<close>

definition Version5 :: byte where "Version5 = 5"
definition AuthNone :: byte where "AuthNone = 0"
definition AuthPassword :: byte where "AuthPassword = 2"
definition AuthNoACCEPTABLE :: byte where "AuthNoACCEPTABLE = 0xff"
definition s5_CmdConnect :: byte where "s5_CmdConnect = 1"
definition s5_CmdBind :: byte where "s5_CmdBind = 2"
definition s5_CmdUDPAssociate :: byte where "s5_CmdUDPAssociate = 3"

lemmas s5_consts = Version5_def AuthNone_def AuthPassword_def AuthNoACCEPTABLE_def s5_CmdConnect_def
  s5_CmdBind_def s5_CmdUDPAssociate_def

definition commmonTCP_HandshakeReply :: bytes where
  "commmonTCP_HandshakeReply = [Version5, 0, 0, 1, 0, 0, 0, 0, 0, 0]"

section \<open>Connections\<close>

record s5conn =
  inp :: "bytes list"
  out :: "bytes list"
  wok :: "bool list"

definition s5_Write :: "bytes \<Rightarrow> s5conn \<Rightarrow> goerr option \<times> s5conn" where
  "s5_Write p c =
     (if wok c \<noteq> [] \<and> \<not> hd (wok c) then (Some (NewErr ''write''), c\<lparr>wok := tl (wok c)\<rparr>)
      else (None, c\<lparr>out := out c @ [p], wok := tl (wok c)\<rparr>))"

text \<open>\<open>n, err = underlay.Read(buf)\<close>: the bytes read, the error, the buffer afterwards.\<close>

definition s5_Read :: "bytes \<Rightarrow> s5conn \<Rightarrow> nat \<times> goerr option \<times> bytes \<times> s5conn" where
  "s5_Read buf c =
     (case src_Read (length buf) (inp c) of
        (Inl e, s) \<Rightarrow> (0, Some e, buf, c\<lparr>inp := s\<rparr>)
      | (Inr got, s) \<Rightarrow> (length got, None, got @ drop (length got) buf, c\<lparr>inp := s\<rparr>))"

section \<open>The server\<close>

record s5Server =
  s5_users :: MultiUserMap
  s5_network :: string
  s5_fullcone :: bool

definition s5_NewServer :: "string \<Rightarrow> UserConf list \<Rightarrow> string \<Rightarrow> bool \<Rightarrow> s5Server option" where
  "s5_NewServer uuid users network cone =
     (let mu = NewMultiUserMap\<lparr>StoreKeyByStr := True\<rparr>;
          mk = (\<lambda>mu. \<lparr>s5_users = fold (\<lambda>uc. AddUser (UserPass_User (NewUserPass uc))) users mu,
                     s5_network = network, s5_fullcone = cone\<rparr>) in
      if uuid = [] then Some (mk mu)
      else case InitWithStr \<lparr>UserID = [], Password = []\<rparr> uuid of
             None \<Rightarrow> None
           | Some (ok, up) \<Rightarrow> Some (mk (if ok then AddUser (UserPass_User up) mu else mu)))"

subsection \<open>Authentication\<close>

text \<open>The variables of the loop over the methods: \<open>n\<close>, the buffer, which methods were seen, \<open>returnErr\<close>
  and the connection. An iteration goes on, breaks (authed or not) or returns.\<close>

record s5loop =
  l_n :: nat
  l_buf :: bytes
  l_none :: bool
  l_pass :: bool
  l_err :: "goerr option"
  l_conn :: s5conn

datatype s5flow = Next s5loop | Break bool s5loop | Ret s5loop

definition fail_with :: "string \<Rightarrow> s5loop \<Rightarrow> s5loop" where
  "fail_with t st = st\<lparr>l_err := Some (NewErr t)\<rparr>"

definition authNone :: "s5Server \<Rightarrow> s5conn \<Rightarrow> goerr option \<times> s5conn" where
  "authNone srv c =
     (if IDMap (s5_users srv) = Map.empty then
        (case s5_Write [Version5, AuthNone] c of
           (Some e, c) \<Rightarrow> (Some (err_wrap ''failed to write hello response'' e), c)
         | (None, c) \<Rightarrow> (None, c))
      else (Some (NewErr ''require Password but got AuthNone''), c))"

text \<open>The user and password message: \<open>ab\<close> is the memory from the first byte of \<open>authBs\<close> on, \<open>alen\<close> the
  length of \<open>authBs\<close>. The positions are sums of bytes and wrap; a slice may reach behind the
  length, up to the capacity.\<close>

definition s5_check_password :: "s5Server \<Rightarrow> bytes \<Rightarrow> nat \<Rightarrow> s5loop \<Rightarrow> s5flow option" where
  "s5_check_password srv ab alen st =
     (if alen < 5 \<or> ab ! 0 \<noteq> 1 \<or> ab ! 1 = 0 then Some (Next (fail_with ''read socks5 auth failed'' st))
      else
        let ulen = ab ! 1 in
        if unat ulen + 2 > l_n st then Some (Next (fail_with ''read socks5 auth failed, ulen too long'' st))
        else do {
          ubytes \<leftarrow> bytes_slice ab 2 (unat (2 + ulen));
          plen \<leftarrow> byte_at (take alen ab) (unat (2 + ulen));
          if unat ulen + 2 + unat plen > l_n st
          then Some (Next (fail_with ''read socks5 auth failed, ulen too long'' st))
          else do {
            pbytes \<leftarrow> bytes_slice ab (unat (2 + ulen + 1)) (unat (2 + ulen + 1 + plen));
            let thisUP = NewUserPassByData ubytes pbytes;
            Some (if AuthUserByStr (s5_users srv) (UserPass_AuthStr thisUP) \<noteq> None then
                    (case s5_Write [1, 0] (l_conn st) of
                       (Some e, c) \<Rightarrow>
                         Ret (st\<lparr>l_err := Some (err_wrap ''failed to write auth response'' e), l_conn := c\<rparr>)
                     | (None, c) \<Rightarrow> Break True (st\<lparr>l_err := None, l_conn := c\<rparr>))
                  else
                    (case s5_Write [1, 1] (l_conn st) of
                       (err, c) \<Rightarrow> Ret (st\<lparr>l_err := err, l_conn := c\<rparr>))) } })"

definition s5_password :: "s5Server \<Rightarrow> nat \<Rightarrow> s5loop \<Rightarrow> s5flow option" where
  "s5_password srv nmethods st =
     (if IDMap (s5_users srv) = Map.empty
      then Some (Next (fail_with ''not require Password but got AuthPassword'' st))
      else
        case s5_Write [Version5, AuthPassword] (l_conn st) of
          (Some e, c) \<Rightarrow>
            Some (Next (st\<lparr>l_err := Some (err_wrap ''failed to write hello response'' e), l_conn := c\<rparr>))
        | (None, c) \<Rightarrow>
            if l_n st = 2 + nmethods then
              (case s5_Read (l_buf st) c of
                 (n, err, buf, c) \<Rightarrow>
                   let st = st\<lparr>l_n := n, l_buf := buf, l_conn := c\<rparr> in
                   (case err of
                      Some e \<Rightarrow> Some (Next (st\<lparr>l_err := Some (err_wrap ''read socks5 auth failed'' e)\<rparr>))
                    | None \<Rightarrow> s5_check_password srv buf n st))
            else s5_check_password srv (drop 3 (l_buf st)) (l_n st - 3) (st\<lparr>l_conn := c\<rparr>))"

definition s5_method :: "s5Server \<Rightarrow> nat \<Rightarrow> byte \<Rightarrow> s5loop \<Rightarrow> s5flow option" where
  "s5_method srv nmethods m st =
     (if m = AuthNone then
        (if l_none st then Some (Break False st)
         else
           let st = st\<lparr>l_none := True\<rparr> in
           if IDMap (s5_users srv) \<noteq> Map.empty then Some (Next st)
           else
             (case authNone srv (l_conn st) of
                (Some e, c) \<Rightarrow> Some (Ret (st\<lparr>l_err := Some e, l_conn := c\<rparr>))
              | (None, c) \<Rightarrow> Some (Break True (st\<lparr>l_err := None, l_conn := c\<rparr>))))
      else if m = AuthPassword then
        (if l_pass st then Some (Break False st) else s5_password srv nmethods (st\<lparr>l_pass := True\<rparr>))
      else Some (Next st))"

text \<open>\<open>for i := 2; i < 2+nmethods; i++\<close>: the methods are read from the buffer of the moment.\<close>

fun s5_methods :: "s5Server \<Rightarrow> nat \<Rightarrow> nat \<Rightarrow> nat \<Rightarrow> s5loop \<Rightarrow> s5flow option" where
  "s5_methods srv nmethods i 0 st = Some (Break False st)"
| "s5_methods srv nmethods i (Suc k) st =
     (case s5_method srv nmethods (l_buf st ! i) st of
        Some (Next st') \<Rightarrow> s5_methods srv nmethods (i + 1) k st'
      | r \<Rightarrow> r)"

subsection \<open>The request\<close>

text \<open>The layout of an address: \<open>l\<close>, \<open>off\<close> and the length of \<open>theIP\<close>, which is nil for a name.\<close>

definition s5_layout :: "byte \<Rightarrow> byte \<Rightarrow> (nat \<times> nat \<times> nat option) option" where
  "s5_layout atyp b4 =
     (if atyp = ATypIP4 then Some (2 + 4, 4, Some 4)
      else if atyp = ATypIP6 then Some (2 + 16, 4, Some 16)
      else if atyp = ATypDomain then Some (2 + unat b4, 5, None)
      else None)"

definition s5_take_addr :: "bytes \<Rightarrow> nat \<Rightarrow> nat \<Rightarrow> nat option \<Rightarrow> string \<Rightarrow> Addr" where
  "s5_take_addr bs off l ipn network =
     \<lparr>Network = network,
      Name = (case ipn of Some _ \<Rightarrow> [] | None \<Rightarrow> string_of_bytes (take (l - 2) (drop off bs))),
      IP = map_option (\<lambda>n. copy_into n (drop off bs)) ipn,
      Port = int_add_be (bs ! (off + l - 2)) (bs ! (off + l - 1))\<rparr>"

text \<open>A name that is the text of an IP.\<close>

definition s5_name_ip :: "Addr \<Rightarrow> Addr" where
  "s5_name_ip a = (case ParseIP (Name a) of Some ip \<Rightarrow> a\<lparr>IP := Some ip\<rparr> | None \<Rightarrow> a)"

record ServerUDPConn =
  clientSupposedAddr :: "net_addr option"
  fullcone :: bool

record s5env =
  bindPort :: nat
  listenOk :: bool
  resolve :: "string \<Rightarrow> net_addr option"

text \<open>The results of \<open>Handshake\<close>: an error, all results nil, a connection and its target, or a
  UDP channel.\<close>

datatype s5result = HsErr goerr | HsNothing | HsTCP Addr | HsUDP ServerUDPConn Addr

definition s5_command :: "s5Server \<Rightarrow> s5env \<Rightarrow> bytes \<Rightarrow> s5conn \<Rightarrow> s5result \<times> s5conn" where
  "s5_command srv env buf c =
     (case s5_Read buf c of
        (n, err, bs, c) \<Rightarrow>
          if err \<noteq> None \<or> n < 7 then (HsErr (NewErr ''read socks5 failed, msgTooShort''), c)
          else
            let cmd = bs ! 1 in
            if cmd = s5_CmdBind then (HsErr (NewErr ''unsuppoted command''), c)
            else
              (case s5_layout (bs ! 3) (bs ! 4) of
                 None \<Rightarrow> (HsErr (NewErr ''unknown address type''), c)
               | Some (l, off, ipn) \<Rightarrow>
                   if length bs - off < l then (HsErr (invalid_data ''short command request''), c)
                   else if cmd = s5_CmdUDPAssociate then
                     (if s5_network srv = ''tcp'' then
                        (HsErr (NewErr ''socks5's network set to tcp, but got CmdUDPAssociate from client''), c)
                      else if \<not> listenOk env then (HsErr (NewErr ''UDPAssociate: unable to listen udp''), c)
                      else
                        (case s5_Write [Version5, 0, 0, 1, 0, 0, 0, 0, byte_int16_shr8 (int (bindPort env)),
                                        byte_int16_shl8_shr8 (int (bindPort env))] c of
                           (Some e, c) \<Rightarrow> (HsErr (err_wrap ''failed to write command response'' e), c)
                         | (None, c) \<Rightarrow>
                             let clientFutureAddr = s5_name_ip (s5_take_addr bs off l ipn ''udp'') in
                             (HsUDP \<lparr>clientSupposedAddr = ToUDPAddr (resolve env) clientFutureAddr,
                                     fullcone = s5_fullcone srv\<rparr> clientFutureAddr, c)))
                   else
                     (case s5_Write commmonTCP_HandshakeReply c of
                        (Some e, c) \<Rightarrow> (HsErr (err_wrap ''failed to write command response'' e), c)
                      | (None, c) \<Rightarrow> (HsTCP (s5_name_ip (s5_take_addr bs off l ipn ''tcp'')), c))))"

definition socks5_Handshake :: "s5Server \<Rightarrow> s5env \<Rightarrow> bytes \<Rightarrow> s5conn \<Rightarrow> (s5result \<times> s5conn) option" where
  "socks5_Handshake srv env stale c =
     (case s5_Read stale c of
        (n, err, bs, c) \<Rightarrow>
          if err \<noteq> None \<or> n < 3 then Some (HsErr (NewErr ''failed to read hello''), c)
          else if bs ! 0 \<noteq> Version5 then Some (HsErr (NewErr ''unsupported socks version''), c)
          else
            let nmethods = unat (bs ! 1) in
            if nmethods = 0 \<or> n < 2 + nmethods then
              Some (HsErr (NewErr ''nmethods==0||n < 2+nmethods''), snd (s5_Write [Version5, AuthNoACCEPTABLE] c))
            else
              (case s5_methods srv nmethods 2 nmethods
                      \<lparr>l_n = n, l_buf = bs, l_none = False, l_pass = False, l_err = None, l_conn = c\<rparr> of
                 None \<Rightarrow> None
               | Some (Ret st) \<Rightarrow>
                   Some (case l_err st of Some e \<Rightarrow> HsErr e | None \<Rightarrow> HsNothing, l_conn st)
               | Some (Break True st) \<Rightarrow> Some (s5_command srv env (l_buf st) (l_conn st))
               | Some (Break False st) \<Rightarrow>
                   Some (HsErr (ErrInErr ''socks5 not authed'' (l_err st) []),
                         snd (s5_Write [Version5, AuthNoACCEPTABLE] (l_conn st)))
               | Some (Next st) \<Rightarrow> None))"

section \<open>Datagrams of the server\<close>

text \<open>\<open>ReadFromUDP\<close>: an error, the datagram and its source.\<close>

type_synonym udp_read = "goerr option \<times> bytes \<times> net_addr"

definition IP_Equal :: "bytes option \<Rightarrow> bytes option \<Rightarrow> bool" where
  "IP_Equal ip x \<longleftrightarrow> wire_ip ip = wire_ip x \<or> (ip_len ip = 0 \<and> ip_len x = 0)"

definition IsUnspecified :: "bytes option \<Rightarrow> bool" where
  "IsUnspecified ip \<longleftrightarrow> IP_Equal ip (Some (replicate 4 0)) \<or> IP_Equal ip (Some (replicate 16 0))"

definition supposed_is_nothing :: "net_addr option \<Rightarrow> bool" where
  "supposed_is_nothing a \<longleftrightarrow> (case a of None \<Rightarrow> True | Some (ip, _) \<Rightarrow> ip_len ip < 3 \<or> IsUnspecified ip)"

text \<open>\<open>ReadMsg\<close> reads into a packet from a pool; \<open>stale\<close> is what it held. The result is the payload,
  the address and the error, with the new state.\<close>

definition s5_ReadMsg :: "ServerUDPConn \<Rightarrow> bytes \<Rightarrow> udp_read
    \<Rightarrow> ((bytes \<times> Addr \<times> goerr option) \<times> ServerUDPConn) option" where
  "s5_ReadMsg u stale rd =
     (case rd of (err, data, addr) \<Rightarrow>
        let got = take (length stale) data; n = length got; bs = got @ drop n stale;
            nothing = supposed_is_nothing (clientSupposedAddr u) in
        if err \<noteq> None then
          (if n = 0 then Some (([], zero_Addr, err), u) else Some ((got, NewAddrFromUDPAddr addr, err), u))
        else if n < 6 then Some (([], zero_Addr, Some (err_text ''socks5 UDPConn short read'')), u)
        else
          let nothing = (nothing \<or> (case clientSupposedAddr u of None \<Rightarrow> True
                | Some (ip, port) \<Rightarrow> \<not> IP_Equal (fst addr) ip \<or> snd addr \<noteq> port)) in
          (case s5_layout (bs ! 3) (bs ! 4) of
             None \<Rightarrow> Some (([], zero_Addr, Some (err_text ''socks5 read UDPConn unknown atype'')), u)
           | Some (l, off, ipn) \<Rightarrow>
               if length bs - off < l
               then Some (([], zero_Addr, Some (err_text ''socks5 UDPConn short command request'')), u)
               else do {
                 payload \<leftarrow> bytes_slice got (off + l) n;
                 Some ((payload, s5_take_addr bs off l ipn ''udp'', None),
                       if nothing then u\<lparr>clientSupposedAddr := Some addr\<rparr> else u) }))"

text \<open>\<open>WriteMsg\<close>: the datagram, which goes to \<open>clientSupposedAddr\<close>.\<close>

definition s5_WriteMsg :: "bytes \<Rightarrow> Addr \<Rightarrow> bytes" where
  "s5_WriteMsg bs raddr =
     [0, 0, 0] @ [if 4 < ip_len (IP raddr) then ATypIP6 else ATypIP4] @ (case IP raddr of None \<Rightarrow> [] | Some ip \<Rightarrow> ip)
     @ [byte_int16_shr8 (Port raddr), byte_int16_shl8_shr8 (Port raddr)] @ bs"

section \<open>The client\<close>

text \<open>The handshake: the array \<open>ba\<close> starts as zeros, the last read goes to 100 bytes from a pool.\<close>

definition s5_method_of :: "UserPass \<Rightarrow> byte" where
  "s5_method_of up = (if UserPass_Valid up then AuthPassword else AuthNone)"

definition s5_password_msg :: "UserPass \<Rightarrow> bytes" where
  "s5_password_msg up =
     [1, word_of_nat (length (UserID up))] @ UserID up @ [word_of_nat (length (Password up))] @ Password up"

definition s5_request_msg :: "Addr \<Rightarrow> bytes" where
  "s5_request_msg target = [Version5, s5_CmdConnect, 0] @ socks_wire target"

definition s5_client_connect :: "bytes \<Rightarrow> bytes \<Rightarrow> Addr \<Rightarrow> s5conn \<Rightarrow> goerr option \<times> s5conn" where
  "s5_client_connect stale firstPayload target c =
     (case s5_Write (s5_request_msg target) c of
        (Some e, c) \<Rightarrow> (Some e, c)
      | (None, c) \<Rightarrow>
          (case s5_Read (take 100 stale) c of
             (n, Some e, bigBs, c) \<Rightarrow> (Some e, c)
           | (n, None, bigBs, c) \<Rightarrow>
               if n < 10 \<or> bigBs ! 0 \<noteq> 5 \<or> bigBs ! 1 \<noteq> 0 \<or> bigBs ! 2 \<noteq> 0
               then (Some (NumStrErr 2 ''socks5 client handshake failed when reading response''), c)
               else if firstPayload \<noteq> [] then (None, snd (s5_Write firstPayload c))
               else (None, c)))"

definition s5_client_Handshake :: "UserPass \<Rightarrow> bytes \<Rightarrow> bytes \<Rightarrow> Addr \<Rightarrow> s5conn \<Rightarrow> goerr option \<times> s5conn" where
  "s5_client_Handshake up stale firstPayload target c =
     (let adoptedMethod = s5_method_of up; ba = [Version5, 1, adoptedMethod] @ replicate 7 0 in
      case s5_Write (take 3 ba) c of
        (Some e, c) \<Rightarrow> (Some e, c)
      | (None, c) \<Rightarrow>
          (case s5_Read ba c of
             (n, Some e, ba, c) \<Rightarrow> (Some e, c)
           | (n, None, ba, c) \<Rightarrow>
               if n \<noteq> 2 \<or> ba ! 0 \<noteq> Version5 \<or> ba ! 1 \<noteq> adoptedMethod
               then (Some (err_text ''socks5 client handshake,protocol err''), c)
               else if adoptedMethod = AuthPassword then
                 (case s5_Write (s5_password_msg up) c of
                    (Some e, c) \<Rightarrow> (Some e, c)
                  | (None, c) \<Rightarrow>
                      (case s5_Read ba c of
                         (n, Some e, ba, c) \<Rightarrow> (Some e, c)
                       | (n, None, ba, c) \<Rightarrow>
                           if n \<noteq> 2 \<or> ba ! 0 \<noteq> 1 \<or> ba ! 1 \<noteq> 0
                           then (Some (err_text ''socks5 client handshake,auth failed''), c)
                           else s5_client_connect stale firstPayload target c))
               else s5_client_connect stale firstPayload target c))"

text \<open>\<open>Client_EstablishUDPAssociate\<close>: the port of the server.\<close>

definition Client_EstablishUDPAssociate :: "bytes \<Rightarrow> s5conn \<Rightarrow> (goerr + int) \<times> s5conn" where
  "Client_EstablishUDPAssociate stale c =
     (let ba = [Version5, 1, 0] @ replicate 7 0 in
      case s5_Write (take 3 ba) c of
        (Some e, c) \<Rightarrow> (Inl e, c)
      | (None, c) \<Rightarrow>
          (case s5_Read ba c of
             (n, Some e, ba, c) \<Rightarrow> (Inl e, c)
           | (n, None, ba, c) \<Rightarrow>
               if n \<noteq> 2 \<or> ba ! 0 \<noteq> Version5 \<or> ba ! 1 \<noteq> 0
               then (Inl (NumStrErr 1 ''EstablishUDPAssociate,protocol err''), c)
               else
                 (case s5_Write [Version5, s5_CmdUDPAssociate, 0, ATypIP4, 0, 0, 0, 0, 0, 0] c of
                    (Some e, c) \<Rightarrow> (Inl e, c)
                  | (None, c) \<Rightarrow>
                      (case s5_Read (take 100 stale) c of
                         (n, Some e, bigBs, c) \<Rightarrow> (Inl e, c)
                       | (n, None, bigBs, c) \<Rightarrow>
                           if n < 3 \<or> bigBs ! 0 \<noteq> Version5 \<or> bigBs ! 1 \<noteq> 0 \<or> bigBs ! 2 \<noteq> 0
                           then (Inl (NumStrErr 2 ''EstablishUDPAssociate,protocol err''), c)
                           else
                             (case s5_layout (bigBs ! 3) (bigBs ! 4) of
                                None \<Rightarrow> (Inl (err_text ''socks5 handshake UDP unknown atype''), c)
                              | Some (l, off, ipn) \<Rightarrow>
                                  if length bigBs - off < l
                                  then (Inl (err_text ''socks5 handshake UDP short command request''), c)
                                  else if ipn = None
                                  then (Inl (err_text ''socks5 handshake UDP, domain server addr not implemented''), c)
                                  else (Inr (Port (s5_take_addr bigBs off l ipn [])), c))))))"

definition Client_RequestUDP :: "Addr \<Rightarrow> bytes \<Rightarrow> goerr + bytes" where
  "Client_RequestUDP target data =
     (case AddressBytes target of (ab, atype) \<Rightarrow>
        if atype = 0 then Inl ErrWrongParameter
        else
          Inr ([0, 0, 0]
            @ (if atype = AtypIP4 then [ATypIP4] else if atype = AtypIP6 then [ATypIP6]
               else if atype = AtypDomain then [ATypDomain] else [])
            @ ab @ [byte_int16_shr8 (Port target), byte_int16_shl8_shr8 (Port target)] @ data))"

text \<open>\<open>remainBuf.Read(p)\<close> and \<open>ReadByte\<close> with the errors ignored: what is missing stays zero.\<close>

definition s5_buf_take :: "nat \<Rightarrow> bytes \<Rightarrow> bytes \<times> bytes" where
  "s5_buf_take n r = (copy_into n r, drop n r)"

definition s5_buf_byte :: "bytes \<Rightarrow> byte \<times> bytes" where
  "s5_buf_byte r = (case r of [] \<Rightarrow> (0, []) | b # r \<Rightarrow> (b, r))"

definition Client_ReadUDPResponse :: "net_addr option \<Rightarrow> bytes \<Rightarrow> udp_read \<Rightarrow> goerr + Addr \<times> bytes" where
  "Client_ReadUDPResponse supposedServerAddr stale rd =
     (case rd of (err, data, addr) \<Rightarrow>
        let buf = take (length stale) data; n = length buf in
        (case err of
           Some e \<Rightarrow> Inl e
         | None \<Rightarrow>
             if n < 6 then Inl (NewErr ''UDPConn short read err'')
             else if (case supposedServerAddr of None \<Rightarrow> False
                | Some s \<Rightarrow> \<not> (IP_Equal (fst addr) (fst s) \<and> snd addr = snd s))
             then Inl (err_text ''socks5 Client_ReadUDPResponse , got data from unknown source'')
             else if buf ! 0 \<noteq> 0 \<or> buf ! 1 \<noteq> 0 \<or> buf ! 2 \<noteq> 0
             then Inl (NumStrErr 1 ''EstablishUDPAssociate,protocol err'')
             else
               let atype = buf ! 3; r = drop 4 buf;
                   host =
                     (if atype = ATypIP4 then (case s5_buf_take 4 r of (ip, r) \<Rightarrow> Some (zero_Addr\<lparr>IP := Some ip\<rparr>, r))
                      else if atype = ATypIP6 then
                        (case s5_buf_take 16 r of (ip, r) \<Rightarrow> Some (zero_Addr\<lparr>IP := Some ip\<rparr>, r))
                      else if atype = ATypDomain then
                        (case s5_buf_byte r of (nameLen, r) \<Rightarrow>
                           (case s5_buf_take (unat nameLen) r of (name, r) \<Rightarrow>
                              Some (zero_Addr\<lparr>Name := string_of_bytes name\<rparr>, r)))
                      else None) in
               (case host of
                  None \<Rightarrow> Inl (NumStrErr 2 ''EstablishUDPAssociate,protocol err'')
                | Some (target, r) \<Rightarrow>
                    (case s5_buf_byte r of (pb1, r) \<Rightarrow>
                       (case s5_buf_byte r of (pb2, r) \<Rightarrow>
                          Inr (target\<lparr>Port := int_add_be pb1 pb2\<rparr>, r))))))"

text \<open>\<open>ClientUDPConn\<close>, without its socket. Dialing the server over TCP (the connection that results)
  and over UDP (whether it fails) are arguments.\<close>

record ClientUDPConn =
  associated :: bool
  ServerAddr_IP :: "bytes option"
  ServerUDPPort_forMe :: int
  WriteUDP_Target :: "net_addr option"
  cpc_fullcone :: bool

record s5dial =
  dial_tcp :: "goerr + s5conn"
  dial_udp :: "goerr option"
  dial_stale :: bytes

definition Associate :: "s5dial \<Rightarrow> ClientUDPConn \<Rightarrow> goerr option \<times> ClientUDPConn" where
  "Associate d cpc =
     (if associated cpc then (None, cpc)
      else case dial_tcp d of
             Inl e \<Rightarrow> (Some e, cpc)
           | Inr tc \<Rightarrow>
               (case fst (Client_EstablishUDPAssociate (dial_stale d) tc) of
                  Inl e \<Rightarrow> (Some e, cpc\<lparr>ServerUDPPort_forMe := 0\<rparr>)
                | Inr port \<Rightarrow>
                    let cpc = cpc\<lparr>ServerUDPPort_forMe := port\<rparr> in
                    (case dial_udp d of
                       Some e \<Rightarrow> (Some e, cpc)
                     | None \<Rightarrow> (None, cpc\<lparr>associated := True\<rparr>))))"

text \<open>Results of the writers: the datagram that goes to the server.\<close>

definition cpc_WriteMsg :: "s5dial \<Rightarrow> ClientUDPConn \<Rightarrow> bytes \<Rightarrow> Addr \<Rightarrow> (goerr + bytes) \<times> ClientUDPConn" where
  "cpc_WriteMsg d cpc p addr =
     (case Associate d cpc of
        (Some e, cpc) \<Rightarrow> (Inl e, cpc)
      | (None, cpc) \<Rightarrow> (Client_RequestUDP addr p, cpc))"

definition cpc_WriteTo :: "s5dial \<Rightarrow> ClientUDPConn \<Rightarrow> bytes \<Rightarrow> net_addr \<Rightarrow> (goerr + bytes) \<times> ClientUDPConn" where
  "cpc_WriteTo d cpc p raddr = cpc_WriteMsg d cpc p (zero_Addr\<lparr>IP := fst raddr, Port := snd raddr\<rparr>)"

definition cpc_Write :: "s5dial \<Rightarrow> ClientUDPConn \<Rightarrow> bytes \<Rightarrow> (goerr + bytes) \<times> ClientUDPConn" where
  "cpc_Write d cpc p =
     (case Associate d cpc of
        (Some e, cpc) \<Rightarrow> (Inl e, cpc)
      | (None, cpc) \<Rightarrow>
          (case WriteUDP_Target cpc of
             None \<Rightarrow> (Inl (NewErr ''cpc.WriteUDP_Target == nil''), cpc)
           | Some t \<Rightarrow> (Client_RequestUDP (zero_Addr\<lparr>IP := fst t, Port := snd t\<rparr>) p, cpc)))"

definition cpc_ReadMsg :: "s5dial \<Rightarrow> ClientUDPConn \<Rightarrow> bytes \<Rightarrow> udp_read \<Rightarrow> (goerr + Addr \<times> bytes) \<times> ClientUDPConn" where
  "cpc_ReadMsg d cpc stale rd =
     (case Associate d cpc of
        (Some e, cpc) \<Rightarrow> (Inl e, cpc)
      | (None, cpc) \<Rightarrow>
          (Client_ReadUDPResponse (Some (ServerAddr_IP cpc, ServerUDPPort_forMe cpc)) stale rd, cpc))"

text \<open>\<open>ReadFrom(p)\<close>: what is copied into \<open>p\<close>, and the source.\<close>

definition cpc_ReadFrom :: "s5dial \<Rightarrow> ClientUDPConn \<Rightarrow> bytes \<Rightarrow> nat \<Rightarrow> udp_read
    \<Rightarrow> (goerr + bytes \<times> net_addr) \<times> ClientUDPConn" where
  "cpc_ReadFrom d cpc stale n rd =
     (case cpc_ReadMsg d cpc stale rd of
        (Inl e, cpc) \<Rightarrow> (Inl e, cpc)
      | (Inr (target, data), cpc) \<Rightarrow> (Inr (take n data, (IP target, Port target)), cpc))"

text \<open>\<open>EstablishUDPChannel\<close>: the association over \<open>underlay\<close>, then the conn; the first datagram is
  sent at once. \<open>serverIP\<close> is what \<open>ResolveUDPAddr\<close> gives for the configured address.\<close>

definition s5_EstablishUDPChannel :: "string \<Rightarrow> bool \<Rightarrow> goerr + bytes option \<Rightarrow> s5dial \<Rightarrow> s5conn \<Rightarrow> bytes \<Rightarrow> Addr
    \<Rightarrow> (goerr + ClientUDPConn \<times> (goerr + bytes) option) \<times> s5conn" where
  "s5_EstablishUDPChannel network cone serverIP d underlay firstPayload target =
     (if network = ''tcp''
      then (Inl (NewErr ''direct's network set to tcp, but EstablishUDPChannel called''), underlay)
      else case Client_EstablishUDPAssociate (dial_stale d) underlay of
             (Inl e, c) \<Rightarrow> (Inl e, c)
           | (Inr serverPort, c) \<Rightarrow>
               (case serverIP of
                  Inl e \<Rightarrow> (Inl e, c)
                | Inr ip \<Rightarrow>
                    (case dial_udp d of
                       Some e \<Rightarrow> (Inl e, c)
                     | None \<Rightarrow>
                         let cpc = \<lparr>associated = True, ServerAddr_IP = ip, ServerUDPPort_forMe = serverPort,
                                    WriteUDP_Target = None, cpc_fullcone = cone\<rparr> in
                         (Inr (cpc, if firstPayload = [] then None
                                    else Some (fst (cpc_WriteMsg d cpc firstPayload target))), c))))"

section \<open>Reading and writing\<close>

lemma s5_Write_ok [simp]: "wok c = [] \<Longrightarrow> s5_Write p c = (None, c\<lparr>out := out c @ [p]\<rparr>)"
  by (cases c) (simp add: s5_Write_def)

lemma s5_Read_chunk [simp]:
  "inp c = ch # cs \<Longrightarrow> length ch \<le> length buf
    \<Longrightarrow> s5_Read buf c = (length ch, None, ch @ drop (length ch) buf, c\<lparr>inp := cs\<rparr>)"
  by (simp add: s5_Read_def)

text \<open>The buffer and the bytes received: what a read returns is the next part of the stream.\<close>

lemma s5_Read_split:
  assumes "s5_Read buf c = (n, err, bs, c')"
  shows "concat (inp c) = take n bs @ concat (inp c')" "length bs = length buf" "n \<le> length bs" "out c' = out c"
proof -
  have src: "length got \<le> k" if "src_Read k s = (Inr got, s')" for k s got s'
    using that by (cases s) (auto split: if_splits)
  have E: "concat s = concat s'" if "src_Read k s = (Inl e, s')" for k s e s'
    using that by (cases s) (auto split: if_splits)
  show "concat (inp c) = take n bs @ concat (inp c')" "length bs = length buf" "n \<le> length bs" "out c' = out c"
    using assms by (auto simp: s5_Read_def split: prod.splits sum.splits dest: src_Read_split src E)
qed

lemma s5_Write_inp: "s5_Write p c = (e, c') \<Longrightarrow> inp c' = inp c"
  by (auto simp: s5_Write_def split: if_splits)

section \<open>The layout of an address\<close>

lemma AddressBytes_atyp: "dest_ok a \<Longrightarrow> snd (AddressBytes a) \<in> {AtypIP4, AtypDomain, AtypIP6}"
  by (elim AddressBytes_cases) auto

lemma int_add_be_port: "port_ok p \<Longrightarrow> int_add_be (hi8 p) (lo8 p) = p"
  by (simp add: int_add_be_hi_lo port_ok_def)

text \<open>What stands behind three bytes in the format of \<open>socks_wire\<close> is taken apart.\<close>

lemma s5_layout_wire:
  assumes "dest_ok a" and "bs = [p0, p1, p2] @ socks_wire a @ rest"
  shows "\<exists>l off ipn. s5_layout (bs ! 3) (bs ! 4) = Some (l, off, ipn) \<and> off + l = 3 + length (socks_wire a)
    \<and> s5_take_addr bs off l ipn network = (wire_Addr a)\<lparr>Network := network\<rparr>"
proof -
  from assms(1) have port: "port_ok (Port a)" by (simp add: dest_ok_def)
  from assms(1) show ?thesis
  proof (cases rule: AddressBytes_cases)
    case (ip4 i4)
    then have w: "socks_wire a = ATypIP4 # i4 @ [hi8 (Port a), lo8 (Port a)]" by (simp add: socks_wire_def)
    have n: "drop 4 bs = i4 @ [hi8 (Port a), lo8 (Port a)] @ rest" "bs ! 8 = hi8 (Port a)" "bs ! 9 = lo8 (Port a)"
      using ip4(2) by (simp_all add: assms(2) w nth_append nth_Cons')
    show ?thesis
      using ip4 n int_add_be_port [OF port]
      by (intro exI [of _ 6] exI [of _ 4] exI [of _ "Some 4"])
        (auto simp: s5_layout_def assms(2) w s5_take_addr_def wire_Addr_def copy_into_def)
  next
    case (ip6 i6)
    then have w: "socks_wire a = ATypIP6 # i6 @ [hi8 (Port a), lo8 (Port a)]" by (simp add: socks_wire_def)
    have n: "drop 4 bs = i6 @ [hi8 (Port a), lo8 (Port a)] @ rest" "bs ! 20 = hi8 (Port a)" "bs ! 21 = lo8 (Port a)"
      using ip6(3) by (simp_all add: assms(2) w nth_append nth_Cons')
    show ?thesis
      using ip6 n int_add_be_port [OF port]
      by (intro exI [of _ 18] exI [of _ 4] exI [of _ "Some 16"])
        (auto simp: s5_layout_def assms(2) w s5_take_addr_def wire_Addr_def copy_into_def)
  next
    case domain
    let ?k = "length (Name a)"
    from domain have w: "socks_wire a = ATypDomain # word_of_nat ?k # bytes_of_string (Name a) @ [hi8 (Port a), lo8 (Port a)]"
      by (simp add: socks_wire_def)
    have k: "unat (word_of_nat ?k :: byte) = ?k" using domain(2) by (simp add: name_ok_def unat_len_byte)
    have n: "drop 5 bs = bytes_of_string (Name a) @ [hi8 (Port a), lo8 (Port a)] @ rest"
      "bs ! (5 + ?k) = hi8 (Port a)" "bs ! (6 + ?k) = lo8 (Port a)"
      by (simp_all add: assms(2) w nth_append nth_Cons')
    show ?thesis
      using domain n k int_add_be_port [OF port]
      by (intro exI [of _ "2 + ?k"] exI [of _ 5] exI [of _ None])
        (auto simp: s5_layout_def assms(2) w s5_take_addr_def wire_Addr_def eval_nat_numeral)
  qed
qed

section \<open>Datagrams of the client arrive\<close>

lemma Client_RequestUDP_wire:
  "dest_ok a \<Longrightarrow> Client_RequestUDP a data = Inr ([0, 0, 0] @ socks_wire a @ data)"
  by (elim AddressBytes_cases)
    (auto simp: Client_RequestUDP_def socks_wire_def atyp_defs atyp_socks_defs ATypeToSocks5Standard_def)

text \<open>
  A datagram that a socks5 client sends through the association is read by the server with its
  destination and payload, whatever the packet buffer held before, and from then on the server
  answers to the address it came from, unless that is the one announced in the handshake already.
\<close>
theorem s5_udp_roundtrip:
  assumes "dest_ok target" and "Client_RequestUDP target data = Inr dgram" and "length dgram \<le> length stale"
  shows "\<exists>u'. s5_ReadMsg u stale (None, dgram, from) = Some ((data, udp_canon target, None), u') \<and>
    (clientSupposedAddr u' = Some from \<or>
     clientSupposedAddr u' = clientSupposedAddr u \<and>
       (\<exists>ip. clientSupposedAddr u = Some (ip, snd from) \<and> IP_Equal (fst from) ip))"
proof -
  have d: "dgram = [0, 0, 0] @ socks_wire target @ data"
    using assms(1,2) by (simp add: Client_RequestUDP_wire)
  let ?bs = "dgram @ drop (length dgram) stale"
  obtain l off ipn where lay: "s5_layout (?bs ! 3) (?bs ! 4) = Some (l, off, ipn)"
    "off + l = 3 + length (socks_wire target)"
    "s5_take_addr ?bs off l ipn ''udp'' = (wire_Addr target)\<lparr>Network := ''udp''\<rparr>"
    using s5_layout_wire [OF assms(1), of ?bs 0 0 0 "data @ drop (length dgram) stale" "''udp''"] by (auto simp: d)
  have len: "6 \<le> length dgram" "off + l \<le> length dgram" "length ?bs = length stale"
    using socks_wire_length [OF assms(1)] lay(2) assms(3) by (auto simp: d)
  have slice: "bytes_slice dgram (off + l) (length dgram) = Some data"
    using len(2) lay(2) by (simp add: list_slice_def d numeral_3_eq_3)
  show ?thesis
    using assms(3) lay(1,3) len slice
    by (cases "clientSupposedAddr u")
      (auto simp: s5_ReadMsg_def Let_def udp_canon_def split: prod.splits)
qed

section \<open>Answers of the server arrive\<close>

lemma s5_buf_take_append [simp]: "length xs = n \<Longrightarrow> s5_buf_take n (xs @ r) = (xs, r)"
  by (simp add: s5_buf_take_def copy_into_def)

lemma s5_buf_byte_Cons [simp]: "s5_buf_byte (b # r) = (b, r)"
  by (simp add: s5_buf_byte_def)

text \<open>
  The datagram that the server makes of an answer is read by the client with the source and the
  payload unchanged, when the source is an IP address.
\<close>
theorem s5_udp_answer:
  assumes "IP raddr = Some ip" and "length ip \<in> {4, 16}" and "port_ok (Port raddr)"
    and "length (s5_WriteMsg data raddr) \<le> length stale"
    and "IP_Equal (fst from) (fst server)" and "snd from = snd server"
  shows "Client_ReadUDPResponse (Some server) stale (None, s5_WriteMsg data raddr, from) =
    Inr (zero_Addr\<lparr>IP := Some ip, Port := Port raddr\<rparr>, data)"
proof -
  have w: "s5_WriteMsg data raddr = [0, 0, 0, if 4 < length ip then ATypIP6 else ATypIP4] @ ip
      @ [hi8 (Port raddr), lo8 (Port raddr)] @ data"
    using assms(1) by (simp add: s5_WriteMsg_def ip_len_def)
  then have n: "6 \<le> length (s5_WriteMsg data raddr)" "take (length stale) (s5_WriteMsg data raddr) = s5_WriteMsg data raddr"
    using assms(4) by auto
  show ?thesis
    using assms(2,5,6) n int_add_be_port [OF assms(3)]
    by (auto simp: Client_ReadUDPResponse_def Let_def w not_le simp del: take_append)
qed

text \<open>A name cannot be the source of an answer: its datagram has no address at all.\<close>

lemma s5_WriteMsg_name:
  "IP raddr = None \<Longrightarrow> s5_WriteMsg data raddr = [0, 0, 0, ATypIP4, hi8 (Port raddr), lo8 (Port raddr)] @ data"
  by (simp add: s5_WriteMsg_def ip_len_def)

section \<open>Datagrams that end the process\<close>

text \<open>
  Any datagram of six bytes or more that names an address which does not fit into it makes the
  server panic: the check compares with the length of the packet buffer instead of that of the
  datagram. A single packet of six bytes to the port of an association is enough.
\<close>
theorem s5_short_datagram_panics:
  assumes "6 \<le> length dgram" and "length dgram \<le> length stale" and "length stale = 65536"
    and "s5_layout (dgram ! 3) (dgram ! 4) = Some (l, off, ipn)" and "length dgram < off + l"
  shows "s5_ReadMsg u stale (None, dgram, from) = None"
proof -
  have lay: "l \<le> 257" "off \<le> 5"
    using assms(4) unat_less_256 [of "dgram ! 4"] by (auto simp: s5_layout_def split: if_splits)
  have nth: "(dgram @ drop (length dgram) stale) ! i = dgram ! i" if "i < 6" for i
    using assms(1) that by (simp add: nth_append)
  have "bytes_slice dgram (off + l) (length dgram) = None" using assms(5) by (simp add: bytes_slice_def)
  then show ?thesis
    using assms lay by (cases "from") (auto simp: s5_ReadMsg_def Let_def nth)
qed

lemma s5_short_datagram_panics_witness:
  "s5_ReadMsg \<lparr>clientSupposedAddr = None, fullcone = False\<rparr> (replicate 65536 0)
     (None, [0, 0, 0, 1, 0, 0], (Some [1, 2, 3, 4], 53)) = None"
  by (rule s5_short_datagram_panics [where l = 6 and off = 4 and ipn = "Some 4"])
    (simp_all add: s5_layout_def atyp_socks_defs del: replicate.simps)

lemma s5_udp_roundtrip_witness:
  "\<exists>u'. s5_ReadMsg \<lparr>clientSupposedAddr = None, fullcone = True\<rparr> (replicate 40 7)
      (None, [0, 0, 0, 1, 1, 2, 3, 4, 0, 53, 0xaa], (Some [9, 9, 9, 9], 4000)) =
      Some (([0xaa], udp_canon (zero_Addr\<lparr>IP := Some [1, 2, 3, 4], Port := 53\<rparr>), None), u') \<and>
    (clientSupposedAddr u' = Some (Some [9, 9, 9, 9], 4000) \<or>
     clientSupposedAddr u' = clientSupposedAddr \<lparr>clientSupposedAddr = None, fullcone = True\<rparr> \<and>
       (\<exists>ip. clientSupposedAddr \<lparr>clientSupposedAddr = None, fullcone = True\<rparr> = Some (ip, snd (Some [9, 9, 9, 9 :: byte], 4000)) \<and>
         IP_Equal (fst (Some [9, 9, 9, 9 :: byte], 4000 :: int)) ip))"
proof (rule s5_udp_roundtrip)
  have ok: "dest_ok (zero_Addr\<lparr>IP := Some [1, 2, 3, 4], Port := 53\<rparr>)"
    by (simp add: dest_ok_def zero_Addr_def port_ok_def ip_ok_def)
  show "dest_ok (zero_Addr\<lparr>IP := Some [1, 2, 3, 4], Port := 53\<rparr>)" by (rule ok)
  show "Client_RequestUDP (zero_Addr\<lparr>IP := Some [1, 2, 3, 4], Port := 53\<rparr>) [0xaa]
      = Inr [0, 0, 0, 1, 1, 2, 3, 4, 0, 53, 0xaa]" by code_simp
qed simp

lemma s5_udp_answer_witness:
  "Client_ReadUDPResponse (Some (Some [9, 9, 9, 9], 1080)) (replicate 40 7)
     (None, s5_WriteMsg [0xaa] (zero_Addr\<lparr>IP := Some [1, 2, 3, 4], Port := 53\<rparr>), (Some [9, 9, 9, 9], 1080)) =
   Inr (zero_Addr\<lparr>IP := Some [1, 2, 3, 4], Port := Port (zero_Addr\<lparr>IP := Some [1, 2, 3, 4], Port := 53\<rparr>)\<rparr>, [0xaa])"
  by (rule s5_udp_answer) (simp_all add: zero_Addr_def port_ok_def s5_WriteMsg_def ip_len_def IP_Equal_def)

section \<open>The methods\<close>

lemma unat_byte_add: "unat (a + b :: byte) = (unat a + unat b) mod 256"
  by (simp add: unat_word_ariths)

lemma two_fields [simp]: "u \<noteq> [] \<Longrightarrow> p \<noteq> [] \<Longrightarrow> 2 \<le> length u + length p"
  by (cases u; cases p) auto

text \<open>A message whose fields fit is taken apart as sent; the password may reach one byte behind the
  end of the message.\<close>

lemma s5_check_password_fits:
  assumes "ab = [1, word_of_nat (length u)] @ u @ [word_of_nat (length p)] @ p @ rest"
    and "0 < length u" "0 < length p" "length u + length p \<le> 252"
    and "2 + length u + length p \<le> alen" "5 \<le> alen" "alen \<le> l_n st" "wok (l_conn st) = []"
  shows "s5_check_password srv ab alen st =
    Some (if AuthUserByStr (s5_users srv) (UserPass_AuthStr (NewUserPassByData u p)) \<noteq> None
          then Break True (st\<lparr>l_err := None, l_conn := (l_conn st)\<lparr>out := out (l_conn st) @ [[1, 0]]\<rparr>\<rparr>)
          else Ret (st\<lparr>l_err := None, l_conn := (l_conn st)\<lparr>out := out (l_conn st) @ [[1, 1]]\<rparr>\<rparr>))"
proof -
  let ?ulen = "word_of_nat (length u) :: byte" and ?plen = "word_of_nat (length p) :: byte"
  have n: "unat ?ulen = length u" "unat ?plen = length p" "?ulen \<noteq> 0"
    using assms(2-4) by (simp_all add: unat_len_byte len_byte_nonzero)
  have i: "unat (2 + ?ulen) = 2 + length u" "unat (2 + ?ulen + 1) = 3 + length u"
    "unat (2 + ?ulen + 1 + ?plen) = 3 + length u + length p"
    using assms(4) by (simp_all add: unat_byte_add n)
  have "2 + length u < alen" using assms(3,5) by linarith
  then have b: "byte_at (take alen ab) (2 + length u) = Some ?plen"
    by (simp add: byte_at_def assms(1) nth_append)
  have "ab ! 0 = 1" "ab ! 1 = ?ulen" "length ab = 3 + length u + length p + length rest"
    by (simp_all add: assms(1))
  moreover have "list_slice 2 (2 + length u) ab = u" "list_slice (3 + length u) (3 + length u + length p) ab = p"
    by (simp_all add: assms(1) list_slice_def numeral_3_eq_3)
  ultimately show ?thesis
    using assms(2-8) n i b
    by (simp add: s5_check_password_def Let_def del: One_nat_def)
qed

text \<open>Fields whose end is behind byte 255 wrap around.\<close>

lemma s5_check_password_wraps:
  assumes "ab = [1, word_of_nat (length u)] @ u @ [word_of_nat (length p)] @ p @ rest"
    and "0 < length u" "length u \<le> 255" "length u \<noteq> 253" "length p \<le> 255" "253 \<le> length u + length p"
    and "alen = 3 + length u + length p" "alen \<le> l_n st"
  shows "s5_check_password srv ab alen st = None"
proof -
  let ?ulen = "word_of_nat (length u) :: byte" and ?plen = "word_of_nat (length p) :: byte"
  have n: "unat ?ulen = length u" "unat ?plen = length p" "?ulen \<noteq> 0"
    using assms(2-5) by (simp_all add: unat_len_byte len_byte_nonzero)
  have hd: "ab ! 0 = 1" "ab ! 1 = ?ulen" "\<not> alen < 5" "\<not> l_n st < unat ?ulen + 2"
    using assms(6-8) n by (simp_all add: assms(1))
  show ?thesis
  proof (cases "length u \<le> 252")
    case True
    have i: "unat (2 + ?ulen) = 2 + length u" "unat (2 + ?ulen + 1) = 3 + length u"
      using True by (simp_all add: unat_byte_add n)
    have "unat (2 + ?ulen + 1 + ?plen) = (3 + length u + length p) mod 256"
      by (simp only: unat_byte_add [of "2 + ?ulen + 1"] i n)
    also have "\<dots> = 3 + length u + length p - 256"
      using True assms(5,6) by (subst le_mod_geq) simp_all
    finally have h: "unat (2 + ?ulen + 1 + ?plen) = 3 + length u + length p - 256" .
    have "bytes_slice ab (unat (2 + ?ulen + 1)) (unat (2 + ?ulen + 1 + ?plen)) = None"
      using assms(5) unfolding h i by (simp add: bytes_slice_def)
    moreover have "byte_at (take alen ab) (unat (2 + ?ulen)) = Some ?plen"
      using assms(7) i by (simp add: byte_at_def assms(1) nth_append)
    ultimately show ?thesis
      using hd n(2,3) assms(7,8) n(1) by (auto simp: s5_check_password_def Let_def split: bind_splits)
  next
    case False
    then have "length u = 254 \<or> length u = 255" using assms(3,4) by linarith
    then have "unat (2 + ?ulen) < 2" by (auto simp: unat_byte_add n)
    then have "bytes_slice ab 2 (unat (2 + ?ulen)) = None" by (simp add: bytes_slice_def)
    then show ?thesis using hd n(3) by (simp add: s5_check_password_def Let_def del: One_nat_def)
  qed
qed

section \<open>The handshake\<close>

definition s5_start :: "bytes list \<Rightarrow> s5conn" where
  "s5_start msgs = \<lparr>inp = msgs, out = [], wok = []\<rparr>"

text \<open>A client that offers the password method alone, in messages of their own.\<close>

lemma handshake_password:
  assumes "length stale = 1500" "IDMap (s5_users srv) \<noteq> Map.empty"
    and "length msg \<le> 1500"
  shows "socks5_Handshake srv env stale (s5_start ([Version5, 1, AuthPassword] # msg # rest)) =
    (case s5_check_password srv (msg @ drop (length msg) ([Version5, 1, AuthPassword] @ drop 3 stale)) (length msg)
        \<lparr>l_n = length msg, l_buf = msg @ drop (length msg) ([Version5, 1, AuthPassword] @ drop 3 stale),
         l_none = False, l_pass = True, l_err = None,
         l_conn = \<lparr>inp = rest, out = [[Version5, AuthPassword]], wok = []\<rparr>\<rparr> of
       None \<Rightarrow> None
     | Some (Ret st) \<Rightarrow> Some (case l_err st of Some e \<Rightarrow> HsErr e | None \<Rightarrow> HsNothing, l_conn st)
     | Some (Break True st) \<Rightarrow> Some (s5_command srv env (l_buf st) (l_conn st))
     | Some (Break False st) \<Rightarrow> Some (HsErr (ErrInErr ''socks5 not authed'' (l_err st) []),
         snd (s5_Write [Version5, AuthNoACCEPTABLE] (l_conn st)))
     | Some (Next st) \<Rightarrow> Some (HsErr (ErrInErr ''socks5 not authed'' (l_err st) []),
         snd (s5_Write [Version5, AuthNoACCEPTABLE] (l_conn st))))"
  using assms
  by (simp add: socks5_Handshake_def s5_start_def s5_method_def s5_password_def Let_def s5_consts numeral_3_eq_3
      split: option.split s5flow.split bool.split)

text \<open>
  A single message ends the process of a server that has users: a user name and a password that
  are 253 bytes together, whether they are right or not (a name of 253 bytes is read wrong instead). The
  fields of the message may be 255 bytes each.
\<close>
theorem s5_long_credentials_panic:
  assumes "length stale = 1500" and "IDMap (s5_users srv) \<noteq> Map.empty"
    and "0 < length u" and "length u \<le> 255" and "length u \<noteq> 253" and "length p \<le> 255"
    and "253 \<le> length u + length p"
  shows "socks5_Handshake srv env stale
    (s5_start ([Version5, 1, AuthPassword] # s5_password_msg \<lparr>UserID = u, Password = p\<rparr> # rest)) = None"
proof -
  let ?msg = "s5_password_msg \<lparr>UserID = u, Password = p\<rparr>"
  have len: "length ?msg = 3 + length u + length p" by (simp add: s5_password_msg_def)
  then have "length ?msg \<le> 1500" using assms(4,6) by linarith
  from handshake_password [OF assms(1,2) this] show ?thesis
    by (subst (asm) s5_check_password_wraps [where u = u and p = p])
      (use assms len in \<open>simp_all add: s5_password_msg_def\<close>)
qed

text \<open>
  Wrong credentials are answered with a failure, but \<open>Handshake\<close> returns no error: its caller gets nil
  connections and a nil error.
\<close>
theorem s5_wrong_password_no_error:
  assumes "length stale = 1500" and "IDMap (s5_users srv) \<noteq> Map.empty"
    and "UserPass_Valid up" and "length (UserID up) + length (Password up) \<le> 252"
    and "AuthUserByStr (s5_users srv) (UserPass_AuthStr up) = None"
  shows "socks5_Handshake srv env stale (s5_start ([Version5, 1, AuthPassword] # s5_password_msg up # rest)) =
    Some (HsNothing, \<lparr>inp = rest, out = [[Version5, AuthPassword], [1, 1]], wok = []\<rparr>)"
proof (cases up)
  case (fields u p)
  then have len: "length (s5_password_msg up) = 3 + length u + length p"
    by (simp add: s5_password_msg_def)
  then have "length (s5_password_msg up) \<le> 1500" using assms(4) fields by simp
  from handshake_password [OF assms(1,2) this] show ?thesis
    by (subst (asm) s5_check_password_fits [where u = u and p = p])
      (use assms len fields in \<open>simp_all add: s5_password_msg_def UserPass_Valid_def NewUserPassByData_def\<close>)
qed

definition example_server :: s5Server where
  "example_server =
     \<lparr>s5_users = AddUser (UserPass_User \<lparr>UserID = [0x61], Password = [0x62, 0x63]\<rparr>) (NewMultiUserMap\<lparr>StoreKeyByStr := True\<rparr>),
      s5_network = ''dual'', s5_fullcone = False\<rparr>"

lemma example_server_users [simp]:
  "IDMap (s5_users example_server) \<noteq> Map.empty"
  "AuthUserByStr (s5_users example_server) s \<noteq> None \<longleftrightarrow> s = [CHR ''a'', newline, CHR ''b'', CHR ''c'']"
proof -
  have "byte_to_char 0x61 = CHR ''a''" "byte_to_char 0x62 = CHR ''b''" "byte_to_char 0x63 = CHR ''c''" by code_simp+
  then show "IDMap (s5_users example_server) \<noteq> Map.empty"
    "AuthUserByStr (s5_users example_server) s \<noteq> None \<longleftrightarrow> s = [CHR ''a'', newline, CHR ''b'', CHR ''c'']"
    by (simp_all add: example_server_def AuthUserByStr_def AddUser_str NewMultiUserMap_def UserPass_User_def
        UserPass_AuthStr_def string_of_bytes_def)
qed

lemma s5_long_credentials_panic_witness:
  "socks5_Handshake example_server \<lparr>bindPort = 5000, listenOk = True, resolve = \<lambda>_. None\<rparr> (replicate 1500 0)
    (s5_start ([Version5, 1, AuthPassword]
      # s5_password_msg \<lparr>UserID = replicate 200 7, Password = replicate 60 8\<rparr> # [])) = None"
  by (rule s5_long_credentials_panic) simp_all

lemma s5_wrong_password_no_error_witness:
  "socks5_Handshake example_server \<lparr>bindPort = 5000, listenOk = True, resolve = \<lambda>_. None\<rparr> (replicate 1500 0)
    (s5_start ([Version5, 1, AuthPassword] # s5_password_msg \<lparr>UserID = [0x61], Password = [0x63]\<rparr> # [])) =
    Some (HsNothing, \<lparr>inp = [], out = [[Version5, AuthPassword], [1, 1]], wok = []\<rparr>)"
proof (rule s5_wrong_password_no_error)
  have "UserPass_AuthStr \<lparr>UserID = [0x61], Password = [0x63]\<rparr> \<noteq> [CHR ''a'', newline, CHR ''b'', CHR ''c'']" by code_simp
  then show "AuthUserByStr (s5_users example_server) (UserPass_AuthStr \<lparr>UserID = [0x61], Password = [0x63]\<rparr>) = None"
    using example_server_users(2) by blast
qed (simp_all add: UserPass_Valid_def)

section \<open>A whole session\<close>

lemma s5_command_connect:
  assumes "length buf = 1500" "dest_ok target"
  shows "s5_command srv env buf \<lparr>inp = s5_request_msg target # rest, out = os, wok = []\<rparr> =
    (HsTCP (s5_name_ip ((wire_Addr target)\<lparr>Network := ''tcp''\<rparr>)),
     \<lparr>inp = rest, out = os @ [commmonTCP_HandshakeReply], wok = []\<rparr>)"
proof -
  let ?m = "s5_request_msg target"
  let ?bs = "?m @ drop (length ?m) buf"
  obtain l off ipn where lay: "s5_layout (?bs ! 3) (?bs ! 4) = Some (l, off, ipn)"
    "off + l = 3 + length (socks_wire target)"
    "s5_take_addr ?bs off l ipn ''tcp'' = (wire_Addr target)\<lparr>Network := ''tcp''\<rparr>"
    using s5_layout_wire [OF assms(2), of ?bs Version5 s5_CmdConnect 0 "drop (length ?m) buf" "''tcp''"]
    by (auto simp: s5_request_msg_def)
  have len: "7 \<le> length ?m" "length ?m \<le> 1500" "off + l \<le> length ?bs" "off \<le> length ?bs"
    using socks_wire_length [OF assms(2)] assms(1) lay(2) by (auto simp: s5_request_msg_def)
  have "?bs ! 1 = s5_CmdConnect" by (simp add: s5_request_msg_def)
  then show ?thesis
    using lay(1,3) len assms(1) by (simp add: s5_command_def Let_def s5_consts)
qed



section \<open>What the server lets in\<close>

text \<open>The credentials of a user stand in \<open>msg\<close>, up to four bytes at the end of the password.\<close>

definition credentials_in :: "MultiUserMap \<Rightarrow> bytes \<Rightarrow> bool" where
  "credentials_in mu msg \<longleftrightarrow>
     (\<exists>u p junk. (\<exists>xs ys. msg = xs @ u @ ys) \<and> (\<exists>xs ys. msg = xs @ p @ ys) \<and> length junk \<le> 4 \<and>
        AuthUserByStr mu (string_of_bytes u @ [newline] @ string_of_bytes (p @ junk)) \<noteq> None)"

lemma credentials_inI:
  "msg = a @ u @ b \<Longrightarrow> msg = c @ p @ d \<Longrightarrow> length junk \<le> 4 \<Longrightarrow>
    AuthUserByStr mu (string_of_bytes u @ [newline] @ string_of_bytes (p @ junk)) \<noteq> None \<Longrightarrow> credentials_in mu msg"
  unfolding credentials_in_def by blast

lemma credentials_in_mono: "credentials_in mu msg \<Longrightarrow> credentials_in mu (xs @ msg @ ys)"
proof -
  assume "credentials_in mu msg"
  then obtain u p junk a b c d where *: "msg = a @ u @ b" "msg = c @ p @ d" "length junk \<le> 4"
    "AuthUserByStr mu (string_of_bytes u @ [newline] @ string_of_bytes (p @ junk)) \<noteq> None"
    unfolding credentials_in_def by blast
  have "xs @ msg @ ys = (xs @ a) @ u @ (b @ ys)" by (simp add: *(1))
  moreover have "xs @ msg @ ys = (xs @ c) @ p @ (d @ ys)" by (simp add: *(2))
  ultimately show ?thesis using *(3,4) unfolding credentials_in_def by blast
qed

lemma list_slice_within: "j \<le> n \<Longrightarrow> n \<le> length bs \<Longrightarrow> \<exists>xs ys. take n bs = xs @ list_slice i j bs @ ys"
proof (cases "i \<le> j")
  case True
  assume n: "j \<le> n" "n \<le> length bs"
  have "take n bs = take i bs @ take (n - i) (drop i bs)"
    using True n by (metis le_add_diff_inverse le_trans take_add)
  moreover have "take (n - i) (drop i bs) = list_slice i j bs @ drop (j - i) (take (n - i) (drop i bs))"
    using n(1) by (metis append_take_drop_id diff_le_mono list_slice_def min_absorb1 take_take)
  ultimately have "take n bs = take i bs @ list_slice i j bs @ drop (j - i) (take (n - i) (drop i bs))" by simp
  then show ?thesis by blast
next
  case False
  then show ?thesis by (intro exI [of _ "take n bs"] exI [of _ "[]"]) (simp add: list_slice_def)
qed

lemma list_slice_split: "lo \<le> a \<Longrightarrow> list_slice lo hi xs = list_slice lo (min hi a) xs @ list_slice a hi xs"
proof (cases "hi \<le> a")
  case True
  then show "list_slice lo hi xs = list_slice lo (min hi a) xs @ list_slice a hi xs" by (simp add: list_slice_def)
next
  case False
  assume "lo \<le> a"
  with False have "hi - lo = (a - lo) + (hi - a)" "a - lo + lo = a" by auto
  then show "list_slice lo hi xs = list_slice lo (min hi a) xs @ list_slice a hi xs"
    using False take_add [of "a - lo" "hi - a" "drop lo xs"] by (simp add: list_slice_def add.commute)
qed

lemma s5_check_password_sound:
  assumes "s5_check_password srv (drop k buf) (n - k) st = Some (Break True st')" "l_n st = n"
    "k \<le> 3" "n \<le> length buf"
  shows "credentials_in (s5_users srv) (take n buf) \<and> l_buf st' = l_buf st \<and> inp (l_conn st') = inp (l_conn st) \<and>
    l_n st' = l_n st"
proof -
  let ?ab = "drop k buf" and ?alen = "n - k"
  let ?lo = "unat (2 + ?ab ! 1 + 1)"
  obtain u plen p where c: "\<not> n - k < 5" "bytes_slice ?ab 2 (unat (2 + ?ab ! 1)) = Some u"
    "byte_at (take ?alen ?ab) (unat (2 + ?ab ! 1)) = Some plen"
    "\<not> unat (?ab ! 1) + 2 + unat plen > n"
    "bytes_slice ?ab ?lo (unat (2 + ?ab ! 1 + 1 + plen)) = Some p"
    "AuthUserByStr (s5_users srv) (UserPass_AuthStr (NewUserPassByData u p)) \<noteq> None"
    and st: "l_buf st' = l_buf st" "inp (l_conn st') = inp (l_conn st)" "l_n st' = l_n st"
    using assms(1,2)
    by (auto simp: s5_check_password_def Let_def split: if_splits bind_splits prod.splits option.splits
        dest: s5_Write_inp)
  have abl: "?alen \<le> length ?ab" using assms(4) by simp
  have i: "unat (2 + ?ab ! 1) < ?alen" using c(3) by (simp add: byte_at_def split: if_splits)
  have m: "take n buf = take k buf @ take ?alen ?ab" using c(1) by (metis le_add_diff_inverse nat_le_linear not_less_iff_gr_or_eq diff_is_0_eq less_numeral_extra(3) take_add zero_less_numeral)
  obtain xs ys where u: "take ?alen ?ab = xs @ u @ ys"
    using c(2) i abl list_slice_within [of "unat (2 + ?ab ! 1)" ?alen ?ab 2]
    by (auto simp: bytes_slice_def split: if_splits)
  let ?hi = "unat (2 + ?ab ! 1 + 1 + plen)"
  obtain p0 junk where p: "p = p0 @ junk" "p0 = list_slice ?lo (min ?hi ?alen) ?ab" "junk = list_slice ?alen ?hi ?ab"
  proof -
    have "?lo \<le> unat (2 + ?ab ! 1) + 1" by (metis mod_less_eq_dividend unat_1 unat_byte_add)
    with i have "?lo \<le> ?alen" by linarith
    from list_slice_split [OF this, of ?hi ?ab]
    have "p = list_slice ?lo (min ?hi ?alen) ?ab @ list_slice ?alen ?hi ?ab"
      using c(5) by (simp add: bytes_slice_def split: if_splits)
    then show thesis by (rule that) (rule refl)+
  qed
  obtain xs' ys' where p0: "take ?alen ?ab = xs' @ p0 @ ys'"
    using list_slice_within [of "min ?hi ?alen" ?alen ?ab ?lo] abl p(2) by auto
  have "?hi \<le> 3 + unat (?ab ! 1) + unat plen"
    using mod_less_eq_dividend by (simp add: unat_byte_add mod_simps)
  then have "length junk \<le> 4"
    using c(1,4) assms(3) p(3) by simp
  then have "credentials_in (s5_users srv) (take ?alen ?ab)"
    using c(6) by (intro credentials_inI [OF u p0]) (simp_all add: p(1) UserPass_AuthStr_def NewUserPassByData_def)
  from credentials_in_mono [OF this, of "take k buf" "[]"] show ?thesis using m st by simp
qed

text \<open>The message in the buffer is the last part of the stream that was read.\<close>

definition s5_reads :: "bytes \<Rightarrow> s5loop \<Rightarrow> bool" where
  "s5_reads stream st \<longleftrightarrow> l_n st \<le> length (l_buf st) \<and>
     (\<exists>pre. stream = pre @ take (l_n st) (l_buf st) @ concat (inp (l_conn st)))"

lemma s5_check_password_reads:
  assumes "s5_check_password srv ab alen st = Some (Next st')"
  shows "l_n st' = l_n st \<and> l_buf st' = l_buf st \<and> l_conn st' = l_conn st"
  using assms
  by (auto simp: s5_check_password_def Let_def fail_with_def split: if_splits bind_splits prod.splits option.splits)

definition s5_sound_flow :: "bytes \<Rightarrow> MultiUserMap \<Rightarrow> s5flow \<Rightarrow> bool" where
  "s5_sound_flow stream mu r \<longleftrightarrow>
     (case r of Next st' \<Rightarrow> s5_reads stream st'
      | Break True st' \<Rightarrow> s5_reads stream st' \<and> credentials_in mu (take (l_n st') (l_buf st'))
      | _ \<Rightarrow> True)"

lemma s5_check_password_flow:
  assumes "s5_reads stream st" "k \<le> 3"
    "s5_check_password srv (drop k (l_buf st)) (l_n st - k) st = Some r"
  shows "s5_sound_flow stream (s5_users srv) r"
proof (cases r)
  case (Next st')
  with assms(1) s5_check_password_reads [of srv _ _ st st'] assms(3) show ?thesis
    by (simp add: s5_sound_flow_def s5_reads_def)
next
  case (Break b st')
  show ?thesis
  proof (cases b)
    case True
    have "l_n st \<le> length (l_buf st)" using assms(1) by (simp add: s5_reads_def)
    from s5_check_password_sound [OF _ refl assms(2) this, of srv st'] assms(1,3) Break True show ?thesis
      by (simp add: s5_sound_flow_def s5_reads_def)
  qed (simp add: s5_sound_flow_def Break)
qed (simp add: s5_sound_flow_def)

lemma s5_method_sound:
  assumes "s5_reads stream st" "IDMap (s5_users srv) \<noteq> Map.empty" "s5_method srv nm m st = Some r"
  shows "s5_sound_flow stream (s5_users srv) r"
proof (cases "m = AuthPassword \<and> \<not> l_pass st")
  case False
  then show ?thesis
    using assms by (auto simp: s5_method_def Let_def s5_reads_def s5_consts s5_sound_flow_def split: if_splits)
next
  case True
  then have pw: "s5_password srv nm (st\<lparr>l_pass := True\<rparr>) = Some r"
    using assms(3) by (simp add: s5_method_def s5_consts)
  obtain e c where w: "s5_Write [Version5, AuthPassword] (l_conn st) = (e, c)" by fastforce
  have c: "inp c = inp (l_conn st)" by (rule s5_Write_inp [OF w])
  show ?thesis
  proof (cases e)
    case (Some err)
    then show ?thesis using pw w c assms(1,2) by (auto simp: s5_password_def s5_reads_def s5_sound_flow_def)
  next
    case None
    show ?thesis
    proof (cases "l_n st = 2 + nm")
      case False
      let ?st = "st\<lparr>l_pass := True, l_conn := c\<rparr>"
      have chk: "s5_check_password srv (drop 3 (l_buf st)) (l_n st - 3) ?st = Some r"
        using pw w None False assms(2) by (simp add: s5_password_def)
      have "s5_reads stream ?st" using assms(1) c by (simp add: s5_reads_def)
      from s5_check_password_flow [OF this, of 3 srv r] chk show ?thesis by simp
    next
      case True
      obtain n err buf c' where rd: "s5_Read (l_buf st) c = (n, err, buf, c')" by (metis prod_cases4)
      note split = s5_Read_split [OF rd]
      let ?st = "st\<lparr>l_pass := True, l_n := n, l_buf := buf, l_conn := c'\<rparr>"
      have reads: "s5_reads stream ?st"
        using assms(1) c split(1,3) by (auto simp: s5_reads_def)
      show ?thesis
      proof (cases err)
        case (Some e')
        then show ?thesis using pw w None True assms(2) rd reads
          by (auto simp: s5_password_def Let_def s5_reads_def s5_sound_flow_def)
      next
        case None
        then have chk: "s5_check_password srv (drop 0 buf) (n - 0) ?st = Some r"
          using pw w \<open>e = None\<close> True assms(2) rd by (simp add: s5_password_def Let_def)
        from s5_check_password_flow [OF reads, of 0 srv r] chk show ?thesis by simp
      qed
    qed
  qed
qed

lemma s5_methods_sound:
  assumes "s5_reads stream st" "IDMap (s5_users srv) \<noteq> Map.empty" "s5_methods srv nm i k st = Some (Break True st')"
  shows "s5_reads stream st' \<and> credentials_in (s5_users srv) (take (l_n st') (l_buf st'))"
  using assms
proof (induction k arbitrary: i st)
  case (Suc k)
  then obtain r where r: "s5_method srv nm (l_buf st ! i) st = Some r" by (auto split: option.splits)
  from s5_method_sound [OF Suc.prems(1,2) r] Suc show ?case
    using r by (cases r) (auto simp: s5_sound_flow_def split: bool.splits)
qed simp

lemma s5_command_inp:
  assumes "s5_command srv env buf c = (r, c')"
  shows "\<exists>got. concat (inp c) = got @ concat (inp c')"
proof -
  obtain n err bs c1 where rd: "s5_Read buf c = (n, err, bs, c1)" by (metis prod_cases4)
  have "inp c' = inp c1"
    using assms by (auto simp: s5_command_def rd Let_def split: if_splits option.splits prod.splits dest: s5_Write_inp)
  then show ?thesis using s5_Read_split(1) [OF rd] by auto
qed

text \<open>C22: 
  A server that has users lets nobody in without credentials: when the handshake yields a connection
  or a UDP channel, the name and the password of a user stand in what was read from the client,
  except that the last bytes of the password, four at most, may have come from the old content of the buffer.
\<close>
theorem s5_handshake_sound:
  assumes "socks5_Handshake srv env stale c = Some (r, c')" and "IDMap (s5_users srv) \<noteq> Map.empty"
    and "r = HsTCP a \<or> r = HsUDP u a"
  shows "\<exists>got. concat (inp c) = got @ concat (inp c') \<and> credentials_in (s5_users srv) got"
proof -
  obtain n err bs c1 where rd: "s5_Read stale c = (n, err, bs, c1)" by (metis prod_cases4)
  let ?st = "\<lparr>l_n = n, l_buf = bs, l_none = False, l_pass = False, l_err = None, l_conn = c1\<rparr>"
  obtain st where st: "s5_methods srv (unat (bs ! 1)) 2 (unat (bs ! 1)) ?st = Some (Break True st)"
    and cmd: "s5_command srv env (l_buf st) (l_conn st) = (r, c')"
    using assms(1,3) by (auto simp: socks5_Handshake_def rd Let_def split: if_splits option.splits s5flow.splits bool.splits)
  have "s5_reads (concat (inp c)) ?st" using s5_Read_split [OF rd] by (auto simp: s5_reads_def)
  from s5_methods_sound [OF this assms(2) st] obtain pre where
    pre: "concat (inp c) = pre @ take (l_n st) (l_buf st) @ concat (inp (l_conn st))"
    and cred: "credentials_in (s5_users srv) (take (l_n st) (l_buf st))" by (auto simp: s5_reads_def)
  obtain got where "concat (inp (l_conn st)) = got @ concat (inp c')" using s5_command_inp [OF cmd] by blast
  with pre have "concat (inp c) = (pre @ take (l_n st) (l_buf st) @ got) @ concat (inp c')" by simp
  with credentials_in_mono [OF cred] show ?thesis by blast
qed

lemma s5_handshake_sound_witness:
  "\<exists>got. concat (inp (s5_start ([Version5, 1, AuthPassword] # s5_password_msg \<lparr>UserID = [0x61], Password = [0x62, 0x63]\<rparr>
        # s5_request_msg (zero_Addr\<lparr>IP := Some [1, 2, 3, 4], Port := 80\<rparr>) # [[9]]))) =
      got @ concat (inp \<lparr>inp = [[9]], out = [[Version5, AuthPassword], [1, 0], commmonTCP_HandshakeReply], wok = []\<rparr>) \<and>
    credentials_in (s5_users example_server) got"
proof (rule s5_handshake_sound)
  let ?up = "\<lparr>UserID = [0x61], Password = [0x62, 0x63]\<rparr>"
  have "UserPass_AuthStr ?up = [CHR ''a'', newline, CHR ''b'', CHR ''c'']" by code_simp
  then have auth: "AuthUserByStr (s5_users example_server) (UserPass_AuthStr ?up) \<noteq> None"
    using example_server_users(2) by blast
  have len: "length (s5_password_msg ?up) = 6" "length (s5_password_msg ?up) \<le> 1500" by (simp_all add: s5_password_msg_def)
  have ok: "dest_ok (zero_Addr\<lparr>IP := Some [1, 2, 3, 4], Port := 80\<rparr>)"
    by (simp add: dest_ok_def zero_Addr_def port_ok_def ip_ok_def)
  let ?buf = "s5_password_msg ?up @ drop (length (s5_password_msg ?up)) ([Version5, 1, AuthPassword] @ drop 3 (replicate 1500 0))"
  have "length ?buf = 1500" by (simp add: len(1))
  note cmd = s5_command_connect [OF this ok]
  have "length (replicate 1500 (0 :: byte)) = 1500" by simp
  from handshake_password [OF this example_server_users(1) len(2)]
  show "socks5_Handshake example_server \<lparr>bindPort = 5000, listenOk = True, resolve = \<lambda>_. None\<rparr> (replicate 1500 0)
      (s5_start ([Version5, 1, AuthPassword] # s5_password_msg ?up
        # s5_request_msg (zero_Addr\<lparr>IP := Some [1, 2, 3, 4], Port := 80\<rparr>) # [[9]])) =
    Some (HsTCP (s5_name_ip ((wire_Addr (zero_Addr\<lparr>IP := Some [1, 2, 3, 4], Port := 80\<rparr>))\<lparr>Network := ''tcp''\<rparr>)),
      \<lparr>inp = [[9]], out = [[Version5, AuthPassword], [1, 0], commmonTCP_HandshakeReply], wok = []\<rparr>)"
    using auth cmd
    by (subst (asm) s5_check_password_fits [where u = "[0x61]" and p = "[0x62, 0x63]"])
      (auto simp: s5_password_msg_def NewUserPassByData_def)
qed (use example_server_users in simp_all)

text \<open>
  A password whose last byte is missing is completed from the old content of the buffer: a client
  that knows all of a password but its last byte is let in when the byte at that place of the pooled
  buffer, left by an earlier connection, is the right one.
\<close>
theorem s5_stale_password:
  assumes "length stale = 1500" and "IDMap (s5_users srv) \<noteq> Map.empty"
    and "u \<noteq> []" and "p \<noteq> []" and "3 \<le> length u + length p" and "length u + length p \<le> 252"
    and "AuthUserByStr (s5_users srv) (UserPass_AuthStr \<lparr>UserID = u, Password = p\<rparr>) \<noteq> None"
    and "stale ! (2 + length u + length p) = last p" and "dest_ok target"
  shows "socks5_Handshake srv env stale
      (s5_start ([Version5, 1, AuthPassword] # butlast (s5_password_msg \<lparr>UserID = u, Password = p\<rparr>)
        # s5_request_msg target # rest)) =
    Some (HsTCP (s5_name_ip ((wire_Addr target)\<lparr>Network := ''tcp''\<rparr>)),
      \<lparr>inp = rest, out = [[Version5, AuthPassword], [1, 0], commmonTCP_HandshakeReply], wok = []\<rparr>)"
proof -
  let ?full = "s5_password_msg \<lparr>UserID = u, Password = p\<rparr>"
  let ?msg = "butlast ?full" and ?k = "2 + length u + length p"
  have len: "length ?msg = ?k" by (simp add: s5_password_msg_def)
  have le: "length ?msg \<le> 1500" using assms(6) len by simp
  let ?buf = "?msg @ drop (length ?msg) ([Version5, 1, AuthPassword] @ drop 3 stale)"
  have "length ?buf = 1500" using le assms(1) by simp
  note cmd = s5_command_connect [OF this assms(9)]
  have "drop ?k ([Version5, 1, AuthPassword] @ drop 3 stale) = drop ?k stale"
  proof -
    from assms(5) obtain j where "?k = Suc (Suc (Suc j))" by (metis add_2_eq_Suc le_Suc_ex numeral_3_eq_3 add_Suc add.assoc)
    then show ?thesis by (simp add: numeral_3_eq_3)
  qed
  moreover have "drop ?k stale = last p # drop (Suc ?k) stale"
    using Cons_nth_drop_Suc [of ?k stale] assms(1,6,8) by simp
  moreover have "?full = ?msg @ [last p]"
    using assms(4) by (simp add: s5_password_msg_def butlast_append)
  ultimately have buf: "?buf = ?full @ drop (Suc ?k) stale"
    using len by simp
  from handshake_password [OF assms(1,2) le] show ?thesis
    unfolding buf
    by (subst (asm) s5_check_password_fits [where u = u and p = p])
      (use assms len cmd buf in \<open>auto simp: s5_password_msg_def NewUserPassByData_def\<close>)
qed

lemma s5_stale_password_witness:
  "socks5_Handshake example_server \<lparr>bindPort = 5000, listenOk = True, resolve = \<lambda>_. None\<rparr> (replicate 1500 0x63)
      (s5_start ([Version5, 1, AuthPassword] # butlast (s5_password_msg \<lparr>UserID = [0x61], Password = [0x62, 0x63]\<rparr>)
        # s5_request_msg (zero_Addr\<lparr>IP := Some [1, 2, 3, 4], Port := 80\<rparr>) # [])) =
    Some (HsTCP (s5_name_ip ((wire_Addr (zero_Addr\<lparr>IP := Some [1, 2, 3, 4], Port := 80\<rparr>))\<lparr>Network := ''tcp''\<rparr>)),
      \<lparr>inp = [], out = [[Version5, AuthPassword], [1, 0], commmonTCP_HandshakeReply], wok = []\<rparr>)"
proof (rule s5_stale_password)
  have "UserPass_AuthStr \<lparr>UserID = [0x61], Password = [0x62, 0x63]\<rparr> = [CHR ''a'', newline, CHR ''b'', CHR ''c'']"
    by code_simp
  then show "AuthUserByStr (s5_users example_server) (UserPass_AuthStr \<lparr>UserID = [0x61], Password = [0x62, 0x63]\<rparr>) \<noteq> None"
    using example_server_users(2) by blast
qed (simp_all add: dest_ok_def zero_Addr_def port_ok_def ip_ok_def)

section \<open>Opening an association\<close>

lemma zero_addr_text: "Addr_String \<lparr>Network = ''udp'', Name = [], IP = Some [0, 0, 0, 0], Port = 0\<rparr> = ''0.0.0.0:0''"
  by code_simp

text \<open>
  A server without users, whose network is not tcp, opens an association for the client of this package:
  the client learns the port the server listens on, and the server expects datagrams from whatever
  the unspecified address resolves to.
\<close>
theorem s5_associate:
  assumes "length stale = 1500" and "length stale' = 1500" and "IDMap (s5_users srv) = Map.empty"
    and "s5_network srv \<noteq> ''tcp''" and "listenOk env" and "bindPort env < 65536"
  shows "\<exists>m1 m2 r1 r2.
    socks5_Handshake srv env stale (s5_start (m1 # m2 # rest)) =
      Some (HsUDP \<lparr>clientSupposedAddr = resolve env ''0.0.0.0:0'', fullcone = s5_fullcone srv\<rparr>
              \<lparr>Network = ''udp'', Name = [], IP = Some [0, 0, 0, 0], Port = 0\<rparr>,
        \<lparr>inp = rest, out = [r1, r2], wok = []\<rparr>) \<and>
    Client_EstablishUDPAssociate stale' (s5_start ([r1, r2] @ rest')) =
      (Inr (int (bindPort env)), \<lparr>inp = rest', out = [m1, m2], wok = []\<rparr>)"
proof (intro exI conjI)
  let ?req = "[Version5, s5_CmdUDPAssociate, 0, ATypIP4, 0, 0, 0, 0, 0, 0]"
  let ?port = "[hi8 (int (bindPort env)), lo8 (int (bindPort env))]"
  have pip: "ParseIP [] = None" by (simp add: ParseIP_def)
  have be0: "int_add_be 0 0 = 0" using int_add_be_hi_lo [of 0] by (simp add: hi8_def lo8_def)
  have be: "int_add_be (hi8 (int (bindPort env))) (lo8 (int (bindPort env))) = int (bindPort env)"
    using assms(6) by (simp add: int_add_be_hi_lo)
  have hello: "socks5_Handshake srv env stale (s5_start ([Version5, 1, AuthNone] # m # rest)) =
      Some (s5_command srv env ([Version5, 1, AuthNone] @ drop 3 stale)
        \<lparr>inp = m # rest, out = [[Version5, AuthNone]], wok = []\<rparr>)" for m
    using assms(1,3) by (simp add: socks5_Handshake_def s5_start_def s5_method_def authNone_def Let_def s5_consts numeral_3_eq_3)
  show "socks5_Handshake srv env stale (s5_start ([Version5, 1, AuthNone] # ?req # rest)) =
      Some (HsUDP \<lparr>clientSupposedAddr = resolve env ''0.0.0.0:0'', fullcone = s5_fullcone srv\<rparr>
              \<lparr>Network = ''udp'', Name = [], IP = Some [0, 0, 0, 0], Port = 0\<rparr>,
        \<lparr>inp = rest, out = [[Version5, AuthNone], [Version5, 0, 0, 1, 0, 0, 0, 0] @ ?port], wok = []\<rparr>)"
    unfolding hello
    using assms(1,4,5) pip be0 zero_addr_text
    by (simp add: s5_command_def Let_def s5_layout_def atyp_socks_defs s5_consts s5_take_addr_def
        s5_name_ip_def copy_into_def ToUDPAddr_def IsEmpty_def)
  show "Client_EstablishUDPAssociate stale'
      (s5_start ([[Version5, AuthNone], [Version5, 0, 0, 1, 0, 0, 0, 0] @ ?port] @ rest')) =
    (Inr (int (bindPort env)), \<lparr>inp = rest', out = [[Version5, 1, AuthNone], ?req], wok = []\<rparr>)"
    using assms(2) be
    by (simp add: Client_EstablishUDPAssociate_def s5_start_def Let_def s5_consts s5_layout_def
        atyp_socks_defs s5_take_addr_def)
qed

lemma s5_associate_witness:
  "\<exists>m1 m2 r1 r2.
    socks5_Handshake \<lparr>s5_users = NewMultiUserMap, s5_network = ''dual'', s5_fullcone = True\<rparr>
      \<lparr>bindPort = 5000, listenOk = True, resolve = \<lambda>_. None\<rparr> (replicate 1500 1) (s5_start (m1 # m2 # [])) =
      Some (HsUDP \<lparr>clientSupposedAddr = resolve \<lparr>bindPort = 5000, listenOk = True, resolve = \<lambda>_. None\<rparr> ''0.0.0.0:0'',
              fullcone = s5_fullcone \<lparr>s5_users = NewMultiUserMap, s5_network = ''dual'', s5_fullcone = True\<rparr>\<rparr>
              \<lparr>Network = ''udp'', Name = [], IP = Some [0, 0, 0, 0], Port = 0\<rparr>,
        \<lparr>inp = [], out = [r1, r2], wok = []\<rparr>) \<and>
    Client_EstablishUDPAssociate (replicate 1500 2) (s5_start ([r1, r2] @ [])) =
      (Inr (int (bindPort \<lparr>bindPort = 5000, listenOk = True, resolve = \<lambda>_ :: string. None :: net_addr option\<rparr>)),
       \<lparr>inp = [], out = [m1, m2], wok = []\<rparr>)"
  by (rule s5_associate) (simp_all add: NewMultiUserMap_def)

end
