(* ===== verification/VmessStream.thy ===== *)
theory VmessStream
  imports NetAddr "HOL-Library.Sublist"
begin

text \<open>
  The data streams of vmess: chunks with a length in front (proxy/vmess/chunk.go), sealed chunks
  (proxy/vmess/aead.go) and the masked lengths with padding (proxy/vmess/shakeSizeParser.go). A writer is the
  list of the messages it hands to the writer below, a reader a \<open>Read\<close> over the reader below: by the lemmas of
  the locale \<open>stream_reader\<close> a chunked or sealed reader over any stream reader is one again, so the readers
  stack up. The AEAD is a pair of functions \<open>seal\<close> and \<open>open\<close> on nonce and text, the output of
  SHAKE128 a function from positions to 16-bit words.
\<close>

lemma ReadFull_one:
  assumes "read n r = (Inr xs, r')" "length xs = n" "0 < n"
  shows "ReadFull read n r = ((xs, None), r')"
  using assms by (cases n) (auto simp: ReadFull_def)

section \<open>A connection and a buffer in front of it\<close>

definition conn_content :: "bytes list \<Rightarrow> bytes" where "conn_content cs = concat cs"
definition conn_inv :: "bytes list \<Rightarrow> bool" where "conn_inv cs \<longleftrightarrow> [] \<notin> set cs"

interpretation conn_reader: stream_reader src_Read conn_content conn_inv
proof unfold_locales
  fix r n xs r' assume "conn_inv r" "src_Read n r = (Inr xs, r')"
  then show "conn_inv r' \<and> conn_content r = xs @ conn_content r' \<and> length xs \<le> n"
    by (cases r) (auto simp: conn_inv_def conn_content_def split: if_splits)
next
  fix r and n :: nat assume "conn_inv r" "conn_content r \<noteq> []" "0 < n"
  then show "\<exists>xs r'. src_Read n r = (Inr xs, r') \<and> xs \<noteq> []"
    by (cases r) (auto simp: conn_inv_def conn_content_def)
next
  fix r and n :: nat assume "conn_inv r" "conn_content r = []" "0 < n"
  then show "\<exists>r'. src_Read n r = (Inl io_EOF, r') \<and> conn_inv r' \<and> conn_content r' = []"
    by (cases r) (auto simp: conn_inv_def conn_content_def)
qed

text \<open>\<open>io.MultiReader(remainReadBuf, conn)\<close>.\<close>

definition multi_Read :: "nat \<Rightarrow> (bytes \<times> bytes list, bytes) rd" where
  "multi_Read n r =
     (case r of (buf, cs) \<Rightarrow>
        if buf \<noteq> [] then (Inr (take n buf), (drop n buf, cs))
        else (case src_Read n cs of (res, cs) \<Rightarrow> (res, ([], cs))))"

definition multi_content :: "bytes \<times> bytes list \<Rightarrow> bytes" where "multi_content r = fst r @ concat (snd r)"
definition multi_inv :: "bytes \<times> bytes list \<Rightarrow> bool" where "multi_inv r \<longleftrightarrow> [] \<notin> set (snd r)"

interpretation multi_reader: stream_reader multi_Read multi_content multi_inv
proof unfold_locales
  fix r n xs r' assume a: "multi_inv r" "multi_Read n r = (Inr xs, r')"
  show "multi_inv r' \<and> multi_content r = xs @ multi_content r' \<and> length xs \<le> n"
  proof (cases r)
    case (Pair buf cs)
    show ?thesis
    proof (cases "buf = []")
      case True
      obtain res cs' where s: "src_Read n cs = (res, cs')" by fastforce
      with a Pair True have "src_Read n cs = (Inr xs, cs')" "r' = ([], cs')" by (auto simp: multi_Read_def)
      with conn_reader.Read_split [of cs n xs cs'] a(1) Pair True show ?thesis
        by (simp add: multi_inv_def multi_content_def conn_inv_def conn_content_def)
    next
      case False
      with a Pair show ?thesis by (auto simp: multi_Read_def multi_inv_def multi_content_def)
    qed
  qed
next
  fix r and n :: nat assume a: "multi_inv r" "multi_content r \<noteq> []" "0 < n"
  show "\<exists>xs r'. multi_Read n r = (Inr xs, r') \<and> xs \<noteq> []"
    using a conn_reader.Read_progress [of "snd r" n]
    by (cases r; cases "fst r") (auto simp: multi_Read_def multi_inv_def multi_content_def conn_inv_def conn_content_def)
next
  fix r and n :: nat assume a: "multi_inv r" "multi_content r = []" "0 < n"
  show "\<exists>r'. multi_Read n r = (Inl io_EOF, r') \<and> multi_inv r' \<and> multi_content r' = []"
    using a conn_reader.Read_Nil [of "snd r" n]
    by (cases r) (auto simp: multi_Read_def multi_inv_def multi_content_def conn_inv_def conn_content_def)
qed

section \<open>Chunks\<close>

definition chunkSize :: nat where "chunkSize = 16384"
definition lenSize :: nat where "lenSize = 2"

text \<open>\<open>binary.BigEndian.PutUint16\<close> and \<open>Uint16\<close>.\<close>

definition PutUint16 :: "16 word \<Rightarrow> bytes" where
  "PutUint16 w = [ucast (drop_bit 8 w), ucast w]"

definition Uint16 :: "bytes \<Rightarrow> 16 word" where
  "Uint16 bs = uint16_be (bs ! 0) (bs ! 1)"

function chunked_Write :: "bytes \<Rightarrow> bytes list" where
  "chunked_Write b =
     (if b = [] then []
      else let writeLen = (if length b > chunkSize then chunkSize else length b) in
        (PutUint16 (word_of_nat writeLen) @ take writeLen b) # chunked_Write (drop writeLen b))"
  by pat_completeness auto
termination by (relation "measure length") (auto simp: chunkSize_def)

declare chunked_Write.simps [simp del]

text \<open>The state of a \<open>chunkedReader\<close>: \<open>left\<close> and the reader below.\<close>

definition chunk_body :: "(nat \<Rightarrow> ('r, bytes) rd) \<Rightarrow> nat \<Rightarrow> (nat \<times> 'r, bytes) rd" where
  "chunk_body Read n st =
     (case st of (left, r) \<Rightarrow>
        (case Read (if n > left then left else n) r of
           (Inl e, r) \<Rightarrow> (Inl e, (left, r))
         | (Inr xs, r) \<Rightarrow> (Inr xs, (left - length xs, r))))"

definition chunked_Read :: "(nat \<Rightarrow> ('r, bytes) rd) \<Rightarrow> nat \<Rightarrow> (nat \<times> 'r, bytes) rd" where
  "chunked_Read Read n st =
     (case st of (left, r) \<Rightarrow>
        if left = 0 then
          (case ReadFull Read lenSize r of
             ((buf, Some e), r) \<Rightarrow> (Inl e, (left, r))
           | ((buf, None), r) \<Rightarrow>
               let left = unat (Uint16 buf) in
               if left = 0 then (Inr [], (left, r)) else chunk_body Read n (left, r))
        else chunk_body Read n (left, r))"

text \<open>What a sequence of whole chunks carries; \<open>left\<close> bytes of the first one are still to come.\<close>

function unchunk :: "nat \<Rightarrow> bytes \<Rightarrow> bytes option" where
  "unchunk left bs =
     (if 0 < left then
        (if length bs < left then None else map_option ((@) (take left bs)) (unchunk 0 (drop left bs)))
      else if bs = [] then Some []
      else if length bs < 2 then None
      else let l = unat (Uint16 (take 2 bs)) in if l = 0 then None else unchunk l (drop 2 bs))"
  by pat_completeness auto
termination by (relation "measure (\<lambda>(left, bs). length bs)") auto

declare unchunk.simps [simp del]

section \<open>A chunked reader is a stream reader\<close>

lemma PutUint16_length [simp]: "length (PutUint16 w) = 2"
  by (simp add: PutUint16_def)

lemma PutUint16_ne [simp]: "PutUint16 w \<noteq> []"
  by (simp add: PutUint16_def)

lemma Uint16_Put [simp]: "Uint16 (PutUint16 w) = w" "Uint16 (take 2 (PutUint16 w @ bs)) = w"
proof -
  have "uint16_be (ucast (drop_bit 8 w)) (ucast w :: byte) = w"
  proof (rule bit_word_eqI)
    fix n assume "n < LENGTH(16)"
    have "push_bit 8 (ucast (ucast (drop_bit 8 w) :: byte)) + ucast (ucast w :: byte)
        = push_bit 8 (ucast (ucast (drop_bit 8 w) :: byte)) OR (ucast (ucast w :: byte) :: 16 word)"
      by (rule disjunctive_add) (auto simp: bit_simps)
    then show "bit (uint16_be (ucast (drop_bit 8 w)) (ucast w :: byte)) n = bit w n"
      using \<open>n < LENGTH(16)\<close> by (auto simp: uint16_be_def bit_simps)
  qed
  then show "Uint16 (PutUint16 w) = w" "Uint16 (take 2 (PutUint16 w @ bs)) = w"
    by (simp_all add: Uint16_def PutUint16_def)
qed

lemma unchunk_0: "unchunk 0 [] = Some []"
  by (simp add: unchunk.simps)

lemma unchunk_pos: "0 < left \<Longrightarrow> unchunk left bs =
    (if length bs < left then None else map_option ((@) (take left bs)) (unchunk 0 (drop left bs)))"
  by (subst unchunk.simps) simp

lemma unchunk_zero: "bs \<noteq> [] \<Longrightarrow> unchunk 0 bs =
    (if length bs < 2 \<or> Uint16 (take 2 bs) = 0 then None else unchunk (unat (Uint16 (take 2 bs))) (drop 2 bs))"
  by (subst unchunk.simps) (simp add: Let_def unat_eq_0)

lemma unchunk_Nil: "unchunk left bs = Some [] \<Longrightarrow> left = 0 \<and> bs = []"
proof -
  have *: "0 < l \<Longrightarrow> unchunk l bs \<noteq> Some []" for l and bs :: bytes
    by (subst unchunk_pos) auto
  assume u: "unchunk left bs = Some []"
  then have l: "left = 0" using * by blast
  moreover have "bs = []"
  proof (rule ccontr)
    assume ne: "bs \<noteq> []"
    then have "0 < unat (Uint16 (take 2 bs))" using u l by (simp add: unchunk_zero unat_gt_0 split: if_splits)
    then show False using u l ne * by (simp add: unchunk_zero split: if_splits)
  qed
  ultimately show ?thesis by simp
qed

lemma unchunk_body:
  assumes "unchunk left (xs @ ys) = Some d" "length xs \<le> left" "0 < left"
  shows "\<exists>d'. unchunk (left - length xs) ys = Some d' \<and> d = xs @ d'"
proof (cases "length xs = left")
  case True
  with assms(1) unchunk_pos [OF assms(3), of "xs @ ys"] show ?thesis by auto
next
  case False
  then have "0 < left - length xs" using assms(2) by simp
  with assms(1,2) unchunk_pos [OF assms(3), of "xs @ ys"] unchunk_pos [OF this, of ys] show ?thesis
    by (auto split: if_splits)
qed

context stream_reader
begin

definition chunked_content :: "nat \<times> 'r \<Rightarrow> bytes" where
  "chunked_content st = the (unchunk (fst st) (content (snd st)))"

definition chunked_inv :: "nat \<times> 'r \<Rightarrow> bool" where
  "chunked_inv st \<longleftrightarrow> inv (snd st) \<and> unchunk (fst st) (content (snd st)) \<noteq> None"

lemma chunk_body_split:
  assumes "chunked_inv (left, r)" "0 < left" "chunk_body Read n (left, r) = (Inr xs, st')"
  shows "chunked_inv st' \<and> chunked_content (left, r) = xs @ chunked_content st' \<and> length xs \<le> n"
proof -
  obtain r' where rd: "Read (if n > left then left else n) r = (Inr xs, r')" and st': "st' = (left - length xs, r')"
    using assms(3) by (auto simp: chunk_body_def split: prod.splits sum.splits)
  from Read_split [OF _ rd] assms(1) have r': "inv r'" "content r = xs @ content r'" "length xs \<le> (if n > left then left else n)"
    by (auto simp: chunked_inv_def)
  obtain d where "unchunk left (content r) = Some d" using assms(1) by (auto simp: chunked_inv_def)
  with unchunk_body [of left xs "content r'" d] r' assms(2) st' show ?thesis
    by (auto simp: chunked_inv_def chunked_content_def split: if_splits)
qed

lemma chunk_body_progress:
  assumes "chunked_inv (left, r)" "0 < left" "0 < n"
  shows "\<exists>xs st'. chunk_body Read n (left, r) = (Inr xs, st') \<and> xs \<noteq> []"
proof -
  have "content r \<noteq> []"
    using assms(1,2) unchunk_pos [OF assms(2), of "content r"] by (auto simp: chunked_inv_def)
  moreover have "inv r" "0 < (if n > left then left else n)" using assms by (auto simp: chunked_inv_def)
  ultimately obtain xs r' where "Read (if n > left then left else n) r = (Inr xs, r')" "xs \<noteq> []"
    using Read_progress by blast
  then show ?thesis by (simp add: chunk_body_def)
qed

text \<open>At the start of a chunk: the two bytes of the length.\<close>

lemma chunk_header:
  assumes "chunked_inv (0, r)" "content r \<noteq> []"
  shows "\<exists>r'. ReadFull Read 2 r = ((take 2 (content r), None), r') \<and> 0 < unat (Uint16 (take 2 (content r))) \<and>
    chunked_inv (unat (Uint16 (take 2 (content r))), r') \<and>
    chunked_content (unat (Uint16 (take 2 (content r))), r') = chunked_content (0, r)"
proof -
  have len: "2 \<le> length (content r)" "0 < unat (Uint16 (take 2 (content r)))"
    and u: "unchunk 0 (content r) = unchunk (unat (Uint16 (take 2 (content r)))) (drop 2 (content r))"
    using assms by (auto simp: chunked_inv_def unchunk_zero unat_gt_0 split: if_splits)
  from ReadFull_loop_reads [of r 2 2 "[]"] assms(1) len obtain r' where
    "ReadFull Read 2 r = ((take 2 (content r), None), r')" "inv r'" "content r' = drop 2 (content r)"
    by (auto simp: ReadFull_def chunked_inv_def)
  with assms(1) len(2) u show ?thesis by (auto simp: chunked_inv_def chunked_content_def)
qed

lemma chunked_stream_reader: "stream_reader (chunked_Read Read) chunked_content chunked_inv"
proof unfold_locales
  fix st n xs st' assume a: "chunked_inv st" "chunked_Read Read n st = (Inr xs, st')"
  obtain left r where st: "st = (left, r)" by (cases st)
  show "chunked_inv st' \<and> chunked_content st = xs @ chunked_content st' \<and> length xs \<le> n"
  proof (cases "left = 0")
    case False
    with a st chunk_body_split show ?thesis by (simp add: chunked_Read_def)
  next
    case True
    show ?thesis
    proof (cases "content r = []")
      case True
      with a st \<open>left = 0\<close> Read_Nil [of r 2] show ?thesis
        by (auto simp: chunked_Read_def ReadFull_def lenSize_def chunked_inv_def numeral_2_eq_2)
    next
      case False
      let ?l = "unat (Uint16 (take 2 (content r)))"
      obtain r' where h: "ReadFull Read 2 r = ((take 2 (content r), None), r')" "0 < ?l" "chunked_inv (?l, r')"
        "chunked_content (?l, r') = chunked_content (0, r)"
        using chunk_header [OF _ False] a(1) st \<open>left = 0\<close> by blast
      then have "chunk_body Read n (?l, r') = (Inr xs, st')"
        using a(2) st \<open>left = 0\<close> by (simp add: chunked_Read_def lenSize_def)
      with chunk_body_split [OF h(3,2)] h(4) st \<open>left = 0\<close> show ?thesis by simp
    qed
  qed
next
  fix st and n :: nat assume a: "chunked_inv st" "chunked_content st \<noteq> []" "0 < n"
  obtain left r where st: "st = (left, r)" by (cases st)
  show "\<exists>xs st'. chunked_Read Read n st = (Inr xs, st') \<and> xs \<noteq> []"
  proof (cases "left = 0")
    case False
    with a st chunk_body_progress show ?thesis by (simp add: chunked_Read_def)
  next
    case True
    have "content r \<noteq> []" using a(2) st True by (auto simp: chunked_content_def unchunk_0)
    then obtain r' where h: "ReadFull Read 2 r = ((take 2 (content r), None), r')" "0 < unat (Uint16 (take 2 (content r)))"
        "chunked_inv (unat (Uint16 (take 2 (content r))), r')"
      using chunk_header [of r] a(1) st True by blast
    with chunk_body_progress [OF h(3,2) a(3)] st True show ?thesis
      by (simp add: chunked_Read_def lenSize_def)
  qed
next
  fix st and n :: nat assume a: "chunked_inv st" "chunked_content st = []" "0 < n"
  obtain left r where st: "st = (left, r)" by (cases st)
  have "unchunk left (content r) = Some []" using a(1,2) st by (auto simp: chunked_inv_def chunked_content_def)
  then have "left = 0" "content r = []" using unchunk_Nil by blast+
  with a st Read_Nil [of r 2] show "\<exists>st'. chunked_Read Read n st = (Inl io_EOF, st') \<and> chunked_inv st' \<and> chunked_content st' = []"
    by (auto simp: chunked_Read_def ReadFull_def lenSize_def chunked_inv_def numeral_2_eq_2 chunked_content_def unchunk_0)
qed

end

interpretation chunked_conn: stream_reader "chunked_Read multi_Read" multi_reader.chunked_content multi_reader.chunked_inv
  by (rule multi_reader.chunked_stream_reader)

section \<open>Writing and reading chunks\<close>

lemma unchunk_frame:
  assumes "0 < length d" "length d < 65536"
  shows "unchunk 0 (PutUint16 (word_of_nat (length d)) @ d @ rest) = map_option ((@) d) (unchunk 0 rest)"
proof -
  have l: "unat (word_of_nat (length d) :: 16 word) = length d" using assms(2) by (simp add: unat_of_nat)
  then have "(word_of_nat (length d) :: 16 word) \<noteq> 0" using assms(1) by (metis less_nat_zero_code unat_0)
  moreover have "PutUint16 (word_of_nat (length d)) @ d @ rest \<noteq> []" using assms(1) by auto
  ultimately show ?thesis
    using l unchunk_pos [OF assms(1), of "d @ rest"] by (subst unchunk_zero) simp_all
qed

lemma unchunk_Write: "unchunk 0 (concat (chunked_Write b) @ rest) = map_option ((@) b) (unchunk 0 rest)"
proof (induction b rule: chunked_Write.induct)
  case (1 b)
  show ?case
  proof (cases "b = []")
    case True
    then show ?thesis by (subst chunked_Write.simps) (cases "unchunk 0 rest"; simp)
  next
    case False
    let ?n = "if length b > chunkSize then chunkSize else length b"
    have len: "length (take ?n b) = ?n" "0 < ?n" "?n < 65536"
      using False by (auto simp: chunkSize_def)
    have "unchunk 0 (concat (chunked_Write b) @ rest)
        = unchunk 0 (PutUint16 (word_of_nat (length (take ?n b))) @ take ?n b @ concat (chunked_Write (drop ?n b)) @ rest)"
      using False len(1) by (subst chunked_Write.simps) (simp add: Let_def)
    also have "\<dots> = map_option ((@) (take ?n b)) (unchunk 0 (concat (chunked_Write (drop ?n b)) @ rest))"
      by (rule unchunk_frame) (use len in simp_all)
    also have "unchunk 0 (concat (chunked_Write (drop ?n b)) @ rest) = map_option ((@) (drop ?n b)) (unchunk 0 rest)"
      using "1.IH" [OF False refl] by simp
    finally show ?thesis
      by (simp add: option.map_comp comp_def flip: append_assoc)
  qed
qed

lemma unchunk_Writes: "unchunk 0 (concat (concat (map chunked_Write ws))) = Some (concat ws)"
  by (induction ws) (simp_all add: unchunk_0 unchunk_Write)

text \<open>
  A chunked stream arrives: whatever is written on a \<open>chunkedWriter\<close>, however the network cuts it and
  whichever part of it was read with the request, the reads of a \<open>chunkedReader\<close>, of any sizes, return
  the next bytes in order; the reader makes progress while bytes remain and then reports the end.
\<close>
theorem chunked_stream:
  assumes "buf @ concat cs = concat (concat (map chunked_Write ws))" and "[] \<notin> set cs" and "0 < n"
    and "chunked_conn.reads ns (0, (buf, cs)) = (Inr got, st)"
  shows "\<exists>rest. concat ws = got @ rest \<and>
       (if rest = [] then fst (chunked_Read multi_Read n st) = Inl io_EOF
        else \<exists>xs. fst (chunked_Read multi_Read n st) = Inr xs \<and> xs \<noteq> [] \<and> prefix xs rest)"
proof -
  have u: "unchunk 0 (multi_content (buf, cs)) = Some (concat ws)"
    using assms(1) unchunk_Writes [of ws] by (simp add: multi_content_def)
  have inv: "multi_reader.chunked_inv (0, (buf, cs))" "multi_reader.chunked_content (0, (buf, cs)) = concat ws"
    using u assms(2) by (simp_all add: multi_reader.chunked_inv_def multi_reader.chunked_content_def multi_inv_def)
  from chunked_conn.reads_then_next [OF inv(1) assms(4,3)] inv(2) show ?thesis by simp
qed

lemma chunked_stream_witness:
  "\<exists>rest. concat [[1, 2, 3 :: byte]] = [1, 2] @ rest \<and>
     (if rest = [] then fst (chunked_Read multi_Read 9 (1, ([3], []))) = Inl io_EOF
      else \<exists>xs. fst (chunked_Read multi_Read 9 (1, ([3], []))) = Inr xs \<and> xs \<noteq> [] \<and> prefix xs rest)"
proof (rule chunked_stream [where ns = "[2]" and buf = "[0, 3, 1, 2, 3]" and cs = "[]"])
  have w: "chunked_Write [1, 2, 3] = [[0, 3, 1, 2, 3]]"
    by (simp add: chunked_Write.simps chunkSize_def PutUint16_def)
  then show "[0, 3, 1, 2, 3] @ concat [] = concat (concat (map chunked_Write [[1, 2, 3]]))" by simp
  have "chunked_Read multi_Read 2 (0, ([0, 3, 1, 2, 3], [])) = (Inr [1, 2], (1, ([3], [])))"
    by (simp add: chunked_Read_def chunk_body_def lenSize_def ReadFull_one multi_Read_def Uint16_def uint16_be_def Let_def)
  then show "chunked_conn.reads [2] (0, [0, 3, 1, 2, 3], []) = (Inr [1, 2], 1, [3], [])"
    by (simp add: rd_bind_Inr)
qed simp_all

end
