(* ===== verification/VmessAead.thy ===== *)
theory VmessAead
  imports VmessStream
begin

text \<open>
  The sealed data streams of vmess (proxy/vmess/aead.go) and the masked lengths with padding
  (proxy/vmess/shakeSizeParser.go). The AEAD is a record of functions on nonce and text (AES-GCM and
  ChaCha20-Poly1305 both have a nonce of 12 bytes and 16 bytes of overhead), SHAKE128 a function from its
  input and a position to a byte. The readers' buffers hold 64k; a slice out of range is a panic: \<open>None\<close> in
  the writer, the value \<open>slice_panic\<close> in the reader.
\<close>

section \<open>ShakeSizeParser\<close>

type_synonym shake128 = "bytes \<Rightarrow> nat \<Rightarrow> byte"

record ShakeSizeParser =
  shake_in :: bytes
  shake_pos :: nat
  shouldPad :: bool

definition NewShakeSizeParser :: "bytes \<Rightarrow> bool \<Rightarrow> ShakeSizeParser" where
  "NewShakeSizeParser nonce pad = \<lparr>shake_in = nonce, shake_pos = 0, shouldPad = pad\<rparr>"

definition shake_next :: "shake128 \<Rightarrow> ShakeSizeParser \<Rightarrow> 16 word \<times> ShakeSizeParser" where
  "shake_next shake s =
     (Uint16 [shake (shake_in s) (shake_pos s), shake (shake_in s) (shake_pos s + 1)],
      s\<lparr>shake_pos := shake_pos s + 2\<rparr>)"

definition shake_Decode :: "shake128 \<Rightarrow> bytes \<Rightarrow> ShakeSizeParser \<Rightarrow> 16 word \<times> ShakeSizeParser" where
  "shake_Decode shake b s = (case shake_next shake s of (m, s) \<Rightarrow> (m XOR Uint16 b, s))"

definition shake_Encode :: "shake128 \<Rightarrow> 16 word \<Rightarrow> ShakeSizeParser \<Rightarrow> bytes \<times> ShakeSizeParser" where
  "shake_Encode shake sz s = (case shake_next shake s of (m, s) \<Rightarrow> (PutUint16 (m XOR sz), s))"

definition NextPaddingLen :: "shake128 \<Rightarrow> ShakeSizeParser \<Rightarrow> 16 word \<times> ShakeSizeParser" where
  "NextPaddingLen shake s =
     (if shouldPad s then (case shake_next shake s of (w, s) \<Rightarrow> (w mod 64, s)) else (0, s))"

section \<open>The sealed writer\<close>

record aead =
  Seal :: "bytes \<Rightarrow> bytes \<Rightarrow> bytes"
  Open :: "bytes \<Rightarrow> bytes \<Rightarrow> bytes option"

definition aead_overhead :: nat where "aead_overhead = 16"
definition MaxPacketLen :: nat where "MaxPacketLen = 65536"

definition aead_ok :: "aead \<Rightarrow> bool" where
  "aead_ok a \<longleftrightarrow>
     (\<forall>n p. Open a n (Seal a n p) = Some p \<and> length (Seal a n p) = length p + 16) \<and>
     (\<forall>n c p. Open a n c = Some p \<longrightarrow> length c = length p + 16)"

definition aead_nonce :: "16 word \<Rightarrow> bytes \<Rightarrow> bytes" where
  "aead_nonce count iv = PutUint16 count @ take 10 (drop 2 iv)"

text \<open>
  The state of an \<open>aeadWriter\<close> is its counter and its size parser. \<open>rand\<close> is what \<open>crypto/rand\<close> fills
  the padding with. A successful \<open>Write\<close> gives the messages passed to the writer below.
\<close>

type_synonym aeadWriter = "16 word \<times> ShakeSizeParser option"

definition aead_Write :: "aead \<Rightarrow> shake128 \<Rightarrow> bytes \<Rightarrow> (nat \<Rightarrow> byte) \<Rightarrow> bytes \<Rightarrow> aeadWriter
    \<Rightarrow> (bytes list \<times> aeadWriter) option" where
  "aead_Write a shake iv rand b w =
     (case w of (count, parser) \<Rightarrow>
        if length b = 0 then Some ([], w)
        else (case parser of
          Some s \<Rightarrow>
            let encryptedSize = length b + aead_overhead in
            (case NextPaddingLen shake s of (pad, s) \<Rightarrow>
              let paddingSize = unat pad; totalSize = 2 + encryptedSize + paddingSize in
              if totalSize > MaxPacketLen then None
              else (case shake_Encode shake (word_of_nat (encryptedSize + paddingSize)) s of (sz, s) \<Rightarrow>
                Some ([sz @ Seal a (aead_nonce count iv) b @ map rand [0..<paddingSize]], (count + 1, Some s))))
        | None \<Rightarrow>
            let n = length b in
            if lenSize + n + aead_overhead > MaxPacketLen then None
            else Some ([PutUint16 (word_of_nat (n + aead_overhead)) @ Seal a (aead_nonce count iv) b],
                       (count + 1, None))))"

section \<open>The sealed reader\<close>

record 'r aeadReader =
  aleftover :: bytes
  acount :: "16 word"
  aparser :: "ShakeSizeParser option"
  adone :: bool
  alower :: 'r

definition slice_panic :: goerr where "slice_panic = NewErr ''panic: slice bounds out of range''"

definition auth_failed :: goerr where "auth_failed = NewErr ''message authentication failed''"

text \<open>From the payload on: \<open>buf\<close> is the \<open>l\<close> bytes read.\<close>

definition aead_open :: "aead \<Rightarrow> bytes \<Rightarrow> nat \<Rightarrow> 16 word \<Rightarrow> bytes \<Rightarrow> ('r aeadReader, bytes) rd" where
  "aead_open a iv n padding buf r =
     (let l = length buf in
      if aparser r \<noteq> None \<and> l < unat padding then (Inl slice_panic, r)
      else
        let buf = (if aparser r \<noteq> None then take (l - unat padding) buf else buf);
            nonce = aead_nonce (acount r) iv in
        (case Open a nonce buf of
           None \<Rightarrow> (Inl auth_failed, r\<lparr>acount := acount r + 1\<rparr>)
         | Some returnedData \<Rightarrow>
             let dataLen = (if aparser r = None then l - aead_overhead else length returnedData);
                 data = take dataLen (returnedData @ drop (length returnedData) buf) in
             (Inr (take n data), r\<lparr>acount := acount r + 1, aleftover := drop n data\<rparr>)))"

definition aead_payload :: "aead \<Rightarrow> (nat \<Rightarrow> ('r, bytes) rd) \<Rightarrow> bytes \<Rightarrow> nat \<Rightarrow> 16 word \<Rightarrow> 16 word
    \<Rightarrow> ('r aeadReader, bytes) rd" where
  "aead_payload a Read iv n padding l r =
     (if l = 0 then (Inr [], r)
      else (case ReadFull Read (unat l) (alower r) of
          ((_, Some e), lo) \<Rightarrow> (Inl e, r\<lparr>alower := lo\<rparr>)
        | ((buf, None), lo) \<Rightarrow> aead_open a iv n padding buf (r\<lparr>alower := lo\<rparr>)))"

definition aead_Read :: "aead \<Rightarrow> shake128 \<Rightarrow> (nat \<Rightarrow> ('r, bytes) rd) \<Rightarrow> bytes \<Rightarrow> nat \<Rightarrow> ('r aeadReader, bytes) rd" where
  "aead_Read a shake Read iv n r =
     (if length (aleftover r) > 0 then
        (Inr (take n (aleftover r)), r\<lparr>aleftover := drop n (aleftover r)\<rparr>)
      else if adone r then (Inl io_EOF, r)
      else (case aparser r of
          None \<Rightarrow>
            (case ReadFull Read lenSize (alower r) of
               ((_, Some e), lo) \<Rightarrow> (Inl e, r\<lparr>alower := lo\<rparr>)
             | ((buf, None), lo) \<Rightarrow> aead_payload a Read iv n 0 (Uint16 buf) (r\<lparr>alower := lo\<rparr>))
        | Some s \<Rightarrow>
            (case NextPaddingLen shake s of (padding, s) \<Rightarrow>
              (case ReadFull Read 2 (alower r) of
                 ((_, Some e), lo) \<Rightarrow> (Inl e, r\<lparr>aparser := Some s, alower := lo\<rparr>)
               | ((sb, None), lo) \<Rightarrow>
                   (case shake_Decode shake sb s of (l, s) \<Rightarrow>
                      if l = word_of_nat aead_overhead + padding
                      then (Inl io_EOF, r\<lparr>aparser := Some s, alower := lo, adone := True\<rparr>)
                      else aead_payload a Read iv n padding l (r\<lparr>aparser := Some s, alower := lo\<rparr>))))))"

definition AEADReader :: "'r \<Rightarrow> ShakeSizeParser option \<Rightarrow> 'r aeadReader" where
  "AEADReader lo s = \<lparr>aleftover = [], acount = 0, aparser = s, adone = False, alower = lo\<rparr>"

section \<open>What a sealed stream carries\<close>

text \<open>
  The size of the next chunk: the length of its padding, the number of bytes that follow the size, and the
  size parser afterwards.
\<close>

definition next_size :: "shake128 \<Rightarrow> ShakeSizeParser option \<Rightarrow> bytes \<Rightarrow> 16 word \<times> 16 word \<times> ShakeSizeParser option" where
  "next_size shake p sb =
     (case p of None \<Rightarrow> (0, Uint16 sb, None)
      | Some s \<Rightarrow> (case NextPaddingLen shake s of (padding, s) \<Rightarrow>
          (case shake_Decode shake sb s of (l, s) \<Rightarrow> (padding, l, Some s))))"

definition is_last :: "ShakeSizeParser option \<Rightarrow> 16 word \<Rightarrow> 16 word \<Rightarrow> bool" where
  "is_last p padding l \<longleftrightarrow> p \<noteq> None \<and> l = word_of_nat aead_overhead + padding"

function unseal :: "aead \<Rightarrow> shake128 \<Rightarrow> bytes \<Rightarrow> 16 word \<Rightarrow> ShakeSizeParser option \<Rightarrow> bytes \<Rightarrow> bytes option" where
  "unseal a shake iv count p bs =
     (if bs = [] then Some []
      else if length bs < 2 then None
      else (case next_size shake p (take 2 bs) of (padding, l, p) \<Rightarrow>
        if is_last p padding l then Some []
        else if l = 0 \<or> l < padding \<or> length bs < 2 + unat l then None
        else (case Open a (aead_nonce count iv) (take (unat l - unat padding) (drop 2 bs)) of
            None \<Rightarrow> None
          | Some d \<Rightarrow> if d = [] then None
              else map_option ((@) d) (unseal a shake iv (count + 1) p (drop (2 + unat l) bs)))))"
  by pat_completeness auto
termination by (relation "measure (\<lambda>(a, shake, iv, count, p, bs). length bs)") auto

declare unseal.simps [simp del]


lemma unseal_Nil [simp]: "unseal a shake iv count p [] = Some []"
  by (simp add: unseal.simps)

lemma unseal_chunk:
  "bs \<noteq> [] \<Longrightarrow> next_size shake p (take 2 bs) = (padding, l, p') \<Longrightarrow>
   unseal a shake iv count p bs =
     (if length bs < 2 then None
      else if is_last p' padding l then Some []
      else if l = 0 \<or> l < padding \<or> length bs < 2 + unat l then None
      else (case Open a (aead_nonce count iv) (take (unat l - unat padding) (drop 2 bs)) of
            None \<Rightarrow> None
          | Some d \<Rightarrow> if d = [] then None
              else map_option ((@) d) (unseal a shake iv (count + 1) p' (drop (2 + unat l) bs))))"
  by (subst unseal.simps) simp

lemma next_size_None: "next_size shake p sb = (padding, l, p') \<Longrightarrow> (p' = None \<longleftrightarrow> p = None) \<and> (p = None \<longrightarrow> padding = 0)"
  by (auto simp: next_size_def split: option.splits prod.splits)

section \<open>A sealed reader is a stream reader\<close>

lemma aead_Read_size:
  assumes "aleftover r = []" "\<not> adone r" "ReadFull Read 2 (alower r) = ((sb, None), lo)"
    "next_size shake (aparser r) sb = (padding, l, p)"
  shows "aead_Read a shake Read iv n r =
    (if is_last p padding l then (Inl io_EOF, r\<lparr>aparser := p, alower := lo, adone := True\<rparr>)
     else aead_payload a Read iv n padding l (r\<lparr>aparser := p, alower := lo\<rparr>))"
  using assms
  by (cases r) (auto simp: aead_Read_def next_size_def is_last_def lenSize_def split: option.splits prod.splits)

text \<open>A chunk that opens: the caller gets the front of the text, the rest is kept.\<close>

lemma aead_open_ok:
  assumes "aead_ok a" "unat padding \<le> length buf" "aparser r = None \<longrightarrow> padding = 0"
    "Open a (aead_nonce (acount r) iv) (take (length buf - unat padding) buf) = Some d"
  shows "aead_open a iv n padding buf r = (Inr (take n d), r\<lparr>acount := acount r + 1, aleftover := drop n d\<rparr>)"
proof -
  have "length (take (length buf - unat padding) buf) = length d + 16"
    using assms(1,4) unfolding aead_ok_def by blast
  moreover have "take (min n (length d)) d = take n d" by (simp add: min_def)
  ultimately show ?thesis using assms(2-4)
    by (cases "aparser r") (auto simp: aead_open_def Let_def aead_overhead_def)
qed

context stream_reader
begin

definition aead_content :: "aead \<Rightarrow> shake128 \<Rightarrow> bytes \<Rightarrow> 'r aeadReader \<Rightarrow> bytes" where
  "aead_content a shake iv r = aleftover r @
     (if adone r then [] else the (unseal a shake iv (acount r) (aparser r) (content (alower r))))"

definition aead_inv :: "aead \<Rightarrow> shake128 \<Rightarrow> bytes \<Rightarrow> 'r aeadReader \<Rightarrow> bool" where
  "aead_inv a shake iv r \<longleftrightarrow> inv (alower r) \<and>
     (adone r \<or> unseal a shake iv (acount r) (aparser r) (content (alower r)) \<noteq> None)"

lemma aead_Read_fresh:
  assumes "aead_ok a" "aead_inv a shake iv r" "aleftover r = []" "\<not> adone r"
  shows "(aead_content a shake iv r = [] \<and> (\<exists>r'. aead_Read a shake Read iv n r = (Inl io_EOF, r') \<and>
            aead_inv a shake iv r' \<and> aead_content a shake iv r' = [])) \<or>
    (\<exists>d r'. d \<noteq> [] \<and> aead_Read a shake Read iv n r = (Inr (take n d), r') \<and> aead_inv a shake iv r' \<and>
            aead_content a shake iv r = take n d @ aead_content a shake iv r')"
proof -
  let ?bs = "content (alower r)"
  obtain padding l p where sz: "next_size shake (aparser r) (take 2 ?bs) = (padding, l, p)" by (metis prod_cases3)
  note inv = assms(2)[unfolded aead_inv_def]
  show ?thesis
  proof (cases "?bs = []")
    case True
    then obtain lo where lo: "ReadFull Read 2 (alower r) = (([], Some io_EOF), lo)" "inv lo" "content lo = []"
      using Read_Nil [of "alower r" 2] inv by (auto simp: ReadFull_def numeral_2_eq_2)
    then have "\<exists>r'. aead_Read a shake Read iv n r = (Inl io_EOF, r') \<and> alower r' = lo \<and> aleftover r' = [] \<and> \<not> adone r'"
      using assms(3,4) by (auto simp: aead_Read_def lenSize_def split: option.splits prod.splits)
    with True lo assms(3) show ?thesis by (auto simp: aead_inv_def aead_content_def)
  next
    case False
    note u = unseal_chunk [OF False sz, of a iv "acount r"]
    have len: "2 \<le> length ?bs" using u inv assms(4) by (auto split: if_splits)
    then obtain lo where lo: "ReadFull Read 2 (alower r) = ((take 2 ?bs, None), lo)" "inv lo" "content lo = drop 2 ?bs"
      using ReadFull_loop_reads [of "alower r" 2 2 "[]"] inv by (auto simp: ReadFull_def)
    note rd = aead_Read_size [OF assms(3,4) lo(1) sz, of a iv n]
    show ?thesis
    proof (cases "is_last p padding l")
      case True
      with rd u lo len False assms(3,4) show ?thesis by (auto simp: aead_inv_def aead_content_def)
    next
      case last: False
      then have l: "l \<noteq> 0" "padding \<le> l" "2 + unat l \<le> length ?bs"
        using u inv assms(4) len by (auto split: if_splits)
      obtain d where d: "Open a (aead_nonce (acount r) iv) (take (unat l - unat padding) (drop 2 ?bs)) = Some d" "d \<noteq> []"
        using u inv assms(4) len l last by (auto split: if_splits option.splits)
      from l(3) lo(2,3) obtain lo' where lo': "ReadFull Read (unat l) lo = ((take (unat l) (drop 2 ?bs), None), lo')"
        "inv lo'" "content lo' = drop (2 + unat l) ?bs"
        using ReadFull_loop_reads [of lo "unat l" "unat l" "[]"] by (fastforce simp: ReadFull_def)
      let ?r = "r\<lparr>aparser := p, alower := lo'\<rparr>"
      have pl: "unat padding \<le> unat l" using l(2) by (simp add: word_le_nat_alt)
      have "aead_open a iv n padding (take (unat l) (drop 2 ?bs)) ?r
          = (Inr (take n d), ?r\<lparr>acount := acount r + 1, aleftover := drop n d\<rparr>)"
        using aead_open_ok [OF assms(1), of padding "take (unat l) (drop 2 ?bs)" ?r iv d n]
          l(3) pl d(1) next_size_None [OF sz] by (simp add: min_absorb2 take_take)
      then have "aead_Read a shake Read iv n r
          = (Inr (take n d), ?r\<lparr>acount := acount r + 1, aleftover := drop n d\<rparr>)"
        using rd last l(1) lo'(1) by (simp add: aead_payload_def unat_eq_0)
      moreover have "unseal a shake iv (acount r + 1) p (content lo') \<noteq> None \<and>
          the (unseal a shake iv (acount r) (aparser r) ?bs) = d @ the (unseal a shake iv (acount r + 1) p (content lo'))"
        using u inv assms(4) len l last d lo'(3) by (auto split: if_splits)
      ultimately show ?thesis using d(2) lo'(2) assms(3,4)
        by (intro disjI2 exI [of _ d] exI [of _ "?r\<lparr>acount := acount r + 1, aleftover := drop n d\<rparr>"])
          (simp add: aead_inv_def aead_content_def)
    qed
  qed
qed

lemma aead_stream_reader:
  assumes "aead_ok a"
  shows "stream_reader (aead_Read a shake Read iv) (aead_content a shake iv) (aead_inv a shake iv)"
proof -
  have left: "aead_Read a shake Read iv n r = (Inr (take n (aleftover r)), r\<lparr>aleftover := drop n (aleftover r)\<rparr>)
      \<and> (aead_inv a shake iv r \<longrightarrow> aead_inv a shake iv (r\<lparr>aleftover := drop n (aleftover r)\<rparr>))
      \<and> aead_content a shake iv r = take n (aleftover r) @ aead_content a shake iv (r\<lparr>aleftover := drop n (aleftover r)\<rparr>)"
    if "aleftover r \<noteq> []" for r n
    using that by (simp add: aead_Read_def aead_inv_def aead_content_def)
  have fin: "aead_Read a shake Read iv n r = (Inl io_EOF, r) \<and> aead_content a shake iv r = []"
    if "aleftover r = []" "adone r" for r n
    using that by (simp add: aead_Read_def aead_content_def)
  note fresh = aead_Read_fresh [OF assms]
  show ?thesis
  proof unfold_locales
    fix r n xs r' assume a: "aead_inv a shake iv r" "aead_Read a shake Read iv n r = (Inr xs, r')"
    consider "aleftover r \<noteq> []" | "aleftover r = []" "adone r" | "aleftover r = []" "\<not> adone r" by blast
    then show "aead_inv a shake iv r' \<and> aead_content a shake iv r = xs @ aead_content a shake iv r' \<and> length xs \<le> n"
    proof cases
      case 1
      with left [OF 1, of n] a show ?thesis by auto
    next
      case 2
      with fin [OF 2, of n] a show ?thesis by auto
    next
      case 3
      from fresh [OF a(1) 3, of n] a(2) show ?thesis by auto
    qed
  next
    fix r and n :: nat assume a: "aead_inv a shake iv r" "aead_content a shake iv r \<noteq> []" "0 < n"
    consider "aleftover r \<noteq> []" | "aleftover r = []" "adone r" | "aleftover r = []" "\<not> adone r" by blast
    then show "\<exists>xs r'. aead_Read a shake Read iv n r = (Inr xs, r') \<and> xs \<noteq> []"
    proof cases
      case 1
      with left [OF 1, of n] a show ?thesis by auto
    next
      case 2
      with fin [OF 2, of n] a show ?thesis by auto
    next
      case 3
      from fresh [OF a(1) 3, of n] a show ?thesis by fastforce
    qed
  next
    fix r and n :: nat assume a: "aead_inv a shake iv r" "aead_content a shake iv r = []" "0 < n"
    then have "aleftover r = []" by (simp add: aead_content_def)
    with a fresh [of shake iv r n] fin [of r n]
    show "\<exists>r'. aead_Read a shake Read iv n r = (Inl io_EOF, r') \<and> aead_inv a shake iv r' \<and> aead_content a shake iv r' = []"
      by (cases "adone r") auto
  qed
qed

end

section \<open>Sealing and opening a stream\<close>

text \<open>A series of writes, each with its padding.\<close>

fun aead_Writes :: "aead \<Rightarrow> shake128 \<Rightarrow> bytes \<Rightarrow> (bytes \<times> (nat \<Rightarrow> byte)) list \<Rightarrow> aeadWriter \<Rightarrow> bytes list option" where
  "aead_Writes a shake iv [] w = Some []"
| "aead_Writes a shake iv ((b, rand) # ws) w =
     (case aead_Write a shake iv rand b w of
        None \<Rightarrow> None
      | Some (out, w) \<Rightarrow> map_option ((@) out) (aead_Writes a shake iv ws w))"

lemma shake_Decode_Encode:
  "shake_Encode shake l s = (bs, s') \<Longrightarrow> length bs = 2 \<and> shake_Decode shake bs s = (l, s')"
  by (auto simp: shake_Encode_def shake_Decode_def xor.assoc [symmetric] split: prod.splits)

lemma NextPaddingLen_less: "NextPaddingLen shake s = (w, s') \<Longrightarrow> unat w < 64"
  by (auto simp: NextPaddingLen_def unat_mod split: if_splits prod.splits)

text \<open>One sealed chunk, read back with its reader in step with the writer.\<close>

lemma unseal_Write:
  assumes "aead_ok a" "aead_Write a shake iv rand b (count, p) = Some (out, (count', p'))"
  shows "unseal a shake iv count p (concat out @ rest) =
      (if b = [] then unseal a shake iv count p rest
       else map_option ((@) b) (unseal a shake iv count' p' rest))
    \<and> (b = [] \<longrightarrow> count' = count \<and> p' = p)"
proof (cases "b = []")
  case True
  with assms(2) show ?thesis by (simp add: aead_Write_def)
next
  case False
  let ?c = "Seal a (aead_nonce count iv) b"
  have c: "Open a (aead_nonce count iv) ?c = Some b" "length ?c = length b + 16"
    using assms(1) by (simp_all add: aead_ok_def)
  show ?thesis
  proof (cases p)
    case None
    then have len: "length b + 18 \<le> 65536" and out: "out = [PutUint16 (word_of_nat (length b + 16)) @ ?c]"
      and st: "count' = count + 1" "p' = None"
      using assms(2) False by (auto simp: aead_Write_def Let_def lenSize_def aead_overhead_def MaxPacketLen_def split: if_splits)
    let ?l = "word_of_nat (length b + 16) :: 16 word"
    have l: "unat ?l = length b + 16" using len by (simp only: unat_of_nat) simp
    then have "?l \<noteq> 0" by (metis add_is_0 unat_0 zero_neq_numeral)
    then have "unseal a shake iv count p ((PutUint16 ?l @ ?c) @ rest) = map_option ((@) b) (unseal a shake iv count' p' rest)"
      using l c None st False
      by (subst unseal_chunk [where p' = None and l = ?l and padding = 0])
        (simp_all add: next_size_def is_last_def del: of_nat_add)
    then show ?thesis using out False by simp
  next
    case (Some s)
    obtain pad s1 where pad: "NextPaddingLen shake s = (pad, s1)" by fastforce
    let ?n = "length b + 16 + unat pad"
    let ?l = "word_of_nat ?n :: 16 word"
    obtain sz s2 where sz: "shake_Encode shake ?l s1 = (sz, s2)" by fastforce
    have len: "?n + 2 \<le> 65536" and out: "out = [sz @ ?c @ map rand [0..<unat pad]]" and st: "count' = count + 1" "p' = Some s2"
      using assms(2) False Some pad sz
      by (auto simp: aead_Write_def Let_def aead_overhead_def MaxPacketLen_def split: if_splits)
    have l: "unat ?l = ?n" using len by (simp only: unat_of_nat) simp
    have "\<not> is_last (Some s2) pad ?l"
    proof
      assume "is_last (Some s2) pad ?l"
      then have "unat ?l = unat (16 + pad)" by (simp add: is_last_def aead_overhead_def)
      also have "\<dots> = 16 + unat pad" using NextPaddingLen_less [OF pad] by (simp add: unat_word_ariths)
      finally show False using l False by simp
    qed
    moreover have "?l \<noteq> 0" using l by (metis add_is_0 unat_0 zero_neq_numeral)
    moreover have "\<not> ?l < pad" using l by (simp add: word_less_nat_alt)
    moreover have "next_size shake p sz = (pad, ?l, Some s2)" "length sz = 2"
      using Some pad shake_Decode_Encode [OF sz] by (simp_all add: next_size_def)
    ultimately have "unseal a shake iv count p ((sz @ ?c @ map rand [0..<unat pad]) @ rest)
        = map_option ((@) b) (unseal a shake iv count' p' rest)"
      using l c st False
      by (subst unseal_chunk [where p' = "Some s2" and l = ?l and padding = pad])
        (auto simp del: of_nat_add)
    then show ?thesis using out False by simp
  qed
qed

lemma unseal_Writes:
  "aead_ok a \<Longrightarrow> aead_Writes a shake iv ws (count, p) = Some out \<Longrightarrow>
   unseal a shake iv count p (concat out) = Some (concat (map fst ws))"
proof (induction ws arbitrary: count p out)
  case Nil
  then show ?case by simp
next
  case (Cons w ws)
  obtain b rand where w: "w = (b, rand)" by (cases w)
  with Cons.prems(2) obtain o1 count' p' o2 where o: "aead_Write a shake iv rand b (count, p) = Some (o1, (count', p'))"
    "aead_Writes a shake iv ws (count', p') = Some o2" "out = o1 @ o2"
    by (auto split: option.splits)
  from Cons.IH [OF Cons.prems(1) o(2)] unseal_Write [OF Cons.prems(1) o(1), of "concat o2"] o(3) w
  show ?case by (auto split: if_splits)
qed

section \<open>The properties\<close>

text \<open>
  A sealed stream arrives: what is written on an \<open>aeadWriter\<close>, in chunks padded or not, however the
  network cuts the result, is what an \<open>aeadReader\<close> with the same keys, iv and size parser returns: its
  reads, of any sizes, give the next bytes in order, progress is made while bytes remain, then comes the end.
\<close>
theorem aead_stream:
  assumes "aead_ok a" and "aead_Writes a shake iv ws (0, p) = Some out"
    and "buf @ concat cs = concat out" and "[] \<notin> set cs" and "0 < n"
    and "stream_reader.reads (aead_Read a shake multi_Read iv) ns (AEADReader (buf, cs) p) = (Inr got, st)"
  shows "\<exists>rest. concat (map fst ws) = got @ rest \<and>
       (if rest = [] then fst (aead_Read a shake multi_Read iv n st) = Inl io_EOF
        else \<exists>xs. fst (aead_Read a shake multi_Read iv n st) = Inr xs \<and> xs \<noteq> [] \<and> prefix xs rest)"
proof -
  let ?r = "AEADReader (buf, cs) p"
  have u: "unseal a shake iv 0 p (multi_content (buf, cs)) = Some (concat (map fst ws))"
    using unseal_Writes [OF assms(1,2)] assms(3) by (simp add: multi_content_def)
  then have inv: "multi_reader.aead_inv a shake iv ?r" "multi_reader.aead_content a shake iv ?r = concat (map fst ws)"
    using assms(4) by (simp_all add: multi_reader.aead_inv_def multi_reader.aead_content_def AEADReader_def multi_inv_def)
  from stream_reader.reads_then_next [OF multi_reader.aead_stream_reader [OF assms(1)] inv(1) assms(6,5)] inv(2)
  show ?thesis by simp
qed

definition demo_aead :: aead where
  "demo_aead = \<lparr>Seal = (\<lambda>n p. p @ replicate 16 0),
     Open = (\<lambda>n c. if 16 \<le> length c \<and> drop (length c - 16) c = replicate 16 0 then Some (take (length c - 16) c) else None)\<rparr>"

lemma demo_aead_ok: "aead_ok demo_aead"
  by (auto simp: aead_ok_def demo_aead_def)

text \<open>
  The writer's limit: a write panics exactly when the chunk does not fit the buffer of 64k, and so for
  65519 to 65536 bytes even without padding, although the comment in the code takes 64k for safe.
\<close>
theorem aead_Write_panics:
  "aead_Write a shake iv rand b (count, p) = None \<longleftrightarrow>
     65518 < length b + (case p of None \<Rightarrow> 0 | Some s \<Rightarrow> unat (fst (NextPaddingLen shake s)))
     \<and> b \<noteq> []"
  by (auto simp: aead_Write_def Let_def lenSize_def aead_overhead_def MaxPacketLen_def split: option.splits prod.splits)

definition demo_shake :: shake128 where "demo_shake = (\<lambda>i n. 3)"

abbreviation demo_ws :: "(bytes \<times> (nat \<Rightarrow> byte)) list" where
  "demo_ws \<equiv> [([1, 2, 3], \<lambda>_. 9), ([4, 5], \<lambda>_. 7)]"

abbreviation demo_out :: "bytes list" where
  "demo_out \<equiv> [[3, 21, 1, 2, 3] @ replicate 16 0 @ [9,9,9], [3, 22, 4, 5] @ replicate 16 0 @ [7, 7, 7]]"

abbreviation demo_parser :: ShakeSizeParser where
  "demo_parser \<equiv> NewShakeSizeParser [] True"

abbreviation demo_left :: "(bytes \<times> bytes list) aeadReader" where
  "demo_left \<equiv> \<lparr>aleftover = [3], acount = 1,
      aparser = Some \<lparr>shake_in = [], shake_pos = 4, shouldPad = True\<rparr>, adone = False,
      alower = ([], [[3, 22, 4, 5] @ replicate 16 0 @ [7, 7, 7]])\<rparr>"

lemmas demo_defs = aead_Write_def aead_Read_def demo_aead_def demo_shake_def NextPaddingLen_def shake_next_def shake_Encode_def
  shake_Decode_def NewShakeSizeParser_def AEADReader_def Let_def PutUint16_def Uint16_def uint16_be_def aead_overhead_def
  MaxPacketLen_def aead_payload_def aead_open_def multi_Read_def ReadFull_one upt_rec lenSize_def

lemma demo_Writes: "aead_Writes demo_aead demo_shake (replicate 12 7) demo_ws (0, Some demo_parser) = Some demo_out"
  by (simp add: demo_defs)

lemma demo_Read: "aead_Read demo_aead demo_shake multi_Read (replicate 12 7) 2 (AEADReader ([], demo_out) (Some demo_parser))
    = (Inr [1, 2], demo_left)"
  by (simp add: demo_defs)

lemma aead_stream_witness:
  "\<exists>rest. concat (map fst demo_ws) = [1, 2] @ rest \<and>
     (if rest = [] then fst (aead_Read demo_aead demo_shake multi_Read (replicate 12 7) 9 demo_left) = Inl io_EOF
      else \<exists>xs. fst (aead_Read demo_aead demo_shake multi_Read (replicate 12 7) 9 demo_left) = Inr xs \<and> xs \<noteq> [] \<and> prefix xs rest)"
proof (rule aead_stream [OF demo_aead_ok demo_Writes, where ns = "[2]" and cs = demo_out and buf = "[]"])
  note sr = multi_reader.aead_stream_reader [OF demo_aead_ok]
  show "stream_reader.reads (aead_Read demo_aead demo_shake multi_Read (replicate 12 7)) [2]
      (AEADReader ([], demo_out) (Some demo_parser)) = (Inr [1, 2], demo_left)"
    by (simp only: stream_reader.reads.simps [OF sr] rd_bind_Inr [where m = "aead_Read demo_aead demo_shake multi_Read (replicate 12 7) 2", OF demo_Read] rd_bind_ok rd_ok_apply append_Nil2)
qed simp_all

text \<open>
  A size that unmasks to less than its padding makes the reader slice below zero: a peer, or noise on a
  connection, that gets this far crashes the goroutine.
\<close>
lemma aead_short_size_panics:
  fixes r :: "'r aeadReader"
  assumes "ReadFull Read 2 (alower r) = ((sb, None), lo)" and "ReadFull Read (unat l) lo = ((buf, None), lo')" "length buf = unat l"
    and "NextPaddingLen shake s = (padding, s1)" and "shake_Decode shake sb s1 = (l, s2)"
    and "aparser r = Some s" and "aleftover r = []" and "\<not> adone r" and "l \<noteq> 0" and "l < padding"
  shows "fst (aead_Read a shake Read iv n r) = Inl slice_panic"
proof -
  have "l \<noteq> word_of_nat aead_overhead + padding"
  proof
    assume "l = word_of_nat aead_overhead + padding"
    then have "unat l = 16 + unat padding"
      using NextPaddingLen_less [OF assms(4)] by (simp add: aead_overhead_def unat_word_ariths)
    with assms(10) show False by (simp add: word_less_nat_alt)
  qed
  with assms show ?thesis
    by (simp add: aead_Read_def aead_payload_def aead_open_def Let_def word_less_nat_alt)
qed

end
