(* ===== verification/VmessReplay.thy ===== *)
theory VmessReplay
  imports V2Prelude
begin

text \<open>
  The two anti-replay filters of vmess (proxy/vmess/anti_replay.go). Each keeps a map from an id to
  the time when it may come again; a ticker removes what has expired. Times are nanoseconds of a
  clock that does not run backwards. The session filter holds its lock for a whole check. The filter of
  authentication ids reads under a read lock, releases it, and writes under the lock: two steps, between
  which other goroutines run. The locale \<open>replay_filter\<close> is what a handshake relies on; both filters
  interpret it for checks that do not overlap, and the step relation \<open>auth_step\<close> has the overlaps.
\<close>

section \<open>The filters\<close>

type_synonym time = int

definition second :: time where "second = 1000000000"
definition authid_antiReplyDuration :: time where "authid_antiReplyDuration = second * 120"
definition sessionAntiReplayDuration :: time where "sessionAntiReplayDuration = 60 * second * 3"

type_synonym 'k expiry = "'k \<rightharpoonup> time"

text \<open>\<open>check\<close> of the authentication ids: what it decides from the map it has read, and the write.\<close>

definition authid_admits :: "'k \<Rightarrow> time \<Rightarrow> 'k expiry \<Rightarrow> bool" where
  "authid_admits authid now m =
     (case m authid of None \<Rightarrow> True | Some expireTime \<Rightarrow> expireTime < now)"

definition authid_write :: "'k \<Rightarrow> time \<Rightarrow> 'k expiry \<Rightarrow> 'k expiry" where
  "authid_write authid now m = m(authid \<mapsto> now + authid_antiReplyDuration)"

definition authid_check :: "'k \<Rightarrow> time \<Rightarrow> 'k expiry \<Rightarrow> bool \<times> 'k expiry" where
  "authid_check authid now m =
     (if authid_admits authid now m then (True, authid_write authid now m) else (False, m))"

definition session_check :: "'k \<Rightarrow> time \<Rightarrow> 'k expiry \<Rightarrow> bool \<times> 'k expiry" where
  "session_check session now m =
     (case m session of
        Some expire \<Rightarrow> if expire > now then (False, m) else (True, m(session \<mapsto> now + sessionAntiReplayDuration))
      | None \<Rightarrow> (True, m(session \<mapsto> now + sessionAntiReplayDuration)))"

text \<open>The ticker, in both machines.\<close>

definition removeExpiredEntries :: "time \<Rightarrow> 'k expiry \<Rightarrow> 'k expiry" where
  "removeExpiredEntries now m =
     (\<lambda>k. case m k of Some expire \<Rightarrow> if expire < now then None else Some expire | None \<Rightarrow> None)"

datatype 'k replay_event = Check 'k time | Clean time

fun event_time :: "'k replay_event \<Rightarrow> time" where
  "event_time (Check k now) = now"
| "event_time (Clean now) = now"

section \<open>What a filter promises\<close>

text \<open>The decisions of a filter on a sequence of checks and cleanings, and those of a reference that
  remembers everything it has admitted and never cleans.\<close>

fun decisions :: "('k \<Rightarrow> time \<Rightarrow> 'k expiry \<Rightarrow> bool \<times> 'k expiry) \<Rightarrow> 'k expiry \<Rightarrow> 'k replay_event list
    \<Rightarrow> ('k \<times> time \<times> bool) list" where
  "decisions check m [] = []"
| "decisions check m (Check k now # evs) =
     (case check k now m of (ok, m') \<Rightarrow> (k, now, ok) # decisions check m' evs)"
| "decisions check m (Clean now # evs) = decisions check (removeExpiredEntries now m) evs"

fun ideal :: "(time \<Rightarrow> time \<Rightarrow> bool) \<Rightarrow> time \<Rightarrow> ('k \<times> time) list \<Rightarrow> 'k replay_event list \<Rightarrow> ('k \<times> time \<times> bool) list" where
  "ideal blocked window h [] = []"
| "ideal blocked window h (Check k now # evs) =
     (if \<exists>s. (k, s) \<in> set h \<and> blocked (s + window) now then (k, now, False) # ideal blocked window h evs
      else (k, now, True) # ideal blocked window ((k, now) # h) evs)"
| "ideal blocked window h (Clean now # evs) = ideal blocked window h evs"

text \<open>Two admissions of one id are a window apart.\<close>

definition spaced :: "time \<Rightarrow> ('k \<times> time \<times> bool) list \<Rightarrow> bool" where
  "spaced window ds \<longleftrightarrow> sorted_wrt (\<lambda>(k, s, ok) (k', t, ok'). k = k' \<and> ok \<and> ok' \<longrightarrow> s + window \<le> t) ds"

lemma removeExpiredEntries_Some: "removeExpiredEntries now m k = Some e \<longleftrightarrow> m k = Some e \<and> now \<le> e"
  by (auto simp: removeExpiredEntries_def split: option.splits)

text \<open>\<open>blocked e now\<close>: an entry with expiry \<open>e\<close> still counts at \<open>now\<close>. A check is admitted when no entry
  blocks the id, and then blocks it for the window; only entries that block nothing any more are
  forgotten.\<close>

locale replay_filter =
  fixes check :: "'k \<Rightarrow> time \<Rightarrow> 'k expiry \<Rightarrow> bool \<times> 'k expiry"
    and blocked :: "time \<Rightarrow> time \<Rightarrow> bool"
    and window :: time
  assumes check: "check k now m =
      (if \<exists>e. m k = Some e \<and> blocked e now then (False, m) else (True, m(k \<mapsto> now + window)))"
    and blocked_until: "blocked e now \<Longrightarrow> now \<le> e"
    and blocked_mono: "blocked e now \<Longrightarrow> e \<le> e' \<Longrightarrow> blocked e' now"
    and blocked_before: "now < e \<Longrightarrow> blocked e now"
begin

definition agrees :: "'k expiry \<Rightarrow> ('k \<times> time) list \<Rightarrow> time \<Rightarrow> bool" where
  "agrees m h t \<longleftrightarrow> (\<forall>k s. (k, s) \<in> set h \<longrightarrow> s \<le> t) \<and>
     (\<forall>k now. t \<le> now \<longrightarrow> (\<exists>e. m k = Some e \<and> blocked e now) \<longleftrightarrow> (\<exists>s. (k, s) \<in> set h \<and> blocked (s + window) now))"

lemma agrees_later: "agrees m h t \<Longrightarrow> t \<le> t' \<Longrightarrow> agrees m h t'"
  unfolding agrees_def by (meson order_trans)

lemma agrees_clean: "agrees m h t \<Longrightarrow> t \<le> c \<Longrightarrow> agrees (removeExpiredEntries c m) h c"
proof -
  assume a: "agrees m h t" and c: "t \<le> c"
  have "(\<exists>e. removeExpiredEntries c m k = Some e \<and> blocked e now) \<longleftrightarrow> (\<exists>e. m k = Some e \<and> blocked e now)" if "c \<le> now" for k now
    using that removeExpiredEntries_Some [of c m k] blocked_until order_trans by blast
  then show ?thesis using agrees_later [OF a c] by (simp add: agrees_def)
qed

lemma agrees_admit:
  assumes "agrees m h t" "t \<le> c"
  shows "agrees (m(k \<mapsto> c + window)) ((k, c) # h) c"
proof -
  have a: "agrees m h c" by (rule agrees_later [OF assms])
  have "blocked (c + window) now" if "(k, s) \<in> set h" "blocked (s + window) now" for s now
    using that a blocked_mono [of "s + window" now "c + window"] by (auto simp: agrees_def)
  with a show ?thesis by (auto simp: agrees_def)
qed

lemma decisions_ideal_gen:
  assumes "agrees m h t" "sorted (map event_time evs)" "\<forall>ev\<in>set evs. t \<le> event_time ev"
  shows "decisions check m evs = ideal blocked window h evs"
  using assms
proof (induction evs arbitrary: m h t)
  case (Cons ev evs)
  have rest: "sorted (map event_time evs)" "\<forall>x\<in>set evs. event_time ev \<le> event_time x"
    using Cons.prems(2) by auto
  have t: "t \<le> event_time ev" using Cons.prems(3) by simp
  show ?case
  proof (cases ev)
    case (Clean c)
    with Cons.IH [OF _ rest] agrees_clean [OF Cons.prems(1), of c] t show ?thesis by simp
  next
    case (Check k c)
    have eq: "(\<exists>e. m k = Some e \<and> blocked e c) \<longleftrightarrow> (\<exists>s. (k, s) \<in> set h \<and> blocked (s + window) c)"
      using Cons.prems(1) t Check by (simp add: agrees_def)
    show ?thesis
    proof (cases "\<exists>e. m k = Some e \<and> blocked e c")
      case True
      have "decisions check m evs = ideal blocked window h evs"
        using Cons.IH [OF agrees_later [OF Cons.prems(1)] rest(1), of c] rest(2) t Check by simp
      then show ?thesis unfolding Check using True eq by (simp add: check [of k c m])
    next
      case False
      have "decisions check (m(k \<mapsto> c + window)) evs = ideal blocked window ((k, c) # h) evs"
        by (rule Cons.IH [OF agrees_admit [OF Cons.prems(1)] rest(1)]) (use rest(2) t Check in simp_all)
      then show ?thesis unfolding Check using False eq check [of k c m] by auto
    qed
  qed
qed simp

lemma decisions_ideal: "sorted (map event_time evs) \<Longrightarrow> decisions check Map.empty evs = ideal blocked window [] evs"
proof (cases evs)
  case (Cons ev evs')
  assume "sorted (map event_time evs)"
  then show ?thesis
    using decisions_ideal_gen [of Map.empty "[]" "event_time ev" evs] Cons by (auto simp: agrees_def)
qed simp

lemma not_blocked: "\<not> blocked e now \<Longrightarrow> e \<le> now"
  using blocked_before [of now e] by linarith

lemma ideal_after: "(k, t, True) \<in> set (ideal blocked window h evs) \<Longrightarrow> (k, s) \<in> set h \<Longrightarrow> s + window \<le> t"
proof (induction evs arbitrary: h)
  case (Cons ev evs)
  then show ?case by (cases ev) (auto split: if_splits dest: not_blocked)
qed simp

lemma ideal_spaced: "spaced window (ideal blocked window h evs)"
proof (induction evs arbitrary: h)
  case (Cons ev evs)
  show ?case
  proof (cases ev)
    case (Check k now)
    with Cons.IH ideal_after [of k _ "(k, now) # h" evs now] show ?thesis by (auto simp: spaced_def)
  qed (use Cons.IH in simp)
qed (simp add: spaced_def)

lemma no_replay: "sorted (map event_time evs) \<Longrightarrow> spaced window (decisions check Map.empty evs)"
  by (simp add: decisions_ideal ideal_spaced)

end

interpretation authid_filter: replay_filter authid_check "\<lambda>e now. now \<le> e" authid_antiReplyDuration
  by unfold_locales
    (auto simp: authid_check_def authid_admits_def authid_write_def removeExpiredEntries_def split: option.splits if_splits)

interpretation session_filter: replay_filter session_check "\<lambda>e now. now < e" sessionAntiReplayDuration
  by unfold_locales
    (auto simp: session_check_def removeExpiredEntries_def split: option.splits if_splits)

section \<open>Checks that overlap\<close>

text \<open>Goroutines \<open>'t\<close> in the middle of \<open>check\<close>: the id and the \<open>now\<close> of one that has read an admission and
  not yet written it. \<open>admitted\<close> is the history, latest first. With \<open>overlap\<close> false a check
  starts only when no other is under way, which is what one lock for the whole check would give.\<close>

record ('t, 'k) auth_world =
  clock :: time
  authidMap :: "'k expiry"
  pending :: "'t \<Rightarrow> ('k \<times> time) option"
  admitted :: "('k \<times> time) list"

definition auth_start :: "('t, 'k) auth_world" where
  "auth_start = \<lparr>clock = 0, authidMap = Map.empty, pending = Map.empty, admitted = []\<rparr>"

inductive auth_step :: "bool \<Rightarrow> ('t, 'k) auth_world \<Rightarrow> ('t, 'k) auth_world \<Rightarrow> bool" for overlap :: bool where
  tick: "clock w \<le> t \<Longrightarrow> auth_step overlap w (w\<lparr>clock := t\<rparr>)"
| look: "pending w th = None \<Longrightarrow> overlap \<or> pending w = Map.empty
    \<Longrightarrow> authid_admits k (clock w) (authidMap w)
    \<Longrightarrow> auth_step overlap w (w\<lparr>pending := (pending w)(th \<mapsto> (k, clock w))\<rparr>)"
| store: "pending w th = Some (k, now)
    \<Longrightarrow> auth_step overlap w (w\<lparr>authidMap := authid_write k now (authidMap w),
          pending := (pending w)(th := None), admitted := (k, now) # admitted w\<rparr>)"
| clean: "now \<le> clock w
    \<Longrightarrow> auth_step overlap w (w\<lparr>authidMap := removeExpiredEntries now (authidMap w)\<rparr>)"

inductive auth_reach :: "bool \<Rightarrow> ('t, 'k) auth_world \<Rightarrow> bool" for overlap :: bool where
  start: "auth_reach overlap auth_start"
| step: "auth_reach overlap w \<Longrightarrow> auth_step overlap w w' \<Longrightarrow> auth_reach overlap w'"

text \<open>An admission that is not over yet is in the map; a pending check is the only one, and it has seen that every
  earlier admission of its id is over.\<close>

definition auth_inv :: "('t, 'k) auth_world \<Rightarrow> bool" where
  "auth_inv w \<longleftrightarrow>
     sorted_wrt (\<lambda>(k, t) (k', s). k = k' \<longrightarrow> s + authid_antiReplyDuration < t) (admitted w) \<and>
     (\<forall>k s. (k, s) \<in> set (admitted w) \<longrightarrow> s + authid_antiReplyDuration < clock w \<or>
        (\<exists>e. authidMap w k = Some e \<and> s + authid_antiReplyDuration \<le> e)) \<and>
     (\<forall>th k now. pending w th = Some (k, now) \<longrightarrow>
        pending w = [th \<mapsto> (k, now)] \<and> now \<le> clock w \<and>
        (\<forall>s. (k, s) \<in> set (admitted w) \<longrightarrow> s + authid_antiReplyDuration < now))"

lemma auth_inv_start: "auth_inv auth_start"
  by (simp add: auth_inv_def auth_start_def)

lemma auth_inv_step: "auth_step False w w' \<Longrightarrow> auth_inv w \<Longrightarrow> auth_inv w'"
proof (induction rule: auth_step.induct)
  case (tick w t)
  then show ?case unfolding auth_inv_def by (auto; force)
next
  case (look w th k)
  then have p: "pending w = Map.empty" by simp
  have "s + authid_antiReplyDuration < clock w" if "(k, s) \<in> set (admitted w)" for s
    using that look.prems look.hyps(3) by (force simp: auth_inv_def authid_admits_def split: option.splits)
  with p look.prems show ?case by (auto simp: auth_inv_def)
next
  case (store w th k now)
  then have one: "pending w = [th \<mapsto> (k, now)]" "now \<le> clock w"
    "\<And>s. (k, s) \<in> set (admitted w) \<Longrightarrow> s + authid_antiReplyDuration < now"
    by (auto simp: auth_inv_def)
  have "authid_antiReplyDuration > 0" by (simp add: authid_antiReplyDuration_def second_def)
  with one store.prems show ?case by (fastforce simp: auth_inv_def authid_write_def)
next
  case (clean now w)
  then show ?case by (fastforce simp: auth_inv_def removeExpiredEntries_def)
qed

section \<open>Properties\<close>

text \<open>C25: 
  On checks that do not overlap, at times that do not decrease, both filters decide as a reference
  without expiry and cleaning does: an id is refused exactly when it was admitted within the window, 120
  seconds for authentication ids and 180 for sessions, so two admissions of one id are a window apart.
\<close>
theorem replay_filters_exact:
  assumes "sorted (map event_time evs)"
  shows "decisions authid_check Map.empty evs = ideal (\<lambda>e now. now \<le> e) authid_antiReplyDuration [] evs \<and>
    decisions session_check Map.empty evs = ideal (\<lambda>e now. now < e) sessionAntiReplayDuration [] evs \<and>
    spaced authid_antiReplyDuration (decisions authid_check Map.empty evs) \<and>
    spaced sessionAntiReplayDuration (decisions session_check Map.empty evs)"
  using assms authid_filter.decisions_ideal session_filter.decisions_ideal authid_filter.no_replay session_filter.no_replay
  by blast

lemma replay_filters_exact_witness:
  "let evs = [Check (7 :: nat) 0, Check 7 (second * 120), Clean (second * 121), Check 7 (second * 180)] in
   decisions authid_check Map.empty evs = ideal (\<lambda>e now. now \<le> e) authid_antiReplyDuration [] evs \<and>
    decisions session_check Map.empty evs = ideal (\<lambda>e now. now < e) sessionAntiReplayDuration [] evs \<and>
    spaced authid_antiReplyDuration (decisions authid_check Map.empty evs) \<and>
    spaced sessionAntiReplayDuration (decisions session_check Map.empty evs)"
  unfolding Let_def by (rule replay_filters_exact) (simp add: second_def)

text \<open>
  One lock for a whole check would be enough: when no two checks overlap, then in every state that can be reached,
  with the ticker at any moment, two admissions of one authentication id are more than 120 seconds apart.
\<close>
theorem authid_serial_safe:
  assumes "auth_reach False w"
  shows "sorted_wrt (\<lambda>(k, t) (k', s). k = k' \<longrightarrow> s + authid_antiReplyDuration < t) (admitted w)"
proof -
  have "auth_inv w" using assms by induction (auto intro: auth_inv_start auth_inv_step)
  then show ?thesis by (simp add: auth_inv_def)
qed

text \<open>
  But the code releases the read lock before it writes. Two connections that present the same authentication
  id are both admitted, at the same moment, when both read before either writes.
\<close>
theorem authid_race:
  "\<exists>w :: (bool, 'k) auth_world. auth_reach True w \<and> admitted w = [(k, 0), (k, 0)]"
proof -
  let ?w0 = "auth_start :: (bool, 'k) auth_world"
  let ?w1 = "?w0\<lparr>pending := (pending ?w0)(False \<mapsto> (k, clock ?w0))\<rparr>"
  let ?w2 = "?w1\<lparr>pending := (pending ?w1)(True \<mapsto> (k, clock ?w1))\<rparr>"
  let ?w3 = "?w2\<lparr>authidMap := authid_write k 0 (authidMap ?w2), pending := (pending ?w2)(False := None),
    admitted := (k, 0) # admitted ?w2\<rparr>"
  let ?w4 = "?w3\<lparr>authidMap := authid_write k 0 (authidMap ?w3), pending := (pending ?w3)(True := None),
    admitted := (k, 0) # admitted ?w3\<rparr>"
  have s1: "auth_step True ?w0 ?w1"
    by (rule auth_step.look) (simp_all add: auth_start_def authid_admits_def)
  have s2: "auth_step True ?w1 ?w2"
    by (rule auth_step.look) (simp_all add: auth_start_def authid_admits_def)
  have s3: "auth_step True ?w2 ?w3" by (rule auth_step.store) (simp add: auth_start_def)
  have s4: "auth_step True ?w3 ?w4" by (rule auth_step.store) (simp add: auth_start_def)
  have "auth_reach True ?w4"
    by (rule auth_reach.step [OF auth_reach.step [OF auth_reach.step [OF auth_reach.step [OF auth_reach.start s1] s2] s3] s4])
  moreover have "admitted ?w4 = [(k, 0), (k, 0)]" by (simp add: auth_start_def)
  ultimately show ?thesis by blast
qed

lemma authid_serial_safe_witness:
  "\<exists>w :: (bool, nat) auth_world. admitted w = [(7, 0)] \<and> sorted_wrt (\<lambda>(k, t) (k', s). k = k' \<longrightarrow> s + authid_antiReplyDuration < t) (admitted w)"
proof -
  let ?w0 = "auth_start :: (bool, nat) auth_world"
  let ?w1 = "?w0\<lparr>pending := (pending ?w0)(False \<mapsto> (7, clock ?w0))\<rparr>"
  let ?w2 = "?w1\<lparr>authidMap := authid_write 7 0 (authidMap ?w1), pending := (pending ?w1)(False := None),
    admitted := (7, 0) # admitted ?w1\<rparr>"
  have s1: "auth_step False ?w0 ?w1"
    by (rule auth_step.look) (simp_all add: auth_start_def authid_admits_def)
  have s2: "auth_step False ?w1 ?w2" by (rule auth_step.store) (simp add: auth_start_def)
  have r: "auth_reach False ?w2" by (rule auth_reach.step [OF auth_reach.step [OF auth_reach.start s1] s2])
  moreover have "admitted ?w2 = [(7, 0)]" by (simp add: auth_start_def)
  ultimately show ?thesis using authid_serial_safe [OF r] by blast
qed

end
