(* ===== verification/VmessHeader.thy ===== *)
theory VmessHeader
  imports VmessAead VmessReplay UtilsUser
begin

text \<open>
  The authenticated header of vmess (proxy/vmess/header.go, vmess.go and the authentication in server.go):
  the key derivation, the authentication id, the sealed header. SHA-256, MD5, AES and the AEADs are a record of
  functions; HMAC, CRC-32 and FNV-1a are defined. Randomness and the clock are arguments.
\<close>

section \<open>Primitives\<close>

record crypto =
  Sum256 :: "bytes \<Rightarrow> bytes"
  md5_Sum :: "bytes \<Rightarrow> bytes"
  aes_Encrypt :: "bytes \<Rightarrow> bytes \<Rightarrow> bytes"
  aes_Decrypt :: "bytes \<Rightarrow> bytes \<Rightarrow> bytes"
  gcm :: "bytes \<Rightarrow> bytes \<Rightarrow> aead"
  chacha20poly1305 :: "bytes \<Rightarrow> aead"

text \<open>\<open>gcm key ad\<close> seals with the additional data \<open>ad\<close>.\<close>

definition crypto_ok :: "crypto \<Rightarrow> bool" where
  "crypto_ok c \<longleftrightarrow>
     (\<forall>x. length (Sum256 c x) = 32) \<and> (\<forall>x. length (md5_Sum c x) = 16) \<and>
     (\<forall>k b. length b = 16 \<longrightarrow> aes_Decrypt c k (aes_Encrypt c k b) = b \<and> length (aes_Encrypt c k b) = 16) \<and>
     (\<forall>k ad. aead_ok (gcm c k ad)) \<and> (\<forall>k. aead_ok (chacha20poly1305 c k))"

text \<open>\<open>hmac.New(H, key)\<close>, all hashes here having blocks of 64 bytes.\<close>

definition hmac :: "(bytes \<Rightarrow> bytes) \<Rightarrow> bytes \<Rightarrow> bytes \<Rightarrow> bytes" where
  "hmac H key msg =
     (let key = (if length key > 64 then H key else key);
          k = key @ replicate (64 - length key) 0
      in H (map ((XOR) 0x5c) k @ H (map ((XOR) 0x36) k @ msg)))"

text \<open>\<open>crc32.ChecksumIEEE\<close> and \<open>fnv.New32a\<close>.\<close>

definition crc32_bit :: "32 word \<Rightarrow> 32 word" where
  "crc32_bit w = (if bit w 0 then drop_bit 1 w XOR 0xEDB88320 else drop_bit 1 w)"

definition ChecksumIEEE :: "bytes \<Rightarrow> 32 word" where
  "ChecksumIEEE bs = NOT (fold (\<lambda>b w. (crc32_bit ^^ 8) (w XOR ucast b)) bs (- 1))"

definition fnv32a :: "bytes \<Rightarrow> 32 word" where
  "fnv32a bs = fold (\<lambda>b h. (h XOR ucast b) * 16777619) bs 2166136261"

text \<open>Big-endian fields of 32 and 64 bits.\<close>

definition PutUint32 :: "32 word \<Rightarrow> bytes" where
  "PutUint32 w = [ucast (drop_bit 24 w), ucast (drop_bit 16 w), ucast (drop_bit 8 w), ucast w]"

definition Uint32 :: "bytes \<Rightarrow> 32 word" where
  "Uint32 bs = fold (\<lambda>b w. push_bit 8 w OR ucast b) (take 4 bs) 0"

definition PutUint64 :: "64 word \<Rightarrow> bytes" where
  "PutUint64 w = [ucast (drop_bit 56 w), ucast (drop_bit 48 w), ucast (drop_bit 40 w), ucast (drop_bit 32 w),
     ucast (drop_bit 24 w), ucast (drop_bit 16 w), ucast (drop_bit 8 w), ucast w]"

definition Uint64 :: "bytes \<Rightarrow> 64 word" where
  "Uint64 bs = fold (\<lambda>b w. push_bit 8 w OR ucast b) (take 8 bs) 0"

section \<open>Keys\<close>

definition kdfSaltConstAuthIDEncryptionKey :: string where
  "kdfSaltConstAuthIDEncryptionKey = ''AES Auth ID Encryption''"
definition kdfSaltConstAEADRespHeaderLenKey :: string where
  "kdfSaltConstAEADRespHeaderLenKey = ''AEAD Resp Header Len Key''"
definition kdfSaltConstAEADRespHeaderLenIV :: string where
  "kdfSaltConstAEADRespHeaderLenIV = ''AEAD Resp Header Len IV''"
definition kdfSaltConstAEADRespHeaderPayloadKey :: string where
  "kdfSaltConstAEADRespHeaderPayloadKey = ''AEAD Resp Header Key''"
definition kdfSaltConstAEADRespHeaderPayloadIV :: string where
  "kdfSaltConstAEADRespHeaderPayloadIV = ''AEAD Resp Header IV''"
definition kdfSaltConstVMessAEADKDF :: string where
  "kdfSaltConstVMessAEADKDF = ''VMess AEAD KDF''"
definition kdfSaltConstVMessHeaderPayloadAEADKey :: string where
  "kdfSaltConstVMessHeaderPayloadAEADKey = ''VMess Header AEAD Key''"
definition kdfSaltConstVMessHeaderPayloadAEADIV :: string where
  "kdfSaltConstVMessHeaderPayloadAEADIV = ''VMess Header AEAD Nonce''"
definition kdfSaltConstVMessHeaderPayloadLengthAEADKey :: string where
  "kdfSaltConstVMessHeaderPayloadLengthAEADKey = ''VMess Header AEAD Key_Length''"
definition kdfSaltConstVMessHeaderPayloadLengthAEADIV :: string where
  "kdfSaltConstVMessHeaderPayloadLengthAEADIV = ''VMess Header AEAD Nonce_Length''"

datatype hMacCreator = HMacCreator (hmac_parent: "hMacCreator option") (hmac_value: bytes)

fun hmac_Create :: "crypto \<Rightarrow> hMacCreator \<Rightarrow> bytes \<Rightarrow> bytes" where
  "hmac_Create c (HMacCreator None v) = hmac (Sum256 c) v"
| "hmac_Create c (HMacCreator (Some p) v) = hmac (hmac_Create c p) v"

definition kdf :: "crypto \<Rightarrow> bytes \<Rightarrow> bytes list \<Rightarrow> bytes" where
  "kdf c key path =
     hmac_Create c (fold (\<lambda>v cr. HMacCreator (Some cr) v) path
       (HMacCreator None (bytes_of_string kdfSaltConstVMessAEADKDF))) key"

definition kdf16 :: "crypto \<Rightarrow> bytes \<Rightarrow> bytes list \<Rightarrow> bytes" where
  "kdf16 c key path = take 16 (kdf c key path)"

definition getkeyBs :: string where "getkeyBs = ''c48619fe-8f02-49e0-b9e9-edf763e17e21''"

definition GetKey :: "crypto \<Rightarrow> bytes \<Rightarrow> bytes" where
  "GetKey c uuid = md5_Sum c (uuid @ bytes_of_string getkeyBs)"

definition TimestampHash :: "crypto \<Rightarrow> 64 word \<Rightarrow> bytes" where
  "TimestampHash c unixSec = (let ts = PutUint64 unixSec in md5_Sum c (ts @ ts @ ts @ ts))"

section \<open>The authentication id\<close>

definition authid_len :: nat where "authid_len = 16"
definition authID_timeMaxSecondGap :: int where "authID_timeMaxSecondGap = 120"

definition ErrAuthID_timeBeyondGap :: goerr where
  "ErrAuthID_timeBeyondGap = ErrInErr ''vmess: time gap more than 120 second'' (Some ErrInvalidData) []"
definition ErrReplayAttack :: goerr where
  "ErrReplayAttack = NewErr ''vmess: we are under replay attack! ''"
definition ErrReplaySessionAttack :: goerr where
  "ErrReplaySessionAttack =
     ErrInErr ''vmess: duplicated session id, we are under replay attack! '' (Some ErrReplayAttack) []"

text \<open>\<open>generateCipher\<close>: a cipher is its key.\<close>

definition generateCipher :: "crypto \<Rightarrow> bytes \<Rightarrow> bytes" where
  "generateCipher c cmdKey = kdf16 c cmdKey [bytes_of_string kdfSaltConstAuthIDEncryptionKey]"

definition createAuthID :: "crypto \<Rightarrow> bytes \<Rightarrow> 64 word \<Rightarrow> bytes \<Rightarrow> bytes" where
  "createAuthID c cmdKey time random =
     (let buf = PutUint64 time @ random; zero = ChecksumIEEE buf
      in aes_Encrypt c (generateCipher c cmdKey) (buf @ PutUint32 zero))"

definition tryMatchAuthIDByBlock :: "crypto \<Rightarrow> int \<Rightarrow> time \<Rightarrow> bytes \<Rightarrow> bytes \<Rightarrow> bytes expiry option
    \<Rightarrow> nat \<times> bytes expiry option" where
  "tryMatchAuthIDByBlock c now clk block encrypted_authID machine =
     (let data = aes_Decrypt c block encrypted_authID;
          t = sint (Uint64 data);
          zero = Uint32 (drop 12 data)
      in if zero \<noteq> ChecksumIEEE (take 12 data) then (1, machine)
         else if authID_timeMaxSecondGap < \<bar>\<bar>t\<bar> - now\<bar> then (2, machine)
         else (case machine of
             None \<Rightarrow> (0, machine)
           | Some m \<Rightarrow> (case authid_check encrypted_authID clk m of
               (ok, m) \<Rightarrow> if \<not> ok then (3, Some m) else (0, Some m))))"

text \<open>An \<open>authPair\<close> is a user and his cipher. \<open>err\<close> is the error of the pairs tried so far.\<close>

definition auth_err :: "nat \<Rightarrow> goerr" where
  "auth_err failreason =
     (if failreason = 1 then err_wrap ''Vmess AntiReplay Err'' ErrInvalidData
      else if failreason = 2 then err_wrap ''Vmess AntiReplay Err'' ErrAuthID_timeBeyondGap
      else err_wrap ''Vmess AntiReplay Err'' ErrReplayAttack)"

fun auth_loop :: "crypto \<Rightarrow> int \<Rightarrow> time \<Rightarrow> bytes \<Rightarrow> (User \<times> bytes) list \<Rightarrow> goerr option \<Rightarrow> bytes expiry option
    \<Rightarrow> (goerr + User) \<times> bytes expiry option" where
  "auth_loop c now clk authid [] err machine =
     (Inl (case err of None \<Rightarrow> ErrNoMatch | Some e \<Rightarrow> e), machine)"
| "auth_loop c now clk authid ((u, block) # ps) err machine =
     (case tryMatchAuthIDByBlock c now clk block authid machine of (failreason, machine) \<Rightarrow>
        if failreason = 0 then (Inr u, machine)
        else auth_loop c now clk authid ps (Some (auth_err failreason)) machine)"

definition authUserByAuthPairList :: "crypto \<Rightarrow> int \<Rightarrow> time \<Rightarrow> bytes \<Rightarrow> (User \<times> bytes) list \<Rightarrow> bytes expiry option
    \<Rightarrow> (goerr + User) \<times> bytes expiry option" where
  "authUserByAuthPairList c now clk bs authPairList machine =
     auth_loop c now clk (copy_into authid_len bs) authPairList None machine"

section \<open>The sealed header\<close>

definition header_key :: "crypto \<Rightarrow> bytes \<Rightarrow> string \<Rightarrow> bytes \<Rightarrow> bytes \<Rightarrow> bytes" where
  "header_key c key salt authid nonce = kdf16 c key [bytes_of_string salt, authid, nonce]"

definition header_nonce :: "crypto \<Rightarrow> bytes \<Rightarrow> string \<Rightarrow> bytes \<Rightarrow> bytes \<Rightarrow> bytes" where
  "header_nonce c key salt authid nonce = take 12 (kdf c key [bytes_of_string salt, authid, nonce])"

definition sealAEADHeader :: "crypto \<Rightarrow> bytes \<Rightarrow> bytes \<Rightarrow> 64 word \<Rightarrow> bytes \<Rightarrow> bytes \<Rightarrow> bytes" where
  "sealAEADHeader c key data t random connectionNonce =
     (let generatedAuthID = createAuthID c key t random;
          aeadPayloadLengthSerializedByte = PutUint16 (word_of_nat (length data));
          payloadHeaderLengthAEADEncrypted =
            Seal (gcm c (header_key c key kdfSaltConstVMessHeaderPayloadLengthAEADKey generatedAuthID connectionNonce)
                generatedAuthID)
              (header_nonce c key kdfSaltConstVMessHeaderPayloadLengthAEADIV generatedAuthID connectionNonce)
              aeadPayloadLengthSerializedByte;
          payloadHeaderAEADEncrypted =
            Seal (gcm c (header_key c key kdfSaltConstVMessHeaderPayloadAEADKey generatedAuthID connectionNonce)
                generatedAuthID)
              (header_nonce c key kdfSaltConstVMessHeaderPayloadAEADIV generatedAuthID connectionNonce)
              data
      in generatedAuthID @ payloadHeaderLengthAEADEncrypted @ connectionNonce @ payloadHeaderAEADEncrypted)"

text \<open>The results of \<open>openAEADHeader\<close>, and the rest of the buffer.\<close>

record opened =
  op_aeadData :: bytes
  shouldDrain :: bool
  bytesRead :: nat
  errorReason :: "goerr option"

definition openAEADHeader :: "crypto \<Rightarrow> bytes \<Rightarrow> bytes \<Rightarrow> bytes \<Rightarrow> opened \<times> bytes" where
  "openAEADHeader c key authid remainDataReader =
     (case ReadFull buf_Read 18 remainDataReader of
       ((payloadHeaderLengthAEADEncrypted, err), rest) \<Rightarrow>
         let bytesRead = length payloadHeaderLengthAEADEncrypted in
         if err \<noteq> None then (\<lparr>op_aeadData = [], shouldDrain = False, bytesRead = bytesRead, errorReason = err\<rparr>, rest)
         else (case ReadFull buf_Read 8 rest of ((nonce, err), rest) \<Rightarrow>
           let bytesRead = bytesRead + length nonce in
           if err \<noteq> None then (\<lparr>op_aeadData = [], shouldDrain = False, bytesRead = bytesRead, errorReason = err\<rparr>, rest)
           else (case Open (gcm c (header_key c key kdfSaltConstVMessHeaderPayloadLengthAEADKey authid nonce) authid)
                 (header_nonce c key kdfSaltConstVMessHeaderPayloadLengthAEADIV authid nonce)
                 payloadHeaderLengthAEADEncrypted of
               None \<Rightarrow> (\<lparr>op_aeadData = [], shouldDrain = True, bytesRead = bytesRead, errorReason = Some auth_failed\<rparr>, rest)
             | Some lengthPayload \<Rightarrow>
                 let len = Uint16 lengthPayload in
                 (case ReadFull buf_Read (unat (len + 16)) rest of ((payloadHeaderAEADEncrypted, err), rest) \<Rightarrow>
                   let bytesRead = bytesRead + length payloadHeaderAEADEncrypted in
                   if err \<noteq> None
                   then (\<lparr>op_aeadData = [], shouldDrain = False, bytesRead = bytesRead, errorReason = err\<rparr>, rest)
                   else (case Open (gcm c (header_key c key kdfSaltConstVMessHeaderPayloadAEADKey authid nonce) authid)
                         (header_nonce c key kdfSaltConstVMessHeaderPayloadAEADIV authid nonce)
                         payloadHeaderAEADEncrypted of
                       None \<Rightarrow> (\<lparr>op_aeadData = [], shouldDrain = True, bytesRead = bytesRead, errorReason = Some auth_failed\<rparr>, rest)
                     | Some headerPayload \<Rightarrow>
                         (\<lparr>op_aeadData = headerPayload, shouldDrain = False, bytesRead = bytesRead, errorReason = None\<rparr>, rest))))))"

section \<open>Lemmas\<close>

lemma PutUint_length [simp]: "length (PutUint32 w) = 4" "length (PutUint64 x) = 8"
  by (simp_all add: PutUint32_def PutUint64_def)

lemma be_step:
  fixes w :: "'a::len word"
  assumes "8 \<le> LENGTH('a)"
  shows "push_bit 8 (drop_bit (k + 8) w) OR ucast (ucast (drop_bit k w) :: byte) = drop_bit k w"
proof (rule bit_word_eqI)
  fix n assume n: "n < LENGTH('a)"
  show "bit (push_bit 8 (drop_bit (k + 8) w) OR ucast (ucast (drop_bit k w) :: byte)) n \<longleftrightarrow> bit (drop_bit k w) n"
  proof (cases "n < 8")
    case True
    then show ?thesis using n by (simp add: bit_simps)
  next
    case False
    then have "k + 8 + (n - 8) = k + n" by simp
    with False show ?thesis using n by (auto simp: bit_simps)
  qed
qed

lemma be_first: "ucast (ucast (drop_bit 24 w) :: byte) = drop_bit 24 (w :: 32 word)"
  "ucast (ucast (drop_bit 56 x) :: byte) = drop_bit 56 (x :: 64 word)"
proof -
  have "drop_bit 32 w = 0" by (rule bit_word_eqI) (auto simp: bit_simps dest: bit_imp_le_length)
  with be_step [of 24 w] show "ucast (ucast (drop_bit 24 w) :: byte) = drop_bit 24 w" by simp
  have "drop_bit 64 x = 0" by (rule bit_word_eqI) (auto simp: bit_simps dest: bit_imp_le_length)
  with be_step [of 56 x] show "ucast (ucast (drop_bit 56 x) :: byte) = drop_bit 56 x" by simp
qed

lemma Uint32_Put [simp]: "Uint32 (PutUint32 w @ rest) = w" "Uint32 (PutUint32 w) = w"
  using be_step [of 16 w] be_step [of 8 w] be_step [of 0 w]
  by (simp_all add: Uint32_def PutUint32_def be_first)

lemma Uint64_Put [simp]: "Uint64 (PutUint64 w @ rest) = w" "Uint64 (PutUint64 w) = w"
  using be_step [of 48 w] be_step [of 40 w] be_step [of 32 w] be_step [of 24 w] be_step [of 16 w] be_step [of 8 w] be_step [of 0 w]
  by (simp_all add: Uint64_def PutUint64_def be_first)

lemma hmac_length: "(\<And>x. length (H x) = 32) \<Longrightarrow> length (hmac H k m) = 32"
  by (simp add: hmac_def Let_def)

lemma hmac_Create_length: "crypto_ok c \<Longrightarrow> length (hmac_Create c cr x) = 32"
  by (induction cr arbitrary: x rule: hmac_Create.induct) (simp_all add: hmac_length crypto_ok_def)

lemma kdf_length: "crypto_ok c \<Longrightarrow> length (kdf c k p) = 32"
  by (simp add: kdf_def hmac_Create_length)

lemma createAuthID_length: "crypto_ok c \<Longrightarrow> length random = 4 \<Longrightarrow> length (createAuthID c k t random) = 16"
  by (simp add: createAuthID_def Let_def crypto_ok_def)

text \<open>The owner of the key matches while the time is right, and then only a replay is refused.\<close>

lemma tryMatch_createAuthID:
  assumes "crypto_ok c" "length random = 4" "\<bar>\<bar>sint t\<bar> - now\<bar> \<le> 120"
  shows "tryMatchAuthIDByBlock c now clk (generateCipher c k) (createAuthID c k t random) (Some m) =
    (if authid_admits (createAuthID c k t random) clk m
     then (0, Some (authid_write (createAuthID c k t random) clk m)) else (3, Some m))"
proof -
  let ?buf = "PutUint64 t @ random"
  let ?data = "?buf @ PutUint32 (ChecksumIEEE ?buf)"
  have "aes_Decrypt c (generateCipher c k) (createAuthID c k t random) = ?data"
    using assms(1,2) by (simp add: createAuthID_def Let_def crypto_ok_def)
  moreover have "take 12 ?data = ?buf" "Uint32 (drop 12 ?data) = ChecksumIEEE ?buf" "Uint64 ?data = t"
    using assms(2) by simp_all
  ultimately show ?thesis using assms(3)
    by (simp add: tryMatchAuthIDByBlock_def Let_def authID_timeMaxSecondGap_def authid_check_def)
qed

lemma auth_loop_skip:
  "\<forall>p\<in>set ps. fst (tryMatchAuthIDByBlock c now clk (snd p) authid m) = 1 \<Longrightarrow>
   \<exists>err'. auth_loop c now clk authid (ps @ qs) err m = auth_loop c now clk authid qs err' m"
proof (induction ps arbitrary: err)
  case (Cons p ps)
  obtain u k where p: "p = (u, k)" by (cases p)
  with Cons.prems have "tryMatchAuthIDByBlock c now clk k authid m = (1, m)"
    by (auto simp: tryMatchAuthIDByBlock_def Let_def split: if_splits option.splits prod.splits)
  with Cons p show ?case by auto
qed auto

text \<open>Whoever is let in: the id decrypts under his key to a right checksum and a time in the gap, it was
  not in the filter, and is now.\<close>

lemma auth_loop_Inr:
  assumes "auth_loop c now clk authid ps err (Some m) = (Inr u, m')"
  shows "\<exists>k. (u, k) \<in> set ps \<and>
    Uint32 (drop 12 (aes_Decrypt c k authid)) = ChecksumIEEE (take 12 (aes_Decrypt c k authid)) \<and>
    \<bar>\<bar>sint (Uint64 (aes_Decrypt c k authid))\<bar> - now\<bar> \<le> 120 \<and>
    authid_admits authid clk m \<and> m' = Some (authid_write authid clk m)"
  using assms
proof (induction ps arbitrary: err)
  case (Cons p ps)
  obtain v k where p: "p = (v, k)" by (cases p)
  obtain r m1 where t: "tryMatchAuthIDByBlock c now clk k authid (Some m) = (r, m1)" by fastforce
  show ?case
  proof (cases "r = 0")
    case True
    with t p Cons.prems show ?thesis
      by (intro exI [of _ k])
        (auto simp: tryMatchAuthIDByBlock_def Let_def authID_timeMaxSecondGap_def authid_check_def
          split: if_splits prod.splits)
  next
    case False
    with t have "m1 = Some m"
      by (auto simp: tryMatchAuthIDByBlock_def Let_def authid_check_def split: if_splits prod.splits)
    with Cons.IH [of "Some (auth_err r)"] Cons.prems p t False show ?thesis by auto
  qed
qed simp

lemma auth_loop_Inl:
  assumes "auth_loop c now clk authid (ps @ [(u, k)]) err m = (Inl e, m')"
  shows "e = auth_err (fst (tryMatchAuthIDByBlock c now clk k authid m)) \<and> m' = m"
  using assms
proof (induction ps arbitrary: err)
  case Nil
  then show ?case
    by (auto simp: tryMatchAuthIDByBlock_def Let_def authid_check_def split: if_splits prod.splits option.splits)
next
  case (Cons p ps)
  obtain v j where p: "p = (v, j)" by (cases p)
  obtain r m1 where t: "tryMatchAuthIDByBlock c now clk j authid m = (r, m1)" by fastforce
  have "r \<noteq> 0" using Cons.prems p t by (cases "r = 0") auto
  with t have "m1 = m"
    by (auto simp: tryMatchAuthIDByBlock_def Let_def authid_check_def split: if_splits prod.splits option.splits)
  with Cons t p \<open>r \<noteq> 0\<close> show ?case by auto
qed

text \<open>The server opens what the client seals.\<close>

lemma ReadFull_buf: "n \<le> length bs \<Longrightarrow> ReadFull buf_Read n bs = ((take n bs, None), drop n bs)"
  using bytes_buffer.ReadFull_loop_reads [where r = bs and n = n and fuel = n and acc = "[]"] by (auto simp: ReadFull_def)

lemma openAEADHeader_seal:
  assumes "crypto_ok c" "length random = 4" "length nonce = 8" "length data + 16 < 65536"
  shows "drop 16 (sealAEADHeader c key data t random nonce @ rest) =
      drop 16 (sealAEADHeader c key data t random nonce) @ rest"
    "take 16 (sealAEADHeader c key data t random nonce @ rest) = createAuthID c key t random"
    "length (sealAEADHeader c key data t random nonce) = length data + 58"
    "openAEADHeader c key (createAuthID c key t random) (drop 16 (sealAEADHeader c key data t random nonce) @ rest) =
      (\<lparr>op_aeadData = data, shouldDrain = False, bytesRead = length data + 42, errorReason = None\<rparr>, rest)"
proof -
  let ?id = "createAuthID c key t random"
  have id: "length ?id = 16" by (rule createAuthID_length [OF assms(1,2)])
  let ?g1 = "gcm c (header_key c key kdfSaltConstVMessHeaderPayloadLengthAEADKey ?id nonce) ?id"
  let ?g2 = "gcm c (header_key c key kdfSaltConstVMessHeaderPayloadAEADKey ?id nonce) ?id"
  let ?n1 = "header_nonce c key kdfSaltConstVMessHeaderPayloadLengthAEADIV ?id nonce"
  let ?n2 = "header_nonce c key kdfSaltConstVMessHeaderPayloadAEADIV ?id nonce"
  let ?len = "word_of_nat (length data) :: 16 word"
  let ?s1 = "Seal ?g1 ?n1 (PutUint16 ?len)" and ?s2 = "Seal ?g2 ?n2 data"
  have g: "aead_ok ?g1" "aead_ok ?g2" using assms(1) by (simp_all add: crypto_ok_def)
  then have s: "length ?s1 = 18" "length ?s2 = length data + 16" "Open ?g1 ?n1 ?s1 = Some (PutUint16 ?len)"
    "Open ?g2 ?n2 ?s2 = Some data"
    by (simp_all add: aead_ok_def)
  have eq: "sealAEADHeader c key data t random nonce = ?id @ ?s1 @ nonce @ ?s2"
    by (simp add: sealAEADHeader_def Let_def)
  from id s assms(3) show "drop 16 (sealAEADHeader c key data t random nonce @ rest) =
      drop 16 (sealAEADHeader c key data t random nonce) @ rest"
    "take 16 (sealAEADHeader c key data t random nonce @ rest) = ?id"
    "length (sealAEADHeader c key data t random nonce) = length data + 58"
    by (simp_all add: eq)
  have l: "unat (?len + 16) = length data + 16"
    using assms(4) by (simp add: unat_word_ariths unat_of_nat)
  have "drop 16 (sealAEADHeader c key data t random nonce) = ?s1 @ nonce @ ?s2" using id by (simp add: eq)
  moreover have "ReadFull buf_Read 18 (?s1 @ nonce @ ?s2 @ rest) = ((?s1, None), nonce @ ?s2 @ rest)"
    "ReadFull buf_Read 8 (nonce @ ?s2 @ rest) = ((nonce, None), ?s2 @ rest)"
    "ReadFull buf_Read (unat (?len + 16)) (?s2 @ rest) = ((?s2, None), rest)"
    using s assms(3) l by (simp_all add: ReadFull_buf)
  ultimately show "openAEADHeader c key ?id (drop 16 (sealAEADHeader c key data t random nonce) @ rest) =
      (\<lparr>op_aeadData = data, shouldDrain = False, bytesRead = length data + 42, errorReason = None\<rparr>, rest)"
    using s assms(3) l by (simp add: openAEADHeader_def Let_def)
qed

end
