(* ===== verification/VmessConn.thy ===== *)
theory VmessConn
  imports VmessHeader GoStrings
begin

text \<open>
  The two ends of a vmess connection (proxy/vmess/client.go and server.go): the handshakes, the response
  header, and the data readers and writers they choose. A connection below is the list of chunks its reads
  return; what an end writes to it is the list of messages. The first write of each end is glued to its header.
  The clock gives \<open>now\<close> in seconds, and \<open>clk\<close> for the filters; randomness is an argument.
\<close>

section \<open>Options\<close>

definition OptBasicFormat :: byte where "OptBasicFormat = 0"
definition OptChunkStream :: byte where "OptChunkStream = 1"
definition OptChunkMasking :: byte where "OptChunkMasking = 4"
definition OptGlobalPadding :: byte where "OptGlobalPadding = 8"
definition SecurityAES128GCM :: byte where "SecurityAES128GCM = 3"
definition SecurityChacha20Poly1305 :: byte where "SecurityChacha20Poly1305 = 4"
definition SecurityNone :: byte where "SecurityNone = 5"
definition vmess_CmdTCP :: byte where "vmess_CmdTCP = 1"
definition vmess_CmdUDP :: byte where "vmess_CmdUDP = 2"
definition cmd_muxcool_unimplemented :: byte where "cmd_muxcool_unimplemented = 3"
definition CMDMux_VS :: byte where "CMDMux_VS = 4"

lemmas vmess_opts [model_defs] = OptBasicFormat_def OptChunkStream_def OptChunkMasking_def OptGlobalPadding_def
  SecurityAES128GCM_def SecurityChacha20Poly1305_def SecurityNone_def
  vmess_CmdTCP_def vmess_CmdUDP_def cmd_muxcool_unimplemented_def CMDMux_VS_def

section \<open>Data writers and readers\<close>

text \<open>What \<open>dataWriter\<close> and \<open>dataReader\<close> can be: the connection below (or the switcher in front of it), a
  chunked one, or a sealed one with its AEAD and iv.\<close>

datatype vwriter = RawW | ChunkW | AeadW aead bytes aeadWriter

definition vwriter_Write :: "shake128 \<Rightarrow> (nat \<Rightarrow> byte) \<Rightarrow> bytes \<Rightarrow> vwriter \<Rightarrow> (bytes list \<times> vwriter) option" where
  "vwriter_Write shake rand b w =
     (case w of
        RawW \<Rightarrow> Some ([b], RawW)
      | ChunkW \<Rightarrow> Some (chunked_Write b, ChunkW)
      | AeadW a iv st \<Rightarrow> map_option (\<lambda>(out, st). (out, AeadW a iv st)) (aead_Write a shake iv rand b st))"

type_synonym lower = "bytes \<times> bytes list"

datatype vreader = RawR lower | ChunkR "nat \<times> lower" | AeadR aead bytes "lower aeadReader"

definition vreader_Read :: "shake128 \<Rightarrow> nat \<Rightarrow> (vreader, bytes) rd" where
  "vreader_Read shake n vr =
     (case vr of
        RawR lo \<Rightarrow> map_prod id RawR (multi_Read n lo)
      | ChunkR st \<Rightarrow> map_prod id ChunkR (chunked_Read multi_Read n st)
      | AeadR a iv st \<Rightarrow> map_prod id (AeadR a iv) (aead_Read a shake multi_Read iv n st))"

text \<open>The 32 bytes of the ChaCha20 key.\<close>

definition chacha_key :: "crypto \<Rightarrow> bytes \<Rightarrow> bytes" where
  "chacha_key c k = (let t = md5_Sum c k in t @ md5_Sum c t)"

definition new_parser :: "byte \<Rightarrow> bytes \<Rightarrow> ShakeSizeParser option" where
  "new_parser opt iv =
     (if opt AND OptChunkMasking = OptChunkMasking
      then Some (NewShakeSizeParser iv (opt AND OptGlobalPadding = OptGlobalPadding)) else None)"

definition new_writer :: "crypto \<Rightarrow> byte \<Rightarrow> byte \<Rightarrow> bytes \<Rightarrow> bytes \<Rightarrow> ShakeSizeParser option \<Rightarrow> vwriter" where
  "new_writer c opt security key iv parser =
     (if opt AND OptChunkStream = OptChunkStream then
        (if security = SecurityNone then ChunkW
         else if security = SecurityAES128GCM then AeadW (gcm c key []) iv (0, parser)
         else if security = SecurityChacha20Poly1305 then AeadW (chacha20poly1305 c (chacha_key c key)) iv (0, parser)
         else RawW)
      else RawW)"

definition new_reader :: "crypto \<Rightarrow> byte \<Rightarrow> byte \<Rightarrow> bytes \<Rightarrow> bytes \<Rightarrow> ShakeSizeParser option \<Rightarrow> lower \<Rightarrow> vreader option" where
  "new_reader c opt security key iv parser lo =
     (if opt AND OptChunkStream > 0 then
        (if security = SecurityNone then Some (ChunkR (0, lo))
         else if security = SecurityAES128GCM then Some (AeadR (gcm c key []) iv (AEADReader lo parser))
         else if security = SecurityChacha20Poly1305
         then Some (AeadR (chacha20poly1305 c (chacha_key c key)) iv (AEADReader lo parser))
         else None)
      else None)"

section \<open>The client\<close>

record vmess_Client =
  cl_user :: bytes
  cl_opt :: byte
  cl_security :: byte
  cl_use_mux :: bool

definition specifySecurityByStr :: "bool \<Rightarrow> vmess_Client \<Rightarrow> string \<Rightarrow> goerr + vmess_Client" where
  "specifySecurityByStr SystemAutoUseAes c security =
     (let security = ToLower security in
      if security = ''aes-128-gcm'' then Inr (c\<lparr>cl_security := SecurityAES128GCM\<rparr>)
      else if security = ''chacha20-poly1305'' then Inr (c\<lparr>cl_security := SecurityChacha20Poly1305\<rparr>)
      else if security = ''auto'' \<or> security = [] then
        Inr (c\<lparr>cl_security := (if SystemAutoUseAes then SecurityAES128GCM else SecurityChacha20Poly1305)\<rparr>)
      else if security = ''none'' then Inr (c\<lparr>cl_security := SecurityNone\<rparr>)
      else if security = ''zero'' \<or> security = ''0'' then
        Inr (c\<lparr>cl_opt := OptBasicFormat, cl_security := SecurityNone\<rparr>)
      else Inl (err_wrap ''unknown security type'' ErrInvalidData))"

text \<open>\<open>GetEncryptAlgo\<close>: \<open>extra\<close> is the string under \<open>vmess_security\<close> in the configuration.\<close>

definition GetEncryptAlgo :: "string option \<Rightarrow> string \<Rightarrow> string" where
  "GetEncryptAlgo extra EncryptAlgo =
     (let result = (case extra of Some str \<Rightarrow> str | None \<Rightarrow> []) in
      if EncryptAlgo \<noteq> [] then EncryptAlgo else result)"

definition vmess_NewClient :: "bool \<Rightarrow> string \<Rightarrow> bool \<Rightarrow> string option \<Rightarrow> string \<Rightarrow> goerr + vmess_Client" where
  "vmess_NewClient SystemAutoUseAes uuid mux extra EncryptAlgo =
     (case StrToUUID uuid of
        Inl e \<Rightarrow> Inl e
      | Inr u \<Rightarrow> specifySecurityByStr SystemAutoUseAes
          \<lparr>cl_user = u, cl_opt = OptChunkStream, cl_security = 0, cl_use_mux = mux\<rparr> (GetEncryptAlgo extra EncryptAlgo))"

record ClientConn =
  cc_user :: bytes
  cc_opt :: byte
  cc_security :: byte
  cc_theTarget :: Addr
  cc_atyp :: byte
  cc_addr :: bytes
  cc_port :: "16 word"
  cc_reqBodyIV :: bytes
  cc_reqBodyKey :: bytes
  cc_reqRespV :: byte
  cc_respBodyIV :: bytes
  cc_respBodyKey :: bytes
  cc_dataReader :: "vreader option"
  cc_dataWriter :: "vwriter option"
  vmessout :: bytes

definition client_Write :: "crypto \<Rightarrow> shake128 \<Rightarrow> (nat \<Rightarrow> byte) \<Rightarrow> bytes \<Rightarrow> ClientConn \<Rightarrow> (bytes list \<times> ClientConn) option" where
  "client_Write c shake rand b cc =
     (case cc_dataWriter cc of
        Some w \<Rightarrow> map_option (\<lambda>(out, w). (out, cc\<lparr>cc_dataWriter := Some w\<rparr>)) (vwriter_Write shake rand b w)
      | None \<Rightarrow>
          let w = new_writer c (cc_opt cc) (cc_security cc) (cc_reqBodyKey cc) (cc_reqBodyIV cc) None in
          if length b = 0 then Some ([vmessout cc], cc\<lparr>cc_dataWriter := Some w, vmessout := []\<rparr>)
          else map_option (\<lambda>(out, w). ([vmessout cc @ concat out], cc\<lparr>cc_dataWriter := Some w, vmessout := []\<rparr>))
            (vwriter_Write shake rand b w))"

text \<open>The random values of one handshake.\<close>

record vmess_random =
  rnd_33 :: bytes
  rnd_paddingLen :: nat
  rnd_padding :: bytes
  rnd_authid :: bytes
  rnd_nonce :: bytes

definition vmess_header :: "ClientConn \<Rightarrow> byte \<Rightarrow> nat \<Rightarrow> bytes \<Rightarrow> bytes" where
  "vmess_header cc cmd paddingLen padding =
     (let buf = [1] @ cc_reqBodyIV cc @ cc_reqBodyKey cc @ [cc_reqRespV cc, cc_opt cc];
          pSec = word_of_nat (paddingLen * 16) OR cc_security cc;
          buf = buf @ [pSec, 0, cmd] @ PutUint16 (cc_port cc) @ [cc_atyp cc] @ cc_addr cc;
          buf = (if paddingLen > 0 then buf @ padding else buf)
      in buf @ PutUint32 (fnv32a buf))"

definition client_handshake :: "crypto \<Rightarrow> shake128 \<Rightarrow> (nat \<Rightarrow> byte) \<Rightarrow> vmess_random \<Rightarrow> 64 word \<Rightarrow> byte \<Rightarrow> bytes \<Rightarrow> ClientConn
    \<Rightarrow> (bytes list \<times> ClientConn) option" where
  "client_handshake c shake rand r t cmd firstpayload cc =
     client_Write c shake rand firstpayload
       (cc\<lparr>vmessout := sealAEADHeader c (GetKey c (cc_user cc))
          (vmess_header cc cmd (rnd_paddingLen r) (rnd_padding r)) t (rnd_authid r) (rnd_nonce r)\<rparr>)"

definition commonHandshake :: "crypto \<Rightarrow> shake128 \<Rightarrow> (nat \<Rightarrow> byte) \<Rightarrow> vmess_random \<Rightarrow> 64 word \<Rightarrow> vmess_Client \<Rightarrow> bytes \<Rightarrow> Addr
    \<Rightarrow> (bytes list \<times> ClientConn) option" where
  "commonHandshake c shake rand r t cl firstPayload target =
     (let reqBodyIV = take 16 (rnd_33 r);
          reqBodyKey = take 16 (drop 16 (rnd_33 r));
          conn = \<lparr>cc_user = cl_user cl, cc_opt = cl_opt cl, cc_security = cl_security cl, cc_theTarget = zero_Addr,
            cc_atyp = snd (AddressBytes target), cc_addr = fst (AddressBytes target), cc_port = word_of_int (Port target),
            cc_reqBodyIV = reqBodyIV, cc_reqBodyKey = reqBodyKey, cc_reqRespV = rnd_33 r ! 32,
            cc_respBodyIV = take 16 (Sum256 c reqBodyIV), cc_respBodyKey = take 16 (Sum256 c reqBodyKey),
            cc_dataReader = None, cc_dataWriter = None, vmessout = []\<rparr>
      in if cl_use_mux cl then client_handshake c shake rand r t CMDMux_VS firstPayload conn
         else if IsUDP target then
           map_option (\<lambda>(out, conn). (out, conn\<lparr>cc_theTarget := target\<rparr>))
             (client_handshake c shake rand r t vmess_CmdUDP firstPayload conn)
         else client_handshake c shake rand r t vmess_CmdTCP firstPayload conn)"

section \<open>The response header\<close>

definition aead_encodeRespHeader :: "crypto \<Rightarrow> bytes \<Rightarrow> bytes \<Rightarrow> byte \<Rightarrow> bytes" where
  "aead_encodeRespHeader c respBodyKey respBodyIV reqRespV =
     (let header = [reqRespV, 0, 0, 0];
          lenKey = kdf16 c respBodyKey [bytes_of_string kdfSaltConstAEADRespHeaderLenKey];
          lenIV = take 12 (kdf c respBodyIV [bytes_of_string kdfSaltConstAEADRespHeaderLenIV]);
          payloadKey = kdf16 c respBodyKey [bytes_of_string kdfSaltConstAEADRespHeaderPayloadKey];
          payloadIV = take 12 (kdf c respBodyIV [bytes_of_string kdfSaltConstAEADRespHeaderPayloadIV])
      in Seal (gcm c lenKey []) lenIV (PutUint16 (word_of_nat (length header)))
         @ Seal (gcm c payloadKey []) payloadIV header)"

definition aead_decodeRespHeader :: "crypto \<Rightarrow> ClientConn \<Rightarrow> (bytes list, unit) rd" where
  "aead_decodeRespHeader c vc conn =
     (let lenKey = kdf16 c (cc_respBodyKey vc) [bytes_of_string kdfSaltConstAEADRespHeaderLenKey];
          lenIV = take 12 (kdf c (cc_respBodyIV vc) [bytes_of_string kdfSaltConstAEADRespHeaderLenIV]);
          payloadKey = kdf16 c (cc_respBodyKey vc) [bytes_of_string kdfSaltConstAEADRespHeaderPayloadKey];
          payloadIV = take 12 (kdf c (cc_respBodyIV vc) [bytes_of_string kdfSaltConstAEADRespHeaderPayloadIV])
      in rd_bind (rd_full src_Read 18) (\<lambda>encLength.
         case Open (gcm c lenKey []) lenIV encLength of
           None \<Rightarrow> rd_fail auth_failed
         | Some lenBytes \<Rightarrow>
             rd_bind (rd_full src_Read (unat (Uint16 lenBytes + 16))) (\<lambda>encHeader.
             case Open (gcm c payloadKey []) payloadIV encHeader of
               None \<Rightarrow> rd_fail auth_failed
             | Some buf \<Rightarrow>
                 if length buf < 4 then rd_fail (NewErr ''vless aead_decodeRespHeader unexpected buffer length'')
                 else if buf ! 0 \<noteq> cc_reqRespV vc
                 then rd_fail (NewErr ''vless aead_decodeRespHeader unexpected response header'')
                 else if buf ! 2 \<noteq> 0
                 then rd_fail (NewErr ''vless aead_decodeRespHeader, dynamic port is not supported now'')
                 else rd_ok ())) conn)"

text \<open>\<open>ClientConn.Read\<close>, on the connection until there is a reader; the reader keeps the connection then.\<close>

definition client_Read :: "crypto \<Rightarrow> shake128 \<Rightarrow> nat \<Rightarrow> (ClientConn \<times> bytes list, bytes) rd" where
  "client_Read c shake n st =
     (case st of (cc, conn) \<Rightarrow>
       (case cc_dataReader cc of
          Some vr \<Rightarrow> map_prod id (\<lambda>vr. (cc\<lparr>cc_dataReader := Some vr\<rparr>, conn)) (vreader_Read shake n vr)
        | None \<Rightarrow>
            (case aead_decodeRespHeader c cc conn of
               (Inl e, conn) \<Rightarrow> (Inl e, (cc, conn))
             | (Inr _, conn) \<Rightarrow>
                 let vr = (case new_reader c (cc_opt cc) (cc_security cc) (cc_respBodyKey cc) (cc_respBodyIV cc) None ([], conn) of
                     Some vr \<Rightarrow> vr | None \<Rightarrow> RawR ([], conn))
                 in map_prod id (\<lambda>vr. (cc\<lparr>cc_dataReader := Some vr\<rparr>, [])) (vreader_Read shake n vr))))"

definition client_ReadMsg :: "crypto \<Rightarrow> shake128 \<Rightarrow> (ClientConn \<times> bytes list, bytes \<times> Addr) rd" where
  "client_ReadMsg c shake =
     rd_bind (client_Read c shake MaxPacketLen) (\<lambda>bs st. (Inr (bs, cc_theTarget (fst st)), st))"

section \<open>The data readers are stream readers\<close>

definition vreader_content :: "shake128 \<Rightarrow> vreader \<Rightarrow> bytes" where
  "vreader_content shake vr =
     (case vr of RawR lo \<Rightarrow> multi_content lo | ChunkR st \<Rightarrow> multi_reader.chunked_content st
      | AeadR a iv st \<Rightarrow> multi_reader.aead_content a shake iv st)"

definition vreader_inv :: "shake128 \<Rightarrow> vreader \<Rightarrow> bool" where
  "vreader_inv shake vr =
     (case vr of RawR lo \<Rightarrow> multi_inv lo | ChunkR st \<Rightarrow> multi_reader.chunked_inv st
      | AeadR a iv st \<Rightarrow> aead_ok a \<and> multi_reader.aead_inv a shake iv st)"

lemmas vreader_defs = vreader_Read_def vreader_content_def vreader_inv_def

interpretation vmess_reader: stream_reader "vreader_Read shake" "vreader_content shake" "vreader_inv shake"
  for shake
proof unfold_locales
  fix r n xs r' assume a: "vreader_inv shake r" "vreader_Read shake n r = (Inr xs, r')"
  show "vreader_inv shake r' \<and> vreader_content shake r = xs @ vreader_content shake r' \<and> length xs \<le> n"
  proof (cases r)
    case (RawR lo)
    with a multi_reader.Read_split [of lo n xs] show ?thesis by (cases "multi_Read n lo") (auto simp: vreader_defs)
  next
    case (ChunkR st)
    with a chunked_conn.Read_split [of st n xs] show ?thesis
      by (cases "chunked_Read multi_Read n st") (auto simp: vreader_defs)
  next
    case (AeadR ae iv st)
    then have ok: "aead_ok ae" using a(1) by (simp add: vreader_defs)
    from AeadR a stream_reader.Read_split [OF multi_reader.aead_stream_reader [OF ok], of shake iv st n xs] show ?thesis
      by (cases "aead_Read ae shake multi_Read iv n st") (auto simp: vreader_defs)
  qed
next
  fix r and n :: nat assume a: "vreader_inv shake r" "vreader_content shake r \<noteq> []" "0 < n"
  show "\<exists>xs r'. vreader_Read shake n r = (Inr xs, r') \<and> xs \<noteq> []"
  proof (cases r)
    case (RawR lo)
    with a multi_reader.Read_progress [of lo n] show ?thesis by (auto simp: vreader_defs)
  next
    case (ChunkR st)
    with a chunked_conn.Read_progress [of st n] show ?thesis by (auto simp: vreader_defs)
  next
    case (AeadR ae iv st)
    then have ok: "aead_ok ae" using a(1) by (simp add: vreader_defs)
    from AeadR a stream_reader.Read_progress [OF multi_reader.aead_stream_reader [OF ok], of shake iv st n] show ?thesis
      by (auto simp: vreader_defs)
  qed
next
  fix r and n :: nat assume a: "vreader_inv shake r" "vreader_content shake r = []" "0 < n"
  show "\<exists>r'. vreader_Read shake n r = (Inl io_EOF, r') \<and> vreader_inv shake r' \<and> vreader_content shake r' = []"
  proof (cases r)
    case (RawR lo)
    with a multi_reader.Read_Nil [of lo n] show ?thesis by (auto simp: vreader_defs)
  next
    case (ChunkR st)
    with a chunked_conn.Read_Nil [of st n] show ?thesis by (auto simp: vreader_defs)
  next
    case (AeadR ae iv st)
    then have ok: "aead_ok ae" using a(1) by (simp add: vreader_defs)
    from AeadR a stream_reader.Read_Nil [OF multi_reader.aead_stream_reader [OF ok], of shake iv st n] show ?thesis
      by (auto simp: vreader_defs)
  qed
qed

section \<open>A writer and the reader of the other end\<close>

fun vwriter_Writes :: "shake128 \<Rightarrow> (bytes \<times> (nat \<Rightarrow> byte)) list \<Rightarrow> vwriter \<Rightarrow> bytes list option" where
  "vwriter_Writes shake [] w = Some []"
| "vwriter_Writes shake ((b, rand) # ws) w =
     (case vwriter_Write shake rand b w of
        None \<Rightarrow> None
      | Some (out, w) \<Rightarrow> map_option ((@) out) (vwriter_Writes shake ws w))"

lemma vwriter_Writes_RawW: "vwriter_Writes shake ws RawW = Some out \<Longrightarrow> concat out = concat (map fst ws)"
  by (induction ws arbitrary: out) (auto simp: vwriter_Write_def)

lemma vwriter_Writes_ChunkW: "vwriter_Writes shake ws ChunkW = Some out \<Longrightarrow> out = concat (map (chunked_Write \<circ> fst) ws)"
  by (induction ws arbitrary: out) (auto simp: vwriter_Write_def)

lemma vwriter_Writes_AeadW: "vwriter_Writes shake ws (AeadW a iv st) = aead_Writes a shake iv ws st"
  by (induction ws arbitrary: st) (auto simp: vwriter_Write_def split: option.splits)

lemma new_reader_of_writer:
  assumes "crypto_ok c" "vwriter_Writes shake ws (new_writer c opt security key iv p) = Some out"
    "buf @ concat cs = concat out" "[] \<notin> set cs" "new_reader c opt security key iv p (buf, cs) = Some vr"
  shows "vreader_inv shake vr \<and> vreader_content shake vr = concat (map fst ws)"
proof -
  from assms(5) consider (none) "security = SecurityNone" "vr = ChunkR (0, (buf, cs))" "new_writer c opt security key iv p = ChunkW"
    | (sealed) a where "vr = AeadR a iv (AEADReader (buf, cs) p)" "aead_ok a" "new_writer c opt security key iv p = AeadW a iv (0, p)"
  proof -
    have "opt AND OptChunkStream > 0 \<longleftrightarrow> opt AND OptChunkStream = OptChunkStream"
    proof -
      have "opt AND 1 = 0 \<or> opt AND 1 = (1 :: byte)" by (simp add: and_one_eq mod2_eq_if)
      then show ?thesis by (auto simp: OptChunkStream_def word_gt_0)
    qed
    then show ?thesis using assms(1,5)
      by (auto intro: that simp: new_reader_def new_writer_def crypto_ok_def SecurityNone_def SecurityAES128GCM_def split: if_splits)
  qed
  then show ?thesis
  proof cases
    case none
    have "unchunk 0 (concat (concat (map (chunked_Write \<circ> fst) ws))) = Some (concat (map fst ws))"
      using unchunk_Writes [of "map fst ws"] by simp
    with vwriter_Writes_ChunkW [of shake ws out] assms(2-4) none show ?thesis
      by (simp add: vreader_defs multi_reader.chunked_inv_def multi_reader.chunked_content_def multi_content_def multi_inv_def)
  next
    case sealed
    with unseal_Writes [OF sealed(2), of shake iv ws 0 p out] assms(2-4) show ?thesis
      by (simp add: vwriter_Writes_AeadW vreader_defs multi_reader.aead_inv_def multi_reader.aead_content_def AEADReader_def
          multi_content_def multi_inv_def)
  qed
qed

text \<open>The writes of a client, after its handshake.\<close>

fun client_Writes :: "crypto \<Rightarrow> shake128 \<Rightarrow> (bytes \<times> (nat \<Rightarrow> byte)) list \<Rightarrow> ClientConn \<Rightarrow> bytes list option" where
  "client_Writes c shake [] cc = Some []"
| "client_Writes c shake ((b, rand) # ws) cc =
     (case client_Write c shake rand b cc of
        None \<Rightarrow> None
      | Some (out, cc) \<Rightarrow> map_option ((@) out) (client_Writes c shake ws cc))"

lemma client_Writes_later:
  "cc_dataWriter cc = Some w \<Longrightarrow> client_Writes c shake ws cc = vwriter_Writes shake ws w"
  by (induction ws arbitrary: cc w) (auto simp: client_Write_def split: option.splits)

lemma client_first_Write:
  assumes "client_Write c shake rand b cc = Some (m, cc')" "cc_dataWriter cc = None"
    "client_Writes c shake ws cc' = Some ms"
  shows "\<exists>out. vwriter_Writes shake ((b, rand) # ws)
      (new_writer c (cc_opt cc) (cc_security cc) (cc_reqBodyKey cc) (cc_reqBodyIV cc) None) = Some out \<and>
    concat m @ concat ms = vmessout cc @ concat out"
proof -
  let ?w = "new_writer c (cc_opt cc) (cc_security cc) (cc_reqBodyKey cc) (cc_reqBodyIV cc) None"
  show ?thesis
  proof (cases "b = []")
    case True
    then obtain e where e: "vwriter_Write shake rand b ?w = Some (e, ?w)" "concat e = []"
      by (cases ?w) (auto simp: vwriter_Write_def chunked_Write.simps aead_Write_def split: prod.splits)
    have "m = [vmessout cc]" "cc_dataWriter cc' = Some ?w"
      using assms(1,2) True by (auto simp: client_Write_def Let_def)
    moreover from this have "vwriter_Writes shake ws ?w = Some ms"
      using client_Writes_later [of cc' ?w c shake ws] assms(3) by simp
    ultimately show ?thesis using e by (intro exI [of _ "e @ ms"]) (simp del: concat_eq_Nil_conv)
  next
    case False
    with assms client_Writes_later [of cc'] show ?thesis
      by (auto simp: client_Write_def Let_def split: option.splits)
  qed
qed

end
