(* ===== verification/VmessServer.thy ===== *)
theory VmessServer
  imports VmessConn
begin

text \<open>
  The vmess server (proxy/vmess/server.go): its users, the handshake with both replay filters, and the
  server's end of the connection. The handshake reads once, up to 64k: what does not arrive with the
  first chunk is not waited for. A slice or index out of range is a panic, \<open>None\<close>.
\<close>

section \<open>The server and its users\<close>

record sessionID =
  sid_user :: bytes
  sid_key :: bytes
  sid_nonce :: bytes

record vmess_Server =
  vs_users :: MultiUserMap
  authPairList :: "(User \<times> bytes) list"
  authid_machine :: "bytes expiry"
  session_machine :: "sessionID expiry"

definition vmess_newServer :: vmess_Server where
  "vmess_newServer = \<lparr>vs_users = SetUseUUIDStr_asKey NewMultiUserMap, authPairList = [],
     authid_machine = Map.empty, session_machine = Map.empty\<rparr>"

definition vmess_addUser :: "crypto \<Rightarrow> User \<Rightarrow> vmess_Server \<Rightarrow> vmess_Server" where
  "vmess_addUser c u s = s\<lparr>vs_users := AddUser_nolock u (vs_users s),
     authPairList := authPairList s @ [(u, generateCipher c (GetKey c (IdentityBytes u)))]\<rparr>"

definition vmess_NewServer :: "crypto \<Rightarrow> string \<Rightarrow> UserConf list \<Rightarrow> goerr + vmess_Server" where
  "vmess_NewServer c uuidStr users =
     (case (if uuidStr \<noteq> [] then map_sum id (\<lambda>u. vmess_addUser c u vmess_newServer) (NewV2rayUser uuidStr)
            else Inr vmess_newServer) of
        Inl e \<Rightarrow> Inl e
      | Inr s \<Rightarrow> Inr (fold (vmess_addUser c) (InitV2rayUsers users) s))"

section \<open>The server's connection\<close>

record ServerConn =
  sc_user :: User
  sc_version :: int
  sc_opt :: byte
  sc_security :: byte
  sc_cmd :: byte
  sc_reqRespV :: byte
  sc_theTarget :: Addr
  sc_reqBodyIV :: bytes
  sc_reqBodyKey :: bytes
  sc_respBodyIV :: bytes
  sc_respBodyKey :: bytes
  sc_lower :: lower
  firstWriteBuf :: bytes
  sc_dataReader :: "vreader option"
  sc_dataWriter :: "vwriter option"
  sc_ismux :: bool

definition server_Write :: "crypto \<Rightarrow> shake128 \<Rightarrow> (nat \<Rightarrow> byte) \<Rightarrow> bytes \<Rightarrow> ServerConn \<Rightarrow> (bytes list \<times> ServerConn) option" where
  "server_Write c shake rand b sc =
     (case sc_dataWriter sc of
        Some w \<Rightarrow> map_option (\<lambda>(out, w). (out, sc\<lparr>sc_dataWriter := Some w\<rparr>)) (vwriter_Write shake rand b w)
      | None \<Rightarrow>
          let w = new_writer c (sc_opt sc) (sc_security sc) (sc_respBodyKey sc) (sc_respBodyIV sc)
              (new_parser (sc_opt sc) (sc_respBodyIV sc)) in
          map_option (\<lambda>(out, w). ([firstWriteBuf sc @ concat out], sc\<lparr>sc_dataWriter := Some w, firstWriteBuf := []\<rparr>))
            (vwriter_Write shake rand b w))"

definition server_Read :: "crypto \<Rightarrow> shake128 \<Rightarrow> nat \<Rightarrow> (ServerConn, bytes) rd" where
  "server_Read c shake n sc =
     (case (case sc_dataReader sc of
        Some vr \<Rightarrow> Some vr
      | None \<Rightarrow> new_reader c (sc_opt sc) (sc_security sc) (sc_reqBodyKey sc) (sc_reqBodyIV sc)
          (new_parser (sc_opt sc) (sc_reqBodyIV sc)) (sc_lower sc)) of
        None \<Rightarrow> (Inl (err_text ''vmess server might get an old vmess client, closing. (c.dataReader==nil)''), sc)
      | Some vr \<Rightarrow> map_prod id (\<lambda>vr. sc\<lparr>sc_dataReader := Some vr\<rparr>) (vreader_Read shake n vr))"

definition server_ReadMsg :: "crypto \<Rightarrow> shake128 \<Rightarrow> (ServerConn, bytes \<times> Addr) rd" where
  "server_ReadMsg c shake =
     rd_bind (server_Read c shake MaxPacketLen) (\<lambda>bs sc. (Inr (bs, sc_theTarget sc), sc))"

section \<open>The handshake\<close>

text \<open>The command: an error at once, or \<open>returnErr\<close> so far, \<open>theTarget\<close>, \<open>targetAddr\<close>, whether it is a
  multiplexer, and the rest of the header.\<close>

definition vmess_command :: "byte \<Rightarrow> bytes \<Rightarrow> goerr + (goerr option \<times> Addr \<times> Addr \<times> bool \<times> bytes)" where
  "vmess_command cmd aeadDataBuf =
     (if cmd = vmess_CmdTCP \<or> cmd = vmess_CmdUDP then
        (case V2rayGetAddrFrom buf_ReadByte buf_Read aeadDataBuf of
           (Inl _, _) \<Rightarrow> Inl (NumErr 4 ErrInvalidData)
         | (Inr ad, rest) \<Rightarrow>
             Inr (None, ad, if cmd = vmess_CmdUDP then ad\<lparr>Network := ''udp''\<rparr> else ad, False, rest))
      else if cmd = cmd_muxcool_unimplemented then
        Inr (Some (err_wrap ''Vmess mux.cool is not supported by verysimple '' ErrInvalidData),
             zero_Addr, zero_Addr, False, aeadDataBuf)
      else if cmd = CMDMux_VS then
        (case V2rayGetAddrFrom buf_ReadByte buf_Read aeadDataBuf of
           (Inl _, _) \<Rightarrow> Inl (NumErr 4 ErrInvalidData)
         | (Inr _, rest) \<Rightarrow> Inr (None, zero_Addr, zero_Addr, True, rest))
      else Inl (err_wrap ''Vmess Invalid command '' ErrInvalidData))"

text \<open>The padding and the hash over everything before it. An index out of range when fewer than four
  bytes are left.\<close>

definition vmess_check_hash :: "bytes \<Rightarrow> nat \<Rightarrow> bytes \<Rightarrow> (goerr + unit) option" where
  "vmess_check_hash aeadData paddingLen aeadDataBuf =
     (let lenBefore = length (drop 38 aeadData) in
      case (if paddingLen > 0 then buf_Next paddingLen aeadDataBuf else ([], aeadDataBuf)) of (tmpBs, aeadDataBuf) \<Rightarrow>
      if length tmpBs \<noteq> paddingLen then Some (Inl (NumErr 5 ErrInvalidData))
      else
        let lenAfter = length aeadDataBuf;
            realLen = lenBefore - lenAfter + 38;
            actualHash = fnv32a (take realLen aeadData);
            expected = fst (buf_Next 4 aeadDataBuf)
        in if length expected < 4 then None
           else if actualHash \<noteq> Uint32 expected then Some (Inl (NumErr 6 ErrInvalidData))
           else Some (Inr ()))"

datatype vconn = NoConn | TcpConn ServerConn | MsgConn ServerConn

record vmess_result =
  hs_conn :: vconn
  hs_targetAddr :: Addr
  hs_returnErr :: "goerr option"

definition vmess_fail :: "goerr \<Rightarrow> vmess_result" where
  "vmess_fail e = \<lparr>hs_conn = NoConn, hs_targetAddr = zero_Addr, hs_returnErr = Some e\<rparr>"

text \<open>From the opened header on.\<close>

definition vmess_accept :: "crypto \<Rightarrow> time \<Rightarrow> User \<Rightarrow> bytes \<Rightarrow> lower \<Rightarrow> vmess_Server \<Rightarrow> vmess_result option \<times> vmess_Server" where
  "vmess_accept c clk user aeadData lo s =
     (if length aeadData < 38 then (Some (vmess_fail (NumErr 3 ErrInvalidData)), s)
      else
        let reqBodyIV = take 16 (drop 1 aeadData);
            reqBodyKey = take 16 (drop 17 aeadData);
            cmd = aeadData ! 37;
            paddingLen = unat (drop_bit 4 (aeadData ! 35));
            sid = \<lparr>sid_user = copy_into 16 (IdentityBytes user), sid_key = reqBodyKey, sid_nonce = reqBodyIV\<rparr>
        in (case session_check sid clk (session_machine s) of (ok, m) \<Rightarrow>
          let s = s\<lparr>session_machine := m\<rparr> in
          if \<not> ok then (Some (vmess_fail ErrReplaySessionAttack), s)
          else (case vmess_command cmd (drop 38 aeadData) of
              Inl e \<Rightarrow> (Some (vmess_fail e), s)
            | Inr (returnErr, theTarget, targetAddr, ismux, rest) \<Rightarrow>
                (case vmess_check_hash aeadData paddingLen rest of
                   None \<Rightarrow> (None, s)
                 | Some (Inl e) \<Rightarrow> (Some \<lparr>hs_conn = NoConn, hs_targetAddr = targetAddr, hs_returnErr = Some e\<rparr>, s)
                 | Some (Inr _) \<Rightarrow>
                     let respBodyKey = take 16 (Sum256 c reqBodyKey);
                         respBodyIV = take 16 (Sum256 c reqBodyIV);
                         sc = \<lparr>sc_user = user, sc_version = uint (aeadData ! 0), sc_opt = aeadData ! 34,
                           sc_security = aeadData ! 35 AND 0x0f, sc_cmd = cmd, sc_reqRespV = aeadData ! 33,
                           sc_theTarget = theTarget, sc_reqBodyIV = reqBodyIV, sc_reqBodyKey = reqBodyKey,
                           sc_respBodyIV = respBodyIV, sc_respBodyKey = respBodyKey, sc_lower = lo,
                           firstWriteBuf = aead_encodeRespHeader c respBodyKey respBodyIV (aeadData ! 33),
                           sc_dataReader = None, sc_dataWriter = None, sc_ismux = ismux\<rparr>
                     in if ismux then (Some \<lparr>hs_conn = TcpConn sc, hs_targetAddr = targetAddr, hs_returnErr = None\<rparr>, s)
                        else if cmd = vmess_CmdTCP
                        then (Some \<lparr>hs_conn = TcpConn sc, hs_targetAddr = targetAddr, hs_returnErr = returnErr\<rparr>, s)
                        else (Some \<lparr>hs_conn = MsgConn sc, hs_targetAddr = targetAddr, hs_returnErr = returnErr\<rparr>, s)))))"

definition vmess_Handshake :: "crypto \<Rightarrow> int \<Rightarrow> time \<Rightarrow> bytes list \<Rightarrow> vmess_Server \<Rightarrow> vmess_result option \<times> vmess_Server" where
  "vmess_Handshake c now clk underlay s =
     (case src_Read MaxPacketLen underlay of
        (Inl e, _) \<Rightarrow> (Some (vmess_fail e), s)
      | (Inr data, underlay) \<Rightarrow>
          if length data < authid_len then (Some (vmess_fail (NumErr 1 ErrInvalidData)), s)
          else (case authUserByAuthPairList c now clk (take authid_len data) (authPairList s) (Some (authid_machine s)) of
              (Inl e, m) \<Rightarrow> (Some (vmess_fail e), s\<lparr>authid_machine := the m\<rparr>)
            | (Inr user, m) \<Rightarrow>
                let s = s\<lparr>authid_machine := the m\<rparr> in
                (case openAEADHeader c (GetKey c (IdentityBytes user)) (take 16 data) (drop authid_len data) of
                   (o', remainBuf) \<Rightarrow>
                     (case errorReason o' of
                        Some e \<Rightarrow> (Some (vmess_fail e), s)
                      | None \<Rightarrow> vmess_accept c clk user (op_aeadData o') (remainBuf, underlay) s))))"

section \<open>The header a client sends is accepted\<close>

text \<open>The server's end of a connection that the client opened.\<close>

definition accepted :: "crypto \<Rightarrow> User \<Rightarrow> ClientConn \<Rightarrow> byte \<Rightarrow> Addr \<Rightarrow> lower \<Rightarrow> ServerConn" where
  "accepted c user cc cmd target lo =
     (let respBodyKey = take 16 (Sum256 c (cc_reqBodyKey cc)); respBodyIV = take 16 (Sum256 c (cc_reqBodyIV cc)) in
      \<lparr>sc_user = user, sc_version = 1, sc_opt = cc_opt cc, sc_security = cc_security cc, sc_cmd = cmd,
       sc_reqRespV = cc_reqRespV cc, sc_theTarget = wire_Addr target, sc_reqBodyIV = cc_reqBodyIV cc,
       sc_reqBodyKey = cc_reqBodyKey cc, sc_respBodyIV = respBodyIV, sc_respBodyKey = respBodyKey, sc_lower = lo,
       firstWriteBuf = aead_encodeRespHeader c respBodyKey respBodyIV (cc_reqRespV cc),
       sc_dataReader = None, sc_dataWriter = None, sc_ismux = False\<rparr>)"

lemma PutUint16_port: "PutUint16 (word_of_int p) = [hi8 p, lo8 p]"
proof -
  have "ucast (drop_bit 8 (word_of_int p :: 16 word)) = (word_of_int (drop_bit 8 p) :: byte)"
    "ucast (word_of_int p :: 16 word) = (word_of_int p :: byte)"
    by (rule bit_word_eqI; auto simp: bit_simps)+
  then show ?thesis by (simp add: PutUint16_def hi8_def lo8_def drop_bit_eq_div)
qed

lemma pSec_parts:
  assumes "n < 16" "sec < (16 :: byte)"
  shows "unat (drop_bit 4 (word_of_nat (n * 16) OR sec)) = n" "(word_of_nat (n * 16) OR sec) AND 0x0f = sec"
proof -
  have low: "i < 4" if "bit m i" "m < 16" for m i :: nat
  proof (rule ccontr)
    assume "\<not> i < 4"
    then have "(2 :: nat) ^ 4 \<le> 2 ^ i" by (intro power_increasing) auto
    with that(2) have "m div 2 ^ i = 0" by simp
    with that(1) show False by (simp add: bit_iff_odd)
  qed
  have lows: "i < 4" if "bit sec i" for i
    using low [of "unat sec" i] that assms(2) by (simp add: bit_unsigned_iff word_less_nat_alt)
  let ?n = "word_of_nat n :: byte"
  have n: "unat ?n = n" using assms(1) by (simp add: unat_of_nat)
  have sh: "word_of_nat (n * 16) = push_bit 4 ?n" by (simp add: push_bit_eq_mult)
  have "drop_bit 4 (push_bit 4 ?n OR sec) = ?n"
    by (rule bit_word_eqI) (auto simp: bit_simps dest: low [OF _ assms(1)] lows)
  then show "unat (drop_bit 4 (word_of_nat (n * 16) OR sec)) = n" using n sh by simp
  have m: "(0x0f :: byte) = mask 4" by (simp add: mask_eq_exp_minus_1)
  show "(word_of_nat (n * 16) OR sec) AND 0x0f = sec"
    unfolding sh m by (rule bit_word_eqI) (auto simp: bit_simps dest: lows)
qed

lemma nth_38:
  assumes "length iv = 16" "length key = 16" "xs = [1] @ iv @ key @ [v, opt] @ [p, 0, cmd] @ (rest :: bytes)"
  shows "xs ! 0 = 1" "take 16 (drop 1 xs) = iv" "take 16 (drop 17 xs) = key" "xs ! 33 = v" "xs ! 34 = opt" "xs ! 35 = p"
    "xs ! 37 = cmd" "drop 38 xs = rest" "length xs = 38 + length rest"
  using assms by (simp_all add: nth_append)

lemma vmess_check_hash_ok:
  assumes "aeadData = h @ pad @ PutUint32 (fnv32a (h @ pad))" "38 \<le> length h" "length pad = n"
  shows "vmess_check_hash aeadData n (pad @ PutUint32 (fnv32a (h @ pad))) = Some (Inr ())"
  using assms by (auto simp: vmess_check_hash_def Let_def buf_Next_def)

lemma vmess_accept_header:
  assumes "dest_ok target" "cc_port cc = word_of_int (Port target)" "AddressBytes target = (cc_addr cc, cc_atyp cc)"
    "length (cc_reqBodyIV cc) = 16" "length (cc_reqBodyKey cc) = 16" "n < 16" "length pad = n" "cc_security cc < 16"
    "cmd = vmess_CmdTCP \<or> cmd = vmess_CmdUDP"
    "fst (session_check \<lparr>sid_user = copy_into 16 (IdentityBytes user), sid_key = cc_reqBodyKey cc, sid_nonce = cc_reqBodyIV cc\<rparr>
       clk (session_machine s))"
  shows "\<exists>s'. vmess_accept c clk user (vmess_header cc cmd n pad) lo s =
    (Some \<lparr>hs_conn = (if cmd = vmess_CmdTCP then TcpConn else MsgConn) (accepted c user cc cmd target lo),
           hs_targetAddr = (if cmd = vmess_CmdUDP then (wire_Addr target)\<lparr>Network := ''udp''\<rparr> else wire_Addr target),
           hs_returnErr = None\<rparr>, s')"
proof -
  let ?p = "word_of_nat (n * 16) OR cc_security cc"
  let ?h = "[1] @ cc_reqBodyIV cc @ cc_reqBodyKey cc @ [cc_reqRespV cc, cc_opt cc] @ [?p, 0, cmd] @ v2ray_wire target"
  let ?rest = "v2ray_wire target @ pad @ PutUint32 (fnv32a (?h @ pad))"
  have hdr: "vmess_header cc cmd n pad = ?h @ pad @ PutUint32 (fnv32a (?h @ pad))"
    using assms(2,3,7) by (cases "pad = []") (auto simp: vmess_header_def Let_def v2ray_wire_def PutUint16_port)
  then have hdr': "vmess_header cc cmd n pad = [1] @ cc_reqBodyIV cc @ cc_reqBodyKey cc @ [cc_reqRespV cc, cc_opt cc]
      @ [?p, 0, cmd] @ ?rest" by simp
  note ix = nth_38 [OF assms(4,5) hdr']
  have par: "V2rayGetAddrFrom buf_ReadByte buf_Read ?rest = (Inr (wire_Addr target), pad @ PutUint32 (fnv32a (?h @ pad)))"
    by (rule parsesD [OF parses_V2rayGetAddrFrom [OF assms(1)]])
  have hash: "vmess_check_hash (vmess_header cc cmd n pad) n (pad @ PutUint32 (fnv32a (?h @ pad))) = Some (Inr ())"
    using hdr by (rule vmess_check_hash_ok) (use assms(4,5,7) in simp_all)
  have cmdr: "vmess_command cmd ?rest = Inr (None, wire_Addr target,
      if cmd = vmess_CmdUDP then (wire_Addr target)\<lparr>Network := ''udp''\<rparr> else wire_Addr target, False,
      pad @ PutUint32 (fnv32a (?h @ pad)))"
    using assms(9) par by (simp add: vmess_command_def)
  have ps: "unat (drop_bit 4 ?p) = n" "?p AND 0x0f = cc_security cc"
    using pSec_parts [of n "cc_security cc"] assms(6,8) by auto
  show ?thesis
    unfolding vmess_accept_def Let_def ix ps
    using cmdr hash assms(10) by (auto simp: accepted_def Let_def split: prod.splits)
qed

text \<open>A server connection as a stream: before the first read its reader is the one it is going to choose.\<close>

definition sc_reader :: "crypto \<Rightarrow> ServerConn \<Rightarrow> vreader option" where
  "sc_reader c sc =
     (case sc_dataReader sc of
        Some vr \<Rightarrow> Some vr
      | None \<Rightarrow> new_reader c (sc_opt sc) (sc_security sc) (sc_reqBodyKey sc) (sc_reqBodyIV sc)
          (new_parser (sc_opt sc) (sc_reqBodyIV sc)) (sc_lower sc))"

definition sc_content :: "crypto \<Rightarrow> shake128 \<Rightarrow> ServerConn \<Rightarrow> bytes" where
  "sc_content c shake sc = (case sc_reader c sc of None \<Rightarrow> [] | Some vr \<Rightarrow> vreader_content shake vr)"

definition sc_inv :: "crypto \<Rightarrow> shake128 \<Rightarrow> ServerConn \<Rightarrow> bool" where
  "sc_inv c shake sc \<longleftrightarrow> (case sc_reader c sc of None \<Rightarrow> False | Some vr \<Rightarrow> vreader_inv shake vr)"

lemma server_Read_reader:
  "sc_reader c sc = Some vr \<Longrightarrow>
   server_Read c shake n sc = map_prod id (\<lambda>vr. sc\<lparr>sc_dataReader := Some vr\<rparr>) (vreader_Read shake n vr)"
  by (simp add: server_Read_def sc_reader_def)

lemma sc_reader_kept [simp]: "sc_reader c (sc\<lparr>sc_dataReader := Some vr\<rparr>) = Some vr"
  by (simp add: sc_reader_def)

interpretation server_reader: stream_reader "server_Read c shake" "sc_content c shake" "sc_inv c shake"
  for c shake
proof unfold_locales
  fix sc n xs sc' assume a: "sc_inv c shake sc" "server_Read c shake n sc = (Inr xs, sc')"
  then obtain vr where vr: "sc_reader c sc = Some vr" "vreader_inv shake vr"
    by (auto simp: sc_inv_def split: option.splits)
  obtain res vr' where rd: "vreader_Read shake n vr = (res, vr')" by fastforce
  with a(2) have "res = Inr xs" "sc' = sc\<lparr>sc_dataReader := Some vr'\<rparr>"
    by (simp_all add: server_Read_reader [OF vr(1)])
  with vmess_reader.Read_split [of shake vr n xs vr'] vr rd
  show "sc_inv c shake sc' \<and> sc_content c shake sc = xs @ sc_content c shake sc' \<and> length xs \<le> n"
    by (simp add: sc_inv_def sc_content_def)
next
  fix sc and n :: nat assume a: "sc_inv c shake sc" "sc_content c shake sc \<noteq> []" "0 < n"
  then obtain vr where vr: "sc_reader c sc = Some vr" "vreader_inv shake vr" "vreader_content shake vr \<noteq> []"
    by (auto simp: sc_inv_def sc_content_def split: option.splits)
  from vmess_reader.Read_progress [OF vr(2,3) a(3)] show "\<exists>xs sc'. server_Read c shake n sc = (Inr xs, sc') \<and> xs \<noteq> []"
    by (auto simp: server_Read_reader [OF vr(1)])
next
  fix sc and n :: nat assume a: "sc_inv c shake sc" "sc_content c shake sc = []" "0 < n"
  then obtain vr where vr: "sc_reader c sc = Some vr" "vreader_inv shake vr" "vreader_content shake vr = []"
    by (auto simp: sc_inv_def sc_content_def split: option.splits)
  from vmess_reader.Read_Nil [OF vr(2,3) a(3)]
  show "\<exists>sc'. server_Read c shake n sc = (Inl io_EOF, sc') \<and> sc_inv c shake sc' \<and> sc_content c shake sc' = []"
    by (auto simp: server_Read_reader [OF vr(1)] sc_inv_def sc_content_def)
qed

text \<open>The server conn of an accepted client carries what the client writes.\<close>

lemma new_parser_plain [simp]: "new_parser OptChunkStream iv = None"
  by (simp add: new_parser_def model_defs)

lemma accepted_content:
  assumes "crypto_ok c" "cc_opt cc = OptChunkStream"
    "cc_security cc \<in> {SecurityAES128GCM, SecurityChacha20Poly1305, SecurityNone}"
    "vwriter_Writes shake ws (new_writer c (cc_opt cc) (cc_security cc) (cc_reqBodyKey cc) (cc_reqBodyIV cc) None) = Some out"
    "buf @ concat cs = concat out" "[] \<notin> set cs"
  shows "sc_inv c shake (accepted c user cc cmd target (buf, cs)) \<and>
    sc_content c shake (accepted c user cc cmd target (buf, cs)) = concat (map fst ws)"
proof -
  obtain vr where vr: "new_reader c (cc_opt cc) (cc_security cc) (cc_reqBodyKey cc) (cc_reqBodyIV cc) None (buf, cs) = Some vr"
    using assms(2,3) by (auto simp: new_reader_def model_defs)
  then have "sc_reader c (accepted c user cc cmd target (buf, cs)) = Some vr"
    using assms(2) by (simp add: sc_reader_def accepted_def Let_def)
  with new_reader_of_writer [OF assms(1,4-6) vr] show ?thesis by (simp add: sc_inv_def sc_content_def)
qed

text \<open>The randomness of a handshake has the lengths the code asks for.\<close>

definition random_ok :: "vmess_random \<Rightarrow> bool" where
  "random_ok r \<longleftrightarrow> length (rnd_33 r) = 33 \<and> rnd_paddingLen r < 16 \<and> length (rnd_padding r) = rnd_paddingLen r \<and>
     length (rnd_authid r) = 4 \<and> length (rnd_nonce r) = 8"

definition client_conn :: "crypto \<Rightarrow> vmess_random \<Rightarrow> vmess_Client \<Rightarrow> Addr \<Rightarrow> ClientConn" where
  "client_conn c r cl target =
     (let reqBodyIV = take 16 (rnd_33 r); reqBodyKey = take 16 (drop 16 (rnd_33 r)) in
      \<lparr>cc_user = cl_user cl, cc_opt = cl_opt cl, cc_security = cl_security cl, cc_theTarget = zero_Addr,
       cc_atyp = snd (AddressBytes target), cc_addr = fst (AddressBytes target), cc_port = word_of_int (Port target),
       cc_reqBodyIV = reqBodyIV, cc_reqBodyKey = reqBodyKey, cc_reqRespV = rnd_33 r ! 32,
       cc_respBodyIV = take 16 (Sum256 c reqBodyIV), cc_respBodyKey = take 16 (Sum256 c reqBodyKey),
       cc_dataReader = None, cc_dataWriter = None, vmessout = []\<rparr>)"

definition request_cmd :: "Addr \<Rightarrow> byte" where
  "request_cmd target = (if IsUDP target then vmess_CmdUDP else vmess_CmdTCP)"

definition request_id :: "crypto \<Rightarrow> vmess_random \<Rightarrow> 64 word \<Rightarrow> vmess_Client \<Rightarrow> bytes" where
  "request_id c r t cl = createAuthID c (GetKey c (cl_user cl)) t (rnd_authid r)"

definition request_bytes :: "crypto \<Rightarrow> vmess_random \<Rightarrow> 64 word \<Rightarrow> vmess_Client \<Rightarrow> Addr \<Rightarrow> bytes" where
  "request_bytes c r t cl target =
     sealAEADHeader c (GetKey c (cl_user cl))
       (vmess_header (client_conn c r cl target) (request_cmd target) (rnd_paddingLen r) (rnd_padding r))
       t (rnd_authid r) (rnd_nonce r)"

lemma client_Writes_theTarget:
  "client_Writes c shake ws (cc\<lparr>cc_theTarget := a\<rparr>) = client_Writes c shake ws cc"
proof (induction ws arbitrary: cc)
  case (Cons w ws)
  obtain b rand where w: "w = (b, rand)" by (cases w)
  have "client_Write c shake rand b (cc\<lparr>cc_theTarget := a\<rparr>)
      = map_option (\<lambda>(out, cc). (out, cc\<lparr>cc_theTarget := a\<rparr>)) (client_Write c shake rand b cc)"
    by (cases cc) (auto simp: client_Write_def Let_def option.map_comp comp_def case_prod_unfold split: option.splits)
  with w Cons show ?case by (auto split: option.splits)
qed simp

lemma commonHandshake_out:
  assumes "commonHandshake c shake rand r t cl p target = Some (m, cc)" "client_Writes c shake ws cc = Some ms"
    "\<not> cl_use_mux cl"
  shows "\<exists>out. vwriter_Writes shake ((p, rand) # ws)
      (new_writer c (cl_opt cl) (cl_security cl) (cc_reqBodyKey (client_conn c r cl target))
        (cc_reqBodyIV (client_conn c r cl target)) None) = Some out \<and>
    concat m @ concat ms = request_bytes c r t cl target @ concat out"
proof -
  let ?cc = "(client_conn c r cl target)\<lparr>vmessout := request_bytes c r t cl target\<rparr>"
  have "\<exists>cc'. client_Write c shake rand p ?cc = Some (m, cc') \<and> client_Writes c shake ws cc' = Some ms"
    using assms client_Writes_theTarget [where a = target]
    by (auto simp: commonHandshake_def client_handshake_def request_bytes_def request_cmd_def client_conn_def Let_def
        split: if_splits)
  then obtain cc' where "client_Write c shake rand p ?cc = Some (m, cc')" "client_Writes c shake ws cc' = Some ms" by blast
  from client_first_Write [OF this(1) _ this(2)] show ?thesis by (simp add: client_conn_def Let_def)
qed

text \<open>The two ends agree on what protects the response.\<close>

definition vmess_peers :: "crypto \<Rightarrow> ClientConn \<Rightarrow> ServerConn \<Rightarrow> bool" where
  "vmess_peers c cc sc \<longleftrightarrow> cc_opt cc = OptChunkStream \<and>
     cc_security cc \<in> {SecurityAES128GCM, SecurityChacha20Poly1305, SecurityNone} \<and>
     sc_opt sc = cc_opt cc \<and> sc_security sc = cc_security cc \<and>
     sc_respBodyKey sc = cc_respBodyKey cc \<and> sc_respBodyIV sc = cc_respBodyIV cc \<and>
     sc_dataWriter sc = None \<and> cc_dataReader cc = None \<and>
     firstWriteBuf sc = aead_encodeRespHeader c (cc_respBodyKey cc) (cc_respBodyIV cc) (cc_reqRespV cc)"

lemma client_Write_keeps:
  "client_Write c shake rand b cc = Some (m, cc') \<Longrightarrow>
   \<exists>w. cc' = cc\<lparr>cc_dataWriter := Some w, vmessout := vmessout cc'\<rparr>"
  by (cases cc) (auto simp: client_Write_def Let_def split: option.splits if_splits)

lemma commonHandshake_conn:
  assumes "commonHandshake c shake rand r t cl p target = Some (m, cc)" "\<not> cl_use_mux cl"
  shows "\<exists>w v a. cc = (client_conn c r cl target)\<lparr>cc_dataWriter := Some w, vmessout := v, cc_theTarget := a\<rparr>"
proof -
  obtain cc1 where w: "client_Write c shake rand p ((client_conn c r cl target)\<lparr>vmessout := request_bytes c r t cl target\<rparr>)
      = Some (m, cc1)" and cc: "cc = cc1 \<or> cc = cc1\<lparr>cc_theTarget := target\<rparr>"
    using assms by (auto simp: commonHandshake_def client_handshake_def request_bytes_def request_cmd_def client_conn_def Let_def
        split: if_splits)
  from client_Write_keeps [OF w] cc show ?thesis by (cases cc1) (auto simp: client_conn_def Let_def)
qed

lemma request_bytes_length:
  assumes "crypto_ok c" "random_ok r" "dest_ok target"
  shows "length (vmess_header (client_conn c r cl target) cmd (rnd_paddingLen r) (rnd_padding r)) \<le> 400"
proof -
  have "length (fst (AddressBytes target)) \<le> 256"
    using assms(3) by (cases rule: AddressBytes_cases) (auto simp: name_ok_def)
  with assms(2) show ?thesis by (simp add: vmess_header_def Let_def client_conn_def random_ok_def)
qed

text \<open>The server, reading the request with whatever came with it.\<close>

lemma vmess_Handshake_request:
  assumes "crypto_ok c" "random_ok r" "dest_ok target" "cl_security cl \<in> {SecurityAES128GCM, SecurityChacha20Poly1305, SecurityNone}"
    "authPairList s = before @ (u, generateCipher c (GetKey c (cl_user cl))) # after" "IdentityBytes u = cl_user cl"
    "\<forall>q\<in>set before. fst (tryMatchAuthIDByBlock c now clk (snd q) (request_id c r t cl) (Some (authid_machine s))) = 1"
    "\<bar>\<bar>sint t\<bar> - now\<bar> \<le> 120" "authid_admits (request_id c r t cl) clk (authid_machine s)"
    "fst (session_check \<lparr>sid_user = copy_into 16 (cl_user cl), sid_key = take 16 (drop 16 (rnd_33 r)), sid_nonce = take 16 (rnd_33 r)\<rparr>
       clk (session_machine s))"
    "length (request_bytes c r t cl target @ x) \<le> 65536"
  shows "\<exists>s'. vmess_Handshake c now clk ((request_bytes c r t cl target @ x) # cs) s =
    (Some \<lparr>hs_conn = (if IsUDP target then MsgConn else TcpConn)
             (accepted c u (client_conn c r cl target) (request_cmd target) target (x, cs)),
           hs_targetAddr = (if IsUDP target then (wire_Addr target)\<lparr>Network := ''udp''\<rparr> else wire_Addr target),
           hs_returnErr = None\<rparr>, s')"
proof -
  let ?cc = "client_conn c r cl target"
  let ?data = "vmess_header ?cc (request_cmd target) (rnd_paddingLen r) (rnd_padding r)"
  let ?id = "request_id c r t cl"
  let ?req = "request_bytes c r t cl target"
  have rnd: "length (rnd_authid r) = 4" "length (rnd_nonce r) = 8" using assms(2) by (auto simp: random_ok_def)
  have dl: "length ?data + 16 < 65536" using request_bytes_length [OF assms(1-3), of cl "request_cmd target"] by simp
  note op = openAEADHeader_seal [OF assms(1) rnd dl, where key = "GetKey c (cl_user cl)" and t = t,
      folded request_bytes_def request_id_def]
  have len: "16 \<le> length ?req" using op(3) by simp
  have rd: "src_Read MaxPacketLen ((?req @ x) # cs) = (Inr (?req @ x), cs)"
    using assms(11) by (simp add: MaxPacketLen_def)
  have id: "length ?id = 16" unfolding request_id_def by (rule createAuthID_length [OF assms(1) rnd(1)])
  let ?m = "authid_write ?id clk (authid_machine s)"
  have auth: "authUserByAuthPairList c now clk ?id (authPairList s) (Some (authid_machine s)) = (Inr u, Some ?m)"
    using tryMatch_createAuthID [OF assms(1) rnd(1) assms(8), of clk "GetKey c (cl_user cl)" "authid_machine s",
        folded request_id_def]
      auth_loop_skip [OF assms(7), of "(u, generateCipher c (GetKey c (cl_user cl))) # after" None] assms(5,9) id
    by (auto simp: authUserByAuthPairList_def authid_len_def)
  have "\<exists>s'. vmess_accept c clk u ?data (x, cs) (s\<lparr>authid_machine := ?m\<rparr>) =
    (Some \<lparr>hs_conn = (if request_cmd target = vmess_CmdTCP then TcpConn else MsgConn)
             (accepted c u ?cc (request_cmd target) target (x, cs)),
           hs_targetAddr = (if request_cmd target = vmess_CmdUDP then (wire_Addr target)\<lparr>Network := ''udp''\<rparr> else wire_Addr target),
           hs_returnErr = None\<rparr>, s')"
  proof (rule vmess_accept_header)
    show "cc_security ?cc < 16" using assms(4) by (auto simp: client_conn_def Let_def model_defs)
  qed (use assms(2,3,6,10) in \<open>simp_all add: client_conn_def Let_def random_ok_def request_cmd_def\<close>)
  then obtain s' where acc: "vmess_accept c clk u ?data (x, cs) (s\<lparr>authid_machine := ?m\<rparr>) =
    (Some \<lparr>hs_conn = (if request_cmd target = vmess_CmdTCP then TcpConn else MsgConn)
             (accepted c u ?cc (request_cmd target) target (x, cs)),
           hs_targetAddr = (if request_cmd target = vmess_CmdUDP then (wire_Addr target)\<lparr>Network := ''udp''\<rparr> else wire_Addr target),
           hs_returnErr = None\<rparr>, s')" by blast
  moreover have "request_cmd target = vmess_CmdTCP \<longleftrightarrow> \<not> IsUDP target" "request_cmd target = vmess_CmdUDP \<longleftrightarrow> IsUDP target"
    by (simp_all add: request_cmd_def model_defs)
  ultimately show ?thesis
    using acc auth op(2) [of x] op(1) [of x] op(4) [of x] assms(6) rd len
    by (simp add: vmess_Handshake_def authid_len_def del: take_append drop_append src_Read.simps)
qed

section \<open>Properties\<close>

text \<open>C23: 
  A request arrives: a client that knows the id of a user of the server, a clock within 120 seconds and an
  authentication id and session that the filters of the server admit, make a connection to the asked target for
  that user, and the server's reads return the client's payloads in order, whichever security was chosen and
  however the network cuts the stream after the request; progress is made while bytes remain. The request itself must come with the first
  chunk.
\<close>
theorem vmess_request_arrives:
  assumes "crypto_ok c" and "random_ok r" and "dest_ok target" and "\<not> cl_use_mux cl" and "cl_opt cl = OptChunkStream"
    and "cl_security cl \<in> {SecurityAES128GCM, SecurityChacha20Poly1305, SecurityNone}"
    and "commonHandshake c shake rand r t cl p target = Some (m, cc)" and "client_Writes c shake ws cc = Some ms"
    and "concat (c1 # cs) = concat m @ concat ms" and "[] \<notin> set cs"
    and "length (request_bytes c r t cl target) \<le> length c1" and "length c1 \<le> 65536"
    and "authPairList s = before @ (u, generateCipher c (GetKey c (cl_user cl))) # after" and "IdentityBytes u = cl_user cl"
    and "\<forall>q\<in>set before. fst (tryMatchAuthIDByBlock c now clk (snd q) (request_id c r t cl) (Some (authid_machine s))) = 1"
    and "\<bar>\<bar>sint t\<bar> - now\<bar> \<le> 120" and "authid_admits (request_id c r t cl) clk (authid_machine s)"
    and "fst (session_check \<lparr>sid_user = copy_into 16 (cl_user cl), sid_key = take 16 (drop 16 (rnd_33 r)),
           sid_nonce = take 16 (rnd_33 r)\<rparr> clk (session_machine s))"
  shows "\<exists>sc s'. vmess_Handshake c now clk (c1 # cs) s =
      (Some \<lparr>hs_conn = (if IsUDP target then MsgConn sc else TcpConn sc),
             hs_targetAddr = (if IsUDP target then (wire_Addr target)\<lparr>Network := ''udp''\<rparr> else wire_Addr target),
             hs_returnErr = None\<rparr>, s') \<and>
    sc_user sc = u \<and> vmess_peers c cc sc \<and>
    (\<forall>ns got st n. 0 < n \<longrightarrow> stream_reader.reads (server_Read c shake) ns sc = (Inr got, st) \<longrightarrow>
      (\<exists>rest. p @ concat (map fst ws) = got @ rest \<and>
         (if rest = [] then fst (server_Read c shake n st) = Inl io_EOF
          else \<exists>xs. fst (server_Read c shake n st) = Inr xs \<and> xs \<noteq> [] \<and> prefix xs rest)))"
proof -
  let ?req = "request_bytes c r t cl target"
  let ?cc = "client_conn c r cl target"
  obtain out where out: "vwriter_Writes shake ((p, rand) # ws)
      (new_writer c (cl_opt cl) (cl_security cl) (cc_reqBodyKey ?cc) (cc_reqBodyIV ?cc) None) = Some out"
    "concat (c1 # cs) = ?req @ concat out"
    using commonHandshake_out [OF assms(7,8,4)] assms(9) by auto
  define x where "x = drop (length ?req) c1"
  have c1: "c1 = ?req @ x" "x @ concat cs = concat out"
  proof -
    have "take (length ?req) (c1 @ concat cs) = ?req" "drop (length ?req) (c1 @ concat cs) = concat out"
      using out(2) by simp_all
    with assms(11) have "take (length ?req) c1 = ?req" and "x @ concat cs = concat out" by (simp_all add: x_def)
    then show "c1 = ?req @ x" "x @ concat cs = concat out" by (metis append_take_drop_id x_def)+
  qed
  let ?sc = "accepted c u ?cc (request_cmd target) target (x, cs)"
  obtain s' where hs: "vmess_Handshake c now clk (c1 # cs) s =
      (Some \<lparr>hs_conn = (if IsUDP target then MsgConn else TcpConn) ?sc,
             hs_targetAddr = (if IsUDP target then (wire_Addr target)\<lparr>Network := ''udp''\<rparr> else wire_Addr target),
             hs_returnErr = None\<rparr>, s')"
    using vmess_Handshake_request [OF assms(1-3,6,13-18), of x cs] assms(12) c1(1) by auto
  have conn: "sc_inv c shake ?sc" "sc_content c shake ?sc = p @ concat (map fst ws)"
    using accepted_content [OF assms(1), of ?cc shake "(p, rand) # ws" out x cs] assms(5,6,10) out(1) c1(2)
    by (auto simp: client_conn_def Let_def)
  have "vmess_peers c cc ?sc"
    using commonHandshake_conn [OF assms(7,4)] assms(5,6)
    by (auto simp: vmess_peers_def accepted_def client_conn_def Let_def)
  moreover have "sc_user ?sc = u" by (simp add: accepted_def Let_def)
  moreover note server_reader.reads_then_next [OF conn(1), unfolded conn(2)]
  ultimately show ?thesis using hs by (intro exI [of _ ?sc] exI [of _ s']) auto
qed

section \<open>The way back\<close>

fun server_Writes :: "crypto \<Rightarrow> shake128 \<Rightarrow> (bytes \<times> (nat \<Rightarrow> byte)) list \<Rightarrow> ServerConn \<Rightarrow> bytes list option" where
  "server_Writes c shake [] sc = Some []"
| "server_Writes c shake ((b, rand) # ws) sc =
     (case server_Write c shake rand b sc of
        None \<Rightarrow> None
      | Some (out, sc) \<Rightarrow> map_option ((@) out) (server_Writes c shake ws sc))"

lemma server_Writes_later:
  "sc_dataWriter sc = Some w \<Longrightarrow> server_Writes c shake ws sc = vwriter_Writes shake ws w"
  by (induction ws arbitrary: sc w) (auto simp: server_Write_def split: option.splits)

lemma server_Writes_first:
  assumes "server_Writes c shake ws sc = Some ms" "sc_dataWriter sc = None" "ws \<noteq> []"
  shows "\<exists>out. vwriter_Writes shake ws (new_writer c (sc_opt sc) (sc_security sc) (sc_respBodyKey sc) (sc_respBodyIV sc)
      (new_parser (sc_opt sc) (sc_respBodyIV sc))) = Some out \<and> concat ms = firstWriteBuf sc @ concat out"
proof -
  obtain b rand ws' where ws: "ws = (b, rand) # ws'" using assms(3) by (cases ws) auto
  with assms(1,2) server_Writes_later [of _ _ c shake ws'] show ?thesis
    by (auto simp: server_Write_def Let_def split: option.splits)
qed

definition cl_reader :: "crypto \<Rightarrow> ClientConn \<times> bytes list \<Rightarrow> vreader option" where
  "cl_reader c st =
     (case st of (cc, conn) \<Rightarrow>
       (case cc_dataReader cc of
          Some vr \<Rightarrow> Some vr
        | None \<Rightarrow>
            (case aead_decodeRespHeader c cc conn of
               (Inl e, conn) \<Rightarrow> None
             | (Inr _, conn) \<Rightarrow>
                 Some (case new_reader c (cc_opt cc) (cc_security cc) (cc_respBodyKey cc) (cc_respBodyIV cc) None ([], conn) of
                     Some vr \<Rightarrow> vr | None \<Rightarrow> RawR ([], conn)))))"

definition cl_content :: "crypto \<Rightarrow> shake128 \<Rightarrow> ClientConn \<times> bytes list \<Rightarrow> bytes" where
  "cl_content c shake st = (case cl_reader c st of None \<Rightarrow> [] | Some vr \<Rightarrow> vreader_content shake vr)"

definition cl_inv :: "crypto \<Rightarrow> shake128 \<Rightarrow> ClientConn \<times> bytes list \<Rightarrow> bool" where
  "cl_inv c shake st \<longleftrightarrow> (case cl_reader c st of None \<Rightarrow> False | Some vr \<Rightarrow> vreader_inv shake vr)"

lemma client_Read_reader:
  "cl_reader c st = Some vr \<Longrightarrow> \<exists>conn'. client_Read c shake n st =
     map_prod id (\<lambda>vr. ((fst st)\<lparr>cc_dataReader := Some vr\<rparr>, conn')) (vreader_Read shake n vr)"
  by (cases st) (auto simp: client_Read_def cl_reader_def Let_def split: option.splits prod.splits sum.splits)

lemma cl_reader_kept [simp]: "cl_reader c (cc\<lparr>cc_dataReader := Some vr\<rparr>, conn) = Some vr"
  by (simp add: cl_reader_def)

interpretation client_reader: stream_reader "client_Read c shake" "cl_content c shake" "cl_inv c shake"
  for c shake
proof unfold_locales
  fix st n xs st' assume a: "cl_inv c shake st" "client_Read c shake n st = (Inr xs, st')"
  then obtain vr where vr: "cl_reader c st = Some vr" "vreader_inv shake vr"
    by (auto simp: cl_inv_def split: option.splits)
  obtain res vr' where rd: "vreader_Read shake n vr = (res, vr')" by fastforce
  with a(2) client_Read_reader [OF vr(1), of shake n] obtain conn' where
    "res = Inr xs" "st' = ((fst st)\<lparr>cc_dataReader := Some vr'\<rparr>, conn')" by auto
  with vmess_reader.Read_split [of shake vr n xs vr'] vr rd
  show "cl_inv c shake st' \<and> cl_content c shake st = xs @ cl_content c shake st' \<and> length xs \<le> n"
    by (simp add: cl_inv_def cl_content_def)
next
  fix st and n :: nat assume a: "cl_inv c shake st" "cl_content c shake st \<noteq> []" "0 < n"
  then obtain vr where vr: "cl_reader c st = Some vr" "vreader_inv shake vr" "vreader_content shake vr \<noteq> []"
    by (auto simp: cl_inv_def cl_content_def split: option.splits)
  from vmess_reader.Read_progress [OF vr(2,3) a(3)] client_Read_reader [OF vr(1), of shake n]
  show "\<exists>xs st'. client_Read c shake n st = (Inr xs, st') \<and> xs \<noteq> []" by auto
next
  fix st and n :: nat assume a: "cl_inv c shake st" "cl_content c shake st = []" "0 < n"
  then obtain vr where vr: "cl_reader c st = Some vr" "vreader_inv shake vr" "vreader_content shake vr = []"
    by (auto simp: cl_inv_def cl_content_def split: option.splits)
  from vmess_reader.Read_Nil [OF vr(2,3) a(3)] client_Read_reader [OF vr(1), of shake n]
  show "\<exists>st'. client_Read c shake n st = (Inl io_EOF, st') \<and> cl_inv c shake st' \<and> cl_content c shake st' = []"
    by (auto simp: cl_inv_def cl_content_def)
qed

lemma aead_decode_encode:
  assumes "crypto_ok c" "conn_inv conn" "conn_content conn = aead_encodeRespHeader c (cc_respBodyKey vc) (cc_respBodyIV vc) (cc_reqRespV vc) @ rest"
  shows "\<exists>conn'. aead_decodeRespHeader c vc conn = (Inr (), conn') \<and> conn_inv conn' \<and> conn_content conn' = rest"
proof -
  let ?lg = "gcm c (kdf16 c (cc_respBodyKey vc) [bytes_of_string kdfSaltConstAEADRespHeaderLenKey]) []"
  let ?ln = "take 12 (kdf c (cc_respBodyIV vc) [bytes_of_string kdfSaltConstAEADRespHeaderLenIV])"
  let ?pg = "gcm c (kdf16 c (cc_respBodyKey vc) [bytes_of_string kdfSaltConstAEADRespHeaderPayloadKey]) []"
  let ?pn = "take 12 (kdf c (cc_respBodyIV vc) [bytes_of_string kdfSaltConstAEADRespHeaderPayloadIV])"
  let ?h = "[cc_reqRespV vc, 0, 0, 0]"
  let ?s1 = "Seal ?lg ?ln (PutUint16 4)" and ?s2 = "Seal ?pg ?pn ?h"
  have ok: "aead_ok ?lg" "aead_ok ?pg" using assms(1) by (simp_all add: crypto_ok_def)
  have s: "length ?s1 = 18" "length ?s2 = 20" "Open ?lg ?ln ?s1 = Some (PutUint16 4)" "Open ?pg ?pn ?s2 = Some ?h"
    using ok by (simp_all add: aead_ok_def)
  have content: "conn_content conn = ?s1 @ ?s2 @ rest"
    using assms(3) by (simp add: aead_encodeRespHeader_def Let_def)
  obtain conn1 where c1: "rd_full src_Read 18 conn = (Inr ?s1, conn1)" "conn_inv conn1" "conn_content conn1 = ?s2 @ rest"
    using conn_reader.rd_full_reads [OF assms(2), of 18] content s(1) by auto
  obtain conn2 where c2: "rd_full src_Read 20 conn1 = (Inr ?s2, conn2)" "conn_inv conn2" "conn_content conn2 = rest"
    using conn_reader.rd_full_reads [OF c1(2), of 20] c1(3) s(2) by auto
  have "unat (Uint16 (PutUint16 4) + 16) = 20" by simp
  with c1 c2 s show ?thesis by (simp add: aead_decodeRespHeader_def Let_def rd_bind_Inr)
qed

text \<open>
  The response arrives: what the server writes after accepting a request, glued to its header and cut up by the network
  in any way, is what the client's reads return, in order, with progress while bytes remain.
\<close>
theorem vmess_response_arrives:
  assumes "crypto_ok c" and "vmess_peers c cc sc" and "server_Writes c shake ws sc = Some ms" and "ws \<noteq> []"
    and "concat cs = concat ms" and "[] \<notin> set cs" and "0 < n"
    and "stream_reader.reads (client_Read c shake) ns (cc, cs) = (Inr got, st)"
  shows "\<exists>rest. concat (map fst ws) = got @ rest \<and>
       (if rest = [] then fst (client_Read c shake n st) = Inl io_EOF
        else \<exists>xs. fst (client_Read c shake n st) = Inr xs \<and> xs \<noteq> [] \<and> prefix xs rest)"
proof -
  note p = assms(2)[unfolded vmess_peers_def]
  obtain out where out: "vwriter_Writes shake ws (new_writer c (cc_opt cc) (cc_security cc) (cc_respBodyKey cc) (cc_respBodyIV cc) None) = Some out"
    "concat ms = aead_encodeRespHeader c (cc_respBodyKey cc) (cc_respBodyIV cc) (cc_reqRespV cc) @ concat out"
    using server_Writes_first [OF assms(3) _ assms(4)] p by auto
  obtain conn' where dec: "aead_decodeRespHeader c cc cs = (Inr (), conn')" "conn_inv conn'" "conn_content conn' = concat out"
    using aead_decode_encode [OF assms(1), of cs cc "concat out"] out(2) assms(5,6) by (auto simp: conn_inv_def conn_content_def)
  obtain vr where vr: "new_reader c (cc_opt cc) (cc_security cc) (cc_respBodyKey cc) (cc_respBodyIV cc) None ([], conn') = Some vr"
    using p by (auto simp: new_reader_def model_defs)
  have "cl_reader c (cc, cs) = Some vr" using p dec(1) vr by (simp add: cl_reader_def)
  with new_reader_of_writer [OF assms(1) out(1) _ _ vr] dec(2,3) have
    "cl_inv c shake (cc, cs)" "cl_content c shake (cc, cs) = concat (map fst ws)"
    by (simp_all add: cl_inv_def cl_content_def conn_inv_def conn_content_def)
  from client_reader.reads_then_next [OF this(1) assms(8,7)] this(2) show ?thesis by simp
qed

lemma vmess_accept_conn:
  assumes "vmess_accept c clk user op_data lo s = (Some res, s')" "hs_conn res = TcpConn sc \<or> hs_conn res = MsgConn sc"
  shows "sc_user sc = user \<and> authid_machine s' = authid_machine s \<and> authPairList s' = authPairList s \<and>
    (let sid = \<lparr>sid_user = copy_into 16 (IdentityBytes user), sid_key = sc_reqBodyKey sc, sid_nonce = sc_reqBodyIV sc\<rparr> in
      fst (session_check sid clk (session_machine s)) \<and> session_machine s' = snd (session_check sid clk (session_machine s)))"
  using assms
  by (auto simp: vmess_accept_def vmess_fail_def Let_def split: if_splits prod.splits sum.splits option.splits)

lemma vmess_Handshake_conn:
  assumes "vmess_Handshake c now clk (c1 # cs) s = (Some res, s')" and "hs_conn res = TcpConn sc \<or> hs_conn res = MsgConn sc"
    and "length c1 \<le> 65536"
  shows "authPairList s' = authPairList s \<and> (\<exists>k. (sc_user sc, k) \<in> set (authPairList s) \<and>
     (let authid = take 16 c1; data = aes_Decrypt c k authid; sid = \<lparr>sid_user = copy_into 16 (IdentityBytes (sc_user sc)),
          sid_key = sc_reqBodyKey sc, sid_nonce = sc_reqBodyIV sc\<rparr> in
        Uint32 (drop 12 data) = ChecksumIEEE (take 12 data) \<and> \<bar>\<bar>sint (Uint64 data)\<bar> - now\<bar> \<le> 120 \<and>
        authid_admits authid clk (authid_machine s) \<and> authid_machine s' = authid_write authid clk (authid_machine s) \<and>
        fst (session_check sid clk (session_machine s)) \<and> session_machine s' = snd (session_check sid clk (session_machine s))))"
proof -
  have rd: "src_Read MaxPacketLen (c1 # cs) = (Inr c1, cs)" using assms(3) by (simp add: MaxPacketLen_def)
  note hs = assms(1)[unfolded vmess_Handshake_def rd]
  have len: "\<not> length c1 < authid_len" using hs assms(2) by (auto simp: vmess_fail_def)
  obtain user m where auth: "authUserByAuthPairList c now clk (take authid_len c1) (authPairList s) (Some (authid_machine s)) = (Inr user, m)"
    using hs len assms(2) by (cases "authUserByAuthPairList c now clk (take authid_len c1) (authPairList s) (Some (authid_machine s))"; cases "fst (authUserByAuthPairList c now clk (take authid_len c1) (authPairList s) (Some (authid_machine s)))")
      (auto simp: vmess_fail_def)
  obtain op remain where op: "openAEADHeader c (GetKey c (IdentityBytes user)) (take 16 c1) (drop authid_len c1) = (op, remain)"
    by fastforce
  have acc: "vmess_accept c clk user (op_aeadData op) (remain, cs) (s\<lparr>authid_machine := the m\<rparr>) = (Some res, s')"
    using hs len auth op assms(2) by (cases "errorReason op") (auto simp: vmess_fail_def)
  from auth len obtain k where k: "(user, k) \<in> set (authPairList s)"
    "Uint32 (drop 12 (aes_Decrypt c k (take 16 c1))) = ChecksumIEEE (take 12 (aes_Decrypt c k (take 16 c1)))"
    "\<bar>\<bar>sint (Uint64 (aes_Decrypt c k (take 16 c1)))\<bar> - now\<bar> \<le> 120"
    "authid_admits (take 16 c1) clk (authid_machine s)" "m = Some (authid_write (take 16 c1) clk (authid_machine s))"
    by (auto simp: authUserByAuthPairList_def authid_len_def dest!: auth_loop_Inr)
  from vmess_accept_conn [OF acc assms(2)] k show ?thesis by (intro conjI exI [of _ k]) (simp_all add: Let_def)
qed

text \<open>C24: 
  Nobody gets in by chance: the handshake makes a connection only for a user whose key decrypts the first 16 bytes to a
  right checksum and a time within 120 seconds, only if the filter of authentication ids did not hold them and
  the filter of sessions did not hold the session; both hold them afterwards.
\<close>
theorem vmess_Handshake_sound:
  assumes "vmess_Handshake c now clk (c1 # cs) s = (Some res, s')" and "hs_conn res = TcpConn sc \<or> hs_conn res = MsgConn sc"
    and "length c1 \<le> 65536"
  shows "\<exists>k. (sc_user sc, k) \<in> set (authPairList s) \<and>
     (let authid = take 16 c1; data = aes_Decrypt c k authid; sid = \<lparr>sid_user = copy_into 16 (IdentityBytes (sc_user sc)),
          sid_key = sc_reqBodyKey sc, sid_nonce = sc_reqBodyIV sc\<rparr> in
        Uint32 (drop 12 data) = ChecksumIEEE (take 12 data) \<and> \<bar>\<bar>sint (Uint64 data)\<bar> - now\<bar> \<le> 120 \<and>
        authid_admits authid clk (authid_machine s) \<and> authid_machine s' = authid_write authid clk (authid_machine s) \<and>
        fst (session_check sid clk (session_machine s)) \<and> session_machine s' = snd (session_check sid clk (session_machine s)))"
  using vmess_Handshake_conn [OF assms] by blast

section \<open>Examples and errors\<close>

definition demo_crypto :: crypto where
  "demo_crypto = \<lparr>Sum256 = (\<lambda>_. replicate 32 0), md5_Sum = (\<lambda>_. replicate 16 0), aes_Encrypt = (\<lambda>k b. b),
     aes_Decrypt = (\<lambda>k b. b), gcm = (\<lambda>k ad. demo_aead), chacha20poly1305 = (\<lambda>k. demo_aead)\<rparr>"

lemma demo_crypto_ok: "crypto_ok demo_crypto"
  using demo_aead_ok by (simp add: crypto_ok_def demo_crypto_def)

definition demo_random :: vmess_random where
  "demo_random = \<lparr>rnd_33 = replicate 33 5, rnd_paddingLen = 1, rnd_padding = [9], rnd_authid = [1, 2, 3, 4],
     rnd_nonce = replicate 8 6\<rparr>"

definition demo_client :: vmess_Client where
  "demo_client = \<lparr>cl_user = replicate 16 7, cl_opt = OptChunkStream, cl_security = SecurityNone, cl_use_mux = False\<rparr>"

definition demo_vmess_Server :: vmess_Server where
  "demo_vmess_Server = vmess_addUser demo_crypto (V2rayUser (replicate 16 7)) vmess_newServer"

lemma request_length:
  assumes "crypto_ok c" "random_ok r" "dest_ok target"
  shows "length (request_bytes c r t cl target) \<le> 458"
proof -
  let ?data = "vmess_header (client_conn c r cl target) (request_cmd target) (rnd_paddingLen r) (rnd_padding r)"
  have "length ?data \<le> 400" by (rule request_bytes_length [OF assms])
  with openAEADHeader_seal(3) [OF assms(1), of "rnd_authid r" "rnd_nonce r" ?data "GetKey c (cl_user cl)" t] assms(2)
  show ?thesis by (simp add: request_bytes_def random_ok_def)
qed

lemma vmess_request_arrives_witness:
  "\<exists>m cc sc s'. commonHandshake demo_crypto demo_shake (\<lambda>_. 0) demo_random 1000 demo_client [1, 2, 3] sample_dest = Some (m, cc) \<and>
     vmess_Handshake demo_crypto 1010 0 [concat m] demo_vmess_Server =
       (Some \<lparr>hs_conn = TcpConn sc, hs_targetAddr = wire_Addr sample_dest, hs_returnErr = None\<rparr>, s') \<and>
     sc_user sc = V2rayUser (replicate 16 7)"
proof -
  have w: "chunked_Write [1, 2, 3] = [[0, 3, 1, 2, 3]]"
    by (simp add: chunked_Write.simps chunkSize_def PutUint16_def)
  have udp: "\<not> IsUDP sample_dest" by (simp add: IsUDP_def IsStrUDP_network_def sample_dest_def zero_Addr_def)
  have "commonHandshake demo_crypto demo_shake (\<lambda>_. 0) demo_random 1000 demo_client [1, 2, 3] sample_dest \<noteq> None"
    using udp by (simp add: commonHandshake_def client_handshake_def client_Write_def Let_def new_writer_def demo_client_def
        vwriter_Write_def OptChunkStream_def)
  then obtain m cc where h: "commonHandshake demo_crypto demo_shake (\<lambda>_. 0) demo_random 1000 demo_client [1, 2, 3] sample_dest = Some (m, cc)"
    by (metis not_None_eq surj_pair)
  have r: "random_ok demo_random" by (simp add: random_ok_def demo_random_def)
  obtain out where out: "vwriter_Writes demo_shake [([1, 2, 3], \<lambda>_. 0)] ChunkW = Some out"
    "concat m = request_bytes demo_crypto demo_random 1000 demo_client sample_dest @ concat out"
    using commonHandshake_out [OF h, of "[]" "[]"] by (auto simp: demo_client_def new_writer_def OptChunkStream_def)
  from vwriter_Writes_ChunkW [OF out(1)] have "length (concat out) = 5" by (simp add: w)
  with out(2) request_length [OF demo_crypto_ok r sample_dest_ok, of 1000 demo_client]
  have len: "length (request_bytes demo_crypto demo_random 1000 demo_client sample_dest) \<le> length (concat m)" "length (concat m) \<le> 65536"
    by simp_all
  have "authPairList demo_vmess_Server = [] @ (V2rayUser (replicate 16 7), generateCipher demo_crypto (GetKey demo_crypto (cl_user demo_client))) # []"
    by (simp add: demo_vmess_Server_def vmess_addUser_def vmess_newServer_def V2rayUser_def demo_client_def)
  from vmess_request_arrives [OF demo_crypto_ok r sample_dest_ok _ _ _ h _ _ _ len this, where ws = "[]" and ms = "[]" and cs = "[]"
      and now = 1010 and clk = 0] udp h
  show ?thesis
    by (auto simp: demo_client_def V2rayUser_def demo_vmess_Server_def vmess_addUser_def vmess_newServer_def authid_admits_def session_check_def)
qed

definition demo_cc :: ClientConn where
  "demo_cc = client_conn demo_crypto demo_random demo_client sample_dest"

lemma vmess_response_arrives_witness:
  "\<exists>rest. concat (map fst [([1, 2] :: bytes, \<lambda>_ :: nat. 0 :: byte)]) = [] @ rest \<and>
     (if rest = [] then fst (client_Read demo_crypto demo_shake 9 (demo_cc,
          [aead_encodeRespHeader demo_crypto (cc_respBodyKey demo_cc) (cc_respBodyIV demo_cc) (cc_reqRespV demo_cc) @ [0, 2, 1, 2]])) = Inl io_EOF
      else \<exists>xs. fst (client_Read demo_crypto demo_shake 9 (demo_cc,
          [aead_encodeRespHeader demo_crypto (cc_respBodyKey demo_cc) (cc_respBodyIV demo_cc) (cc_reqRespV demo_cc) @ [0, 2, 1, 2]])) = Inr xs
        \<and> xs \<noteq> [] \<and> prefix xs rest)"
proof (rule vmess_response_arrives [OF demo_crypto_ok, where ns = "[]" and
      sc = "accepted demo_crypto (V2rayUser (replicate 16 7)) demo_cc vmess_CmdTCP sample_dest ([], [])"])
  let ?sc = "accepted demo_crypto (V2rayUser (replicate 16 7)) demo_cc vmess_CmdTCP sample_dest ([], [])"
  have w: "chunked_Write [1, 2] = [[0, 2, 1, 2]]"
    by (simp add: chunked_Write.simps chunkSize_def PutUint16_def)
  show "vmess_peers demo_crypto demo_cc ?sc"
    by (simp add: vmess_peers_def accepted_def Let_def demo_cc_def client_conn_def demo_client_def)
  show "server_Writes demo_crypto demo_shake [([1, 2], \<lambda>_. 0)] ?sc =
      Some [aead_encodeRespHeader demo_crypto (cc_respBodyKey demo_cc) (cc_respBodyIV demo_cc) (cc_reqRespV demo_cc) @ [0, 2, 1, 2]]"
    by (simp add: server_Write_def Let_def accepted_def demo_cc_def client_conn_def demo_client_def new_writer_def
        OptChunkStream_def vwriter_Write_def w)
qed (auto simp: aead_encodeRespHeader_def Let_def)

lemma vmess_Handshake_sound_witness:
  "\<exists>res sc s'. vmess_Handshake demo_crypto 1010 0 [request_bytes demo_crypto demo_random 1000 demo_client sample_dest] demo_vmess_Server = (Some res, s') \<and>
     hs_conn res = TcpConn sc \<and>
     authid_machine s' = [take 16 (request_bytes demo_crypto demo_random 1000 demo_client sample_dest) \<mapsto> authid_antiReplyDuration]"
proof -
  let ?req = "request_bytes demo_crypto demo_random 1000 demo_client sample_dest"
  have udp: "\<not> IsUDP sample_dest" by (simp add: IsUDP_def IsStrUDP_network_def sample_dest_def zero_Addr_def)
  have r: "random_ok demo_random" by (simp add: random_ok_def demo_random_def)
  have len: "length ?req \<le> 65536" using request_length [OF demo_crypto_ok r sample_dest_ok, of 1000 demo_client] by simp
  have pairs: "authPairList demo_vmess_Server = [] @ (V2rayUser (replicate 16 7), generateCipher demo_crypto (GetKey demo_crypto (cl_user demo_client))) # []"
    by (simp add: demo_vmess_Server_def vmess_addUser_def vmess_newServer_def V2rayUser_def demo_client_def)
  obtain res sc s' where hs: "vmess_Handshake demo_crypto 1010 0 [?req] demo_vmess_Server = (Some res, s')" "hs_conn res = TcpConn sc"
    using vmess_Handshake_request [OF demo_crypto_ok r sample_dest_ok _ pairs, where x = "[]" and cs = "[]" and t = 1000
        and now = 1010 and clk = 0] udp len
    by (auto simp: demo_client_def V2rayUser_def demo_vmess_Server_def vmess_addUser_def vmess_newServer_def authid_admits_def session_check_def)
  from vmess_Handshake_sound [OF hs(1) disjI1 [OF hs(2)] len] hs show ?thesis
    by (auto simp: Let_def demo_vmess_Server_def vmess_addUser_def vmess_newServer_def authid_write_def)
qed

text \<open>
  A user whose header ends before the hash crashes the server: the four bytes of the hash are read without asking
  whether they are there.
\<close>
theorem vmess_missing_hash_panics:
  assumes "dest_ok target" and "length h = 38" and "h ! 35 < 16" and "h ! 37 = vmess_CmdTCP" and "length x < 4"
    and "fst (session_check \<lparr>sid_user = copy_into 16 (IdentityBytes user), sid_key = take 16 (drop 17 h),
           sid_nonce = take 16 (drop 1 h)\<rparr> clk (session_machine s))"
  shows "fst (vmess_accept c clk user (h @ v2ray_wire target @ x) lo s) = None"
proof -
  have "V2rayGetAddrFrom buf_ReadByte buf_Read (v2ray_wire target @ x) = (Inr (wire_Addr target), x)"
    by (rule parsesD [OF parses_V2rayGetAddrFrom [OF assms(1)]])
  then have cmd: "vmess_command vmess_CmdTCP (v2ray_wire target @ x) = Inr (None, wire_Addr target, wire_Addr target, False, x)"
    by (simp add: vmess_command_def vmess_CmdTCP_def vmess_CmdUDP_def)
  have "unat (h ! 35) div 16 = 0" using assms(3) by (simp add: word_less_nat_alt)
  then have pad: "unat (drop_bit 4 (h ! 35)) = 0" by (subst unat_drop_bit_eq) (simp add: drop_bit_eq_div)
  have "vmess_check_hash (h @ v2ray_wire target @ x) 0 x = None"
    using assms(5) by (simp add: vmess_check_hash_def Let_def buf_Next_def)
  with cmd pad assms(2,4,6) show ?thesis
    by (auto simp: vmess_accept_def Let_def nth_append split: prod.splits)
qed

text \<open>
  The error of a failed authentication is that of the last user tried: with more than one user, a replay or a wrong
  clock is reported as such only for the user who was added last.
\<close>
theorem vmess_auth_last_error:
  assumes "authUserByAuthPairList c now clk bs (ps @ [(u, k)]) machine = (Inl e, machine')"
  shows "e = auth_err (fst (tryMatchAuthIDByBlock c now clk k (copy_into 16 bs) machine)) \<and> machine' = machine"
  using assms auth_loop_Inl by (simp add: authUserByAuthPairList_def authid_len_def)

lemma vmess_missing_hash_panics_witness:
  "fst (vmess_accept demo_crypto 0 (V2rayUser (replicate 16 7)) ((replicate 37 0 @ [1]) @ v2ray_wire sample_dest @ [1, 2])
     ([], []) vmess_newServer) = None"
  by (rule vmess_missing_hash_panics [OF sample_dest_ok])
    (simp_all add: nth_append vmess_CmdTCP_def session_check_def vmess_newServer_def)

lemma vmess_auth_last_error_witness:
  "fst (authUserByAuthPairList demo_crypto 1010 0 (createAuthID demo_crypto [] 1000 [1, 2, 3, 4])
      ([] @ [(V2rayUser (replicate 16 7), generateCipher demo_crypto [])])
      (Some [createAuthID demo_crypto [] 1000 [1, 2, 3, 4] \<mapsto> 5])) = Inl (auth_err 3)"
proof -
  let ?id = "createAuthID demo_crypto [] 1000 [1, 2, 3, 4]"
  have m: "tryMatchAuthIDByBlock demo_crypto 1010 0 (generateCipher demo_crypto []) ?id (Some [?id \<mapsto> 5]) = (3, Some [?id \<mapsto> 5])"
    using tryMatch_createAuthID [OF demo_crypto_ok, of "[1, 2, 3, 4]" 1000 1010 0 "[]" "[?id \<mapsto> 5]"]
    by (simp add: authid_admits_def)
  moreover have "length ?id = 16" by (rule createAuthID_length [OF demo_crypto_ok]) simp
  ultimately obtain e m' where r: "authUserByAuthPairList demo_crypto 1010 0 ?id
      ([] @ [(V2rayUser (replicate 16 7), generateCipher demo_crypto [])]) (Some [?id \<mapsto> 5]) = (Inl e, m')"
    by (simp add: authUserByAuthPairList_def authid_len_def)
  from vmess_auth_last_error [OF r] m r \<open>length ?id = 16\<close> show ?thesis by simp
qed

text \<open>
  The filters are too short for the clocks that are allowed: a recorded request of a client whose clock was fast is accepted again,
  with all its data, once 180 seconds have passed, while its time is still within 120 seconds of the server's.
  The authentication id is forgotten 120 seconds after its first use, not after the end of its validity.
\<close>
theorem vmess_replay_of_fast_clock:
  assumes "crypto_ok c" and "random_ok r" and "dest_ok target"
    and "cl_security cl \<in> {SecurityAES128GCM, SecurityChacha20Poly1305, SecurityNone}"
    and "authPairList s = [(u, generateCipher c (GetKey c (cl_user cl)))]" and "IdentityBytes u = cl_user cl"
    and "\<bar>\<bar>sint t\<bar> - now\<bar> \<le> 120" and "\<bar>\<bar>sint t\<bar> - now'\<bar> \<le> 120"
    and "sessionAntiReplayDuration < clk' - clk"
    and "authid_machine s = Map.empty" and "session_machine s = Map.empty"
    and "length (request_bytes c r t cl target @ x) \<le> 65536"
  shows "\<exists>res s' s''. vmess_Handshake c now clk ((request_bytes c r t cl target @ x) # cs) s = (Some res, s') \<and>
    vmess_Handshake c now' clk' ((request_bytes c r t cl target @ x) # cs) s' = (Some res, s'') \<and>
    hs_returnErr res = None \<and> (\<exists>sc. hs_conn res = TcpConn sc \<or> hs_conn res = MsgConn sc)"
proof -
  let ?c1 = "request_bytes c r t cl target @ x"
  let ?id = "request_id c r t cl"
  let ?cc = "client_conn c r cl target"
  let ?sc = "accepted c u ?cc (request_cmd target) target (x, cs)"
  let ?res = "\<lparr>hs_conn = (if IsUDP target then MsgConn else TcpConn) ?sc,
      hs_targetAddr = (if IsUDP target then (wire_Addr target)\<lparr>Network := ''udp''\<rparr> else wire_Addr target), hs_returnErr = None\<rparr>"
  let ?sid = "\<lparr>sid_user = copy_into 16 (cl_user cl), sid_key = take 16 (drop 16 (rnd_33 r)), sid_nonce = take 16 (rnd_33 r)\<rparr>"
  have hs: "\<exists>s'. vmess_Handshake c now clk (?c1 # cs) s = (Some ?res, s')"
    if "authPairList s = [(u, generateCipher c (GetKey c (cl_user cl)))]" "\<bar>\<bar>sint t\<bar> - now\<bar> \<le> 120"
      "authid_admits ?id clk (authid_machine s)" "fst (session_check ?sid clk (session_machine s))" for now clk s
    using vmess_Handshake_request [OF assms(1-4), of s "[]" u "[]" now clk t x cs] that assms(6,12) by simp
  obtain s' where 1: "vmess_Handshake c now clk (?c1 # cs) s = (Some ?res, s')"
    using hs [OF assms(5,7)] assms(10,11) by (auto simp: authid_admits_def session_check_def)
  have conn: "hs_conn ?res = TcpConn ?sc \<or> hs_conn ?res = MsgConn ?sc" by simp
  have sc: "sc_user ?sc = u" "sc_reqBodyKey ?sc = take 16 (drop 16 (rnd_33 r))" "sc_reqBodyIV ?sc = take 16 (rnd_33 r)"
    by (simp_all add: accepted_def client_conn_def Let_def)
  have rnd: "length (rnd_authid r) = 4" "length (rnd_nonce r) = 8" using assms(2) by (auto simp: random_ok_def)
  let ?data = "vmess_header ?cc (request_cmd target) (rnd_paddingLen r) (rnd_padding r)"
  have dl: "length ?data + 16 < 65536" using request_bytes_length [OF assms(1-3), of cl "request_cmd target"] by simp
  have id: "take 16 ?c1 = ?id"
    using openAEADHeader_seal(2) [OF assms(1) rnd dl, where key = "GetKey c (cl_user cl)" and t = t]
    by (simp add: request_bytes_def request_id_def)
  from vmess_Handshake_conn [OF 1 conn assms(12)] assms(5,6,10,11) id sc
  have s': "authPairList s' = [(u, generateCipher c (GetKey c (cl_user cl)))]"
    "authid_machine s' = authid_write ?id clk Map.empty" "session_machine s' = snd (session_check ?sid clk Map.empty)"
    by (auto simp: Let_def simp del: take_append)
  obtain s'' where 2: "vmess_Handshake c now' clk' (?c1 # cs) s' = (Some ?res, s'')"
    using hs [OF s'(1) assms(8), of clk'] s'(2,3) assms(9)
    by (auto simp: authid_admits_def authid_write_def session_check_def authid_antiReplyDuration_def
        sessionAntiReplayDuration_def second_def)
  from 1 2 show ?thesis by (intro exI [of _ ?res] exI [of _ s'] exI [of _ s'']) auto
qed

lemma vmess_replay_of_fast_clock_witness:
  "\<exists>res s' s''. vmess_Handshake demo_crypto 1000 0 [request_bytes demo_crypto demo_random 1119 demo_client sample_dest] demo_vmess_Server = (Some res, s') \<and>
    vmess_Handshake demo_crypto 1200 (200 * second) [request_bytes demo_crypto demo_random 1119 demo_client sample_dest] s' = (Some res, s'') \<and>
    hs_returnErr res = None \<and> (\<exists>sc. hs_conn res = TcpConn sc \<or> hs_conn res = MsgConn sc)"
proof -
  have r: "random_ok demo_random" by (simp add: random_ok_def demo_random_def)
  have len: "length (request_bytes demo_crypto demo_random 1119 demo_client sample_dest @ []) \<le> 65536"
    using request_length [OF demo_crypto_ok r sample_dest_ok, of 1119 demo_client] by simp
  have "authPairList demo_vmess_Server = [(V2rayUser (replicate 16 7), generateCipher demo_crypto (GetKey demo_crypto (cl_user demo_client)))]"
    by (simp add: demo_vmess_Server_def vmess_addUser_def vmess_newServer_def V2rayUser_def demo_client_def)
  from vmess_replay_of_fast_clock [OF demo_crypto_ok r sample_dest_ok _ this _ _ _ _ _ _ len, of 1000 1200 "200 * second" 0 "[]"]
  show ?thesis
    by (simp add: demo_client_def V2rayUser_def demo_vmess_Server_def vmess_addUser_def vmess_newServer_def
        sessionAntiReplayDuration_def second_def)
qed

end
