(* ===== verification/UtilsAlgo.thy ===== *)
theory UtilsAlgo
  imports V2Prelude "HOL-Library.Multiset" "HOL-Library.Sublist"
begin

text \<open>
  The slice algorithms of \<open>utils/algo.go\<close>: the subsets of a slice, sorting by a given order,
  splicing and moving. A slice is its list of elements; capacities do not matter here, since
  every function returns the slice it built. Indices that the caller passes are \<open>int\<close>s.
  \<open>SortByOrder\<close> may also leave a \<open>-1\<close> behind in the caller's \<open>order\<close>; only its results are
  modelled.
\<close>

section \<open>Subsets\<close>

text \<open>One run of the inner loop: the objects whose bit is set.\<close>

definition subset_of_bits :: "'a list \<Rightarrow> nat \<Rightarrow> 'a list" where
  "subset_of_bits s subsetBits =
     map ((!) s) (filter (\<lambda>object. drop_bit object subsetBits AND 1 = 1) [0..<length s])"

text \<open>\<open>1 << length\<close> is a Go \<open>int\<close>: 64 bits, signed.\<close>

definition AllSubSets :: "'a list \<Rightarrow> 'a list list" where
  "AllSubSets s = map (subset_of_bits s) [1..<nat (sint (push_bit (length s) (1 :: 64 word)))]"

text \<open>The variant that allocates in advance appends the same elements in the same order.\<close>

definition AllSubSets_improve1 :: "'a list \<Rightarrow> 'a list list" where
  "AllSubSets_improve1 s =
     foldl (\<lambda>subsets subsetBits. subsets @ [foldl (\<lambda>subset object.
         if drop_bit object subsetBits AND 1 = 1 then subset @ [s ! object] else subset)
       [] [0..<length s]]) []
     [1..<nat (sint (push_bit (length s) (1 :: 64 word)))]"

section \<open>Sorting by an order\<close>

text \<open>\<open>TrimSlice\<close>: the elements but the one at the given index.\<close>

definition TrimSlice :: "'a list \<Rightarrow> int \<Rightarrow> 'a list" where
  "TrimSlice a deleteIndex = map snd (filter (\<lambda>(idx, val). int idx \<noteq> deleteIndex) (enumerate 0 a))"

text \<open>The valid entries of a too long order, first occurrences only.\<close>

definition keep_valid :: "nat \<Rightarrow> int list \<Rightarrow> int list" where
  "keep_valid n order =
     foldl (\<lambda>neworder v. if v \<ge> 0 \<and> v < int n \<and> v \<notin> set neworder then neworder @ [v] else neworder)
       [] order"

definition fill_missing :: "nat \<Rightarrow> int list \<Rightarrow> int list" where
  "fill_missing n order =
     foldl (\<lambda>order i. if int i \<notin> set order then order @ [int i] else order) order [0..<n]"

text \<open>The check of position \<open>i\<close>: the entry is overwritten by \<open>-1\<close> while the others are searched.\<close>

definition bad_at :: "nat \<Rightarrow> int list \<Rightarrow> nat \<Rightarrow> bool" where
  "bad_at n order i =
     (let v = order ! i in v \<in> set (order[i := -1]) \<or> v \<ge> int n \<or> v < 0)"

definition SortByOrder :: "'a list \<Rightarrow> int list \<Rightarrow> 'a list \<times> int list option \<times> int" where
  "SortByOrder arr order =
     (let n = length arr;
          (order, neworder, erri) =
            (if length order > n then
               (let o' = fill_missing n (keep_valid n order) in (o', Some o', 1))
             else if length order < n then
               (let o' = fill_missing n order in (o', Some o', 2))
             else (order, None, 0));
          (order, neworder, erri) =
            (if list_ex (bad_at n order) [0..<length order]
             then (map int [0..<n], Some (map int [0..<n]), 3)
             else (order, neworder, erri))
      in (map (\<lambda>v. arr ! nat v) order, neworder, erri))"

section \<open>Splice\<close>

text \<open>\<open>copy(xs[i:], ys)\<close>.\<close>

definition copy_from :: "'a list \<Rightarrow> nat \<Rightarrow> 'a list \<Rightarrow> 'a list" where
  "copy_from xs i ys = take i xs @ take (length xs - i) ys @ drop (i + length ys) xs"

definition splice_start :: "int \<Rightarrow> nat \<Rightarrow> nat" where
  "splice_start start len =
     (let start = (if start > int len then int len else start);
          start = (if start < 0 then int len + start else start)
      in if start < 0 then 0 else nat start)"

text \<open>The zero value \<open>z\<close> fills the grown slice until the elements are moved. The result is the
  new slice and the removed elements.\<close>

definition Splice :: "'a \<Rightarrow> 'a list \<Rightarrow> int \<Rightarrow> int \<Rightarrow> 'a list \<Rightarrow> 'a list \<times> 'a list" where
  "Splice z source start deleteCount items =
     (let start = splice_start start (length source);
          deleteCount = (if deleteCount < 0 then 0 else nat deleteCount);
          removed = map (\<lambda>i. source ! (i + start))
            (filter (\<lambda>i. i + start < length source) [0..<deleteCount]);
          deleteCount = length removed;
          grow = int (length items) - int deleteCount;
          source' =
            (if grow > 0 then
               let s = source @ replicate (nat grow) z
               in copy_from s (start + deleteCount + nat grow) (drop (start + deleteCount) s)
             else if grow < 0 then
               let s = copy_from source (start + length items) (drop (start + deleteCount) source)
               in take (length source - nat (- grow)) s
             else source)
      in (copy_from source' start items, removed))"

text \<open>\<open>MoveItem\<close> panics on a bad \<open>fromIndex\<close>.\<close>

definition MoveItem :: "'a \<Rightarrow> 'a list \<Rightarrow> int \<Rightarrow> int \<Rightarrow> 'a list option" where
  "MoveItem z arr fromIndex toIndex =
     (if 0 \<le> fromIndex \<and> fromIndex < int (length arr) then
        let item = arr ! nat fromIndex;
            arr = fst (Splice z arr fromIndex 1 [])
        in Some (fst (Splice z arr toIndex 0 [item]))
      else None)"

section \<open>Lemmas on subsets\<close>

lemma bit_test: "drop_bit i (n :: nat) AND 1 = 1 \<longleftrightarrow> bit n i"
  by (simp add: and_one_eq bit_iff_odd_drop_bit odd_iff_mod_2_eq_one)

lemma subset_of_bits_eq: "subset_of_bits s n = map ((!) s) (filter (bit n) [0..<length s])"
  unfolding subset_of_bits_def bit_test ..

lemma bound_sint: "l < 63 \<Longrightarrow> nat (sint (push_bit l (1 :: 64 word))) = 2 ^ l"
proof -
  assume l: "l < 63"
  have "(push_bit l 1 :: 64 word) = word_of_int (2 ^ l)"
    by (simp add: push_bit_eq_mult)
  then have "sint (push_bit l (1 :: 64 word)) = signed_take_bit 63 (2 ^ l)"
    by (simp only: signed_of_int) simp
  also have "\<dots> = 2 ^ l"
  proof (rule signed_take_bit_int_eq_self)
    show "- (2 ^ 63) \<le> (2 ^ l :: int)" by (rule order.trans [of _ 0]) simp_all
    show "2 ^ l < (2 ^ 63 :: int)" by (rule power_strict_increasing) (use l in simp_all)
  qed
  finally show ?thesis by simp
qed

lemma foldl_append_if: "foldl (\<lambda>acc x. if P x then acc @ [f x] else acc) acc xs
    = acc @ map f (filter P xs)"
  by (induction xs arbitrary: acc) auto

lemma foldl_append_map: "foldl (\<lambda>acc x. acc @ [f x]) acc xs = acc @ map f xs"
  by (induction xs arbitrary: acc) auto

lemma AllSubSets_improve1_eq: "AllSubSets_improve1 s = AllSubSets s"
  unfolding AllSubSets_improve1_def AllSubSets_def foldl_append_if foldl_append_map append_Nil
    subset_of_bits_def [symmetric] ..

lemma subset_of_bits_snoc:
  "subset_of_bits (s @ [x]) n = subset_of_bits s n @ (if bit n (length s) then [x] else [])"
  by (auto simp: subset_of_bits_eq nth_append intro!: map_cong)

lemma bit_add_exp: "n < 2 ^ l \<Longrightarrow> i \<le> l \<Longrightarrow> bit (n + 2 ^ l :: nat) i \<longleftrightarrow> bit n i \<or> i = l"
proof -
  assume n: "n < 2 ^ l" and i: "i \<le> l"
  have nb: "\<not> bit n l" using n by (simp add: bit_iff_odd)
  have "n + 2 ^ l = n OR 2 ^ l"
    using nb by (intro disjunctive_add_eq_or) (auto intro!: bit_eqI simp: bit_simps)
  then show ?thesis by (auto simp: bit_simps)
qed

lemma subset_of_bits_cong: "(\<And>i. i < length s \<Longrightarrow> bit m i = bit n i) \<Longrightarrow> subset_of_bits s m = subset_of_bits s n"
  by (auto simp: subset_of_bits_eq intro!: arg_cong [of _ _ "map ((!) s)"] filter_cong)

lemma upt_double: "[0..<2 * n] = [0..<n] @ map (\<lambda>i. i + n) [0..<n :: nat]"
  using upt_add_eq_append [of 0 n n] map_add_upt [of n n] by (simp only: mult_2 le0)

lemma subsets_snoc:
  "map (subset_of_bits (s @ [x])) [0..<2 ^ length (s @ [x])] =
     map (subset_of_bits s) [0..<2 ^ length s] @ map (\<lambda>n. subset_of_bits s n @ [x]) [0..<2 ^ length s]"
proof -
  have lo: "subset_of_bits (s @ [x]) n = subset_of_bits s n" if "n < 2 ^ length s" for n
    using that by (simp add: subset_of_bits_snoc bit_iff_odd)
  have hi: "subset_of_bits (s @ [x]) (n + 2 ^ length s) = subset_of_bits s n @ [x]"
    if "n < 2 ^ length s" for n
    using that bit_add_exp [OF that] subset_of_bits_cong [of s "n + 2 ^ length s" n]
    by (simp add: subset_of_bits_snoc)
  have "map (subset_of_bits (s @ [x])) [0..<2 * 2 ^ length s] =
      map (subset_of_bits (s @ [x])) [0..<2 ^ length s]
      @ map (\<lambda>n. subset_of_bits (s @ [x]) (n + 2 ^ length s)) [0..<2 ^ length s]"
    unfolding upt_double map_append map_map comp_def ..
  also have "map (subset_of_bits (s @ [x])) [0..<2 ^ length s] = map (subset_of_bits s) [0..<2 ^ length s]"
    by (rule map_cong [OF refl]) (simp add: lo)
  also have "map (\<lambda>n. subset_of_bits (s @ [x]) (n + 2 ^ length s)) [0..<2 ^ length s]
      = map (\<lambda>n. subset_of_bits s n @ [x]) [0..<2 ^ length s]"
    by (rule map_cong [OF refl]) (simp add: hi)
  finally show ?thesis by simp
qed

lemma all_subsets_powerset:
  assumes "distinct s"
  shows "distinct (map set (map (subset_of_bits s) [0..<2 ^ length s]))
    \<and> set (map set (map (subset_of_bits s) [0..<2 ^ length s])) = Pow (set s)"
  using assms
proof (induction s rule: rev_induct)
  case Nil
  then show ?case by (simp add: subset_of_bits_def)
next
  case (snoc x s)
  define L where "L = map (subset_of_bits s) [0..<2 ^ length s]"
  have IH: "distinct (map set L)" "set ` set L = Pow (set s)" and x: "x \<notin> set s"
    using snoc by (simp_all add: L_def image_image comp_def)
  have sub: "x \<notin> set xs" if "xs \<in> set L" for xs
    using IH(2) that x by blast
  have eq: "map (subset_of_bits (s @ [x])) [0..<2 ^ length (s @ [x])] = L @ map (\<lambda>xs. xs @ [x]) L"
    by (simp only: subsets_snoc L_def map_map comp_def)
  have "set ` set L \<union> insert x ` set ` set L = Pow (set (s @ [x]))"
    by (simp add: IH(2) Pow_insert)
  moreover have "inj_on (insert x) (set ` set L)"
    using sub by (intro inj_onI) (auto simp: insert_ident)
  moreover have "set ` set L \<inter> insert x ` set ` set L = {}"
    using sub by auto
  ultimately show ?case
    unfolding eq using IH(1)
    by (simp add: image_image distinct_map inj_on_def comp_def image_Un) 
qed

section \<open>Lemmas on orders and splicing\<close>

lemma keep_valid_props:
  "distinct acc \<and> set acc \<subseteq> {0..<int n} \<Longrightarrow>
   (let r = foldl (\<lambda>neworder v. if v \<ge> 0 \<and> v < int n \<and> v \<notin> set neworder then neworder @ [v] else neworder)
       acc order in distinct r \<and> set r \<subseteq> {0..<int n})"
  by (induction order arbitrary: acc) (auto simp: Let_def)

lemma keep_valid_ok: "distinct (keep_valid n order)" "set (keep_valid n order) \<subseteq> {0..<int n}"
  using keep_valid_props [of "[]" n order] by (simp_all add: keep_valid_def Let_def)

lemma fill_missing_Suc: "fill_missing (Suc n) order =
    (let o' = fill_missing n order in if int n \<notin> set o' then o' @ [int n] else o')"
  by (simp add: fill_missing_def Let_def)

lemma set_fill_missing: "set (fill_missing n order) = set order \<union> {0..<int n}"
proof (induction n)
  case (Suc n)
  have "{0..<int (Suc n)} = insert (int n) {0..<int n}" by auto
  with Suc show ?case by (auto simp: fill_missing_Suc Let_def)
qed (simp add: fill_missing_def)

lemma distinct_fill_missing: "distinct order \<Longrightarrow> distinct (fill_missing n order)"
  by (induction n) (auto simp: fill_missing_Suc Let_def fill_missing_def)

definition is_order :: "nat \<Rightarrow> int list \<Rightarrow> bool" where
  "is_order n order \<longleftrightarrow> distinct order \<and> set order = {0..<int n}"

lemma is_order_length: "is_order n order \<Longrightarrow> length order = n"
  using distinct_card [of order] by (simp add: is_order_def)

lemma is_order_upt: "is_order n (map int [0..<n])"
  by (auto simp: is_order_def distinct_map image_def) (metis nat_0_le atLeastLessThan_iff nat_less_iff le0)

lemma is_order_fill: "is_order n (fill_missing n (keep_valid n order))"
  using keep_valid_ok [of n order] by (auto simp: is_order_def set_fill_missing distinct_fill_missing)

lemma not_bad_iff:
  "\<not> list_ex (bad_at n order) [0..<length order] \<longleftrightarrow> distinct order \<and> set order \<subseteq> {0..<int n}"
proof
  assume ok: "\<not> list_ex (bad_at n order) [0..<length order]"
  have "order ! i \<noteq> order ! j" if "i < length order" "j < length order" "i \<noteq> j" for i j
  proof
    assume "order ! i = order ! j"
    then have "order[i := -1] ! j = order ! i" using that by simp
    with that have "order ! i \<in> set (order[i := -1])" by (metis length_list_update nth_mem)
    with ok that show False by (auto simp: list_ex_iff bad_at_def Let_def)
  qed
  then have "distinct order" by (simp add: distinct_conv_nth)
  moreover have "order ! i \<in> {0..<int n}" if "i < length order" for i
    using ok that by (simp add: list_ex_iff bad_at_def Let_def not_less not_le)
  then have "set order \<subseteq> {0..<int n}" by (auto simp: in_set_conv_nth)
  ultimately show "distinct order \<and> set order \<subseteq> {0..<int n}" ..
next
  assume ok: "distinct order \<and> set order \<subseteq> {0..<int n}"
  have "\<not> bad_at n order i" if i: "i < length order" for i
  proof -
    have v: "order ! i \<in> {0..<int n}" using nth_mem [OF i] ok by blast
    moreover have "order ! i \<notin> set (order[i := -1])"
    proof
      assume "order ! i \<in> set (order[i := -1])"
      then obtain j where j: "j < length order" "order[i := -1] ! j = order ! i"
        by (auto simp: in_set_conv_nth)
      with v i ok show False
        by (cases "i = j") (auto simp: distinct_conv_nth)
    qed
    ultimately show ?thesis by (simp add: bad_at_def Let_def)
  qed
  then show "\<not> list_ex (bad_at n order) [0..<length order]" by (simp add: list_ex_iff)
qed

lemma bad_full:
  assumes "n \<le> length order"
  shows "list_ex (bad_at n order) [0..<length order] \<longleftrightarrow> \<not> is_order n order"
proof -
  have "set order = {0..<int n}" if "distinct order" "set order \<subseteq> {0..<int n}"
    by (rule card_seteq) (use that assms distinct_card [of order] in auto)
  then show ?thesis using not_bad_iff [of n order] by (auto simp: is_order_def)
qed

lemma is_order_perm: "is_order (length arr) order \<Longrightarrow> mset (map (\<lambda>v. arr ! nat v) order) = mset arr"
proof -
  assume ord: "is_order (length arr) order"
  have "nat ` {0..<int (length arr)} = {0..<length arr}" by (auto simp: image_iff intro!: bexI [where x = "int _"])
  with ord have "mset (map nat order) = mset [0..<length arr]"
    by (intro set_eq_iff_mset_eq_distinct [THEN iffD1])
      (auto simp: is_order_def distinct_map inj_on_def)
  then have "mset (map (\<lambda>v. arr ! v) (map nat order)) = mset (map (\<lambda>v. arr ! v) [0..<length arr])"
    by (simp only: mset_map)
  then show ?thesis by (simp only: map_nth map_map comp_def)
qed

text \<open>The order that is applied in the end.\<close>

lemma SortByOrder_stages:
  assumes "length arr \<le> length o1"
    and "SortByOrder arr order =
      (let (o2, neworder, erri) =
         (if list_ex (bad_at (length arr) o1) [0..<length o1]
          then (map int [0..<length arr], Some (map int [0..<length arr]), 3) else (o1, n1, e1))
       in (map (\<lambda>v. arr ! nat v) o2, neworder, erri))"
  shows "SortByOrder arr order =
    (if is_order (length arr) o1 then (map (\<lambda>v. arr ! nat v) o1, n1, e1)
     else (map (\<lambda>v. arr ! nat v) (map int [0..<length arr]), Some (map int [0..<length arr]), 3))"
  unfolding assms(2) bad_full [OF assms(1)] by (simp del: map_map)

lemma length_fill_missing: "n \<le> length (fill_missing n order)"
  using card_length [of "fill_missing n order"] card_mono [of "set (fill_missing n order)" "{0..<int n}"]
  by (simp add: set_fill_missing)

lemma SortByOrder_perm:
  "\<exists>o'. is_order (length arr) o' \<and> fst (SortByOrder arr order) = map (\<lambda>v. arr ! nat v) o'
    \<and> (is_order (length arr) order \<longrightarrow> o' = order)
    \<and> (snd (snd (SortByOrder arr order)) = 0 \<longleftrightarrow> is_order (length arr) order)"
proof (cases "length order" "length arr" rule: linorder_cases)
  case less
  have "\<not> is_order (length arr) order" using less is_order_length by fastforce
  moreover have "SortByOrder arr order =
    (if is_order (length arr) (fill_missing (length arr) order)
     then (map (\<lambda>v. arr ! nat v) (fill_missing (length arr) order), Some (fill_missing (length arr) order), 2)
     else (map (\<lambda>v. arr ! nat v) (map int [0..<length arr]), Some (map int [0..<length arr]), 3))"
    by (rule SortByOrder_stages [OF length_fill_missing]) (use less in \<open>simp add: SortByOrder_def Let_def\<close>)
  ultimately show ?thesis using is_order_upt [of "length arr"] by (auto simp del: map_map)
next
  case equal
  have "SortByOrder arr order =
    (if is_order (length arr) order then (map (\<lambda>v. arr ! nat v) order, None, 0)
     else (map (\<lambda>v. arr ! nat v) (map int [0..<length arr]), Some (map int [0..<length arr]), 3))"
    by (rule SortByOrder_stages) (use equal in \<open>simp_all add: SortByOrder_def Let_def\<close>)
  then show ?thesis using is_order_upt [of "length arr"] by (auto simp del: map_map)
next
  case greater
  have "\<not> is_order (length arr) order" using greater is_order_length by fastforce
  moreover have "SortByOrder arr order =
    (if is_order (length arr) (fill_missing (length arr) (keep_valid (length arr) order))
     then (map (\<lambda>v. arr ! nat v) (fill_missing (length arr) (keep_valid (length arr) order)),
       Some (fill_missing (length arr) (keep_valid (length arr) order)), 1)
     else (map (\<lambda>v. arr ! nat v) (map int [0..<length arr]), Some (map int [0..<length arr]), 3))"
    by (rule SortByOrder_stages [OF length_fill_missing]) (use greater in \<open>simp add: SortByOrder_def Let_def\<close>)
  ultimately show ?thesis using is_order_fill [of "length arr" order] by auto
qed

section \<open>Lemmas on splicing\<close>

lemma splice_start_le: "splice_start start n \<le> n"
  by (simp add: splice_start_def Let_def nat_le_iff)

lemma removed_eq: "map (\<lambda>i. xs ! (i + s)) (filter (\<lambda>i. i + s < length xs) [0..<d]) = take d (drop s xs)"
proof -
  have "filter (\<lambda>i. i + s < length xs) [0..<d] = [0..<min d (length xs - s)]"
    by (induction d) (auto simp: min_def intro!: arg_cong2 [of _ _ _ _ upt])
  then show ?thesis by (auto intro!: nth_equalityI simp: add.commute)
qed

lemma copy_from_app: "i = length xs \<Longrightarrow> length ys = length zs \<Longrightarrow> copy_from (xs @ ys @ rest) i zs = xs @ zs @ rest"
  by (simp add: copy_from_def)

lemma copy_from_app0: "i = length xs \<Longrightarrow> length ys = length zs \<Longrightarrow> copy_from (xs @ ys) i zs = xs @ zs"
  by (simp add: copy_from_def)

text \<open>The three ways in which \<open>Splice\<close> replaces \<open>r\<close> by \<open>items\<close>.\<close>

lemma splice_grow:
  assumes "length items = length r + n"
  shows "copy_from (copy_from (a @ r @ b @ replicate n z) (length a + length r + n) (b @ replicate n z))
    (length a) items = a @ items @ b"
proof -
  define s where "s = take (length r + n) (r @ b @ replicate n z)"
  have s: "length s = length r + n" by (simp add: s_def)
  have "copy_from (a @ r @ b @ replicate n z) (length a + length r + n) (b @ replicate n z) = a @ s @ b"
    by (simp add: copy_from_def s_def)
  then show ?thesis using assms s by (simp add: copy_from_app)
qed

lemma splice_shrink:
  assumes "length r = length items + m"
  shows "copy_from (take (length a + length r + length b - m) (copy_from (a @ r @ b) (length a + length items) b))
    (length a) items = a @ items @ b"
proof -
  have "take (length a + length r + length b - m) (copy_from (a @ r @ b) (length a + length items) b)
      = a @ take (length items) (r @ b) @ b"
    using assms by (simp add: copy_from_def)
  then show ?thesis using assms by (simp add: copy_from_app)
qed

lemma Splice_eq:
  "Splice z source start d items =
    (take (splice_start start (length source)) source @ items
       @ drop (splice_start start (length source) + (if d < 0 then 0 else nat d)) source,
     take (if d < 0 then 0 else nat d) (drop (splice_start start (length source)) source))"
proof -
  define k where "k = splice_start start (length source)"
  define dc where "dc = (if d < 0 then 0 else nat d)"
  define a r b where "a = take k source" and "r = take dc (drop k source)" and "b = drop (k + dc) source"
  have source: "source = a @ r @ b"
    by (simp add: a_def r_def b_def) (metis add.commute append_take_drop_id drop_drop)
  have k: "k = length a" using splice_start_le [of start "length source"] by (simp add: a_def k_def)
  define n m where "n = nat (int (length items) - int (length r))"
    and "m = nat (int (length r) - int (length items))"
  have "Splice z source start d items = (copy_from
      (if int (length r) < int (length items) then
         copy_from (a @ r @ b @ replicate n z) (length a + length r + n) (b @ replicate n z)
       else if int (length items) < int (length r) then
         take (length a + length r + length b - m) (copy_from (a @ r @ b) (length a + length items) b)
       else a @ r @ b) (length a) items, r)"
    unfolding Splice_def Let_def k_def [symmetric] dc_def [symmetric] removed_eq r_def [symmetric] n_def m_def
    unfolding k by (simp add: source add.assoc)
  also have "\<dots> = (a @ items @ b, r)"
    by (cases "length r" "length items" rule: linorder_cases)
      (simp_all add: splice_grow splice_shrink n_def m_def copy_from_app)
  finally show ?thesis by (simp only: a_def b_def r_def k_def dc_def)
qed

lemma TrimSlice_app: "TrimSlice (as @ x # bs) (int (length as)) = as @ bs"
proof -
  have keep: "filter (\<lambda>(idx, val). idx \<noteq> length as) (enumerate n xs) = enumerate n xs"
    if "n + length xs \<le> length as \<or> length as < n" for n and xs :: "'a list"
    using that by (auto simp: filter_id_conv in_set_enumerate_eq)
  show ?thesis
    by (simp add: TrimSlice_def enumerate_append_eq keep)
qed

lemma TrimSlice_nth: "0 \<le> k \<Longrightarrow> k < int (length xs) \<Longrightarrow>
  TrimSlice xs k = take (nat k) xs @ drop (Suc (nat k)) xs"
proof -
  assume k: "0 \<le> k" "k < int (length xs)"
  then have "xs = take (nat k) xs @ xs ! nat k # drop (Suc (nat k)) xs" "k = int (length (take (nat k) xs))"
    by (simp_all add: id_take_nth_drop nat_less_iff)
  then show ?thesis using TrimSlice_app [of "take (nat k) xs" "xs ! nat k" "drop (Suc (nat k)) xs"] by metis
qed

lemma splice_start_id: "0 \<le> k \<Longrightarrow> k \<le> int n \<Longrightarrow> splice_start k n = nat k"
  by (simp add: splice_start_def Let_def)

section \<open>Properties\<close>

text \<open>The subsets of a slice of distinct elements are enumerated each once, the empty one left
  out, by both variants.\<close>

theorem AllSubSets_powerset:
  assumes "distinct s" "length s < 63"
  shows "distinct (map set (AllSubSets_improve1 s))
    \<and> set (map set (AllSubSets_improve1 s)) = Pow (set s) - {{}}
    \<and> AllSubSets s = AllSubSets_improve1 s"
proof -
  have "[0..<2 ^ length s] = 0 # [1..<2 ^ length s]" by (simp add: upt_conv_Cons)
  then have eq: "map set (map (subset_of_bits s) [0..<2 ^ length s]) = {} # map set (AllSubSets s)"
    unfolding AllSubSets_def bound_sint [OF assms(2)] by (simp add: subset_of_bits_eq)
  have rest: "distinct L \<and> set L = P - {z}" if "distinct (z # L) \<and> set (z # L) = P" for L z and P :: "'a set set"
    using that by auto
  show ?thesis
    using rest [OF all_subsets_powerset [OF assms(1), unfolded eq]] unfolding AllSubSets_improve1_eq by simp
qed

theorem AllSubSets_powerset_witness:
  "set (map set (AllSubSets_improve1 [2 :: nat, 4, 8])) = Pow (set [2, 4, 8]) - {{}}"
proof -
  have "distinct [2 :: nat, 4, 8]" "length [2 :: nat, 4, 8] < 63" by simp_all
  from AllSubSets_powerset [OF this] show ?thesis by blast
qed

text \<open>\<open>SortByOrder\<close> returns a permutation of the slice whatever the order is; the error code is
  zero exactly for a permutation of the indices, and then that is the one applied.\<close>

theorem SortByOrder_permutes:
  "mset (fst (SortByOrder arr order)) = mset arr
    \<and> (snd (snd (SortByOrder arr order)) = 0 \<longleftrightarrow> distinct order \<and> set order = {0..<int (length arr)})
    \<and> (snd (snd (SortByOrder arr order)) = 0
        \<longrightarrow> fst (SortByOrder arr order) = map (\<lambda>v. arr ! nat v) order)"
  using SortByOrder_perm [of arr order] is_order_perm [of arr] by (auto simp: is_order_def)

theorem SortByOrder_permutes_witness:
  "fst (SortByOrder ''abc'' [2, 0, 1]) = ''cab'' \<and> mset (fst (SortByOrder ''abc'' [7, 7])) = mset ''abc''"
proof -
  have "snd (snd (SortByOrder ''abc'' [2, 0, 1])) = 0"
    using SortByOrder_permutes [of "''abc''" "[2, 0, 1]"] by auto
  then show ?thesis
    using SortByOrder_permutes [of "''abc''" "[2, 0, 1]"] SortByOrder_permutes [of "''abc''" "[7, 7]"]
    by simp
qed

text \<open>\<open>Splice\<close>, with its growing, shrinking and in-place branches, replaces the elements at the
  clamped start by the items, and returns what it removed.\<close>

theorem Splice_replaces:
  "Splice z source start deleteCount items =
    (take (splice_start start (length source)) source @ items
       @ drop (splice_start start (length source) + nat (max 0 deleteCount)) source,
     take (nat (max 0 deleteCount)) (drop (splice_start start (length source)) source))"
  using Splice_eq [of z source start deleteCount items] by (cases "deleteCount < 0") (simp_all add: max_def)

text \<open>\<open>MoveItem\<close> puts the item at its new index and keeps the order of the others.\<close>

theorem MoveItem_moves:
  assumes "0 \<le> from" "from < int (length arr)" "0 \<le> to" "to < int (length arr)"
  shows "\<exists>r. MoveItem z arr from to = Some r \<and> length r = length arr \<and> r ! nat to = arr ! nat from
    \<and> TrimSlice r to = TrimSlice arr from"
proof -
  define ys where "ys = take (nat from) arr @ drop (Suc (nat from)) arr"
  have ys: "TrimSlice arr from = ys" "Suc (length ys) = length arr" "nat to \<le> length ys"
    using assms by (auto simp: ys_def TrimSlice_nth nat_less_iff min_def)
  define r where "r = take (nat to) ys @ [arr ! nat from] @ drop (nat to) ys"
  have "MoveItem z arr from to = Some r"
    using assms ys by (simp add: MoveItem_def Let_def Splice_eq splice_start_id ys_def [symmetric] r_def)
  moreover have "TrimSlice r to = ys"
    using TrimSlice_app [of "take (nat to) ys" "arr ! nat from" "drop (nat to) ys"] ys assms
    by (simp add: r_def)
  moreover have "length r = length arr" "r ! nat to = arr ! nat from"
    using ys by (simp_all add: r_def nth_append)
  ultimately show ?thesis using ys(1) by (intro exI [of _ r] conjI) simp_all
qed

theorem MoveItem_moves_witness: "\<exists>r. MoveItem CHR ''x'' ''abcd'' 0 2 = Some r \<and> r ! 2 = CHR ''a''"
  using MoveItem_moves [of 0 "''abcd''" 2 "CHR ''x''"] by auto

end
