(* ===== verification/HttpFallback.thy ===== *)
theory HttpFallback
  imports HttpRequest NetAddr UtilsAlgo "HOL-Library.AList"
begin

text \<open>
  Fallback (\<open>httpLayer/fallback.go\<close>, \<open>fallbackConditionSet.go\<close>, \<open>classicFallback.go\<close>, and
  the part of \<open>iics.go\<close> that asks for it): conditions on path, alpn and sni, a table from
  conditions to targets per server tag, and the search for the most specific condition that a
  connection meets. A Go map is an association list with distinct keys, read by \<open>map_of\<close> and
  written by \<open>AList.update\<close>. The generator of index combinations of the gonum package is the
  parameter \<open>comb\<close>: \<open>comb n k\<close> lists the combinations it yields.
\<close>

section \<open>Condition sets\<close>

definition FallBack_default :: byte where "FallBack_default = 1"
definition Fallback_path :: byte where "Fallback_path = push_bit 1 1"
definition Fallback_alpn :: byte where "Fallback_alpn = push_bit 2 1"
definition Fallback_sni :: byte where "Fallback_sni = push_bit 3 1"
definition fallback_end :: byte where "fallback_end = push_bit 4 1"

definition alpn_http11 :: byte where "alpn_http11 = 1"
definition alpn_http20 :: byte where "alpn_http20 = push_bit 1 1"

definition H11_Str :: string where "H11_Str = ''http/1.1''"
definition H2_Str :: string where "H2_Str = ''h2''"

lemmas fallback_defs [model_defs] =
  FallBack_default_def Fallback_path_def Fallback_alpn_def Fallback_sni_def fallback_end_def
  alpn_http11_def alpn_http20_def H11_Str_def H2_Str_def

definition HasFallbackType :: "byte \<Rightarrow> byte \<Rightarrow> bool" where
  "HasFallbackType ftype b \<longleftrightarrow> 0 < ftype AND b"

definition getfallbacktype_byindex :: "nat \<Rightarrow> byte" where
  "getfallbacktype_byindex i = push_bit (i + 1) 1"

text \<open>The values of \<open>for t := Fallback_path; t < fallback_end; t <<= 1\<close>.\<close>

definition fallback_types :: "byte list" where
  "fallback_types = takeWhile (\<lambda>t. t < fallback_end) (map (\<lambda>i. push_bit i Fallback_path) [0..<8])"

record FallbackConditionSet =
  Path :: string
  Sni :: string
  AlpnMask :: byte

definition no_condition :: FallbackConditionSet where
  "no_condition = \<lparr>Path = [], Sni = [], AlpnMask = 0\<rparr>"

definition GetType :: "FallbackConditionSet \<Rightarrow> byte" where
  "GetType fcs =
     (let r = 0;
          r = (if Path fcs \<noteq> [] then r OR Fallback_path else r);
          r = (if Sni fcs \<noteq> [] then r OR Fallback_sni else r);
          r = (if AlpnMask fcs > 0 then r OR Fallback_alpn else r)
      in if r = 0 then FallBack_default else r)"

text \<open>\<open>GetSub\<close> counts through all values below \<open>fallback_end\<close>.\<close>

definition GetSub :: "FallbackConditionSet \<Rightarrow> byte \<Rightarrow> FallbackConditionSet" where
  "GetSub fcs subType =
     foldl (\<lambda>r thisType.
         if \<not> HasFallbackType subType thisType then r
         else if thisType = Fallback_alpn then r\<lparr>AlpnMask := AlpnMask fcs\<rparr>
         else if thisType = Fallback_path then r\<lparr>Path := Path fcs\<rparr>
         else if thisType = Fallback_sni then r\<lparr>Sni := Sni fcs\<rparr>
         else r)
       no_condition (map word_of_nat [unat Fallback_path..<unat fallback_end])"

definition getSingle :: "FallbackConditionSet \<Rightarrow> byte \<Rightarrow> string \<times> byte" where
  "getSingle fcs t =
     (if t = Fallback_path then (Path fcs, 0)
      else if t = Fallback_sni then (Sni fcs, 0)
      else if t = Fallback_alpn then ([], AlpnMask fcs)
      else ([], 0))"

definition getSingleByInt :: "FallbackConditionSet \<Rightarrow> nat \<Rightarrow> string \<times> byte" where
  "getSingleByInt fcs t =
     (if t = 0 then (Path fcs, 0) else if t = 1 then ([], AlpnMask fcs)
      else if t = 2 then (Sni fcs, 0) else ([], 0))"

definition setSingle :: "byte \<Rightarrow> string \<times> byte \<Rightarrow> FallbackConditionSet \<Rightarrow> FallbackConditionSet" where
  "setSingle t sb fcs =
     (if t = Fallback_sni then fcs\<lparr>Sni := fst sb\<rparr>
      else if t = Fallback_path then fcs\<lparr>Path := fst sb\<rparr>
      else if t = Fallback_alpn then fcs\<lparr>AlpnMask := snd sb\<rparr>
      else fcs)"

definition setSingleByInt :: "nat \<Rightarrow> string \<times> byte \<Rightarrow> FallbackConditionSet \<Rightarrow> FallbackConditionSet" where
  "setSingleByInt t sb fcs =
     (if t = 0 then fcs\<lparr>Path := fst sb\<rparr> else if t = 1 then fcs\<lparr>AlpnMask := snd sb\<rparr>
      else if t = 2 then fcs\<lparr>Sni := fst sb\<rparr> else fcs)"

definition extractSingle :: "FallbackConditionSet \<Rightarrow> byte \<Rightarrow> FallbackConditionSet" where
  "extractSingle fcs t = setSingle t (getSingle fcs t) no_condition"

definition alltypes :: "FallbackConditionSet \<Rightarrow> byte list" where
  "alltypes fcs = filter (HasFallbackType (GetType fcs)) fallback_types"

definition GetAllSubSets :: "FallbackConditionSet \<Rightarrow> FallbackConditionSet list" where
  "GetAllSubSets fcs =
     (let ts = alltypes fcs in
      if length ts \<le> 1 then []
      else if length ts = 2 then [extractSingle fcs (ts ! 0), extractSingle fcs (ts ! 1)]
      else map (\<lambda>sList. foldl (\<lambda>r t. setSingle t (getSingle fcs t) r) no_condition sList)
             (AllSubSets_improve1 ts))"

section \<open>Searching a table\<close>

record FallbackResult =
  fr_Addr :: Addr
  Xver :: int

type_synonym fallback_table = "(FallbackConditionSet \<times> FallbackResult) list"

text \<open>The condition set for a combination of indices; \<open>None\<close> where a type cannot occur.\<close>

fun curSet :: "byte \<Rightarrow> FallbackConditionSet \<Rightarrow> nat list \<Rightarrow> FallbackConditionSet \<Rightarrow> FallbackConditionSet option" where
  "curSet tmask fcs [] cur = Some cur"
| "curSet tmask fcs (typeIndex # is) cur =
     (if \<not> HasFallbackType tmask (getfallbacktype_byindex typeIndex) then None
      else curSet tmask fcs is (setSingleByInt typeIndex (getSingleByInt fcs typeIndex) cur))"

fun test_combinations ::
    "byte \<Rightarrow> fallback_table \<Rightarrow> FallbackConditionSet \<Rightarrow> nat list list \<Rightarrow> FallbackResult option" where
  "test_combinations tmask tab fcs [] = None"
| "test_combinations tmask tab fcs (c # cs) =
     (case curSet tmask fcs c no_condition of
        None \<Rightarrow> test_combinations tmask tab fcs cs
      | Some cur \<Rightarrow>
          (case map_of tab cur of
             Some r \<Rightarrow> Some r
           | None \<Rightarrow> test_combinations tmask tab fcs cs))"

fun test_sizes ::
    "(nat \<Rightarrow> nat \<Rightarrow> nat list list) \<Rightarrow> byte \<Rightarrow> fallback_table \<Rightarrow> FallbackConditionSet \<Rightarrow> nat \<Rightarrow> nat
     \<Rightarrow> FallbackResult option" where
  "test_sizes comb tmask tab fcs n 0 = None"
| "test_sizes comb tmask tab fcs n (Suc k) =
     (case test_combinations tmask tab fcs (comb n (Suc k)) of
        Some r \<Rightarrow> Some r
      | None \<Rightarrow> test_sizes comb tmask tab fcs n k)"

definition TestAllSubSets ::
    "(nat \<Rightarrow> nat \<Rightarrow> nat list list) \<Rightarrow> byte \<Rightarrow> fallback_table \<Rightarrow> FallbackConditionSet
     \<Rightarrow> FallbackResult option" where
  "TestAllSubSets comb allsupportedTypeMask theMap fcs =
     (case map_of theMap fcs of
        Some r \<Rightarrow> Some r
      | None \<Rightarrow>
          (let ts = alltypes fcs in
           if length ts \<le> 1 then None
           else if length ts = 2 then
             (case map_of theMap (extractSingle fcs (ts ! 0)) of
                Some r \<Rightarrow> Some r
              | None \<Rightarrow> map_of theMap (extractSingle fcs (ts ! 1)))
           else test_sizes comb allsupportedTypeMask theMap fcs (length ts) (length ts - 1)))"

section \<open>ClassicFallback\<close>

record ClassicFallback =
  Default :: "FallbackResult option"
  supportedTypeMask :: byte
  Map :: "(string \<times> fallback_table) list"

definition NewClassicFallback :: ClassicFallback where
  "NewClassicFallback = \<lparr>Default = None, supportedTypeMask = 0, Map = [([], [])]\<rparr>"

text \<open>One write into the table of a tag, which is made if it is not there.\<close>

definition insert_for_tag ::
    "FallbackConditionSet \<Rightarrow> FallbackResult \<Rightarrow> string \<Rightarrow> (string \<times> fallback_table) list
     \<Rightarrow> (string \<times> fallback_table) list" where
  "insert_for_tag condition result forServerTag m =
     (let realMap = (case map_of m forServerTag of None \<Rightarrow> [] | Some t \<Rightarrow> t)
      in AList.update forServerTag (AList.update condition result realMap) m)"

definition InsertFallbackConditionSet ::
    "FallbackConditionSet \<Rightarrow> string list \<Rightarrow> Addr \<Rightarrow> int \<Rightarrow> ClassicFallback \<Rightarrow> ClassicFallback" where
  "InsertFallbackConditionSet condition forServerTags addr xver cfb =
     (let ftype = GetType condition; result = \<lparr>fr_Addr = addr, Xver = xver\<rparr> in
      if ftype = FallBack_default \<and> forServerTags = [] then cfb\<lparr>Default := Some result\<rparr>
      else
        let cfb = cfb\<lparr>supportedTypeMask := supportedTypeMask cfb OR ftype\<rparr> in
        if forServerTags = [] then cfb\<lparr>Map := insert_for_tag condition result [] (Map cfb)\<rparr>
        else cfb\<lparr>Map := foldl (\<lambda>m tag. insert_for_tag condition result tag m) (Map cfb) forServerTags\<rparr>)"

text \<open>\<open>fc_Dest\<close> is what \<open>netLayer.NewAddrFromAny\<close> made of the destination, \<open>None\<close> for an error.\<close>

record FallbackConf =
  FromTag :: "string list"
  fc_Xver :: int
  fc_Dest :: "Addr option"
  fc_Path :: string
  fc_Sni :: string
  fc_Alpn :: "string list"

definition alpn_mask_of :: "string list \<Rightarrow> byte" where
  "alpn_mask_of alpn =
     (if length alpn > 2 then 0
      else foldl (\<lambda>aMask v. if v = H2_Str then aMask OR alpn_http20
                     else if v = H11_Str then aMask OR alpn_http11 else aMask) 0 alpn)"

definition conf_condition :: "FallbackConf \<Rightarrow> FallbackConditionSet" where
  "conf_condition fc = \<lparr>Path = fc_Path fc, Sni = fc_Sni fc, AlpnMask = alpn_mask_of (fc_Alpn fc)\<rparr>"

fun load_fallbacks :: "FallbackConf list \<Rightarrow> ClassicFallback \<Rightarrow> ClassicFallback option" where
  "load_fallbacks [] cfb = Some cfb"
| "load_fallbacks (fc # fcl) cfb =
     (case fc_Dest fc of
        None \<Rightarrow> None
      | Some addr \<Rightarrow>
          load_fallbacks fcl (InsertFallbackConditionSet (conf_condition fc) (FromTag fc) addr (fc_Xver fc) cfb))"

definition NewClassicFallbackFromConfList :: "FallbackConf list \<Rightarrow> ClassicFallback option" where
  "NewClassicFallbackFromConfList fcl = load_fallbacks fcl NewClassicFallback"

text \<open>The loop that assigns the parameters to the types asked for, in order.\<close>

fun read_params :: "byte \<Rightarrow> byte list \<Rightarrow> string list \<Rightarrow> FallbackConditionSet \<Rightarrow> FallbackConditionSet" where
  "read_params ftype [] ss cd = cd"
| "read_params ftype (thisType # ts) [] cd = cd"
| "read_params ftype (thisType # ts) (param # ss) cd =
     (if \<not> HasFallbackType ftype thisType then read_params ftype ts (param # ss) cd
      else if param = [] then read_params ftype ts ss cd
      else if thisType = Fallback_alpn then
        read_params ftype ts ss
          (cd\<lparr>AlpnMask := (let aMask = 0;
               aMask = (if param = H11_Str then aMask OR alpn_http11 else aMask)
             in if param = H2_Str then aMask OR alpn_http20 else aMask)\<rparr>)
      else if thisType = Fallback_path then read_params ftype ts ss (cd\<lparr>Path := param\<rparr>)
      else if thisType = Fallback_sni then read_params ftype ts ss (cd\<lparr>Sni := param\<rparr>)
      else read_params ftype ts ss cd)"

definition GetFallback ::
    "(nat \<Rightarrow> nat \<Rightarrow> nat list list) \<Rightarrow> ClassicFallback \<Rightarrow> string \<Rightarrow> byte \<Rightarrow> string list
     \<Rightarrow> FallbackResult option" where
  "GetFallback comb cfb fromServerTag ftype ss =
     (if ftype = FallBack_default \<and> fromServerTag = [] then Default cfb
      else if \<not> HasFallbackType (supportedTypeMask cfb) ftype then Default cfb
      else
        let cd = read_params ftype fallback_types ss no_condition;
            realMap = (case map_of (Map cfb) fromServerTag of
                         Some t \<Rightarrow> t
                       | None \<Rightarrow> (case map_of (Map cfb) [] of Some t \<Rightarrow> t | None \<Rightarrow> []));
            result = (if realMap \<noteq> [] then TestAllSubSets comb (supportedTypeMask cfb) realMap cd else None)
        in if result = None \<and> ftype = Fallback_path then Default cfb else result)"

section \<open>The fallback of a connection\<close>

text \<open>What \<open>iics.go\<close> knows of a connection that is to fall back. \<open>None\<close> in \<open>iics_tls\<close> is a
  connection without TLS; otherwise it is the negotiated alpn and the sni.\<close>

record iics =
  iics_fallback :: "ClassicFallback option"
  fallbackRequestPath :: string
  fallbackFirstBuffer :: "bytes option"
  iics_tls :: "(string \<times> string) option"
  iics_tag :: string
  iics_default :: "Addr option"

definition fallback_params :: "iics \<Rightarrow> (byte \<times> string list) option" where
  "fallback_params x =
     do {
       path \<leftarrow> (case fallbackFirstBuffer x of
           Some buf \<Rightarrow>
             if fallbackRequestPath x = [] then
               do { r \<leftarrow> ParseH1Request buf False;
                    Some (if h1_failreason r \<noteq> 0 then [] else h1_path r) }
             else Some (fallbackRequestPath x)
         | None \<Rightarrow> Some (fallbackRequestPath x));
       Some (let (t, ps) = (if path \<noteq> [] then (Fallback_path, [path]) else (0, [])) in
             case iics_tls x of
               None \<Rightarrow> (t, ps)
             | Some (alpn, sni) \<Rightarrow>
                 let (t, ps) = (if alpn \<noteq> [] then (t OR Fallback_alpn, ps @ [alpn]) else (t, ps))
                 in if sni \<noteq> [] then (t OR Fallback_sni, ps @ [sni]) else (t, ps)) }"

text \<open>The target and the PROXY protocol version; \<open>-1\<close> is no fallback. \<open>None\<close> would be a panic.\<close>

definition checkfallback ::
    "(nat \<Rightarrow> nat \<Rightarrow> nat list list) \<Rightarrow> iics \<Rightarrow> (Addr \<times> int) option" where
  "checkfallback comb x =
     (let otherwise = (case iics_default x of Some a \<Rightarrow> (a, 0) | None \<Rightarrow> (zero_Addr, -1)) in
      case iics_fallback x of
        None \<Rightarrow> Some otherwise
      | Some mf \<Rightarrow>
          do {
            (ftype, ps) \<leftarrow> fallback_params x;
            Some (case (case GetFallback comb mf (iics_tag x) ftype ps of
                          Some r \<Rightarrow> Some r
                        | None \<Rightarrow> GetFallback comb mf [] ftype ps) of
                    Some r \<Rightarrow> (fr_Addr r, Xver r)
                  | None \<Rightarrow> otherwise) })"

text \<open>\<open>extractFirstBufFromErr\<close>: the buffer to replay, if there is one. The arguments are whether
  the server or its header layer supports fallback, the state of the header layer
  (\<open>headerPass\<close>, \<open>wholeBuffer\<close>), and the error.\<close>

definition extractFirstBufFromErr :: "bool \<Rightarrow> (bool \<times> bytes option) option \<Rightarrow> goerr \<Rightarrow> bytes option" where
  "extractFirstBufFromErr canFallback heapObj err =
     (if \<not> canFallback then None
      else case err of
        ErrBuffer e buf \<Rightarrow> Some buf
      | _ \<Rightarrow> (case heapObj of
                Some (True, Some wholeBuffer) \<Rightarrow> Some wholeBuffer
              | _ \<Rightarrow> None))"

section \<open>Lemmas on condition sets\<close>

lemma HasFallbackType_bit: "i < 8 \<Longrightarrow> HasFallbackType w (push_bit i 1) \<longleftrightarrow> bit w i"
  by (simp add: HasFallbackType_def word_gt_0 push_bit_eq_mult and_exp_eq_0_iff_not_bit)

lemma Has_types:
  "HasFallbackType w Fallback_path \<longleftrightarrow> bit w (Suc 0)" "HasFallbackType w Fallback_alpn \<longleftrightarrow> bit w 2"
  "HasFallbackType w Fallback_sni \<longleftrightarrow> bit w 3"
  using HasFallbackType_bit [of "Suc 0" w] HasFallbackType_bit [of 2 w] HasFallbackType_bit [of 3 w]
  by (simp_all add: Fallback_path_def Fallback_alpn_def Fallback_sni_def)

lemma fallback_types_eq: "fallback_types = [Fallback_path, Fallback_alpn, Fallback_sni]"
  by (simp add: fallback_types_def fallback_defs upt_rec)

lemma types_distinct [simp]: "Fallback_path \<noteq> Fallback_alpn" "Fallback_alpn \<noteq> Fallback_path"
  "Fallback_path \<noteq> Fallback_sni" "Fallback_sni \<noteq> Fallback_path" "Fallback_alpn \<noteq> Fallback_sni"
  "Fallback_sni \<noteq> Fallback_alpn"
  by (simp_all add: fallback_defs)

lemma GetType_bits:
  "bit (GetType c) (Suc 0) \<longleftrightarrow> Path c \<noteq> []" "bit (GetType c) 2 \<longleftrightarrow> AlpnMask c \<noteq> 0"
  "bit (GetType c) 3 \<longleftrightarrow> Sni c \<noteq> []"
  by (simp_all add: GetType_def Let_def fallback_defs bit_simps word_gt_0)

lemma alltypes_eq:
  "alltypes f = (if Path f \<noteq> [] then [Fallback_path] else []) @ (if AlpnMask f \<noteq> 0 then [Fallback_alpn] else [])
     @ (if Sni f \<noteq> [] then [Fallback_sni] else [])"
  by (simp add: alltypes_def fallback_types_eq Has_types GetType_bits)

text \<open>A condition that asks for less than \<open>f\<close>, and how much it asks for.\<close>

definition sub_condition :: "FallbackConditionSet \<Rightarrow> FallbackConditionSet \<Rightarrow> bool" where
  "sub_condition c f \<longleftrightarrow> (Path c = [] \<or> Path c = Path f) \<and> (Sni c = [] \<or> Sni c = Sni f)
     \<and> (AlpnMask c = 0 \<or> AlpnMask c = AlpnMask f)"

definition cond_size :: "FallbackConditionSet \<Rightarrow> nat" where
  "cond_size c = length (alltypes c)"

definition sel :: "FallbackConditionSet \<Rightarrow> bool \<Rightarrow> bool \<Rightarrow> bool \<Rightarrow> FallbackConditionSet" where
  "sel f p a s = \<lparr>Path = if p then Path f else [], Sni = if s then Sni f else [],
                  AlpnMask = if a then AlpnMask f else 0\<rparr>"

lemma sub_condition_sel: "sub_condition c f \<Longrightarrow> c = sel f (Path c \<noteq> []) (AlpnMask c \<noteq> 0) (Sni c \<noteq> [])"
  by (auto simp: sub_condition_def sel_def intro!: FallbackConditionSet.equality)

lemma sub_condition_refl [simp]: "sub_condition f f"
  by (simp add: sub_condition_def)

lemma sub_sel [simp]: "sub_condition (sel f p a s) f"
  by (simp add: sub_condition_def sel_def)

lemma no_condition_iff: "c = no_condition \<longleftrightarrow> Path c = [] \<and> Sni c = [] \<and> AlpnMask c = 0"
  by (auto simp: no_condition_def intro!: FallbackConditionSet.equality)

lemma cond_size_sel: "cond_size (sel f p a s) =
    of_bool (p \<and> Path f \<noteq> []) + of_bool (a \<and> AlpnMask f \<noteq> 0) + of_bool (s \<and> Sni f \<noteq> [])"
  by (simp add: cond_size_def alltypes_eq sel_def)

lemma cond_size_mono: "sub_condition c f \<Longrightarrow> cond_size c \<le> cond_size f"
  by (auto simp: cond_size_def alltypes_eq sub_condition_def)

lemma cond_size_eq: "sub_condition c f \<Longrightarrow> cond_size c = cond_size f \<Longrightarrow> c = f"
  by (auto simp: cond_size_def alltypes_eq sub_condition_def intro!: FallbackConditionSet.equality split: if_splits)

lemma cond_size_0: "cond_size c = 0 \<longleftrightarrow> c = no_condition"
  by (simp add: cond_size_def alltypes_eq no_condition_iff)

lemma extractSingle_eq:
  "extractSingle f Fallback_path = sel f True False False"
  "extractSingle f Fallback_alpn = sel f False True False"
  "extractSingle f Fallback_sni = sel f False False True"
  by (simp_all add: extractSingle_def setSingle_def getSingle_def sel_def no_condition_def)

section \<open>The search finds a most specific condition\<close>

text \<open>All the types of a condition are in the mask.\<close>

definition covered :: "byte \<Rightarrow> FallbackConditionSet \<Rightarrow> bool" where
  "covered tmask c \<longleftrightarrow> (Path c \<noteq> [] \<longrightarrow> HasFallbackType tmask Fallback_path)
     \<and> (AlpnMask c \<noteq> 0 \<longrightarrow> HasFallbackType tmask Fallback_alpn)
     \<and> (Sni c \<noteq> [] \<longrightarrow> HasFallbackType tmask Fallback_sni)"

text \<open>The two generators the code makes.\<close>

definition combin_ok :: "(nat \<Rightarrow> nat \<Rightarrow> nat list list) \<Rightarrow> bool" where
  "combin_ok comb \<longleftrightarrow> set (comb 3 1) = {[0], [1], [2]} \<and> set (comb 3 2) = {[0, 1], [0, 2], [1, 2]}"

definition best_match :: "(FallbackConditionSet \<Rightarrow> FallbackResult option) \<Rightarrow> FallbackConditionSet \<Rightarrow> FallbackResult option \<Rightarrow> bool" where
  "best_match look f res \<longleftrightarrow>
     (case res of
        None \<Rightarrow> \<forall>c. sub_condition c f \<longrightarrow> c \<noteq> no_condition \<longrightarrow> look c = None
      | Some r \<Rightarrow> \<exists>c. look c = Some r \<and> sub_condition c f
          \<and> (\<forall>c'. sub_condition c' f \<longrightarrow> c' \<noteq> no_condition \<longrightarrow> look c' \<noteq> None
               \<longrightarrow> cond_size c' \<le> cond_size c))"

lemma byindex: "getfallbacktype_byindex 0 = Fallback_path" "getfallbacktype_byindex (Suc 0) = Fallback_alpn"
  "getfallbacktype_byindex 2 = Fallback_sni"
  by (simp_all add: getfallbacktype_byindex_def fallback_defs)

text \<open>What the three-type search sees at one combination.\<close>

definition combo_sel :: "FallbackConditionSet \<Rightarrow> nat list \<Rightarrow> FallbackConditionSet" where
  "combo_sel f c = sel f (0 \<in> set c) (1 \<in> set c) (2 \<in> set c)"

lemma curSet_combo:
  assumes "c \<in> {[0], [1], [2], [0, 1], [0, 2], [1, 2]}" "Path f \<noteq> []" "AlpnMask f \<noteq> 0" "Sni f \<noteq> []"
  shows "curSet tmask f c no_condition =
    (if covered tmask (combo_sel f c) then Some (combo_sel f c) else None)"
  using assms
  by (elim insertE emptyE)
    (simp_all add: byindex combo_sel_def sel_def covered_def setSingleByInt_def getSingleByInt_def no_condition_def)

lemma test_combinations_combo:
  assumes "\<forall>c \<in> set cs. c \<in> {[0], [1], [2], [0, 1], [0, 2], [1, 2]}"
    and "Path f \<noteq> []" "AlpnMask f \<noteq> 0" "Sni f \<noteq> []"
    and cov: "\<forall>c. map_of tab c \<noteq> None \<longrightarrow> covered tmask c"
  shows "case test_combinations tmask tab f cs of
      None \<Rightarrow> \<forall>c \<in> set cs. map_of tab (combo_sel f c) = None
    | Some r \<Rightarrow> \<exists>c \<in> set cs. map_of tab (combo_sel f c) = Some r"
  using assms(1)
proof (induction cs)
  case (Cons c cs)
  then have "curSet tmask f c no_condition =
    (if covered tmask (combo_sel f c) then Some (combo_sel f c) else None)"
    by (intro curSet_combo assms(2-4)) simp
  moreover have "map_of tab (combo_sel f c) = None" if "\<not> covered tmask (combo_sel f c)"
    using cov that by blast
  ultimately show ?case using Cons by (auto split: option.splits)
qed simp

lemma sub_condition_three:
  assumes "sub_condition c f" "c \<noteq> no_condition" "c \<noteq> f"
  shows "c \<in> combo_sel f ` {[0], [1], [2]} \<or> c \<in> combo_sel f ` {[0, 1], [0, 2], [1, 2]}"
  using assms sub_condition_sel [OF assms(1)]
  by (cases "Path c = []"; cases "AlpnMask c = 0"; cases "Sni c = []")
    (simp_all add: combo_sel_def no_condition_iff sub_condition_def FallbackConditionSet.equality)

lemma combo_size:
  assumes "Path f \<noteq> []" "AlpnMask f \<noteq> 0" "Sni f \<noteq> []"
  shows "c \<in> {[0], [1], [2]} \<Longrightarrow> cond_size (combo_sel f c) = 1"
    "c \<in> {[0, 1], [0, 2], [1, 2]} \<Longrightarrow> cond_size (combo_sel f c) = 2" "cond_size f = 3"
  using assms by (auto simp: combo_sel_def cond_size_sel) (simp add: cond_size_def alltypes_eq)

lemma best_match_self: "map_of tab f = Some r \<Longrightarrow> best_match (map_of tab) f (Some r)"
  by (auto simp: best_match_def intro!: exI [of _ f] cond_size_mono)

lemma test_sizes_best:
  assumes comb: "combin_ok comb" and cov: "\<forall>c. map_of tab c \<noteq> None \<longrightarrow> covered tmask c"
    and f: "Path f \<noteq> []" "AlpnMask f \<noteq> 0" "Sni f \<noteq> []" and none: "map_of tab f = None"
  shows "best_match (map_of tab) f (test_sizes comb tmask tab f 3 2)"
proof -
  note combs = comb [unfolded combin_ok_def]
  have pairs: "case test_combinations tmask tab f (comb 3 2) of
      None \<Rightarrow> \<forall>c \<in> set (comb 3 2). map_of tab (combo_sel f c) = None
    | Some r \<Rightarrow> \<exists>c \<in> set (comb 3 2). map_of tab (combo_sel f c) = Some r"
    by (rule test_combinations_combo [OF _ f cov]) (use combs in auto)
  have singles: "case test_combinations tmask tab f (comb 3 1) of
      None \<Rightarrow> \<forall>c \<in> set (comb 3 1). map_of tab (combo_sel f c) = None
    | Some r \<Rightarrow> \<exists>c \<in> set (comb 3 1). map_of tab (combo_sel f c) = Some r"
    by (rule test_combinations_combo [OF _ f cov]) (use combs in auto)
  have three: "c \<in> combo_sel f ` set (comb 3 1) \<or> c \<in> combo_sel f ` set (comb 3 2)"
    if "sub_condition c f" "c \<noteq> no_condition" "map_of tab c \<noteq> None" for c
  proof -
    have "c \<noteq> f" using that(3) none by auto
    from sub_condition_three [OF that(1,2) this] show ?thesis
      unfolding conjunct1 [OF combs] conjunct2 [OF combs] .
  qed
  have s1: "cond_size c = 1" if "c \<in> combo_sel f ` set (comb 3 1)" for c
    using that unfolding conjunct1 [OF combs] by (elim imageE) (simp only: combo_size(1) [OF f])
  have s2: "cond_size c = 2" if "c \<in> combo_sel f ` set (comb 3 2)" for c
    using that unfolding conjunct2 [OF combs] by (elim imageE) (simp only: combo_size(2) [OF f])
  have le: "cond_size c \<le> 2" if "sub_condition c f" "c \<noteq> no_condition" "map_of tab c \<noteq> None" for c
    using three [OF that] s1 [of c] s2 [of c] by linarith
  have sizes: "test_sizes comb tmask tab f 3 2 = (case test_combinations tmask tab f (comb 3 2) of
      Some r \<Rightarrow> Some r | None \<Rightarrow> test_combinations tmask tab f (comb 3 1))"
    by (simp add: eval_nat_numeral split: option.split)
  show ?thesis
  proof (cases "test_combinations tmask tab f (comb 3 2)")
    case (Some r)
    with pairs obtain c where c: "c \<in> set (comb 3 2)" "map_of tab (combo_sel f c) = Some r" by auto
    then have "cond_size (combo_sel f c) = 2" by (intro s2) simp
    with c le show ?thesis
      by (auto simp: sizes Some best_match_def combo_sel_def intro!: exI [of _ "combo_sel f c"])
  next
    case None
    with pairs have no2: "map_of tab c = None" if "c \<in> combo_sel f ` set (comb 3 2)" for c
      using that by auto
    show ?thesis
    proof (cases "test_combinations tmask tab f (comb 3 1)")
      case (Some r)
      with singles obtain c where c: "c \<in> set (comb 3 1)" "map_of tab (combo_sel f c) = Some r" by auto
      then have "cond_size (combo_sel f c) = 1" by (intro s1) simp
      moreover have "cond_size c' \<le> 1"
        if "sub_condition c' f" "c' \<noteq> no_condition" "map_of tab c' \<noteq> None" for c'
        using three [OF that] no2 [of c'] that(3) s1 [of c'] by linarith
      moreover have "test_sizes comb tmask tab f 3 2 = Some r" unfolding sizes None Some by simp
      ultimately show ?thesis using c(2)
        by (auto simp: best_match_def combo_sel_def intro!: exI [of _ "combo_sel f c"])
    next
      case none1: None
      with singles have no1: "map_of tab c = None" if "c \<in> combo_sel f ` set (comb 3 1)" for c
        using that by auto
      have "map_of tab c = None" if "sub_condition c f" "c \<noteq> no_condition" for c
      proof (rule ccontr)
        assume ne: "map_of tab c \<noteq> None"
        from three [OF that ne] no1 no2 ne show False by (elim disjE) simp_all
      qed
      moreover have "test_sizes comb tmask tab f 3 2 = None" unfolding sizes None none1 by simp
      ultimately show ?thesis by (simp add: best_match_def)
    qed
  qed
qed

lemma TestAllSubSets_best:
  assumes "combin_ok comb" "\<forall>c. map_of tab c \<noteq> None \<longrightarrow> covered tmask c"
  shows "best_match (map_of tab) f (TestAllSubSets comb tmask tab f)"
proof (cases "map_of tab f")
  case (Some r)
  then show ?thesis using best_match_self by (simp add: TestAllSubSets_def)
next
  case none: None
  have proper: "cond_size c < cond_size f" if "sub_condition c f" "map_of tab c \<noteq> None" for c
    using cond_size_mono [OF that(1)] cond_size_eq [OF that(1)] that(2) none by (metis le_neq_implies_less)
  consider (small) "cond_size f \<le> 1" | (two) "cond_size f = 2" | (three) "cond_size f = 3"
  proof -
    have "cond_size f \<le> 3" by (simp add: cond_size_def alltypes_eq)
    then show thesis using that by linarith
  qed
  then show ?thesis
  proof cases
    case small
    have "map_of tab c = None" if "sub_condition c f" "c \<noteq> no_condition" for c
      using proper [OF that(1)] small cond_size_0 [of c] that(2) by (cases "map_of tab c") auto
    with small none show ?thesis
      by (simp add: TestAllSubSets_def cond_size_def best_match_def)
  next
    case two
    then obtain t0 t1 where ts: "alltypes f = [t0, t1]"
      by (auto simp: cond_size_def numeral_2_eq_2 length_Suc_conv)
    have one: "c = extractSingle f t0 \<or> c = extractSingle f t1"
      if "sub_condition c f" "c \<noteq> no_condition" "c \<noteq> f" for c
      using sub_condition_sel [OF that(1)] that ts
      by (cases "Path c = []"; cases "AlpnMask c = 0"; cases "Sni c = []")
        (auto simp: alltypes_eq extractSingle_eq sel_def no_condition_iff sub_condition_def
          FallbackConditionSet.equality split: if_splits)
    have size: "cond_size (extractSingle f t0) = 1" "cond_size (extractSingle f t1) = 1"
      "sub_condition (extractSingle f t0) f" "sub_condition (extractSingle f t1) f"
      using ts by (auto simp: alltypes_eq extractSingle_eq cond_size_sel split: if_splits)
    have le: "cond_size c \<le> 1" if "sub_condition c f" "map_of tab c \<noteq> None" for c
      using proper [OF that] two by simp
    show ?thesis
      using one size le none
      by (auto simp: TestAllSubSets_def ts best_match_def Let_def split: option.splits) 
  next
    case three
    then have f: "Path f \<noteq> []" "AlpnMask f \<noteq> 0" "Sni f \<noteq> []"
      by (auto simp: cond_size_def alltypes_eq split: if_splits)
    from test_sizes_best [OF assms f none] three none show ?thesis
      by (simp add: TestAllSubSets_def cond_size_def)
  qed
qed

section \<open>What the configuration puts into the tables\<close>

definition table_lookup :: "(string \<times> fallback_table) list \<Rightarrow> string \<Rightarrow> FallbackConditionSet \<Rightarrow> FallbackResult option" where
  "table_lookup m tag c = (case map_of m tag of None \<Rightarrow> None | Some t \<Rightarrow> map_of t c)"

lemma map_of_insert_for_tag:
  "map_of (insert_for_tag c r tag m) tag' =
    (if tag' = tag then Some (AList.update c r (case map_of m tag of None \<Rightarrow> [] | Some t \<Rightarrow> t)) else map_of m tag')"
  by (simp add: insert_for_tag_def Let_def update_conv')

lemma table_lookup_insert [simp]:
  "table_lookup (insert_for_tag c r tag m) tag' c' =
    (if tag' = tag \<and> c' = c then Some r else table_lookup m tag' c')"
  by (auto simp: table_lookup_def map_of_insert_for_tag update_conv' split: option.splits)

lemma table_lookup_insert_all [simp]:
  "table_lookup (foldl (\<lambda>m tag. insert_for_tag c r tag m) m tags) tag' c' =
    (if tag' \<in> set tags \<and> c' = c then Some r else table_lookup m tag' c')"
  by (induction tags arbitrary: m) auto

lemma dom_insert_all:
  "map_of (foldl (\<lambda>m tag. insert_for_tag c r tag m) m tags) tag' = None \<longleftrightarrow>
    tag' \<notin> set tags \<and> map_of m tag' = None"
  by (induction tags arbitrary: m) (auto simp: map_of_insert_for_tag)

lemma GetType_default: "GetType c = FallBack_default \<longleftrightarrow> c = no_condition"
proof
  assume "GetType c = FallBack_default"
  then have "\<not> bit (GetType c) (Suc 0)" "\<not> bit (GetType c) 2" "\<not> bit (GetType c) 3"
    by (simp_all add: FallBack_default_def bit_1_iff)
  then show "c = no_condition" by (simp add: GetType_bits no_condition_iff)
qed (simp add: GetType_def no_condition_def)

text \<open>The rule for a tag and a condition: the last entry that states it.\<close>

definition conf_applies :: "FallbackConf \<Rightarrow> string \<Rightarrow> FallbackConditionSet \<Rightarrow> bool" where
  "conf_applies fc tag c \<longleftrightarrow> conf_condition fc = c \<and>
     (tag \<in> set (FromTag fc) \<or> FromTag fc = [] \<and> tag = [] \<and> c \<noteq> no_condition)"

definition conf_result :: "FallbackConf \<Rightarrow> FallbackResult" where
  "conf_result fc = \<lparr>fr_Addr = the (fc_Dest fc), Xver = fc_Xver fc\<rparr>"

definition fallback_rule :: "FallbackConf list \<Rightarrow> string \<Rightarrow> FallbackConditionSet \<Rightarrow> FallbackResult option" where
  "fallback_rule fcl tag c = map_option conf_result (find (\<lambda>fc. conf_applies fc tag c) (rev fcl))"

definition default_rule :: "FallbackConf list \<Rightarrow> FallbackResult option" where
  "default_rule fcl = map_option conf_result
     (find (\<lambda>fc. FromTag fc = [] \<and> conf_condition fc = no_condition) (rev fcl))"

lemma find_append: "find P (xs @ ys) = (case find P xs of None \<Rightarrow> find P ys | Some x \<Rightarrow> Some x)"
  by (induction xs) auto

lemma load_fallbacks_tables:
  assumes "load_fallbacks fcl cfb = Some cfb'"
  shows "table_lookup (Map cfb') tag c =
      (case find (\<lambda>fc. conf_applies fc tag c) (rev fcl) of
         Some fc \<Rightarrow> Some (conf_result fc) | None \<Rightarrow> table_lookup (Map cfb) tag c)"
    and "Default cfb' = (case find (\<lambda>fc. FromTag fc = [] \<and> conf_condition fc = no_condition) (rev fcl) of
         Some fc \<Rightarrow> Some (conf_result fc) | None \<Rightarrow> Default cfb)"
    and "map_of (Map cfb') tag = None \<longleftrightarrow> map_of (Map cfb) tag = None \<and> (\<forall>fc \<in> set fcl. tag \<notin> set (FromTag fc)
         \<and> (tag = [] \<longrightarrow> FromTag fc = [] \<longrightarrow> conf_condition fc = no_condition))"
  using assms
proof (induction fcl arbitrary: cfb)
  case (Cons fc fcl)
  {
    case 1
    then obtain addr where "fc_Dest fc = Some addr" by (auto split: option.splits)
    with 1 Cons.IH(1) show ?case
      by (auto simp: find_append InsertFallbackConditionSet_def Let_def GetType_default conf_applies_def
          conf_result_def split: option.splits)
  next
    case 2
    then obtain addr where "fc_Dest fc = Some addr" by (auto split: option.splits)
    with 2 Cons.IH(2) show ?case
      by (auto simp: find_append InsertFallbackConditionSet_def Let_def GetType_default
          conf_result_def split: option.splits)
  next
    case 3
    then obtain addr where "fc_Dest fc = Some addr" by (auto split: option.splits)
    with 3 Cons.IH(3) show ?case
      by (auto simp: InsertFallbackConditionSet_def Let_def GetType_default dom_insert_all map_of_insert_for_tag
          split: option.splits if_splits)
  }
qed simp_all

lemma conf_tables:
  assumes "NewClassicFallbackFromConfList fcl = Some cfb"
  shows "table_lookup (Map cfb) tag c = fallback_rule fcl tag c" "Default cfb = default_rule fcl"
    "map_of (Map cfb) tag = None \<longleftrightarrow> tag \<noteq> [] \<and> (\<forall>fc \<in> set fcl. tag \<notin> set (FromTag fc))"
  using load_fallbacks_tables [OF assms [unfolded NewClassicFallbackFromConfList_def]]
  by (auto simp: NewClassicFallback_def table_lookup_def fallback_rule_def default_rule_def split: option.splits)

section \<open>The mask covers the tables\<close>

definition fallback_inv :: "ClassicFallback \<Rightarrow> bool" where
  "fallback_inv cfb \<longleftrightarrow> (\<forall>tag c. table_lookup (Map cfb) tag c \<noteq> None \<longrightarrow> covered (supportedTypeMask cfb) c)"

lemma covered_or: "covered w c \<Longrightarrow> covered (w OR v) c" "covered (w OR GetType c) c"
  by (auto simp: covered_def Has_types bit_or_iff GetType_bits)

lemma fallback_inv_insert: "fallback_inv cfb \<Longrightarrow> fallback_inv (InsertFallbackConditionSet c tags addr xver cfb)"
  by (auto simp: fallback_inv_def InsertFallbackConditionSet_def Let_def covered_or split: if_splits)

lemma fallback_inv_load: "load_fallbacks fcl cfb = Some cfb' \<Longrightarrow> fallback_inv cfb \<Longrightarrow> fallback_inv cfb'"
  by (induction fcl arbitrary: cfb) (auto split: option.splits intro: fallback_inv_insert)

lemma fallback_inv_conf: "NewClassicFallbackFromConfList fcl = Some cfb \<Longrightarrow> fallback_inv cfb"
  unfolding NewClassicFallbackFromConfList_def
  by (erule fallback_inv_load) (simp add: fallback_inv_def NewClassicFallback_def table_lookup_def)

section \<open>Requests\<close>

text \<open>The type mask and the parameters for a path, an alpn and a server name, empty ones left out.\<close>

definition ask :: "string \<Rightarrow> string \<Rightarrow> string \<Rightarrow> byte \<times> string list" where
  "ask p a s = ((if p \<noteq> [] then Fallback_path else 0) OR (if a \<noteq> [] then Fallback_alpn else 0)
      OR (if s \<noteq> [] then Fallback_sni else 0),
    filter (\<lambda>x. x \<noteq> []) [p, a, s])"

definition request_of :: "string \<Rightarrow> string \<Rightarrow> string \<Rightarrow> FallbackConditionSet" where
  "request_of p a s = \<lparr>Path = p, Sni = s,
     AlpnMask = (if a = H11_Str then alpn_http11 else if a = H2_Str then alpn_http20 else 0)\<rparr>"

lemma ask_bits:
  "HasFallbackType (fst (ask p a s)) Fallback_path \<longleftrightarrow> p \<noteq> []"
  "HasFallbackType (fst (ask p a s)) Fallback_alpn \<longleftrightarrow> a \<noteq> []"
  "HasFallbackType (fst (ask p a s)) Fallback_sni \<longleftrightarrow> s \<noteq> []"
  by (auto simp: ask_def HasFallbackType_def fallback_defs)

lemma read_params_ask:
  "read_params (fst (ask p a s)) fallback_types (snd (ask p a s)) no_condition = request_of p a s"
proof -
  have "read_params t fallback_types (filter (\<lambda>x. x \<noteq> []) [p, a, s]) no_condition = request_of p a s"
    if "HasFallbackType t Fallback_path = (p \<noteq> [])" "HasFallbackType t Fallback_alpn = (a \<noteq> [])"
      "HasFallbackType t Fallback_sni = (s \<noteq> [])" for t
    using that by (cases "p = []"; cases "a = []"; cases "s = []")
      (auto simp: fallback_types_eq request_of_def no_condition_def H11_Str_def H2_Str_def Let_def)
  from this [OF ask_bits] show ?thesis by (simp add: ask_def)
qed

lemma ask_path: "fst (ask p a s) = Fallback_path \<longleftrightarrow> p \<noteq> [] \<and> a = [] \<and> s = []"
  by (auto simp: ask_def fallback_defs)

lemma ask_default: "fst (ask p a s) \<noteq> FallBack_default"
  by (auto simp: ask_def fallback_defs)

lemma find_SomeD: "find P xs = Some x \<Longrightarrow> x \<in> set xs \<and> P x"
  by (induction xs) (auto split: if_splits)

lemma AllSubSets_3: "AllSubSets_improve1 [x, y, z] = [[x], [y], [x, y], [z], [x, z], [y, z], [x, y, z]]"
proof -
  have "nat (sint (push_bit (length [x, y, z]) (1 :: 64 word))) = 8"
    by (subst bound_sint) simp_all
  then show ?thesis
    unfolding AllSubSets_improve1_eq AllSubSets_def by (simp add: subset_of_bits_eq upt_rec bit_iff_odd)
qed

section \<open>Properties\<close>

text \<open>The table a tag is served from: its own, if any rule names the tag.\<close>

definition tag_of_table :: "FallbackConf list \<Rightarrow> string \<Rightarrow> string" where
  "tag_of_table fcl tag = (if \<exists>fc \<in> set fcl. tag \<in> set (FromTag fc) then tag else [])"

lemma GetFallback_ask:
  assumes comb: "combin_ok comb" and conf: "NewClassicFallbackFromConfList fcl = Some cfb"
    and sup: "HasFallbackType (supportedTypeMask cfb) (fst (ask p a s))"
  obtains res where "best_match (fallback_rule fcl (tag_of_table fcl tag)) (request_of p a s) res"
    "GetFallback comb cfb tag (fst (ask p a s)) (snd (ask p a s)) =
       (if res = None \<and> p \<noteq> [] \<and> a = [] \<and> s = [] then default_rule fcl else res)"
proof -
  define tab where "tab = (case map_of (Map cfb) tag of
     Some t \<Rightarrow> t | None \<Rightarrow> (case map_of (Map cfb) [] of Some t \<Rightarrow> t | None \<Rightarrow> []))"
  have tab: "map_of tab = fallback_rule fcl (tag_of_table fcl tag)"
  proof
    fix c
    obtain t0 where "map_of (Map cfb) [] = Some t0" using conf_tables(3) [OF conf, of "[]"] by auto
    then show "map_of tab c = fallback_rule fcl (tag_of_table fcl tag) c"
      using conf_tables(1) [OF conf, of tag c] conf_tables(1) [OF conf, of "[]" c] conf_tables(3) [OF conf, of tag]
      by (auto simp: tab_def table_lookup_def tag_of_table_def split: option.splits)
  qed
  have cov: "\<forall>c. map_of tab c \<noteq> None \<longrightarrow> covered (supportedTypeMask cfb) c"
    using fallback_inv_conf [OF conf] unfolding tab fallback_inv_def conf_tables(1) [OF conf] by blast
  define res where "res = (if tab \<noteq> [] then TestAllSubSets comb (supportedTypeMask cfb) tab (request_of p a s) else None)"
  have "best_match (map_of tab) (request_of p a s) res"
    using TestAllSubSets_best [OF comb cov] by (simp add: res_def best_match_def)
  moreover have "GetFallback comb cfb tag (fst (ask p a s)) (snd (ask p a s)) =
       (if res = None \<and> p \<noteq> [] \<and> a = [] \<and> s = [] then default_rule fcl else res)"
    using sup ask_default [of p a s]
    by (simp add: GetFallback_def read_params_ask tab_def [symmetric] res_def ask_path Let_def
        conf_tables(2) [OF conf])
  ultimately show thesis using that unfolding tab by blast
qed

lemma fallback_params_eq:
  "fallback_params x = map_option (\<lambda>path. case iics_tls x of None \<Rightarrow> ask path [] [] | Some (a, s) \<Rightarrow> ask path a s)
     (case fallbackFirstBuffer x of
        Some buf \<Rightarrow> if fallbackRequestPath x = [] then
            map_option (\<lambda>r. if h1_failreason r \<noteq> 0 then [] else h1_path r) (ParseH1Request buf False)
          else Some (fallbackRequestPath x)
      | None \<Rightarrow> Some (fallbackRequestPath x))"
proof -
  have body: "(let (t, ps) = (if path \<noteq> [] then (Fallback_path, [path]) else (0, [])) in
             case iics_tls x of
               None \<Rightarrow> (t, ps)
             | Some (alpn, sni) \<Rightarrow>
                 let (t, ps) = (if alpn \<noteq> [] then (t OR Fallback_alpn, ps @ [alpn]) else (t, ps))
                 in if sni \<noteq> [] then (t OR Fallback_sni, ps @ [sni]) else (t, ps))
      = (case iics_tls x of None \<Rightarrow> ask path [] [] | Some (a, s) \<Rightarrow> ask path a s)" for path
    by (auto simp: ask_def or.assoc split: option.splits)
  show ?thesis unfolding fallback_params_def body
    using h1_total [of _ False] by (auto simp: option.map_comp comp_def split: option.splits Option.bind_splits)
qed

text \<open>C10: The target chosen for a connection whose first bytes are a web request is that of a most
  specific rule: one for the server's tag whose conditions the request meets, such that no other
  rule it meets asks for more; without one it is the rules for all servers, then the default.\<close>

theorem checkfallback_most_specific:
  assumes "combin_ok comb" "NewClassicFallbackFromConfList fcl = Some mf"
    and "fallbackRequestPath x = []" "fallbackFirstBuffer x = Some (h1_render m path version headers body)"
    and "m \<in> set h1_methods" "m \<noteq> ''CONNECT''" "path_ok path" "length m + length path < 2999"
    and "length version = 3" "headers \<noteq> []" "list_all header_ok headers"
    and "iics_fallback x = Some mf" "iics_tls x = Some (alpn, sni)"
    and "HasFallbackType (supportedTypeMask mf) (fst (ask path alpn sni))"
    and "sub_condition c (request_of path alpn sni)" "c \<noteq> no_condition"
    and "fallback_rule fcl (tag_of_table fcl (iics_tag x)) c \<noteq> None"
  shows "\<exists>c' r. fallback_rule fcl (tag_of_table fcl (iics_tag x)) c' = Some r
    \<and> sub_condition c' (request_of path alpn sni) \<and> cond_size c \<le> cond_size c'
    \<and> checkfallback comb x = Some (fr_Addr r, Xver r)"
proof -
  have "fallback_params x = Some (ask path alpn sni)"
    using h1_complete [OF assms(5-11), of body] assms(3,4,13) by (simp add: fallback_params_eq)
  moreover obtain res where
    best: "best_match (fallback_rule fcl (tag_of_table fcl (iics_tag x))) (request_of path alpn sni) res"
    and res: "GetFallback comb mf (iics_tag x) (fst (ask path alpn sni)) (snd (ask path alpn sni)) =
       (if res = None \<and> path \<noteq> [] \<and> alpn = [] \<and> sni = [] then default_rule fcl else res)"
    by (rule GetFallback_ask [OF assms(1,2,14)])
  from best assms(15-17) obtain r c' where "res = Some r"
    "fallback_rule fcl (tag_of_table fcl (iics_tag x)) c' = Some r"
    "sub_condition c' (request_of path alpn sni)" "cond_size c \<le> cond_size c'"
    by (cases res) (auto simp: best_match_def)
  moreover from this res have "GetFallback comb mf (iics_tag x) (fst (ask path alpn sni))
      (snd (ask path alpn sni)) = Some r" by simp
  ultimately show ?thesis
    using assms(12) by (auto simp: checkfallback_def case_prod_beta)
qed

text \<open>As soon as one rule names a server's tag, a path-only request to that server never reaches
  the rules for all servers: without a match in its own table it goes to the default.\<close>

theorem tagged_server_misses_universal:
  assumes "combin_ok comb" "NewClassicFallbackFromConfList fcl = Some mf"
    and "iics_fallback x = Some mf" "iics_tls x = None" "fallbackRequestPath x = path" "path \<noteq> []"
    and "fc \<in> set fcl" "iics_tag x \<in> set (FromTag fc)"
    and "\<forall>c. sub_condition c (request_of path [] []) \<longrightarrow> fallback_rule fcl (iics_tag x) c = None"
    and "HasFallbackType (supportedTypeMask mf) Fallback_path"
    and "fallback_rule fcl [] (request_of path [] []) = Some universal" "default_rule fcl = Some d"
  shows "checkfallback comb x = Some (fr_Addr d, Xver d)"
proof -
  have params: "fallback_params x = Some (ask path [] [])"
    using assms(4-6) by (simp add: fallback_params_eq split: option.split)
  have sup: "HasFallbackType (supportedTypeMask mf) (fst (ask path [] []))"
    using assms(6,10) by (simp add: ask_def)
  have "tag_of_table fcl (iics_tag x) = iics_tag x" using assms(7,8) by (auto simp: tag_of_table_def)
  with GetFallback_ask [OF assms(1,2) sup, of "iics_tag x"] obtain res where
    "best_match (fallback_rule fcl (iics_tag x)) (request_of path [] []) res"
    "GetFallback comb mf (iics_tag x) (fst (ask path [] [])) (snd (ask path [] [])) =
       (if res = None \<and> path \<noteq> [] then default_rule fcl else res)"
    by auto
  moreover from this(1) assms(9) have "res = None" by (cases res) (auto simp: best_match_def)
  ultimately show ?thesis
    using assms(3,6,12) params by (simp add: checkfallback_def case_prod_beta)
qed

text \<open>A rule that lists both alpn values matches no connection: its mask has two bits, that of a
  connection at most one.\<close>

theorem alpn_pair_never_matches:
  assumes "combin_ok comb" "NewClassicFallbackFromConfList fcl = Some mf"
    and "list_all (\<lambda>fc. fc_Alpn fc = [H2_Str, H11_Str] \<or> fc_Alpn fc = [H11_Str, H2_Str]) fcl"
  shows "GetFallback comb mf tag (fst (ask path alpn sni)) (snd (ask path alpn sni)) = None"
proof -
  have masks: "AlpnMask (conf_condition fc) = 3" if "fc \<in> set fcl" for fc
    using assms(3) that by (auto simp: list_all_iff conf_condition_def alpn_mask_of_def fallback_defs)
  have rule3: "AlpnMask c = 3" if "fallback_rule fcl t c \<noteq> None" for t c
    using that masks by (auto simp: fallback_rule_def conf_applies_def dest!: find_SomeD)
  have "conf_condition fc \<noteq> no_condition" if "fc \<in> set fcl" for fc
    using masks [OF that] by (auto simp: no_condition_def)
  then have "find (\<lambda>fc. FromTag fc = [] \<and> conf_condition fc = no_condition) (rev fcl) = None"
    by (auto simp: find_None_iff)
  then have def: "default_rule fcl = None" by (simp add: default_rule_def)
  show ?thesis
  proof (cases "HasFallbackType (supportedTypeMask mf) (fst (ask path alpn sni))")
    case True
    then obtain res where
      best: "best_match (fallback_rule fcl (tag_of_table fcl tag)) (request_of path alpn sni) res"
      and res: "GetFallback comb mf tag (fst (ask path alpn sni)) (snd (ask path alpn sni)) =
         (if res = None \<and> path \<noteq> [] \<and> alpn = [] \<and> sni = [] then default_rule fcl else res)"
      by (rule GetFallback_ask [OF assms(1,2)])
    have "res = None"
    proof (cases res)
      case (Some r)
      with best obtain c where c: "fallback_rule fcl (tag_of_table fcl tag) c = Some r"
        "sub_condition c (request_of path alpn sni)" by (auto simp: best_match_def)
      from rule3 [of _ c] c(1) have "AlpnMask c = 3" by auto
      with c(2) show ?thesis by (auto simp: sub_condition_def request_of_def fallback_defs split: if_splits)
    qed
    with res def show ?thesis by simp
  next
    case False
    then show ?thesis
      using def ask_default [of path alpn sni] conf_tables(2) [OF assms(2)] by (simp add: GetFallback_def)
  qed
qed

text \<open>With all three conditions set, \<open>GetAllSubSets\<close> returns the set itself too.\<close>

theorem GetAllSubSets_self:
  assumes "Path f \<noteq> []" "AlpnMask f \<noteq> 0" "Sni f \<noteq> []"
  shows "f \<in> set (GetAllSubSets f)"
proof -
  have "alltypes f = [Fallback_path, Fallback_alpn, Fallback_sni]" using assms by (simp add: alltypes_eq)
  moreover have "foldl (\<lambda>r t. setSingle t (getSingle f t) r) no_condition
      [Fallback_path, Fallback_alpn, Fallback_sni] = f"
    by (simp add: setSingle_def getSingle_def no_condition_def)
  ultimately show ?thesis by (simp add: GetAllSubSets_def AllSubSets_3)
qed

theorem GetAllSubSets_self_witness:
  "\<lparr>Path = ''/a'', Sni = ''s'', AlpnMask = 1\<rparr> \<in> set (GetAllSubSets \<lparr>Path = ''/a'', Sni = ''s'', AlpnMask = 1\<rparr>)"
  by (rule GetAllSubSets_self) simp_all

section \<open>Witnesses\<close>

definition sample_comb :: "nat \<Rightarrow> nat \<Rightarrow> nat list list" where
  "sample_comb n k = filter (\<lambda>xs. length xs = k) (subseqs [0..<n])"

lemma sample_comb_ok: "combin_ok sample_comb"
  by (auto simp: combin_ok_def sample_comb_def upt_rec)

definition sample_target :: Addr where "sample_target = zero_Addr\<lparr>Port := 80\<rparr>"

definition sample_rule :: "string list \<Rightarrow> string \<Rightarrow> string list \<Rightarrow> FallbackConf" where
  "sample_rule tags path alpn = \<lparr>FromTag = tags, fc_Xver = 0, fc_Dest = Some sample_target, fc_Path = path,
     fc_Sni = [], fc_Alpn = alpn\<rparr>"

definition sample_iics :: "ClassicFallback \<Rightarrow> string \<Rightarrow> bytes option \<Rightarrow> (string \<times> string) option \<Rightarrow> iics" where
  "sample_iics mf path buf tls = \<lparr>iics_fallback = Some mf, fallbackRequestPath = path, fallbackFirstBuffer = buf,
     iics_tls = tls, iics_tag = ''t'', iics_default = None\<rparr>"

lemmas sample_defs = sample_rule_def sample_iics_def sample_target_def NewClassicFallbackFromConfList_def
  InsertFallbackConditionSet_def NewClassicFallback_def conf_condition_def alpn_mask_of_def GetType_def

lemma sample_rules:
  "fallback_rule [sample_rule tags path alpn] tag c =
    (if conf_applies (sample_rule tags path alpn) tag c then Some (conf_result (sample_rule tags path alpn)) else None)"
  by (simp add: fallback_rule_def)

theorem checkfallback_most_specific_witness:
  "\<exists>mf (r :: FallbackResult). NewClassicFallbackFromConfList [sample_rule [] ''/x'' []] = Some mf
    \<and> checkfallback sample_comb (sample_iics mf [] (Some (h1_render ''GET'' ''/x'' ''1.1'' sample_headers []))
         (Some (''h2'', ''s''))) = Some (fr_Addr r, Xver r)"
proof -
  let ?fcl = "[sample_rule [] ''/x'' []]"
  let ?c = "\<lparr>Path = ''/x'', Sni = [], AlpnMask = 0\<rparr>"
  define mf where "mf = the (NewClassicFallbackFromConfList ?fcl)"
  have mf: "NewClassicFallbackFromConfList ?fcl = Some mf" by (simp add: mf_def sample_defs)
  have sup: "HasFallbackType (supportedTypeMask mf) (fst (ask ''/x'' ''h2'' ''s''))"
    by (simp add: mf_def sample_defs fallback_defs ask_def HasFallbackType_def)
  let ?x = "sample_iics mf [] (Some (h1_render ''GET'' ''/x'' ''1.1'' sample_headers [])) (Some (''h2'', ''s''))"
  have x: "fallbackRequestPath ?x = []"
    "fallbackFirstBuffer ?x = Some (h1_render ''GET'' ''/x'' ''1.1'' sample_headers [])"
    "iics_fallback ?x = Some mf" "iics_tls ?x = Some (''h2'', ''s'')" "iics_tag ?x = ''t''"
    by (simp_all add: sample_iics_def)
  have c: "sub_condition ?c (request_of ''/x'' ''h2'' ''s'')" "?c \<noteq> no_condition"
    "fallback_rule ?fcl (tag_of_table ?fcl (iics_tag ?x)) ?c \<noteq> None"
    unfolding sample_rules x(5)
    by (simp_all add: sub_condition_def request_of_def no_condition_def tag_of_table_def conf_applies_def
        sample_rule_def conf_condition_def alpn_mask_of_def)
  from checkfallback_most_specific [OF sample_comb_ok mf x(1,2) sample_ok x(3,4) sup c]
  obtain r :: FallbackResult where "checkfallback sample_comb ?x = Some (fr_Addr r, Xver r)" by blast
  with mf show ?thesis by (intro exI [of _ mf] exI [of _ r] conjI)
qed

theorem tagged_server_misses_universal_witness:
  "\<exists>fcl mf d. NewClassicFallbackFromConfList fcl = Some mf
    \<and> fallback_rule fcl [] (request_of ''/y'' [] []) = Some (conf_result (sample_rule [] ''/y'' []))
    \<and> default_rule fcl = Some d
    \<and> checkfallback sample_comb (sample_iics mf ''/y'' None None) = Some (fr_Addr d, Xver d)"
proof -
  define fcl where "fcl = [sample_rule [] [] [], sample_rule [''t''] ''/x'' [], sample_rule [] ''/y'' []]"
  define mf where "mf = the (NewClassicFallbackFromConfList fcl)"
  have mf: "NewClassicFallbackFromConfList fcl = Some mf"
    by (simp add: mf_def sample_defs fcl_def fallback_defs)
  let ?x = "sample_iics mf ''/y'' None None"
  have x: "iics_fallback ?x = Some mf" "iics_tls ?x = None" "fallbackRequestPath ?x = ''/y''" "iics_tag ?x = ''t''"
    by (simp_all add: sample_iics_def)
  have own: "\<forall>c. sub_condition c (request_of ''/y'' [] []) \<longrightarrow> fallback_rule fcl (iics_tag ?x) c = None"
    by (auto simp: fallback_rule_def fcl_def conf_applies_def sample_rule_def conf_condition_def
        sub_condition_def request_of_def x(4))
  have sup: "HasFallbackType (supportedTypeMask mf) Fallback_path"
    by (simp add: mf_def fcl_def sample_defs fallback_defs HasFallbackType_def Let_def)
  have uni: "fallback_rule fcl [] (request_of ''/y'' [] []) = Some (conf_result (sample_rule [] ''/y'' []))"
    by (simp add: fallback_rule_def fcl_def conf_applies_def sample_rule_def conf_condition_def
        alpn_mask_of_def request_of_def no_condition_def fallback_defs)
  have def: "default_rule fcl = Some (conf_result (sample_rule [] [] []))"
    by (simp add: default_rule_def fcl_def sample_rule_def conf_condition_def alpn_mask_of_def no_condition_def)
  have "sample_rule [''t''] ''/x'' [] \<in> set fcl" "iics_tag ?x \<in> set (FromTag (sample_rule [''t''] ''/x'' []))"
    by (simp_all add: fcl_def sample_rule_def x(4))
  from tagged_server_misses_universal [OF sample_comb_ok mf x(1-3) _ this own sup uni def] mf uni def
  show ?thesis by blast
qed

theorem alpn_pair_never_matches_witness:
  "\<exists>mf. NewClassicFallbackFromConfList [sample_rule [] ''/x'' [H2_Str, H11_Str]] = Some mf
    \<and> GetFallback sample_comb mf [] (fst (ask ''/x'' H2_Str [])) (snd (ask ''/x'' H2_Str [])) = None"
proof -
  define mf where "mf = the (NewClassicFallbackFromConfList [sample_rule [] ''/x'' [H2_Str, H11_Str]])"
  have mf: "NewClassicFallbackFromConfList [sample_rule [] ''/x'' [H2_Str, H11_Str]] = Some mf"
    by (simp add: mf_def sample_rule_def NewClassicFallbackFromConfList_def)
  have "list_all (\<lambda>fc. fc_Alpn fc = [H2_Str, H11_Str] \<or> fc_Alpn fc = [H11_Str, H2_Str])
      [sample_rule [] ''/x'' [H2_Str, H11_Str]]"
    by (simp add: sample_rule_def)
  from alpn_pair_never_matches [OF sample_comb_ok mf this] mf show ?thesis by blast
qed

end
