(* ===== verification/HttpHeader.thy ===== *)
theory HttpHeader
  imports HttpRequest ProxyConn GoNet "HOL-Library.AList" "HOL-Library.List_Lexorder" "HOL-Library.Char_ord"
begin

text \<open>
  The HTTP obfuscation header (httpLayer/header.go): the preset, its defaults, writing and checking a request, writing and skipping a
  response, and \<open>HeaderConn\<close>, which puts them in front of a stream. A Go map is an association list with distinct keys, in the order
  its iteration happens to take. \<open>net/http\<close> is modelled as far as \<open>Request.Write\<close> is used; how \<open>net/url\<close> writes a
  path and \<open>x/net/idna\<close> a host are arguments. \<open>pick\<close> stands for \<open>math/rand\<close>, \<open>None\<close> for a panic.
\<close>

type_synonym header_map = "(string \<times> string list) list"

definition headers_get :: "header_map \<Rightarrow> string \<Rightarrow> string list" where
  "headers_get m k = (case map_of m k of Some vs \<Rightarrow> vs | None \<Rightarrow> [])"

text \<open>\<open>rand.Intn\<close>, which panics without a range, and \<open>v[rand.Intn(len(v))]\<close>.\<close>

definition rand_Intn :: "nat \<Rightarrow> nat \<Rightarrow> nat option" where
  "rand_Intn r n = (if n = 0 then None else Some (r mod n))"

definition pick_value :: "(string \<Rightarrow> nat) \<Rightarrow> string \<Rightarrow> string list \<Rightarrow> string option" where
  "pick_value pick k v = map_option (\<lambda>i. v ! i) (rand_Intn (pick k) (length v))"

fun TrimHeaders :: "(string \<Rightarrow> nat) \<Rightarrow> header_map \<Rightarrow> header_map option" where
  "TrimHeaders pick [] = Some []"
| "TrimHeaders pick ((k, v) # m) =
     do { x \<leftarrow> pick_value pick k v; m' \<leftarrow> TrimHeaders pick m; Some ((k, [x]) # m') }"

section \<open>Canonical keys\<close>

definition is_lower :: "char \<Rightarrow> bool" where
  "is_lower c \<longleftrightarrow> (97::nat) \<le> of_char c \<and> (of_char c :: nat) \<le> 122"

definition is_upper :: "char \<Rightarrow> bool" where
  "is_upper c \<longleftrightarrow> (65::nat) \<le> of_char c \<and> (of_char c :: nat) \<le> 90"

text \<open>The loop of \<open>CanonicalizeHeaderKey\<close> over bytes: \<open>&= toUpper\<close> clears the sixth bit, \<open>|= toLower\<close> sets it.\<close>

unbundle bit_operations_syntax

fun CanonicalizeHeaderKey_loop :: "bool \<Rightarrow> bytes \<Rightarrow> bytes" where
  "CanonicalizeHeaderKey_loop upper [] = []"
| "CanonicalizeHeaderKey_loop upper (c # cs) =
     (if upper \<and> 97 \<le> c \<and> c \<le> 122 then c AND NOT 32
      else if \<not> upper \<and> 65 \<le> c \<and> c \<le> 90 then c OR 32 else c)
     # CanonicalizeHeaderKey_loop (c = 45) cs"


definition CanonicalizeHeaderKey :: "bytes \<Rightarrow> bytes" where
  "CanonicalizeHeaderKey k = CanonicalizeHeaderKey_loop True k"

text \<open>\<open>textproto.CanonicalMIMEHeaderKey\<close>, which \<open>http.Header\<close> applies to every key: a key with a byte that no field name may
  have is left alone.\<close>

definition field_char :: "char \<Rightarrow> bool" where
  "field_char c \<longleftrightarrow> is_lower c \<or> is_upper c \<or> c \<in> set ''0123456789!#$%&*+-.^_`|~'' \<or> c = CHR 0x27"

fun canonical_loop :: "bool \<Rightarrow> string \<Rightarrow> string" where
  "canonical_loop upper [] = []"
| "canonical_loop upper (c # cs) =
     (if upper \<and> is_lower c then ascii_upper c else if \<not> upper \<and> is_upper c then ascii_lower c else c)
     # canonical_loop (c = CHR ''-'') cs"

definition CanonicalMIMEHeaderKey :: "string \<Rightarrow> string" where
  "CanonicalMIMEHeaderKey k = (if list_all field_char k then canonical_loop True k else k)"

definition header_Get :: "header_map \<Rightarrow> string \<Rightarrow> string" where
  "header_Get m k = (case headers_get m (CanonicalMIMEHeaderKey k) of [] \<Rightarrow> [] | v # vs \<Rightarrow> v)"

definition header_Add :: "string \<Rightarrow> string \<Rightarrow> header_map \<Rightarrow> header_map" where
  "header_Add k v m = (let k = CanonicalMIMEHeaderKey k in AList.update k (headers_get m k @ [v]) m)"

text \<open>\<open>AllHeadersIn\<close>: whether all headers of a template are among the real ones, else the first that is not.\<close>

fun AllHeadersIn :: "header_map \<Rightarrow> header_map \<Rightarrow> bool \<times> string" where
  "AllHeadersIn [] realh = (True, [])"
| "AllHeadersIn ((k, vs) # template) realh =
     (let thisReal = header_Get realh k in
      if thisReal = [] then (False, k) else if thisReal \<in> set vs then AllHeadersIn template realh else (False, k))"

section \<open>The preset\<close>

record RequestHeader =
  rq_Version :: string
  rq_Method :: string
  rq_Path :: "string list"
  rq_Headers :: header_map

record ResponseHeader =
  rs_Version :: string
  rs_StatusCode :: string
  rs_Reason :: string
  rs_Headers :: header_map

record HeaderPreset =
  hp_Request :: "RequestHeader option"
  hp_Response :: "ResponseHeader option"
  Strict :: bool
  NoResponseHeaderWhenGotHttpResponse :: bool

definition canonical_headers :: "header_map \<Rightarrow> header_map" where
  "canonical_headers m = foldl (\<lambda>r (k, vs). foldl (\<lambda>r v. header_Add k v r) r vs) [] m"

definition Prepare :: "HeaderPreset \<Rightarrow> HeaderPreset" where
  "Prepare h =
     (let h = (case hp_Request h of
          Some rq \<Rightarrow> if length (rq_Headers rq) > 0 then h\<lparr>hp_Request := Some (rq\<lparr>rq_Headers := canonical_headers (rq_Headers rq)\<rparr>)\<rparr> else h
        | None \<Rightarrow> h)
      in case hp_Response h of
          Some rs \<Rightarrow> if length (rs_Headers rs) > 0 then h\<lparr>hp_Response := Some (rs\<lparr>rs_Headers := canonical_headers (rs_Headers rs)\<rparr>)\<rparr> else h
        | None \<Rightarrow> h)"

definition default_request_headers :: header_map where
  "default_request_headers =
     [(''Host'', [''www.baidu.com'', ''www.bing.com'']),
      (''User-Agent'', [''Mozilla/5.0 (Windows NT 10.0; WOW64) AppleWebKit/537.36 (KHTML, like Gecko) Chrome/53.0.2785.143 Safari/537.36'',
        ''Mozilla/5.0 (iPhone; CPU iPhone OS 10_0_2 like Mac OS X) AppleWebKit/601.1 (KHTML, like Gecko) CriOS/53.0.2785.109 Mobile/14A456 Safari/601.1.46'']),
      (''Accept-Encoding'', [''gzip, deflate'']), (''Connection'', [''keep-alive'']), (''Pragma'', [''no-cache''])]"

definition default_response_headers :: header_map where
  "default_response_headers =
     [(''Content-Type'', [''application/octet-stream'', ''video/mpeg'']), (''Transfer-Encoding'', [''chunked'']),
      (''Connection'', [''keep-alive'']), (''Pragma'', [''no-cache''])]"

definition default_to :: "'a list \<Rightarrow> 'a list \<Rightarrow> 'a list" where
  "default_to d x = (if x = [] then d else x)"

definition AssignDefaultValue :: "HeaderPreset \<Rightarrow> HeaderPreset" where
  "AssignDefaultValue h =
     (let rq = (case hp_Request h of Some rq \<Rightarrow> rq | None \<Rightarrow> \<lparr>rq_Version = [], rq_Method = [], rq_Path = [], rq_Headers = []\<rparr>);
          rs = (case hp_Response h of Some rs \<Rightarrow> rs | None \<Rightarrow> \<lparr>rs_Version = [], rs_StatusCode = [], rs_Reason = [], rs_Headers = []\<rparr>)
      in Prepare (h\<lparr>
          hp_Request := Some \<lparr>rq_Version = default_to ''1.1'' (rq_Version rq), rq_Method = default_to ''GET'' (rq_Method rq),
            rq_Path = default_to [''/''] (rq_Path rq), rq_Headers = default_to default_request_headers (rq_Headers rq)\<rparr>,
          hp_Response := Some \<lparr>rs_Version = default_to ''1.1'' (rs_Version rs), rs_StatusCode = default_to ''200'' (rs_StatusCode rs),
            rs_Reason = default_to ''OK'' (rs_Reason rs), rs_Headers = default_to default_response_headers (rs_Headers rs)\<rparr>\<rparr>))"

section \<open>Reading a request\<close>

text \<open>The loop of the strict mode over the header lines; \<open>matchCount\<close> is returned.\<close>

fun strict_loop :: "header_map \<Rightarrow> bytes list \<Rightarrow> nat \<Rightarrow> goerr + nat" where
  "strict_loop hdrs [] matchCount = Inr matchCount"
| "strict_loop hdrs (header # rest) matchCount =
     (case splitN2 (string_of_bytes header) '':'' of
        [s0, s1] \<Rightarrow>
          (let key = trim_left (CHR '' '') s0; value' = trim_left (CHR '' '') s1; thisList = headers_get hdrs key in
           if length thisList = 0 then
             (if key = ''Content-Length'' \<or> key = ''Date'' then strict_loop hdrs rest matchCount
              else Inl (err_wrap ''ReadRequest failed, unknown header'' ErrInvalidData))
           else if value' \<in> trim_left (CHR '' '') ` set thisList then strict_loop hdrs rest (matchCount + 1)
           else Inl (err_wrap ''ReadRequest failed, header content not match'' ErrInvalidData))
      | _ \<Rightarrow> Inl ErrInvalidData)"

definition strict_check :: "header_map \<Rightarrow> bytes \<Rightarrow> bytes \<Rightarrow> goerr option option" where
  "strict_check hdrs allbytes headerBytes =
     do {
       let start = (case list_index CRLF allbytes of Some indexOfFirstCRLF \<Rightarrow> indexOfFirstCRLF + 2 | None \<Rightarrow> 1);
       headerBytes \<leftarrow> bytes_slice headerBytes start (length headerBytes);
       Some (case strict_loop hdrs (split_on headerBytes CRLF) 0 of
           Inl e \<Rightarrow> Some e
         | Inr matchCount \<Rightarrow>
             if length hdrs > matchCount then Some (err_wrap ''ReadRequest failed, not all headers given'' ErrInvalidData) else None) }"

text \<open>The results of \<open>ReadRequest\<close>: the parser (if the read succeeded), the error or \<open>leftBuf\<close>, and the connection afterwards.
  An index of -1 for the first CRLF, to which 2 is added, cannot occur in front of the end mark, but is written out.\<close>

definition ReadRequest ::
    "HeaderPreset \<Rightarrow> bytes list \<Rightarrow> ((h1_parser option \<times> (goerr + bytes)) \<times> bytes list) option" where
  "ReadRequest h conn =
     do {
       ((rp, err), conn) \<leftarrow> ReadAndParse conn;
       (case (rp, err) of
          (Some p, None) \<Rightarrow>
            do {
              rq \<leftarrow> hp_Request h;
              let r = hp_request p;
              let fail = (\<lambda>t. Some ((Some p, Inl (err_wrap t ErrInvalidData)), conn));
              if h1_method r \<noteq> rq_Method rq then fail ''ReadRequest failed, wrong method''
              else if h1_version r \<noteq> rq_Version rq then fail ''ReadRequest failed, wrong version''
              else if h1_path r \<notin> set (rq_Path rq) then fail ''ReadRequest failed, wrong path''
              else
                (let allbytes = WholeRequestBuf p in
                 case list_index HeaderENDING allbytes of
                   None \<Rightarrow> Some ((Some p, Inl ErrInvalidData), conn)
                 | Some indexOfEnding \<Rightarrow>
                     do {
                       e \<leftarrow> (if Strict h then strict_check (rq_Headers rq) allbytes (take indexOfEnding allbytes) else Some None);
                       Some ((Some p, case e of Some e \<Rightarrow> Inl e | None \<Rightarrow> Inr (drop (indexOfEnding + length HeaderENDING) allbytes)), conn) }) }
        | (rp, Some e) \<Rightarrow> Some ((rp, Inl e), conn)
        | (None, None) \<Rightarrow> None) }"

section \<open>Writing a request\<close>

text \<open>What the model does not define: how a path is written after \<open>url.Parse\<close> (\<open>None\<close> for an error), and a host after
  conversion to ASCII.\<close>

record http_env =
  request_uri :: "string \<Rightarrow> string option"
  clean_host :: "string \<Rightarrow> string option"

text \<open>\<open>http.Request.Write\<close> for a request made by \<open>NewRequest\<close> from a buffer: the lines of the header in their order.
  Line breaks in values become spaces, spaces around them are dropped, keys that are no tokens are skipped.\<close>

definition ascii_space :: "char \<Rightarrow> bool" where
  "ascii_space c \<longleftrightarrow> c \<in> {CHR '' '', CHR 0x09, CHR 0x0A, CHR 0x0D}"

definition clean_value :: "string \<Rightarrow> string" where
  "clean_value v = rev (dropWhile ascii_space (rev (dropWhile ascii_space
     (map (\<lambda>c. if c = CHR 0x0A \<or> c = CHR 0x0D then CHR '' '' else c) v))))"

definition string_header :: "string \<Rightarrow> string \<Rightarrow> RawHeader" where
  "string_header k v = \<lparr>Head = bytes_of_string k, Value = bytes_of_string v\<rparr>"

definition reqWriteExcludeHeader :: "string list" where
  "reqWriteExcludeHeader = [''Host'', ''User-Agent'', ''Content-Length'', ''Transfer-Encoding'', ''Trailer'']"

definition user_agent_header :: "header_map \<Rightarrow> RawHeader list" where
  "user_agent_header hdrs =
     (let ua = (case map_of hdrs ''User-Agent'' of
          None \<Rightarrow> ''Go-http-client/1.1'' | Some [] \<Rightarrow> [] | Some (v # vs) \<Rightarrow> v)
      in if ua = [] then [] else [string_header ''User-Agent'' (clean_value ua)])"

definition content_length_header :: "string \<Rightarrow> bytes \<Rightarrow> RawHeader list" where
  "content_length_header method payload =
     (if length payload > 0 \<or> method \<in> {''POST'', ''PUT'', ''PATCH''}
      then [string_header ''Content-Length'' (Itoa (int (length payload)))] else [])"

definition other_headers :: "header_map \<Rightarrow> RawHeader list" where
  "other_headers hdrs = concat (map (\<lambda>(k, vs). map (\<lambda>v. string_header k (clean_value v)) vs)
     (sort_key fst (filter (\<lambda>(k, vs). k \<notin> set reqWriteExcludeHeader \<and> k \<noteq> [] \<and> list_all field_char k) hdrs)))"

definition request_headers :: "string \<Rightarrow> string \<Rightarrow> header_map \<Rightarrow> bytes \<Rightarrow> RawHeader list" where
  "request_headers method host hdrs payload =
     string_header ''Host'' host # user_agent_header hdrs @ content_length_header method payload @ other_headers hdrs"

definition valid_method :: "string \<Rightarrow> bool" where
  "valid_method m \<longleftrightarrow> m \<noteq> [] \<and> list_all field_char m"

text \<open>\<open>WriteRequest\<close>: the bytes for the connection or an error; \<open>None\<close> where \<open>rand.Intn\<close> or an index panics. An empty method
  stands for GET.\<close>

definition WriteRequest :: "http_env \<Rightarrow> (string \<Rightarrow> nat) \<Rightarrow> HeaderPreset \<Rightarrow> bytes \<Rightarrow> (goerr + bytes) option" where
  "WriteRequest env pick h payload =
     do {
       rq \<leftarrow> hp_Request h;
       path \<leftarrow> (case rq_Path rq of p # ps \<Rightarrow> Some p | [] \<Rightarrow> None);
       let method = default_to ''GET'' (rq_Method rq);
       (if \<not> valid_method method then Some (Inl (NewErr ''net/http: invalid method''))
        else case request_uri env path of
            None \<Rightarrow> Some (Inl (NewErr ''parse''))
          | Some uri \<Rightarrow>
              do {
                nh \<leftarrow> TrimHeaders pick (rq_Headers rq);
                hostname \<leftarrow> pick_value pick ''Host'' (headers_get nh ''Host'');
                Some (if hostname = [] then Inl (NewErr ''http: Request.Write on Request with no Host or URL set'')
                  else case clean_host env hostname of
                      None \<Rightarrow> Inl (NewErr ''idna'')
                    | Some host \<Rightarrow> Inr (h1_render method uri ''1.1'' (request_headers method host nh payload) payload)) }) }"

section \<open>Responses\<close>

fun response_lines :: "(string \<Rightarrow> nat) \<Rightarrow> header_map \<Rightarrow> bytes list option" where
  "response_lines pick [] = Some []"
| "response_lines pick ((k, v) # m) =
     do { thisStr \<leftarrow> pick_value pick k v; ls \<leftarrow> response_lines pick m; Some (bytes_of_string (k @ '':'' @ thisStr) # ls) }"

definition status_line :: "ResponseHeader \<Rightarrow> bytes" where
  "status_line rs = bytes_of_string (''HTTP/'' @ rs_Version rs @ '' '' @ rs_StatusCode rs @ '' '' @ rs_Reason rs)"

text \<open>The writes of \<open>WriteResponse\<close>: the header in one, the payload in another.\<close>

definition WriteResponse :: "(string \<Rightarrow> nat) \<Rightarrow> HeaderPreset \<Rightarrow> bytes \<Rightarrow> bytes list option" where
  "WriteResponse pick h payload =
     do {
       rs \<leftarrow> hp_Response h;
       ls \<leftarrow> response_lines pick (rs_Headers rs);
       Some ((concat (map (\<lambda>l. l @ CRLF) (status_line rs # ls)) @ CRLF) # (if length payload > 0 then [payload] else [])) }"

definition ReadResponse :: "bytes list \<Rightarrow> (goerr + bytes) \<times> bytes list" where
  "ReadResponse conn =
     (case src_Read MaxPacketLen conn of
        (Inl e, conn) \<Rightarrow> (Inl e, conn)
      | (Inr bs, conn) \<Rightarrow>
          (case list_index HeaderENDING bs of
             None \<Rightarrow> (Inl ErrInvalidData, conn)
           | Some indexOfEnding \<Rightarrow> (Inr (drop (indexOfEnding + 4) bs), conn)))"

section \<open>HeaderConn\<close>

text \<open>\<open>hc_reader\<close> is \<open>optionalReader\<close>, a \<open>MultiReader\<close>: what is left of its buffer, once it is set. \<open>hc_out\<close> are the writes
  to the connection, \<open>hc_callback\<close> what \<open>ReadOkCallback\<close> was given.\<close>

record HeaderConn =
  hc_H :: HeaderPreset
  IsServerEnd :: bool
  hc_Conn :: "bytes list"
  hc_reader :: "bytes option option"
  notFirstWrite :: bool
  hc_out :: "bytes list"
  hc_callback :: "bytes option"

definition hc_read_more :: "nat \<Rightarrow> bytes option \<Rightarrow> HeaderConn \<Rightarrow> (goerr + bytes) \<times> HeaderConn" where
  "hc_read_more n r c =
     (case multi_Read n (r, hc_Conn c) of (v, (r, conn)) \<Rightarrow> (v, c\<lparr>hc_reader := Some r, hc_Conn := conn\<rparr>))"

definition HeaderConn_Read :: "nat \<Rightarrow> HeaderConn \<Rightarrow> ((goerr + bytes) \<times> HeaderConn) option" where
  "HeaderConn_Read n c =
     (case hc_reader c of
        Some r \<Rightarrow> Some (hc_read_more n r c)
      | None \<Rightarrow>
          if IsServerEnd c then
            do {
              ((rp, res), conn) \<leftarrow> ReadRequest (hc_H c) (hc_Conn c);
              let c = c\<lparr>hc_Conn := conn\<rparr>;
              Some (case res of
                  Inl e \<Rightarrow>
                    (let e = err_wrap ''http HeaderConn Read failed, at serverEnd'' e in
                     (Inl (case rp of Some p \<Rightarrow> ErrBuffer e (WholeRequestBuf p) | None \<Rightarrow> e), c))
                | Inr buf \<Rightarrow>
                    hc_read_more n (Some buf) (c\<lparr>hc_callback := map_option WholeRequestBuf rp\<rparr>)) }
          else
            (case ReadResponse (hc_Conn c) of
               (Inl e, conn) \<Rightarrow> Some (Inl (err_wrap ''http HeaderConn Read failed'' e), c\<lparr>hc_Conn := conn\<rparr>)
             | (Inr buf, conn) \<Rightarrow> Some (hc_read_more n (Some buf) (c\<lparr>hc_Conn := conn\<rparr>))))"

definition HeaderConn_Write :: "http_env \<Rightarrow> (string \<Rightarrow> nat) \<Rightarrow> bytes \<Rightarrow> HeaderConn \<Rightarrow> ((goerr + nat) \<times> HeaderConn) option" where
  "HeaderConn_Write env pick p c =
     (if notFirstWrite c then Some (Inr (length p), c\<lparr>hc_out := hc_out c @ [p]\<rparr>)
      else
        (let c = c\<lparr>notFirstWrite := True\<rparr> in
         if IsServerEnd c then
           (if NoResponseHeaderWhenGotHttpResponse (hc_H c) \<and> length p > 5 \<and> take 4 p = bytes_of_string ''HTTP''
            then Some (Inr (length p), c\<lparr>hc_out := hc_out c @ [p]\<rparr>)
            else do { ws \<leftarrow> WriteResponse pick (hc_H c) p; Some (Inr (length p), c\<lparr>hc_out := hc_out c @ ws\<rparr>) })
         else
           do {
             res \<leftarrow> WriteRequest env pick (hc_H c) p;
             Some (case res of Inl e \<Rightarrow> (Inl e, c) | Inr bs \<Rightarrow> (Inr (length p), c\<lparr>hc_out := hc_out c @ [bs]\<rparr>)) }))"

section \<open>What the client writes is what the server expects\<close>

definition value_ok :: "string \<Rightarrow> bool" where
  "value_ok v \<longleftrightarrow> CHR 0x0A \<notin> set v \<and> CHR 0x0D \<notin> set v \<and> (v \<noteq> [] \<longrightarrow> \<not> ascii_space (hd v) \<and> \<not> ascii_space (last v))"

definition key_ok :: "string \<Rightarrow> bool" where
  "key_ok k \<longleftrightarrow> k \<noteq> [] \<and> list_all field_char k"

lemma clean_value_id: "value_ok v \<Longrightarrow> clean_value v = v"
proof -
  assume v: "value_ok v"
  have "map (\<lambda>c. if c = CHR 0x0A \<or> c = CHR 0x0D then CHR '' '' else c) v = v"
    using v by (intro map_idI) (auto simp: value_ok_def)
  moreover have "dropWhile ascii_space v = v" using v by (cases v) (auto simp: value_ok_def)
  moreover have "dropWhile ascii_space (rev v) = rev v" using v by (cases v rule: rev_cases) (auto simp: value_ok_def)
  ultimately show ?thesis by (simp add: clean_value_def)
qed

lemma field_char_not: "\<not> field_char CHR '':''" "\<not> field_char CHR '' ''" "\<not> field_char CHR 0x0D"
  by (simp_all add: field_char_def is_lower_def is_upper_def)

lemma header_ok_string: "key_ok k \<Longrightarrow> value_ok v \<Longrightarrow> header_ok (string_header k v)"
proof -
  assume k: "key_ok k" and v: "value_ok v"
  have 1: "ch c \<notin> set (bytes_of_string k)" if "\<not> field_char c" for c
    using k that by (auto simp: key_ok_def list_all_iff bytes_of_string_def dest: arg_cong [of _ _ byte_to_char])
  have 2: "CR = ch CHR 0x0D" by (simp add: CR_def char_to_byte_def)
  have 3: "CR \<notin> set (bytes_of_string v)"
    unfolding 2 using v by (auto simp: value_ok_def bytes_of_string_def dest: arg_cong [of _ _ byte_to_char])
  have 4: "take 1 (bytes_of_string k) \<noteq> [ch CHR '' '']"
    using 1 [OF field_char_not(2)] by (cases k) (auto simp: bytes_of_string_def)
  have 5: "take 1 (bytes_of_string v) \<noteq> [ch CHR '' '']"
    using v by (cases v) (auto simp: value_ok_def bytes_of_string_def ascii_space_def dest: arg_cong [of _ _ byte_to_char])
  show ?thesis
    using 1 [OF field_char_not(1)] 1 [OF field_char_not(3)] 3 4 5 by (simp add: header_ok_def string_header_def 2)
qed

definition headers_ok :: "header_map \<Rightarrow> bool" where
  "headers_ok m \<longleftrightarrow> distinct (map fst m) \<and> (\<forall>(k, vs) \<in> set m. key_ok k \<and> vs \<noteq> [] \<and> list_all value_ok vs)"

definition trimmed :: "header_map \<Rightarrow> header_map \<Rightarrow> bool" where
  "trimmed = list_all2 (\<lambda>(k, vs) (k', vs'). k' = k \<and> (\<exists>v \<in> set vs. vs' = [v]))"

lemma TrimHeaders_trimmed: "\<forall>(k, vs) \<in> set m. vs \<noteq> [] \<Longrightarrow> \<exists>m'. TrimHeaders pick m = Some m' \<and> trimmed m m'"
proof (induction pick m rule: TrimHeaders.induct)
  case (2 pick k v m)
  then have v: "pick_value pick k v = Some (v ! (pick k mod length v))" "v ! (pick k mod length v) \<in> set v"
    by (simp_all add: pick_value_def rand_Intn_def)
  with 2 obtain m' where "TrimHeaders pick m = Some m'" "trimmed m m'" by auto
  with v show ?case by (auto simp: trimmed_def)
qed (simp add: trimmed_def)

lemma trimmed_fst: "trimmed m m' \<Longrightarrow> map fst m' = map fst m"
  unfolding trimmed_def by (induction rule: list_all2_induct) auto

lemma trimmed_mem: "trimmed m m' \<Longrightarrow> (k, vs') \<in> set m' \<Longrightarrow> \<exists>vs. (k, vs) \<in> set m \<and> (\<exists>v \<in> set vs. vs' = [v])"
  unfolding trimmed_def by (induction rule: list_all2_induct) auto

text \<open>The header lines of a request as pairs.\<close>

lemma other_headers_pairs:
  assumes "trimmed m m'" and "headers_ok m"
  shows "\<exists>ps. other_headers m' = map (case_prod string_header) ps \<and>
    set ps = {(k, v). (k, [v]) \<in> set m' \<and> k \<notin> set reqWriteExcludeHeader} \<and>
    length ps = length (filter (\<lambda>k. k \<notin> set reqWriteExcludeHeader) (map fst m))"
proof -
  let ?P = "\<lambda>(k, vs). k \<notin> set reqWriteExcludeHeader \<and> k \<noteq> [] \<and> list_all field_char k"
  let ?fm = "sort_key fst (filter ?P m')"
  have mem: "key_ok k \<and> (\<exists>v. vs = [v] \<and> value_ok v)" if "(k, vs) \<in> set m'" for k vs
    using trimmed_mem [OF assms(1) that] assms(2) by (force simp: headers_ok_def list_all_iff)
  have "map (\<lambda>v. string_header k (clean_value v)) vs = [string_header k (hd vs)]" if "(k, vs) \<in> set ?fm" for k vs
    using mem [of k vs] that by (auto simp: clean_value_id)
  then have "other_headers m' = concat (map (\<lambda>(k, vs). [string_header k (hd vs)]) ?fm)"
    unfolding other_headers_def by (intro arg_cong [where f = concat] map_cong) auto
  also have "\<dots> = map (case_prod string_header) (map (\<lambda>(k, vs). (k, hd vs)) ?fm)"
    by (simp add: case_prod_beta' comp_def)
  finally have 1: "other_headers m' = \<dots>" .
  have "filter ?P m' = filter (\<lambda>p. fst p \<notin> set reqWriteExcludeHeader) m'"
    using mem by (intro filter_cong) (auto simp: key_ok_def)
  then have "length ?fm = length (filter (\<lambda>k. k \<notin> set reqWriteExcludeHeader) (map fst m))"
    by (simp add: filter_map comp_def trimmed_fst [OF assms(1), symmetric])
  moreover have "set (map (\<lambda>(k, vs). (k, hd vs)) ?fm) = {(k, v). (k, [v]) \<in> set m' \<and> k \<notin> set reqWriteExcludeHeader}"
    using mem by (force simp: key_ok_def image_iff)
  ultimately show ?thesis using 1 by (intro exI [of _ "map (\<lambda>(k, vs). (k, hd vs)) ?fm"]) simp
qed

lemma string_of_header_line [simp]: "string_of_bytes (header_line (string_header k v)) = k @ CHR '':'' # CHR '' '' # v"
proof -
  have "string_of_bytes (b # bs) = byte_to_char b # string_of_bytes bs" for b bs by (simp add: string_of_bytes_def)
  then show ?thesis by (simp add: header_line_def string_header_def string_of_bytes_append)
qed

lemma splitN2_pair: "key_ok k \<Longrightarrow> splitN2 (k @ CHR '':'' # w) '':'' = [k, w]"
  using field_char_not(1) by (intro splitN2_append) (auto simp: key_ok_def list_all_iff)

lemma trim_key: "key_ok k \<Longrightarrow> trim_left (CHR '' '') k = k"
  using field_char_not(2) by (intro trim_left_id) (cases k, auto simp: key_ok_def)

lemma trim_value: "value_ok v \<Longrightarrow> trim_left (CHR '' '') v = v"
  by (intro trim_left_id) (cases v, auto simp: value_ok_def ascii_space_def)

lemma strict_loop_pairs:
  assumes "\<forall>(k, v) \<in> set ps. key_ok k \<and> value_ok v \<and> (k = ''Content-Length'' \<and> headers_get hdrs k = [] \<or> v \<in> set (headers_get hdrs k))"
  shows "strict_loop hdrs (map (\<lambda>(k, v). header_line (string_header k v)) ps) n =
    Inr (n + length (filter (\<lambda>(k, v). headers_get hdrs k \<noteq> []) ps))"
  using assms
proof (induction ps arbitrary: n)
  case (Cons p ps)
  obtain k v where p: "p = (k, v)" by force
  with Cons.prems have kv: "key_ok k" "value_ok v"
      "k = ''Content-Length'' \<and> headers_get hdrs k = [] \<or> v \<in> set (headers_get hdrs k)" by auto
  have m: "v \<in> trim_left (CHR '' '') ` set (headers_get hdrs k)" if "v \<in> set (headers_get hdrs k)"
    using that trim_value [OF kv(2)] by force
  have step: "strict_loop hdrs (header_line (string_header k v) # rest) n =
      (if headers_get hdrs k = [] then
        (if k = ''Content-Length'' \<or> k = ''Date'' then strict_loop hdrs rest n
         else Inl (err_wrap ''ReadRequest failed, unknown header'' ErrInvalidData))
       else if v \<in> trim_left (CHR '' '') ` set (headers_get hdrs k) then strict_loop hdrs rest (n + 1)
       else Inl (err_wrap ''ReadRequest failed, header content not match'' ErrInvalidData))" for rest
    by (simp add: splitN2_pair [OF kv(1)] trim_key [OF kv(1)] trim_value [OF kv(2)] Let_def)
  have IH: "strict_loop hdrs (map (\<lambda>(k, v). header_line (string_header k v)) ps) n =
    Inr (n + length (filter (\<lambda>(k, v). headers_get hdrs k \<noteq> []) ps))" for n
    using Cons.prems by (intro Cons.IH) simp
  show ?case
  proof (cases "headers_get hdrs k = []")
    case True
    with kv(3) have "k = ''Content-Length''" by simp
    with True show ?thesis unfolding p list.map prod.case step IH by simp
  next
    case False
    with kv(3) m have "v \<in> trim_left (CHR '' '') ` set (headers_get hdrs k)" by (metis empty_iff list.set(1))
    with False show ?thesis unfolding p list.map prod.case step IH by simp
  qed
qed simp

definition header_preset_ok :: "http_env \<Rightarrow> RequestHeader \<Rightarrow> bool" where
  "header_preset_ok env rq \<longleftrightarrow>
     rq_Method rq \<in> set h1_methods \<and> rq_Method rq \<noteq> ''CONNECT'' \<and> rq_Version rq = ''1.1'' \<and>
     rq_Path rq \<noteq> [] \<and> path_ok (hd (rq_Path rq)) \<and> length (rq_Method rq) + length (hd (rq_Path rq)) < 2999 \<and>
     request_uri env (hd (rq_Path rq)) = Some (hd (rq_Path rq)) \<and> headers_ok (rq_Headers rq) \<and>
     (\<forall>k \<in> {''Content-Length'', ''Transfer-Encoding'', ''Trailer''}. k \<notin> fst ` set (rq_Headers rq)) \<and>
     headers_get (rq_Headers rq) ''Host'' \<noteq> [] \<and> headers_get (rq_Headers rq) ''User-Agent'' \<noteq> [] \<and>
     [] \<notin> set (headers_get (rq_Headers rq) ''User-Agent'') \<and>
     (\<forall>v \<in> set (headers_get (rq_Headers rq) ''Host''). v \<noteq> [] \<and> clean_host env v = Some v)"

lemma h1_methods_valid: "m \<in> set h1_methods \<Longrightarrow> valid_method m"
  by (auto simp: h1_methods_def valid_method_def field_char_def is_lower_def is_upper_def)

lemma headers_get_mem: "headers_ok m \<Longrightarrow> (k, vs) \<in> set m \<Longrightarrow> headers_get m k = vs"
  by (simp add: headers_ok_def headers_get_def)

lemma trimmed_get:
  assumes "trimmed m m'" and "headers_ok m" and "headers_get m k \<noteq> []"
  obtains v where "map_of m' k = Some [v]" "v \<in> set (headers_get m k)" "value_ok v"
proof -
  from assms(3) obtain vs where "map_of m k = Some vs" by (auto simp: headers_get_def split: option.splits)
  then have "k \<in> fst ` set m'" using trimmed_fst [OF assms(1)] by (metis map_of_SomeD fst_conv imageI list.set_map)
  then obtain vs' where vs': "map_of m' k = Some vs'" by (metis map_of_eq_None_iff option.exhaust)
  with trimmed_mem [OF assms(1) map_of_SomeD] obtain ws v where w: "(k, ws) \<in> set m" "v \<in> set ws" "vs' = [v]" by blast
  with assms(2) have "value_ok v" by (auto simp: headers_ok_def list_all_iff)
  with vs' w headers_get_mem [OF assms(2) w(1)] show ?thesis by (intro that [of v]) simp_all
qed

lemma length_other_keys:
  assumes "header_preset_ok env rq"
  shows "length (filter (\<lambda>k. k \<notin> set reqWriteExcludeHeader) (map fst (rq_Headers rq))) + 2 = length (rq_Headers rq)"
proof -
  let ?ks = "map fst (rq_Headers rq)"
  have mem: "headers_get (rq_Headers rq) k \<noteq> [] \<Longrightarrow> k \<in> set ?ks" for k
    by (auto simp: headers_get_def dest: map_of_SomeD split: option.splits intro: rev_image_eqI)
  have "set (filter (\<lambda>k. k \<in> set reqWriteExcludeHeader) ?ks) = {''Host'', ''User-Agent''}"
  proof -
    have "''Host'' \<in> set ?ks" "''User-Agent'' \<in> set ?ks" using assms mem by (simp_all add: header_preset_ok_def)
    moreover have "''Content-Length'' \<notin> set ?ks" "''Transfer-Encoding'' \<notin> set ?ks" "''Trailer'' \<notin> set ?ks"
      using assms by (simp_all add: header_preset_ok_def)
    moreover have "set (filter (\<lambda>k. k \<in> set reqWriteExcludeHeader) ?ks) = set reqWriteExcludeHeader \<inter> set ?ks" by auto
    ultimately show ?thesis unfolding reqWriteExcludeHeader_def by (simp only: list.set Int_insert_left if_True if_False Int_empty_left)
  qed
  moreover have "distinct (filter (\<lambda>k. k \<in> set reqWriteExcludeHeader) ?ks)"
    using assms by (simp add: header_preset_ok_def headers_ok_def)
  ultimately have "length (filter (\<lambda>k. k \<in> set reqWriteExcludeHeader) ?ks) = 2"
    using distinct_card [of "filter (\<lambda>k. k \<in> set reqWriteExcludeHeader) ?ks"] by simp
  then show ?thesis
    using sum_length_filter_compl [of "\<lambda>k. k \<in> set reqWriteExcludeHeader" ?ks] by simp
qed

text \<open>The pairs of a request: all are fit to be written, and the strict check finds them all.\<close>

lemma request_pairs:
  assumes ok: "header_preset_ok env rq" and tr: "trimmed (rq_Headers rq) nh"
  obtains host ps where "map_of nh ''Host'' = Some [host]" and "clean_host env host = Some host" and "host \<noteq> []"
    and "request_headers (rq_Method rq) host nh payload = map (case_prod string_header) ps" and "ps \<noteq> []"
    and "\<forall>(k, v) \<in> set ps. key_ok k \<and> value_ok v"
    and "strict_loop (rq_Headers rq) (map (\<lambda>(k, v). header_line (string_header k v)) ps) 0 = Inr (length (rq_Headers rq))"
proof -
  let ?m = "rq_Headers rq"
  have hok: "headers_ok ?m" using ok by (simp add: header_preset_ok_def)
  obtain host where host: "map_of nh ''Host'' = Some [host]" "host \<in> set (headers_get ?m ''Host'')" "value_ok host"
    using trimmed_get [OF tr hok] ok by (metis header_preset_ok_def)
  obtain ua where ua: "map_of nh ''User-Agent'' = Some [ua]" "ua \<in> set (headers_get ?m ''User-Agent'')" "value_ok ua"
    using trimmed_get [OF tr hok] ok by (metis header_preset_ok_def)
  obtain qs where qs: "other_headers nh = map (case_prod string_header) qs"
      "set qs = {(k, v). (k, [v]) \<in> set nh \<and> k \<notin> set reqWriteExcludeHeader}"
      "length qs = length (filter (\<lambda>k. k \<notin> set reqWriteExcludeHeader) (map fst ?m))"
    using other_headers_pairs [OF tr hok] by blast
  define cl where "cl = (if length payload > 0 \<or> rq_Method rq \<in> {''POST'', ''PUT'', ''PATCH''}
    then [(''Content-Length'', Itoa (int (length payload)))] else [])"
  let ?ps = "(''Host'', host) # (''User-Agent'', ua) # cl @ qs"
  have ps: "request_headers (rq_Method rq) host nh payload = map (case_prod string_header) ?ps"
    using ua ok qs(1) clean_value_id [OF ua(3)]
    by (auto simp: request_headers_def user_agent_header_def content_length_header_def cl_def header_preset_ok_def)
  have k: "key_ok ''Host''" "key_ok ''User-Agent''" "key_ok ''Content-Length''"
    by (simp_all add: key_ok_def field_char_def is_lower_def is_upper_def)
  have q: "key_ok k \<and> value_ok v \<and> v \<in> set (headers_get ?m k)" if "(k, v) \<in> set qs" for k v
  proof -
    from that qs(2) have "(k, [v]) \<in> set nh" by auto
    with trimmed_mem [OF tr this] obtain vs where "(k, vs) \<in> set ?m" "v \<in> set vs" by auto
    with hok headers_get_mem [OF hok this(1)] show ?thesis by (auto simp: headers_ok_def list_all_iff)
  qed
  have digits: "value_ok (Itoa (int n))" for n
  proof -
    have d: "\<forall>c \<in> set (Itoa (int n)). is_digit c" by (simp add: Itoa_def dec_of_nat_digits flip: list_all_iff)
    have e: "\<not> is_digit c" if "ascii_space c" for c using that by (auto simp: ascii_space_def is_digit_def)
    have "CHR 0x0A \<notin> set (Itoa (int n))" "CHR 0x0D \<notin> set (Itoa (int n))" using d e by (auto simp: ascii_space_def)
    moreover have "\<not> ascii_space (hd (Itoa (int n)))" "\<not> ascii_space (last (Itoa (int n)))" if "Itoa (int n) \<noteq> []"
      using d e hd_in_set [OF that] last_in_set [OF that] by auto
    ultimately show ?thesis by (simp add: value_ok_def)
  qed
  have none: "headers_get ?m ''Content-Length'' = []"
  proof -
    have "map_of ?m ''Content-Length'' = None" using ok by (simp add: header_preset_ok_def map_of_eq_None_iff)
    then show ?thesis by (simp add: headers_get_def)
  qed
  have all: "\<forall>(k, v) \<in> set ?ps. key_ok k \<and> value_ok v \<and> (k = ''Content-Length'' \<and> headers_get ?m k = [] \<or> v \<in> set (headers_get ?m k))"
    using host ua q k digits none by (auto simp: cl_def)
  have ne: "headers_get ?m ''Host'' \<noteq> []" "headers_get ?m ''User-Agent'' \<noteq> []"
    using ok by (simp_all add: header_preset_ok_def)
  have "filter (\<lambda>(k, v). headers_get ?m k \<noteq> []) cl = []" using none by (auto simp: cl_def)
  moreover have "filter (\<lambda>(k, v). headers_get ?m k \<noteq> []) qs = qs" using q by (intro filter_True) force
  ultimately have "length (filter (\<lambda>(k, v). headers_get ?m k \<noteq> []) ?ps) = length ?m"
    using length_other_keys [OF ok] ne qs(3) by simp
  with strict_loop_pairs [OF all, of 0] show ?thesis
    using host ok all by (intro that [OF host(1) _ _ ps]) (auto simp: header_preset_ok_def)
qed

definition first_line :: "string \<Rightarrow> string \<Rightarrow> string \<Rightarrow> bytes" where
  "first_line method path version =
     bytes_of_string method @ ch CHR '' '' # bytes_of_string path @ ch CHR '' '' # bytes_of_string ''HTTP/'' @ bytes_of_string version"

lemma h1_render_lines:
  assumes "hs \<noteq> []"
  shows "h1_render m p v hs body = join CRLF (first_line m p v # map header_line hs) @ HeaderENDING @ body"
  using assms by (cases hs) (simp_all add: h1_render_def h1_head_def h1_rest_def first_line_def)

lemma bytes_of_string_mem: "b \<in> set (bytes_of_string s) \<Longrightarrow> byte_to_char b \<in> set s"
  by (auto simp: bytes_of_string_def)

lemma first_line_CR: "m \<in> set h1_methods \<Longrightarrow> path_ok p \<Longrightarrow> CR \<notin> set (first_line m p ''1.1'')"
  by (auto simp: first_line_def h1_methods_def path_ok_def stop_byte_def list_all_iff bytes_of_string_def CR_def LF_def char_to_byte_def)

text \<open>A request as it is written passes, in the strict mode too, and what follows its header is left.\<close>

lemma ReadRequest_render:
  assumes ok: "header_preset_ok env rq" and h: "hp_Request h = Some rq" and ps: "ps \<noteq> []"
    and fit: "\<forall>(k, v) \<in> set ps. key_ok k \<and> value_ok v"
    and strict: "strict_loop (rq_Headers rq) (map (\<lambda>(k, v). header_line (string_header k v)) ps) 0 = Inr (length (rq_Headers rq))"
    and len: "length (h1_render (rq_Method rq) (hd (rq_Path rq)) ''1.1'' (map (case_prod string_header) ps) body) \<le> MaxPacketLen"
  shows "\<exists>p. ReadRequest h (h1_render (rq_Method rq) (hd (rq_Path rq)) ''1.1'' (map (case_prod string_header) ps) body # cs) =
    Some ((Some p, Inr body), cs)"
proof -
  define hs where "hs = map (case_prod string_header) ps"
  define req where "req = h1_render (rq_Method rq) (hd (rq_Path rq)) ''1.1'' hs body"
  define fl where "fl = first_line (rq_Method rq) (hd (rq_Path rq)) ''1.1''"
  have hs: "hs \<noteq> []" "list_all header_ok hs"
    using ps fit header_ok_string by (auto simp: hs_def list_all_iff)
  have m: "rq_Method rq \<in> set h1_methods" "rq_Method rq \<noteq> ''CONNECT''" "path_ok (hd (rq_Path rq))" "rq_Path rq \<noteq> []"
      "length (rq_Method rq) + length (hd (rq_Path rq)) < 2999" "rq_Version rq = ''1.1''"
    using ok by (simp_all add: header_preset_ok_def)
  have parse: "ParseH1Request req False = Some \<lparr>h1_version = ''1.1'', h1_method = rq_Method rq, h1_path = hd (rq_Path rq),
      h1_headers = hs, h1_failreason = 0\<rparr>"
    unfolding req_def by (rule h1_complete [OF m(1-3,5) _ hs]) simp
  have lines: "req = join CRLF (fl # map header_line hs) @ HeaderENDING @ body"
    by (simp add: req_def fl_def h1_render_lines [OF hs(1)])
  have cr: "list_all (\<lambda>l. CR \<notin> set l \<and> l \<noteq> []) (fl # map header_line hs)"
    using hs(2) header_line_CR first_line_CR [OF m(1,3)] by (fastforce simp: fl_def list_all_iff header_line_def first_line_def)
  have ending: "list_index HeaderENDING req = Some (length (join CRLF (fl # map header_line hs)))"
    unfolding lines by (rule ending_index [OF cr]) simp
  define joined where "joined = join CRLF (map header_line hs)"
  have joined: "join CRLF (fl # map header_line hs) = fl @ CRLF @ joined"
    using hs(1) by (cases hs) (simp_all add: joined_def)
  have crlf: "list_index CRLF req = Some (length fl)"
    unfolding lines joined using cr by (simp add: CRLF_def list_index_skip)
  have slice: "bytes_slice (fl @ CRLF @ joined) (Suc (Suc (length fl))) (length (fl @ CRLF @ joined)) = Some joined"
    by (simp add: bytes_slice_def list_slice_def CRLF_def)
  have "split_on joined CRLF = map (\<lambda>(k, v). header_line (string_header k v)) ps"
    unfolding joined_def split_headers [OF hs(2,1)] by (auto simp: hs_def)
  then have check: "strict_check (rq_Headers rq) req (fl @ CRLF @ joined) = Some None"
    by (simp add: strict_check_def crlf slice strict Let_def del: length_append)
  have take: "take (length (fl @ CRLF @ joined)) req = fl @ CRLF @ joined" unfolding lines joined by simp
  have drop: "drop (length (fl @ CRLF @ joined) + length HeaderENDING) req = body" unfolding lines joined by simp
  have read: "ReadAndParse (req # cs) = Some ((Some \<lparr>hp_request = \<lparr>h1_version = ''1.1'', h1_method = rq_Method rq, h1_path = hd (rq_Path rq),
      h1_headers = hs, h1_failreason = 0\<rparr>, WholeRequestBuf = req\<rparr>, None), cs)"
  proof -
    have "length req \<le> MaxPacketLen" using len by (simp add: req_def hs_def)
    then show ?thesis by (simp add: ReadAndParse_def parse read_failed_def)
  qed
  have "hd (rq_Path rq) \<in> set (rq_Path rq)" using m(4) by simp
  then show ?thesis
    unfolding hs_def [symmetric] req_def [symmetric]
    by (simp add: ReadRequest_def read h m(6) ending joined check drop take Let_def del: take_append drop_append length_append)
qed

lemma h1_render_body: "h1_render m p v hs body = h1_render m p v hs [] @ body"
  by (simp add: h1_render_def h1_rest_def)

lemma split_at_header:
  assumes "xs @ ys = zs @ ws" and "length zs \<le> length xs"
  obtains us where "xs = zs @ us" "ws = us @ ys"
  using assms by (metis append_eq_append_conv_if append_take_drop_id)

text \<open>C34: 
  For a preset whose headers can be written, every choice of the random values and every payload: what the client writes is a header
  and the payload, and the server, strict or not, takes it whenever its first read has the whole header, and hands on exactly the payload.
\<close>
theorem header_request_roundtrip:
  assumes "header_preset_ok env rq" and "hp_Request h = Some rq"
  shows "\<exists>header. WriteRequest env pick h payload = Some (Inr (header @ payload)) \<and>
    (\<forall>c1 cs. c1 @ concat cs = header @ payload \<and> length header \<le> length c1 \<and> length c1 \<le> MaxPacketLen \<longrightarrow>
      (\<exists>p left. ReadRequest h (c1 # cs) = Some ((Some p, Inr left), cs) \<and> left @ concat cs = payload))"
proof -
  have hok: "\<forall>(k, vs) \<in> set (rq_Headers rq). vs \<noteq> []" using assms(1) by (auto simp: header_preset_ok_def headers_ok_def)
  then obtain nh where nh: "TrimHeaders pick (rq_Headers rq) = Some nh" "trimmed (rq_Headers rq) nh"
    using TrimHeaders_trimmed by blast
  obtain host ps where ps: "map_of nh ''Host'' = Some [host]" "clean_host env host = Some host" "host \<noteq> []"
      "request_headers (rq_Method rq) host nh payload = map (case_prod string_header) ps" "ps \<noteq> []"
      "\<forall>(k, v) \<in> set ps. key_ok k \<and> value_ok v"
      "strict_loop (rq_Headers rq) (map (\<lambda>(k, v). header_line (string_header k v)) ps) 0 = Inr (length (rq_Headers rq))"
    using request_pairs [OF assms(1) nh(2), of payload] by blast
  let ?m = "rq_Method rq" and ?path = "hd (rq_Path rq)" and ?hs = "map (case_prod string_header) ps"
  let ?header = "h1_render ?m ?path ''1.1'' ?hs []"
  have m: "?m \<in> set h1_methods" "rq_Path rq \<noteq> []" "request_uri env ?path = Some ?path"
    using assms(1) by (simp_all add: header_preset_ok_def)
  have "?m \<noteq> []" using m(1) by (auto simp: h1_methods_def)
  with m h1_methods_valid [OF m(1)] have "WriteRequest env pick h payload =
      Some (Inr (h1_render ?m ?path ''1.1'' (request_headers ?m host nh payload) payload))"
    by (cases "rq_Path rq") (simp_all add: WriteRequest_def assms(2) default_to_def nh(1) ps(1-3) pick_value_def rand_Intn_def headers_get_def Let_def)
  then have wr: "WriteRequest env pick h payload = Some (Inr (?header @ payload))"
    unfolding ps(4) h1_render_body [of ?m ?path "''1.1''" ?hs payload] .
  have "\<exists>p left. ReadRequest h (c1 # cs) = Some ((Some p, Inr left), cs) \<and> left @ concat cs = payload"
    if hyp: "c1 @ concat cs = ?header @ payload" "length ?header \<le> length c1" "length c1 \<le> MaxPacketLen" for c1 cs
  proof -
    obtain body where c1: "c1 = ?header @ body" "payload = body @ concat cs"
      using split_at_header [OF hyp(1,2)] .
    then have eq: "c1 = h1_render ?m ?path ''1.1'' ?hs body" unfolding h1_render_body [of ?m ?path "''1.1''" ?hs body] by simp
    from ReadRequest_render [OF assms ps(5-7), of body cs] hyp(3) show ?thesis unfolding eq c1(2) by blast
  qed
  with wr show ?thesis by blast
qed

text \<open>Responses: the client drops a response header that its first read has whole.\<close>

definition response_ok :: "ResponseHeader \<Rightarrow> bool" where
  "response_ok rs \<longleftrightarrow> CHR 0x0D \<notin> set (rs_Version rs @ rs_StatusCode rs @ rs_Reason rs) \<and>
     (\<forall>(k, vs) \<in> set (rs_Headers rs). CHR 0x0D \<notin> set k \<and> vs \<noteq> [] \<and> (\<forall>v \<in> set vs. CHR 0x0D \<notin> set v))"

lemma response_lines_ok:
  assumes "\<forall>(k, vs) \<in> set m. CHR 0x0D \<notin> set k \<and> vs \<noteq> [] \<and> (\<forall>v \<in> set vs. CHR 0x0D \<notin> set v)"
  shows "\<exists>ls. response_lines pick m = Some ls \<and> list_all (\<lambda>l. CR \<notin> set l \<and> l \<noteq> []) ls"
  using assms
proof (induction pick m rule: response_lines.induct)
  case (2 pick k v m)
  then have v: "pick_value pick k v = Some (v ! (pick k mod length v))" "v ! (pick k mod length v) \<in> set v"
    by (simp_all add: pick_value_def rand_Intn_def)
  with 2 obtain ls where ls: "response_lines pick m = Some ls" "list_all (\<lambda>l. CR \<notin> set l \<and> l \<noteq> []) ls" by auto
  have "CR = ch CHR 0x0D" by (simp add: CR_def char_to_byte_def)
  then have "byte_to_char CR = CHR 0x0D" by (metis char_byte_char)
  then have "CR \<notin> set (bytes_of_string (k @ '':'' @ v ! (pick k mod length v)))"
    using 2(2) v(2) by (auto dest!: bytes_of_string_mem)
  with v ls show ?case by simp
qed simp

lemma concat_lines: "ls \<noteq> [] \<Longrightarrow> concat (map (\<lambda>l. l @ CRLF) ls) @ CRLF = join CRLF ls @ HeaderENDING"
  by (induction CRLF ls rule: join.induct) (simp_all add: HeaderENDING_def)

text \<open>
  Every payload that the server writes behind its first response header is what the client's reads return after that header, whatever
  values are picked, provided the first read has the header whole.
\<close>
theorem header_response_roundtrip:
  assumes "hp_Response h = Some rs" and "response_ok rs"
  shows "\<exists>header. WriteResponse pick h payload = Some (header # (if payload = [] then [] else [payload])) \<and>
    (\<forall>c1 cs. c1 @ concat cs = header @ payload \<and> length header \<le> length c1 \<and> length c1 \<le> MaxPacketLen \<longrightarrow>
      (\<exists>left. ReadResponse (c1 # cs) = (Inr left, cs) \<and> left @ concat cs = payload))"
proof -
  obtain ls where ls: "response_lines pick (rs_Headers rs) = Some ls" "list_all (\<lambda>l. CR \<notin> set l \<and> l \<noteq> []) ls"
    using response_lines_ok assms(2) unfolding response_ok_def by blast
  let ?ls = "status_line rs # ls"
  let ?header = "join CRLF ?ls @ HeaderENDING"
  have "CR = ch CHR 0x0D" by (simp add: CR_def char_to_byte_def)
  then have "byte_to_char CR = CHR 0x0D" by (metis char_byte_char)
  then have "CR \<notin> set (status_line rs)"
    using assms(2) by (auto simp: status_line_def response_ok_def dest!: bytes_of_string_mem)
  with ls(2) have cr: "list_all (\<lambda>l. CR \<notin> set l \<and> l \<noteq> []) ?ls" by (simp add: status_line_def bytes_of_string_def)
  have wr: "WriteResponse pick h payload = Some (?header # (if payload = [] then [] else [payload]))"
    using assms(1) ls(1) concat_lines [of ?ls] by (simp add: WriteResponse_def)
  have "\<exists>left. ReadResponse (c1 # cs) = (Inr left, cs) \<and> left @ concat cs = payload"
    if hyp: "c1 @ concat cs = ?header @ payload" "length ?header \<le> length c1" "length c1 \<le> MaxPacketLen" for c1 cs
  proof -
    obtain body where c1: "c1 = ?header @ body" "payload = body @ concat cs"
      using split_at_header [OF hyp(1,2)] .
    have idx: "list_index HeaderENDING c1 = Some (length (join CRLF ?ls))" using ending_index [OF cr, of body] c1(1) by simp
    have "drop (length (join CRLF ?ls) + 4) c1 = body" by (simp add: c1(1) HeaderENDING_def CRLF_def)
    then show ?thesis using hyp(3) c1(2) by (simp add: ReadResponse_def idx)
  qed
  with wr show ?thesis by blast
qed

text \<open>The default preset.\<close>

definition default_preset :: HeaderPreset where
  "default_preset = AssignDefaultValue \<lparr>hp_Request = None, hp_Response = None, Strict = True, NoResponseHeaderWhenGotHttpResponse = False\<rparr>"

definition plain_env :: http_env where
  "plain_env = \<lparr>request_uri = Some, clean_host = Some\<rparr>"

lemma canonical_defaults:
  "canonical_headers default_request_headers = default_request_headers"
  "canonical_headers default_response_headers = default_response_headers"
  by (simp_all add: canonical_headers_def default_request_headers_def default_response_headers_def header_Add_def headers_get_def
      CanonicalMIMEHeaderKey_def field_char_def is_lower_def is_upper_def ascii_lower_def ascii_upper_def)

lemma default_preset_eq:
  "default_preset =
    \<lparr>hp_Request = Some \<lparr>rq_Version = ''1.1'', rq_Method = ''GET'', rq_Path = [''/''], rq_Headers = default_request_headers\<rparr>,
     hp_Response = Some \<lparr>rs_Version = ''1.1'', rs_StatusCode = ''200'', rs_Reason = ''OK'', rs_Headers = default_response_headers\<rparr>,
     Strict = True, NoResponseHeaderWhenGotHttpResponse = False\<rparr>"
proof -
  have "default_request_headers \<noteq> []" "default_response_headers \<noteq> []"
    by (simp_all add: default_request_headers_def default_response_headers_def)
  then show ?thesis by (simp add: default_preset_def AssignDefaultValue_def Prepare_def default_to_def canonical_defaults)
qed

lemma default_preset_ok:
  "header_preset_ok plain_env \<lparr>rq_Version = ''1.1'', rq_Method = ''GET'', rq_Path = [''/''], rq_Headers = default_request_headers\<rparr>"
  by (simp add: header_preset_ok_def h1_methods_def path_ok_def stop_byte_def bytes_of_string_def char_to_byte_def CR_def LF_def plain_env_def
      headers_ok_def headers_get_def default_request_headers_def key_ok_def field_char_def is_lower_def is_upper_def value_ok_def ascii_space_def)

lemma header_request_roundtrip_witness:
  "\<exists>header. WriteRequest plain_env (\<lambda>_. 7) default_preset [1, 2, 3] = Some (Inr (header @ [1, 2, 3])) \<and>
    (length header + 1 \<le> MaxPacketLen \<longrightarrow>
      (\<exists>p left. ReadRequest default_preset [header @ [1], [2, 3]] = Some ((Some p, Inr left), [[2, 3]]) \<and> left = [1]))"
proof -
  have "hp_Request default_preset = Some \<lparr>rq_Version = ''1.1'', rq_Method = ''GET'', rq_Path = [''/''], rq_Headers = default_request_headers\<rparr>"
    by (simp add: default_preset_eq)
  from header_request_roundtrip [OF default_preset_ok this, of "\<lambda>_. 7" "[1, 2, 3]"]
  obtain header where h: "WriteRequest plain_env (\<lambda>_. 7) default_preset [1, 2, 3] = Some (Inr (header @ [1, 2, 3]))"
      "\<forall>c1 cs. c1 @ concat cs = header @ [1, 2, 3] \<and> length header \<le> length c1 \<and> length c1 \<le> MaxPacketLen \<longrightarrow>
        (\<exists>p left. ReadRequest default_preset (c1 # cs) = Some ((Some p, Inr left), cs) \<and> left @ concat cs = [1, 2, 3])" by blast
  from h(2) [rule_format, of "header @ [1]" "[[2, 3]]"] h(1) show ?thesis by auto
qed

lemma header_response_roundtrip_witness:
  "\<exists>header. WriteResponse (\<lambda>_. 1) default_preset [5] = Some [header, [5]] \<and>
    (length header \<le> MaxPacketLen \<longrightarrow> (\<exists>left. ReadResponse [header, [5]] = (Inr left, [[5]]) \<and> left = []))"
proof -
  have "response_ok \<lparr>rs_Version = ''1.1'', rs_StatusCode = ''200'', rs_Reason = ''OK'', rs_Headers = default_response_headers\<rparr>"
    by (simp add: response_ok_def default_response_headers_def)
  from header_response_roundtrip [OF _ this, of default_preset "\<lambda>_. 1" "[5]"]
  obtain header where h: "WriteResponse (\<lambda>_. 1) default_preset [5] = Some [header, [5]]"
      "\<forall>c1 cs. c1 @ concat cs = header @ [5] \<and> length header \<le> length c1 \<and> length c1 \<le> MaxPacketLen \<longrightarrow>
        (\<exists>left. ReadResponse (c1 # cs) = (Inr left, cs) \<and> left @ concat cs = [5])"
    by (auto simp: default_preset_eq)
  from h(2) [rule_format, of header "[[5]]"] h(1) show ?thesis by auto
qed

text \<open>A response header that does not come in one read is an error, which is not recovered from.\<close>

lemma response_header_in_two_reads:
  assumes "list_index HeaderENDING c1 = None" and "length c1 \<le> MaxPacketLen"
  shows "ReadResponse (c1 # cs) = (Inl ErrInvalidData, cs)"
  using assms by (simp add: ReadResponse_def)

section \<open>What the strict mode accepts\<close>

definition line_matches :: "header_map \<Rightarrow> bytes \<Rightarrow> bool" where
  "line_matches hdrs line \<longleftrightarrow> (\<exists>s0 s1. string_of_bytes line = s0 @ '':'' @ s1 \<and>
     trim_left (CHR '' '') s1 \<in> trim_left (CHR '' '') ` set (headers_get hdrs (trim_left (CHR '' '') s0)))"

definition line_extra :: "bytes \<Rightarrow> bool" where
  "line_extra line \<longleftrightarrow> (\<exists>s0 s1. string_of_bytes line = s0 @ '':'' @ s1 \<and> trim_left (CHR '' '') s0 \<in> {''Content-Length'', ''Date''})"

lemma splitN2_colon: "splitN2 s '':'' = [s0, s1] \<Longrightarrow> s = s0 @ '':'' @ s1"
  using list_index_SomeD [of "'':''" s] by (auto simp: splitN2_def split: option.splits)

lemma strict_loop_sound:
  assumes "strict_loop hdrs ls n = Inr k"
  shows "(\<forall>l \<in> set ls. line_matches hdrs l \<or> line_extra l) \<and> k \<le> n + length (filter (line_matches hdrs) ls)"
  using assms
proof (induction hdrs ls n rule: strict_loop.induct)
  case (2 hdrs header rest n)
  then obtain s0 s1 where s: "splitN2 (string_of_bytes header) '':'' = [s0, s1]" by (auto split: list.splits)
  note eq = splitN2_colon [OF s]
  let ?key = "trim_left (CHR '' '') s0" and ?hval = "trim_left (CHR '' '') s1"
  show ?case
  proof (cases "headers_get hdrs ?key")
    case Nil
    with 2(3) s have r: "?key = ''Content-Length'' \<or> ?key = ''Date''" "strict_loop hdrs rest n = Inr k"
      by (auto simp: Let_def split: if_splits)
    from r(1) eq have "line_extra header" by (auto simp: line_extra_def)
    moreover have "(\<forall>l \<in> set rest. line_matches hdrs l \<or> line_extra l) \<and> k \<le> n + length (filter (line_matches hdrs) rest)"
      using 2(1) [OF s] Nil r by simp
    ultimately show ?thesis by auto
  next
    case (Cons v vs)
    with 2(3) s have r: "?hval \<in> trim_left (CHR '' '') ` set (headers_get hdrs ?key)" "strict_loop hdrs rest (n + 1) = Inr k"
      by (auto simp: Let_def split: if_splits)
    from r(1) eq have "line_matches hdrs header" by (auto simp: line_matches_def)
    moreover have "(\<forall>l \<in> set rest. line_matches hdrs l \<or> line_extra l) \<and> k \<le> n + 1 + length (filter (line_matches hdrs) rest)"
      using 2(2) [OF s] Cons r by simp
    ultimately show ?thesis by auto
  qed
qed simp

text \<open>
  A request that the server takes has the method, the version and a path of the preset; in the strict mode every header line is one of
  the preset's headers with one of its values, \<open>Content-Length\<close> or \<open>Date\<close>, and there are at least as many lines of the first kind as
  the preset has headers.
\<close>
theorem header_request_sound:
  assumes "ReadRequest h conn = Some ((Some p, Inr left), conn')" and "hp_Request h = Some rq"
  shows "h1_method (hp_request p) = rq_Method rq \<and> h1_version (hp_request p) = rq_Version rq \<and> h1_path (hp_request p) \<in> set (rq_Path rq) \<and>
    (\<exists>header. WholeRequestBuf p = header @ HeaderENDING @ left \<and>
      (Strict h \<longrightarrow> (\<exists>lines. (\<forall>l \<in> set lines. line_matches (rq_Headers rq) l \<or> line_extra l) \<and>
        length (rq_Headers rq) \<le> length (filter (line_matches (rq_Headers rq)) lines) \<and>
        (\<exists>i. list_index CRLF (WholeRequestBuf p) = Some i \<and> lines = split_on (drop (i + 2) header) CRLF))))"
proof -
  have r: "ReadAndParse conn = Some ((Some p, None), conn')"
    using assms by (auto simp: ReadRequest_def Let_def bind_eq_Some_conv split: prod.splits option.splits if_splits)
  let ?r = "hp_request p" and ?all = "WholeRequestBuf p"
  from assms r have eqs: "h1_method ?r = rq_Method rq" "h1_version ?r = rq_Version rq" "h1_path ?r \<in> set (rq_Path rq)"
    by (auto simp: ReadRequest_def Let_def split: if_splits)
  obtain k where k: "list_index HeaderENDING ?all = Some k" using assms r eqs by (auto simp: ReadRequest_def Let_def split: option.splits)
  have left: "left = drop (k + length HeaderENDING) ?all"
    and strict: "Strict h \<Longrightarrow> strict_check (rq_Headers rq) ?all (take k ?all) = Some None"
    using assms r eqs k by (auto simp: ReadRequest_def Let_def bind_eq_Some_conv split: if_splits option.splits)
  have all: "?all = take k ?all @ HeaderENDING @ left" using list_index_SomeD [OF k] left by simp
  have "\<exists>lines. (\<forall>l \<in> set lines. line_matches (rq_Headers rq) l \<or> line_extra l) \<and>
      length (rq_Headers rq) \<le> length (filter (line_matches (rq_Headers rq)) lines) \<and>
      (\<exists>i. list_index CRLF ?all = Some i \<and> lines = split_on (drop (i + 2) (take k ?all)) CRLF)" if st: "Strict h"
  proof -
    have "take (length CRLF) (drop k ?all) = CRLF" "k \<le> length ?all"
      using list_index_SomeD [OF k] list_index_bound [OF k] by (metis HeaderENDING_def append.assoc append_eq_conv_conj append_take_drop_id same_append_eq, simp)
    then obtain i where i: "list_index CRLF ?all = Some i" using list_index_NoneD by (cases "list_index CRLF ?all") blast+
    define start where "start = i + 2"
    obtain hb where hb: "bytes_slice (take k ?all) start (length (take k ?all)) = Some hb"
      and chk: "(case strict_loop (rq_Headers rq) (split_on hb CRLF) 0 of Inl e \<Rightarrow> Some e
        | Inr n \<Rightarrow> if n < length (rq_Headers rq) then Some (err_wrap ''ReadRequest failed, not all headers given'' ErrInvalidData) else None) = None"
      using strict [OF st] by (auto simp: strict_check_def i start_def Let_def bind_eq_Some_conv)
    have "hb = drop start (take k ?all)" using hb by (auto simp: bytes_slice_def list_slice_def split: if_splits)
    with chk obtain n where s: "strict_loop (rq_Headers rq) (split_on (drop start (take k ?all)) CRLF) 0 = Inr n" "length (rq_Headers rq) \<le> n"
      by (auto split: sum.splits if_splits)
    have "(\<forall>l \<in> set (split_on (drop start (take k ?all)) CRLF). line_matches (rq_Headers rq) l \<or> line_extra l) \<and>
        length (rq_Headers rq) \<le> length (filter (line_matches (rq_Headers rq)) (split_on (drop start (take k ?all)) CRLF))"
      using strict_loop_sound [OF s(1)] s(2) by simp
    with i show ?thesis unfolding start_def by blast
  qed
  with eqs all show ?thesis by blast
qed

definition small_request :: RequestHeader where
  "small_request = \<lparr>rq_Version = ''1.1'', rq_Method = ''GET'', rq_Path = [''/''], rq_Headers = [(''Host'', [''a'']), (''User-Agent'', [''b''])]\<rparr>"

lemma header_request_sound_witness:
  "\<exists>p header. ReadRequest \<lparr>hp_Request = Some small_request, hp_Response = None, Strict = True, NoResponseHeaderWhenGotHttpResponse = False\<rparr>
      [h1_render ''GET'' ''/'' ''1.1'' [string_header ''Host'' ''a'', string_header ''User-Agent'' ''b''] [9]] = Some ((Some p, Inr [9]), []) \<and>
    h1_path (hp_request p) = ''/'' \<and> WholeRequestBuf p = header @ HeaderENDING @ [9]"
proof -
  let ?h = "\<lparr>hp_Request = Some small_request, hp_Response = None, Strict = True, NoResponseHeaderWhenGotHttpResponse = False\<rparr>"
  let ?ps = "[(''Host'', ''a''), (''User-Agent'', ''b'')]"
  have ok: "header_preset_ok plain_env small_request"
    by (simp add: header_preset_ok_def h1_methods_def path_ok_def stop_byte_def bytes_of_string_def char_to_byte_def CR_def LF_def plain_env_def
        headers_ok_def headers_get_def small_request_def key_ok_def field_char_def is_lower_def is_upper_def value_ok_def ascii_space_def)
  have fit: "\<forall>(k, v) \<in> set ?ps. key_ok k \<and> value_ok v"
    by (simp add: key_ok_def field_char_def is_lower_def is_upper_def value_ok_def ascii_space_def)
  have strict: "strict_loop (rq_Headers small_request) (map (\<lambda>(k, v). header_line (string_header k v)) ?ps) 0 = Inr (length (rq_Headers small_request))"
    using fit by (subst strict_loop_pairs) (simp_all add: small_request_def headers_get_def)
  have len: "length (h1_render (rq_Method small_request) (hd (rq_Path small_request)) ''1.1'' (map (case_prod string_header) ?ps) [9]) \<le> MaxPacketLen"
    by (simp add: h1_render_def h1_head_def h1_rest_def header_line_def string_header_def HeaderENDING_def CRLF_def small_request_def MaxPacketLen_def)
  from ReadRequest_render [OF ok _ _ fit strict len, of ?h "[]"] obtain p where
    p: "ReadRequest ?h [h1_render ''GET'' ''/'' ''1.1'' [string_header ''Host'' ''a'', string_header ''User-Agent'' ''b''] [9]] = Some ((Some p, Inr [9]), [])"
    by (auto simp: small_request_def)
  from header_request_sound [OF p, of small_request] p show ?thesis by (auto simp: small_request_def)
qed

text \<open>A client whose preset has another version than 1.1 is refused by a server with the same preset: \<open>net/http\<close> writes 1.1.\<close>

lemma other_version_refused:
  assumes "hp_Request h = Some rq" and "rq_Version rq \<noteq> ''1.1''" and "m \<in> set h1_methods" "m \<noteq> ''CONNECT''" "path_ok path"
    and "length m + length path < 2999" and "hs \<noteq> []" "list_all header_ok hs" and "length (h1_render m path ''1.1'' hs body) \<le> MaxPacketLen"
  shows "\<exists>p e. ReadRequest h (h1_render m path ''1.1'' hs body # cs) = Some ((Some p, Inl e), cs)"
proof -
  have "ParseH1Request (h1_render m path ''1.1'' hs body) False = Some \<lparr>h1_version = ''1.1'', h1_method = m, h1_path = path,
      h1_headers = hs, h1_failreason = 0\<rparr>"
    using assms by (intro h1_complete) simp_all
  with assms show ?thesis by (simp add: ReadRequest_def ReadAndParse_def read_failed_def Let_def)
qed

lemma TrimHeaders_get: "TrimHeaders pick m = Some m' \<Longrightarrow> headers_get m' k = [] \<longleftrightarrow> headers_get m k = []"
proof (induction pick m arbitrary: m' rule: TrimHeaders.induct)
  case (2 pick k' v m)
  then obtain x m1 where "pick_value pick k' v = Some x" "TrimHeaders pick m = Some m1" "m' = (k', [x]) # m1"
    by (auto simp: bind_eq_Some_conv)
  with 2(1) show ?case by (auto simp: headers_get_def pick_value_def rand_Intn_def split: if_splits)
qed (simp add: headers_get_def)

text \<open>Headers of a preset without a \<open>Host\<close>, or with an empty list of values, make the client panic.\<close>

lemma preset_without_host_panics:
  assumes "hp_Request h = Some rq" and "rq_Path rq = path # paths" and "request_uri env path = Some uri"
    and "valid_method (rq_Method rq)" and "headers_get (rq_Headers rq) ''Host'' = []"
  shows "WriteRequest env pick h payload = None"
proof -
  have "rq_Method rq \<noteq> []" using assms(4) by (simp add: valid_method_def)
  moreover have "headers_get nh ''Host'' = []" if "TrimHeaders pick (rq_Headers rq) = Some nh" for nh
    using TrimHeaders_get [OF that] assms(5) by simp
  ultimately show ?thesis
    using assms(1-4) by (cases "TrimHeaders pick (rq_Headers rq)") (simp_all add: WriteRequest_def default_to_def pick_value_def rand_Intn_def Let_def)
qed

text \<open>In the strict mode a header that comes twice makes up for one that is missing.\<close>

lemma duplicate_header_counts:
  assumes "key_ok k" "value_ok v" and "v \<in> set (headers_get hdrs k)" and "length hdrs = 2"
  shows "strict_loop hdrs (map (\<lambda>(k, v). header_line (string_header k v)) [(k, v), (k, v)]) 0 = Inr (length hdrs)"
proof -
  have "headers_get hdrs k \<noteq> []" using assms(3) by auto
  then show ?thesis using assms by (subst strict_loop_pairs) simp_all
qed

text \<open>\<open>CanonicalizeHeaderKey\<close> is the loop of \<open>textproto\<close>.\<close>

unbundle bit_operations_syntax

lemma nat_of_byte [simp]: "of_char (byte_to_char b) = unat b"
  by (simp add: byte_to_char_def unat_less_256)

lemma lower_byte: "is_lower (byte_to_char b) \<longleftrightarrow> 97 \<le> b \<and> b \<le> 122"
  by (simp add: is_lower_def word_le_nat_alt)

lemma upper_byte: "is_upper (byte_to_char b) \<longleftrightarrow> 65 \<le> b \<and> b \<le> 90"
  by (simp add: is_upper_def word_le_nat_alt)

lemma byte_between:
  assumes "word_of_nat m \<le> b" "b \<le> (word_of_nat n :: byte)" "m < 256" "n < 256"
  shows "b \<in> word_of_nat ` set [m..<Suc n]"
proof -
  have "b = word_of_nat (unat b)" by simp
  moreover have "m \<le> unat b" "unat b \<le> n" using assms by (simp_all add: word_le_nat_alt unat_of_nat)
  ultimately show ?thesis by (intro image_eqI [where x = "unat b"]) auto
qed

lemma clear_bit: "97 \<le> b \<Longrightarrow> b \<le> 122 \<Longrightarrow> byte_to_char (b AND - 33) = ascii_upper (byte_to_char b)" for b :: byte
  using byte_between [of 97 b 122] by (auto simp: upt_rec ascii_upper_def byte_to_char_def)

lemma set_bit: "65 \<le> b \<Longrightarrow> b \<le> 90 \<Longrightarrow> byte_to_char (b OR 32) = ascii_lower (byte_to_char b)" for b :: byte
  using byte_between [of 65 b 90] by (auto simp: upt_rec ascii_lower_def byte_to_char_def)


lemma dash_byte: "byte_to_char b = CHR ''-'' \<longleftrightarrow> b = 45"
proof -
  have "char_to_byte CHR ''-'' = 45" by (simp add: char_to_byte_def)
  then show ?thesis by (metis byte_char_byte char_byte_char)
qed

lemma canonical_loop_bytes: "string_of_bytes (CanonicalizeHeaderKey_loop upper k) = canonical_loop upper (string_of_bytes k)"
  by (induction upper k rule: CanonicalizeHeaderKey_loop.induct)
    (auto simp: string_of_bytes_def lower_byte upper_byte clear_bit set_bit dash_byte)

lemma CanonicalizeHeaderKey_eq:
  "list_all field_char (string_of_bytes k) \<Longrightarrow> string_of_bytes (CanonicalizeHeaderKey k) = CanonicalMIMEHeaderKey (string_of_bytes k)"
  by (simp add: CanonicalizeHeaderKey_def CanonicalMIMEHeaderKey_def canonical_loop_bytes)

end
