(* ===== verification/NetRoute.thy ===== *)
theory NetRoute
  imports NetAddr GoStrings
begin

text \<open>
  Routing (netLayer/route.go, netLayer/route_conf.go and the matching part of
  netLayer/geosite.go). A rule set selects traffic by inbound tag, user, transport protocol
  and destination; a policy is a list of rule sets and the first that matches gives the
  outbound tag. The CIDR trie (package cidranger), the geoip database, regular expressions
  and the text parsers of IP addresses are fields of the record \<open>route_env\<close>; what is used of
  the trie is stated where it is used. Maps to \<open>bool\<close> of which only the keys are read are
  sets. Upper-casing is on ASCII letters.
\<close>

record ('c, 're) route_env =
  NewPCTrieRanger :: 'c
  rangerLen :: "'c \<Rightarrow> nat"
  rangerContains :: "'c \<Rightarrow> bytes \<Rightarrow> bool"
  rangerInsert :: "string \<Rightarrow> 'c \<Rightarrow> 'c"
  rangerEntries :: "'c \<Rightarrow> string list"
  isCIDR :: "string \<Rightarrow> bool"
  ParseAddr :: "string \<Rightarrow> netip_Addr option"
  Compile :: "string \<Rightarrow> 're option"
  MatchString :: "'re \<Rightarrow> string \<Rightarrow> bool"
  GetIP_ISO :: "bytes \<Rightarrow> string"

section \<open>Domains and their suffixes\<close>

lemma last_index1_less: "last_index1 c xs = Some i \<Longrightarrow> i < length xs"
  by (induction c xs arbitrary: i rule: last_index1.induct) (auto split: option.splits if_splits)

text \<open>The loop of \<open>HasFullOrSubDomain\<close> at \<open>lastDotIndex\<close>.\<close>

function sub_domain_loop :: "(string \<Rightarrow> bool) \<Rightarrow> string \<Rightarrow> nat \<Rightarrow> bool" where
  "sub_domain_loop has domain lastDotIndex =
     (case last_index1 (CHR ''.'') (take lastDotIndex domain) of
        None \<Rightarrow> has domain
      | Some i \<Rightarrow> if has (drop (i + 1) domain) then True else sub_domain_loop has domain i)"
  by pat_completeness auto

termination
  by (relation "measure (\<lambda>(has, domain, i). i)") (auto dest: last_index1_less)

declare sub_domain_loop.simps [simp del]

definition HasFullOrSubDomain :: "string \<Rightarrow> (string \<Rightarrow> bool) \<Rightarrow> bool" where
  "HasFullOrSubDomain domain has = sub_domain_loop has domain (length domain)"

definition MapDomainHaser :: "string set \<Rightarrow> string \<Rightarrow> bool" where
  "MapDomainHaser mdh d = (d \<in> mdh)"

section \<open>Geosite lists\<close>

datatype attr_value = AttrBool bool | AttrInt int

record GeositeAttr =
  attrKey :: string
  attrValue :: attr_value

record GeositeDomain =
  dType :: string
  dValue :: string
  dAttrs :: "GeositeAttr list"

record 're GeositeList =
  glName :: string
  FullDomains :: "string \<rightharpoonup> GeositeDomain"
  Domains :: "string \<rightharpoonup> GeositeDomain"
  RegexDomains :: "'re list"

definition MapGeositeDomainHaser :: "(string \<rightharpoonup> GeositeDomain) \<Rightarrow> string \<Rightarrow> bool" where
  "MapGeositeDomainHaser mdh d = (mdh d \<noteq> None)"

definition IsDomainInsideGeosite ::
    "('c, 're) route_env \<Rightarrow> (string \<times> 're GeositeList) list \<Rightarrow> string \<Rightarrow> string \<Rightarrow> bool" where
  "IsDomainInsideGeosite env gmap geositeName domain =
     (case map_of gmap (map ascii_upper geositeName) of
        None \<Rightarrow> False
      | Some glist \<Rightarrow>
          FullDomains glist domain \<noteq> None
          \<or> HasFullOrSubDomain domain (MapGeositeDomainHaser (Domains glist))
          \<or> list_ex (\<lambda>reg. MatchString env reg domain) (RegexDomains glist))"

section \<open>Rule sets\<close>

record TargetDescription =
  tdAddr :: Addr
  tdInTag :: string
  tdUser :: string

record ('c, 're) RouteSet =
  NetRanger :: "'c option"
  IPs :: "netip_Addr set"
  rsDomains :: "string set"
  Full :: "string set"
  InTags :: "string set"
  Countries :: "string set"
  Users :: "string set"
  Regex :: "'re list"
  Match :: "string list"
  Geosites :: "string list"
  AllowedTransportLayerProtocols :: "16 word"
  OutTag :: string
  OutTags :: "string list"

definition zero_RouteSet :: "('c, 're) RouteSet" where
  "zero_RouteSet = \<lparr>NetRanger = None, IPs = {}, rsDomains = {}, Full = {}, InTags = {}, Countries = {},
     Users = {}, Regex = [], Match = [], Geosites = [], AllowedTransportLayerProtocols = 0,
     OutTag = [], OutTags = []\<rparr>"

definition NewRouteSetForMyCountry :: "string \<Rightarrow> ('c, 're) RouteSet option" where
  "NewRouteSetForMyCountry isoCode =
     (if length isoCode \<noteq> 2 then None
      else Some (zero_RouteSet\<lparr>Countries := {map ascii_upper isoCode}, rsDomains := {map ascii_lower isoCode},
                   OutTag := ''direct'', AllowedTransportLayerProtocols := TCP OR UDP\<rparr>))"

definition NewFullRouteSet :: "('c, 're) route_env \<Rightarrow> ('c, 're) RouteSet" where
  "NewFullRouteSet env =
     zero_RouteSet\<lparr>NetRanger := Some (NewPCTrieRanger env), AllowedTransportLayerProtocols := TCP OR UDP\<rparr>"

definition IsTransportProtocolAllowed :: "('c, 're) RouteSet \<Rightarrow> 16 word \<Rightarrow> bool" where
  "IsTransportProtocolAllowed rs p = (0 < AllowedTransportLayerProtocols rs AND p)"

definition IsAddrNetworkAllowed :: "('c, 're) RouteSet \<Rightarrow> Addr \<Rightarrow> bool" where
  "IsAddrNetworkAllowed rs a =
     (if Network a = [] then IsTransportProtocolAllowed rs TCP
      else
        let p = StrToTransportProtocol (Network a) in
        if p \<noteq> UnknownNetwork then IsTransportProtocolAllowed rs p else True)"

definition IsUDPAllowed :: "('c, 're) RouteSet \<Rightarrow> bool" where
  "IsUDPAllowed rs = IsTransportProtocolAllowed rs UDP"

definition IsTCPAllowed :: "('c, 're) RouteSet \<Rightarrow> bool" where
  "IsTCPAllowed rs = IsTransportProtocolAllowed rs TCP"

definition IsNoLimitForNetworkLayer :: "('c, 're) route_env \<Rightarrow> ('c, 're) RouteSet \<Rightarrow> bool" where
  "IsNoLimitForNetworkLayer env rs =
     ((case NetRanger rs of None \<Rightarrow> True | Some c \<Rightarrow> rangerLen env c = 0)
      \<and> IPs rs = {} \<and> Match rs = [] \<and> rsDomains rs = {} \<and> Full rs = {} \<and> Countries rs = {} \<and> Geosites rs = [])"

text \<open>The two blocks of \<open>IsAddrIn\<close>: the tests on the IP and those on the name.\<close>

definition ip_matches :: "('c, 're) route_env \<Rightarrow> ('c, 're) RouteSet \<Rightarrow> Addr \<Rightarrow> bool" where
  "ip_matches env rs a =
     (if 0 < ip_len (IP a) then
        let a = (case To4 (IP a) of Some ip4 \<Rightarrow> a\<lparr>IP := Some ip4\<rparr> | None \<Rightarrow> a);
            ip = (case IP a of Some bs \<Rightarrow> bs | None \<Rightarrow> [])
        in (case NetRanger rs of None \<Rightarrow> False | Some c \<Rightarrow> 0 < rangerLen env c \<and> rangerContains env c ip)
           \<or> (Countries rs \<noteq> {} \<and> GetIP_ISO env ip \<noteq> [] \<and> GetIP_ISO env ip \<in> Countries rs)
           \<or> (IPs rs \<noteq> {} \<and> GetNetIPAddr a \<in> IPs rs)
      else False)"

definition name_matches ::
    "('c, 're) route_env \<Rightarrow> (string \<times> 're GeositeList) list \<Rightarrow> ('c, 're) RouteSet \<Rightarrow> string \<Rightarrow> bool" where
  "name_matches env gmap rs name =
     (name \<noteq> [] \<and>
       ((Full rs \<noteq> {} \<and> name \<in> Full rs)
        \<or> (rsDomains rs \<noteq> {} \<and> HasFullOrSubDomain name (MapDomainHaser (rsDomains rs)))
        \<or> list_ex (\<lambda>m. list_contains name m) (Match rs)
        \<or> list_ex (\<lambda>reg. MatchString env reg name) (Regex rs)
        \<or> (Geosites rs \<noteq> [] \<and> gmap \<noteq> [] \<and> list_ex (\<lambda>g. IsDomainInsideGeosite env gmap g name) (Geosites rs))))"

definition IsAddrIn ::
    "('c, 're) route_env \<Rightarrow> (string \<times> 're GeositeList) list \<Rightarrow> ('c, 're) RouteSet \<Rightarrow> Addr \<Rightarrow> bool" where
  "IsAddrIn env gmap rs a =
     (if \<not> IsAddrNetworkAllowed rs a then False
      else if IsNoLimitForNetworkLayer env rs then True
      else if ip_matches env rs a then True
      else name_matches env gmap rs (Name a))"

definition IsIn ::
    "('c, 're) route_env \<Rightarrow> (string \<times> 're GeositeList) list \<Rightarrow> ('c, 're) RouteSet \<Rightarrow> TargetDescription \<Rightarrow> bool" where
  "IsIn env gmap rs td =
     (let tagOk = (if InTags rs \<noteq> {} then tdInTag td \<noteq> [] \<and> tdInTag td \<in> InTags rs else True) in
      if \<not> tagOk then False
      else
        let userOk = (if Users rs \<noteq> {} then tdUser td \<noteq> [] \<and> tdUser td \<in> Users rs else True) in
        if \<not> userOk then False
        else IsAddrIn env gmap rs (tdAddr td))"

text \<open>\<open>Clone\<close> reads the entries it copies from the new, empty trie.\<close>

definition RouteSet_Clone :: "('c, 're) route_env \<Rightarrow> ('c, 're) RouteSet \<Rightarrow> ('c, 're) RouteSet" where
  "RouteSet_Clone env rs =
     (let c = NewPCTrieRanger env;
          c = fold (rangerInsert env) (rangerEntries env c) c
      in rs\<lparr>NetRanger := Some c\<rparr>)"

section \<open>Policies\<close>

definition AddRouteSet :: "('c, 're) RouteSet option \<Rightarrow> ('c, 're) RouteSet list \<Rightarrow> ('c, 're) RouteSet list" where
  "AddRouteSet rs rp = (case rs of None \<Rightarrow> rp | Some r \<Rightarrow> rp @ [r])"

definition RoutePolicy_Clone :: "('c, 're) route_env \<Rightarrow> ('c, 're) RouteSet list \<Rightarrow> ('c, 're) RouteSet list" where
  "RoutePolicy_Clone env rp = map (RouteSet_Clone env) rp"

text \<open>\<open>intn n\<close> is what \<open>rand.Intn(n)\<close> returns.\<close>

definition out_tag :: "(nat \<Rightarrow> nat) \<Rightarrow> ('c, 're) RouteSet \<Rightarrow> string" where
  "out_tag intn rs =
     (case OutTags rs of
        [] \<Rightarrow> OutTag rs
      | [t] \<Rightarrow> t
      | ts \<Rightarrow> ts ! intn (length ts))"

fun CalcuOutTag ::
    "('c, 're) route_env \<Rightarrow> (string \<times> 're GeositeList) list \<Rightarrow> (nat \<Rightarrow> nat)
      \<Rightarrow> ('c, 're) RouteSet list \<Rightarrow> TargetDescription \<Rightarrow> string" where
  "CalcuOutTag env gmap intn [] td = ''proxy''"
| "CalcuOutTag env gmap intn (rs # rp) td =
     (if IsIn env gmap rs td then out_tag intn rs else CalcuOutTag env gmap intn rp td)"

section \<open>Loading a rule\<close>

text \<open>\<open>DialTag\<close> is an \<open>any\<close>: a string, a list of strings, a list of any (\<open>None\<close> for an
  element that is not a string), or something else.\<close>

datatype dial_tag = TagStr string | TagList "string list" | TagAny "string option list" | TagOther

record RuleConf =
  DialTag :: dial_tag
  rcInTags :: "string list"
  rcUsers :: "string list"
  rcCountries :: "string list"
  rcIPs :: "string list"
  rcDomains :: "string list"
  rcNetwork :: "string list"

definition load_domain :: "('c, 're) route_env \<Rightarrow> bool \<Rightarrow> string \<Rightarrow> ('c, 're) RouteSet \<Rightarrow> ('c, 're) RouteSet" where
  "load_domain env hasGeo d rs =
     (case list_index '':'' d of
        None \<Rightarrow> rs\<lparr>Match := Match rs @ [d]\<rparr>
      | Some colonIdx \<Rightarrow>
          let k = take colonIdx d; v = drop (colonIdx + 1) d in
          if k = ''geosite'' then (if hasGeo then rs\<lparr>Geosites := Geosites rs @ [v]\<rparr> else rs)
          else if k = ''full'' then rs\<lparr>Full := insert v (Full rs)\<rparr>
          else if k = ''domain'' then rs\<lparr>rsDomains := insert v (rsDomains rs)\<rparr>
          else if k = ''regexp'' then
            (case Compile env v of Some reg \<Rightarrow> rs\<lparr>Regex := Regex rs @ [reg]\<rparr> | None \<Rightarrow> rs)
          else rs)"

definition insert_cidr :: "('c, 're) route_env \<Rightarrow> string \<Rightarrow> ('c, 're) RouteSet \<Rightarrow> ('c, 're) RouteSet" where
  "insert_cidr env s rs =
     (if isCIDR env s then rs\<lparr>NetRanger := map_option (rangerInsert env s) (NetRanger rs)\<rparr> else rs)"

definition load_ip :: "('c, 're) route_env \<Rightarrow> string \<Rightarrow> ('c, 're) RouteSet \<Rightarrow> ('c, 're) RouteSet" where
  "load_ip env ipStr rs =
     (if ipStr = ''private'' then
        insert_cidr env ''192.168.0.0/16'' (insert_cidr env ''172.16.0.0/12'' (insert_cidr env ''10.0.0.0/8'' rs))
      else if list_contains ipStr ''/'' then insert_cidr env ipStr rs
      else (case ParseAddr env ipStr of Some na \<Rightarrow> rs\<lparr>IPs := insert na (IPs rs)\<rparr> | None \<Rightarrow> rs))"

definition load_tag :: "dial_tag \<Rightarrow> ('c, 're) RouteSet \<Rightarrow> ('c, 're) RouteSet" where
  "load_tag t rs =
     (case t of
        TagStr v \<Rightarrow> rs\<lparr>OutTag := v\<rparr>
      | TagList v \<Rightarrow> rs\<lparr>OutTags := v\<rparr>
      | TagAny v \<Rightarrow> rs\<lparr>OutTags := List.map_filter (\<lambda>x. x) v\<rparr>
      | _ \<Rightarrow> rs)"

text \<open>\<open>hasGeo\<close>: the global geosite map is not nil (the attempt to fill it is file input).\<close>

definition LoadRuleForRouteSet :: "('c, 're) route_env \<Rightarrow> bool \<Rightarrow> RuleConf \<Rightarrow> ('c, 're) RouteSet" where
  "LoadRuleForRouteSet env hasGeo rule =
     (let rs = load_tag (DialTag rule) (NewFullRouteSet env);
          rs = rs\<lparr>Countries := set (rcCountries rule)\<rparr>;
          rs = fold (load_domain env hasGeo) (rcDomains rule) rs;
          rs = rs\<lparr>InTags := set (rcInTags rule)\<rparr>;
          rs = rs\<lparr>Users := set (rcUsers rule)\<rparr>;
          rs = fold (load_ip env) (rcIPs rule) rs
      in if 0 < length (rcNetwork rule) then
           rs\<lparr>AllowedTransportLayerProtocols :=
               fold (\<lambda>netStr acc. acc OR StrToTransportProtocol netStr) (rcNetwork rule) 0\<rparr>
         else rs)"

definition LoadRulesForRoutePolicy ::
    "('c, 're) route_env \<Rightarrow> bool \<Rightarrow> RuleConf list \<Rightarrow> ('c, 're) RouteSet list \<Rightarrow> ('c, 're) RouteSet list" where
  "LoadRulesForRoutePolicy env hasGeo rules policy = policy @ map (LoadRuleForRouteSet env hasGeo) rules"

section \<open>Domain matching\<close>

lemma sub_domain_loop_iff:
  "sub_domain_loop has domain i \<longleftrightarrow>
    has domain \<or> (\<exists>j < i. j < length domain \<and> domain ! j = CHR ''.'' \<and> has (drop (j + 1) domain))"
proof (induction has domain i rule: sub_domain_loop.induct)
  case (1 has domain i)
  show ?case
  proof (cases "last_index1 (CHR ''.'') (take i domain)")
    case None
    then have "\<not> (\<exists>j < i. j < length domain \<and> domain ! j = CHR ''.'')"
      by (auto simp: in_set_conv_nth)
    moreover have "sub_domain_loop has domain i \<longleftrightarrow> has domain"
      using None by (subst sub_domain_loop.simps) (simp only: option.case)
    ultimately show ?thesis by blast
  next
    case (Some k)
    from last_index1_SomeD [OF this] have k: "k < i" "k < length domain" "domain ! k = CHR ''.''"
      and no: "CHR ''.'' \<notin> set (drop (Suc k) (take i domain))" by auto
    have last: "j \<le> k" if "j < i" "j < length domain" "domain ! j = CHR ''.''" for j
    proof (rule ccontr)
      assume "\<not> j \<le> k"
      with that have "drop (Suc k) (take i domain) ! (j - Suc k) = CHR ''.''"
        and "j - Suc k < length (drop (Suc k) (take i domain))" by auto
      with no show False by (metis nth_mem)
    qed
    have "sub_domain_loop has domain i \<longleftrightarrow> has (drop (k + 1) domain) \<or> sub_domain_loop has domain k"
      using Some by (subst sub_domain_loop.simps) simp
    also have "sub_domain_loop has domain k \<longleftrightarrow>
        \<not> has (drop (k + 1) domain) \<and> (has domain \<or> (\<exists>j < k. j < length domain \<and> domain ! j = CHR ''.'' \<and> has (drop (j + 1) domain)))
        \<or> has (drop (k + 1) domain) \<and> sub_domain_loop has domain k"
      using 1 Some by blast
    finally show ?thesis using k last by (metis (no_types, lifting) linorder_le_less_linear nat_less_le order_less_trans)
  qed
qed

locale domain_haser =
  fixes has :: "'d \<Rightarrow> string \<Rightarrow> bool" and keys :: "'d \<Rightarrow> string set"
  assumes has_iff: "has d s \<longleftrightarrow> s \<in> keys d"
begin

lemma sub_domain_iff:
  "HasFullOrSubDomain s (has d) \<longleftrightarrow> s \<in> keys d \<or> (\<exists>p k. k \<in> keys d \<and> s = p @ ''.'' @ k)"
proof -
  have "(\<exists>j < length s. s ! j = CHR ''.'' \<and> drop (j + 1) s \<in> keys d) \<longleftrightarrow> (\<exists>p k. k \<in> keys d \<and> s = p @ ''.'' @ k)"
    (is "?l \<longleftrightarrow> ?r")
  proof
    assume ?l
    then obtain j where j: "j < length s" "s ! j = CHR ''.''" "drop (j + 1) s \<in> keys d" by blast
    then have "s = take j s @ ''.'' @ drop (j + 1) s" by simp (metis id_take_nth_drop)
    with j(3) show ?r by blast
  next
    assume ?r
    then obtain p k where "k \<in> keys d" "s = p @ ''.'' @ k" by blast
    then show ?l by (intro exI [of _ "length p"]) simp
  qed
  then show ?thesis
    by (auto simp: HasFullOrSubDomain_def sub_domain_loop_iff has_iff)
qed

lemma sub_domain_mono: "keys d \<subseteq> keys d' \<Longrightarrow> HasFullOrSubDomain s (has d) \<Longrightarrow> HasFullOrSubDomain s (has d')"
  unfolding sub_domain_iff by blast

end

interpretation map_domains: domain_haser MapDomainHaser "\<lambda>mdh. mdh"
  by unfold_locales (simp add: MapDomainHaser_def)

interpretation geosite_domains: domain_haser MapGeositeDomainHaser dom
  by unfold_locales (auto simp: MapGeositeDomainHaser_def)

section \<open>Lemmas\<close>

lemma list_ex_contains: "list_ex P xs \<longleftrightarrow> (\<exists>x \<in> set xs. P x)"
  by (rule list_ex_iff)

lemma IsAddrIn_no_limit:
  "IsNoLimitForNetworkLayer env rs \<Longrightarrow> IsAddrIn env gmap rs a = IsAddrNetworkAllowed rs a"
  by (simp add: IsAddrIn_def)

definition protocols :: "16 word set" where
  "protocols = {TCP, UDP, Dual, UNIX, IP_network, Raw_socket, KCP, Quic}"

lemma StrToTransportProtocol_cases: "StrToTransportProtocol s \<in> insert UnknownNetwork protocols"
  by (simp add: StrToTransportProtocol_def protocols_def)

lemma protocols_disjoint: "p \<in> protocols \<Longrightarrow> q \<in> insert UnknownNetwork protocols \<Longrightarrow> q AND p \<noteq> 0 \<longleftrightarrow> q = p"
  by (auto simp: protocols_def model_defs)

lemma word_and_or: "((x::16 word) OR y) AND p = 0 \<longleftrightarrow> x AND p = 0 \<and> y AND p = 0"
  by (simp add: bit.conj_disj_distrib2 or_eq_0_iff)

lemma fold_or_protocols:
  assumes "p \<in> protocols"
  shows "fold (\<lambda>s acc. acc OR StrToTransportProtocol s) xs acc AND p \<noteq> 0
    \<longleftrightarrow> acc AND p \<noteq> 0 \<or> (\<exists>s \<in> set xs. StrToTransportProtocol s = p)"
proof (induction xs arbitrary: acc)
  case Nil
  then show ?case by simp
next
  case (Cons x xs)
  have "StrToTransportProtocol x AND p \<noteq> 0 \<longleftrightarrow> StrToTransportProtocol x = p"
    by (rule protocols_disjoint [OF assms StrToTransportProtocol_cases])
  with Cons show ?case by (auto simp: word_and_or)
qed

lemma load_domain_Allowed [simp]:
  "AllowedTransportLayerProtocols (load_domain env g d rs) = AllowedTransportLayerProtocols rs"
  by (simp add: load_domain_def Let_def split: option.splits)

lemma load_ip_Allowed [simp]:
  "AllowedTransportLayerProtocols (load_ip env s rs) = AllowedTransportLayerProtocols rs"
  by (simp add: load_ip_def insert_cidr_def split: option.splits)

lemma load_tag_cases: "\<exists>o1 o2. load_tag tag rs = rs\<lparr>OutTag := o1, OutTags := o2\<rparr>"
proof (cases tag)
  case (TagStr x)
  then show ?thesis by (intro exI [of _ x] exI [of _ "OutTags rs"]) (simp add: load_tag_def)
next
  case (TagList x)
  then show ?thesis by (intro exI [of _ "OutTag rs"] exI [of _ x]) (simp add: load_tag_def)
next
  case (TagAny x)
  then show ?thesis
    by (intro exI [of _ "OutTag rs"] exI [of _ "List.map_filter (\<lambda>x. x) x"]) (simp add: load_tag_def)
next
  case TagOther
  then show ?thesis by (intro exI [of _ "OutTag rs"] exI [of _ "OutTags rs"]) (simp add: load_tag_def)
qed
lemma out_tag_cases:
  assumes "\<And>n. 0 < n \<Longrightarrow> intn n < n"
  shows "if OutTags rs = [] then out_tag intn rs = OutTag rs else out_tag intn rs \<in> set (OutTags rs)"
proof (cases "OutTags rs")
  case (Cons t ts)
  show ?thesis
  proof (cases ts)
    case Nil
    with Cons show ?thesis by (simp add: out_tag_def)
  next
    case (Cons t2 ts2)
    with \<open>OutTags rs = t # ts\<close> have "out_tag intn rs = OutTags rs ! intn (length (OutTags rs))"
      by (simp add: out_tag_def)
    with nth_mem [OF assms [of "length (OutTags rs)"]] \<open>OutTags rs = t # ts\<close> show ?thesis by simp
  qed
qed (simp add: out_tag_def)

section \<open>Properties\<close>

text \<open>A \<open>domain:\<close> rule matches exactly the listed domains and their subdomains, where a
  subdomain ends in a dot and the listed domain; \<open>HasFullOrSubDomain\<close> is used for rule sets and
  for geosite lists alike.\<close>

theorem HasFullOrSubDomain_exact:
  "HasFullOrSubDomain s (MapDomainHaser ds) = (s \<in> ds \<or> (\<exists>p k. k \<in> ds \<and> s = p @ ''.'' @ k))
    \<and> HasFullOrSubDomain s (MapGeositeDomainHaser gs) = (s \<in> dom gs \<or> (\<exists>p k. k \<in> dom gs \<and> s = p @ ''.'' @ k))"
  using map_domains.sub_domain_iff [of s ds] geosite_domains.sub_domain_iff [of s gs]
  by (simp add: dom_def)

text \<open>Routing does not depend on whether an IPv4 destination is given in four bytes or as an
  IPv4-mapped IPv6 address.\<close>

theorem IsIn_mapped_ipv4:
  assumes "length ip4 = 4"
  shows "IsIn env gmap rs (td\<lparr>tdAddr := (tdAddr td)\<lparr>IP := Some (v4in6_prefix @ ip4)\<rparr>\<rparr>)
    = IsIn env gmap rs (td\<lparr>tdAddr := (tdAddr td)\<lparr>IP := Some ip4\<rparr>\<rparr>)"
  using assms
  by (simp add: IsIn_def IsAddrIn_def ip_matches_def IsAddrNetworkAllowed_def ip_len_def GetNetIPAddr_def)

text \<open>C19: The first rule set that contains the target decides: the outbound tag is its own, or one of
  its list, whatever the random choice; without such a rule set it is \<open>proxy\<close>.\<close>

theorem CalcuOutTag_first_match:
  assumes "\<And>n. 0 < n \<Longrightarrow> intn n < n"
  shows "(\<exists>pre rs post. rp = pre @ rs # post \<and> IsIn env gmap rs td \<and> list_all (\<lambda>r. \<not> IsIn env gmap r td) pre
            \<and> (if OutTags rs = [] then CalcuOutTag env gmap intn rp td = OutTag rs
               else CalcuOutTag env gmap intn rp td \<in> set (OutTags rs)))
    \<or> (list_all (\<lambda>r. \<not> IsIn env gmap r td) rp \<and> CalcuOutTag env gmap intn rp td = ''proxy'')"
proof (induction rp)
  case Nil
  then show ?case by simp
next
  case (Cons rs rp)
  show ?case
  proof (cases "IsIn env gmap rs td")
    case True
    from out_tag_cases [of intn rs, OF assms]
    have "if OutTags rs = [] then out_tag intn rs = OutTag rs else out_tag intn rs \<in> set (OutTags rs)" .
    with True show ?thesis by - (rule disjI1, rule exI [of _ "[]"], rule exI [of _ rs], rule exI [of _ rp], simp)
  next
    case False
    with Cons show ?thesis
    proof (elim disjE exE conjE)
      fix pre r post
      assume "rp = pre @ r # post" "IsIn env gmap r td" "list_all (\<lambda>r. \<not> IsIn env gmap r td) pre"
        "if OutTags r = [] then CalcuOutTag env gmap intn rp td = OutTag r
         else CalcuOutTag env gmap intn rp td \<in> set (OutTags r)"
      with False show ?thesis by - (rule disjI1, rule exI [of _ "rs # pre"], rule exI [of _ r], rule exI [of _ post], auto split: if_splits)
    qed simp
  qed
qed

text \<open>A \<open>network\<close> list admits exactly the transport protocols its entries name.\<close>

theorem LoadRule_network:
  assumes "p \<in> {TCP, UDP, Dual, UNIX, IP_network, Raw_socket, KCP, Quic}" "rcNetwork rule \<noteq> []"
  shows "IsTransportProtocolAllowed (LoadRuleForRouteSet env hasGeo rule) p
    \<longleftrightarrow> (\<exists>s \<in> set (rcNetwork rule). StrToTransportProtocol s = p)"
proof -
  have "IsTransportProtocolAllowed (LoadRuleForRouteSet env hasGeo rule) p \<longleftrightarrow>
      fold (\<lambda>s acc. acc OR StrToTransportProtocol s) (rcNetwork rule) 0 AND p \<noteq> 0"
    using assms(2)
    by (simp add: IsTransportProtocolAllowed_def LoadRuleForRouteSet_def Let_def word_neq_0_conv)
  with fold_or_protocols [of p "rcNetwork rule" 0] assms(1) show ?thesis
    by (simp add: protocols_def)
qed

text \<open>A rule whose only condition is a regular expression matches every destination of an allowed
  network: \<open>IsNoLimitForNetworkLayer\<close> does not look at the expressions.\<close>

theorem regexp_only_rule_matches_all:
  assumes "Compile env r = Some reg" "rangerLen env (NewPCTrieRanger env) = 0"
    and "Network (tdAddr td) \<in> {'''', ''tcp'', ''udp''}"
  shows "IsIn env gmap (LoadRuleForRouteSet env hasGeo
     \<lparr>DialTag = tag, rcInTags = [], rcUsers = [], rcCountries = [], rcIPs = [],
      rcDomains = [''regexp:'' @ r], rcNetwork = []\<rparr>) td"
proof -
  obtain o1 o2 where t: "load_tag tag (NewFullRouteSet env) = (NewFullRouteSet env)\<lparr>OutTag := o1, OutTags := o2\<rparr>"
    using load_tag_cases by blast
  have "IsAddrNetworkAllowed (NewFullRouteSet env\<lparr>Regex := [reg], OutTag := o1, OutTags := o2\<rparr>) (tdAddr td)"
    using assms(3) by (auto simp: IsAddrNetworkAllowed_def IsTransportProtocolAllowed_def NewFullRouteSet_def
        StrToTransportProtocol_def model_defs DualNetworkName_def)
  then show ?thesis
    using assms(1,2)
    by (simp add: LoadRuleForRouteSet_def Let_def t load_domain_def)
      (simp add: IsIn_def IsAddrIn_def IsNoLimitForNetworkLayer_def NewFullRouteSet_def zero_RouteSet_def)
qed

text \<open>A cloned rule set has lost its CIDR ranges; if it had no other condition on the destination,
  the clone matches every destination of an allowed network.\<close>

theorem Clone_loses_cidr:
  assumes "rangerEntries env (NewPCTrieRanger env) = []" "rangerLen env (NewPCTrieRanger env) = 0"
    and "IPs rs = {}" "Match rs = []" "rsDomains rs = {}" "Full rs = {}" "Countries rs = {}" "Geosites rs = []"
  shows "IsAddrIn env gmap (RouteSet_Clone env rs) a = IsAddrNetworkAllowed rs a"
  using assms by (simp add: RouteSet_Clone_def IsAddrIn_def IsNoLimitForNetworkLayer_def IsAddrNetworkAllowed_def
      IsTransportProtocolAllowed_def Let_def)

section \<open>Witnesses\<close>

text \<open>An environment whose trie is the list of its entries.\<close>

definition sample_env :: "(string list, string) route_env" where
  "sample_env = \<lparr>NewPCTrieRanger = [], rangerLen = length, rangerContains = (\<lambda>c ip. c \<noteq> []),
     rangerInsert = (\<lambda>s c. c @ [s]), rangerEntries = (\<lambda>c. c), isCIDR = (\<lambda>s. True),
     ParseAddr = (\<lambda>s. None), Compile = Some, MatchString = (\<lambda>r s. r = s), GetIP_ISO = (\<lambda>ip. [])\<rparr>"

definition sample_td :: TargetDescription where
  "sample_td = \<lparr>tdAddr = sample_dest, tdInTag = [], tdUser = []\<rparr>"

theorem IsIn_mapped_ipv4_witness:
  "IsIn sample_env [] zero_RouteSet (sample_td\<lparr>tdAddr := (tdAddr sample_td)\<lparr>IP := Some (v4in6_prefix @ [1, 2, 3, 4])\<rparr>\<rparr>)
    = IsIn sample_env [] zero_RouteSet (sample_td\<lparr>tdAddr := (tdAddr sample_td)\<lparr>IP := Some [1, 2, 3, 4]\<rparr>\<rparr>)"
  by (rule IsIn_mapped_ipv4) simp

theorem CalcuOutTag_first_match_witness:
  "CalcuOutTag sample_env [] (\<lambda>n. n - 1) [(zero_RouteSet :: (string list, string) RouteSet)] sample_td = ''proxy''"
proof -
  have "\<not> IsIn sample_env [] (zero_RouteSet :: (string list, string) RouteSet) sample_td"
    by (simp add: IsIn_def IsAddrIn_def zero_RouteSet_def IsAddrNetworkAllowed_def sample_td_def sample_dest_def
        zero_Addr_def IsTransportProtocolAllowed_def)
  then show ?thesis
    using CalcuOutTag_first_match [of "\<lambda>n. n - 1" "[(zero_RouteSet :: (string list, string) RouteSet)]" sample_env "[]" sample_td]
    by (auto simp: Cons_eq_append_conv)
qed

theorem LoadRule_network_witness:
  "IsTransportProtocolAllowed (LoadRuleForRouteSet sample_env True
     \<lparr>DialTag = TagStr ''direct'', rcInTags = [], rcUsers = [], rcCountries = [], rcIPs = [],
      rcDomains = [], rcNetwork = [''udp'']\<rparr>) UDP"
  using LoadRule_network [of UDP "\<lparr>DialTag = TagStr ''direct'', rcInTags = [], rcUsers = [], rcCountries = [],
      rcIPs = [], rcDomains = [], rcNetwork = [''udp'']\<rparr>" sample_env True]
  by (simp add: StrToTransportProtocol_def)

theorem regexp_only_rule_matches_all_witness:
  "IsIn sample_env [] (LoadRuleForRouteSet sample_env True
     \<lparr>DialTag = TagStr ''direct'', rcInTags = [], rcUsers = [], rcCountries = [], rcIPs = [],
      rcDomains = [''regexp:'' @ ''nomatch''], rcNetwork = []\<rparr>) sample_td"
  by (rule regexp_only_rule_matches_all [where reg = "''nomatch''"])
    (simp_all add: sample_env_def sample_td_def sample_dest_def zero_Addr_def)

theorem Clone_loses_cidr_witness:
  "IsAddrIn sample_env [] (RouteSet_Clone sample_env (NewFullRouteSet sample_env\<lparr>NetRanger := Some [''10.0.0.0/8'']\<rparr>)) sample_dest
    = IsAddrNetworkAllowed (NewFullRouteSet sample_env\<lparr>NetRanger := Some [''10.0.0.0/8'']\<rparr>) sample_dest"
  by (rule Clone_loses_cidr) (simp_all add: sample_env_def NewFullRouteSet_def zero_RouteSet_def)

end
