(* ===== verification/NetGeosite.thy ===== *)
theory NetGeosite
  imports NetRoute UtilsError
begin

text \<open>
  The domain lists of the geosite project (netLayer/geosite_parse.go): parsing of one file's
  lines, and the expansion of the \<open>include:\<close> entries of a list against all loaded lists.
  The expansion is a loop without a bound, so it is a partial function, and that it returns
  is a theorem. The map of loaded lists is an association list. White space and case are
  ASCII; \<open>Atoi\<close> is for Go's 64-bit \<open>int\<close>.
\<close>

section \<open>Strings\<close>

definition digit_val :: "char \<Rightarrow> nat option" where
  "digit_val c = (let n = of_char c :: nat in if 48 \<le> n \<and> n \<le> 57 then Some (n - 48) else None)"

fun digits_val :: "int \<Rightarrow> string \<Rightarrow> int option" where
  "digits_val acc [] = Some acc"
| "digits_val acc (c # cs) =
     (case digit_val c of None \<Rightarrow> None | Some d \<Rightarrow> digits_val (10 * acc + int d) cs)"

definition Atoi :: "string \<Rightarrow> int option" where
  "Atoi s =
     (let (neg, ds) = (case s of c # cs \<Rightarrow> if c = CHR ''-'' then (True, cs)
                         else if c = CHR ''+'' then (False, cs) else (False, s) | [] \<Rightarrow> (False, s))
      in if ds = [] then None
         else case digits_val 0 ds of
                None \<Rightarrow> None
              | Some n \<Rightarrow>
                  let v = (if neg then - n else n)
                  in if - (2 ^ 63) \<le> v \<and> v < 2 ^ 63 then Some v else None)"

section \<open>Parsing one file\<close>

record GeositeRawList =
  rawName :: string
  rawDomains :: "GeositeDomain list"

definition parseGeositeAttribute :: "string \<Rightarrow> goerr + GeositeAttr" where
  "parseGeositeAttribute attr =
     (case attr of
        c # rest \<Rightarrow>
          if c \<noteq> CHR ''@'' then Inl (NewErr (''invalid attribute: '' @ attr))
          else
            let parts = split_on rest ''='' in
            if length parts = 1 then Inr \<lparr>attrKey = ToLower (parts ! 0), attrValue = AttrBool True\<rparr>
            else (case Atoi (parts ! 1) of
                    None \<Rightarrow> Inl (NewErr (''invalid attribute: '' @ rest))
                  | Some n \<Rightarrow> Inr \<lparr>attrKey = ToLower (parts ! 0), attrValue = AttrInt n\<rparr>)
      | [] \<Rightarrow> Inl (NewErr (''invalid attribute: '' @ attr)))"

definition parseGeositeDomain :: "string \<Rightarrow> goerr + (string \<times> string)" where
  "parseGeositeDomain domain =
     (let kv = split_on domain '':'' in
      if length kv = 1 then Inr (''domain'', ToLower (kv ! 0))
      else if length kv = 2 then Inr (ToLower (kv ! 0), ToLower (kv ! 1))
      else Inl (NewErr (''Invalid format: '' @ domain)))"

fun parse_attrs :: "string list \<Rightarrow> goerr + GeositeAttr list" where
  "parse_attrs [] = Inr []"
| "parse_attrs (p # ps) =
     (case parseGeositeAttribute p of
        Inl e \<Rightarrow> Inl e
      | Inr a \<Rightarrow> (case parse_attrs ps of Inl e \<Rightarrow> Inl e | Inr as \<Rightarrow> Inr (a # as)))"

definition parseGeositeEntry :: "string \<Rightarrow> goerr + GeositeDomain" where
  "parseGeositeEntry line =
     (let parts = split_on (TrimSpace line) '' '' in
      if length parts = 0 then Inl (NewErr ''empty entry'')
      else
        case parseGeositeDomain (parts ! 0) of
          Inl e \<Rightarrow> Inl e
        | Inr (t, v) \<Rightarrow>
            (case parse_attrs (drop 1 parts) of
               Inl e \<Rightarrow> Inl e
             | Inr as \<Rightarrow> Inr \<lparr>dType = t, dValue = v, dAttrs = as\<rparr>))"

definition removeGeositeComment :: "string \<Rightarrow> string" where
  "removeGeositeComment line =
     (case list_index ''#'' line of None \<Rightarrow> line | Some idx \<Rightarrow> TrimSpace (take idx line))"

fun load_lines :: "string list \<Rightarrow> goerr + GeositeDomain list" where
  "load_lines [] = Inr []"
| "load_lines (l # ls) =
     (let line = removeGeositeComment (TrimSpace l) in
      if length line = 0 then load_lines ls
      else case parseGeositeEntry line of
             Inl e \<Rightarrow> Inl e
           | Inr entry \<Rightarrow> (case load_lines ls of Inl e \<Rightarrow> Inl e | Inr es \<Rightarrow> Inr (entry # es)))"

text \<open>The file's base name and its lines are the arguments.\<close>

definition LoadGeositeFile :: "string \<Rightarrow> string list \<Rightarrow> goerr + GeositeRawList" where
  "LoadGeositeFile base ls =
     (case load_lines ls of Inl e \<Rightarrow> Inl e | Inr es \<Rightarrow> Inr \<lparr>rawName = ToUpper base, rawDomains = es\<rparr>)"

section \<open>Expanding includes\<close>

text \<open>The loop of \<open>isMatchGeositeAttr\<close> breaks at the first attribute of the name.\<close>

definition isMatchGeositeAttr :: "GeositeAttr list \<Rightarrow> string \<Rightarrow> bool" where
  "isMatchGeositeAttr Attrs includeKey =
     (if has_prefix includeKey ''!'' then
        \<not> list_ex (\<lambda>a. attrKey a = trim_left (CHR ''!'') includeKey) Attrs
      else list_ex (\<lambda>a. attrKey a = includeKey) Attrs)"

definition createGeositeIncludeAttrEntrys :: "GeositeRawList \<Rightarrow> GeositeAttr \<Rightarrow> GeositeDomain list" where
  "createGeositeIncludeAttrEntrys l matchAttr =
     filter (\<lambda>entry. isMatchGeositeAttr (dAttrs entry) (attrKey matchAttr)) (rawDomains l)"

type_synonym geosite_ref = "(string \<times> GeositeRawList) list"

definition attr_inclusion :: "string \<Rightarrow> GeositeAttr \<Rightarrow> string" where
  "attr_inclusion refName a = ToUpper (refName @ ''@'' @ attrKey a)"

text \<open>The inner loop over the attributes of an include entry.\<close>

fun include_attrs ::
    "geosite_ref \<Rightarrow> GeositeDomain \<Rightarrow> GeositeAttr list \<Rightarrow> string set \<Rightarrow> GeositeDomain list
      \<Rightarrow> goerr + string set \<times> GeositeDomain list" where
  "include_attrs ref entry [] inclu new = Inr (inclu, new)"
| "include_attrs ref entry (a # as) inclu new =
     (let refName = ToUpper (dValue entry); InclusionName = attr_inclusion refName a in
      if InclusionName \<in> inclu then include_attrs ref entry as inclu new
      else case map_of ref refName of
             None \<Rightarrow> Inl (NewErr (dValue entry @ '' not found.''))
           | Some refList \<Rightarrow>
               include_attrs ref entry as (insert InclusionName inclu)
                 (new @ createGeositeIncludeAttrEntrys refList a))"

text \<open>One pass over the entries: the inclusions made, the new entries, \<open>hasInclude\<close>.\<close>

fun geosite_pass ::
    "geosite_ref \<Rightarrow> GeositeDomain list \<Rightarrow> string set \<Rightarrow> GeositeDomain list \<Rightarrow> bool
      \<Rightarrow> goerr + string set \<times> GeositeDomain list \<times> bool" where
  "geosite_pass ref [] inclu new hasInclude = Inr (inclu, new, hasInclude)"
| "geosite_pass ref (entry # es) inclu new hasInclude =
     (if dType entry = ''include'' then
        if dAttrs entry \<noteq> [] then
          (case include_attrs ref entry (dAttrs entry) inclu new of
             Inl e \<Rightarrow> Inl e
           | Inr (inclu', new') \<Rightarrow> geosite_pass ref es inclu' new' True)
        else
          let InclusionName = ToUpper (dValue entry) in
          if InclusionName \<in> inclu then geosite_pass ref es inclu new hasInclude
          else (case map_of ref InclusionName of
                  None \<Rightarrow> Inl (NewErr (dValue entry @ '' not found.''))
                | Some refList \<Rightarrow>
                    geosite_pass ref es (insert InclusionName inclu) (new @ rawDomains refList) True)
      else geosite_pass ref es inclu (new @ [entry]) hasInclude)"

partial_function (option) geosite_loop ::
    "geosite_ref \<Rightarrow> string set \<Rightarrow> GeositeDomain list \<Rightarrow> (goerr + GeositeDomain list) option" where
  [code]: "geosite_loop ref inclu entries =
     (case geosite_pass ref entries inclu [] False of
        Inl e \<Rightarrow> Some (Inl e)
      | Inr (inclu', new, hasInclude) \<Rightarrow>
          if hasInclude then geosite_loop ref inclu' new else Some (Inr new))"

definition ParseGeositeList :: "GeositeRawList \<Rightarrow> geosite_ref \<Rightarrow> (goerr + GeositeRawList) option" where
  "ParseGeositeList l ref =
     (case geosite_loop ref {} (rawDomains l) of
        None \<Rightarrow> None
      | Some (Inl e) \<Rightarrow> Some (Inl e)
      | Some (Inr es) \<Rightarrow> Some (Inr \<lparr>rawName = rawName l, rawDomains = es\<rparr>))"

definition to_geosite_step :: "('c, 're) route_env \<Rightarrow> GeositeDomain \<Rightarrow> 're GeositeList \<Rightarrow> 're GeositeList" where
  "to_geosite_step env v gl =
     (if dType v = ''domain'' then gl\<lparr>Domains := (Domains gl)(dValue v \<mapsto> v)\<rparr>
      else if dType v = ''regexp'' then
        (case Compile env (dValue v) of Some reg \<Rightarrow> gl\<lparr>RegexDomains := RegexDomains gl @ [reg]\<rparr> | None \<Rightarrow> gl)
      else if dType v = ''full'' then gl\<lparr>FullDomains := (FullDomains gl)(dValue v \<mapsto> v)\<rparr>
      else gl)"

definition ToGeositeList :: "('c, 're) route_env \<Rightarrow> GeositeRawList \<Rightarrow> 're GeositeList" where
  "ToGeositeList env grl =
     fold (to_geosite_step env) (rawDomains grl)
       \<lparr>glName = rawName grl, FullDomains = Map.empty, Domains = Map.empty, RegexDomains = []\<rparr>"

section \<open>The expansion terminates\<close>

definition is_include :: "GeositeDomain \<Rightarrow> bool" where
  "is_include e \<longleftrightarrow> dType e = ''include''"

text \<open>All entries that can occur, and the names of the inclusions they can ask for.\<close>

definition all_entries :: "geosite_ref \<Rightarrow> GeositeDomain list \<Rightarrow> GeositeDomain set" where
  "all_entries ref es = set es \<union> (\<Union>p \<in> set ref. set (rawDomains (snd p)))"

definition entry_names :: "GeositeDomain \<Rightarrow> string set" where
  "entry_names e = insert (ToUpper (dValue e)) (attr_inclusion (ToUpper (dValue e)) ` set (dAttrs e))"

definition names :: "GeositeDomain set \<Rightarrow> string set" where
  "names E = (\<Union>e \<in> E. entry_names e)"

lemma finite_names: "finite E \<Longrightarrow> finite (names E)"
  by (simp add: names_def entry_names_def)

lemma finite_all_entries [simp]: "finite (all_entries ref es)"
  by (simp add: all_entries_def)

definition ref_closed :: "geosite_ref \<Rightarrow> GeositeDomain set \<Rightarrow> bool" where
  "ref_closed ref E \<longleftrightarrow> (\<forall>k l. map_of ref k = Some l \<longrightarrow> set (rawDomains l) \<subseteq> E)"

lemma ref_closed_all_entries: "ref_closed ref (all_entries ref es)"
  by (force simp: ref_closed_def all_entries_def dest: map_of_SomeD)

lemma ref_closedD: "ref_closed ref E \<Longrightarrow> map_of ref k = Some l \<Longrightarrow> set (rawDomains l) \<subseteq> E"
  by (simp add: ref_closed_def)

lemma include_attrs_ok:
  assumes "include_attrs ref e as inclu new = Inr (inclu', new')" "set as \<subseteq> set (dAttrs e)"
    "e \<in> E" "set new \<subseteq> E" "ref_closed ref E"
  shows "inclu \<subseteq> inclu' \<and> inclu' \<subseteq> inclu \<union> names E \<and> set new \<subseteq> set new' \<and> set new' \<subseteq> E
    \<and> (inclu' = inclu \<longrightarrow> new' = new)"
  using assms
proof (induction ref e as inclu new rule: include_attrs.induct)
  case (1 ref entry inclu new)
  then show ?case by simp
next
  case (2 ref entry a as inclu new)
  let ?n = "attr_inclusion (ToUpper (dValue entry)) a"
  show ?case
  proof (cases "?n \<in> inclu")
    case True
    with 2 show ?thesis by (simp add: Let_def)
  next
    case False
    with "2.prems"(1) obtain l where l: "map_of ref (ToUpper (dValue entry)) = Some l"
      and r: "include_attrs ref entry as (insert ?n inclu) (new @ createGeositeIncludeAttrEntrys l a)
         = Inr (inclu', new')"
      by (auto simp: Let_def split: option.splits)
    have sub: "set (createGeositeIncludeAttrEntrys l a) \<subseteq> E"
      using ref_closedD [OF "2.prems"(5) l] by (auto simp: createGeositeIncludeAttrEntrys_def)
    have "?n \<in> names E" using "2.prems"(2,3) by (auto simp: names_def entry_names_def)
    moreover have "insert ?n inclu \<subseteq> inclu' \<and> inclu' \<subseteq> insert ?n inclu \<union> names E
        \<and> set (new @ createGeositeIncludeAttrEntrys l a) \<subseteq> set new' \<and> set new' \<subseteq> E"
      using "2.IH"(2) [OF refl refl False l r] "2.prems"(2-5) sub by auto
    ultimately show ?thesis using False by auto
  qed
qed

lemma geosite_pass_ok:
  assumes "geosite_pass ref es inclu new has = Inr (inclu', new', has')"
    "set es \<subseteq> E" "set new \<subseteq> E" "ref_closed ref E"
  shows "inclu \<subseteq> inclu' \<and> inclu' \<subseteq> inclu \<union> names E \<and> set new \<subseteq> set new' \<and> set new' \<subseteq> E
    \<and> {e \<in> set es. \<not> is_include e} \<subseteq> set new'
    \<and> (inclu' = inclu \<longrightarrow> new' = new @ filter (\<lambda>e. \<not> is_include e) es)
    \<and> (has' \<longrightarrow> has \<or> list_ex is_include es) \<and> (has \<longrightarrow> has')
    \<and> (\<not> has' \<longrightarrow> inclu' = inclu)"
  using assms
proof (induction ref es inclu new has rule: geosite_pass.induct)
  case (1 ref inclu new hasInclude)
  then show ?case by simp
next
  case (2 ref entry es inclu new hasInclude)
  consider (attrs) "is_include entry" "dAttrs entry \<noteq> []" | (plain) "is_include entry" "dAttrs entry = []"
    | (other) "\<not> is_include entry" by blast
  then show ?case
  proof cases
    case attrs
    then obtain inclu1 new1 where a: "include_attrs ref entry (dAttrs entry) inclu new = Inr (inclu1, new1)"
      and r: "geosite_pass ref es inclu1 new1 True = Inr (inclu', new', has')"
      using "2.prems"(1) by (auto simp: is_include_def split: sum.splits)
    from "2.prems"(2) have "entry \<in> E" by simp
    note ia = include_attrs_ok [OF a order.refl this "2.prems"(3,4)]
    from attrs have inc: "dType entry = ''include''" by (simp add: is_include_def)
    have "inclu1 \<subseteq> inclu' \<and> inclu' \<subseteq> inclu1 \<union> names E \<and> set new1 \<subseteq> set new' \<and> set new' \<subseteq> E
      \<and> {e \<in> set es. \<not> is_include e} \<subseteq> set new'
      \<and> (inclu' = inclu1 \<longrightarrow> new' = new1 @ filter (\<lambda>e. \<not> is_include e) es) \<and> has'"
      using "2.IH"(1) [OF inc attrs(2) a refl r] "2.prems"(2,4) ia by auto
    with ia attrs(1) show ?thesis by auto
  next
    case plain
    then have inc: "dType entry = ''include''" by (simp add: is_include_def)
    let ?n = "ToUpper (dValue entry)"
    show ?thesis
    proof (cases "?n \<in> inclu")
      case True
      with inc plain "2.prems"(1) have "geosite_pass ref es inclu new hasInclude = Inr (inclu', new', has')"
        by (simp add: Let_def)
      from "2.IH"(2) [OF inc _ refl True this] "2.prems" plain show ?thesis by auto
    next
      case False
      with inc plain "2.prems"(1) obtain l where l: "map_of ref ?n = Some l"
        and r: "geosite_pass ref es (insert ?n inclu) (new @ rawDomains l) True = Inr (inclu', new', has')"
        by (auto simp: Let_def split: option.splits)
      have "?n \<in> names E" using "2.prems"(2) by (auto simp: names_def entry_names_def)
      with "2.IH"(3) [OF inc _ refl False l r] "2.prems"(2-4) ref_closedD [OF "2.prems"(4) l] plain False
      show ?thesis by auto
    qed
  next
    case other
    then have inc: "dType entry \<noteq> ''include''" by (simp add: is_include_def)
    with "2.prems"(1) have "geosite_pass ref es inclu (new @ [entry]) hasInclude = Inr (inclu', new', has')" by simp
    from "2.IH"(4) [OF inc this] "2.prems"(2-4) other show ?thesis by auto
  qed
qed

definition geosite_measure :: "GeositeDomain set \<Rightarrow> string set \<Rightarrow> GeositeDomain list \<Rightarrow> nat" where
  "geosite_measure E inclu es = 2 * card (names E - inclu) + (if list_ex is_include es then 1 else 0)"

lemma geosite_loop_returns:
  assumes "finite E" "ref_closed ref E" "set es \<subseteq> E"
  shows "\<exists>r. geosite_loop ref inclu es = Some r \<and>
    (\<forall>out. r = Inr out \<longrightarrow> list_all (\<lambda>e. \<not> is_include e) out \<and> set out \<subseteq> E
       \<and> {e \<in> set es. \<not> is_include e} \<subseteq> set out)"
  using assms(3)
proof (induction "geosite_measure E inclu es" arbitrary: inclu es rule: less_induct)
  case less
  show ?case
  proof (cases "geosite_pass ref es inclu [] False")
    case (Inl e)
    then show ?thesis by (subst geosite_loop.simps) simp
  next
    case (Inr t)
    obtain inclu' new has where t: "t = (inclu', new, has)" by (cases t)
    note pass = geosite_pass_ok [OF Inr [unfolded t] less.prems _ assms(2), simplified]
    show ?thesis
    proof (cases has)
      case False
      then have "inclu' = inclu" using pass by blast
      have "\<not> list_ex is_include new"
        using pass \<open>inclu' = inclu\<close> by (auto simp: list_ex_iff)
      moreover have "geosite_loop ref inclu es = Some (Inr new)"
        using Inr t False by (subst geosite_loop.simps) simp
      ultimately show ?thesis using pass by (auto simp: list_ex_iff list_all_iff)
    next
      case True
      have "geosite_measure E inclu' new < geosite_measure E inclu es"
      proof (cases "inclu' = inclu")
        case True
        with pass have "\<not> list_ex is_include new" by (auto simp: list_ex_iff)
        moreover have "list_ex is_include es" using pass \<open>has\<close> by blast
        ultimately show ?thesis using True by (simp add: geosite_measure_def)
      next
        case False
        with pass obtain x where "x \<in> inclu'" "x \<notin> inclu" "x \<in> names E" by blast
        then have "names E - inclu' \<subset> names E - inclu" using pass by blast
        from psubset_card_mono [OF _ this] finite_names [OF assms(1)]
        have "card (names E - inclu') < card (names E - inclu)" by simp
        then show ?thesis by (simp add: geosite_measure_def)
      qed
      from less.hyps [OF this] pass obtain r where r: "geosite_loop ref inclu' new = Some r"
        and out: "\<And>out. r = Inr out \<Longrightarrow> list_all (\<lambda>e. \<not> is_include e) out \<and> set out \<subseteq> E
            \<and> {e \<in> set new. \<not> is_include e} \<subseteq> set out" by blast
      have "geosite_loop ref inclu es = Some r"
        using Inr t True r by (subst geosite_loop.simps) simp
      with out pass show ?thesis by blast
    qed
  qed
qed

section \<open>Properties\<close>

text \<open>C13: \<open>ParseGeositeList\<close> returns for every list and every set of loaded lists, cyclic includes
  included; on success no include entry is left, every own entry of the list is kept, and
  every entry of the result comes from the list or a loaded list.\<close>

theorem ParseGeositeList_terminates:
  "\<exists>r. ParseGeositeList l ref = Some r \<and>
    (\<forall>pl. r = Inr pl \<longrightarrow> rawName pl = rawName l
       \<and> list_all (\<lambda>e. dType e \<noteq> ''include'') (rawDomains pl)
       \<and> {e \<in> set (rawDomains l). dType e \<noteq> ''include''} \<subseteq> set (rawDomains pl)
       \<and> set (rawDomains pl) \<subseteq> set (rawDomains l) \<union> (\<Union>p \<in> set ref. set (rawDomains (snd p))))"
proof -
  from geosite_loop_returns [OF finite_all_entries ref_closed_all_entries, of "rawDomains l" ref "rawDomains l" "{}"]
  obtain r where r: "geosite_loop ref {} (rawDomains l) = Some r"
    and out: "\<And>out. r = Inr out \<Longrightarrow> list_all (\<lambda>e. \<not> is_include e) out
       \<and> set out \<subseteq> all_entries ref (rawDomains l)
       \<and> {e \<in> set (rawDomains l). \<not> is_include e} \<subseteq> set out"
    by (auto simp: all_entries_def)
  then show ?thesis
    by (cases r) (auto simp: ParseGeositeList_def is_include_def all_entries_def list_all_iff)
qed

lemma ToGeositeList_fold:
  "(FullDomains (fold (to_geosite_step env) es gl) d \<noteq> None
      \<longleftrightarrow> FullDomains gl d \<noteq> None \<or> (\<exists>e \<in> set es. dType e = ''full'' \<and> dValue e = d))
   \<and> (Domains (fold (to_geosite_step env) es gl) d \<noteq> None
      \<longleftrightarrow> Domains gl d \<noteq> None \<or> (\<exists>e \<in> set es. dType e = ''domain'' \<and> dValue e = d))
   \<and> set (RegexDomains (fold (to_geosite_step env) es gl))
      = set (RegexDomains gl) \<union> {re. \<exists>e \<in> set es. dType e = ''regexp'' \<and> Compile env (dValue e) = Some re}"
proof (induction es arbitrary: gl)
  case Nil
  then show ?case by simp
next
  case (Cons e es)
  from Cons [of "to_geosite_step env e gl"] show ?case
    by (auto simp: to_geosite_step_def split: option.splits)
qed

text \<open>C14: A name is inside a loaded geosite list exactly when it equals a \<open>full\<close> entry, is a \<open>domain\<close>
  entry or below one, or matches a \<open>regexp\<close> entry that compiles.\<close>

theorem geosite_match_exact:
  "IsDomainInsideGeosite env [(name, ToGeositeList env grl)] name d \<longleftrightarrow>
     ToUpper name = name \<and>
     ((\<exists>e \<in> set (rawDomains grl). dType e = ''full'' \<and> dValue e = d)
      \<or> (\<exists>e \<in> set (rawDomains grl). dType e = ''domain'' \<and> (d = dValue e \<or> (\<exists>p. d = p @ ''.'' @ dValue e)))
      \<or> (\<exists>e \<in> set (rawDomains grl). \<exists>re. dType e = ''regexp'' \<and> Compile env (dValue e) = Some re
           \<and> MatchString env re d))"
proof -
  note F = ToGeositeList_fold [of env "rawDomains grl" "\<lparr>glName = rawName grl, FullDomains = Map.empty,
    Domains = Map.empty, RegexDomains = []\<rparr>", folded ToGeositeList_def]
  have full: "FullDomains (ToGeositeList env grl) d \<noteq> None
      \<longleftrightarrow> (\<exists>e \<in> set (rawDomains grl). dType e = ''full'' \<and> dValue e = d)"
    using F by simp
  have dom: "(Domains (ToGeositeList env grl) k \<noteq> None)
      = (\<exists>e \<in> set (rawDomains grl). dType e = ''domain'' \<and> dValue e = k)" for k
    using ToGeositeList_fold [of env "rawDomains grl" "\<lparr>glName = rawName grl, FullDomains = Map.empty,
      Domains = Map.empty, RegexDomains = []\<rparr>" k, folded ToGeositeList_def] by simp
  have sub: "HasFullOrSubDomain d (MapGeositeDomainHaser (Domains (ToGeositeList env grl)))
      \<longleftrightarrow> (\<exists>e \<in> set (rawDomains grl). dType e = ''domain'' \<and> (d = dValue e \<or> (\<exists>p. d = p @ ''.'' @ dValue e)))"
    unfolding geosite_domains.sub_domain_iff dom_def mem_Collect_eq dom by blast
  have re: "list_ex (\<lambda>reg. MatchString env reg d) (RegexDomains (ToGeositeList env grl))
      \<longleftrightarrow> (\<exists>e \<in> set (rawDomains grl). \<exists>re. dType e = ''regexp'' \<and> Compile env (dValue e) = Some re
           \<and> MatchString env re d)"
    using F by (auto simp: list_ex_iff)
  have "IsDomainInsideGeosite env [(name, ToGeositeList env grl)] name d \<longleftrightarrow> map ascii_upper name = name \<and>
      (FullDomains (ToGeositeList env grl) d \<noteq> None
       \<or> HasFullOrSubDomain d (MapGeositeDomainHaser (Domains (ToGeositeList env grl)))
       \<or> list_ex (\<lambda>reg. MatchString env reg d) (RegexDomains (ToGeositeList env grl)))"
    by (cases "map ascii_upper name = name") (simp_all add: IsDomainInsideGeosite_def)
  then show ?thesis by (simp only: full sub re ToUpper_def)
qed

section \<open>Witnesses\<close>

text \<open>Two lists that include each other.\<close>

definition sample_geosite :: "string \<Rightarrow> string \<Rightarrow> GeositeRawList" where
  "sample_geosite n other = \<lparr>rawName = n, rawDomains =
     [\<lparr>dType = ''include'', dValue = other, dAttrs = []\<rparr>, \<lparr>dType = ''full'', dValue = n, dAttrs = []\<rparr>]\<rparr>"

theorem ParseGeositeList_terminates_witness:
  "ParseGeositeList (sample_geosite ''A'' ''B'') [(''A'', sample_geosite ''A'' ''B''), (''B'', sample_geosite ''B'' ''A'')] \<noteq> None"
  using ParseGeositeList_terminates [of "sample_geosite ''A'' ''B''"
      "[(''A'', sample_geosite ''A'' ''B''), (''B'', sample_geosite ''B'' ''A'')]"] by auto

theorem geosite_match_exact_witness:
  "IsDomainInsideGeosite sample_env [(''GOOGLE'', ToGeositeList sample_env
     \<lparr>rawName = ''GOOGLE'', rawDomains = [\<lparr>dType = ''domain'', dValue = ''google.com'', dAttrs = []\<rparr>]\<rparr>)]
     ''GOOGLE'' ''www.google.com''"
  unfolding geosite_match_exact
  by (simp add: ToUpper_def ascii_upper_def)

end
