(* ===== verification/NetDns.thy ===== *)
theory NetDns
  imports NetAddrText
begin

text \<open>
  The resolver (netLayer/dns.go) and its configuration (netLayer/dns_conf.go). The DNS library is an argument: an
  exchange on a connection gives a message, an error, or both. A connection is a value of type \<open>'c\<close>. Times are
  nanoseconds. Where the code takes any element of a map, the choice is an argument. The mutexes serialise the
  operations; logging is left out.
\<close>

section \<open>One question\<close>

datatype dns_err = ErrNotExist | ErrRcode | ErrRecursion | NetTimeout | NetFatal | DnsOther

definition Is_DNSQuery_returnType_ReadErr :: "dns_err option \<Rightarrow> bool" where
  "Is_DNSQuery_returnType_ReadErr err =
     (case err of None \<Rightarrow> False | Some e \<Rightarrow> e \<notin> {ErrNotExist, ErrRcode, ErrRecursion})"

text \<open>\<open>NetTimeout\<close> and \<open>NetFatal\<close> are the errors of type \<open>net.Error\<close>.\<close>

definition Is_DNSQuery_returnType_ReadFatalErr :: "dns_err option \<Rightarrow> bool" where
  "Is_DNSQuery_returnType_ReadFatalErr err =
     (if \<not> Is_DNSQuery_returnType_ReadErr err then False
      else if err \<in> {Some NetTimeout, Some NetFatal} then err \<noteq> Some NetTimeout
      else False)"

definition TypeA :: nat where "TypeA = 1"
definition TypeAAAA :: nat where "TypeAAAA = 28"

datatype RR = RR_A bytes nat | RR_AAAA bytes nat | RR_CNAME string | RR_other

record dns_Msg =
  RcodeSuccess :: bool
  Answer :: "RR list"

record 'c dns_env =
  ExchangeWithConn :: "'c \<Rightarrow> string \<Rightarrow> nat \<Rightarrow> dns_Msg option \<times> dns_err option"
  DialDnsAddr :: "Addr \<Rightarrow> goerr + 'c"
  Fqdn :: "string \<Rightarrow> string"
  some_name :: "string set \<Rightarrow> string"

fun first_A :: "RR list \<Rightarrow> (bytes \<times> nat) option" where
  "first_A [] = None"
| "first_A (RR_A ip ttl # rs) = Some (ip, ttl)"
| "first_A (r # rs) = first_A rs"

fun first_AAAA :: "RR list \<Rightarrow> (bytes \<times> nat) option" where
  "first_AAAA [] = None"
| "first_AAAA (RR_AAAA ip ttl # rs) = Some (ip, ttl)"
| "first_AAAA (r # rs) = first_AAAA rs"

fun first_CNAME :: "RR list \<Rightarrow> string option" where
  "first_CNAME [] = None"
| "first_CNAME (RR_CNAME target # rs) = Some target"
| "first_CNAME (r # rs) = first_CNAME rs"

text \<open>The result is \<open>ip\<close> (nil or bytes), \<open>ttl\<close> and \<open>err\<close>. The error of an exchange that has a message
  stays in \<open>err\<close> when an address is found.\<close>

function DNSQuery :: "'c dns_env \<Rightarrow> 'c \<Rightarrow> string \<Rightarrow> nat \<Rightarrow> nat \<Rightarrow> bytes option \<times> nat \<times> dns_err option" where
  "DNSQuery env conn domain dns_type recursionCount =
     (case ExchangeWithConn env conn domain dns_type of
        (None, err) \<Rightarrow> (None, 0, err)
      | (Some r, err) \<Rightarrow>
          if \<not> RcodeSuccess r then (None, 0, Some ErrRcode)
          else (case (if dns_type = TypeA then first_A (Answer r)
                      else if dns_type = TypeAAAA then first_AAAA (Answer r) else None) of
              Some (ip, ttl) \<Rightarrow> (Some ip, ttl, err)
            | None \<Rightarrow>
                (case first_CNAME (Answer r) of
                   Some target \<Rightarrow>
                     if recursionCount > 2 then (None, 0, Some ErrRecursion)
                     else DNSQuery env conn (Fqdn env target) dns_type (recursionCount + 1)
                 | None \<Rightarrow> (None, 0, Some ErrNotExist))))"
  by pat_completeness auto
termination by (relation "measure (\<lambda>(env, conn, domain, dns_type, rc). 4 - rc)") auto

declare DNSQuery.simps [simp del]

section \<open>The machine\<close>

record 'c DnsConn =
  dc_Conn :: "'c option"
  dc_Name :: string
  dc_raddr :: "Addr option"
  garbageMark :: bool

record IPRecord =
  rec_IP :: bytes
  rec_TTL :: nat
  RecordTime :: int

record 'c DNSMachine =
  TypeStrategy :: int
  TTLStrategy :: nat
  defaultConn :: "'c DnsConn"
  conns :: "string \<rightharpoonup> 'c DnsConn"
  cache :: "string \<rightharpoonup> IPRecord"
  SpecialIPPollicy :: "string \<rightharpoonup> netip_Addr list"
  SpecialServerPolicy :: "string \<rightharpoonup> string"
  listening :: bool
  listenUrl :: string
  dns_server :: "(string \<times> string) option"

definition zero_DnsConn :: "'c DnsConn" where
  "zero_DnsConn = \<lparr>dc_Conn = None, dc_Name = [], dc_raddr = None, garbageMark = False\<rparr>"

definition DnsConn_Dial :: "'c dns_env \<Rightarrow> 'c DnsConn \<Rightarrow> goerr option \<times> 'c DnsConn" where
  "DnsConn_Dial env c =
     (case DialDnsAddr env (the (dc_raddr c)) of
        Inl e \<Rightarrow> (Some e, c) | Inr nc \<Rightarrow> (None, c\<lparr>dc_Conn := Some nc\<rparr>))"

definition SetDefaultConn :: "'c \<Rightarrow> Addr \<Rightarrow> 'c DNSMachine \<Rightarrow> 'c DNSMachine" where
  "SetDefaultConn c addr dm = dm\<lparr>defaultConn := (defaultConn dm)\<lparr>dc_Conn := Some c, dc_raddr := Some addr\<rparr>\<rparr>"

definition AddNewServer :: "'c dns_env \<Rightarrow> string \<Rightarrow> Addr \<Rightarrow> 'c DNSMachine \<Rightarrow> goerr option \<times> 'c DNSMachine" where
  "AddNewServer env name addr dm =
     (let dcc = \<lparr>dc_Conn = None, dc_Name = name, dc_raddr = Some addr, garbageMark = False\<rparr> in
      case DnsConn_Dial env dcc of (err, dcc) \<Rightarrow>
        if dc_Conn (defaultConn dm) = None then (err, dm\<lparr>defaultConn := dcc\<rparr>)
        else if err \<noteq> None then (err, dm)
        else (None, dm\<lparr>conns := (conns dm)(name \<mapsto> dcc)\<rparr>))"

text \<open>Step 1 of \<open>QueryType\<close>: the cache.\<close>

definition cache_fresh :: "nat \<Rightarrow> int \<Rightarrow> IPRecord \<Rightarrow> bool" where
  "cache_fresh strategy now ipRecord =
     (if strategy = 0 then True
      else if strategy = 1 then \<not> now > RecordTime ipRecord + 1000000000 * int (rec_TTL ipRecord)
      else \<not> now > RecordTime ipRecord + 1000000000 * int strategy)"

text \<open>Step 2: the fixed addresses. \<open>netip.Addr.Is6\<close> holds for an IPv4 address mapped into IPv6 too.\<close>

definition netip_As4 :: "netip_Addr \<Rightarrow> bytes option" where
  "netip_As4 a = (case a of AddrV4 bs \<Rightarrow> Some bs | AddrV6 bs \<Rightarrow> To4 (Some bs) | InvalidAddr \<Rightarrow> None)"

definition netip_As16 :: "netip_Addr \<Rightarrow> bytes option" where
  "netip_As16 a = (case a of AddrV6 bs \<Rightarrow> Some bs | _ \<Rightarrow> None)"

fun first_some :: "('a \<Rightarrow> 'b option) \<Rightarrow> 'a list \<Rightarrow> 'b option" where
  "first_some f [] = None"
| "first_some f (x # xs) = (case f x of Some y \<Rightarrow> Some y | None \<Rightarrow> first_some f xs)"

definition special_ip :: "string \<Rightarrow> nat \<Rightarrow> 'c DNSMachine \<Rightarrow> bytes option" where
  "special_ip domain dns_type dm =
     (case SpecialIPPollicy dm domain of
        None \<Rightarrow> None
      | Some na \<Rightarrow>
          if dns_type = TypeA then first_some netip_As4 na
          else if dns_type = TypeAAAA then first_some netip_As16 na else None)"

text \<open>Step 3: the server, \<open>None\<close> for the default one.\<close>

definition choose_server :: "string \<Rightarrow> 'c DNSMachine \<Rightarrow> string option" where
  "choose_server domain dm =
     (case SpecialServerPolicy dm domain of
        Some name \<Rightarrow> if name \<noteq> [] \<and> conns dm name \<noteq> None then Some name else None
      | None \<Rightarrow> None)"

definition server_conn :: "string option \<Rightarrow> 'c DNSMachine \<Rightarrow> 'c DnsConn" where
  "server_conn sel dm = (case sel of None \<Rightarrow> defaultConn dm | Some name \<Rightarrow> the (conns dm name))"

definition set_server_conn :: "string option \<Rightarrow> 'c DnsConn \<Rightarrow> 'c DNSMachine \<Rightarrow> 'c DNSMachine" where
  "set_server_conn sel c dm =
     (case sel of None \<Rightarrow> dm\<lparr>defaultConn := c\<rparr> | Some name \<Rightarrow> dm\<lparr>conns := (conns dm)(name \<mapsto> c)\<rparr>)"

text \<open>The deferred removal of a connection that is beyond repair.\<close>

definition drop_garbage :: "'c dns_env \<Rightarrow> string option \<Rightarrow> 'c DNSMachine \<Rightarrow> 'c DNSMachine" where
  "drop_garbage env sel dm =
     (let c = server_conn sel dm in
      if \<not> garbageMark c then dm
      else
        let dm = dm\<lparr>conns := (conns dm)(dc_Name c := None)\<rparr> in
        if sel \<noteq> None then dm
        else if conns dm = Map.empty then dm\<lparr>defaultConn := c\<lparr>dc_Conn := None\<rparr>\<rparr>
        else
          let name = some_name env (dom (conns dm)) in
          dm\<lparr>defaultConn := c\<lparr>dc_Conn := dc_Conn (the (conns dm name)), garbageMark := False\<rparr>,
             conns := (conns dm)(name := None)\<rparr>)"

text \<open>The answer of the chosen server, the machine with the connection as it is left.\<close>

definition ask_server :: "'c dns_env \<Rightarrow> string \<Rightarrow> nat \<Rightarrow> 'c DNSMachine \<Rightarrow> (bytes option \<times> nat) \<times> 'c DNSMachine" where
  "ask_server env domain dns_type dm =
     (let sel = choose_server domain dm; c = server_conn sel dm in
      case dc_Conn c of
        None \<Rightarrow> ((None, 0), drop_garbage env sel dm)
      | Some conn \<Rightarrow>
          (case DNSQuery env conn (Fqdn env domain) dns_type 0 of (ip, ttl, err) \<Rightarrow>
             if Is_DNSQuery_returnType_ReadFatalErr err then
               (case DnsConn_Dial env c of (err, c) \<Rightarrow>
                  ((ip, ttl), drop_garbage env sel
                     (set_server_conn sel (if err \<noteq> None then c\<lparr>garbageMark := True\<rparr> else c) dm)))
             else ((ip, ttl), drop_garbage env sel dm)))"

definition trim_dot :: "string \<Rightarrow> string" where
  "trim_dot s = (if s \<noteq> [] \<and> last s = CHR ''.'' then butlast s else s)"

definition cache_add :: "string \<Rightarrow> int \<Rightarrow> bytes option \<times> nat \<Rightarrow> 'c DNSMachine \<Rightarrow> 'c DNSMachine" where
  "cache_add domain now res dm =
     (case res of
        (Some ip, ttl) \<Rightarrow>
          if length ip > 0
          then dm\<lparr>cache := (cache dm)(trim_dot domain \<mapsto> \<lparr>rec_IP = ip, rec_TTL = ttl, RecordTime = now\<rparr>)\<rparr>
          else dm
      | (None, _) \<Rightarrow> dm)"

text \<open>What follows a miss of the cache.\<close>

definition QueryType_miss :: "'c dns_env \<Rightarrow> int \<Rightarrow> string \<Rightarrow> nat \<Rightarrow> 'c DNSMachine \<Rightarrow> (bytes option \<times> nat) \<times> 'c DNSMachine" where
  "QueryType_miss env now domain dns_type dm =
     (case special_ip domain dns_type dm of
        Some ip \<Rightarrow> ((Some ip, TTLStrategy dm), dm)
      | None \<Rightarrow>
          (case ask_server env domain dns_type dm of (res, dm) \<Rightarrow>
             (res, cache_add (Fqdn env domain) now res dm)))"

definition QueryType :: "'c dns_env \<Rightarrow> int \<Rightarrow> string \<Rightarrow> nat \<Rightarrow> 'c DNSMachine \<Rightarrow> (bytes option \<times> nat) \<times> 'c DNSMachine" where
  "QueryType env now domain dns_type dm =
     (case cache dm domain of
        Some ipRecord \<Rightarrow>
          if cache_fresh (TTLStrategy dm) now ipRecord then ((Some (rec_IP ipRecord), 0), dm)
          else QueryType_miss env now domain dns_type (dm\<lparr>cache := (cache dm)(domain := None)\<rparr>)
      | None \<Rightarrow> QueryType_miss env now domain dns_type dm)"

definition Query :: "'c dns_env \<Rightarrow> int \<Rightarrow> string \<Rightarrow> 'c DNSMachine \<Rightarrow> bytes option \<times> 'c DNSMachine" where
  "Query env now domain dm =
     (let query = (\<lambda>t dm. case QueryType env now domain t dm of ((ip, _), dm) \<Rightarrow> (ip, dm));
          both = (\<lambda>t t'. case query t dm of (ip, dm) \<Rightarrow> if ip = None then query t' dm else (ip, dm)) in
      if TypeStrategy dm = 6 then both TypeAAAA TypeA
      else if TypeStrategy dm = 40 then query TypeA dm
      else if TypeStrategy dm = 60 then query TypeAAAA dm
      else both TypeA TypeAAAA)"

text \<open>\<open>ServeDNS\<close>: the answer to the first question is one record of type A with the type and name asked for.\<close>

record dns_Reply =
  reply_Name :: string
  reply_Rrtype :: nat
  reply_Ttl :: nat
  reply_A :: "bytes option"

definition ServeDNS :: "'c dns_env \<Rightarrow> int \<Rightarrow> (string \<times> nat) list \<Rightarrow> 'c DNSMachine \<Rightarrow> dns_Reply option \<times> 'c DNSMachine" where
  "ServeDNS env now Question dm =
     (case Question of
        [] \<Rightarrow> (None, dm)
      | (name, qtype) # _ \<Rightarrow>
          (case QueryType env now (trim_dot name) qtype dm of ((ip, ttl), dm) \<Rightarrow>
             (Some \<lparr>reply_Name = name, reply_Rrtype = qtype,
                    reply_Ttl = (if TTLStrategy dm \<noteq> 1 then TTLStrategy dm else ttl), reply_A = ip\<rparr>, dm)))"

definition ListenUrl :: "string \<Rightarrow> 'c DNSMachine \<Rightarrow> goerr option \<times> 'c DNSMachine" where
  "ListenUrl addr dm =
     (case NewAddrByURL addr of
        Inl e \<Rightarrow> (Some (err_wrap ''dns listen url format wrong'' e), dm)
      | Inr a \<Rightarrow>
          if Network a = [] then (Some (err_text ''dns listen url format wrong''), dm)
          else
            let network = (if Network a = ''tls'' then ''tcp-tls'' else Network a) in
            (None, dm\<lparr>dns_server := Some (Addr_String a, network), listening := True\<rparr>))"

definition StartListen :: "'c DNSMachine \<Rightarrow> 'c DNSMachine" where
  "StartListen dm = (if listenUrl dm = [] then dm else snd (ListenUrl (listenUrl dm) dm))"

definition DNSMachine_Stop :: "'c DNSMachine \<Rightarrow> 'c DNSMachine" where
  "DNSMachine_Stop dm = (if listening dm then dm\<lparr>listening := False, dns_server := None\<rparr> else dm)"

section \<open>The configuration\<close>

text \<open>A value decoded from TOML: inside a map that is decoded to \<open>any\<close>, a list is a \<open>[]any\<close>; a \<open>[]string\<close>
  can only be made by Go code.\<close>

datatype toml_any = TomlString string | TomlList "toml_any list" | TomlMap "(string \<times> toml_any) list"
  | GoStrings "string list" | TomlOther

record SpecialDnsServerConf =
  AddrUrlStr :: string
  Domains :: "string list"

record DnsConf =
  conf_Listen :: string
  conf_Strategy :: int
  conf_TTLStrategy :: nat
  conf_Hosts :: "(string \<times> toml_any) list option"
  conf_Servers :: "toml_any list"

fun toml_strings :: "toml_any list \<Rightarrow> string list option" where
  "toml_strings [] = Some []"
| "toml_strings (TomlString s # xs) = map_option ((#) s) (toml_strings xs)"
| "toml_strings (x # xs) = None"

definition loadSpecialDnsServerConf :: "(string \<times> toml_any) list \<Rightarrow> SpecialDnsServerConf option" where
  "loadSpecialDnsServerConf m =
     (case map_of m ''addr'' of
        Some (TomlString addrStr) \<Rightarrow>
          (case map_of m ''domain'' of
             Some (TomlList domainsAnySlice) \<Rightarrow>
               map_option (\<lambda>ds. \<lparr>AddrUrlStr = addrStr, Domains = ds\<rparr>) (toml_strings domainsAnySlice)
           | _ \<Rightarrow> None)
      | _ \<Rightarrow> None)"

definition load_server :: "'c dns_env \<Rightarrow> toml_any \<Rightarrow> 'c DNSMachine \<Rightarrow> 'c DNSMachine" where
  "load_server env ser dm =
     (case ser of
        TomlString server \<Rightarrow>
          (case NewAddrByURL server of Inl e \<Rightarrow> dm | Inr ad \<Rightarrow> snd (AddNewServer env server ad dm))
      | TomlMap m \<Rightarrow>
          (case loadSpecialDnsServerConf m of
             None \<Rightarrow> dm
           | Some realServer \<Rightarrow>
               if Domains realServer = [] then dm
               else (case NewAddrByURL (AddrUrlStr realServer) of
                   Inl e \<Rightarrow> dm
                 | Inr addr \<Rightarrow>
                     (case AddNewServer env (AddrUrlStr realServer) addr dm of
                        (Some err, dm) \<Rightarrow> dm
                      | (None, dm) \<Rightarrow>
                          fold (\<lambda>d dm. dm\<lparr>SpecialServerPolicy := (SpecialServerPolicy dm)(d \<mapsto> AddrUrlStr realServer)\<rparr>)
                            (Domains realServer) dm)))
      | _ \<Rightarrow> dm)"

text \<open>The addresses of one host: \<open>None\<close> when a list has an entry that is no address, which gives up the whole
  configuration.\<close>

fun host_addrs :: "string list \<Rightarrow> netip_Addr list \<Rightarrow> netip_Addr list option" where
  "host_addrs [] acc = Some acc"
| "host_addrs (str # strs) acc =
     (case NewAddrFromAny (AnyString str) of
        Inl e \<Rightarrow> None
      | Inr ad \<Rightarrow> host_addrs strs (acc @ [hIP (GetHashable ad)]))"

definition load_host :: "string \<times> toml_any \<Rightarrow> 'c DNSMachine \<Rightarrow> 'c DNSMachine option" where
  "load_host entry dm =
     (case entry of (thishost, things) \<Rightarrow>
       (case things of
          TomlString value \<Rightarrow>
            Some (dm\<lparr>SpecialIPPollicy := (SpecialIPPollicy dm)(thishost \<mapsto> [AddrFromSlice (ParseIP value)])\<rparr>)
        | GoStrings value \<Rightarrow>
            (case host_addrs value (case SpecialIPPollicy dm thishost of Some l \<Rightarrow> l | None \<Rightarrow> []) of
               None \<Rightarrow> None
             | Some l \<Rightarrow> Some (if value = [] then dm else dm\<lparr>SpecialIPPollicy := (SpecialIPPollicy dm)(thishost \<mapsto> l)\<rparr>))
        | _ \<Rightarrow> Some dm))"

fun load_hosts :: "(string \<times> toml_any) list \<Rightarrow> 'c DNSMachine \<Rightarrow> 'c DNSMachine option" where
  "load_hosts [] dm = Some dm"
| "load_hosts (h # hs) dm = (case load_host h dm of None \<Rightarrow> None | Some dm \<Rightarrow> load_hosts hs dm)"

definition LoadDnsMachine :: "'c dns_env \<Rightarrow> DnsConf \<Rightarrow> 'c DNSMachine option" where
  "LoadDnsMachine env conf =
     (let dm = \<lparr>TypeStrategy = conf_Strategy conf, TTLStrategy = conf_TTLStrategy conf, defaultConn = zero_DnsConn,
          conns = Map.empty, cache = Map.empty, SpecialIPPollicy = Map.empty, SpecialServerPolicy = Map.empty,
          listening = False, listenUrl = [], dns_server = None\<rparr>;
          dm = fold (load_server env) (conf_Servers conf) dm in
      case (case conf_Hosts conf of None \<Rightarrow> Some dm | Some hosts \<Rightarrow> load_hosts hosts dm) of
        None \<Rightarrow> None
      | Some dm \<Rightarrow>
          if conf_Servers conf = [] \<and> conf_Hosts conf = None then None
          else Some (if conf_Listen conf \<noteq> [] then dm\<lparr>listenUrl := conf_Listen conf\<rparr> else dm))"

section \<open>Lemmas\<close>

lemma server_conn_cache [simp]: "server_conn sel (dm\<lparr>cache := c\<rparr>) = server_conn sel dm"
  by (simp add: server_conn_def split: option.splits)

lemma choose_server_cache [simp]: "choose_server d (dm\<lparr>cache := c\<rparr>) = choose_server d dm"
  by (simp add: choose_server_def split: option.splits)

lemma set_server_conn_cache [simp]: "set_server_conn sel x (dm\<lparr>cache := c\<rparr>) = (set_server_conn sel x dm)\<lparr>cache := c\<rparr>"
  by (simp add: set_server_conn_def split: option.splits)

lemma drop_garbage_cache [simp]: "drop_garbage env sel (dm\<lparr>cache := c\<rparr>) = (drop_garbage env sel dm)\<lparr>cache := c\<rparr>"
  by (simp add: drop_garbage_def Let_def)

lemma special_ip_cache [simp]: "special_ip d qt (dm\<lparr>cache := c\<rparr>) = special_ip d qt dm"
  by (simp add: special_ip_def)

text \<open>Asking does not look at the cache and leaves it and the strategy alone.\<close>

lemma ask_server_cache [simp]:
  "ask_server env domain qt (dm\<lparr>cache := c\<rparr>) = map_prod id (\<lambda>dm. dm\<lparr>cache := c\<rparr>) (ask_server env domain qt dm)"
  by (auto simp: ask_server_def Let_def split: option.split prod.split)

lemma drop_garbage_keeps [simp]:
  "cache (drop_garbage env sel dm) = cache dm" "TTLStrategy (drop_garbage env sel dm) = TTLStrategy dm"
  by (simp_all add: drop_garbage_def Let_def)

lemma set_server_conn_keeps [simp]:
  "cache (set_server_conn sel x dm) = cache dm" "TTLStrategy (set_server_conn sel x dm) = TTLStrategy dm"
  by (simp_all add: set_server_conn_def split: option.split)

lemma ask_server_keeps:
  "ask_server env domain qt dm = (res, dm') \<Longrightarrow> cache dm' = cache dm \<and> TTLStrategy dm' = TTLStrategy dm"
  by (auto simp: ask_server_def Let_def split: option.splits prod.splits if_splits)

section \<open>A reference without a cache\<close>

text \<open>
  The reference keeps every answer of a server, newest first, and forgets none. A question gets the newest one for its
  domain while that is fresh, whatever the type asked; otherwise the fixed address or the server decides.
\<close>

type_synonym answers = "(string \<times> IPRecord) list"

definition ref_miss :: "'c dns_env \<Rightarrow> int \<Rightarrow> string \<Rightarrow> nat \<Rightarrow> answers \<times> 'c DNSMachine \<Rightarrow> (bytes option \<times> nat) \<times> (answers \<times> 'c DNSMachine)" where
  "ref_miss env now domain qt st =
     (case st of (log, dm) \<Rightarrow>
       (case special_ip domain qt dm of
          Some ip \<Rightarrow> ((Some ip, TTLStrategy dm), st)
        | None \<Rightarrow> (case ask_server env domain qt dm of (res, dm) \<Rightarrow>
            (res, (case res of
                (Some ip, ttl) \<Rightarrow> if ip \<noteq> [] then (domain, \<lparr>rec_IP = ip, rec_TTL = ttl, RecordTime = now\<rparr>) # log else log
              | (None, _) \<Rightarrow> log), dm))))"

definition ref_query :: "'c dns_env \<Rightarrow> int \<Rightarrow> string \<Rightarrow> nat \<Rightarrow> answers \<times> 'c DNSMachine \<Rightarrow> (bytes option \<times> nat) \<times> (answers \<times> 'c DNSMachine)" where
  "ref_query env now domain qt st =
     (case map_of (fst st) domain of
        Some r \<Rightarrow> if cache_fresh (TTLStrategy (snd st)) now r then ((Some (rec_IP r), 0), st) else ref_miss env now domain qt st
      | None \<Rightarrow> ref_miss env now domain qt st)"

text \<open>A series of questions, each with what the network does at that time.\<close>

type_synonym 'c dns_event = "'c dns_env \<times> int \<times> string \<times> nat"

fun dns_results :: "'c dns_event list \<Rightarrow> 'c DNSMachine \<Rightarrow> (bytes option \<times> nat) list" where
  "dns_results [] dm = []"
| "dns_results ((env, now, domain, qt) # evs) dm =
     (case QueryType env now domain qt dm of (res, dm) \<Rightarrow> res # dns_results evs dm)"

fun ref_results :: "'c dns_event list \<Rightarrow> answers \<times> 'c DNSMachine \<Rightarrow> (bytes option \<times> nat) list" where
  "ref_results [] st = []"
| "ref_results ((env, now, domain, qt) # evs) st =
     (case ref_query env now domain qt st of (res, st) \<Rightarrow> res # ref_results evs st)"

definition dns_agree :: "int \<Rightarrow> answers \<times> 'c DNSMachine \<Rightarrow> 'c DNSMachine \<Rightarrow> bool" where
  "dns_agree t st dm \<longleftrightarrow> snd st = dm\<lparr>cache := cache (snd st)\<rparr> \<and>
     (\<forall>d. cache dm d = map_of (fst st) d \<or>
        (cache dm d = None \<and> (\<exists>r. map_of (fst st) d = Some r \<and> \<not> cache_fresh (TTLStrategy dm) t r)))"

lemma cache_fresh_mono: "\<not> cache_fresh s t r \<Longrightarrow> t \<le> t' \<Longrightarrow> \<not> cache_fresh s t' r"
  by (auto simp: cache_fresh_def split: if_splits)

lemma dns_agree_later: "dns_agree t st dm \<Longrightarrow> t \<le> t' \<Longrightarrow> dns_agree t' st dm"
  unfolding dns_agree_def using cache_fresh_mono by blast

lemma miss_agree:
  assumes "dns_agree now st dm" "trim_dot (Fqdn env d) = d"
  shows "fst (QueryType_miss env now d qt dm) = fst (ref_miss env now d qt st) \<and>
    dns_agree now (snd (ref_miss env now d qt st)) (snd (QueryType_miss env now d qt dm))"
proof -
  obtain log dr where st: "st = (log, dr)" by (cases st)
  then have dr: "dr = dm\<lparr>cache := cache dr\<rparr>" using assms(1) by (simp add: dns_agree_def)
  then have sp: "special_ip d qt dr = special_ip d qt dm" and ttl: "TTLStrategy dr = TTLStrategy dm"
    by (metis special_ip_cache, metis DNSMachine.select_convs(2) DNSMachine.surjective DNSMachine.update_convs(5))
  show ?thesis
  proof (cases "special_ip d qt dm")
    case (Some ip)
    with assms(1) sp ttl st show ?thesis by (simp add: QueryType_miss_def ref_miss_def)
  next
    case None
    obtain ip n dm' where a: "ask_server env d qt dm = ((ip, n), dm')" by (metis prod.collapse)
    then have ar: "ask_server env d qt dr = ((ip, n), dm'\<lparr>cache := cache dr\<rparr>)"
      by (subst dr) simp
    from ask_server_keeps [OF a] have k: "cache dm' = cache dm" "TTLStrategy dm' = TTLStrategy dm" by auto
    show ?thesis
      using assms None sp ttl st a ar k
      by (cases ip) (auto simp: QueryType_miss_def ref_miss_def cache_add_def dns_agree_def)
  qed
qed

lemma query_agree:
  assumes "dns_agree now st dm" "trim_dot (Fqdn env d) = d"
  shows "fst (QueryType env now d qt dm) = fst (ref_query env now d qt st) \<and>
    dns_agree now (snd (ref_query env now d qt st)) (snd (QueryType env now d qt dm))"
proof -
  have ttl: "TTLStrategy (snd st) = TTLStrategy dm"
    using assms(1) by (metis dns_agree_def DNSMachine.select_convs(2) DNSMachine.surjective DNSMachine.update_convs(5))
  show ?thesis
  proof (cases "cache dm d")
    case None
    with assms(1) have "None = map_of (fst st) d \<or> (\<exists>r. map_of (fst st) d = Some r \<and> \<not> cache_fresh (TTLStrategy dm) now r)"
      unfolding dns_agree_def by metis
    with None miss_agree [OF assms] ttl show ?thesis by (auto simp: QueryType_def ref_query_def)
  next
    case (Some r)
    then have r: "map_of (fst st) d = Some r" using assms(1) by (metis dns_agree_def option.distinct(1))
    show ?thesis
    proof (cases "cache_fresh (TTLStrategy dm) now r")
      case True
      with Some r ttl assms(1) show ?thesis by (simp add: QueryType_def ref_query_def)
    next
      case False
      then have "dns_agree now st (dm\<lparr>cache := (cache dm)(d := None)\<rparr>)"
        using assms(1) r by (auto simp: dns_agree_def)
      from miss_agree [OF this assms(2)] False Some r ttl show ?thesis by (simp add: QueryType_def ref_query_def)
    qed
  qed
qed

lemma results_agree:
  assumes "dns_agree t st dm" "sorted (map (\<lambda>(env, now, d, qt). now) evs)" "\<forall>(env, now, d, qt)\<in>set evs. t \<le> now"
    "\<forall>(env, now, d, qt)\<in>set evs. trim_dot (Fqdn env d) = d"
  shows "dns_results evs dm = ref_results evs st"
  using assms
proof (induction evs arbitrary: t st dm)
  case (Cons ev evs)
  obtain env now d qt where ev: "ev = (env, now, d, qt)" by (cases ev)
  with Cons.prems have "t \<le> now" "trim_dot (Fqdn env d) = d" by auto
  from query_agree [OF dns_agree_later [OF Cons.prems(1) this(1)] this(2), of qt]
  have q: "fst (QueryType env now d qt dm) = fst (ref_query env now d qt st)"
    "dns_agree now (snd (ref_query env now d qt st)) (snd (QueryType env now d qt dm))" by auto
  have "dns_results evs (snd (QueryType env now d qt dm)) = ref_results evs (snd (ref_query env now d qt st))"
    by (rule Cons.IH [OF q(2)]) (use Cons.prems(2-4) ev in auto)
  with q(1) ev show ?case by (simp add: case_prod_unfold)
qed simp


definition demo_dns_env :: "nat dns_env" where
  "demo_dns_env = \<lparr>ExchangeWithConn = (\<lambda>conn d t. (Some \<lparr>RcodeSuccess = True, Answer = [RR_A [10, 0, 0, 1] 60]\<rparr>, None)),
     DialDnsAddr = (\<lambda>a. Inl ErrFailed), Fqdn = (\<lambda>d. d @ ''.''), some_name = (\<lambda>S. [])\<rparr>"

definition demo_DNSMachine :: "nat DNSMachine" where
  "demo_DNSMachine = \<lparr>TypeStrategy = 0, TTLStrategy = 1,
     defaultConn = \<lparr>dc_Conn = Some 7, dc_Name = ''udp://9.9.9.9:53'', dc_raddr = Some sample_dest, garbageMark = False\<rparr>,
     conns = Map.empty, cache = Map.empty, SpecialIPPollicy = Map.empty, SpecialServerPolicy = Map.empty,
     listening = False, listenUrl = [], dns_server = None\<rparr>"


text \<open>
  The cache mixes the types: its key is the domain alone, so after the IPv4 address of a domain was learned, a question for
  its IPv6 address gets the IPv4 one, and the other way round.
\<close>
theorem dns_cache_mixes_types:
  assumes "cache dm d = None" and "special_ip d qt dm = None" and "ask_server env d qt dm = ((Some ip, ttl), dm')"
    and "ip \<noteq> []" and "trim_dot (Fqdn env d) = d"
    and "cache_fresh (TTLStrategy dm) now' \<lparr>rec_IP = ip, rec_TTL = ttl, RecordTime = now\<rparr>"
  shows "fst (QueryType env now d qt dm) = (Some ip, ttl) \<and>
    QueryType env' now' d qt' (snd (QueryType env now d qt dm)) = ((Some ip, 0), snd (QueryType env now d qt dm))"
  using assms ask_server_keeps [OF assms(3)]
  by (simp add: QueryType_def QueryType_miss_def cache_add_def)

lemma dns_cache_mixes_types_witness:
  "fst (QueryType demo_dns_env 0 ''a'' TypeA demo_DNSMachine) = (Some [10, 0, 0, 1], 60) \<and>
   fst (QueryType demo_dns_env 5 ''a'' TypeAAAA (snd (QueryType demo_dns_env 0 ''a'' TypeA demo_DNSMachine))) = (Some [10, 0, 0, 1], 0)"
proof -
  have "ask_server demo_dns_env ''a'' TypeA demo_DNSMachine = ((Some [10, 0, 0, 1], 60), demo_DNSMachine)"
    by (simp add: ask_server_def demo_DNSMachine_def choose_server_def server_conn_def drop_garbage_def Let_def DNSQuery.simps
        demo_dns_env_def Is_DNSQuery_returnType_ReadFatalErr_def Is_DNSQuery_returnType_ReadErr_def)
  from dns_cache_mixes_types [OF _ _ this, of 5 0 demo_dns_env TypeAAAA] show ?thesis
    by (simp add: demo_DNSMachine_def special_ip_def demo_dns_env_def trim_dot_def cache_fresh_def)
qed

text \<open>
  When the default server fails for good and another takes its place, only its connection is taken over: name and address stay those
  of the dead server, and a later re-dial goes there.
\<close>
theorem dns_failover_keeps_dead_address:
  assumes "choose_server d dm = None" and "dc_Conn (defaultConn dm) = Some conn" and "dc_raddr (defaultConn dm) = Some dead"
    and "DNSQuery env conn (Fqdn env d) qt 0 = (ip, ttl, Some NetFatal)" and "DialDnsAddr env dead = Inl e"
    and "conns dm = [name \<mapsto> c]" and "dc_Conn c = Some conn'" and "name \<noteq> dc_Name (defaultConn dm)"
    and "some_name env {name} = name"
  shows "let dm' = snd (ask_server env d qt dm) in
    dc_Conn (defaultConn dm') = Some conn' \<and> dc_raddr (defaultConn dm') = Some dead \<and>
    dc_Name (defaultConn dm') = dc_Name (defaultConn dm) \<and> conns dm' = Map.empty"
  using assms
  by (simp add: ask_server_def Let_def server_conn_def DnsConn_Dial_def set_server_conn_def drop_garbage_def
      Is_DNSQuery_returnType_ReadFatalErr_def Is_DNSQuery_returnType_ReadErr_def)

lemma dns_failover_keeps_dead_address_witness:
  "let dm = demo_DNSMachine\<lparr>conns := [''b'' \<mapsto> \<lparr>dc_Conn = Some 8, dc_Name = ''b'', dc_raddr = Some zero_Addr, garbageMark = False\<rparr>]\<rparr>;
       env = demo_dns_env\<lparr>ExchangeWithConn := (\<lambda>conn d t. (None, Some NetFatal)), some_name := (\<lambda>S. ''b'')\<rparr>;
       dm' = snd (ask_server env ''a'' TypeA dm)
   in dc_Conn (defaultConn dm') = Some 8 \<and> dc_raddr (defaultConn dm') = Some sample_dest \<and> conns dm' = Map.empty"
  using dns_failover_keeps_dead_address [of "''a''"
      "demo_DNSMachine\<lparr>conns := [''b'' \<mapsto> \<lparr>dc_Conn = Some 8, dc_Name = ''b'', dc_raddr = Some zero_Addr, garbageMark = False\<rparr>]\<rparr>"
      7 sample_dest "demo_dns_env\<lparr>ExchangeWithConn := (\<lambda>conn d t. (None, Some NetFatal)), some_name := (\<lambda>S. ''b'')\<rparr>" TypeA None 0
      ErrFailed "''b''" "\<lparr>dc_Conn = Some 8, dc_Name = ''b'', dc_raddr = Some zero_Addr, garbageMark = False\<rparr>" 8]
  by (simp add: demo_DNSMachine_def demo_dns_env_def choose_server_def DNSQuery.simps Let_def)

text \<open>Names that refer to each other in a circle end in an error.\<close>

lemma DNSQuery_circle:
  assumes "\<And>d. \<exists>t e. ExchangeWithConn env conn d qt = (Some \<lparr>RcodeSuccess = True, Answer = [RR_CNAME t]\<rparr>, e)"
  shows "DNSQuery env conn d qt n = (None, 0, Some ErrRecursion)"
proof (induction "4 - n" arbitrary: d n)
  case 0
  obtain t e where "ExchangeWithConn env conn d qt = (Some \<lparr>RcodeSuccess = True, Answer = [RR_CNAME t]\<rparr>, e)" using assms by blast
  with 0 show ?case by (subst DNSQuery.simps) (cases "qt = TypeA"; cases "qt = TypeAAAA"; simp)
next
  case (Suc m)
  obtain t e where "ExchangeWithConn env conn d qt = (Some \<lparr>RcodeSuccess = True, Answer = [RR_CNAME t]\<rparr>, e)" using assms by blast
  moreover have "DNSQuery env conn (Fqdn env t) qt (n + 1) = (None, 0, Some ErrRecursion)" using Suc by simp
  ultimately show ?case by (subst DNSQuery.simps) (cases "qt = TypeA"; cases "qt = TypeAAAA"; simp)
qed

text \<open>An answer that came with an error is used and kept all the same.\<close>

lemma DNSQuery_drops_error:
  "ExchangeWithConn env conn d TypeA = (Some \<lparr>RcodeSuccess = True, Answer = RR_A ip ttl # rs\<rparr>, Some DnsOther) \<Longrightarrow>
   DNSQuery env conn d TypeA n = (Some ip, ttl, Some DnsOther)"
  by (subst DNSQuery.simps) simp

text \<open>A list of addresses for a host is ignored as it comes out of the decoder, and a host with an IPv4
  address has that, mapped, for its IPv6 address.\<close>

lemma load_host_list_ignored: "load_host (h, TomlList l) dm = Some dm"
  by (simp add: load_host_def)

lemma special_ip_mapped:
  "SpecialIPPollicy dm h = Some [AddrFromSlice (Some (v4in6_prefix @ ip4))] \<Longrightarrow> length ip4 = 4 \<Longrightarrow>
   special_ip h TypeAAAA dm = Some (v4in6_prefix @ ip4) \<and> special_ip h TypeA dm = Some ip4"
  by (simp add: special_ip_def AddrFromSlice_def netip_As4_def netip_As16_def TypeA_def TypeAAAA_def)

end
