(* ===== verification/NetRelay.thy ===== *)
theory NetRelay
  imports NetAddr
begin

text \<open>
  The UDP relays (netLayer/relay_udp.go): \<open>RelayUDP\<close>, one channel in each direction, and \<open>RelayUDP_separate\<close>, a channel of its
  own for every destination. Each goroutine is a program counter, each step is one call or assignment, so a run is an
  interleaving of the goroutines. What a \<open>MsgConn\<close> returns is up to the environment, also when it is closed. The variable \<open>rc\<close>
  of \<open>RelayUDP_separate\<close> is shared by its goroutines, as in the code.
\<close>

type_synonym msg = "bytes \<times> Addr"

section \<open>RelayUDP\<close>

text \<open>What is left to do when a loop has ended.\<close>

datatype relay_act = CloseRc | CloseLc | AddCount

datatype relay_pc = Reading | Writing msg | Tail "relay_act list"

text \<open>One direction: \<open>count\<close>, and as ghosts what it read and what it wrote. \<open>lcFailed\<close> is a ghost too: an operation on \<open>lc\<close> failed.\<close>

record relay_dir =
  pc :: relay_pc
  count :: "64 word"
  got :: "msg list"
  sent :: "msg list"

record relay =
  isfullcone :: bool
  up :: relay_dir
  down :: relay_dir
  uploadByteCount :: "64 word"
  downloadByteCount :: "64 word"
  rcClosed :: bool
  lcClosed :: bool
  lcFailed :: bool

definition relay_dir_start :: relay_dir where
  "relay_dir_start = \<lparr>pc = Reading, count = 0, got = [], sent = []\<rparr>"

definition relay_start :: "bool \<Rightarrow> bool \<Rightarrow> 64 word \<Rightarrow> 64 word \<Rightarrow> relay" where
  "relay_start rcFullcone lcFullcone u d =
     \<lparr>isfullcone = (rcFullcone \<and> lcFullcone), up = relay_dir_start, down = relay_dir_start, uploadByteCount = u, downloadByteCount = d,
      rcClosed = False, lcClosed = False, lcFailed = False\<rparr>"

text \<open>The ends of the goroutine that uploads and of the one that downloads.\<close>

definition up_tail :: "bool \<Rightarrow> bool \<Rightarrow> relay_act list" where
  "up_tail fc lcReadErr =
     (if \<not> fc then [CloseRc, CloseLc] else CloseRc # (if lcReadErr then [CloseLc] else [])) @ [AddCount]"

definition down_tail :: "bool \<Rightarrow> bool \<Rightarrow> relay_act list" where
  "down_tail fc rcReadErr =
     [AddCount, CloseRc] @ (if fc then (if \<not> rcReadErr then [CloseLc] else []) else [CloseLc])"

definition dir_read :: "msg \<Rightarrow> relay_dir \<Rightarrow> relay_dir" where
  "dir_read m d = d\<lparr>pc := Writing m, got := got d @ [m]\<rparr>"

definition dir_written :: "msg \<Rightarrow> relay_dir \<Rightarrow> relay_dir" where
  "dir_written m d = d\<lparr>pc := Reading, count := count d + word_of_nat (length (fst m)), sent := sent d @ [m]\<rparr>"

definition close_act :: "relay_act \<Rightarrow> relay \<Rightarrow> relay" where
  "close_act a s = (case a of CloseRc \<Rightarrow> s\<lparr>rcClosed := True\<rparr> | CloseLc \<Rightarrow> s\<lparr>lcClosed := True\<rparr> | AddCount \<Rightarrow> s)"

inductive relay_step :: "relay \<Rightarrow> relay \<Rightarrow> bool" where
  up_read: "pc (up s) = Reading \<Longrightarrow> relay_step s (s\<lparr>up := dir_read m (up s)\<rparr>)"
| up_read_err: "pc (up s) = Reading \<Longrightarrow>
    relay_step s (s\<lparr>up := (up s)\<lparr>pc := Tail (up_tail (isfullcone s) True)\<rparr>, lcFailed := True\<rparr>)"
| up_write: "pc (up s) = Writing m \<Longrightarrow> relay_step s (s\<lparr>up := dir_written m (up s)\<rparr>)"
| up_write_err: "pc (up s) = Writing m \<Longrightarrow> relay_step s (s\<lparr>up := (up s)\<lparr>pc := Tail (up_tail (isfullcone s) False)\<rparr>\<rparr>)"
| up_act: "pc (up s) = Tail (a # as) \<Longrightarrow>
    relay_step s ((close_act a s)\<lparr>up := (up s)\<lparr>pc := Tail as\<rparr>,
      uploadByteCount := (if a = AddCount then uploadByteCount s + count (up s) else uploadByteCount s)\<rparr>)"
| down_read: "pc (down s) = Reading \<Longrightarrow> relay_step s (s\<lparr>down := dir_read m (down s)\<rparr>)"
| down_read_err: "pc (down s) = Reading \<Longrightarrow> relay_step s (s\<lparr>down := (down s)\<lparr>pc := Tail (down_tail (isfullcone s) True)\<rparr>\<rparr>)"
| down_write: "pc (down s) = Writing m \<Longrightarrow> relay_step s (s\<lparr>down := dir_written m (down s)\<rparr>)"
| down_write_err: "pc (down s) = Writing m \<Longrightarrow>
    relay_step s (s\<lparr>down := (down s)\<lparr>pc := Tail (down_tail (isfullcone s) False)\<rparr>, lcFailed := True\<rparr>)"
| down_act: "pc (down s) = Tail (a # as) \<Longrightarrow>
    relay_step s ((close_act a s)\<lparr>down := (down s)\<lparr>pc := Tail as\<rparr>,
      downloadByteCount := (if a = AddCount then downloadByteCount s + count (down s) else downloadByteCount s)\<rparr>)"

section \<open>Invariant of RelayUDP\<close>

definition bytes_sum :: "msg list \<Rightarrow> 64 word" where
  "bytes_sum ms = word_of_nat (sum_list (map (\<lambda>m. length (fst m)) ms))"

definition dir_inv :: "relay_dir \<Rightarrow> bool" where
  "dir_inv d \<longleftrightarrow> count d = bytes_sum (sent d) \<and>
     (case pc d of Reading \<Rightarrow> got d = sent d | Writing m \<Rightarrow> got d = sent d @ [m]
      | Tail as \<Rightarrow> got d = sent d \<or> (\<exists>m. got d = sent d @ [m]))"

lemma dir_inv_start [simp]: "dir_inv relay_dir_start"
  by (simp add: dir_inv_def relay_dir_start_def bytes_sum_def)

lemma dir_inv_simps [simp]:
  "pc d = Reading \<Longrightarrow> dir_inv d \<Longrightarrow> dir_inv (dir_read m d)"
  "pc d = Writing m \<Longrightarrow> dir_inv d \<Longrightarrow> dir_inv (dir_written m d)"
  "dir_inv d \<Longrightarrow> dir_inv (d\<lparr>pc := Tail as\<rparr>)"
  by (auto simp: dir_inv_def dir_read_def dir_written_def bytes_sum_def split: relay_pc.splits)

definition acts :: "relay_dir \<Rightarrow> relay_act list" where
  "acts d = (case pc d of Tail as \<Rightarrow> as | _ \<Rightarrow> [])"

definition running :: "relay_dir \<Rightarrow> bool" where "running d \<longleftrightarrow> (case pc d of Tail as \<Rightarrow> False | _ \<Rightarrow> True)"

text \<open>What the rest of a tail still does, and what was done.\<close>

definition tail_inv :: "relay_dir \<Rightarrow> relay \<Rightarrow> 64 word \<Rightarrow> 64 word \<Rightarrow> bool" where
  "tail_inv d s base tot \<longleftrightarrow> distinct (acts d) \<and>
     (running d \<or> CloseRc \<in> set (acts d) \<or> rcClosed s) \<and>
     (running d \<or> isfullcone s \<or> CloseLc \<in> set (acts d) \<or> lcClosed s) \<and>
     (CloseLc \<in> set (acts d) \<longrightarrow> \<not> isfullcone s \<or> lcFailed s) \<and>
     tot = (if running d \<or> AddCount \<in> set (acts d) then base else base + count d)"

definition relay_inv :: "64 word \<Rightarrow> 64 word \<Rightarrow> relay \<Rightarrow> bool" where
  "relay_inv u d s \<longleftrightarrow> dir_inv (up s) \<and> dir_inv (down s) \<and>
     tail_inv (up s) s u (uploadByteCount s) \<and> tail_inv (down s) s d (downloadByteCount s) \<and>
     (lcClosed s \<longrightarrow> \<not> isfullcone s \<or> lcFailed s) \<and>
     (isfullcone s \<and> lcFailed s \<longrightarrow> lcClosed s \<or> CloseLc \<in> set (acts (up s)) \<or> CloseLc \<in> set (acts (down s)))"

lemma acts_simps [simp]:
  "acts (d\<lparr>pc := Tail as\<rparr>) = as" "acts (dir_read m d) = []" "acts (dir_written m d) = []"
  "running (d\<lparr>pc := Tail as\<rparr>) = False" "running (dir_read m d)" "running (dir_written m d)"
  by (simp_all add: acts_def running_def dir_read_def dir_written_def)

lemma acts_pc: "pc d = Reading \<Longrightarrow> acts d = [] \<and> running d" "pc d = Writing m \<Longrightarrow> acts d = [] \<and> running d"
  "pc d = Tail as \<Longrightarrow> acts d = as \<and> \<not> running d"
  by (simp_all add: acts_def running_def)

lemma close_act_simps [simp]:
  "isfullcone (close_act a s) = isfullcone s" "lcFailed (close_act a s) = lcFailed s" "up (close_act a s) = up s" "down (close_act a s) = down s"
  "uploadByteCount (close_act a s) = uploadByteCount s" "downloadByteCount (close_act a s) = downloadByteCount s"
  "rcClosed (close_act a s) = (a = CloseRc \<or> rcClosed s)" "lcClosed (close_act a s) = (a = CloseLc \<or> lcClosed s)"
  by (cases a; simp add: close_act_def)+

lemma tail_inv_cong:
  "isfullcone s' = isfullcone s \<Longrightarrow> (rcClosed s \<Longrightarrow> rcClosed s') \<Longrightarrow> (lcClosed s \<Longrightarrow> lcClosed s') \<Longrightarrow>
    (lcFailed s \<Longrightarrow> lcFailed s') \<Longrightarrow> tail_inv d s b t \<Longrightarrow> tail_inv d s' b t"
  by (auto simp: tail_inv_def)

lemma tail_inv_tail:
  "running d \<Longrightarrow> tail_inv d s b t \<Longrightarrow> isfullcone s' = isfullcone s \<Longrightarrow> lcErr \<longrightarrow> lcFailed s' \<Longrightarrow>
    tail_inv (d\<lparr>pc := Tail (up_tail (isfullcone s) lcErr)\<rparr>) s' b t"
  "running d \<Longrightarrow> tail_inv d s b t \<Longrightarrow> isfullcone s' = isfullcone s \<Longrightarrow> \<not> rcErr \<longrightarrow> lcFailed s' \<Longrightarrow>
    tail_inv (d\<lparr>pc := Tail (down_tail (isfullcone s) rcErr)\<rparr>) s' b t"
  by (auto simp: tail_inv_def up_tail_def down_tail_def)

lemma tail_inv_act:
  assumes "pc d = Tail (a # as)" "tail_inv d s b t" "isfullcone s' = isfullcone s" "lcFailed s' = lcFailed s"
    "rcClosed s' = (a = CloseRc \<or> rcClosed s)" "lcClosed s' = (a = CloseLc \<or> lcClosed s)"
  shows "tail_inv (d\<lparr>pc := Tail as\<rparr>) s' b (if a = AddCount then t + count d else t)"
  using assms acts_pc(3) [OF assms(1)] by (auto simp: tail_inv_def)

lemma tail_inv_running: "running d \<Longrightarrow> running d' \<Longrightarrow> acts d' = [] \<Longrightarrow> tail_inv d s b t \<Longrightarrow> tail_inv d' s' b t"
  by (simp add: tail_inv_def)

lemma relay_step_inv: "relay_step s s' \<Longrightarrow> relay_inv u d s \<Longrightarrow> relay_inv u d s'"
proof (induction rule: relay_step.induct)
  case (up_read s m)
  then show ?case using acts_pc(1) [OF up_read(1)] by (auto simp: relay_inv_def tail_inv_def)
next
  case (up_read_err s)
  let ?s = "s\<lparr>up := (up s)\<lparr>pc := Tail (up_tail (isfullcone s) True)\<rparr>, lcFailed := True\<rparr>"
  have "tail_inv ((up s)\<lparr>pc := Tail (up_tail (isfullcone s) True)\<rparr>) ?s u (uploadByteCount s)"
    by (rule tail_inv_tail(1) [of _ s]) (use acts_pc(1) up_read_err in \<open>auto simp: relay_inv_def\<close>)
  moreover have "tail_inv (down s) ?s d (downloadByteCount s)"
    by (rule tail_inv_cong [of ?s s]) (use up_read_err.prems in \<open>simp_all add: relay_inv_def\<close>)
  ultimately show ?case using up_read_err acts_pc(1) [OF up_read_err.hyps] by (auto simp: relay_inv_def up_tail_def)
next
  case (up_write s m)
  then show ?case using acts_pc(2) [OF up_write(1)] by (auto simp: relay_inv_def tail_inv_def)
next
  case (up_write_err s m)
  let ?s = "s\<lparr>up := (up s)\<lparr>pc := Tail (up_tail (isfullcone s) False)\<rparr>\<rparr>"
  have "tail_inv ((up s)\<lparr>pc := Tail (up_tail (isfullcone s) False)\<rparr>) ?s u (uploadByteCount s)"
    by (rule tail_inv_tail(1) [of _ s]) (use acts_pc(2) up_write_err in \<open>auto simp: relay_inv_def\<close>)
  moreover have "tail_inv (down s) ?s d (downloadByteCount s)"
    by (rule tail_inv_cong [of ?s s]) (use up_write_err.prems in \<open>simp_all add: relay_inv_def\<close>)
  ultimately show ?case using up_write_err acts_pc(2) [OF up_write_err.hyps] by (auto simp: relay_inv_def)
next
  case (up_act s a as)
  let ?s = "(close_act a s)\<lparr>up := (up s)\<lparr>pc := Tail as\<rparr>, uploadByteCount := (if a = AddCount then uploadByteCount s + count (up s) else uploadByteCount s)\<rparr>"
  have "tail_inv ((up s)\<lparr>pc := Tail as\<rparr>) ?s u (if a = AddCount then uploadByteCount s + count (up s) else uploadByteCount s)"
    by (rule tail_inv_act [OF up_act.hyps, of s]) (use up_act.prems in \<open>simp_all add: relay_inv_def\<close>)
  moreover have "tail_inv (down s) ?s d (downloadByteCount s)"
    by (rule tail_inv_cong [of ?s s]) (use up_act.prems in \<open>simp_all add: relay_inv_def\<close>)
  moreover have "acts (up s) = a # as" "dir_inv ((up s)\<lparr>pc := Tail as\<rparr>)" "tail_inv (up s) s u (uploadByteCount s)"
    using up_act acts_pc(3) by (simp_all add: relay_inv_def)
  ultimately show ?case using up_act.prems by (auto simp: relay_inv_def tail_inv_def [of "up s"])
next
  case (down_read s m)
  then show ?case using acts_pc(1) [OF down_read(1)] by (auto simp: relay_inv_def tail_inv_def)
next
  case (down_read_err s)
  let ?s = "s\<lparr>down := (down s)\<lparr>pc := Tail (down_tail (isfullcone s) True)\<rparr>\<rparr>"
  have "tail_inv ((down s)\<lparr>pc := Tail (down_tail (isfullcone s) True)\<rparr>) ?s d (downloadByteCount s)"
    by (rule tail_inv_tail(2) [of _ s]) (use acts_pc(1) down_read_err in \<open>auto simp: relay_inv_def\<close>)
  moreover have "tail_inv (up s) ?s u (uploadByteCount s)"
    by (rule tail_inv_cong [of ?s s]) (use down_read_err.prems in \<open>simp_all add: relay_inv_def\<close>)
  ultimately show ?case using down_read_err acts_pc(1) [OF down_read_err.hyps] by (auto simp: relay_inv_def)
next
  case (down_write s m)
  then show ?case using acts_pc(2) [OF down_write(1)] by (auto simp: relay_inv_def tail_inv_def)
next
  case (down_write_err s m)
  let ?s = "s\<lparr>down := (down s)\<lparr>pc := Tail (down_tail (isfullcone s) False)\<rparr>, lcFailed := True\<rparr>"
  have "tail_inv ((down s)\<lparr>pc := Tail (down_tail (isfullcone s) False)\<rparr>) ?s d (downloadByteCount s)"
    by (rule tail_inv_tail(2) [of _ s]) (use acts_pc(2) down_write_err in \<open>auto simp: relay_inv_def\<close>)
  moreover have "tail_inv (up s) ?s u (uploadByteCount s)"
    by (rule tail_inv_cong [of ?s s]) (use down_write_err.prems in \<open>simp_all add: relay_inv_def\<close>)
  ultimately show ?case using down_write_err acts_pc(2) [OF down_write_err.hyps] by (auto simp: relay_inv_def down_tail_def)
next
  case (down_act s a as)
  let ?s = "(close_act a s)\<lparr>down := (down s)\<lparr>pc := Tail as\<rparr>, downloadByteCount := (if a = AddCount then downloadByteCount s + count (down s) else downloadByteCount s)\<rparr>"
  have "tail_inv ((down s)\<lparr>pc := Tail as\<rparr>) ?s d (if a = AddCount then downloadByteCount s + count (down s) else downloadByteCount s)"
    by (rule tail_inv_act [OF down_act.hyps, of s]) (use down_act.prems in \<open>simp_all add: relay_inv_def\<close>)
  moreover have "tail_inv (up s) ?s u (uploadByteCount s)"
    by (rule tail_inv_cong [of ?s s]) (use down_act.prems in \<open>simp_all add: relay_inv_def\<close>)
  moreover have "acts (down s) = a # as" "dir_inv ((down s)\<lparr>pc := Tail as\<rparr>)" "tail_inv (down s) s d (downloadByteCount s)"
    using down_act acts_pc(3) by (simp_all add: relay_inv_def)
  ultimately show ?case using down_act.prems by (auto simp: relay_inv_def tail_inv_def [of "down s"])
qed

lemma relay_start_inv: "relay_inv u d (relay_start rf lf u d)"
  by (simp add: relay_inv_def relay_start_def tail_inv_def) (simp add: relay_dir_start_def acts_def running_def)

lemma relay_reach_inv: "relay_step\<^sup>*\<^sup>* s s' \<Longrightarrow> relay_inv u d s \<Longrightarrow> relay_inv u d s'"
  by (induction rule: rtranclp_induct) (auto intro: relay_step_inv)

lemma relay_step_fullcone: "relay_step\<^sup>*\<^sup>* s s' \<Longrightarrow> isfullcone s' = isfullcone s"
  by (induction rule: rtranclp_induct) (auto elim: relay_step.cases)

text \<open>C30: 
  \<open>RelayUDP\<close> in every interleaving: each direction passes on what it reads, in order, and loses the last datagram at most, when the write
  of it fails. When both goroutines have ended, the channel to the remote side is closed, the local one is closed exactly if the relay
  is not full cone or an operation on the local side failed, and the counters have grown by the bytes passed on.
\<close>
theorem relay_udp_correct:
  assumes "relay_step\<^sup>*\<^sup>* (relay_start rf lf u d) s"
  shows "(\<forall>dir \<in> {up s, down s}. got dir = sent dir \<or> (\<exists>m. got dir = sent dir @ [m])) \<and>
    (lcClosed s \<longrightarrow> \<not> (rf \<and> lf) \<or> lcFailed s) \<and>
    (pc (up s) = Tail [] \<and> pc (down s) = Tail [] \<longrightarrow>
       rcClosed s \<and> lcClosed s = (\<not> (rf \<and> lf) \<or> lcFailed s) \<and>
       uploadByteCount s = u + bytes_sum (sent (up s)) \<and> downloadByteCount s = d + bytes_sum (sent (down s)))"
proof -
  from relay_reach_inv [OF assms relay_start_inv] have inv: "relay_inv u d s" .
  have f: "isfullcone s = (rf \<and> lf)" using relay_step_fullcone [OF assms] by (simp add: relay_start_def)
  have order: "got dir = sent dir \<or> (\<exists>m. got dir = sent dir @ [m])" if "dir_inv dir" for dir
    using that by (auto simp: dir_inv_def split: relay_pc.splits)
  from inv have "dir_inv (up s)" "dir_inv (down s)" by (simp_all add: relay_inv_def)
  with order have 1: "\<forall>dir \<in> {up s, down s}. got dir = sent dir \<or> (\<exists>m. got dir = sent dir @ [m])" by blast
  have 2: "lcClosed s \<longrightarrow> \<not> (rf \<and> lf) \<or> lcFailed s" using inv f by (simp add: relay_inv_def)
  have 3: "rcClosed s \<and> lcClosed s = (\<not> (rf \<and> lf) \<or> lcFailed s) \<and>
      uploadByteCount s = u + bytes_sum (sent (up s)) \<and> downloadByteCount s = d + bytes_sum (sent (down s))"
    if "pc (up s) = Tail []" "pc (down s) = Tail []"
    using inv 2 f acts_pc(3) [OF that(1)] acts_pc(3) [OF that(2)] by (auto simp: relay_inv_def tail_inv_def dir_inv_def)
  from 1 2 3 show ?thesis by blast
qed

lemma relay_udp_correct_witness:
  "\<exists>s. relay_step\<^sup>*\<^sup>* (relay_start True True 0 0) s \<and> sent (up s) = [([1, 2], sample_dest)] \<and> lcFailed s \<and>
    (\<forall>dir \<in> {up s, down s}. got dir = sent dir \<or> (\<exists>m. got dir = sent dir @ [m])) \<and> (lcClosed s \<longrightarrow> lcFailed s)"
proof -
  let ?m = "([1, 2] :: bytes, sample_dest)"
  define s0 where "s0 = relay_start True True 0 0"
  define s1 where "s1 = s0\<lparr>up := dir_read ?m (up s0)\<rparr>"
  define s2 where "s2 = s1\<lparr>up := dir_written ?m (up s1)\<rparr>"
  define s3 where "s3 = s2\<lparr>up := (up s2)\<lparr>pc := Tail (up_tail (isfullcone s2) True)\<rparr>, lcFailed := True\<rparr>"
  have pcs: "pc (up s0) = Reading" "pc (up s1) = Writing ?m" "pc (up s2) = Reading"
    by (simp_all add: s0_def s1_def s2_def relay_start_def relay_dir_start_def dir_read_def dir_written_def)
  have "relay_step s0 s1" "relay_step s1 s2" "relay_step s2 s3"
    unfolding s1_def [symmetric] s2_def [symmetric] s3_def [symmetric]
    using relay_step.up_read [OF pcs(1), of ?m] relay_step.up_write [OF pcs(2)] relay_step.up_read_err [OF pcs(3)]
    by (simp_all only: s1_def s2_def s3_def)
  then have run: "relay_step\<^sup>*\<^sup>* s0 s3" by (meson rtranclp.rtrancl_refl rtranclp.rtrancl_into_rtrancl)
  moreover have "sent (up s3) = [?m]" "lcFailed s3"
    by (simp_all add: s3_def s2_def s1_def s0_def relay_start_def relay_dir_start_def dir_read_def dir_written_def)
  ultimately show ?thesis using relay_udp_correct [OF run [unfolded s0_def]] unfolding s0_def by blast
qed

section \<open>A channel for each destination\<close>

text \<open>A channel: the address it was dialed for, what was written to it, whether it is open. Channel 0 is the argument \<open>rc\<close>.\<close>

record sep_chan =
  ch_dialed :: "HashableAddr option"
  ch_written :: "msg list"
  ch_open :: bool

text \<open>The goroutine that reads \<open>lc\<close>: the statement it is at.\<close>

datatype sep_up = UpRead | UpDialed msg HashableAddr | UpWrite msg HashableAddr | UpFail HashableAddr | UpDone

text \<open>A goroutine that runs \<open>relayUDP_rc_toLC\<close>: not yet started, in its loop over a channel, or behind it. \<open>DownWrong\<close> deletes the entry,
  \<open>DownClose\<close> closes \<open>rc\<close>.\<close>

datatype sep_down = DownStart | DownLoop nat | DownWrite nat msg | DownWrong | DownClose | DownDone

record separate =
  rc :: "nat option"
  rc_raddrMap :: "HashableAddr \<rightharpoonup> nat"
  chans :: "sep_chan list"
  sep_upload :: sep_up
  sep_downs :: "(HashableAddr \<times> sep_down) list"
  sep_lc_open :: bool
  sep_panic :: bool

text \<open>The hash of an absent first address is the zero value.\<close>

definition zero_hash :: HashableAddr where
  "zero_hash = \<lparr>hNetwork = [], hName = [], hIP = InvalidAddr, hPort = 0\<rparr>"

definition separate_start :: "Addr option \<Rightarrow> separate" where
  "separate_start firstAddr =
     (let mainhash = (case firstAddr of None \<Rightarrow> zero_hash | Some a \<Rightarrow> GetHashable a) in
      \<lparr>rc = Some 0, rc_raddrMap = (case firstAddr of None \<Rightarrow> Map.empty | Some a \<Rightarrow> [mainhash \<mapsto> 0]),
       chans = [\<lparr>ch_dialed = map_option GetHashable firstAddr, ch_written = [], ch_open = True\<rparr>],
       sep_upload = UpRead, sep_downs = [(mainhash, DownStart)], sep_lc_open = True, sep_panic = False\<rparr>)"

definition chan_update :: "nat \<Rightarrow> (sep_chan \<Rightarrow> sep_chan) \<Rightarrow> separate \<Rightarrow> separate" where
  "chan_update i f s = s\<lparr>chans := (chans s)[i := f (chans s ! i)]\<rparr>"

definition down_update :: "nat \<Rightarrow> sep_down \<Rightarrow> separate \<Rightarrow> separate" where
  "down_update g d s = s\<lparr>sep_downs := (sep_downs s)[g := (fst (sep_downs s ! g), d)]\<rparr>"

text \<open>\<open>rc.Close()\<close> on whatever \<open>rc\<close> is now.\<close>

definition close_rc :: "separate \<Rightarrow> separate" where
  "close_rc s = (case rc s of None \<Rightarrow> s\<lparr>sep_panic := True\<rparr> | Some i \<Rightarrow> chan_update i (\<lambda>c. c\<lparr>ch_open := False\<rparr>) s)"

text \<open>A datagram from \<open>lc\<close>: an old channel, or a new one is dialed; \<open>ok\<close> says whether \<open>dialfunc\<close> gives one.\<close>

definition sep_recv :: "msg \<Rightarrow> bool \<Rightarrow> separate \<Rightarrow> separate" where
  "sep_recv m ok s =
     (let hash = GetHashable (snd m) in
      case rc_raddrMap s hash of
        Some oldrc \<Rightarrow> s\<lparr>rc := Some oldrc, sep_upload := UpWrite m hash\<rparr>
      | None \<Rightarrow>
          if \<not> ok then s\<lparr>rc := None\<rparr>
          else s\<lparr>rc := Some (length (chans s)), chans := chans s @ [\<lparr>ch_dialed = Some hash, ch_written = [], ch_open = True\<rparr>],
                 sep_upload := UpDialed m hash\<rparr>)"

definition sep_enter :: "msg \<Rightarrow> HashableAddr \<Rightarrow> separate \<Rightarrow> separate" where
  "sep_enter m hash s =
     s\<lparr>rc_raddrMap := (rc_raddrMap s)(hash := rc s), sep_downs := sep_downs s @ [(hash, DownStart)], sep_upload := UpWrite m hash\<rparr>"

definition sep_write :: "msg \<Rightarrow> separate \<Rightarrow> separate" where
  "sep_write m s = (chan_update (the (rc s)) (\<lambda>c. c\<lparr>ch_written := ch_written c @ [m]\<rparr>) s)\<lparr>sep_upload := UpRead\<rparr>"

definition sep_close_all :: "separate \<Rightarrow> separate" where
  "sep_close_all s =
     s\<lparr>chans := map (\<lambda>(i, c). if i \<in> ran (rc_raddrMap s) then c\<lparr>ch_open := False\<rparr> else c) (enumerate 0 (chans s)),
        sep_lc_open := False, sep_upload := UpDone\<rparr>"

inductive sep_step :: "separate \<Rightarrow> separate \<Rightarrow> bool" where
  sep_recv: "\<not> sep_panic s \<Longrightarrow> sep_upload s = UpRead \<Longrightarrow> sep_step s (sep_recv m ok s)"
| sep_recv_err: "\<not> sep_panic s \<Longrightarrow> sep_upload s = UpRead \<Longrightarrow> sep_step s (sep_close_all s)"
| sep_enter: "\<not> sep_panic s \<Longrightarrow> sep_upload s = UpDialed m hash \<Longrightarrow> sep_step s (sep_enter m hash s)"
| sep_write: "\<not> sep_panic s \<Longrightarrow> sep_upload s = UpWrite m hash \<Longrightarrow> sep_step s (sep_write m s)"
| sep_write_err: "\<not> sep_panic s \<Longrightarrow> sep_upload s = UpWrite m hash \<Longrightarrow> sep_step s (s\<lparr>rc_raddrMap := (rc_raddrMap s)(hash := None), sep_upload := UpFail hash\<rparr>)"
| sep_write_err_close: "\<not> sep_panic s \<Longrightarrow> sep_upload s = UpFail hash \<Longrightarrow> sep_step s ((close_rc s)\<lparr>sep_upload := UpRead\<rparr>)"
| sep_down_start: "\<not> sep_panic s \<Longrightarrow> g < length (sep_downs s) \<Longrightarrow> snd (sep_downs s ! g) = DownStart \<Longrightarrow>
    sep_step s (case rc s of Some i \<Rightarrow> down_update g (DownLoop i) s | None \<Rightarrow> s\<lparr>sep_panic := True\<rparr>)"
| sep_down_read: "\<not> sep_panic s \<Longrightarrow> g < length (sep_downs s) \<Longrightarrow> snd (sep_downs s ! g) = DownLoop i \<Longrightarrow> sep_step s (down_update g (DownWrite i m) s)"
| sep_down_read_err: "\<not> sep_panic s \<Longrightarrow> g < length (sep_downs s) \<Longrightarrow> snd (sep_downs s ! g) = DownLoop i \<Longrightarrow> sep_step s (down_update g DownWrong s)"
| sep_down_write: "\<not> sep_panic s \<Longrightarrow> g < length (sep_downs s) \<Longrightarrow> snd (sep_downs s ! g) = DownWrite i m \<Longrightarrow> sep_step s (down_update g (DownLoop i) s)"
| sep_down_write_err: "\<not> sep_panic s \<Longrightarrow> g < length (sep_downs s) \<Longrightarrow> snd (sep_downs s ! g) = DownWrite i m \<Longrightarrow> sep_step s (down_update g DownDone s)"
| sep_down_wrong: "\<not> sep_panic s \<Longrightarrow> g < length (sep_downs s) \<Longrightarrow> snd (sep_downs s ! g) = DownWrong \<Longrightarrow>
    sep_step s (down_update g DownClose (s\<lparr>rc_raddrMap := (rc_raddrMap s)(fst (sep_downs s ! g) := None)\<rparr>))"
| sep_down_close: "\<not> sep_panic s \<Longrightarrow> g < length (sep_downs s) \<Longrightarrow> snd (sep_downs s ! g) = DownClose \<Longrightarrow> sep_step s (down_update g DownDone (close_rc s))"


section \<open>Every channel carries the datagrams of its address\<close>

definition sep_current :: "separate \<Rightarrow> msg \<Rightarrow> HashableAddr \<Rightarrow> bool" where
  "sep_current s m hash \<longleftrightarrow> hash = GetHashable (snd m) \<and>
     (\<exists>i. rc s = Some i \<and> i < length (chans s) \<and> ch_dialed (chans s ! i) = Some hash)"

definition sep_inv :: "separate \<Rightarrow> bool" where
  "sep_inv s \<longleftrightarrow>
     (\<forall>h i. rc_raddrMap s h = Some i \<longrightarrow> i < length (chans s) \<and> ch_dialed (chans s ! i) = Some h) \<and>
     (\<forall>i < length (chans s). \<forall>m \<in> set (ch_written (chans s ! i)). ch_dialed (chans s ! i) = Some (GetHashable (snd m))) \<and>
     (case sep_upload s of UpDialed m h \<Rightarrow> sep_current s m h | UpWrite m h \<Rightarrow> sep_current s m h | _ \<Rightarrow> True)"

lemma sep_inv_start: "sep_inv (separate_start f)"
  by (auto simp: sep_inv_def separate_start_def Let_def split: option.splits)

lemma sep_inv_chan:
  assumes "sep_inv s" "\<And>c. ch_dialed (f c) = ch_dialed c" "\<And>c. ch_written (f c) = ch_written c"
  shows "sep_inv (chan_update i f s)"
proof -
  have "ch_dialed ((chans s)[i := f (chans s ! i)] ! k) = ch_dialed (chans s ! k) \<and> ch_written ((chans s)[i := f (chans s ! i)] ! k) = ch_written (chans s ! k)"
    if "k < length (chans s)" for k using that assms(2,3) by (cases "k = i") simp_all
  with assms(1) show ?thesis by (auto simp: sep_inv_def sep_current_def chan_update_def split: sep_up.splits)
qed

lemma sep_inv_close_rc: "sep_inv s \<Longrightarrow> sep_inv (close_rc s)"
  by (auto simp: close_rc_def sep_inv_chan split: option.split) (auto simp: sep_inv_def sep_current_def split: sep_up.splits)

lemma sep_inv_down: "sep_inv s \<Longrightarrow> sep_inv (down_update g d s)"
  by (auto simp: sep_inv_def sep_current_def down_update_def split: sep_up.splits)

lemma sep_inv_delete: "sep_inv s \<Longrightarrow> sep_inv (s\<lparr>rc_raddrMap := (rc_raddrMap s)(h := None)\<rparr>)"
  by (auto simp: sep_inv_def sep_current_def split: sep_up.splits)

lemma sep_inv_upload: "sep_inv s \<Longrightarrow> sep_inv (s\<lparr>sep_upload := UpRead\<rparr>) \<and> sep_inv (s\<lparr>sep_upload := UpFail h\<rparr>)"
  by (simp add: sep_inv_def)

lemma sep_inv_recv: "sep_inv s \<Longrightarrow> sep_upload s = UpRead \<Longrightarrow> sep_inv (sep_recv m ok s)"
  by (auto simp: sep_recv_def Let_def sep_inv_def sep_current_def nth_append less_Suc_eq split: option.splits)

lemma sep_inv_enter: "sep_inv s \<Longrightarrow> sep_upload s = UpDialed m h \<Longrightarrow> sep_inv (sep_enter m h s)"
  by (auto simp: sep_enter_def sep_inv_def sep_current_def split: if_splits)

lemma sep_inv_write: "sep_inv s \<Longrightarrow> sep_upload s = UpWrite m h \<Longrightarrow> sep_inv (sep_write m s)"
  by (auto simp: sep_write_def chan_update_def sep_inv_def sep_current_def nth_list_update split: if_splits)

lemma sep_inv_close_all: "sep_inv s \<Longrightarrow> sep_inv (sep_close_all s)"
  by (auto simp: sep_close_all_def sep_inv_def nth_enumerate_eq split: prod.splits)

lemma sep_inv_step: "sep_step s s' \<Longrightarrow> sep_inv s \<Longrightarrow> sep_inv s'"
proof (induction rule: sep_step.induct)
  case (sep_write_err s m hash)
  then show ?case using sep_inv_upload [OF sep_inv_delete [OF sep_write_err.prems], of hash hash] by simp
next
  case (sep_down_start s g)
  then show ?case by (auto simp: sep_inv_down split: option.split) (auto simp: sep_inv_def sep_current_def split: sep_up.splits)
qed (auto simp: sep_inv_recv sep_inv_close_all sep_inv_enter sep_inv_write sep_inv_upload sep_inv_close_rc sep_inv_down sep_inv_delete)


text \<open>Runs to look at: a schedule of the steps that matter, executed.\<close>

datatype sep_move = MRecv msg bool | MEnter | MWrite | MStart nat | MReadErr nat | MWrong nat | MClose nat

fun sep_do :: "sep_move \<Rightarrow> separate \<Rightarrow> separate option" where
  "sep_do (MRecv m ok) s = (if sep_upload s = UpRead then Some (sep_recv m ok s) else None)"
| "sep_do MEnter s = (case sep_upload s of UpDialed m h \<Rightarrow> Some (sep_enter m h s) | _ \<Rightarrow> None)"
| "sep_do MWrite s = (case sep_upload s of UpWrite m h \<Rightarrow> Some (sep_write m s) | _ \<Rightarrow> None)"
| "sep_do (MStart g) s = (if g < length (sep_downs s) \<and> snd (sep_downs s ! g) = DownStart
     then Some (case rc s of Some i \<Rightarrow> down_update g (DownLoop i) s | None \<Rightarrow> s\<lparr>sep_panic := True\<rparr>) else None)"
| "sep_do (MReadErr g) s = (if g < length (sep_downs s)
     then (case snd (sep_downs s ! g) of DownLoop i \<Rightarrow> Some (down_update g DownWrong s) | _ \<Rightarrow> None) else None)"
| "sep_do (MWrong g) s = (if g < length (sep_downs s) \<and> snd (sep_downs s ! g) = DownWrong
     then Some (down_update g DownClose (s\<lparr>rc_raddrMap := (rc_raddrMap s)(fst (sep_downs s ! g) := None)\<rparr>)) else None)"
| "sep_do (MClose g) s = (if g < length (sep_downs s) \<and> snd (sep_downs s ! g) = DownClose
     then Some (down_update g DownDone (close_rc s)) else None)"

fun sep_exec :: "sep_move list \<Rightarrow> separate \<Rightarrow> separate option" where
  "sep_exec [] s = Some s"
| "sep_exec (mv # mvs) s = (if sep_panic s then None else case sep_do mv s of None \<Rightarrow> None | Some s' \<Rightarrow> sep_exec mvs s')"

lemma sep_do_step: "sep_do mv s = Some s' \<Longrightarrow> \<not> sep_panic s \<Longrightarrow> sep_step s s'"
  by (cases mv) (auto split: if_splits sep_up.splits sep_down.splits option.splits intro: sep_step.intros
      sep_step.sep_down_start [of s, simplified] dest: sep_step.sep_down_start)

lemma sep_exec_run: "sep_exec mvs s = Some s' \<Longrightarrow> sep_step\<^sup>*\<^sup>* s s'"
proof (induction mvs arbitrary: s)
  case (Cons mv mvs)
  then show ?case by (auto split: if_splits option.splits intro: converse_rtranclp_into_rtranclp sep_do_step)
qed simp

lemma sep_exec_ex: "\<exists>s'. sep_exec mvs s = Some s' \<and> P s' \<Longrightarrow> \<exists>s'. sep_step\<^sup>*\<^sup>* s s' \<and> P s'"
  using sep_exec_run by blast

lemmas sep_exec_simps = separate_start_def sep_recv_def sep_enter_def sep_write_def chan_update_def down_update_def close_rc_def Let_def nth_append

lemma sep_exec_two_readers:
  assumes "GetHashable (snd a) \<noteq> GetHashable f" "GetHashable (snd b) \<noteq> GetHashable f" "GetHashable (snd a) \<noteq> GetHashable (snd b)"
  shows "\<exists>s. sep_exec [MStart 0, MRecv a True, MEnter, MWrite, MRecv b True, MEnter, MWrite, MStart 1, MStart 2] (separate_start (Some f)) = Some s \<and>
    rc_raddrMap s (GetHashable (snd a)) = Some 1 \<and> ch_open (chans s ! 1) \<and> map snd (sep_downs s) = [DownLoop 0, DownLoop 2, DownLoop 2]"
  using assms by (simp add: sep_exec_simps)

lemma sep_exec_wrong_close:
  assumes "GetHashable (snd a) \<noteq> GetHashable f"
  shows "\<exists>s. sep_exec [MStart 0, MRecv a True, MEnter, MWrite, MStart 1, MReadErr 0, MWrong 0, MClose 0] (separate_start (Some f)) = Some s \<and>
    map snd (sep_downs s) = [DownDone, DownLoop 1] \<and> rc_raddrMap s (GetHashable (snd a)) = Some 1 \<and> \<not> ch_open (chans s ! 1) \<and> ch_open (chans s ! 0)"
  using assms by (simp add: sep_exec_simps)

lemma sep_exec_nil:
  assumes "GetHashable (snd a) \<noteq> GetHashable f"
  shows "\<exists>s. sep_exec [MStart 0, MRecv a False, MReadErr 0, MWrong 0, MClose 0] (separate_start (Some f)) = Some s \<and> sep_panic s"
  using assms by (simp add: sep_exec_simps)

text \<open>
  The shared variable: the loop of a new channel takes \<open>rc\<close> only when its goroutine gets to run. When a second address is dialed before that, both
  goroutines read the second channel and nobody the first, so its replies are lost. When the first channel fails, its goroutine closes the channel
  dialed last, which was fine; and when the last dial failed, \<open>rc\<close> is nil and closing it ends the process.
\<close>
theorem separate_shared_variable:
  assumes "GetHashable (snd (a :: msg)) \<noteq> GetHashable f" and "GetHashable (snd (b :: msg)) \<noteq> GetHashable f" and "GetHashable (snd a) \<noteq> GetHashable (snd b)"
  shows "(\<exists>s. sep_step\<^sup>*\<^sup>* (separate_start (Some f)) s \<and> rc_raddrMap s (GetHashable (snd a)) = Some 1 \<and> ch_open (chans s ! 1) \<and>
      map snd (sep_downs s) = [DownLoop 0, DownLoop 2, DownLoop 2]) \<and>
    (\<exists>s. sep_step\<^sup>*\<^sup>* (separate_start (Some f)) s \<and> map snd (sep_downs s) = [DownDone, DownLoop 1] \<and>
      rc_raddrMap s (GetHashable (snd a)) = Some 1 \<and> \<not> ch_open (chans s ! 1) \<and> ch_open (chans s ! 0)) \<and>
    (\<exists>s. sep_step\<^sup>*\<^sup>* (separate_start (Some f)) s \<and> sep_panic s)"
  by (intro conjI) (rule sep_exec_ex [OF sep_exec_two_readers [OF assms]], rule sep_exec_ex [OF sep_exec_wrong_close [OF assms(1)]],
      rule sep_exec_ex [OF sep_exec_nil [OF assms(1)]])

definition demo_msg :: "string \<Rightarrow> msg" where "demo_msg n = ([1], zero_Addr\<lparr>Name := n, Port := 53\<rparr>)"

lemma demo_msg_hash: "GetHashable (snd (demo_msg n)) = GetHashable (snd (demo_msg k)) \<longleftrightarrow> n = k"
  by (auto simp: demo_msg_def GetHashable_def zero_Addr_def To4_def)

lemma separate_shared_variable_witness:
  "\<exists>s. sep_step\<^sup>*\<^sup>* (separate_start (Some (snd (demo_msg ''f'')))) s \<and> map snd (sep_downs s) = [DownLoop 0, DownLoop 2, DownLoop 2]"
  using separate_shared_variable [of "demo_msg ''a''" "snd (demo_msg ''f'')" "demo_msg ''b''"] by (auto simp: demo_msg_hash)


end
