(* ===== verification/NetUdp.thy ===== *)
theory NetUdp
  imports NetAddrText "HOL-Library.AList"
begin

text \<open>
  The UDP connections of netLayer: \<open>UDPConn\<close> (udpConn.go), a connection to one peer fed by a channel; \<open>UDPMsgConn\<close> (msgconn.go),
  which serves direct traffic and gives every destination a socket of its own unless it is full cone; \<open>UDPListener\<close>
  (udplistener.go), which makes a \<open>UDPConn\<close> for every source. Sockets and the network are the environment; goroutines
  are program counters, and each step is one statement that others can see. Buffer sizes and sleeping are left out.
\<close>

section \<open>UDPConn\<close>

record UDPConn =
  peerAddr :: net_addr
  inMsgChan :: "(net_addr \<times> bytes) list"
  inMsgChanClosed :: bool
  clientFirstWrite :: bool  \<comment> \<open>clientFirstWriteChan is closed\<close>
  clientFirstWriteChanClosed :: bool
  unread :: bytes
  isClient :: bool
  realConnOpen :: bool
  out_msgs :: "(net_addr \<times> bytes) list"  \<comment> \<open>what went out\<close>

definition NewUDPConn :: "net_addr \<Rightarrow> bool \<Rightarrow> UDPConn" where
  "NewUDPConn raddr client =
     \<lparr>peerAddr = raddr, inMsgChan = [], inMsgChanClosed = False, clientFirstWrite = False, clientFirstWriteChanClosed = False,
      unread = [], isClient = client, realConnOpen = True, out_msgs = []\<rparr>"

text \<open>\<open>ReadMsg\<close> with the deadline not yet over: \<open>None\<close> while it waits.\<close>

definition UDPConn_ReadMsg :: "UDPConn \<Rightarrow> ((goerr + bytes \<times> Addr) \<times> UDPConn) option" where
  "UDPConn_ReadMsg uc =
     (case inMsgChan uc of
        (a, bs) # ms \<Rightarrow> Some (Inr (bs, NewAddrFromUDPAddr a), uc\<lparr>inMsgChan := ms\<rparr>)
      | [] \<Rightarrow> if inMsgChanClosed uc then Some (Inl io_EOF, uc) else None)"

definition UDPConn_ReadFrom :: "nat \<Rightarrow> UDPConn \<Rightarrow> ((goerr + bytes \<times> net_addr) \<times> UDPConn) option" where
  "UDPConn_ReadFrom n uc =
     (case inMsgChan uc of
        (a, bs) # ms \<Rightarrow> Some (Inr (take n bs, peerAddr uc), uc\<lparr>inMsgChan := ms\<rparr>)
      | [] \<Rightarrow> if inMsgChanClosed uc then Some (Inl io_EOF, uc) else None)"

definition UDPConn_Read :: "nat \<Rightarrow> UDPConn \<Rightarrow> ((goerr + bytes) \<times> UDPConn) option" where
  "UDPConn_Read n uc =
     (if unread uc \<noteq> [] then Some (Inr (take n (unread uc)), uc\<lparr>unread := drop n (unread uc)\<rparr>)
      else case UDPConn_ReadMsg uc of
          None \<Rightarrow> None
        | Some (Inl e, uc) \<Rightarrow> Some (Inl e, uc)
        | Some (Inr (msg, _), uc) \<Rightarrow>
            Some (Inr (take n msg), if length msg > n then uc\<lparr>unread := unread uc @ drop n msg\<rparr> else uc))"

text \<open>\<open>Write\<close> and \<open>WriteMsg\<close>: the first write of a client lets its reading goroutine go. \<open>ok\<close> says whether the socket takes the
  datagram.\<close>

definition UDPConn_first_write :: "UDPConn \<Rightarrow> UDPConn" where
  "UDPConn_first_write uc =
     (if isClient uc \<and> \<not> clientFirstWriteChanClosed uc
      then uc\<lparr>clientFirstWrite := True, clientFirstWriteChanClosed := True\<rparr> else uc)"

definition UDPConn_send :: "bool \<Rightarrow> net_addr \<Rightarrow> bytes \<Rightarrow> UDPConn \<Rightarrow> goerr option \<times> UDPConn" where
  "UDPConn_send ok dest buf uc =
     (if ok \<and> realConnOpen uc then (None, UDPConn_first_write (uc\<lparr>out_msgs := out_msgs uc @ [(dest, buf)]\<rparr>))
      else (Some (NewErr ''write udp''), UDPConn_first_write uc))"

definition UDPConn_Write :: "bool \<Rightarrow> bytes \<Rightarrow> UDPConn \<Rightarrow> goerr option \<times> UDPConn" where
  "UDPConn_Write ok buf uc = UDPConn_send ok (peerAddr uc) buf uc"

definition UDPConn_WriteMsg :: "bool \<Rightarrow> bytes \<Rightarrow> net_addr \<Rightarrow> UDPConn \<Rightarrow> goerr option \<times> UDPConn" where
  "UDPConn_WriteMsg ok buf addr uc = UDPConn_send ok (if isClient uc then peerAddr uc else addr) buf uc"

definition CloseMsgChan :: "UDPConn \<Rightarrow> UDPConn" where
  "CloseMsgChan uc =
     (if isClient uc \<and> \<not> clientFirstWriteChanClosed uc then
        (if inMsgChanClosed uc then uc\<lparr>clientFirstWriteChanClosed := True\<rparr>
         else uc\<lparr>clientFirstWriteChanClosed := True, inMsgChanClosed := True\<rparr>)
      else uc)"

definition UDPConn_Close :: "UDPConn \<Rightarrow> UDPConn" where
  "UDPConn_Close uc = (if isClient uc then (CloseMsgChan uc)\<lparr>realConnOpen := False\<rparr> else uc)"

subsection \<open>Reading it as a stream\<close>

text \<open>The reads of a connection whose channel has been closed after the datagrams in it.\<close>

definition UDPConn_rd :: "nat \<Rightarrow> (UDPConn, bytes) rd" where
  "UDPConn_rd n uc = (case UDPConn_Read n uc of Some r \<Rightarrow> r | None \<Rightarrow> (Inl (NewErr ''waits''), uc))"

definition UDPConn_content :: "UDPConn \<Rightarrow> bytes" where
  "UDPConn_content uc = unread uc @ concat (map snd (inMsgChan uc))"

definition UDPConn_ended :: "UDPConn \<Rightarrow> bool" where
  "UDPConn_ended uc \<longleftrightarrow> inMsgChanClosed uc \<and> [] \<notin> snd ` set (inMsgChan uc)"

interpretation udpconn_reader: stream_reader UDPConn_rd UDPConn_content UDPConn_ended
proof unfold_locales
  fix uc uc' :: UDPConn and n xs assume "UDPConn_ended uc" "UDPConn_rd n uc = (Inr xs, uc')"
  then show "UDPConn_ended uc' \<and> UDPConn_content uc = xs @ UDPConn_content uc' \<and> length xs \<le> n"
    by (cases "inMsgChan uc")
      (auto simp: UDPConn_rd_def UDPConn_Read_def UDPConn_ReadMsg_def UDPConn_content_def UDPConn_ended_def min_def split: if_splits, force+)
next
  fix uc :: UDPConn and n :: nat assume "UDPConn_ended uc" "UDPConn_content uc \<noteq> []" "0 < n"
  then show "\<exists>xs uc'. UDPConn_rd n uc = (Inr xs, uc') \<and> xs \<noteq> []"
    by (cases "inMsgChan uc") (auto simp: UDPConn_rd_def UDPConn_Read_def UDPConn_ReadMsg_def UDPConn_content_def UDPConn_ended_def)
next
  fix uc :: UDPConn and n :: nat assume "UDPConn_ended uc" "UDPConn_content uc = []" "0 < n"
  then show "\<exists>uc'. UDPConn_rd n uc = (Inl io_EOF, uc') \<and> UDPConn_ended uc' \<and> UDPConn_content uc' = []"
    by (cases "inMsgChan uc") (auto simp: UDPConn_rd_def UDPConn_Read_def UDPConn_ReadMsg_def UDPConn_content_def UDPConn_ended_def)
qed

text \<open>
  The stream side of a \<open>UDPConn\<close> loses nothing: reads of any sizes return the datagrams one after the other, each byte once, the
  rest of a datagram that did not fit included.
\<close>
theorem udpconn_reads_datagrams:
  assumes "inMsgChanClosed uc" and "unread uc = []" and "\<forall>m \<in> set (inMsgChan uc). snd m \<noteq> []"
    and "udpconn_reader.reads ns uc = (Inr got, uc')" and "0 < n"
  shows "\<exists>rest. concat (map snd (inMsgChan uc)) = got @ rest \<and>
    (if rest = [] then fst (UDPConn_rd n uc') = Inl io_EOF
     else \<exists>xs. fst (UDPConn_rd n uc') = Inr xs \<and> xs \<noteq> [] \<and> prefix xs rest)"
proof -
  have "UDPConn_ended uc" using assms(1,3) by (auto simp: UDPConn_ended_def)
  with udpconn_reader.reads_then_next [of uc ns got uc' n] assms show ?thesis by (simp add: UDPConn_content_def)
qed

lemma udpconn_reads_datagrams_witness:
  "fst (UDPConn_rd 5 \<lparr>peerAddr = (None, 0), inMsgChan = [((None, 0), [4])], inMsgChanClosed = True, clientFirstWrite = False,
      clientFirstWriteChanClosed = False, unread = [3], isClient = True, realConnOpen = True, out_msgs = []\<rparr>) = Inr [3]"
proof -
  let ?uc = "(NewUDPConn (None, 0) True)\<lparr>inMsgChan := [((None, 0), [1, 2, 3]), ((None, 0), [4])], inMsgChanClosed := True\<rparr>"
  let ?uc' = "(NewUDPConn (None, 0) True)\<lparr>inMsgChan := [((None, 0), [4])], inMsgChanClosed := True, unread := [3]\<rparr>"
  have "udpconn_reader.reads [2] ?uc = (Inr [1, 2], ?uc')"
    by (simp add: rd_bind_def UDPConn_rd_def UDPConn_Read_def UDPConn_ReadMsg_def NewUDPConn_def)
  from udpconn_reads_datagrams [OF _ _ _ this, of 5] show ?thesis
    by (simp add: NewUDPConn_def UDPConn_rd_def UDPConn_Read_def)
qed

text \<open>A client that has written is not woken by \<open>Close\<close>: the channel stays open, so a \<open>ReadMsg\<close> that waits goes on waiting. A client that is
  closed before it has written never lets its goroutine go.\<close>

lemma UDPConn_Close_after_write:
  assumes "isClient uc" "\<not> inMsgChanClosed uc" "inMsgChan uc = []"
  shows "UDPConn_ReadMsg (UDPConn_Close (snd (UDPConn_Write ok buf uc))) = None"
  using assms by (auto simp: UDPConn_Close_def CloseMsgChan_def UDPConn_Write_def UDPConn_send_def UDPConn_first_write_def UDPConn_ReadMsg_def)

lemma UDPConn_Close_before_write:
  assumes "isClient uc" "\<not> clientFirstWrite uc" "\<not> clientFirstWriteChanClosed uc"
  shows "\<not> clientFirstWrite (snd (UDPConn_Write ok buf (UDPConn_Close uc)))"
  using assms by (simp add: UDPConn_Close_def CloseMsgChan_def UDPConn_Write_def UDPConn_send_def UDPConn_first_write_def)

text \<open>The goroutine that \<open>NewUDPConn\<close> starts for a client: one turn of its loop with what \<open>ReadFromUDP\<close> returned, \<open>None\<close> while it
  waits for the first write or for room in the channel.\<close>

definition inMsgChan_cap :: nat where
  "inMsgChan_cap = 20"

definition UDPConn_client_loop :: "(net_addr \<times> bytes) option \<Rightarrow> bool \<Rightarrow> UDPConn \<Rightarrow> UDPConn option" where
  "UDPConn_client_loop got err uc =
     (if \<not> (isClient uc \<and> clientFirstWrite uc) then None
      else case got of
          None \<Rightarrow> Some (if err then UDPConn_Close uc else uc)
        | Some m \<Rightarrow>
            if length (inMsgChan uc) \<ge> inMsgChan_cap then None
            else (let uc = uc\<lparr>inMsgChan := inMsgChan uc @ [m]\<rparr> in Some (if err then UDPConn_Close uc else uc)))"

section \<open>UDPMsgConn\<close>

text \<open>A step of a goroutine goes on, waits on a channel, or panics.\<close>

datatype 'a step_res = Goes 'a | Waits | Panics

fun run_steps :: "('e \<Rightarrow> 's \<Rightarrow> 's step_res) \<Rightarrow> 'e list \<Rightarrow> 's \<Rightarrow> 's step_res" where
  "run_steps f [] s = Goes s"
| "run_steps f (e # es) s = (case f e s of Goes s \<Rightarrow> run_steps f es s | Waits \<Rightarrow> Waits | Panics \<Rightarrow> Panics)"

lemma run_steps_append:
  "run_steps f (es @ es') s = (case run_steps f es s of Goes s \<Rightarrow> run_steps f es' s | Waits \<Rightarrow> Waits | Panics \<Rightarrow> Panics)"
  by (induction es arbitrary: s) (auto split: step_res.splits)

lemma run_steps_invariant:
  assumes "run_steps f es s = Goes s'" and "P s" and "\<And>e s s'. f e s = Goes s' \<Longrightarrow> P s \<Longrightarrow> P s'"
  shows "P s'"
  using assms(1,2) by (induction es arbitrary: s) (auto split: step_res.splits intro: assms(3))

type_synonym datagram = "bytes \<times> Addr"

text \<open>A goroutine that reads one socket: waiting for a datagram, holding one that the channel has not taken, and the two statements
  behind its loop. \<open>reader_got\<close> is a ghost, all it has taken for the channel.\<close>

datatype reader_pc = ReadFromUDP | SendMsg datagram | DeleteEntry | CloseSock | ReaderDone

record reader =
  reader_conn :: nat
  reader_hash :: HashableAddr
  reader_pc :: reader_pc
  reader_got :: "datagram list"

text \<open>Sockets are numbered, 0 is the embedded \<open>UDPConn\<close>; \<open>socks\<close> says which are open. A datagram in the channel bears the number
  of its reader, and \<open>received\<close> holds what \<open>ReadMsg\<close> has returned; \<open>sentTo\<close> what went out, with the socket.\<close>

record UDPMsgConn =
  fullcone :: bool
  IsServer :: bool
  closed :: bool
  symmetricMap :: "(HashableAddr \<times> nat) list"
  symmetricMsgReadChan :: "(nat \<times> datagram) list"
  socks :: "bool list"
  readers :: "reader list"
  received :: "(nat \<times> datagram) list"
  sentTo :: "(nat \<times> Addr \<times> bytes) list"

definition NewUDPMsgConn :: "bool \<Rightarrow> bool \<Rightarrow> UDPMsgConn" where
  "NewUDPMsgConn fc isserver =
     \<lparr>fullcone = fc, IsServer = isserver, closed = False, symmetricMap = [], symmetricMsgReadChan = [], socks = [True],
      readers = [], received = [], sentTo = []\<rparr>"

definition symmetricMsgReadChan_cap :: nat where
  "symmetricMsgReadChan_cap = 50"

definition sock_open :: "UDPMsgConn \<Rightarrow> nat \<Rightarrow> bool" where
  "sock_open u i \<longleftrightarrow> i < length (socks u) \<and> socks u ! i"

definition sock_WriteTo :: "bool \<Rightarrow> nat \<Rightarrow> bytes \<Rightarrow> Addr \<Rightarrow> UDPMsgConn \<Rightarrow> goerr option \<times> UDPMsgConn" where
  "sock_WriteTo ok i bs raddr u =
     (if ok \<and> sock_open u i then (None, u\<lparr>sentTo := sentTo u @ [(i, raddr, bs)]\<rparr>) else (Some (NewErr ''write udp''), u))"

definition go_reader :: "nat \<Rightarrow> HashableAddr \<Rightarrow> UDPMsgConn \<Rightarrow> UDPMsgConn" where
  "go_reader i hash u =
     u\<lparr>readers := readers u @ [\<lparr>reader_conn = i, reader_hash = hash, reader_pc = ReadFromUDP, reader_got = []\<rparr>]\<rparr>"

definition udp_hash :: "Addr \<Rightarrow> HashableAddr" where
  "udp_hash raddr = (GetHashable raddr)\<lparr>hNetwork := ''udp''\<rparr>"

text \<open>\<open>ok\<close>: the network takes the datagram; \<open>listens\<close>: \<open>net.ListenUDP\<close> finds a port. Between the statements of \<open>WriteMsg\<close> only the
  deletion of an entry by a reader could come, which is the same before it or behind it.\<close>

definition UDPMsgConn_WriteMsg :: "bool \<Rightarrow> bool \<Rightarrow> bytes \<Rightarrow> Addr \<Rightarrow> UDPMsgConn \<Rightarrow> goerr option \<times> UDPMsgConn" where
  "UDPMsgConn_WriteMsg ok listens bs raddr u =
     (if \<not> fullcone u \<and> \<not> IsServer u then
        (let thishash = udp_hash raddr in
         if length (symmetricMap u) = 0 then
           (let (err, u) = sock_WriteTo ok 0 bs raddr u;
                u = (if err = None then u\<lparr>symmetricMap := AList.update thishash 0 (symmetricMap u)\<rparr> else u)
            in (err, go_reader 0 thishash u))
         else case map_of (symmetricMap u) thishash of
             Some theConn \<Rightarrow> sock_WriteTo ok theConn bs raddr u
           | None \<Rightarrow>
               if \<not> listens then (Some (NewErr ''listen udp''), u)
               else (let theConn = length (socks u);
                         u = u\<lparr>socks := socks u @ [True], symmetricMap := AList.update thishash theConn (symmetricMap u)\<rparr>
                     in sock_WriteTo ok theConn bs raddr (go_reader theConn thishash u)))
      else sock_WriteTo ok 0 bs raddr u)"

text \<open>One statement of \<open>readSymmetricMsgFromConn\<close>; \<open>got = None\<close> is a timeout or a closed socket.\<close>

definition set_reader :: "nat \<Rightarrow> reader_pc \<Rightarrow> UDPMsgConn \<Rightarrow> UDPMsgConn" where
  "set_reader i pc u = u\<lparr>readers := (readers u)[i := (readers u ! i)\<lparr>reader_pc := pc\<rparr>]\<rparr>"

definition readSymmetricMsgFromConn :: "datagram option \<Rightarrow> nat \<Rightarrow> UDPMsgConn \<Rightarrow> UDPMsgConn step_res" where
  "readSymmetricMsgFromConn got i u =
     (if i \<ge> length (readers u) then Waits
      else let r = readers u ! i in
        case reader_pc r of
          ReadFromUDP \<Rightarrow>
            (case got of
               Some m \<Rightarrow>
                 if \<not> sock_open u (reader_conn r) then Waits
                 else if closed u then Goes (set_reader i DeleteEntry u)
                 else Goes (u\<lparr>readers := (readers u)[i := r\<lparr>reader_pc := SendMsg m, reader_got := reader_got r @ [m]\<rparr>]\<rparr>)
             | None \<Rightarrow> Goes (set_reader i DeleteEntry u))
        | SendMsg m \<Rightarrow>
            if closed u then Panics
            else if length (symmetricMsgReadChan u) \<ge> symmetricMsgReadChan_cap then Waits
            else Goes (set_reader i ReadFromUDP (u\<lparr>symmetricMsgReadChan := symmetricMsgReadChan u @ [(i, m)]\<rparr>))
        | DeleteEntry \<Rightarrow> Goes (set_reader i CloseSock (u\<lparr>symmetricMap := AList.delete (reader_hash r) (symmetricMap u)\<rparr>))
        | CloseSock \<Rightarrow> Goes (set_reader i ReaderDone (u\<lparr>socks := (socks u)[reader_conn r := False]\<rparr>))
        | ReaderDone \<Rightarrow> Waits)"

definition net_ErrClosed :: goerr where
  "net_ErrClosed = NewErr ''use of closed network connection''"

text \<open>\<open>ReadMsg\<close>; \<open>direct\<close> is what the socket returns when the connection is full cone. \<open>None\<close> while it waits.\<close>

definition UDPMsgConn_ReadMsg :: "(goerr + datagram) \<Rightarrow> UDPMsgConn \<Rightarrow> ((goerr + datagram) \<times> UDPMsgConn) option" where
  "UDPMsgConn_ReadMsg direct u =
     (if fullcone u then Some (direct, u)
      else case symmetricMsgReadChan u of
          (i, bs, a) # ms \<Rightarrow>
            Some (Inr (bs, a\<lparr>Network := ''udp''\<rparr>), u\<lparr>symmetricMsgReadChan := ms, received := received u @ [(i, bs, a)]\<rparr>)
        | [] \<Rightarrow> if closed u then Some (Inl net_ErrClosed, u) else None)"

definition CloseConnWithRaddr :: "Addr \<Rightarrow> UDPMsgConn \<Rightarrow> UDPMsgConn" where
  "CloseConnWithRaddr raddr u =
     (if IsServer u \<or> fullcone u then u
      else let thehash = GetHashable raddr in
        case map_of (symmetricMap u) thehash of
          Some theConn \<Rightarrow> u\<lparr>symmetricMap := AList.delete thehash (symmetricMap u), socks := (socks u)[theConn := False]\<rparr>
        | None \<Rightarrow> u)"

definition UDPMsgConn_Close :: "UDPMsgConn \<Rightarrow> UDPMsgConn" where
  "UDPMsgConn_Close u = (if closed u then u else u\<lparr>closed := True, socks := (socks u)[0 := False]\<rparr>)"

text \<open>\<open>ReadFrom\<close> and \<open>WriteTo\<close>, the methods of \<open>net.PacketConn\<close>.\<close>

definition UDPMsgConn_ReadFrom :: "nat \<Rightarrow> (goerr + datagram) \<Rightarrow> UDPMsgConn \<Rightarrow> ((goerr + bytes \<times> Addr) \<times> UDPMsgConn) option" where
  "UDPMsgConn_ReadFrom n direct u =
     (case UDPMsgConn_ReadMsg direct u of
        None \<Rightarrow> None
      | Some (Inl e, u) \<Rightarrow> Some (Inl e, u)
      | Some (Inr (bs, a), u) \<Rightarrow> Some (Inr (take n bs, a), u))"

definition UDPMsgConn_WriteTo :: "bool \<Rightarrow> bool \<Rightarrow> bytes \<Rightarrow> dest_any \<Rightarrow> UDPMsgConn \<Rightarrow> (nat \<times> goerr option) \<times> UDPMsgConn" where
  "UDPMsgConn_WriteTo ok listens p raddr u =
     (case raddr of
        AnyUDPAddr ua \<Rightarrow>
          (case UDPMsgConn_WriteMsg ok listens p (NewAddrFromUDPAddr ua) u of
             (None, u) \<Rightarrow> ((length p, None), u)
           | (Some e, u) \<Rightarrow> ((0, Some e), u))
      | _ \<Rightarrow> ((0, Some (NewErr ''UDPMsgConn.WriteTo, raddr can't cast to *net.UDPAddr'')), u))"

datatype umc_event =
    EvWrite bool bool bytes Addr
  | EvReader nat "datagram option"
  | EvRead
  | EvCloseConn Addr
  | EvClose

fun umc_step :: "umc_event \<Rightarrow> UDPMsgConn \<Rightarrow> UDPMsgConn step_res" where
  "umc_step (EvWrite ok listens bs raddr) u = Goes (snd (UDPMsgConn_WriteMsg ok listens bs raddr u))"
| "umc_step (EvReader i got) u = readSymmetricMsgFromConn got i u"
| "umc_step EvRead u = (case UDPMsgConn_ReadMsg (Inl net_ErrClosed) u of Some (_, u) \<Rightarrow> Goes u | None \<Rightarrow> Waits)"
| "umc_step (EvCloseConn raddr) u = Goes (CloseConnWithRaddr raddr u)"
| "umc_step EvClose u = Goes (UDPMsgConn_Close u)"

subsection \<open>Every destination has a socket of its own\<close>

definition umc_wf :: "UDPMsgConn \<Rightarrow> bool" where
  "umc_wf u \<longleftrightarrow> socks u \<noteq> [] \<and> distinct (map fst (symmetricMap u)) \<and> distinct (map snd (symmetricMap u)) \<and>
     (\<forall>i \<in> snd ` set (symmetricMap u). i < length (socks u)) \<and>
     (\<forall>r \<in> set (readers u). reader_conn r < length (socks u))"

lemma umc_start_wf: "umc_wf (NewUDPMsgConn fc isserver)"
  by (simp add: umc_wf_def NewUDPMsgConn_def)

lemma sock_WriteTo_simps [simp]:
  "socks (snd (sock_WriteTo ok i bs a u)) = socks u" "symmetricMap (snd (sock_WriteTo ok i bs a u)) = symmetricMap u"
  "readers (snd (sock_WriteTo ok i bs a u)) = readers u" "closed (snd (sock_WriteTo ok i bs a u)) = closed u"
  "fullcone (snd (sock_WriteTo ok i bs a u)) = fullcone u" "IsServer (snd (sock_WriteTo ok i bs a u)) = IsServer u"
  "symmetricMsgReadChan (snd (sock_WriteTo ok i bs a u)) = symmetricMsgReadChan u" "received (snd (sock_WriteTo ok i bs a u)) = received u"
  by (auto simp: sock_WriteTo_def)

lemma map_of_None_update: "map_of xs k = None \<Longrightarrow> AList.update k v xs = xs @ [(k, v)]"
  by (induction xs) (auto split: if_splits)

lemma snd_delete_subset: "set (AList.delete k xs) \<subseteq> set xs"
  by (auto simp: AList.delete_eq)

lemma distinct_snd_delete: "distinct (map snd xs) \<Longrightarrow> distinct (map snd (AList.delete k xs))"
  by (induction xs) (auto simp: AList.delete_eq)

lemma umc_wf_delete:
  assumes "umc_wf u" and "length (socks u') = length (socks u)" and "symmetricMap u' = AList.delete k (symmetricMap u)"
    and "map reader_conn (readers u') = map reader_conn (readers u)"
  shows "umc_wf u'"
proof -
  have "\<forall>r \<in> set (readers u'). reader_conn r < length (socks u')"
    using assms(1,2) arg_cong [OF assms(4), of set] unfolding umc_wf_def by (metis (no_types, lifting) imageE imageI list.set_map)
  then show ?thesis
    using assms snd_delete_subset [of k "symmetricMap u"] by (auto simp: umc_wf_def distinct_snd_delete distinct_delete)
qed

lemma umc_wf_same:
  assumes "umc_wf u" and "length (socks u') = length (socks u)" and "symmetricMap u' = symmetricMap u"
    and "map reader_conn (readers u') = map reader_conn (readers u)"
  shows "umc_wf u'"
proof -
  have "\<forall>r \<in> set (readers u'). reader_conn r < length (socks u')"
    using assms(1,2) arg_cong [OF assms(4), of set] unfolding umc_wf_def by (metis (no_types, lifting) imageE imageI list.set_map)
  then show ?thesis using assms by (auto simp: umc_wf_def)
qed

lemma map_reader_conn_update [simp]:
  "i < length rs \<Longrightarrow> reader_conn r = reader_conn (rs ! i) \<Longrightarrow> map reader_conn (rs[i := r]) = map reader_conn rs"
  by (simp add: map_update list_update_same_conv)

lemma WriteMsg_wf: "umc_wf u \<Longrightarrow> umc_wf (snd (UDPMsgConn_WriteMsg ok listens bs raddr u))"
proof (cases "\<not> fullcone u \<and> \<not> IsServer u")
  case False
  then show "umc_wf u \<Longrightarrow> ?thesis" by (auto simp: UDPMsgConn_WriteMsg_def intro: umc_wf_same)
next
  case sym: True
  assume wf: "umc_wf u"
  show ?thesis
  proof (cases "symmetricMap u")
    case Nil
    with sym wf show ?thesis
      by (auto simp: UDPMsgConn_WriteMsg_def Let_def go_reader_def umc_wf_def sock_WriteTo_def split: if_splits)
  next
    case (Cons p ps)
    then show ?thesis
    proof (cases "map_of (symmetricMap u) (udp_hash raddr)")
      case None
      have "udp_hash raddr \<notin> fst ` set (symmetricMap u)" using None by (simp add: map_of_eq_None_iff)
      moreover have "length (socks u) \<notin> snd ` set (symmetricMap u)" using wf by (auto simp: umc_wf_def)
      ultimately show ?thesis using sym wf Cons None
        by (cases listens)
          (simp_all add: UDPMsgConn_WriteMsg_def Let_def map_of_None_update go_reader_def umc_wf_def less_Suc_eq)
    next
      case (Some i)
      with sym wf Cons show ?thesis by (auto simp: UDPMsgConn_WriteMsg_def Let_def intro: umc_wf_same)
    qed
  qed
qed

lemma umc_step_wf: "umc_step e u = Goes u' \<Longrightarrow> umc_wf u \<Longrightarrow> umc_wf u'"
proof (induction e u rule: umc_step.induct)
  case (1 ok listens bs raddr u)
  then show ?case using WriteMsg_wf by auto
next
  case (2 i got u)
  then show ?case
    by (auto simp: readSymmetricMsgFromConn_def set_reader_def Let_def split: if_splits reader_pc.splits option.splits
        intro: umc_wf_same umc_wf_delete)
next
  case (3 u)
  then show ?case
    by (auto simp: UDPMsgConn_ReadMsg_def umc_wf_def split: if_splits list.splits, force+)
next
  case (4 raddr u)
  then show ?case
    by (auto simp: CloseConnWithRaddr_def Let_def split: if_splits option.splits intro: umc_wf_same umc_wf_delete)
next
  case (5 u)
  then show ?case by (auto simp: UDPMsgConn_Close_def split: if_splits intro: umc_wf_same)
qed


definition demo_dest :: "nat \<Rightarrow> Addr" where
  "demo_dest n = zero_Addr\<lparr>Port := int n\<rparr>"

lemma demo_dest_hash: "n < 65536 \<Longrightarrow> k < 65536 \<Longrightarrow> udp_hash (demo_dest n) = udp_hash (demo_dest k) \<longleftrightarrow> n = k"
  by (auto simp: udp_hash_def demo_dest_def GetHashable_def zero_Addr_def To4_def word_of_nat_eq_iff take_bit_nat_eq_self)


subsection \<open>Nothing is lost between the sockets and ReadMsg\<close>

definition of_reader :: "nat \<Rightarrow> (nat \<times> datagram) list \<Rightarrow> datagram list" where
  "of_reader i ms = map snd (filter (\<lambda>m. fst m = i) ms)"

lemma of_reader_simps [simp]:
  "of_reader i [] = []" "of_reader i (xs @ ys) = of_reader i xs @ of_reader i ys"
  "of_reader i ((j, m) # ms) = (if j = i then m # of_reader i ms else of_reader i ms)"
  by (simp_all add: of_reader_def)

definition in_hand :: "reader_pc \<Rightarrow> datagram list" where
  "in_hand p = (case p of SendMsg m \<Rightarrow> [m] | _ \<Rightarrow> [])"

lemma in_hand_simps [simp]:
  "in_hand ReadFromUDP = []" "in_hand (SendMsg m) = [m]" "in_hand DeleteEntry = []" "in_hand CloseSock = []" "in_hand ReaderDone = []"
  by (simp_all add: in_hand_def)

definition umc_flow :: "UDPMsgConn \<Rightarrow> bool" where
  "umc_flow u \<longleftrightarrow> (\<forall>m \<in> set (received u @ symmetricMsgReadChan u). fst m < length (readers u)) \<and>
     (\<forall>i < length (readers u). reader_got (readers u ! i) =
        of_reader i (received u @ symmetricMsgReadChan u) @ in_hand (reader_pc (readers u ! i)))"

lemma of_reader_fresh: "\<forall>m \<in> set ms. fst m < n \<Longrightarrow> of_reader n ms = []"
  by (auto simp: of_reader_def filter_empty_conv)

lemma umc_flow_same:
  assumes "umc_flow u" and "readers u' = readers u" and "received u' @ symmetricMsgReadChan u' = received u @ symmetricMsgReadChan u"
  shows "umc_flow u'"
  using assms by (simp only: umc_flow_def)

lemma umc_flow_new_reader:
  assumes "umc_flow u" and "readers u' = readers u @ [r]" and "reader_got r = []" "reader_pc r = ReadFromUDP"
    and "received u' @ symmetricMsgReadChan u' = received u @ symmetricMsgReadChan u"
  shows "umc_flow u'"
  unfolding umc_flow_def assms(2,5)
  using assms(1,3,4) of_reader_fresh [of "received u @ symmetricMsgReadChan u" "length (readers u)"]
  by (auto simp: umc_flow_def nth_append less_Suc_eq simp del: of_reader_simps(2))

lemma umc_flow_pc:
  assumes "umc_flow u" and "readers u' = (readers u)[i := r]" and "reader_got r = reader_got (readers u ! i) @ ms"
    and "received u' @ symmetricMsgReadChan u' = received u @ symmetricMsgReadChan u"
    and "in_hand (reader_pc r) = in_hand (reader_pc (readers u ! i)) @ ms"
  shows "umc_flow u'"
    unfolding umc_flow_def assms(2,4)
proof (intro conjI allI impI)
  fix k assume "k < length ((readers u)[i := r])"
  then show "reader_got ((readers u)[i := r] ! k) =
      of_reader k (received u @ symmetricMsgReadChan u) @ in_hand (reader_pc ((readers u)[i := r] ! k))"
    using assms(1,3,5) by (cases "k = i") (auto simp: umc_flow_def simp del: of_reader_simps(2))
qed (use assms(1) in \<open>auto simp: umc_flow_def\<close>)

lemma umc_flow_send:
  assumes "umc_flow u" and "i < length (readers u)" and "reader_pc (readers u ! i) = SendMsg m"
    and "readers u' = (readers u)[i := r]" and "reader_got r = reader_got (readers u ! i)" and "reader_pc r = ReadFromUDP"
    and "received u' @ symmetricMsgReadChan u' = (received u @ symmetricMsgReadChan u) @ [(i, m)]"
  shows "umc_flow u'"
  unfolding umc_flow_def assms(4,7) using assms(1,2,3,5,6) by (auto simp: umc_flow_def nth_list_update)

lemma WriteMsg_flow: "umc_flow u \<Longrightarrow> umc_flow (snd (UDPMsgConn_WriteMsg ok listens bs raddr u))"
  by (auto simp: UDPMsgConn_WriteMsg_def Let_def sock_WriteTo_def go_reader_def split: if_splits option.splits
      intro: umc_flow_same umc_flow_new_reader)

lemma umc_step_flow: "umc_step e u = Goes u' \<Longrightarrow> umc_flow u \<Longrightarrow> umc_flow u'"
proof (induction e u rule: umc_step.induct)
  case (1 ok listens bs raddr u)
  then show ?case using WriteMsg_flow by auto
next
  case (2 i got u)
  have i: "i < length (readers u)" using 2(1) by (auto simp: readSymmetricMsgFromConn_def split: if_splits)
  show ?case
  proof (cases "reader_pc (readers u ! i)")
    case ReadFromUDP
    show ?thesis
    proof (cases got)
      case None
      with 2 i ReadFromUDP show ?thesis
        by (auto simp: readSymmetricMsgFromConn_def set_reader_def intro: umc_flow_pc [where ms = "[]"])
    next
      case (Some m)
      with 2 i ReadFromUDP show ?thesis
        by (auto simp: readSymmetricMsgFromConn_def set_reader_def Let_def split: if_splits
            intro: umc_flow_pc [where ms = "[]"] umc_flow_pc [where ms = "[m]"])
    qed
  next
    case (SendMsg m)
    with 2 i show ?thesis
      by (auto simp: readSymmetricMsgFromConn_def set_reader_def Let_def split: if_splits intro: umc_flow_send)
  next
    case DeleteEntry
    with 2 i show ?thesis by (auto simp: readSymmetricMsgFromConn_def set_reader_def Let_def intro: umc_flow_pc [where ms = "[]"])
  next
    case CloseSock
    with 2 i show ?thesis by (auto simp: readSymmetricMsgFromConn_def set_reader_def Let_def intro: umc_flow_pc [where ms = "[]"])
  next
    case ReaderDone
    with 2 i show ?thesis by (auto simp: readSymmetricMsgFromConn_def)
  qed
next
  case (3 u)
  from 3(1) have "readers u' = readers u \<and> received u' @ symmetricMsgReadChan u' = received u @ symmetricMsgReadChan u"
    by (cases "symmetricMsgReadChan u") (auto simp: UDPMsgConn_ReadMsg_def split: if_splits)
  with 3(2) show ?case by (blast intro: umc_flow_same)
next
  case (4 raddr u)
  then show ?case by (auto simp: CloseConnWithRaddr_def Let_def split: if_splits option.splits intro: umc_flow_same)
next
  case (5 u)
  then show ?case by (auto simp: UDPMsgConn_Close_def split: if_splits intro: umc_flow_same)
qed

text \<open>
  In every interleaving \<open>ReadMsg\<close> returns what the readers took from their sockets: per reader in order, each datagram once, and
  all of it when the channel is empty and the reader is back at its socket.
\<close>
theorem umc_replies_in_order:
  assumes "run_steps umc_step es (NewUDPMsgConn fc isserver) = Goes u" and "i < length (readers u)"
  shows "\<exists>rest. reader_got (readers u ! i) = of_reader i (received u) @ rest \<and>
    (symmetricMsgReadChan u = [] \<and> reader_pc (readers u ! i) = ReadFromUDP \<longrightarrow> rest = [])"
proof -
  have "umc_flow (NewUDPMsgConn fc isserver)" by (simp add: umc_flow_def NewUDPMsgConn_def)
  with assms(1) have "umc_flow u" by (rule run_steps_invariant) (rule umc_step_flow)
  with assms(2) show ?thesis by (auto simp: umc_flow_def)
qed

lemma umc_replies_in_order_witness:
  "\<exists>u. run_steps umc_step [EvWrite True True [1] (demo_dest 1), EvReader 0 (Some ([7], demo_dest 1)), EvReader 0 None, EvRead]
       (NewUDPMsgConn False False) = Goes u \<and> of_reader 0 (received u) = [([7], demo_dest 1)] \<and>
     reader_got (readers u ! 0) = [([7], demo_dest 1)]"
proof -
  let ?run = "run_steps umc_step [EvWrite True True [1] (demo_dest 1), EvReader 0 (Some ([7], demo_dest 1)), EvReader 0 None, EvRead]
       (NewUDPMsgConn False False)"
  obtain u where u: "?run = Goes u" "length (readers u) = 1" "symmetricMsgReadChan u = []" "reader_pc (readers u ! 0) = ReadFromUDP"
      "of_reader 0 (received u) = [([7], demo_dest 1)]"
    by (simp add: NewUDPMsgConn_def UDPMsgConn_WriteMsg_def sock_WriteTo_def sock_open_def go_reader_def
        readSymmetricMsgFromConn_def set_reader_def symmetricMsgReadChan_cap_def UDPMsgConn_ReadMsg_def Let_def)
  from umc_replies_in_order [OF u(1), of 0] u show ?thesis by auto
qed

subsection \<open>After the first association has ended\<close>

definition umc_dead :: "UDPMsgConn \<Rightarrow> bool" where
  "umc_dead u \<longleftrightarrow> \<not> fullcone u \<and> \<not> IsServer u \<and> symmetricMap u = [] \<and> \<not> sock_open u 0"

lemma update_False_nth: "xs[i := False] ! k \<Longrightarrow> k < length xs \<Longrightarrow> xs ! k"
  by (cases "i = k") auto

lemma sock_open_update: "sock_open (u\<lparr>socks := (socks u)[i := False]\<rparr>) k \<Longrightarrow> sock_open u k"
  by (cases "i = k") (auto simp: sock_open_def)

lemma umc_step_dead: "umc_step e u = Goes u' \<Longrightarrow> umc_dead u \<Longrightarrow> umc_dead u'"
proof (induction e u rule: umc_step.induct)
  case (2 i got u)
  then show ?case
    by (auto simp: readSymmetricMsgFromConn_def set_reader_def Let_def umc_dead_def sock_open_def
        split: if_splits reader_pc.splits option.splits dest: update_False_nth)
next
  case (3 u)
  then show ?case by (cases "symmetricMsgReadChan u") (auto simp: UDPMsgConn_ReadMsg_def umc_dead_def sock_open_def split: if_splits)
qed (auto simp: UDPMsgConn_WriteMsg_def Let_def sock_WriteTo_def go_reader_def CloseConnWithRaddr_def UDPMsgConn_Close_def umc_dead_def
    sock_open_def split: if_splits dest: update_False_nth)

text \<open>
  When the association that used the socket of the connection itself has ended and no other is left, no datagram is ever sent again:
  every \<open>WriteMsg\<close> fails, whatever happens in between, although the connection has not been closed.
\<close>
theorem umc_dead_for_ever:
  assumes "\<not> fullcone u" and "\<not> IsServer u" and "symmetricMap u = []" and "\<not> sock_open u 0"
    and "run_steps umc_step es u = Goes u'"
  shows "fst (UDPMsgConn_WriteMsg ok listens bs raddr u') = Some (NewErr ''write udp'')"
proof -
  have "umc_dead u" using assms by (simp add: umc_dead_def)
  with assms(5) have "umc_dead u'" by (rule run_steps_invariant) (rule umc_step_dead)
  then show ?thesis by (simp add: UDPMsgConn_WriteMsg_def umc_dead_def sock_WriteTo_def Let_def)
qed

lemma umc_dead_for_ever_witness:
  "\<exists>u. run_steps umc_step [EvWrite True True [1] (demo_dest 1), EvReader 0 None, EvReader 0 None, EvReader 0 None, EvWrite True True [2] (demo_dest 2)]
       (NewUDPMsgConn False False) = Goes u \<and> \<not> closed u \<and>
     fst (UDPMsgConn_WriteMsg True True [3] (demo_dest 1) u) = Some (NewErr ''write udp'')"
proof -
  let ?run = "run_steps umc_step [EvWrite True True [1] (demo_dest 1), EvReader 0 None, EvReader 0 None, EvReader 0 None] (NewUDPMsgConn False False)"
  note defs = NewUDPMsgConn_def UDPMsgConn_WriteMsg_def sock_WriteTo_def sock_open_def go_reader_def readSymmetricMsgFromConn_def set_reader_def Let_def
  obtain u where u: "?run = Goes u" "\<not> fullcone u" "\<not> IsServer u" "symmetricMap u = []" "\<not> sock_open u 0" "\<not> closed u"
    by (simp add: defs)
  obtain u' where u': "run_steps umc_step [EvWrite True True [2] (demo_dest 2)] u = Goes u'" "\<not> closed u'"
    using u by (simp add: defs)
  from umc_dead_for_ever [OF u(2-5) u'(1)] u' u(1) show ?thesis
    using run_steps_append [of umc_step "[EvWrite True True [1] (demo_dest 1), EvReader 0 None, EvReader 0 None, EvReader 0 None]"
        "[EvWrite True True [2] (demo_dest 2)]"] by auto
qed

subsection \<open>Closing\<close>

text \<open>A reader that holds a datagram when the connection is closed ends the process: it sends on a closed channel.\<close>

lemma umc_close_panics:
  "run_steps umc_step [EvWrite True True bs raddr, EvReader 0 (Some m), EvClose, EvReader 0 None] (NewUDPMsgConn False False) = Panics"
  by (simp add: NewUDPMsgConn_def UDPMsgConn_WriteMsg_def sock_WriteTo_def sock_open_def go_reader_def readSymmetricMsgFromConn_def
      set_reader_def Let_def UDPMsgConn_Close_def)

text \<open>The sockets of the other destinations are left open by \<open>Close\<close>.\<close>

lemma umc_close_leaves_sockets: "0 < i \<Longrightarrow> sock_open (UDPMsgConn_Close u) i = sock_open u i"
  by (simp add: UDPMsgConn_Close_def sock_open_def)

text \<open>\<open>CloseConnWithRaddr\<close> looks up the hash as it is, \<open>WriteMsg\<close> enters it with the network \<open>udp\<close>.\<close>

lemma close_conn_needs_network:
  assumes "\<forall>h \<in> fst ` set (symmetricMap u). hNetwork h = ''udp''" and "Network raddr \<noteq> ''udp''"
  shows "CloseConnWithRaddr raddr u = u"
proof -
  have "map_of (symmetricMap u) (GetHashable raddr) = None"
    using assms unfolding map_of_eq_None_iff by (metis GetHashable_eq HashableAddr.select_convs(1))
  then show ?thesis by (simp add: CloseConnWithRaddr_def Let_def)
qed

text \<open>An association that is closed and made anew loses its entry when the reader of the old socket ends: the next datagram leaves
  from a third port.\<close>

lemma umc_reopened_loses_entry:
  assumes "udp_hash a \<noteq> udp_hash b" and "Network b = ''udp''"
  shows "\<exists>u. run_steps umc_step [EvWrite True True w a, EvWrite True True x b, EvCloseConn b, EvWrite True True y b, EvReader 1 None, EvReader 1 None,
      EvWrite True True z b] (NewUDPMsgConn False False) = Goes u \<and> map fst (sentTo u) = [0, 1, 2, 3]"
proof -
  have "GetHashable b = udp_hash b" using assms(2) by (simp add: udp_hash_def GetHashable_def Let_def)
  with assms(1) show ?thesis
    by (simp add: NewUDPMsgConn_def UDPMsgConn_WriteMsg_def sock_WriteTo_def sock_open_def go_reader_def readSymmetricMsgFromConn_def
        set_reader_def Let_def CloseConnWithRaddr_def AList.delete_eq nth_append)
qed

section \<open>UDPListener\<close>

type_synonym addr_port = "netip_Addr \<times> 16 word"

text \<open>A \<open>UDPConn\<close> of the listener: its peer, what waits in \<open>inMsgChan\<close> and, as a ghost, what has been read. A datagram bears the
  number of its goroutine.\<close>

record listener_conn =
  lc_raddr :: "net_addr option"
  lc_chan :: "(nat \<times> net_addr \<times> bytes) list"
  lc_read :: "(nat \<times> net_addr \<times> bytes) list"
  lc_closed :: bool

text \<open>The goroutine of one datagram: before the look-up, before \<open>newConn\<close>, before the two sends; \<open>GoSent\<close> says where it went.\<close>

datatype go_pc = GoLookup | GoNew | GoAnnounce nat | GoSend nat | GoSent nat | GoReturned

record listener_go =
  go_raddr :: "net_addr option"
  go_buf :: bytes
  go_pc :: go_pc

record UDPListener =
  isclosed :: bool
  clientsClosed :: bool
  running :: bool
  connMap :: "(addr_port \<times> nat) list"
  newConnChan :: "nat list"
  conns :: "listener_conn list"
  gos :: "listener_go list"

definition NewUDPListenerConn :: UDPListener where
  "NewUDPListenerConn =
     \<lparr>isclosed = False, clientsClosed = False, running = True, connMap = [], newConnChan = [], conns = [], gos = []\<rparr>"

definition newConnChan_cap :: nat where
  "newConnChan_cap = 100"

definition listener_newConn :: "net_addr option \<Rightarrow> addr_port \<Rightarrow> UDPListener \<Rightarrow> nat \<times> UDPListener" where
  "listener_newConn raddr addrport l =
     (length (conns l),
      l\<lparr>conns := conns l @ [\<lparr>lc_raddr = raddr, lc_chan = [], lc_read = [], lc_closed = False\<rparr>],
        connMap := AList.update addrport (length (conns l)) (connMap l)\<rparr>)"

definition listener_NewConn :: "net_addr option \<Rightarrow> UDPListener \<Rightarrow> nat \<times> UDPListener" where
  "listener_NewConn raddr l = listener_newConn raddr (UDPAddr2AddrPort raddr) l"

definition DeleteConn :: "addr_port \<Rightarrow> UDPListener \<Rightarrow> UDPListener" where
  "DeleteConn addrport l = l\<lparr>connMap := AList.delete addrport (connMap l)\<rparr>"

definition Accept :: "UDPListener \<Rightarrow> ((goerr + nat) \<times> UDPListener) option" where
  "Accept l =
     (case newConnChan l of
        c # cs \<Rightarrow> Some (Inr c, l\<lparr>newConnChan := cs\<rparr>)
      | [] \<Rightarrow> if clientsClosed l then Some (Inl io_EOF, l) else None)"

text \<open>\<open>Close\<close> in two steps: the flag and the socket, then \<open>closeClients\<close>.\<close>

definition listener_Close :: "UDPListener \<Rightarrow> UDPListener" where
  "listener_Close l = l\<lparr>isclosed := True\<rparr>"

definition closeClients :: "UDPListener \<Rightarrow> UDPListener" where
  "closeClients l =
     l\<lparr>clientsClosed := True, connMap := [],
       conns := map (\<lambda>(i, c). if i \<in> snd ` set (connMap l) then c\<lparr>lc_closed := True\<rparr> else c) (enumerate 0 (conns l))\<rparr>"

text \<open>One turn of \<open>run\<close>: \<open>got = None\<close> is an error of the socket, then \<open>raddr\<close> is nil and the loop ends.\<close>

definition listener_run :: "(net_addr \<times> bytes) option \<Rightarrow> UDPListener \<Rightarrow> UDPListener step_res" where
  "listener_run got l =
     (if \<not> running l then Waits
      else if isclosed l then Goes (l\<lparr>running := False\<rparr>)
      else Goes (l\<lparr>gos := gos l @ [\<lparr>go_raddr = map_option fst got, go_buf = (case got of Some m \<Rightarrow> snd m | None \<Rightarrow> []), go_pc = GoLookup\<rparr>],
                   running := (got \<noteq> None)\<rparr>))"

definition set_go :: "nat \<Rightarrow> go_pc \<Rightarrow> UDPListener \<Rightarrow> UDPListener" where
  "set_go g p l = l\<lparr>gos := (gos l)[g := (gos l ! g)\<lparr>go_pc := p\<rparr>]\<rparr>"

definition listener_go_step :: "nat \<Rightarrow> UDPListener \<Rightarrow> UDPListener step_res" where
  "listener_go_step g l =
     (if g \<ge> length (gos l) then Waits
      else let r = gos l ! g; addrport = UDPAddr2AddrPort (go_raddr r) in
        case go_pc r of
          GoLookup \<Rightarrow> Goes (set_go g (case map_of (connMap l) addrport of Some c \<Rightarrow> GoSend c | None \<Rightarrow> GoNew) l)
        | GoNew \<Rightarrow>
            (let (c, l) = listener_newConn (go_raddr r) addrport l
             in Goes (set_go g (if isclosed l then GoReturned else GoAnnounce c) l))
        | GoAnnounce c \<Rightarrow>
            if clientsClosed l then Panics
            else if length (newConnChan l) \<ge> newConnChan_cap then Waits
            else Goes (set_go g (GoSend c) (l\<lparr>newConnChan := newConnChan l @ [c]\<rparr>))
        | GoSend c \<Rightarrow>
            (case go_raddr r of
               None \<Rightarrow> Panics
             | Some a \<Rightarrow>
                 if lc_closed (conns l ! c) then Panics
                 else if length (lc_chan (conns l ! c)) \<ge> inMsgChan_cap then Waits
                 else Goes (set_go g (GoSent c)
                   (l\<lparr>conns := (conns l)[c := (conns l ! c)\<lparr>lc_chan := lc_chan (conns l ! c) @ [(g, a, go_buf r)]\<rparr>]\<rparr>)))
        | _ \<Rightarrow> Waits)"

text \<open>The owner of a connection reads it.\<close>

definition listener_conn_read :: "nat \<Rightarrow> UDPListener \<Rightarrow> UDPListener step_res" where
  "listener_conn_read c l =
     (if c \<ge> length (conns l) then Waits
      else case lc_chan (conns l ! c) of
          m # ms \<Rightarrow> Goes (l\<lparr>conns := (conns l)[c := (conns l ! c)\<lparr>lc_chan := ms, lc_read := lc_read (conns l ! c) @ [m]\<rparr>]\<rparr>)
        | [] \<Rightarrow> if lc_closed (conns l ! c) then Goes l else Waits)"

datatype ul_event =
    UlRecv "(net_addr \<times> bytes) option"
  | UlGo nat
  | UlAccept
  | UlRead nat
  | UlDial "net_addr option"
  | UlDelete addr_port
  | UlClose
  | UlCloseClients

fun ul_step :: "ul_event \<Rightarrow> UDPListener \<Rightarrow> UDPListener step_res" where
  "ul_step (UlRecv got) l = listener_run got l"
| "ul_step (UlGo g) l = listener_go_step g l"
| "ul_step UlAccept l = (case Accept l of Some (_, l) \<Rightarrow> Goes l | None \<Rightarrow> Waits)"
| "ul_step (UlRead c) l = listener_conn_read c l"
| "ul_step (UlDial raddr) l = Goes (snd (listener_NewConn raddr l))"
| "ul_step (UlDelete addrport) l = Goes (DeleteConn addrport l)"
| "ul_step UlClose l = (if isclosed l then Waits else Goes (listener_Close l))"
| "ul_step UlCloseClients l = (if isclosed l \<and> \<not> clientsClosed l then Goes (closeClients l) else Waits)"

subsection \<open>Every connection gets the datagrams of its source, once\<close>

definition of_go :: "nat \<Rightarrow> listener_conn \<Rightarrow> (net_addr \<times> bytes) list" where
  "of_go g c = map snd (filter (\<lambda>m. fst m = g) (lc_read c @ lc_chan c))"

definition conn_of :: "UDPListener \<Rightarrow> listener_go \<Rightarrow> nat \<Rightarrow> bool" where
  "conn_of l r c \<longleftrightarrow> c < length (conns l) \<and> UDPAddr2AddrPort (lc_raddr (conns l ! c)) = UDPAddr2AddrPort (go_raddr r)"

text \<open>The invariant in two halves: the table and the goroutines lead to connections of their source; what the connections hold.\<close>

definition ul_table :: "UDPListener \<Rightarrow> bool" where
  "ul_table l \<longleftrightarrow>
     (\<forall>(ap, c) \<in> set (connMap l). c < length (conns l) \<and> UDPAddr2AddrPort (lc_raddr (conns l ! c)) = ap) \<and>
     (\<forall>r \<in> set (gos l). \<forall>c. go_pc r \<in> {GoAnnounce c, GoSend c, GoSent c} \<longrightarrow> conn_of l r c)"

definition ul_flow :: "UDPListener \<Rightarrow> bool" where
  "ul_flow l \<longleftrightarrow>
     (\<forall>c < length (conns l). \<forall>m \<in> set (lc_read (conns l ! c) @ lc_chan (conns l ! c)). fst m < length (gos l)) \<and>
     (\<forall>c < length (conns l). \<forall>g < length (gos l). of_go g (conns l ! c) =
        (if go_pc (gos l ! g) = GoSent c then [(the (go_raddr (gos l ! g)), go_buf (gos l ! g))] else []))"

lemma set_AList_update: "set (AList.update k v xs) \<subseteq> insert (k, v) (set xs)"
  by (induction xs) auto

lemma ul_table_mono:
  assumes "ul_table l" and "map lc_raddr (conns l') = map lc_raddr (conns l) @ zs"
    and "\<forall>(ap, c) \<in> set (connMap l'). (ap, c) \<in> set (connMap l) \<or>
      c < length (conns l') \<and> UDPAddr2AddrPort (lc_raddr (conns l' ! c)) = ap"
    and "\<forall>r \<in> set (gos l'). r \<in> set (gos l) \<or> (\<forall>c. go_pc r \<in> {GoAnnounce c, GoSend c, GoSent c} \<longrightarrow> conn_of l r c \<or> conn_of l' r c)"
  shows "ul_table l'"
proof -
  have len: "length (conns l) \<le> length (conns l')" using arg_cong [OF assms(2), of length] by simp
  have same: "lc_raddr (conns l' ! c) = lc_raddr (conns l ! c)" if "c < length (conns l)" for c
  proof -
    have "map lc_raddr (conns l') ! c = map lc_raddr (conns l) ! c" using assms(2) that by (simp add: nth_append)
    then show ?thesis using that len by simp
  qed
  have mono: "conn_of l r c \<Longrightarrow> conn_of l' r c" for r c using len same by (auto simp: conn_of_def)
  have "\<forall>(ap, c) \<in> set (connMap l'). c < length (conns l') \<and> UDPAddr2AddrPort (lc_raddr (conns l' ! c)) = ap"
    using assms(1,3) len same unfolding ul_table_def by fastforce
  moreover have "\<forall>r \<in> set (gos l'). \<forall>c. go_pc r \<in> {GoAnnounce c, GoSend c, GoSent c} \<longrightarrow> conn_of l' r c"
    using assms(1,4) mono unfolding ul_table_def by metis
  ultimately show ?thesis by (simp add: ul_table_def)
qed

lemma set_update_memI: "r \<in> set (xs[i := x]) \<Longrightarrow> r = x \<or> r \<in> set xs"
  using set_update_subset_insert by fastforce

lemma conn_of_pc [simp]: "conn_of l (r\<lparr>go_pc := p\<rparr>) c = conn_of l r c"
  by (simp add: conn_of_def)

lemma ul_table_set_go:
  assumes "ul_table l" and "gos l' = (gos l)[g := (gos l ! g)\<lparr>go_pc := p\<rparr>]" and "g < length (gos l)"
    and "map lc_raddr (conns l') = map lc_raddr (conns l)" and "connMap l' = connMap l"
    and "\<And>c. p = GoAnnounce c \<or> p = GoSend c \<or> p = GoSent c \<Longrightarrow> conn_of l (gos l ! g) c"
  shows "ul_table l'"
proof (rule ul_table_mono [OF assms(1), of _ "[]"])
  show "\<forall>r \<in> set (gos l'). r \<in> set (gos l) \<or> (\<forall>c. go_pc r \<in> {GoAnnounce c, GoSend c, GoSent c} \<longrightarrow> conn_of l r c \<or> conn_of l' r c)"
    using assms(2,6) by (auto dest!: set_update_memI)
qed (use assms(4,5) in auto)

lemma ul_table_go: "listener_go_step g l = Goes l' \<Longrightarrow> ul_table l \<Longrightarrow> ul_table l'"
proof -
  assume step: "listener_go_step g l = Goes l'" and inv: "ul_table l"
  define r where "r = gos l ! g"
  have g: "g < length (gos l)" using step by (auto simp: listener_go_step_def split: if_splits)
  then have r: "r \<in> set (gos l)" by (simp add: r_def)
  show "ul_table l'"
  proof (cases "go_pc r")
    case GoLookup
    have "conn_of l r c" if "map_of (connMap l) (UDPAddr2AddrPort (go_raddr r)) = Some c" for c
      using inv map_of_SomeD [OF that] by (auto simp: ul_table_def conn_of_def)
    with GoLookup step g show ?thesis
      by (auto simp: listener_go_step_def set_go_def r_def Let_def split: option.splits intro: ul_table_set_go [OF inv _ g])
  next
    case GoNew
    let ?c = "length (conns l)" and ?p = "if isclosed l then GoReturned else GoAnnounce (length (conns l))"
    have l': "l' = l\<lparr>conns := conns l @ [\<lparr>lc_raddr = go_raddr r, lc_chan = [], lc_read = [], lc_closed = False\<rparr>],
        connMap := AList.update (UDPAddr2AddrPort (go_raddr r)) ?c (connMap l), gos := (gos l)[g := r\<lparr>go_pc := ?p\<rparr>]\<rparr>"
      using step g GoNew by (simp add: listener_go_step_def set_go_def r_def Let_def listener_newConn_def)
    show ?thesis
    proof (rule ul_table_mono [OF inv])
      show "map lc_raddr (conns l') = map lc_raddr (conns l) @ [go_raddr r]" by (simp add: l')
      show "\<forall>(ap, c) \<in> set (connMap l'). (ap, c) \<in> set (connMap l) \<or>
          c < length (conns l') \<and> UDPAddr2AddrPort (lc_raddr (conns l' ! c)) = ap"
        using set_AList_update [of "UDPAddr2AddrPort (go_raddr r)" ?c "connMap l"] by (auto simp: l')
      show "\<forall>q \<in> set (gos l'). q \<in> set (gos l) \<or> (\<forall>c. go_pc q \<in> {GoAnnounce c, GoSend c, GoSent c} \<longrightarrow> conn_of l q c \<or> conn_of l' q c)"
        by (auto simp: l' conn_of_def dest!: set_update_memI)
    qed
  next
    case (GoAnnounce c)
    have "conn_of l r c" using inv r GoAnnounce by (auto simp: ul_table_def)
    with GoAnnounce step g show ?thesis
      by (auto simp: listener_go_step_def set_go_def r_def Let_def split: if_splits intro: ul_table_set_go [OF inv _ g])
  next
    case (GoSend c)
    have c: "conn_of l r c" using inv r GoSend by (auto simp: ul_table_def)
    then have "map lc_raddr ((conns l)[c := (conns l ! c)\<lparr>lc_chan := x\<rparr>]) = map lc_raddr (conns l)" for x
      by (simp add: map_update list_update_same_conv conn_of_def)
    with c GoSend step g show ?thesis
      by (auto simp: listener_go_step_def set_go_def r_def Let_def split: if_splits option.splits intro: ul_table_set_go [OF inv _ g])
  next
    case (GoSent c)
    with step g show ?thesis by (simp add: listener_go_step_def r_def Let_def)
  next
    case GoReturned
    with step g show ?thesis by (simp add: listener_go_step_def r_def Let_def)
  qed
qed

lemma ul_table_step: "ul_step e l = Goes l' \<Longrightarrow> ul_table l \<Longrightarrow> ul_table l'"
proof (induction e l rule: ul_step.induct)
  case (1 got l)
  then show ?case by (auto simp: listener_run_def split: if_splits intro!: ul_table_mono [OF 1(2), where zs = "[]"])
next
  case (2 g l)
  then show ?case by (auto intro: ul_table_go)
next
  case (3 l)
  then show ?case by (auto simp: Accept_def split: list.splits if_splits intro!: ul_table_mono [OF 3(2), where zs = "[]"])
next
  case (4 c l)
  then have "map lc_raddr (conns l') = map lc_raddr (conns l)" "connMap l' = connMap l" "gos l' = gos l"
    by (auto simp: listener_conn_read_def map_update list_update_same_conv split: list.splits if_splits)
  with 4(2) show ?case by (auto intro!: ul_table_mono [OF 4(2), where zs = "[]"])
next
  case (5 raddr l)
  then show ?case
    using set_AList_update [of "UDPAddr2AddrPort raddr" "length (conns l)" "connMap l"]
    by (auto simp: listener_NewConn_def listener_newConn_def intro!: ul_table_mono [OF 5(2), where zs = "[raddr]"])
next
  case (6 addrport l)
  then show ?case using snd_delete_subset [of addrport "connMap l"] by (auto simp: DeleteConn_def intro!: ul_table_mono [OF 6(2), where zs = "[]"])
next
  case (7 l)
  then show ?case by (auto simp: listener_Close_def split: if_splits intro!: ul_table_mono [OF 7(2), where zs = "[]"])
next
  case (8 l)
  have "map (\<lambda>(i, c). lc_raddr (if i \<in> A then c\<lparr>lc_closed := True\<rparr> else c)) (enumerate 0 cs) = map lc_raddr cs" for A cs
    by (rule nth_equalityI) (auto simp: nth_enumerate_eq)
  with 8 show ?case by (auto simp: closeClients_def comp_def case_prod_beta' split: if_splits intro!: ul_table_mono [OF 8(2), where zs = "[]"])
qed

lemma of_go_simps:
  "of_go g (c\<lparr>lc_closed := b\<rparr>) = of_go g c"
  "of_go g \<lparr>lc_raddr = a, lc_chan = [], lc_read = [], lc_closed = b\<rparr> = []"
  "of_go g (c\<lparr>lc_chan := lc_chan c @ [(k, m)]\<rparr>) = of_go g c @ (if k = g then [m] else [])"
  by (simp_all add: of_go_def)

lemma of_go_fresh: "\<forall>m \<in> set (lc_read c @ lc_chan c). fst m < n \<Longrightarrow> of_go n c = []"
  by (auto simp: of_go_def filter_empty_conv)

lemma ul_flow_same:
  assumes "ul_flow l" and "gos l' = gos l" and "length (conns l') = length (conns l)"
    and "\<And>c. c < length (conns l) \<Longrightarrow> lc_read (conns l' ! c) @ lc_chan (conns l' ! c) = lc_read (conns l ! c) @ lc_chan (conns l ! c)"
  shows "ul_flow l'"
  using assms unfolding ul_flow_def of_go_def by simp

lemma ul_flow_conn:
  assumes "ul_flow l" and "gos l' = gos l" and "conns l' = conns l @ [\<lparr>lc_raddr = a, lc_chan = [], lc_read = [], lc_closed = b\<rparr>]"
    and "\<And>r. r \<in> set (gos l) \<Longrightarrow> go_pc r \<noteq> GoSent (length (conns l))"
  shows "ul_flow l'"
  using assms unfolding ul_flow_def by (auto simp: nth_append less_Suc_eq of_go_simps)

lemma ul_flow_pc:
  assumes "ul_flow l" and "gos l' = (gos l)[g := (gos l ! g)\<lparr>go_pc := p\<rparr>]" and "conns l' = conns l"
    and "\<And>c. go_pc (gos l ! g) \<noteq> GoSent c" and "\<And>c. p \<noteq> GoSent c"
  shows "ul_flow l'"
  unfolding ul_flow_def assms(2,3)
proof (intro conjI allI impI)
  fix c k assume "c < length (conns l)" "k < length ((gos l)[g := (gos l ! g)\<lparr>go_pc := p\<rparr>])"
  then show "of_go k (conns l ! c) = (if go_pc ((gos l)[g := (gos l ! g)\<lparr>go_pc := p\<rparr>] ! k) = GoSent c
      then [(the (go_raddr ((gos l)[g := (gos l ! g)\<lparr>go_pc := p\<rparr>] ! k)), go_buf ((gos l)[g := (gos l ! g)\<lparr>go_pc := p\<rparr>] ! k))] else [])"
    using assms(1,4,5) by (cases "k = g") (auto simp: ul_flow_def)
qed (use assms(1) in \<open>auto simp: ul_flow_def\<close>)

lemma ul_flow_spawn:
  assumes "ul_flow l" and "gos l' = gos l @ [r]" and "conns l' = conns l" and "go_pc r = GoLookup"
  shows "ul_flow l'"
  unfolding ul_flow_def assms(2,3)
proof (intro conjI allI impI)
  fix c k assume "c < length (conns l)" "k < length (gos l @ [r])"
  moreover have "of_go (length (gos l)) (conns l ! c) = []"
    using assms(1) calculation(1) by (intro of_go_fresh) (auto simp: ul_flow_def)
  ultimately show "of_go k (conns l ! c) = (if go_pc ((gos l @ [r]) ! k) = GoSent c
      then [(the (go_raddr ((gos l @ [r]) ! k)), go_buf ((gos l @ [r]) ! k))] else [])"
    using assms(1,4) by (auto simp: ul_flow_def nth_append less_Suc_eq)
qed (use assms(1) in \<open>simp add: ul_flow_def less_SucI\<close>)

lemma ul_flow_sent:
  assumes "ul_flow l" and "g < length (gos l)" and "c < length (conns l)" and "go_pc (gos l ! g) = GoSend c"
    and "go_raddr (gos l ! g) = Some a"
    and "gos l' = (gos l)[g := (gos l ! g)\<lparr>go_pc := GoSent c\<rparr>]"
    and "conns l' = (conns l)[c := (conns l ! c)\<lparr>lc_chan := lc_chan (conns l ! c) @ [(g, a, go_buf (gos l ! g))]\<rparr>]"
  shows "ul_flow l'"
  unfolding ul_flow_def
proof (intro conjI allI impI)
  fix d assume d: "d < length (conns l')"
  show "\<forall>m \<in> set (lc_read (conns l' ! d) @ lc_chan (conns l' ! d)). fst m < length (gos l')"
    using assms(1,2,3,6,7) d by (cases "d = c") (auto simp: ul_flow_def)
  fix k assume k: "k < length (gos l')"
  show "of_go k (conns l' ! d) = (if go_pc (gos l' ! k) = GoSent d then [(the (go_raddr (gos l' ! k)), go_buf (gos l' ! k))] else [])"
    using assms d k by (cases "d = c"; cases "k = g") (auto simp: ul_flow_def of_go_simps)
qed

lemma ul_flow_go: "listener_go_step g l = Goes l' \<Longrightarrow> ul_table l \<Longrightarrow> ul_flow l \<Longrightarrow> ul_flow l'"
proof -
  assume step: "listener_go_step g l = Goes l'" and tab: "ul_table l" and flow: "ul_flow l"
  have g: "g < length (gos l)" using step by (auto simp: listener_go_step_def split: if_splits)
  show "ul_flow l'"
  proof (cases "go_pc (gos l ! g)")
    case GoLookup
    with step g show ?thesis
      by (auto simp: listener_go_step_def set_go_def Let_def split: option.splits intro: ul_flow_pc [OF flow])
  next
    case GoNew
    define a where "a = go_raddr (gos l ! g)"
    let ?l = "l\<lparr>conns := conns l @ [\<lparr>lc_raddr = a, lc_chan = [], lc_read = [], lc_closed = False\<rparr>]\<rparr>"
    have f: "ul_flow ?l"
      using tab by (intro ul_flow_conn [OF flow, where a = a and b = False]) (auto simp: ul_table_def conn_of_def)
    define p where "p = (if isclosed l then GoReturned else GoAnnounce (length (conns l)))"
    have "gos l' = (gos l)[g := (gos l ! g)\<lparr>go_pc := p\<rparr>]" "conns l' = conns ?l"
      using step g GoNew by (auto simp: listener_go_step_def set_go_def Let_def listener_newConn_def a_def p_def)
    then show ?thesis using GoNew by (intro ul_flow_pc [OF f, where g = g and p = p]) (simp_all add: p_def)
  next
    case (GoAnnounce c)
    with step g show ?thesis
      by (auto simp: listener_go_step_def set_go_def Let_def split: if_splits intro: ul_flow_pc [OF flow])
  next
    case (GoSend c)
    have c: "c < length (conns l)" using tab g GoSend by (auto simp: ul_table_def conn_of_def)
    show ?thesis
      using GoSend step g
      by (auto simp: listener_go_step_def set_go_def Let_def split: if_splits option.splits intro: ul_flow_sent [OF flow g c GoSend])
  next
    case (GoSent c)
    with step g show ?thesis by (simp add: listener_go_step_def Let_def)
  next
    case GoReturned
    with step g show ?thesis by (simp add: listener_go_step_def Let_def)
  qed
qed

lemma ul_flow_step: "ul_step e l = Goes l' \<Longrightarrow> ul_table l \<Longrightarrow> ul_flow l \<Longrightarrow> ul_flow l'"
proof (induction e l rule: ul_step.induct)
  case (1 got l)
  then show ?case by (auto simp: listener_run_def split: if_splits intro: ul_flow_spawn [OF 1(3)] ul_flow_same [OF 1(3)])
next
  case (2 g l)
  then show ?case by (auto intro: ul_flow_go)
next
  case (3 l)
  then show ?case by (auto simp: Accept_def split: list.splits if_splits intro: ul_flow_same [OF 3(3)])
next
  case (4 c l)
  show ?case
  proof (rule ul_flow_same [OF 4(3)])
    fix k assume "k < length (conns l)"
    with 4(1) show "lc_read (conns l' ! k) @ lc_chan (conns l' ! k) = lc_read (conns l ! k) @ lc_chan (conns l ! k)"
      by (cases "k = c") (auto simp: listener_conn_read_def split: list.splits if_splits)
  qed (use 4(1) in \<open>auto simp: listener_conn_read_def split: list.splits if_splits\<close>)
next
  case (5 raddr l)
  then show ?case
    by (auto simp: listener_NewConn_def listener_newConn_def ul_table_def conn_of_def intro!: ul_flow_conn [OF 5(3), where a = raddr and b = False])
next
  case (6 addrport l)
  then show ?case by (auto simp: DeleteConn_def intro: ul_flow_same [OF 6(3)])
next
  case (7 l)
  then show ?case by (auto simp: listener_Close_def split: if_splits intro: ul_flow_same [OF 7(3)])
next
  case (8 l)
  then show ?case by (auto simp: closeClients_def nth_enumerate_eq split: if_splits intro!: ul_flow_same [OF 8(3)])
qed

lemma ul_reach_inv:
  assumes "run_steps ul_step es NewUDPListenerConn = Goes l"
  shows "ul_table l \<and> ul_flow l"
proof (rule run_steps_invariant [OF assms])
  show "ul_table NewUDPListenerConn \<and> ul_flow NewUDPListenerConn"
    by (simp add: NewUDPListenerConn_def ul_table_def ul_flow_def)
qed (blast intro: ul_table_step ul_flow_step)

text \<open>C33: 
  In every interleaving each datagram that the listener has taken is in exactly the connection its goroutine sent it to, once, and that
  connection belongs to its source; before that it is in none.
\<close>
theorem listener_delivers_by_source:
  assumes "run_steps ul_step es NewUDPListenerConn = Goes l" and "g < length (gos l)" and "c < length (conns l)"
  shows "of_go g (conns l ! c) = (if go_pc (gos l ! g) = GoSent c then [(the (go_raddr (gos l ! g)), go_buf (gos l ! g))] else []) \<and>
    (of_go g (conns l ! c) \<noteq> [] \<longrightarrow> UDPAddr2AddrPort (go_raddr (gos l ! g)) = UDPAddr2AddrPort (lc_raddr (conns l ! c)))"
proof -
  from ul_reach_inv [OF assms(1)] have inv: "ul_table l" "ul_flow l" by simp_all
  with assms(2,3) have 1: "of_go g (conns l ! c) = (if go_pc (gos l ! g) = GoSent c
      then [(the (go_raddr (gos l ! g)), go_buf (gos l ! g))] else [])"
    by (simp add: ul_flow_def)
  have "UDPAddr2AddrPort (go_raddr (gos l ! g)) = UDPAddr2AddrPort (lc_raddr (conns l ! c))" if "of_go g (conns l ! c) \<noteq> []"
  proof -
    have "go_pc (gos l ! g) = GoSent c" using that unfolding 1 by (simp split: if_splits)
    with inv(1) assms(2) have "conn_of l (gos l ! g) c" by (auto simp: ul_table_def)
    then show ?thesis by (simp add: conn_of_def)
  qed
  with 1 show ?thesis by blast
qed

lemmas ul_defs = NewUDPListenerConn_def listener_run_def listener_go_step_def set_go_def listener_newConn_def newConnChan_cap_def
  inMsgChan_cap_def listener_conn_read_def listener_Close_def closeClients_def Let_def

lemma listener_delivers_by_source_witness:
  "\<exists>l. run_steps ul_step [UlRecv (Some ((None, 5), [1])), UlGo 0, UlGo 0, UlGo 0, UlGo 0, UlRead 0] NewUDPListenerConn = Goes l \<and>
     of_go 0 (conns l ! 0) = [((None, 5), [1])] \<and> UDPAddr2AddrPort (lc_raddr (conns l ! 0)) = UDPAddr2AddrPort (Some (None, 5))"
proof -
  let ?run = "run_steps ul_step [UlRecv (Some ((None, 5), [1])), UlGo 0, UlGo 0, UlGo 0, UlGo 0, UlRead 0] NewUDPListenerConn"
  obtain l where l: "?run = Goes l" "gos l = [\<lparr>go_raddr = Some (None, 5), go_buf = [1], go_pc = GoSent 0\<rparr>]" "length (conns l) = 1"
    by (simp add: ul_defs)
  from listener_delivers_by_source [OF l(1), of 0 0] l(2,3) l(1) show ?thesis by auto
qed

text \<open>Two datagrams of a new source that are looked up before either is entered make two connections for it, and both are offered to
  \<open>Accept\<close>; the table keeps the second only.\<close>

lemma listener_two_conns:
  "\<exists>l. run_steps ul_step [UlRecv (Some (a, x)), UlRecv (Some (a, y)), UlGo 0, UlGo 1, UlGo 0, UlGo 1, UlGo 0, UlGo 1, UlGo 0, UlGo 1]
       NewUDPListenerConn = Goes l \<and>
     newConnChan l = [0, 1] \<and> map lc_raddr (conns l) = [Some a, Some a] \<and> map (map snd \<circ> lc_chan) (conns l) = [[(a, x)], [(a, y)]] \<and>
     map snd (connMap l) = [1]"
  by (simp add: ul_defs nth_append)

text \<open>An error of the socket that does not come from \<open>Close\<close> ends the process: its goroutine dereferences a nil address.\<close>

lemma listener_error_panics:
  "run_steps ul_step [UlRecv None, UlGo 0, UlGo 0, UlGo 0, UlGo 0] NewUDPListenerConn = Panics"
  by (simp add: ul_defs)

text \<open>\<open>Close\<close> between the look-up and the send does so too: the channel is closed.\<close>

lemma listener_close_panics:
  "run_steps ul_step [UlRecv (Some (a, x)), UlGo 0, UlGo 0, UlGo 0, UlClose, UlCloseClients, UlGo 0] NewUDPListenerConn = Panics"
  by (simp add: ul_defs)

end
