(* ===== verification/ProxyBase.thy ===== *)
theory ProxyBase
  imports NetAddrText
begin

text \<open>
  \<open>proxy/base.go\<close> and the names of \<open>proxy/proxy.go\<close>, with the table of clients of
  \<open>proxy/env.go\<close>: what every client and server of any protocol holds and answers. The fields are those
  of \<open>Base\<close> that the pipeline reads, and \<open>b_Header\<close> is whether a header preset is set. The inner
  mux session is a \<open>smux.Session\<close>: it is known by the connection it was made over and by whether
  it is closed. What the protocols override (\<open>Name\<close>, \<open>HasInnerMux\<close>, \<open>IsUDP_MultiChannel\<close>,
  \<open>CanFallback\<close>, the interface \<open>UserClient\<close> or \<open>UserServer\<close>) are the fields of \<open>proxy\<close>. Locks of the table are left
  out: each operation is one critical section.
\<close>

section \<open>Base\<close>

record DialConf =
  dc_TlsType :: string
  dc_Lazy :: bool
  dc_Path :: string

record ListenConf =
  lc_TlsType :: string
  lc_Lazy :: bool
  lc_Path :: string
  lc_SniffConf :: "bool option"

record advLayer =
  IsSuper :: bool
  IsMux :: bool
  IsEarly :: bool
  CanHandleHeaders :: bool

record 'c smux =
  sm_over :: 'c
  sm_closed :: bool

record 'c Base =
  b_ListenConf :: "ListenConf option"
  b_DialConf :: "DialConf option"
  b_Addr :: string
  b_TLS :: bool
  b_Tag :: string
  b_TransportLayer :: string
  b_Header :: bool
  b_IsCantRoute :: bool
  b_AdvancedL :: string
  b_AdvC :: "advLayer option"
  b_AdvS :: "advLayer option"
  b_FallbackAddr :: "Addr option"
  b_Innermux :: "'c smux option"
  b_LTA :: "string option"
  b_LUA :: "string option"

record 'c proxy = "'c Base" +
  p_Name :: string
  p_HasInnerMux :: "int \<times> string"
  p_IsUDP_MultiChannel :: bool
  p_CanFallback :: bool
  p_is_user :: bool

definition IsLazyTls :: "('c, 'b) Base_scheme \<Rightarrow> bool" where
  "IsLazyTls b =
     (case b_DialConf b of
        Some dc \<Rightarrow> dc_Lazy dc
      | None \<Rightarrow> (case b_ListenConf b of Some lc \<Rightarrow> lc_Lazy lc | None \<Rightarrow> False))"

definition Sniffing :: "('c, 'b) Base_scheme \<Rightarrow> bool" where
  "Sniffing b =
     (case b_ListenConf b of
        None \<Rightarrow> False
      | Some lc \<Rightarrow> (case lc_SniffConf lc of None \<Rightarrow> False | Some enable \<Rightarrow> enable))"

definition MiddleName :: "('c, 'b) Base_scheme \<Rightarrow> string" where
  "MiddleName b =
     (let tt = ''tls'';
          tt = (case b_DialConf b of Some dc \<Rightarrow> if dc_TlsType dc \<noteq> [] then dc_TlsType dc else tt | None \<Rightarrow> tt);
          tt = (case b_ListenConf b of Some lc \<Rightarrow> if lc_TlsType lc \<noteq> [] then lc_TlsType lc else tt | None \<Rightarrow> tt);
          advL = b_AdvancedL b in
      (if b_TLS b then ''+'' @ tt @ (if IsLazyTls b then ''+lazy'' else []) else [])
      @ (if b_Header b \<and> advL \<noteq> ''ws'' \<and> advL \<noteq> ''grpc'' then ''+http'' else [])
      @ (if advL \<noteq> [] then ''+'' @ advL else [])
      @ ''+'')"

section \<open>Inner mux\<close>

definition InnerMuxEstablished :: "('c, 'b) Base_scheme \<Rightarrow> bool" where
  "InnerMuxEstablished b = (case b_Innermux b of None \<Rightarrow> False | Some s \<Rightarrow> \<not> sm_closed s)"

definition CloseInnerMuxSession :: "('c, 'b) Base_scheme \<Rightarrow> ('c, 'b) Base_scheme" where
  "CloseInnerMuxSession b = (if InnerMuxEstablished b then b\<lparr>b_Innermux := None\<rparr> else b)"

text \<open>\<open>ok\<close>: \<open>smux.Client\<close> succeeds.\<close>

definition GetClientInnerMuxSession :: "bool \<Rightarrow> 'c \<Rightarrow> ('c, 'b) Base_scheme \<Rightarrow> 'c smux option \<times> ('c, 'b) Base_scheme" where
  "GetClientInnerMuxSession ok wrc b =
     (if InnerMuxEstablished b then (b_Innermux b, b)
      else if \<not> ok then (None, b)
      else let s = \<lparr>sm_over = wrc, sm_closed = False\<rparr> in (Some s, b\<lparr>b_Innermux := Some s\<rparr>))"

definition Base_Stop :: "('c, 'b) Base_scheme \<Rightarrow> ('c, 'b) Base_scheme" where
  "Base_Stop b = b\<lparr>b_Innermux := map_option (\<lambda>s. s\<lparr>sm_closed := True\<rparr>) (b_Innermux b)\<rparr>"

section \<open>Names\<close>

definition DirectName :: string where "DirectName = ''direct''"
definition RejectName :: string where "RejectName = ''reject''"

definition getFullNameBuilder :: "('c, 'b) proxy_scheme \<Rightarrow> string \<Rightarrow> string" where
  "getFullNameBuilder pc n =
     (let ne = b_TransportLayer pc;
          mn = (if ne = [] then dropWhile (\<lambda>c. c = CHR ''+'') (MiddleName pc) else MiddleName pc) in
      ne @ mn @ n @ (case p_HasInnerMux pc of (i, innerProxyName) \<Rightarrow>
        if i = 2 then ''+smux+'' @ innerProxyName else []))"

definition GetFullName :: "('c, 'b) proxy_scheme \<Rightarrow> string" where
  "GetFullName pc = getFullNameBuilder pc (p_Name pc)"

definition GetVSI_url :: "('c, 'b) proxy_scheme \<Rightarrow> string \<Rightarrow> string" where
  "GetVSI_url pc targetNetwork =
     (let host = (if p_Name pc = DirectName then
                    (if targetNetwork = ''tcp'' then (case b_LTA pc of Some a \<Rightarrow> a | None \<Rightarrow> [])
                     else if targetNetwork = ''udp'' then (case b_LUA pc of Some a \<Rightarrow> a | None \<Rightarrow> [])
                     else [])
                  else b_Addr pc);
          path = (case b_ListenConf pc of
                    Some lc \<Rightarrow> lc_Path lc
                  | None \<Rightarrow> (case b_DialConf pc of Some dc \<Rightarrow> dc_Path dc | None \<Rightarrow> [])) in
      getFullNameBuilder pc (p_Name pc) @ ''://'' @ host
      @ (if path \<noteq> [] then (if hd path \<noteq> CHR ''/'' then ''/'' else []) @ path else [])
      @ (if b_Tag pc \<noteq> [] then ''#'' @ b_Tag pc else []))"

section \<open>The table of clients\<close>

definition GetClient :: "string \<Rightarrow> (string \<rightharpoonup> 'c) \<Rightarrow> 'c option" where
  "GetClient tag m = m tag"

definition SetClient :: "string \<Rightarrow> 'c \<Rightarrow> (string \<rightharpoonup> 'c) \<Rightarrow> (string \<rightharpoonup> 'c)" where
  "SetClient tag c m = m(tag \<mapsto> c)"

definition DelClient :: "string \<Rightarrow> (string \<rightharpoonup> 'c) \<Rightarrow> (string \<rightharpoonup> 'c)" where
  "DelClient tag m = m(tag := None)"

section \<open>Tls lazy\<close>

definition CanNetwork_tlsLazy :: "string \<Rightarrow> bool" where
  "CanNetwork_tlsLazy n \<longleftrightarrow> n \<in> {'''', ''tcp'', ''tcp4'', ''tcp6'', ''unix''}"

definition CanLazyEncrypt :: "('c, 'b) Base_scheme \<Rightarrow> bool" where
  "CanLazyEncrypt x \<longleftrightarrow> b_TLS x \<and> CanNetwork_tlsLazy (b_TransportLayer x) \<and> b_AdvancedL x = []"

section \<open>Lemmas\<close>

lemma GetClient_update [simp]:
  "GetClient t (SetClient t' c m) = (if t = t' then Some c else GetClient t m)"
  "GetClient t (DelClient t' m) = (if t = t' then None else GetClient t m)"
  by (simp_all add: GetClient_def SetClient_def DelClient_def)

text \<open>At most one live session: a request for a session while one is live returns that one.\<close>

lemma GetClientInnerMuxSession_live:
  "InnerMuxEstablished b \<Longrightarrow> GetClientInnerMuxSession ok c b = (b_Innermux b, b)"
  by (simp add: GetClientInnerMuxSession_def)

lemma GetClientInnerMuxSession_Some:
  "GetClientInnerMuxSession ok c b = (Some s, b') \<Longrightarrow> b_Innermux b' = Some s \<and> InnerMuxEstablished b'"
  by (auto simp: GetClientInnerMuxSession_def InnerMuxEstablished_def Let_def split: if_splits)

lemma InnerMuxEstablished_Close [simp]: "\<not> InnerMuxEstablished (CloseInnerMuxSession b)"
  by (simp add: CloseInnerMuxSession_def) (simp add: InnerMuxEstablished_def)

lemma InnerMuxEstablished_Stop [simp]: "\<not> InnerMuxEstablished (Base_Stop b)"
  by (simp add: Base_Stop_def InnerMuxEstablished_def split: option.splits)

end
