(* ===== verification/MainDial.thy ===== *)
theory MainDial
  imports ProxyBase
begin

text \<open>
  \<open>dialClient\<close> and \<open>dialInnerProxy\<close> of \<open>main.go\<close>: how the connection to the selected client is
  built, layer by layer, and how the first payload gets into it. Each operation on a connection or a
  session is an event; the environment says whether it succeeds, given the events so far. The connections are
  kept as terms that show what they were built from, so the order of the layers is visible. The state is
  the trace of events with their outcome and the client, whose inner mux session a dial can change. A stage
  ends in a value, in a result code of \<open>dialClient\<close>, or in a panic. Locking is kept as events; other
  goroutines are not: a session that is live stays so during a dial. Log output is left out.
\<close>

section \<open>Connections, events and stages\<close>

datatype wire =
    Dialed Addr
  | Teed wire
  | TlsOver wire
  | HeaderOver wire
  | CommonPooled
  | CommonOver wire
  | SubOf wire
  | WsOver wire nat

text \<open>Where the request comes from: the conn of the server, the conn its handshake returned with the
  identity of its user, the sniffing conn of tls lazy around one; or a message conn.\<close>

datatype lc = Wrapped | Accepted "string option" | LazySniff "lc option"
datatype src = TcpSrc lc | UdpSrc "string option"

datatype ev =
    Lock | Unlock
  | Reject src
  | Dial Addr
  | WritePROXY int wire
  | TlsHandshake wire
  | LazySecure wire
  | GetCommonConn "wire option"
  | DialSubConn wire
  | WsHandshake wire nat
  | CloseBaseLocal
  | Handshake "wire option" bytes Addr
  | EstablishUDPChannel "wire option" bytes Addr
  | SmuxClient "wire option"
  | OpenStream "wire option"
  | NewClient string
  | InnerHandshake bytes Addr
  | InnerUDPChannel bytes Addr

type_synonym trace = "(ev \<times> bool) list"

record dial_env =
  ok :: "trace \<Rightarrow> ev \<Rightarrow> bool"
  tls_lazy_secure :: bool

record world =
  w_trace :: trace
  w_client :: "wire option proxy"

datatype exit = Result int | Panic

type_synonym 'a act = "world \<Rightarrow> (exit + 'a) \<times> world"

definition ret :: "'a \<Rightarrow> 'a act" where
  "ret x = (\<lambda>w. (Inr x, w))"

definition leave :: "exit \<Rightarrow> 'a act" where
  "leave e = (\<lambda>w. (Inl e, w))"

definition andthen :: "'a act \<Rightarrow> ('a \<Rightarrow> 'b act) \<Rightarrow> 'b act" where
  "andthen m f = (\<lambda>w. case m w of (Inl e, w') \<Rightarrow> (Inl e, w') | (Inr x, w') \<Rightarrow> f x w')"

definition attempt :: "dial_env \<Rightarrow> ev \<Rightarrow> bool act" where
  "attempt env e = (\<lambda>w. let b = ok env (w_trace w) e in (Inr b, w\<lparr>w_trace := w_trace w @ [(e, b)]\<rparr>))"

definition note_ev :: "ev \<Rightarrow> unit act" where
  "note_ev e = (\<lambda>w. (Inr (), w\<lparr>w_trace := w_trace w @ [(e, True)]\<rparr>))"

text \<open>The frequent shape: an error gives the result \<open>-1\<close>.\<close>

definition require :: "dial_env \<Rightarrow> ev \<Rightarrow> unit act" where
  "require env e = andthen (attempt env e) (\<lambda>b. if b then ret () else leave (Result (-1)))"

section \<open>The connection state\<close>

text \<open>The fields of \<open>incomingInserverConnState\<close> that a dial reads.\<close>

record conn_state =
  baseLocalConn :: bool
  firstPayload :: bytes
  udpFirstTarget :: Addr
  fallbackXver :: int

text \<open>The remote end of a relay: what the handshake of the client made of a connection, or an inner
  connection in the session over one.\<close>

datatype rwc = Outer "wire option" | Inner "wire option"

record dial_result =
  wrc :: "rwc option"
  udp_wrc :: "rwc option"
  realTargetAddr :: Addr
  rawReadRecorder :: bool

definition no_remote :: dial_result where
  "no_remote = \<lparr>wrc = None, udp_wrc = None, realTargetAddr = zero_Addr, rawReadRecorder = False\<rparr>"

section \<open>The inner proxy\<close>

text \<open>\<open>GetClientInnerMuxSession\<close>: \<open>smux.Client\<close> is only called without a live session.\<close>

definition inner_session :: "dial_env \<Rightarrow> wire option \<Rightarrow> wire option act" where
  "inner_session env c =
     (\<lambda>w. if InnerMuxEstablished (w_client w)
          then (case GetClientInnerMuxSession True c (w_client w) of
                  (Some s, cl) \<Rightarrow> (Inr (sm_over s), w\<lparr>w_client := cl\<rparr>)
                | (None, cl) \<Rightarrow> (Inl (Result (-1)), w\<lparr>w_client := cl\<rparr>))
          else andthen (attempt env (SmuxClient c)) (\<lambda>b w.
            case GetClientInnerMuxSession b c (w_client w) of
              (Some s, cl) \<Rightarrow> (Inr (sm_over s), w\<lparr>w_client := cl\<rparr>)
            | (None, cl) \<Rightarrow> (Inl (Result (-1)), w\<lparr>w_client := cl\<rparr>)) w)"

definition close_session :: "unit act" where
  "close_session = (\<lambda>w. (Inr (), w\<lparr>w_client := CloseInnerMuxSession (w_client w)\<rparr>))"

definition first_target :: "('b) conn_state_scheme \<Rightarrow> Addr \<Rightarrow> Addr" where
  "first_target cs targetAddr = (if firstPayload cs \<noteq> [] then udpFirstTarget cs else targetAddr)"

definition dialInnerProxy ::
    "dial_env \<Rightarrow> ('b) conn_state_scheme \<Rightarrow> wire option \<Rightarrow> string \<Rightarrow> Addr \<Rightarrow> bool \<Rightarrow> (rwc option \<times> rwc option) act" where
  "dialInnerProxy env cs c innerProxyName targetAddr isudp =
     andthen (inner_session env c) (\<lambda>s.
     andthen (attempt env (OpenStream s)) (\<lambda>opened.
     if \<not> opened then andthen close_session (\<lambda>_. leave (Result (-1)))
     else andthen (require env (NewClient innerProxyName)) (\<lambda>_.
     if isudp then
       andthen (require env (InnerUDPChannel (firstPayload cs) (first_target cs targetAddr)))
         (\<lambda>_. ret (None, Some (Inner s)))
     else
       andthen (require env (InnerHandshake (firstPayload cs) targetAddr))
         (\<lambda>_. ret (Some (Inner s), None)))))"

section \<open>The layers\<close>

text \<open>The address that is dialed.\<close>

definition dial_addr :: "('c, 'b) Base_scheme \<Rightarrow> Addr \<Rightarrow> goerr + Addr" where
  "dial_addr client targetAddr =
     (let dual = (\<lambda>a. if Network a = DualNetworkName then a\<lparr>Network := Network targetAddr\<rparr> else a) in
      if b_Addr client = [] then Inr (dual targetAddr)
      else (case NewAddr (b_Addr client) of
              Inl e \<Rightarrow> Inl e
            | Inr a \<Rightarrow> Inr (dual (a\<lparr>Network := b_TransportLayer client\<rparr>))))"

text \<open>The transport: a pooled connection of a multiplexing layer, or a new connection.\<close>

datatype dialed = Pooled | Fresh wire

definition dial_transport :: "dial_env \<Rightarrow> ('c, 'b) Base_scheme \<Rightarrow> Addr \<Rightarrow> dialed act" where
  "dial_transport env client realTarget =
     (let dial = andthen (require env (Dial realTarget)) (\<lambda>_. ret (Fresh (Dialed realTarget))) in
      if b_AdvancedL client = [] then dial
      else case b_AdvC client of
        None \<Rightarrow> leave Panic
      | Some adv \<Rightarrow>
          if IsMux adv then
            andthen (attempt env (GetCommonConn None)) (\<lambda>got.
            if got then ret Pooled
            else if IsSuper adv then leave (Result (-1))
            else dial)
          else dial)"

definition dial_PROXY :: "dial_env \<Rightarrow> ('b) conn_state_scheme \<Rightarrow> wire \<Rightarrow> unit act" where
  "dial_PROXY env cs c =
     (if fallbackXver cs > 0 \<and> fallbackXver cs < 3 then require env (WritePROXY (fallbackXver cs) c) else ret ())"

definition dial_tls :: "dial_env \<Rightarrow> ('c, 'b) proxy_scheme \<Rightarrow> bool \<Rightarrow> bool \<Rightarrow> wire \<Rightarrow> (wire \<times> bool) act" where
  "dial_tls env client has_wlc isTlsLazy c =
     (if \<not> b_TLS client then ret (c, False)
      else if isTlsLazy \<and> tls_lazy_secure env \<and> has_wlc then
        (if p_is_user client then andthen (note_ev (LazySecure c)) (\<lambda>_. leave (Result 1)) else leave Panic)
      else
        (let c = (if isTlsLazy then Teed c else c) in
         andthen (require env (TlsHandshake c)) (\<lambda>_. ret (TlsOver c, isTlsLazy))))"

definition header_layer :: "('c, 'b) Base_scheme \<Rightarrow> wire \<Rightarrow> wire" where
  "header_layer client c =
     (if b_Header client \<and> \<not> (case b_AdvC client of Some adv \<Rightarrow> CanHandleHeaders adv | None \<Rightarrow> False)
      then HeaderOver c else c)"

definition early_len :: "('b) conn_state_scheme \<Rightarrow> advLayer \<Rightarrow> bool \<Rightarrow> bool \<Rightarrow> nat" where
  "early_len cs adv hasInnerMux has_wlc =
     (if \<not> hasInnerMux \<and> IsEarly adv \<and> has_wlc then length (firstPayload cs) else 0)"

definition dial_sub :: "dial_env \<Rightarrow> ('b) conn_state_scheme \<Rightarrow> wire \<Rightarrow> wire act" where
  "dial_sub env cs common =
     andthen (attempt env (DialSubConn common)) (\<lambda>dialed.
     if dialed then ret (SubOf common)
     else if baseLocalConn cs then andthen (note_ev CloseBaseLocal) (\<lambda>_. leave (Result (-1)))
     else leave (Result (-1)))"

definition dial_adv ::
    "dial_env \<Rightarrow> ('b) conn_state_scheme \<Rightarrow> ('c, 'd) Base_scheme \<Rightarrow> bool \<Rightarrow> bool \<Rightarrow> dialed \<Rightarrow> wire option act" where
  "dial_adv env cs client hasInnerMux has_wlc c =
     (if b_AdvancedL client = [] then ret (case c of Fresh c \<Rightarrow> Some c | Pooled \<Rightarrow> None)
      else case b_AdvC client of
        None \<Rightarrow> leave Panic
      | Some adv \<Rightarrow>
          if IsSuper adv then
            (case c of
               Pooled \<Rightarrow> andthen (require env (DialSubConn CommonPooled)) (\<lambda>_. ret (Some (SubOf CommonPooled)))
             | Fresh c \<Rightarrow> leave Panic)
          else if IsMux adv then
            (case c of
               Pooled \<Rightarrow> andthen (dial_sub env cs CommonPooled) (\<lambda>s. ret (Some s))
             | Fresh c \<Rightarrow>
                 andthen (require env (GetCommonConn (Some c))) (\<lambda>_.
                 andthen (dial_sub env cs (CommonOver c)) (\<lambda>s. ret (Some s))))
          else
            (case c of
               Pooled \<Rightarrow> leave Panic
             | Fresh c \<Rightarrow>
                 (let edlen = early_len cs adv hasInnerMux has_wlc in
                  andthen (require env (WsHandshake c edlen)) (\<lambda>_. ret (Some (WsOver c edlen))))))"

text \<open>The handshake of the proxy.\<close>

definition dial_shake ::
    "dial_env \<Rightarrow> ('b) conn_state_scheme \<Rightarrow> bool \<Rightarrow> bool \<Rightarrow> Addr \<Rightarrow> wire option \<Rightarrow> (rwc option \<times> rwc option) act" where
  "dial_shake env cs hasInnerMux isudp targetAddr c =
     (if \<not> isudp \<or> hasInnerMux then
        andthen (require env (Handshake c (if hasInnerMux then [] else firstPayload cs) targetAddr))
          (\<lambda>_. ret (Some (Outer c), None))
      else
        andthen (require env (EstablishUDPChannel c (firstPayload cs) (first_target cs targetAddr)))
          (\<lambda>_. ret (None, Some (Outer c))))"

section \<open>dialClient\<close>

text \<open>The layers below the proxy; a direct client has none and dials by itself.\<close>

definition dial_layers ::
    "dial_env \<Rightarrow> ('b) conn_state_scheme \<Rightarrow> ('c, 'd) proxy_scheme \<Rightarrow> bool \<Rightarrow> bool \<Rightarrow> bool \<Rightarrow> Addr \<Rightarrow> (wire option \<times> bool) act" where
  "dial_layers env cs client hasInnerMux has_wlc isTlsLazy realTarget =
     (if p_Name client = DirectName then ret (None, False)
      else
        andthen (dial_transport env client realTarget) (\<lambda>d.
        andthen (case d of
            Pooled \<Rightarrow> ret (Pooled, False)
          | Fresh c \<Rightarrow>
              andthen (dial_PROXY env cs c) (\<lambda>_.
              andthen (dial_tls env client has_wlc isTlsLazy c) (\<lambda>(c, rec).
              ret (Fresh (header_layer client c), rec)))) (\<lambda>(d, rec).
        andthen (dial_adv env cs client hasInnerMux has_wlc d) (\<lambda>c. ret (c, rec)))))"

definition dial_anew ::
    "dial_env \<Rightarrow> ('b) conn_state_scheme \<Rightarrow> ('c, 'd) proxy_scheme \<Rightarrow> bool \<Rightarrow> bool \<Rightarrow> bool \<Rightarrow> Addr \<Rightarrow> dial_result act" where
  "dial_anew env cs client hasInnerMux has_wlc isTlsLazy targetAddr =
     (case dial_addr client targetAddr of
        Inl e \<Rightarrow> leave (Result (-1))
      | Inr realTarget \<Rightarrow>
          andthen (dial_layers env cs client hasInnerMux has_wlc isTlsLazy realTarget) (\<lambda>(c, rec).
          andthen (dial_shake env cs hasInnerMux (IsUDP targetAddr) targetAddr c) (\<lambda>(r, u).
          andthen (if hasInnerMux
                   then dialInnerProxy env cs c (snd (p_HasInnerMux client)) targetAddr (IsUDP targetAddr)
                   else ret (r, u)) (\<lambda>(r, u).
          ret \<lparr>wrc = r, udp_wrc = u, realTargetAddr = realTarget, rawReadRecorder = rec\<rparr>))))"

text \<open>\<open>defer client.Unlock()\<close>.\<close>

definition deferred :: "ev \<Rightarrow> 'a act \<Rightarrow> 'a act" where
  "deferred e m = (\<lambda>w. case m w of (r, w') \<Rightarrow> (r, w'\<lparr>w_trace := w_trace w' @ [(e, True)]\<rparr>))"

text \<open>A failed inner dial in a live session is tried again with a new outer connection.\<close>

definition or_else :: "'a act \<Rightarrow> 'a act \<Rightarrow> 'a act" where
  "or_else m m' = (\<lambda>w. case m w of (Inl (Result e), w') \<Rightarrow> m' w' | r \<Rightarrow> r)"

definition dialClient ::
    "dial_env \<Rightarrow> ('b) conn_state_scheme \<Rightarrow> Addr \<Rightarrow> lc option \<Rightarrow> string option option \<Rightarrow> bool \<Rightarrow> dial_result act" where
  "dialClient env cs targetAddr wlc udp_wlc isTlsLazy =
     (\<lambda>w. let client = w_client w in
       if p_Name client = RejectName then
         (case (wlc, udp_wlc) of
            (Some c, _) \<Rightarrow> andthen (note_ev (Reject (TcpSrc c))) (\<lambda>_. leave (Result (-10)))
          | (None, Some u) \<Rightarrow> andthen (note_ev (Reject (UdpSrc u))) (\<lambda>_. leave (Result (-10)))
          | (None, None) \<Rightarrow> leave (Result (-10))) w
       else if fst (p_HasInnerMux client) = 2 then
         (if InnerMuxEstablished client then
            andthen (note_ev Lock) (\<lambda>_. andthen (note_ev Unlock) (\<lambda>_.
            or_else
              (andthen (dialInnerProxy env cs None (snd (p_HasInnerMux client)) targetAddr (IsUDP targetAddr))
                 (\<lambda>(r, u). ret (no_remote\<lparr>wrc := r, udp_wrc := u\<rparr>)))
              (dial_anew env cs client True (wlc \<noteq> None) isTlsLazy targetAddr))) w
          else
            andthen (note_ev Lock) (\<lambda>_.
            deferred Unlock (dial_anew env cs client True (wlc \<noteq> None) isTlsLazy targetAddr)) w)
       else dial_anew env cs client False (wlc \<noteq> None) isTlsLazy targetAddr w)"

section \<open>Reasoning about stages\<close>

text \<open>\<open>yields m P\<close>: a run of \<open>m\<close> only appends to the trace, changes the client in its session only, and
  its result and the events it appends satisfy \<open>P\<close>.\<close>

definition same_client :: "('c, 'b) Base_scheme \<Rightarrow> ('c, 'b) Base_scheme \<Rightarrow> bool" where
  "same_client b b' \<longleftrightarrow> b' = b\<lparr>b_Innermux := b_Innermux b'\<rparr>"

definition yields :: "'a act \<Rightarrow> (exit + 'a \<Rightarrow> trace \<Rightarrow> bool) \<Rightarrow> bool" where
  "yields m P \<longleftrightarrow> (\<forall>w. \<exists>new. w_trace (snd (m w)) = w_trace w @ new \<and> same_client (w_client w) (w_client (snd (m w)))
     \<and> P (fst (m w)) new)"

lemma same_client_refl [simp]: "same_client b b"
  by (simp add: same_client_def)

lemma same_client_trans: "same_client a b \<Longrightarrow> same_client b c \<Longrightarrow> same_client a c"
  unfolding same_client_def by (metis (mono_tags) Base.update_convs(13) Base.surjective)

lemma same_client_set [simp]: "same_client b (b\<lparr>b_Innermux := s\<rparr>)"
  by (cases b) (simp add: same_client_def)

lemma yieldsI:
  "(\<And>w. \<exists>new. w_trace (snd (m w)) = w_trace w @ new \<and> same_client (w_client w) (w_client (snd (m w))) \<and> P (fst (m w)) new)
     \<Longrightarrow> yields m P"
  by (simp add: yields_def)

lemma yieldsE:
  assumes "yields m P" "m w = (r, w')"
  obtains new where "w_trace w' = w_trace w @ new" "same_client (w_client w) (w_client w')" "P r new"
  using assms by (metis fst_conv snd_conv yields_def)

lemma yields_andthen:
  assumes m: "yields m P" and f: "\<And>x. yields (f x) (Q x)"
    and err: "\<And>e new. P (Inl e) new \<Longrightarrow> R (Inl e) new"
    and val: "\<And>x new r new'. P (Inr x) new \<Longrightarrow> Q x r new' \<Longrightarrow> R r (new @ new')"
  shows "yields (andthen m f) R"
proof (rule yieldsI)
  fix w
  obtain r w' where mw: "m w = (r, w')" by fastforce
  from yieldsE [OF m mw] obtain new where n: "w_trace w' = w_trace w @ new"
    "same_client (w_client w) (w_client w')" "P r new" .
  show "\<exists>new. w_trace (snd (andthen m f w)) = w_trace w @ new
      \<and> same_client (w_client w) (w_client (snd (andthen m f w))) \<and> R (fst (andthen m f w)) new"
  proof (cases r)
    case (Inl e)
    with n mw err show ?thesis by (intro exI [of _ new]) (simp add: andthen_def)
  next
    case (Inr x)
    obtain r2 w2 where fw: "f x w' = (r2, w2)" by fastforce
    from yieldsE [OF f fw] obtain new2 where "w_trace w2 = w_trace w' @ new2"
      "same_client (w_client w') (w_client w2)" "Q x r2 new2" .
    with n Inr mw fw val same_client_trans show ?thesis
      by (intro exI [of _ "new @ new2"]) (auto simp: andthen_def)
  qed
qed

lemma yields_ret: "yields (ret x) (\<lambda>r new. r = Inr x \<and> new = [])"
  by (rule yieldsI) (simp add: ret_def)

lemma yields_leave: "yields (leave e) (\<lambda>r new. r = Inl e \<and> new = [])"
  by (rule yieldsI) (simp add: leave_def)

lemma yields_attempt: "yields (attempt env e) (\<lambda>r new. \<exists>b. r = Inr b \<and> new = [(e, b)])"
  by (rule yieldsI) (simp add: attempt_def Let_def)

lemma yields_note: "yields (note_ev e) (\<lambda>r new. r = Inr () \<and> new = [(e, True)])"
  by (rule yieldsI) (simp add: note_ev_def)

lemma yields_mono: "yields m P \<Longrightarrow> (\<And>r new. P r new \<Longrightarrow> Q r new) \<Longrightarrow> yields m Q"
  by (metis (no_types, lifting) yields_def)

lemma yields_require:
  "yields (require env e) (\<lambda>r new. (r = Inr () \<and> new = [(e, True)]) \<or> (r = Inl (Result (-1)) \<and> new = [(e, False)]))"
  by (rule yieldsI) (simp add: require_def attempt_def andthen_def ret_def leave_def Let_def)

lemma yields_close: "yields close_session (\<lambda>r new. r = Inr () \<and> new = [])"
  by (rule yieldsI) (simp add: close_session_def CloseInnerMuxSession_def)

text \<open>The events of a stage.\<close>

definition only :: "(ev \<times> bool \<Rightarrow> bool) \<Rightarrow> 'a act \<Rightarrow> bool" where
  "only E m \<longleftrightarrow> yields m (\<lambda>r new. list_all E new)"

lemma only_andthen: "only E m \<Longrightarrow> (\<And>x. only E (f x)) \<Longrightarrow> only E (andthen m f)"
  unfolding only_def by (erule yields_andthen) auto

lemma both_outcomes: "E (e, True) \<Longrightarrow> E (e, False) \<Longrightarrow> E (e, b)"
  by (cases b) simp_all

lemma only_basic [simp]:
  "only E (ret x)" "only E (leave ex)" "only E close_session"
  "E (e, True) \<Longrightarrow> only E (note_ev e)"
  "E (e, True) \<Longrightarrow> E (e, False) \<Longrightarrow> only E (attempt env e)" "E (e, True) \<Longrightarrow> E (e, False) \<Longrightarrow> only E (require env e)"
  using yields_ret [of x] yields_leave [of ex] yields_close yields_note [of e] yields_attempt [of env e] yields_require [of env e]
  unfolding only_def by (auto elim!: yields_mono intro: both_outcomes)

lemma only_session:
  assumes "\<And>b. E (SmuxClient c, b)"
  shows "only E (inner_session env c)"
  unfolding only_def
proof (rule yieldsI)
  fix w
  show "\<exists>new. w_trace (snd (inner_session env c w)) = w_trace w @ new
      \<and> same_client (w_client w) (w_client (snd (inner_session env c w))) \<and> list_all E new"
    using assms
    by (cases "InnerMuxEstablished (w_client w)")
      (auto simp: inner_session_def GetClientInnerMuxSession_def andthen_def attempt_def Let_def split: option.splits)
qed

lemma only_InnerProxy:
  assumes "\<And>b. E (SmuxClient c, b)" "\<And>s b. E (OpenStream s, b)" "\<And>n b. E (NewClient n, b)"
    "\<And>p a b. E (InnerUDPChannel p a, b)" "\<And>p a b. E (InnerHandshake p a, b)"
  shows "only E (dialInnerProxy env cs c n a isudp)"
  unfolding dialInnerProxy_def by (intro only_andthen only_session) (auto simp: assms intro!: only_andthen)

lemma only_layers:
  assumes "\<And>a b. E (Dial a, b)" "\<And>x v b. E (WritePROXY v x, b)" "\<And>x b. E (TlsHandshake x, b)" "\<And>x b. E (LazySecure x, b)"
    "\<And>x b. E (GetCommonConn x, b)" "\<And>x b. E (DialSubConn x, b)" "\<And>x l b. E (WsHandshake x l, b)" "\<And>b. E (CloseBaseLocal, b)"
  shows "only E (dial_layers env cs client mux has lazy a)"
proof -
  have t: "only E (dial_transport env client a)"
    unfolding dial_transport_def by (auto simp: assms Let_def intro!: only_andthen split: option.splits)
  have x: "only E (dial_PROXY env cs w)" "only E (dial_tls env client has lazy w)" for w
    unfolding dial_PROXY_def dial_tls_def by (auto simp: assms Let_def intro!: only_andthen)
  have s: "only E (dial_sub env cs w)" for w
    unfolding dial_sub_def by (auto simp: assms intro!: only_andthen)
  have v: "only E (dial_adv env cs client mux has d)" for d
    unfolding dial_adv_def by (auto simp: assms s Let_def intro!: only_andthen split: option.splits dialed.splits)
  show ?thesis
    unfolding dial_layers_def
    by (auto simp: t x v intro!: only_andthen split: dialed.splits prod.splits)
qed

section \<open>The first payload\<close>

text \<open>The payloads that were handed to a proxy handshake that succeeded, with the address given to it.\<close>

fun payload_of :: "ev \<Rightarrow> (bytes \<times> Addr) option" where
  "payload_of (Handshake c p a) = (if p = [] then None else Some (p, a))"
| "payload_of (EstablishUDPChannel c p a) = (if p = [] then None else Some (p, a))"
| "payload_of (InnerHandshake p a) = (if p = [] then None else Some (p, a))"
| "payload_of (InnerUDPChannel p a) = (if p = [] then None else Some (p, a))"
| "payload_of _ = None"

definition delivered :: "trace \<Rightarrow> (bytes \<times> Addr) list" where
  "delivered tr = List.map_filter (\<lambda>(e, b). if b then payload_of e else None) tr"

lemma delivered_simps [simp]:
  "delivered [] = []" "delivered (tr @ tr') = delivered tr @ delivered tr'"
  "delivered ((e, b) # tr) = (if b then case payload_of e of None \<Rightarrow> [] | Some x \<Rightarrow> [x] else []) @ delivered tr"
  by (simp_all add: delivered_def map_filter_def split: option.splits)

definition silent :: "ev \<times> bool \<Rightarrow> bool" where
  "silent x \<longleftrightarrow> (case x of (e, b) \<Rightarrow> b \<longrightarrow> payload_of e = None)"

lemma delivered_silent: "list_all silent tr \<Longrightarrow> delivered tr = []"
  by (induction tr) (auto simp: silent_def split: prod.splits)

definition delivers :: "'a act \<Rightarrow> (bytes \<times> Addr) list \<Rightarrow> bool" where
  "delivers m ds \<longleftrightarrow> yields m (\<lambda>r new. delivered new = (case r of Inl e \<Rightarrow> [] | Inr x \<Rightarrow> ds))"

lemma delivers_andthen: "only silent m \<Longrightarrow> (\<And>x. delivers (f x) ds) \<Longrightarrow> delivers (andthen m f) ds"
  unfolding delivers_def only_def by (erule yields_andthen) (auto simp: delivered_silent split: sum.splits)

lemma delivers_ret: "delivers m ds \<Longrightarrow> (\<And>x. only silent (f x)) \<Longrightarrow> (\<And>x w. \<exists>y. fst (f x w) = Inr y) \<Longrightarrow> delivers (andthen m f) ds"
  unfolding delivers_def only_def
proof (rule yieldsI)
  fix w
  assume m: "yields m (\<lambda>r new. delivered new = (case r of Inl e \<Rightarrow> [] | Inr x \<Rightarrow> ds))"
    and f: "\<And>x. yields (f x) (\<lambda>r. list_all silent)" and v: "\<And>x w. \<exists>y. fst (f x w) = Inr y"
  obtain r w' where mw: "m w = (r, w')" by fastforce
  from yieldsE [OF m mw] obtain new where n: "w_trace w' = w_trace w @ new"
    "same_client (w_client w) (w_client w')" "delivered new = (case r of Inl e \<Rightarrow> [] | Inr x \<Rightarrow> ds)" .
  show "\<exists>new. w_trace (snd (andthen m f w)) = w_trace w @ new
      \<and> same_client (w_client w) (w_client (snd (andthen m f w)))
      \<and> delivered new = (case fst (andthen m f w) of Inl e \<Rightarrow> [] | Inr x \<Rightarrow> ds)"
  proof (cases r)
    case (Inl e)
    with n mw show ?thesis by (intro exI [of _ new]) (simp add: andthen_def)
  next
    case (Inr x)
    obtain r2 w2 where fw: "f x w' = (r2, w2)" by fastforce
    from yieldsE [OF f fw] obtain new2 where n2: "w_trace w2 = w_trace w' @ new2"
      "same_client (w_client w') (w_client w2)" "list_all silent new2" .
    from v [of x w'] fw obtain y where "r2 = Inr y" by auto
    with n n2 Inr mw fw same_client_trans show ?thesis
      by (intro exI [of _ "new @ new2"]) (auto simp: andthen_def delivered_silent)
  qed
qed

lemma delivers_fail [simp]: "delivers (leave e) ds"
  unfolding delivers_def by (rule yields_mono [OF yields_leave]) auto

lemma delivers_require [simp]:
  "payload_of e = Some d \<Longrightarrow> delivers (require env e) [d]"
  "payload_of e = None \<Longrightarrow> delivers (require env e) []"
  unfolding delivers_def by (rule yields_mono [OF yields_require], auto)+

lemma delivers_then_ret [simp]:
  "delivers m ds \<Longrightarrow> delivers (andthen m (\<lambda>x. ret (g x))) ds"
  "delivers m' ds \<Longrightarrow> delivers (andthen m' (\<lambda>(r, u). ret (h r u))) ds"
  by (rule delivers_ret; force simp: only_basic ret_def [of _, THEN fun_cong] split: prod.splits)+

lemma delivers_if: "(c \<Longrightarrow> delivers m ds) \<Longrightarrow> (\<not> c \<Longrightarrow> delivers m' ds) \<Longrightarrow> delivers (if c then m else m') ds"
  by simp

lemma delivers_hand_over:
  "delivers (require env (Handshake c p a)) (if p = [] then [] else [(p, a)])"
  "delivers (require env (EstablishUDPChannel c p a)) (if p = [] then [] else [(p, a)])"
  "delivers (require env (InnerHandshake p a)) (if p = [] then [] else [(p, a)])"
  "delivers (require env (InnerUDPChannel p a)) (if p = [] then [] else [(p, a)])"
  by simp_all

lemma delivers_InnerProxy:
  "delivers (dialInnerProxy env cs c n a isudp)
     (if firstPayload cs = [] then [] else [(firstPayload cs, if isudp then first_target cs a else a)])"
  unfolding dialInnerProxy_def
proof (rule delivers_andthen, rule only_session, simp add: silent_def)
  fix s
  let ?ds = "if firstPayload cs = [] then [] else [(firstPayload cs, if isudp then first_target cs a else a)]"
  have shut: "delivers (andthen close_session (\<lambda>_. leave (Result (- 1)) :: (rwc option \<times> rwc option) act)) ?ds"
    by (rule delivers_andthen) simp_all
  have last: "delivers (if isudp then andthen (require env (InnerUDPChannel (firstPayload cs) (first_target cs a))) (\<lambda>_. ret x)
      else andthen (require env (InnerHandshake (firstPayload cs) a)) (\<lambda>_. ret y)) ?ds" for x y
    using delivers_hand_over(3,4) [of env "firstPayload cs"] by auto
  show "delivers (andthen (attempt env (OpenStream s)) (\<lambda>opened.
      if \<not> opened then andthen close_session (\<lambda>_. leave (Result (- 1)))
      else andthen (require env (NewClient n)) (\<lambda>_.
        if isudp then andthen (require env (InnerUDPChannel (firstPayload cs) (first_target cs a))) (\<lambda>_. ret (None, Some (Inner s)))
        else andthen (require env (InnerHandshake (firstPayload cs) a)) (\<lambda>_. ret (Some (Inner s), None))))) ?ds"
    by (rule delivers_andthen, simp add: silent_def, rule delivers_if, rule shut, rule delivers_andthen, simp add: silent_def, rule last)
qed

lemma delivers_shake:
  "delivers (dial_shake env cs mux isudp a c)
     (if mux \<or> firstPayload cs = [] then [] else [(firstPayload cs, if isudp then first_target cs a else a)])"
  unfolding dial_shake_def
  by (intro delivers_if delivers_then_ret) (auto simp: delivers_hand_over)

lemma silent_shake: "only silent (dial_shake env cs True isudp a c)"
  unfolding dial_shake_def by (auto simp: silent_def intro!: only_andthen)

lemma delivers_anew:
  "delivers (dial_anew env cs client mux has lazy a)
     (if firstPayload cs = [] then [] else [(firstPayload cs, if IsUDP a then first_target cs a else a)])"
  (is "delivers _ ?ds")
proof (cases "dial_addr client a")
  case (Inr rt)
  have l: "only silent (dial_layers env cs client mux has lazy rt)"
    by (rule only_layers) (simp_all add: silent_def)
  have s: "delivers (andthen (dial_shake env cs mux (IsUDP a) a c) (\<lambda>(r, u).
      andthen (if mux then dialInnerProxy env cs c n a (IsUDP a) else ret (r, u)) (\<lambda>(r, u). ret (g r u)))) ?ds" for c n and g :: "_ \<Rightarrow> _ \<Rightarrow> dial_result"
  proof (cases mux)
    case True
    have i: "delivers (andthen (dialInnerProxy env cs c n a (IsUDP a)) (\<lambda>(r, u). ret (g r u))) ?ds"
      by (rule delivers_then_ret, rule delivers_InnerProxy)
    have m: "mux = True" using True by simp
    show ?thesis unfolding m by (rule delivers_andthen [OF silent_shake]) (simp add: i split: prod.split)
  next
    case False
    have "andthen (dial_shake env cs mux (IsUDP a) a c) (\<lambda>(r, u). andthen (ret (r, u)) (\<lambda>(r, u). ret (g r u)))
        = andthen (dial_shake env cs mux (IsUDP a) a c) (\<lambda>(r, u). ret (g r u))"
      by (simp add: andthen_def ret_def fun_eq_iff split: sum.splits prod.splits)
    then show ?thesis using False delivers_shake [of env cs mux "IsUDP a" a c] by simp
  qed
  from Inr show ?thesis
    unfolding dial_anew_def by (simp only: sum.case) (rule delivers_andthen [OF l], case_tac x, simp only: prod.case, rule s)
qed (simp add: dial_anew_def)

lemma delivers_trace:
  assumes "delivers m ds" "m w = (r, w')"
  shows "\<exists>new. w_trace w' = w_trace w @ new \<and> delivered new = (case r of Inl e \<Rightarrow> [] | Inr x \<Rightarrow> ds)"
  using yieldsE [OF assms(1) [unfolded delivers_def] assms(2)] by metis

lemma deferred_trace: "deferred e m w = (r, w') \<longleftrightarrow> (\<exists>w1. m w = (r, w1) \<and> w' = w1\<lparr>w_trace := w_trace w1 @ [(e, True)]\<rparr>)"
  by (auto simp: deferred_def split: prod.splits)

lemma delivers_deferred: "delivers m ds \<Longrightarrow> payload_of e = None \<Longrightarrow> delivers (deferred e m) ds"
  unfolding delivers_def yields_def deferred_def split_def
  by (intro allI, drule_tac x = w in spec) auto

lemma delivers_or_else:
  assumes "delivers m ds" "delivers m' ds"
  shows "delivers (or_else m m') ds"
  unfolding delivers_def
proof (rule yieldsI)
  fix w
  obtain r w1 where m: "m w = (r, w1)" by fastforce
  obtain r2 w2 where m': "m' w1 = (r2, w2)" by fastforce
  from yieldsE [OF assms(1) [unfolded delivers_def] m] obtain n1 where n1: "w_trace w1 = w_trace w @ n1"
    "same_client (w_client w) (w_client w1)" "delivered n1 = (case r of Inl e \<Rightarrow> [] | Inr x \<Rightarrow> ds)" .
  from yieldsE [OF assms(2) [unfolded delivers_def] m'] obtain n2 where n2: "w_trace w2 = w_trace w1 @ n2"
    "same_client (w_client w1) (w_client w2)" "delivered n2 = (case r2 of Inl e \<Rightarrow> [] | Inr x \<Rightarrow> ds)" .
  show "\<exists>new. w_trace (snd (or_else m m' w)) = w_trace w @ new
      \<and> same_client (w_client w) (w_client (snd (or_else m m' w)))
      \<and> delivered new = (case fst (or_else m m' w) of Inl e \<Rightarrow> [] | Inr x \<Rightarrow> ds)"
  proof (cases "\<exists>e. r = Inl (Result e)")
    case True
    with m m' n1 n2 same_client_trans show ?thesis
      by (intro exI [of _ "n1 @ n2"]) (auto simp: or_else_def)
  next
    case False
    then have "or_else m m' w = (r, w1)" by (auto simp: or_else_def m split: sum.splits exit.splits)
    with n1 show ?thesis by (intro exI [of _ n1]) simp
  qed
qed

lemma delivers_note_andthen: "payload_of e = None \<Longrightarrow> delivers m ds \<Longrightarrow> delivers (andthen (note_ev e) (\<lambda>_. m)) ds"
  by (rule delivers_andthen) (simp_all add: silent_def)

lemma dial_delivered:
  assumes "dialClient env cs targetAddr wlc udp_wlc isTlsLazy w = (r, w')"
  shows "\<exists>new. w_trace w' = w_trace w @ new
    \<and> delivered new = (case r of
        Inl e \<Rightarrow> []
      | Inr res \<Rightarrow> if firstPayload cs = [] then []
                  else [(firstPayload cs, if IsUDP targetAddr then udpFirstTarget cs else targetAddr)])"
proof -
  let ?ds = "if firstPayload cs = [] then [] else [(firstPayload cs, if IsUDP targetAddr then first_target cs targetAddr else targetAddr)]"
  let ?cl = "w_client w"
  let ?inner = "andthen (dialInnerProxy env cs None (snd (p_HasInnerMux ?cl)) targetAddr (IsUDP targetAddr))
     (\<lambda>(r, u). ret (no_remote\<lparr>wrc := r, udp_wrc := u\<rparr>))"
  let ?anew = "\<lambda>mux. dial_anew env cs ?cl mux (wlc \<noteq> None) isTlsLazy targetAddr"
  have inner: "delivers ?inner ?ds"
    by (rule delivers_then_ret, rule delivers_InnerProxy)
  consider (reject) "p_Name ?cl = RejectName"
    | (live) "p_Name ?cl \<noteq> RejectName" "fst (p_HasInnerMux ?cl) = 2" "InnerMuxEstablished ?cl"
    | (mux) "p_Name ?cl \<noteq> RejectName" "fst (p_HasInnerMux ?cl) = 2" "\<not> InnerMuxEstablished ?cl"
    | (plain) "p_Name ?cl \<noteq> RejectName" "fst (p_HasInnerMux ?cl) \<noteq> 2" by blast
  then obtain m where "delivers m ?ds" "dialClient env cs targetAddr wlc udp_wlc isTlsLazy w = m w"
  proof cases
    case reject
    have d: "delivers (leave (Result (-10)) :: dial_result act) ?ds"
      "delivers (andthen (note_ev (Reject s)) (\<lambda>_. leave (Result (-10)) :: dial_result act)) ?ds" for s
      by (simp_all add: delivers_note_andthen del: if_split)
    with reject that show ?thesis
      by (cases wlc; cases udp_wlc; simp only: dialClient_def Let_def if_True option.case prod.case; blast)
  next
    case live
    have "delivers (andthen (note_ev Lock) (\<lambda>_. andthen (note_ev Unlock) (\<lambda>_. or_else ?inner (?anew True)))) ?ds"
      by (intro delivers_note_andthen delivers_or_else inner delivers_anew) simp_all
    then show ?thesis by (rule that) (simp add: dialClient_def live Let_def)
  next
    case mux
    have "delivers (andthen (note_ev Lock) (\<lambda>_. deferred Unlock (?anew True))) ?ds"
      by (intro delivers_note_andthen delivers_deferred delivers_anew) simp_all
    then show ?thesis by (rule that) (simp add: dialClient_def mux Let_def)
  next
    case plain
    show ?thesis by (rule that [OF delivers_anew [of env cs ?cl False "wlc \<noteq> None"]]) (simp add: dialClient_def plain Let_def)
  qed
  with assms delivers_trace [of m ?ds w r w'] show ?thesis by (auto simp: first_target_def split: if_splits sum.splits)
qed


section \<open>The plan of a dial\<close>

text \<open>The events of a dial through a client that has no inner mux and no multiplexing layer, in their
  order; a reference that \<open>dialClient\<close> is compared with.\<close>

primrec require_all :: "dial_env \<Rightarrow> ev list \<Rightarrow> unit act" where
  "require_all env [] = ret ()"
| "require_all env (e # es) = andthen (require env e) (\<lambda>_. require_all env es)"

definition hand_over :: "('b) conn_state_scheme \<Rightarrow> Addr \<Rightarrow> wire option \<Rightarrow> ev" where
  "hand_over cs targetAddr c =
     (if IsUDP targetAddr then EstablishUDPChannel c (firstPayload cs) (first_target cs targetAddr)
      else Handshake c (firstPayload cs) targetAddr)"

definition plan_tls :: "('c, 'b) Base_scheme \<Rightarrow> bool \<Rightarrow> Addr \<Rightarrow> wire" where
  "plan_tls client isTlsLazy a = (if isTlsLazy then Teed (Dialed a) else Dialed a)"

definition plan_below :: "('c, 'b) Base_scheme \<Rightarrow> bool \<Rightarrow> Addr \<Rightarrow> wire" where
  "plan_below client isTlsLazy a =
     header_layer client (if b_TLS client then TlsOver (plan_tls client isTlsLazy a) else Dialed a)"

definition plan_len :: "('b) conn_state_scheme \<Rightarrow> ('c, 'd) Base_scheme \<Rightarrow> bool \<Rightarrow> nat" where
  "plan_len cs client has_wlc = (case b_AdvC client of Some adv \<Rightarrow> early_len cs adv False has_wlc | None \<Rightarrow> 0)"

definition plan_wire :: "('b) conn_state_scheme \<Rightarrow> ('c, 'd) Base_scheme \<Rightarrow> bool \<Rightarrow> bool \<Rightarrow> Addr \<Rightarrow> wire" where
  "plan_wire cs client has_wlc isTlsLazy a =
     (if b_AdvancedL client = [] then plan_below client isTlsLazy a
      else WsOver (plan_below client isTlsLazy a) (plan_len cs client has_wlc))"

definition plan_PROXY :: "('b) conn_state_scheme \<Rightarrow> Addr \<Rightarrow> ev list" where
  "plan_PROXY cs a =
     (if 0 < fallbackXver cs \<and> fallbackXver cs < 3 then [WritePROXY (fallbackXver cs) (Dialed a)] else [])"

definition plan_adv :: "('b) conn_state_scheme \<Rightarrow> ('c, 'd) Base_scheme \<Rightarrow> bool \<Rightarrow> bool \<Rightarrow> Addr \<Rightarrow> ev list" where
  "plan_adv cs client has_wlc isTlsLazy a =
     (if b_AdvancedL client = [] then []
      else [WsHandshake (plan_below client isTlsLazy a) (plan_len cs client has_wlc)])"

definition plan_layers :: "('b) conn_state_scheme \<Rightarrow> ('c, 'd) Base_scheme \<Rightarrow> bool \<Rightarrow> bool \<Rightarrow> Addr \<Rightarrow> ev list" where
  "plan_layers cs client has_wlc isTlsLazy a =
     [Dial a] @ plan_PROXY cs a
     @ (if b_TLS client then [TlsHandshake (plan_tls client isTlsLazy a)] else [])
     @ plan_adv cs client has_wlc isTlsLazy a"

definition dial_plan :: "('b) conn_state_scheme \<Rightarrow> ('c, 'd) Base_scheme \<Rightarrow> bool \<Rightarrow> bool \<Rightarrow> Addr \<Rightarrow> Addr \<Rightarrow> ev list" where
  "dial_plan cs client has_wlc isTlsLazy targetAddr a =
     plan_layers cs client has_wlc isTlsLazy a
     @ [hand_over cs targetAddr (Some (plan_wire cs client has_wlc isTlsLazy a))]"

text \<open>A client of this kind: its advanced layer, if it has one, was created and is neither super nor mux.\<close>

definition single_client :: "('c, 'd) proxy_scheme \<Rightarrow> bool" where
  "single_client client \<longleftrightarrow> p_Name client \<noteq> RejectName \<and> p_Name client \<noteq> DirectName \<and> fst (p_HasInnerMux client) \<noteq> 2
     \<and> (b_AdvancedL client \<noteq> [] \<longrightarrow> (\<exists>adv. b_AdvC client = Some adv \<and> \<not> IsSuper adv \<and> \<not> IsMux adv))"

lemma andthen_assoc: "andthen (andthen m f) g = andthen m (\<lambda>x. andthen (f x) g)"
  by (simp add: andthen_def fun_eq_iff split: sum.splits prod.splits)

lemma andthen_ret [simp]: "andthen (ret x) f = f x" "andthen m ret = m" "andthen (leave e) f = leave e"
  by (auto simp: andthen_def ret_def leave_def fun_eq_iff split: sum.splits prod.splits)

lemma andthen_unit [simp]: "andthen m (\<lambda>_. ret ()) = m"
  by (simp add: andthen_def ret_def fun_eq_iff split: sum.splits prod.splits)

lemma require_all_append: "require_all env (es @ es') = andthen (require_all env es) (\<lambda>_. require_all env es')"
  by (induction es) (simp_all add: andthen_assoc)

lemma dial_shake_plan:
  "IsUDP a \<Longrightarrow> dial_shake env cs False True a c = andthen (require env (hand_over cs a c)) (\<lambda>_. ret (None, Some (Outer c)))"
  "\<not> IsUDP a \<Longrightarrow> dial_shake env cs False False a c = andthen (require env (hand_over cs a c)) (\<lambda>_. ret (Some (Outer c), None))"
  by (simp_all add: dial_shake_def hand_over_def)

lemma dial_stage_plans:
  assumes "single_client client" "\<not> (b_TLS client \<and> isTlsLazy \<and> tls_lazy_secure env \<and> has_wlc)"
  shows "dial_transport env client a = andthen (require_all env [Dial a]) (\<lambda>_. ret (Fresh (Dialed a)))"
    and "dial_PROXY env cs (Dialed a) = require_all env (plan_PROXY cs a)"
    and "dial_tls env client has_wlc isTlsLazy (Dialed a) =
      andthen (require_all env (if b_TLS client then [TlsHandshake (plan_tls client isTlsLazy a)] else []))
        (\<lambda>_. ret (if b_TLS client then TlsOver (plan_tls client isTlsLazy a) else Dialed a, b_TLS client \<and> isTlsLazy))"
    and "dial_adv env cs client False has_wlc (Fresh (plan_below client isTlsLazy a)) =
      andthen (require_all env (plan_adv cs client has_wlc isTlsLazy a))
        (\<lambda>_. ret (Some (plan_wire cs client has_wlc isTlsLazy a)))"
  using assms
  by (auto simp: single_client_def dial_transport_def dial_PROXY_def dial_tls_def dial_adv_def plan_PROXY_def plan_adv_def
      plan_wire_def plan_tls_def plan_len_def andthen_assoc Let_def)

lemma dial_layers_plan:
  assumes "single_client client" "\<not> (b_TLS client \<and> isTlsLazy \<and> tls_lazy_secure env \<and> has_wlc)"
  shows "dial_layers env cs client False has_wlc isTlsLazy a =
    andthen (require_all env (plan_layers cs client has_wlc isTlsLazy a))
      (\<lambda>_. ret (Some (plan_wire cs client has_wlc isTlsLazy a), b_TLS client \<and> isTlsLazy))"
proof -
  have h: "header_layer client (if b_TLS client then TlsOver (plan_tls client isTlsLazy a) else Dialed a) = plan_below client isTlsLazy a"
    by (simp add: plan_below_def)
  have d: "p_Name client \<noteq> DirectName" using assms(1) by (simp add: single_client_def)
  show ?thesis
    by (simp only: dial_layers_def d if_False dial_stage_plans [OF assms] andthen_assoc andthen_ret plan_layers_def
        require_all_append dialed.case prod.case h)
qed

lemma dialClient_plan:
  assumes "single_client (w_client w)" "dial_addr (w_client w) targetAddr = Inr a"
    and "\<not> (b_TLS (w_client w) \<and> isTlsLazy \<and> tls_lazy_secure env \<and> wlc \<noteq> None)"
  shows "dialClient env cs targetAddr wlc udp_wlc isTlsLazy w =
    andthen (require_all env (dial_plan cs (w_client w) (wlc \<noteq> None) isTlsLazy targetAddr a))
      (\<lambda>_. ret (let c = Some (Outer (Some (plan_wire cs (w_client w) (wlc \<noteq> None) isTlsLazy a))) in
         \<lparr>wrc = (if IsUDP targetAddr then None else c), udp_wrc = (if IsUDP targetAddr then c else None),
          realTargetAddr = a, rawReadRecorder = b_TLS (w_client w) \<and> isTlsLazy\<rparr>)) w"
proof -
  let ?p = "dial_plan cs (w_client w) (wlc \<noteq> None) isTlsLazy targetAddr a"
  have p: "require_all env ?p = andthen (require_all env (plan_layers cs (w_client w) (wlc \<noteq> None) isTlsLazy a))
      (\<lambda>_. require env (hand_over cs targetAddr (Some (plan_wire cs (w_client w) (wlc \<noteq> None) isTlsLazy a))))"
    by (simp add: dial_plan_def require_all_append andthen_assoc)
  have "dialClient env cs targetAddr wlc udp_wlc isTlsLazy w = dial_anew env cs (w_client w) False (wlc \<noteq> None) isTlsLazy targetAddr w"
    using assms(1) by (simp add: dialClient_def single_client_def Let_def)
  then show ?thesis
    using dial_layers_plan [OF assms(1), of isTlsLazy env "wlc \<noteq> None" cs a] assms(3)
    by (cases "IsUDP targetAddr") (simp_all add: dial_anew_def assms(2) dial_shake_plan p andthen_assoc Let_def del: not_None_eq)
qed


lemma note_ev_andthen: "andthen (note_ev e) f w = f () (w\<lparr>w_trace := w_trace w @ [(e, True)]\<rparr>)"
  by (simp add: andthen_def note_ev_def)

lemma require_ret:
  "andthen (require env e) (\<lambda>_. ret x) w =
     (if ok env (w_trace w) e then Inr x else Inl (Result (-1)),
      w\<lparr>w_trace := w_trace w @ [(e, ok env (w_trace w) e)]\<rparr>)"
  by (simp add: andthen_def require_def attempt_def ret_def leave_def Let_def)

section \<open>The lock of the inner mux\<close>

definition lock_free :: "trace \<Rightarrow> bool" where
  "lock_free tr \<longleftrightarrow> list_all (\<lambda>(e, b). e \<noteq> Lock \<and> e \<noteq> Unlock) tr"

lemma only_lock_free:
  assumes "only (\<lambda>(e, b). e \<noteq> Lock \<and> e \<noteq> Unlock) m" "m w = (r, w')"
  shows "\<exists>new. w_trace w' = w_trace w @ new \<and> lock_free new \<and> same_client (w_client w) (w_client w')"
  using yieldsE [OF assms(1) [unfolded only_def] assms(2)] unfolding lock_free_def by metis

lemma anew_lock_free: "only (\<lambda>(e, b). e \<noteq> Lock \<and> e \<noteq> Unlock) (dial_anew env cs client mux has lazy a)"
  unfolding dial_anew_def dial_shake_def
  by (auto intro!: only_andthen only_layers only_InnerProxy split: sum.splits prod.splits)

lemma inner_lock_free: "only (\<lambda>(e, b). e \<noteq> Lock \<and> e \<noteq> Unlock)
    (andthen (dialInnerProxy env cs c n a u) (\<lambda>(r, u). ret (no_remote\<lparr>wrc := r, udp_wrc := u\<rparr>)))"
  by (auto intro!: only_andthen only_InnerProxy split: prod.splits)

lemma or_else_lock_free:
  assumes "only E m" "only E m'" shows "only E (or_else m m')"
  unfolding only_def
proof (rule yieldsI)
  fix w
  obtain r w1 where m: "m w = (r, w1)" by fastforce
  obtain r2 w2 where m': "m' w1 = (r2, w2)" by fastforce
  from yieldsE [OF assms(1) [unfolded only_def] m] obtain n1 where n1: "w_trace w1 = w_trace w @ n1"
    "same_client (w_client w) (w_client w1)" "list_all E n1" .
  from yieldsE [OF assms(2) [unfolded only_def] m'] obtain n2 where n2: "w_trace w2 = w_trace w1 @ n2"
    "same_client (w_client w1) (w_client w2)" "list_all E n2" .
  have "or_else m m' w = (case r of Inl (Result e) \<Rightarrow> (r2, w2) | _ \<Rightarrow> (r, w1))"
    by (auto simp: or_else_def m m' split: sum.splits exit.splits)
  with n1 n2 same_client_trans show "\<exists>new. w_trace (snd (or_else m m' w)) = w_trace w @ new
      \<and> same_client (w_client w) (w_client (snd (or_else m m' w))) \<and> list_all E new"
    by (cases "\<exists>e. r = Inl (Result e)") (auto split: sum.splits exit.splits intro: exI [of _ n1] exI [of _ "n1 @ n2"])
qed

lemma dial_lock_trace:
  assumes "dialClient env cs targetAddr wlc udp_wlc isTlsLazy w = (r, w')"
  obtains new where "w_trace w' = w_trace w @ new"
    "if p_Name (w_client w) = RejectName \<or> fst (p_HasInnerMux (w_client w)) \<noteq> 2 then lock_free new
     else if InnerMuxEstablished (w_client w) then \<exists>mid. new = [(Lock, True), (Unlock, True)] @ mid \<and> lock_free mid
     else \<exists>mid. new = [(Lock, True)] @ mid @ [(Unlock, True)] \<and> lock_free mid"
    "same_client (w_client w) (w_client w')"
proof -
  let ?cl = "w_client w"
  let ?anew = "\<lambda>mux. dial_anew env cs ?cl mux (wlc \<noteq> None) isTlsLazy targetAddr"
  let ?inner = "andthen (dialInnerProxy env cs None (snd (p_HasInnerMux ?cl)) targetAddr (IsUDP targetAddr))
     (\<lambda>(r, u). ret (no_remote\<lparr>wrc := r, udp_wrc := u\<rparr>))"
  consider (reject) "p_Name ?cl = RejectName"
    | (live) "p_Name ?cl \<noteq> RejectName" "fst (p_HasInnerMux ?cl) = 2" "InnerMuxEstablished ?cl"
    | (mux) "p_Name ?cl \<noteq> RejectName" "fst (p_HasInnerMux ?cl) = 2" "\<not> InnerMuxEstablished ?cl"
    | (plain) "p_Name ?cl \<noteq> RejectName" "fst (p_HasInnerMux ?cl) \<noteq> 2" by blast
  then show thesis
  proof cases
    case reject
    with assms show thesis
      by (cases wlc; cases udp_wlc)
        (auto simp: dialClient_def Let_def andthen_def note_ev_def leave_def lock_free_def intro!: that)
  next
    case live
    let ?w1 = "w\<lparr>w_trace := w_trace w @ [(Lock, True), (Unlock, True)]\<rparr>"
    from live assms have "or_else ?inner (?anew True) ?w1 = (r, w')"
      by (simp add: dialClient_def Let_def note_ev_andthen)
    from only_lock_free [OF or_else_lock_free [OF inner_lock_free anew_lock_free] this]
    obtain mid where "w_trace w' = w_trace ?w1 @ mid" "lock_free mid" "same_client ?cl (w_client w')" by auto
    with live show thesis by (intro that [of "[(Lock, True), (Unlock, True)] @ mid"]) auto
  next
    case mux
    let ?w1 = "w\<lparr>w_trace := w_trace w @ [(Lock, True)]\<rparr>"
    from mux assms have "deferred Unlock (?anew True) ?w1 = (r, w')"
      by (simp add: dialClient_def Let_def note_ev_andthen)
    then obtain w2 where a: "?anew True ?w1 = (r, w2)" and w': "w' = w2\<lparr>w_trace := w_trace w2 @ [(Unlock, True)]\<rparr>"
      by (auto simp: deferred_trace)
    from only_lock_free [OF anew_lock_free a] obtain mid where "w_trace w2 = w_trace ?w1 @ mid" "lock_free mid"
      "same_client ?cl (w_client w2)" by auto
    with mux w' show thesis by (intro that [of "[(Lock, True)] @ mid @ [(Unlock, True)]"]) auto
  next
    case plain
    from plain assms have "?anew False w = (r, w')" by (simp add: dialClient_def Let_def)
    from only_lock_free [OF anew_lock_free this] plain that show thesis by auto
  qed
qed


section \<open>Direct and rejecting clients\<close>

lemma direct_dial:
  assumes "p_Name (w_client w) = DirectName" "b_Addr (w_client w) = []" "fst (p_HasInnerMux (w_client w)) \<noteq> 2"
  shows "\<exists>a. dialClient env cs targetAddr wlc udp_wlc isTlsLazy w =
    andthen (require env (hand_over cs targetAddr None))
      (\<lambda>_. ret \<lparr>wrc = (if IsUDP targetAddr then None else Some (Outer None)),
        udp_wrc = (if IsUDP targetAddr then Some (Outer None) else None), realTargetAddr = a, rawReadRecorder = False\<rparr>) w"
  using assms
  by (cases "IsUDP targetAddr")
    (auto simp: dialClient_def DirectName_def RejectName_def Let_def dial_anew_def dial_addr_def dial_layers_def dial_shake_plan andthen_assoc)

text \<open>A direct client is given the request without anything dialed before it, also when a
  fallback asks for a PROXY protocol header: none is written.\<close>

theorem direct_dials_by_itself:
  assumes "p_Name (w_client w) = DirectName" "b_Addr (w_client w) = []" "fst (p_HasInnerMux (w_client w)) \<noteq> 2"
    and "dialClient env cs targetAddr wlc udp_wlc isTlsLazy w = (r, w')"
  shows "\<exists>b. w_trace w' = w_trace w @ [(hand_over cs targetAddr None, b)] \<and> (b \<longleftrightarrow> (\<exists>res. r = Inr res))"
  using direct_dial [OF assms(1-3), of env cs targetAddr wlc udp_wlc isTlsLazy] assms(4)
  by (auto simp: require_ret split: if_splits)

text \<open>A request that is routed to the reject client reaches nothing but that client.\<close>

theorem reject_dials_nothing:
  assumes "p_Name (w_client w) = RejectName"
  shows "dialClient env cs targetAddr wlc udp_wlc isTlsLazy w =
    (Inl (Result (-10)), w\<lparr>w_trace := w_trace w @ (case (wlc, udp_wlc) of
       (Some c, _) \<Rightarrow> [(Reject (TcpSrc c), True)] | (None, Some u) \<Rightarrow> [(Reject (UdpSrc u), True)] | (None, None) \<Rightarrow> [])\<rparr>)"
  using assms by (auto simp: dialClient_def andthen_def note_ev_def leave_def Let_def split: option.splits)

section \<open>Examples\<close>

definition sample_Base :: "wire option proxy" where
  "sample_Base = \<lparr>b_ListenConf = None, b_DialConf = None, b_Addr = '''', b_TLS = False, b_Tag = '''',
     b_TransportLayer = ''tcp'', b_Header = False, b_IsCantRoute = False, b_AdvancedL = '''', b_AdvC = None, b_AdvS = None,
     b_FallbackAddr = None, b_Innermux = None, b_LTA = None, b_LUA = None,
     p_Name = ''direct'', p_HasInnerMux = (0, ''''), p_IsUDP_MultiChannel = False, p_CanFallback = False, p_is_user = False\<rparr>"

definition sample_ws :: "wire option proxy" where
  "sample_ws = sample_Base\<lparr>p_Name := ''vless'', b_TLS := True, b_AdvancedL := ''ws'',
     b_AdvC := Some \<lparr>IsSuper = False, IsMux = False, IsEarly = True, CanHandleHeaders = True\<rparr>\<rparr>"

definition sample_mux :: "wire option proxy" where
  "sample_mux = sample_Base\<lparr>p_Name := ''trojan'', p_HasInnerMux := (2, ''simplesocks'')\<rparr>"

definition all_ok :: dial_env where
  "all_ok = \<lparr>ok = \<lambda>_ _. True, tls_lazy_secure = False\<rparr>"

definition sample_state :: conn_state where
  "sample_state = \<lparr>baseLocalConn = True, firstPayload = [1, 2, 3], udpFirstTarget = zero_Addr, fallbackXver = 1\<rparr>"

definition sample_to :: Addr where
  "sample_to = zero_Addr\<lparr>IP := Some [9, 9, 9, 9], Port := 80, Network := ''tcp''\<rparr>"

lemmas sample_dial_defs = sample_Base_def sample_ws_def sample_mux_def all_ok_def sample_state_def sample_to_def
  zero_Addr_def DirectName_def RejectName_def

lemma sample_not_udp: "\<not> IsUDP sample_to"
  by (simp add: sample_to_def zero_Addr_def IsUDP_def IsStrUDP_network_def StrToTransportProtocol_def)




theorem direct_dials_by_itself_witness:
  "\<exists>r w' b. dialClient all_ok sample_state sample_to (Some Wrapped) None False \<lparr>w_trace = [], w_client = sample_Base\<rparr> = (r, w')
    \<and> fallbackXver sample_state = 1 \<and> w_trace w' = [(Handshake None [1, 2, 3] sample_to, b)]"
proof -
  let ?w = "\<lparr>w_trace = [], w_client = sample_Base\<rparr>"
  obtain r w' where d: "dialClient all_ok sample_state sample_to (Some Wrapped) None False ?w = (r, w')" by fastforce
  have "p_Name (w_client ?w) = DirectName" "b_Addr (w_client ?w) = []" "fst (p_HasInnerMux (w_client ?w)) \<noteq> 2"
    by (simp_all add: sample_Base_def DirectName_def)
  from direct_dials_by_itself [OF this d] show ?thesis using sample_not_udp d by (auto simp: sample_state_def hand_over_def)
qed

theorem reject_dials_nothing_witness:
  "dialClient all_ok sample_state sample_to (Some Wrapped) None False \<lparr>w_trace = [], w_client = sample_Base\<lparr>p_Name := ''reject''\<rparr>\<rparr>
    = (Inl (Result (-10)), \<lparr>w_trace = [(Reject (TcpSrc Wrapped), True)], w_client = sample_Base\<lparr>p_Name := ''reject''\<rparr>\<rparr>)"
  using reject_dials_nothing [of "\<lparr>w_trace = [], w_client = sample_Base\<lparr>p_Name := ''reject''\<rparr>\<rparr>" all_ok sample_state sample_to "Some Wrapped" None False]
  by (simp add: RejectName_def)

end
