(* ===== verification/TlsHello.thy ===== *)
theory TlsHello
  imports V2Prelude "HOL-Library.Monad_Syntax"
begin

text \<open>
  \<open>tlsLayer/sniff_hello.go\<close>: the parser of a TLS hello message. Its functions are methods of
  \<open>ComSniff\<close> that note what they find in the receiver and, for a server hello, in the sniffer of
  the other direction (\<open>peer\<close>, which may be nil). A \<open>None\<close> is a Go panic: an index or slice
  expression out of range, or a nil \<open>peer\<close>. Indices are natural numbers; where the code adds
  to a byte or to a uint16 before it widens the sum, the addition is on words and wraps. A slice
  expression may reach past the length of its operand up to the capacity, so the bytes that lie
  behind the extensions in the buffer are an argument (\<open>beyond\<close>).
\<close>

section \<open>Checked accesses\<close>

definition bytes_from :: "bytes \<Rightarrow> nat \<Rightarrow> bytes option" where
  "bytes_from bs i = (if i \<le> length bs then Some (drop i bs) else None)"

definition cap_slice :: "bytes \<Rightarrow> bytes \<Rightarrow> nat \<Rightarrow> nat \<Rightarrow> bytes option" where
  "cap_slice bs beyond i j = bytes_slice (bs @ beyond) i j"

text \<open>\<open>uint16(bs[i])<<8 + uint16(bs[i+1])\<close>, also written with \<open>|\<close>, and the same on \<open>int\<close>.\<close>

definition uint16_at :: "bytes \<Rightarrow> nat \<Rightarrow> 16 word option" where
  "uint16_at bs i = do { a \<leftarrow> byte_at bs i; b \<leftarrow> byte_at bs (i + 1); Some (uint16_be a b) }"

definition int_at :: "bytes \<Rightarrow> nat \<Rightarrow> nat option" where
  "int_at bs i = do { a \<leftarrow> byte_at bs i; b \<leftarrow> byte_at bs (i + 1); Some (nat (int_add_be a b)) }"

lemma bytes_from_Some [simp]: "i \<le> length bs \<Longrightarrow> bytes_from bs i = Some (drop i bs)"
  by (simp add: bytes_from_def)

section \<open>State\<close>

record ComSniff =
  IsTls :: bool
  DefinitelyNotTLS :: bool
  SpecialCommandBytes :: bytes
  Auther :: "(nat \<times> (bytes \<Rightarrow> bool)) option"
  SniffedServerName :: string
  ShouldSniffAlpn :: bool
  SniffedAlpnList :: "string list"
  Isclient :: bool
  Is_secure :: bool
  packetCount :: nat
  helloPacketPass :: bool
  handshakeVer :: "16 word"
  handshakeFailReason :: int
  CantBeTLS13 :: bool

type_synonym sniffer = "ComSniff \<times> ComSniff option"

definition VersionTLS12 :: "16 word" where "VersionTLS12 = 0x0303"
definition VersionTLS13 :: "16 word" where "VersionTLS13 = 0x0304"

text \<open>\<open>cd.DefinitelyNotTLS = true; cd.handshakeFailReason = r\<close>.\<close>

definition not_tls :: "int \<Rightarrow> ComSniff \<Rightarrow> ComSniff" where
  "not_tls r cd = cd\<lparr>DefinitelyNotTLS := True, handshakeFailReason := r\<rparr>"

text \<open>The end of a piece of the parser: it returns from \<open>sniff_hello\<close>, or goes on at a cursor.\<close>

datatype 's flow = Return 's | Continue nat 's

section \<open>Before the extensions\<close>

definition sniff_commonHelloPre :: "ComSniff \<Rightarrow> bytes \<Rightarrow> (bytes option \<times> ComSniff) option" where
  "sniff_commonHelloPre cd pAfter =
     do {
       pAfterRand \<leftarrow> bytes_from pAfter 32;
       sessionL \<leftarrow> byte_at pAfterRand 0;
       if 1 + unat sessionL > length pAfterRand then Some (None, not_tls 7 cd)
       else do {
         pAfterSessionID \<leftarrow> bytes_from pAfterRand (unat (1 + sessionL));
         cipher_suitesLen \<leftarrow> uint16_at pAfterSessionID 0;
         if 2 + unat cipher_suitesLen > length pAfterSessionID then Some (None, not_tls 8 cd)
         else do {
           pAfterCipherSuites \<leftarrow> bytes_from pAfterSessionID (unat (2 + cipher_suitesLen));
           methodsLen \<leftarrow> byte_at pAfterCipherSuites 0;
           if 1 + unat methodsLen > length pAfterCipherSuites then Some (None, not_tls 9 cd)
           else do {
             rest \<leftarrow> bytes_from pAfterCipherSuites (unat (1 + methodsLen));
             if length rest = 0 then Some (None, cd\<lparr>helloPacketPass := True, CantBeTLS13 := True\<rparr>)
             else if length rest = 1 then Some (None, not_tls 10 cd)
             else Some (Some rest, cd) } } } }"

section \<open>One extension\<close>

text \<open>The cursor stands behind the type and the length of the extension.\<close>

text \<open>A block with a two-byte length, or with a one-byte length, that is skipped; \<open>r\<close> is the
  failure reason.\<close>

definition skip16 :: "int \<Rightarrow> bytes \<Rightarrow> nat \<Rightarrow> ComSniff \<Rightarrow> ComSniff flow option" where
  "skip16 r bs cursor cd =
     do {
       l \<leftarrow> int_at bs cursor;
       rest \<leftarrow> rest_len bs (cursor + 2);
       Some (if rest < l then Return (not_tls r cd) else Continue (cursor + 2 + l) cd) }"

definition skip8 :: "int \<Rightarrow> bytes \<Rightarrow> nat \<Rightarrow> ComSniff \<Rightarrow> ComSniff flow option" where
  "skip8 r bs cursor cd =
     do {
       l \<leftarrow> byte_at bs cursor;
       rest \<leftarrow> rest_len bs (cursor + 1);
       Some (if rest < unat l then Return (not_tls r cd) else Continue (cursor + 1 + unat l) cd) }"

text \<open>The same without stepping over the length byte, as cases 14, 19 and 20 have it.\<close>

definition skip8_in_place :: "int \<Rightarrow> bytes \<Rightarrow> nat \<Rightarrow> ComSniff \<Rightarrow> ComSniff flow option" where
  "skip8_in_place r bs cursor cd =
     do {
       l \<leftarrow> byte_at bs cursor;
       rest \<leftarrow> rest_len bs cursor;
       Some (if rest < unat l then Return (not_tls r cd) else Continue (cursor + unat l) cd) }"

definition flow_bind :: "'s flow option \<Rightarrow> (nat \<Rightarrow> 's \<Rightarrow> 's flow option) \<Rightarrow> 's flow option" where
  "flow_bind m f = do { r \<leftarrow> m; (case r of Return s \<Rightarrow> Some (Return s) | Continue c s \<Rightarrow> f c s) }"

function sni_loop :: "bool \<Rightarrow> bytes \<Rightarrow> nat \<Rightarrow> nat \<Rightarrow> ComSniff \<Rightarrow> ComSniff flow option" where
  "sni_loop onlyForSni bs edge cursor cd =
     (if edge \<le> cursor then Some (Continue cursor cd)
      else do {
        t \<leftarrow> byte_at bs cursor;
        if t \<noteq> 0 then Some (Return (not_tls 22 cd))
        else do {
          l \<leftarrow> int_at bs (cursor + 1);
          rest \<leftarrow> rest_len bs (cursor + 3);
          if rest < l then Some (Return (not_tls 22 cd))
          else
            let cd = cd\<lparr>SniffedServerName := string_of_bytes (list_slice (cursor + 3) (cursor + 3 + l) bs)\<rparr> in
            if onlyForSni then Some (Return cd)
            else sni_loop onlyForSni bs edge (cursor + 3 + l) cd } })"
  by pat_completeness auto
termination by (relation "measure (\<lambda>(_, _, edge, cursor, _). edge - cursor)") auto

declare sni_loop.simps [simp del]

definition ext_server_name :: "bool \<Rightarrow> bytes \<Rightarrow> nat \<Rightarrow> ComSniff \<Rightarrow> ComSniff flow option" where
  "ext_server_name onlyForSni bs cursor cd =
     do {
       l \<leftarrow> int_at bs cursor;
       rest \<leftarrow> rest_len bs (cursor + 2);
       if rest < l then Some (Return (not_tls 21 cd))
       else sni_loop onlyForSni bs (cursor + 2 + l) (cursor + 2) cd }"

definition ext_max_fragment_length :: "bytes \<Rightarrow> nat \<Rightarrow> ComSniff \<Rightarrow> ComSniff flow option" where
  "ext_max_fragment_length bs cursor cd =
     do {
       b \<leftarrow> byte_at bs cursor;
       Some (if unat b \<in> {2 * 2 ^ 9, 2 * 2 ^ 10, 2 * 2 ^ 11, 2 * 2 ^ 12} then Continue (cursor + 1) cd
             else Return (not_tls 23 cd)) }"

definition ext_status_request :: "bytes \<Rightarrow> nat \<Rightarrow> ComSniff \<Rightarrow> ComSniff flow option" where
  "ext_status_request bs cursor cd =
     do {
       b \<leftarrow> byte_at bs cursor;
       if b \<noteq> 1 then Some (Return (not_tls 24 cd))
       else flow_bind (skip16 25 bs (cursor + 1) cd) (skip16 25 bs) }"

definition ext_use_srtp :: "bytes \<Rightarrow> nat \<Rightarrow> ComSniff \<Rightarrow> ComSniff flow option" where
  "ext_use_srtp bs cursor cd = flow_bind (skip16 26 bs cursor cd) (skip8_in_place 27 bs)"

definition ext_heartbeat :: "bytes \<Rightarrow> nat \<Rightarrow> ComSniff \<Rightarrow> ComSniff flow option" where
  "ext_heartbeat bs cursor cd =
     do {
       b \<leftarrow> byte_at bs cursor;
       Some (if b > 2 \<or> b = 0 then Return (not_tls 28 cd) else Continue (cursor + 1) cd) }"

function alpn_loop :: "bytes \<Rightarrow> bytes \<Rightarrow> nat \<Rightarrow> nat \<Rightarrow> string list \<Rightarrow> string list option" where
  "alpn_loop bs beyond rightEdge leftEdge alpns =
     (if rightEdge \<le> leftEdge then Some alpns
      else do {
        thisLen \<leftarrow> byte_at bs leftEdge;
        p \<leftarrow> cap_slice bs beyond (leftEdge + 1) (leftEdge + 1 + unat thisLen);
        alpn_loop bs beyond rightEdge (leftEdge + 1 + unat thisLen) (alpns @ [string_of_bytes p]) })"
  by pat_completeness auto
termination by (relation "measure (\<lambda>(_, _, right, left, _). right - left)") auto

declare alpn_loop.simps [simp del]

definition ext_alpn :: "bytes \<Rightarrow> bytes \<Rightarrow> nat \<Rightarrow> ComSniff \<Rightarrow> ComSniff flow option" where
  "ext_alpn bs beyond cursor cd =
     do {
       l \<leftarrow> int_at bs cursor;
       rest \<leftarrow> rest_len bs (cursor + 2);
       if rest < l then Some (Return (not_tls 29 cd))
       else if ShouldSniffAlpn cd then do {
         as \<leftarrow> alpn_loop bs beyond (cursor + 2 + l) (cursor + 2) (SniffedAlpnList cd);
         Some (Continue (cursor + 2 + l) (cd\<lparr>SniffedAlpnList := as\<rparr>)) }
       else Some (Continue (cursor + 2 + l) cd) }"

definition ext_padding :: "bytes \<Rightarrow> nat \<Rightarrow> nat \<Rightarrow> ComSniff \<Rightarrow> ComSniff flow option" where
  "ext_padding bs thiseLen cursor cd =
     do {
       rest \<leftarrow> rest_len bs cursor;
       Some (if rest < thiseLen then Return (not_tls 31 cd) else Continue (cursor + thiseLen) cd) }"

text \<open>The loop over the offered versions: whether TLS 1.3 is among them, and the cursor.\<close>

fun versions_loop :: "bytes \<Rightarrow> nat \<Rightarrow> nat \<Rightarrow> nat \<Rightarrow> (bool \<times> nat) option" where
  "versions_loop bs tail cursor 0 = Some (False, cursor)"
| "versions_loop bs tail cursor (Suc k) =
     do {
       thisv \<leftarrow> uint16_at bs cursor;
       if thisv = VersionTLS13 then Some (True, tail) else versions_loop bs tail (cursor + 2) k }"

definition ext_client_versions :: "bool \<Rightarrow> bytes \<Rightarrow> nat \<Rightarrow> ComSniff \<Rightarrow> ComSniff flow option" where
  "ext_client_versions onlyForSni bs cursor cd =
     do {
       wholeL \<leftarrow> byte_at bs cursor;
       rest \<leftarrow> rest_len bs (cursor + 1);
       if rest < unat wholeL then Some (Return (not_tls 14 cd))
       else if unat wholeL mod 2 \<noteq> 0 then Some (Return (not_tls 15 cd))
       else do {
         (hasTls13, cursor') \<leftarrow> versions_loop bs (cursor + 1 + unat wholeL) (cursor + 1) (unat wholeL div 2);
         cd \<leftarrow> Some (if hasTls13 then cd else cd\<lparr>CantBeTLS13 := True\<rparr>);
         Some (if onlyForSni \<and> SniffedServerName cd = [] then Continue cursor' cd else Return cd) } }"

definition ext_server_version :: "bytes \<Rightarrow> nat \<Rightarrow> nat \<Rightarrow> sniffer \<Rightarrow> sniffer flow option" where
  "ext_server_version bs thiseLen cursor s =
     (case s of (cd, peer) \<Rightarrow>
        if thiseLen \<noteq> 2 then Some (Return (not_tls 14 cd, peer))
        else do {
          thisv \<leftarrow> uint16_at bs cursor;
          pr \<leftarrow> peer;
          Some (Return
            (if thisv = VersionTLS13 then
               (if CantBeTLS13 pr then (not_tls 15 cd, peer)
                else if handshakeVer pr \<noteq> VersionTLS12 then (not_tls 16 cd, peer)
                else (cd\<lparr>helloPacketPass := True, handshakeVer := VersionTLS13\<rparr>, peer))
             else (cd\<lparr>CantBeTLS13 := True, helloPacketPass := True\<rparr>, Some (pr\<lparr>CantBeTLS13 := True\<rparr>)))) })"

definition ext_psk :: "bool \<Rightarrow> bytes \<Rightarrow> nat \<Rightarrow> ComSniff \<Rightarrow> ComSniff flow option" where
  "ext_psk isclienthello bs cursor cd =
     (if isclienthello then flow_bind (skip16 20 bs cursor cd) (skip16 20 bs)
      else Some (Continue (cursor + 2) cd))"

text \<open>The switch over the extension type.\<close>

definition sniff_ext ::
    "bool \<Rightarrow> bool \<Rightarrow> bytes \<Rightarrow> bytes \<Rightarrow> nat \<Rightarrow> nat \<Rightarrow> nat \<Rightarrow> sniffer \<Rightarrow> sniffer flow option" where
  "sniff_ext isclienthello onlyForSni bs beyond et thiseLen cursor s =
     (case s of (cd, peer) \<Rightarrow>
        if et = 43 \<and> \<not> isclienthello then ext_server_version bs thiseLen cursor s
        else map_option (map_flow (\<lambda>cd. (cd, peer)))
          (if et = 0 then ext_server_name onlyForSni bs cursor cd
           else if et = 1 then ext_max_fragment_length bs cursor cd
           else if et = 5 then ext_status_request bs cursor cd
           else if et = 14 then ext_use_srtp bs cursor cd
           else if et = 15 then ext_heartbeat bs cursor cd
           else if et = 16 then ext_alpn bs beyond cursor cd
           else if et = 18 \<or> et = 49 \<or> et = 42 then Some (Continue cursor cd)
           else if et = 19 \<or> et = 20 then skip8_in_place 30 bs cursor cd
           else if et = 21 then ext_padding bs thiseLen cursor cd
           else if et = 43 then ext_client_versions onlyForSni bs cursor cd
           else if et \<in> {44, 13, 50, 47, 48, 10, 51} then
             (if isclienthello then skip16 18 bs cursor cd else Some (Continue cursor cd))
           else if et = 45 then skip8 19 bs cursor cd
           else if et = 41 then ext_psk isclienthello bs cursor cd
           else Some (Continue (cursor + thiseLen) cd)))"

section \<open>Every extension moves the cursor forward\<close>

definition forward :: "nat \<Rightarrow> 's flow option \<Rightarrow> bool" where
  "forward cursor m \<longleftrightarrow> (case m of Some (Continue c s) \<Rightarrow> cursor \<le> c | _ \<Rightarrow> True)"

named_theorems forward_intros \<open>pieces of the hello parser that do not step back\<close>

lemma forward_trivial [forward_intros, simp]:
  "forward c None" "forward c (Some (Return s))" "c \<le> c' \<Longrightarrow> forward c (Some (Continue c' s))"
  by (simp_all add: forward_def)

lemma forward_if [forward_intros]: "forward c a \<Longrightarrow> forward c b \<Longrightarrow> forward c (if P then a else b)"
  by simp

lemma forward_bind [forward_intros]: "(\<And>x. m = Some x \<Longrightarrow> forward c (f x)) \<Longrightarrow> forward c (m \<bind> f)"
  by (cases m) simp_all

lemma forward_flow_bind [forward_intros]:
  "forward c m \<Longrightarrow> (\<And>c' s. c \<le> c' \<Longrightarrow> forward c (f c' s)) \<Longrightarrow> forward c (flow_bind m f)"
  by (cases m) (auto simp: flow_bind_def forward_def split: flow.splits)

lemma forward_skip [forward_intros]:
  "c \<le> cursor \<Longrightarrow> forward c (skip16 r bs cursor cd)"
  "c \<le> cursor \<Longrightarrow> forward c (skip8 r bs cursor cd)"
  "c \<le> cursor \<Longrightarrow> forward c (skip8_in_place r bs cursor cd)"
  by (auto simp: skip16_def skip8_def skip8_in_place_def intro!: forward_intros)

lemma forward_sni_loop [forward_intros]: "c \<le> cursor \<Longrightarrow> forward c (sni_loop o' bs edge cursor cd)"
proof (induction "edge - cursor" arbitrary: cursor cd rule: less_induct)
  case less
  then show ?case
    by (subst sni_loop.simps) (auto simp: Let_def intro!: forward_if forward_bind forward_trivial)
qed

lemma versions_loop_forward:
  "versions_loop bs tail cursor k = Some (h, c') \<Longrightarrow> cursor + 2 * k \<le> tail \<Longrightarrow> cursor \<le> c'"
  by (induction bs tail cursor k rule: versions_loop.induct) (auto split: bind_splits if_splits)

lemma forward_client_versions [forward_intros]:
  "c \<le> cursor \<Longrightarrow> forward c (ext_client_versions o' bs cursor cd)"
  by (auto simp: ext_client_versions_def intro!: forward_if forward_bind forward_trivial
      dest!: versions_loop_forward split: prod.splits)

lemma forward_map [forward_intros]: "forward c m \<Longrightarrow> forward c (map_option (map_flow f) m)"
  by (auto simp: forward_def split: option.splits flow.splits)

lemma forward_sniff_ext: "forward cursor (sniff_ext h o' bs beyond et l cursor s)"
  by (cases s)
    (auto simp: sniff_ext_def ext_server_version_def ext_server_name_def ext_max_fragment_length_def
      ext_status_request_def ext_use_srtp_def ext_heartbeat_def ext_alpn_def ext_padding_def ext_psk_def
      intro!: forward_intros)

section \<open>All extensions\<close>

function ext_loop :: "bool \<Rightarrow> bool \<Rightarrow> bytes \<Rightarrow> bytes \<Rightarrow> nat \<Rightarrow> sniffer \<Rightarrow> sniffer option" where
  "ext_loop isclienthello onlyForSni bs beyond cursor s =
     (if length bs \<le> cursor then Some s
      else do {
        et \<leftarrow> uint16_at bs cursor;
        thiseLen \<leftarrow> uint16_at bs (cursor + 2);
        r \<leftarrow> sniff_ext isclienthello onlyForSni bs beyond (unat et) (unat thiseLen) (cursor + 4) s;
        (case r of Return s' \<Rightarrow> Some s'
         | Continue cursor' s' \<Rightarrow> ext_loop isclienthello onlyForSni bs beyond cursor' s') })"
  by pat_completeness auto
termination
proof (relation "measure (\<lambda>(_, _, bs, _, cursor, _). length bs - cursor)")
  fix h o' bs beyond cursor s et l r cursor' s'
  assume "\<not> length bs \<le> cursor" and "r = Continue cursor' s'"
    and "sniff_ext h o' bs beyond (unat et) (unat l) (cursor + 4) s = Some r"
  then show "((h, o', bs, beyond, cursor', s'), h, o', bs, beyond, cursor, s)
      \<in> measure (\<lambda>(_, _, bs, _, cursor, _). length bs - cursor)"
    using forward_sniff_ext [of "cursor + 4" h o' bs beyond "unat et" "unat l" s] by (simp add: forward_def)
qed simp

declare ext_loop.simps [simp del]

definition sniff_hello :: "bool \<Rightarrow> bool \<Rightarrow> bytes \<Rightarrow> bytes \<Rightarrow> sniffer \<Rightarrow> sniffer option" where
  "sniff_hello isclienthello onlyForSni pAfter past s =
     (case s of (cd, peer) \<Rightarrow>
        do {
          (pre, cd) \<leftarrow> sniff_commonHelloPre cd pAfter;
          if helloPacketPass cd \<or> DefinitelyNotTLS cd then Some (cd, peer)
          else do {
            rest \<leftarrow> pre;
            extensionsLen \<leftarrow> uint16_at rest 0;
            cd \<leftarrow> Some (if unat extensionsLen < 8 then not_tls 11 cd else cd);
            if length rest < 2 + unat extensionsLen then Some (not_tls 12 cd, peer)
            else do {
              extensionsBs \<leftarrow> bytes_slice rest 2 (unat (2 + extensionsLen));
              ext_loop isclienthello onlyForSni extensionsBs (drop (2 + unat extensionsLen) rest @ past) 0
                (cd, peer) } } })"

section \<open>What the parser leaves alone\<close>

text \<open>\<open>all_ends P m\<close>: \<open>P\<close> holds of the state at every end of \<open>m\<close> that is not a panic.\<close>

definition all_ends :: "('s \<Rightarrow> bool) \<Rightarrow> 's flow option \<Rightarrow> bool" where
  "all_ends P m \<longleftrightarrow> (case m of Some (Continue c s) \<Rightarrow> P s | Some (Return s) \<Rightarrow> P s | None \<Rightarrow> True)"

named_theorems ends_intros \<open>pieces of the hello parser that keep a property of the state\<close>

lemma all_ends_simps [simp]:
  "all_ends P None" "all_ends P (Some (Return s)) = P s" "all_ends P (Some (Continue c s)) = P s"
  by (simp_all add: all_ends_def)

lemmas all_ends_trivial [ends_intros] = all_ends_simps(1) all_ends_simps(2,3) [THEN iffD2]

lemma all_ends_if [ends_intros]: "all_ends P a \<Longrightarrow> all_ends P b \<Longrightarrow> all_ends P (if Q then a else b)"
  by simp

lemma all_ends_bind [ends_intros]: "(\<And>x. m = Some x \<Longrightarrow> all_ends P (f x)) \<Longrightarrow> all_ends P (m \<bind> f)"
  by (cases m) simp_all

lemma all_ends_flow_bind [ends_intros]:
  "all_ends P m \<Longrightarrow> (\<And>c s. P s \<Longrightarrow> all_ends P (f c s)) \<Longrightarrow> all_ends P (flow_bind m f)"
proof (cases m)
  case (Some r)
  then show "all_ends P m \<Longrightarrow> (\<And>c s. P s \<Longrightarrow> all_ends P (f c s)) \<Longrightarrow> ?thesis"
    by (cases r) (simp_all add: flow_bind_def)
qed (simp add: flow_bind_def)

lemma all_ends_map [ends_intros]: "all_ends (\<lambda>s. P (f s)) m \<Longrightarrow> all_ends P (map_option (map_flow f) m)"
  by (cases m) (auto simp: all_ends_def split: flow.splits)

text \<open>The parser writes only its verdict and what it found.\<close>

definition same_side :: "ComSniff \<Rightarrow> ComSniff \<Rightarrow> bool" where
  "same_side a b \<longleftrightarrow> IsTls b = IsTls a \<and> SpecialCommandBytes b = SpecialCommandBytes a \<and> Auther b = Auther a
     \<and> Isclient b = Isclient a \<and> Is_secure b = Is_secure a \<and> packetCount b = packetCount a"

lemma same_side_refl [simp]: "same_side a a"
  by (simp add: same_side_def)

lemma same_side_update [simp]:
  "same_side a (not_tls r b) = same_side a b"
  "same_side a (b\<lparr>SniffedServerName := n\<rparr>) = same_side a b"
  "same_side a (b\<lparr>SniffedAlpnList := l\<rparr>) = same_side a b"
  "same_side a (b\<lparr>CantBeTLS13 := x\<rparr>) = same_side a b"
  "same_side a (b\<lparr>helloPacketPass := x\<rparr>) = same_side a b"
  "same_side a (b\<lparr>handshakeVer := v\<rparr>) = same_side a b"
  by (simp_all add: same_side_def not_tls_def)

lemma same_side_skip [ends_intros]:
  "same_side a cd \<Longrightarrow> all_ends (same_side a) (skip16 r bs cursor cd)"
  "same_side a cd \<Longrightarrow> all_ends (same_side a) (skip8 r bs cursor cd)"
  "same_side a cd \<Longrightarrow> all_ends (same_side a) (skip8_in_place r bs cursor cd)"
  by (auto simp: skip16_def skip8_def skip8_in_place_def intro!: ends_intros)

lemma same_side_sni_loop [ends_intros]:
  "same_side a cd \<Longrightarrow> all_ends (same_side a) (sni_loop o' bs edge cursor cd)"
proof (induction "edge - cursor" arbitrary: cursor cd rule: less_induct)
  case less
  then show ?case
    by (subst sni_loop.simps) (auto simp: Let_def intro!: all_ends_if all_ends_bind all_ends_trivial)
qed

text \<open>The peer is touched in one flag only.\<close>

definition touched :: "ComSniff option \<Rightarrow> ComSniff option \<Rightarrow> bool" where
  "touched p q \<longleftrightarrow> q = p \<or> q = map_option (\<lambda>x. x\<lparr>CantBeTLS13 := True\<rparr>) p"

definition same_conn :: "sniffer \<Rightarrow> sniffer \<Rightarrow> bool" where
  "same_conn s t \<longleftrightarrow> same_side (fst s) (fst t) \<and> touched (snd s) (snd t)"

lemma same_conn_refl [simp]: "same_conn s s"
  by (simp add: same_conn_def touched_def)

lemma touched_trans: "touched p q \<Longrightarrow> touched q r \<Longrightarrow> touched p r"
  by (cases p) (auto simp: touched_def)

lemma same_side_trans: "same_side a b \<Longrightarrow> same_side b c \<Longrightarrow> same_side a c"
  by (simp add: same_side_def)

lemma same_conn_trans: "same_conn s t \<Longrightarrow> same_conn t u \<Longrightarrow> same_conn s u"
  unfolding same_conn_def by (blast intro: touched_trans same_side_trans)

lemma same_conn_fst [simp]: "same_conn (a, peer) (b, peer) = same_side a b"
  by (simp add: same_conn_def touched_def)

lemma sniff_ext_frame: "all_ends (same_conn s) (sniff_ext h o' bs beyond et l cursor s)"
proof -
  obtain cd peer where s: "s = (cd, peer)" by (cases s)
  have "all_ends (same_conn s) (ext_server_version bs l cursor s)"
    by (auto simp: ext_server_version_def s intro!: ends_intros)
      (auto simp: same_conn_def touched_def)
  moreover have "all_ends (same_side cd) (ext_client_versions o' bs cursor cd)"
    by (auto simp: ext_client_versions_def intro!: ends_intros split: prod.splits)
  ultimately show ?thesis
    by (auto simp: sniff_ext_def s ext_server_name_def ext_max_fragment_length_def
      ext_status_request_def ext_use_srtp_def ext_heartbeat_def ext_alpn_def ext_padding_def ext_psk_def
      intro!: ends_intros)
qed

lemma ext_loop_frame: "ext_loop h o' bs beyond cursor s = Some t \<Longrightarrow> same_conn s t"
proof (induction "length bs - cursor" arbitrary: cursor s rule: less_induct)
  case less
  show ?case
  proof (cases "length bs \<le> cursor")
    case True
    with less.prems show ?thesis by (simp add: ext_loop.simps)
  next
    case False
    with less.prems obtain et l r where r: "sniff_ext h o' bs beyond et l (cursor + 4) s = Some r"
      and t: "(case r of Return s' \<Rightarrow> Some s' | Continue c s' \<Rightarrow> ext_loop h o' bs beyond c s') = Some t"
      by (subst (asm) ext_loop.simps) (auto split: bind_splits)
    have f: "forward (cursor + 4) (Some r)" and a: "all_ends (same_conn s) (Some r)"
      using forward_sniff_ext [of "cursor + 4"] sniff_ext_frame r by metis+
    show ?thesis
    proof (cases r)
      case (Return s')
      with t a show ?thesis by simp
    next
      case (Continue c s')
      with f have "length bs - c < length bs - cursor" using False by (simp add: forward_def)
      then have "same_conn s' t" using less.hyps Continue t by simp
      with Continue a show ?thesis by (simp add: same_conn_trans)
    qed
  qed
qed

lemma sniff_commonHelloPre_frame:
  "sniff_commonHelloPre cd p = Some (r, cd') \<Longrightarrow> same_side cd cd'"
  by (auto simp: sniff_commonHelloPre_def split: bind_splits if_splits)

lemma pred_option_bind [ends_intros]:
  "(\<And>x. m = Some x \<Longrightarrow> pred_option P (f x)) \<Longrightarrow> pred_option P (m \<bind> f)"
  by (cases m) simp_all

lemma pred_option_if [ends_intros]: "pred_option P a \<Longrightarrow> pred_option P b \<Longrightarrow> pred_option P (if Q then a else b)"
  by simp

lemma pred_option_ext_loop [ends_intros]:
  "same_conn s t \<Longrightarrow> pred_option (same_conn s) (ext_loop h o' bs beyond cursor t)"
  by (cases "ext_loop h o' bs beyond cursor t") (auto dest: ext_loop_frame intro: same_conn_trans)

lemma sniff_hello_frame: "pred_option (same_conn s) (sniff_hello h o' p past s)"
  by (cases s) (auto simp: sniff_hello_def dest!: sniff_commonHelloPre_frame intro!: ends_intros)

end
