(* ===== verification/TlsSniff.thy ===== *)
theory TlsSniff
  imports TlsHello
begin

text \<open>
  \<open>tlsLayer/sniff.go\<close> and \<open>tlsLayer/teeConn.go\<close>: the sniffer that tls lazy encryption puts around a
  connection. It watches the packets of both directions until each is known to carry TLS or known
  not to. A conn is a pair of \<open>ComSniff\<close>s that point at each other; a read works on the reader's one
  with the writer's as its peer, a write the other way round. \<open>past\<close> is what lies behind the
  packet in the buffer it was read into, up to its capacity. Log output is left out; the flag
  \<open>OnlyTest\<close> is an argument.
\<close>

section \<open>The detection\<close>

definition incr :: "sniffer \<Rightarrow> sniffer" where
  "incr s = (case s of (cd, peer) \<Rightarrow> (cd\<lparr>packetCount := packetCount cd + 1\<rparr>, peer))"

text \<open>The first packet.\<close>

definition pass_hello :: "sniffer \<Rightarrow> sniffer" where
  "pass_hello s = (case s of (cd, peer) \<Rightarrow> (cd\<lparr>helloPacketPass := True\<rparr>, peer))"

definition client_hello_step :: "bytes \<Rightarrow> bytes \<Rightarrow> bool \<Rightarrow> 16 word \<Rightarrow> sniffer \<Rightarrow> sniffer option" where
  "client_hello_step p past onlyForSni ver s =
     (case s of (cd, peer) \<Rightarrow>
        if ver = VersionTLS12 then do {
          pAfter \<leftarrow> bytes_from p 11;
          if length pAfter < 49 then Some (not_tls 6 cd, peer)
          else do {
            (cd, peer) \<leftarrow> sniff_hello True onlyForSni pAfter past s;
            Some (if DefinitelyNotTLS cd then (cd, peer)
                  else pass_hello (cd\<lparr>handshakeVer := ver\<rparr>, peer)) } }
        else Some (pass_hello (cd\<lparr>handshakeVer := ver\<rparr>, peer)))"

definition server_hello_step :: "bytes \<Rightarrow> bytes \<Rightarrow> 16 word \<Rightarrow> sniffer \<Rightarrow> sniffer option" where
  "server_hello_step p past ver s =
     (case s of (cd, peer) \<Rightarrow>
        do {
          pr \<leftarrow> peer;
          if handshakeVer pr = VersionTLS12 \<and> ver = VersionTLS12 then do {
            pAfter \<leftarrow> bytes_from p 11;
            if length pAfter < 32 then Some (not_tls 6 cd, peer)
            else do {
              (cd, peer) \<leftarrow> sniff_hello False False pAfter past s;
              Some (if DefinitelyNotTLS cd then (cd, peer) else pass_hello (cd, peer)) } }
          else Some (pass_hello s) })"

definition detect_first :: "bytes \<Rightarrow> bytes \<Rightarrow> bool \<Rightarrow> bool \<Rightarrow> sniffer \<Rightarrow> sniffer option" where
  "detect_first p past isRead onlyForSni s =
     (case s of (cd, peer) \<Rightarrow>
        if length p < 11 then Some (not_tls 1 cd, peer)
        else do {
          p0 \<leftarrow> byte_at p 0;
          p9 \<leftarrow> byte_at p 9;
          p10 \<leftarrow> byte_at p 10;
          p5 \<leftarrow> byte_at p 5;
          if p0 \<noteq> 22 then Some (not_tls 2 cd, peer)
          else if p9 \<noteq> 3 then Some (not_tls 4 cd, peer)
          else if p10 = 0 \<or> p10 > 4 then Some (not_tls 5 cd, peer)
          else if p5 \<noteq> (if isRead then 1 else 2) then Some (not_tls 3 cd, peer)
          else if (Is_secure cd \<and> Isclient cd) \<or> onlyForSni then
            (if isRead then client_hello_step p past onlyForSni (uint16_be p9 p10) s
             else server_hello_step p past (uint16_be p9 p10) s)
          else Some (pass_hello s) })"

text \<open>A later packet of a conn whose first one was a hello.\<close>

definition special_command :: "bytes \<Rightarrow> bool \<Rightarrow> ComSniff \<Rightarrow> ComSniff option option" where
  "special_command p isRead cd =
     (if \<not> isRead then
        Some (if Isclient cd \<and> length (SpecialCommandBytes cd) \<le> length p
                \<and> SpecialCommandBytes cd = take (length (SpecialCommandBytes cd)) p
              then Some (cd\<lparr>IsTls := True\<rparr>) else None)
      else if \<not> Isclient cd then
        (case Auther cd of
           None \<Rightarrow> None
         | Some (ubl, auth) \<Rightarrow>
             Some (if ubl \<le> length p \<and> auth (take ubl p)
                   then Some (cd\<lparr>SpecialCommandBytes := take ubl p, IsTls := True\<rparr>) else None))
      else Some None)"

definition tls_record_head :: "bytes \<Rightarrow> bool option" where
  "tls_record_head p =
     do {
       p0 \<leftarrow> byte_at p 0;
       p1 \<leftarrow> byte_at p 1;
       p2 \<leftarrow> byte_at p 2;
       Some (p0 = 23 \<and> p1 = 3 \<and> p2 > 0 \<and> p2 < 4) }"

definition detect_later :: "bool \<Rightarrow> bytes \<Rightarrow> bool \<Rightarrow> sniffer \<Rightarrow> sniffer option" where
  "detect_later onlyTest p isRead s =
     (case s of (cd, peer) \<Rightarrow>
        do {
          cmd \<leftarrow> (if onlyTest then Some None else special_command p isRead cd);
          (case cmd of
             Some cd' \<Rightarrow> Some (cd', peer)
           | None \<Rightarrow>
               do {
                 h \<leftarrow> tls_record_head p;
                 Some (if h \<and> \<not> onlyTest then (cd\<lparr>IsTls := True\<rparr>, peer) else s) }) })"

definition CommonDetect :: "bool \<Rightarrow> bytes \<Rightarrow> bytes \<Rightarrow> bool \<Rightarrow> bool \<Rightarrow> sniffer \<Rightarrow> sniffer option" where
  "CommonDetect onlyTest p past isRead onlyForSni s =
     do {
       p0 \<leftarrow> byte_at p 0;
       s' \<leftarrow> (case s of (cd, peer) \<Rightarrow>
                if packetCount cd = 0 then detect_first p past isRead onlyForSni s
                else if \<not> helloPacketPass cd then Some (cd\<lparr>DefinitelyNotTLS := True\<rparr>, peer)
                else detect_later onlyTest p isRead s);
       Some (incr s') }"

text \<open>\<open>closed\<close>: the read reported an error whose text is that of a closed connection or EOF.\<close>

definition commonFilterStep :: "bool \<Rightarrow> bool \<Rightarrow> bytes \<Rightarrow> bytes \<Rightarrow> bool \<Rightarrow> sniffer \<Rightarrow> sniffer option" where
  "commonFilterStep onlyTest closed p past isRead s =
     (case s of (cd, peer) \<Rightarrow>
        if \<not> onlyTest \<and> (DefinitelyNotTLS cd \<or> IsTls cd) then Some s
        else if closed then Some s
        else if \<not> onlyTest \<and> packetCount cd > 8 then Some (not_tls (-1) cd, peer)
        else if length p > 3 then CommonDetect onlyTest p past isRead False s
        else Some s)"

section \<open>The conn\<close>

record SniffConn =
  W :: ComSniff
  R :: ComSniff

definition new_ComSniff :: "bool \<Rightarrow> bool \<Rightarrow> ComSniff" where
  "new_ComSniff isclient is_secure =
     \<lparr>IsTls = False, DefinitelyNotTLS = False, SpecialCommandBytes = [], Auther = None,
      SniffedServerName = [], ShouldSniffAlpn = False, SniffedAlpnList = [], Isclient = isclient,
      Is_secure = is_secure, packetCount = 0, helloPacketPass = False, handshakeVer = 0,
      handshakeFailReason = 0, CantBeTLS13 = False\<rparr>"

definition NewSniffConn :: "bool \<Rightarrow> bool \<Rightarrow> ComSniff option \<Rightarrow> SniffConn" where
  "NewSniffConn isclient is_secure sniffedFirstPart =
     \<lparr>W = new_ComSniff isclient is_secure,
      R = (case sniffedFirstPart of
             None \<Rightarrow> new_ComSniff isclient is_secure
           | Some cs \<Rightarrow> cs\<lparr>Isclient := isclient, Is_secure := is_secure\<rparr>)\<rparr>"

text \<open>\<open>DetectReader.Read\<close>, given what the inner reader delivered: the packet \<open>p\<close>, the rest of the
  buffer, and whether it reported the end.\<close>

definition DetectReader_Read :: "bool \<Rightarrow> bool \<Rightarrow> bytes \<Rightarrow> bytes \<Rightarrow> SniffConn \<Rightarrow> SniffConn option" where
  "DetectReader_Read onlyTest closed p past c =
     do {
       (r, w) \<leftarrow> commonFilterStep onlyTest closed p past True (R c, Some (W c));
       w \<leftarrow> w;
       Some (c\<lparr>R := r, W := w\<rparr>) }"

text \<open>\<open>DetectLazyWriter.Write\<close>: the conn afterwards, what is passed to the inner writer, and the
  count that is reported when that write succeeds.\<close>

definition DetectLazyWriter_Write ::
    "bool \<Rightarrow> bytes \<Rightarrow> bytes \<Rightarrow> SniffConn \<Rightarrow> (SniffConn \<times> bytes list \<times> nat) option" where
  "DetectLazyWriter_Write onlyTest p past c =
     (if IsTls (W c) then Some (c, [p], length p)
      else do {
        (w, r) \<leftarrow> commonFilterStep onlyTest False p past False (W c, Some (R c));
        r \<leftarrow> r;
        c \<leftarrow> Some (c\<lparr>W := w, R := r\<rparr>);
        Some (if IsTls w then
                (if Isclient w then (c, [], 0) else (c, [SpecialCommandBytes w], length p))
              else (c, [p], length p)) })"

section \<open>Records\<close>

definition GetTlsRecordNextIndex :: "bytes \<Rightarrow> int" where
  "GetTlsRecordNextIndex p =
     (if length p < 5 then -1 else 5 + int_add_be (p ! 3) (p ! 4))"

text \<open>\<open>GetLastTlsRecordTailIndex\<close>: the loop, with \<open>(last_cursor, count)\<close> as it goes on.\<close>

function tail_loop :: "bytes \<Rightarrow> nat \<Rightarrow> nat \<Rightarrow> nat \<Rightarrow> nat \<times> nat" where
  "tail_loop p cursor last_cursor count =
     (if cursor > length p then (last_cursor, count)
      else
        let index = GetTlsRecordNextIndex (drop cursor p); count = count + 1 in
        if last_cursor > length p then (last_cursor, count)
        else if index < 0 then (last_cursor, count)
        else tail_loop p (cursor + nat index) cursor count)"
  by pat_completeness auto
termination
  by (relation "measure (\<lambda>(p, cursor, _, _). Suc (length p) - cursor)")
    (auto simp: GetTlsRecordNextIndex_def int_add_be_eq nat_add_distrib split: if_splits)

declare tail_loop.simps [simp del]

definition GetLastTlsRecordTailIndex :: "bytes \<Rightarrow> nat \<times> nat" where
  "GetLastTlsRecordTailIndex p = tail_loop p 0 0 0"

record Recorder =
  Buflist :: "bytes list"
  writeCount :: nat
  stop :: bool

definition NewRecorder :: Recorder where
  "NewRecorder = \<lparr>Buflist = [], writeCount = 0, stop = False\<rparr>"

definition GetLast :: "Recorder \<Rightarrow> bytes option" where
  "GetLast wr = (if Buflist wr = [] then None else Some (Buflist wr ! (length (Buflist wr) - 1)))"

definition StopRecord :: "Recorder \<Rightarrow> Recorder" where "StopRecord wr = wr\<lparr>stop := True\<rparr>"
definition StartRecord :: "Recorder \<Rightarrow> Recorder" where "StartRecord wr = wr\<lparr>stop := False\<rparr>"
definition ReleaseBuffers :: "Recorder \<Rightarrow> Recorder" where "ReleaseBuffers wr = wr\<lparr>Buflist := []\<rparr>"

definition Recorder_Write :: "bytes \<Rightarrow> Recorder \<Rightarrow> Recorder" where
  "Recorder_Write p wr =
     (if stop wr then wr
      else
        let wr = (if writeCount wr > 0 then wr\<lparr>Buflist := Buflist wr @ [p]\<rparr> else wr);
            wr = wr\<lparr>writeCount := writeCount wr + 1\<rparr>
        in if writeCount wr > 50 then StopRecord wr else wr)"

section \<open>The sniffer as a state machine\<close>

text \<open>What lazy encryption tells the sniffers before the relay starts: a client the command
  to expect, a server how to recognise one (\<open>tryTlsLazyRawRelay\<close>).\<close>

definition lazy_start :: "bool \<Rightarrow> bytes \<Rightarrow> nat \<times> (bytes \<Rightarrow> bool) \<Rightarrow> SniffConn \<Rightarrow> SniffConn" where
  "lazy_start isclient sc auther c =
     (if isclient then c\<lparr>R := (R c)\<lparr>SpecialCommandBytes := sc\<rparr>, W := (W c)\<lparr>SpecialCommandBytes := sc\<rparr>\<rparr>
      else c\<lparr>R := (R c)\<lparr>Auther := Some auther\<rparr>\<rparr>)"

text \<open>The two loops of the relay interleave: a packet read, or a packet to write.\<close>

datatype sniff_event = ReadEv bool bytes bytes | WriteEv bytes bytes

fun sniff_step :: "bool \<Rightarrow> sniff_event \<Rightarrow> SniffConn \<Rightarrow> SniffConn option" where
  "sniff_step onlyTest (ReadEv closed p past) c = DetectReader_Read onlyTest closed p past c"
| "sniff_step onlyTest (WriteEv p past) c = map_option fst (DetectLazyWriter_Write onlyTest p past c)"

fun sniff_run :: "bool \<Rightarrow> sniff_event list \<Rightarrow> SniffConn \<Rightarrow> SniffConn option" where
  "sniff_run onlyTest [] c = Some c"
| "sniff_run onlyTest (e # es) c = do { c \<leftarrow> sniff_step onlyTest e c; sniff_run onlyTest es c }"

text \<open>The packets the detection gets to see, per direction.\<close>

fun seen :: "bool \<Rightarrow> sniff_event list \<Rightarrow> bytes list" where
  "seen isRead [] = []"
| "seen isRead (ReadEv closed p past # es) =
     (if isRead \<and> \<not> closed \<and> length p > 3 then p # seen isRead es else seen isRead es)"
| "seen isRead (WriteEv p past # es) =
     (if \<not> isRead \<and> length p > 3 then p # seen isRead es else seen isRead es)"

definition settled :: "ComSniff \<Rightarrow> bool" where
  "settled cd \<longleftrightarrow> IsTls cd \<or> DefinitelyNotTLS cd"

text \<open>The reader's or the writer's sniffer of a conn.\<close>

definition side :: "bool \<Rightarrow> SniffConn \<Rightarrow> ComSniff" where
  "side isRead c = (if isRead then R c else W c)"

text \<open>Both kinds of step are one \<open>commonFilterStep\<close> on the side of the event. A writer that has
  its verdict is not even asked.\<close>

fun ev_read :: "sniff_event \<Rightarrow> bool" where
  "ev_read (ReadEv closed p past) = True" | "ev_read (WriteEv p past) = False"

fun ev_filter :: "sniff_event \<Rightarrow> sniffer \<Rightarrow> sniffer option" where
  "ev_filter (ReadEv closed p past) s = commonFilterStep False closed p past True s"
| "ev_filter (WriteEv p past) s = commonFilterStep False False p past False s"

lemma filter_settled: "settled cd \<Longrightarrow> commonFilterStep False closed p past isRead (cd, peer) = Some (cd, peer)"
  by (auto simp: commonFilterStep_def settled_def)

lemma sniff_step_Some:
  "sniff_step False e c = Some c' \<longleftrightarrow>
     ev_filter e (side (ev_read e) c, Some (side (\<not> ev_read e) c))
       = Some (side (ev_read e) c', Some (side (\<not> ev_read e) c'))"
proof (cases e)
  case (ReadEv closed p past)
  then show ?thesis
    by (cases c; cases c') (auto simp: DetectReader_Read_def side_def split: bind_splits)
next
  case (WriteEv p past)
  show ?thesis
  proof (cases "IsTls (W c)")
    case True
    then have "commonFilterStep False False p past False (W c, Some (R c)) = Some (W c, Some (R c))"
      by (simp add: filter_settled settled_def)
    with True show ?thesis
      by (cases c; cases c') (auto simp: WriteEv DetectLazyWriter_Write_def side_def)
  next
    case False
    with WriteEv show ?thesis
      by (cases c; cases c') (auto simp: DetectLazyWriter_Write_def side_def split: bind_splits if_splits)
  qed
qed

section \<open>Frames\<close>

lemma incr_sel [simp]:
  "IsTls (fst (incr s)) = IsTls (fst s)" "DefinitelyNotTLS (fst (incr s)) = DefinitelyNotTLS (fst s)"
  "helloPacketPass (fst (incr s)) = helloPacketPass (fst s)" "Isclient (fst (incr s)) = Isclient (fst s)"
  "Is_secure (fst (incr s)) = Is_secure (fst s)" "Auther (fst (incr s)) = Auther (fst s)"
  "SpecialCommandBytes (fst (incr s)) = SpecialCommandBytes (fst s)"
  "packetCount (fst (incr s)) = Suc (packetCount (fst s))" "snd (incr s) = snd s"
  by (cases s; simp add: incr_def)+

lemma pass_hello_frame [simp]: "same_conn s (pass_hello t) = same_conn s t"
  by (cases t) (simp add: pass_hello_def same_conn_def)

lemma handshakeVer_frame [simp]: "same_conn s (cd\<lparr>handshakeVer := v\<rparr>, peer) = same_conn s (cd, peer)"
  by (simp add: same_conn_def)

lemma pred_optionD: "pred_option P m \<Longrightarrow> m = Some x \<Longrightarrow> P x"
  by simp

lemma hello_step_frame:
  "pred_option (same_conn s) (client_hello_step p past sni ver s)"
  "pred_option (same_conn s) (server_hello_step p past ver s)"
  by (cases s; auto simp: client_hello_step_def server_hello_step_def split: prod.splits
      intro!: pred_option_bind pred_option_if dest!: sniff_hello_frame [THEN pred_optionD])+

lemma detect_first_frame: "pred_option (same_conn s) (detect_first p past isRead sni s)"
  using hello_step_frame [of s]
  by (cases s) (auto simp: detect_first_def intro!: pred_option_bind)

text \<open>What the first packet must look like to pass.\<close>

definition hello_head :: "bool \<Rightarrow> bytes \<Rightarrow> bool" where
  "hello_head isRead p \<longleftrightarrow> 11 \<le> length p \<and> p ! 0 = 22 \<and> p ! 5 = (if isRead then 1 else 2)
     \<and> p ! 9 = 3 \<and> \<not> (p ! 10 = 0 \<or> 4 < p ! 10)"

lemma byte_at_0: "n < length p \<Longrightarrow> byte_at p 0 = Some (p ! 0)"
  by (rule byte_at_Some) (erule le_less_trans [OF le0])

lemma detect_first_head:
  assumes "\<not> hello_head isRead p"
  shows "\<exists>r. detect_first p past isRead sni (cd, peer) = Some (not_tls r cd, peer)"
proof (cases "length p < 11")
  case True
  then show ?thesis by (auto simp: detect_first_def)
next
  case False
  then have b: "byte_at p 0 = Some (p ! 0)" by (intro byte_at_0 [of 10]) simp
  consider "p ! 0 \<noteq> 22" | "p ! 0 = 22" "p ! 9 \<noteq> 3" | "p ! 0 = 22" "p ! 9 = 3" "p ! 10 = 0 \<or> 4 < p ! 10"
    | "p ! 0 = 22" "p ! 9 = 3" "\<not> (p ! 10 = 0 \<or> 4 < p ! 10)" "p ! 5 \<noteq> (if isRead then 1 else 2)"
    using assms False by (auto simp: hello_head_def)
  then show ?thesis
  proof cases
    case 1
    with False b show ?thesis by (auto simp: detect_first_def)
  next
    case 2
    with False b show ?thesis by (auto simp: detect_first_def)
  next
    case 3
    with False b have "detect_first p past isRead sni (cd, peer) = Some (not_tls 5 cd, peer)"
      by (simp add: detect_first_def)
    then show ?thesis by blast
  next
    case 4
    with False b have "detect_first p past isRead sni (cd, peer) = Some (not_tls 3 cd, peer)"
      by (simp add: detect_first_def)
    then show ?thesis by blast
  qed
qed

lemma detect_first_plain:
  assumes "hello_head isRead p" "\<not> (Is_secure cd \<and> Isclient cd)"
  shows "detect_first p past isRead False (cd, peer) = Some (pass_hello (cd, peer))"
proof -
  have "\<not> length p < 11" "\<not> (p ! 10 = 0 \<or> p ! 10 > 4)"
    using assms(1) by (auto simp: hello_head_def)
  moreover from this have "byte_at p 0 = Some (p ! 0)" by (intro byte_at_0 [of 10]) simp
  ultimately show ?thesis
    using assms by (auto simp: detect_first_def hello_head_def)
qed

text \<open>What a later packet must look like.\<close>

definition data_record :: "bytes \<Rightarrow> bool" where
  "data_record p \<longleftrightarrow> p ! 0 = 23 \<and> p ! 1 = 3 \<and> 0 < p ! 2 \<and> p ! 2 < 4"

definition command_packet :: "bool \<Rightarrow> ComSniff \<Rightarrow> bytes \<Rightarrow> bool" where
  "command_packet isRead cd p \<longleftrightarrow>
     (if isRead then \<not> Isclient cd \<and> (case Auther cd of None \<Rightarrow> False
                          | Some (ubl, auth) \<Rightarrow> ubl \<le> length p \<and> auth (take ubl p))
      else Isclient cd \<and> take (length (SpecialCommandBytes cd)) p = SpecialCommandBytes cd)"

lemma prefix_test: "(length xs \<le> length p \<and> xs = take (length xs) p) = (take (length xs) p = xs)"
proof
  assume a: "take (length xs) p = xs"
  then have "length (take (length xs) p) = length xs" by (rule arg_cong)
  then have "length xs \<le> length p" by simp
  with a show "length xs \<le> length p \<and> xs = take (length xs) p" by (simp only: a)
qed (erule conjE, erule sym)

lemma detect_later_cases:
  assumes "3 < length p" "isRead \<Longrightarrow> \<not> Isclient cd \<Longrightarrow> Auther cd \<noteq> None"
  shows "\<exists>sc. detect_later False p isRead (cd, peer) =
       Some (cd\<lparr>SpecialCommandBytes := sc, IsTls := (IsTls cd \<or> command_packet isRead cd p \<or> data_record p)\<rparr>, peer)
     \<and> (\<not> isRead \<longrightarrow> sc = SpecialCommandBytes cd)"
proof -
  have "tls_record_head p = Some (data_record p)"
    using assms(1) by (simp add: tls_record_head_def data_record_def byte_at_0 [OF assms(1)])
  then have eq: "detect_later False p isRead (cd, peer) =
      map_option (\<lambda>cmd. case cmd of Some cd' \<Rightarrow> (cd', peer)
        | None \<Rightarrow> (if data_record p then (cd\<lparr>IsTls := True\<rparr>, peer) else (cd, peer))) (special_command p isRead cd)"
    by (cases "special_command p isRead cd") (simp_all add: detect_later_def split: option.splits)
  have "(length (SpecialCommandBytes cd) \<le> length p \<and> SpecialCommandBytes cd = take (length (SpecialCommandBytes cd)) p)
      = (take (length (SpecialCommandBytes cd)) p = SpecialCommandBytes cd)"
    by (rule prefix_test)
  then have cmd: "special_command p isRead cd =
      Some (if command_packet isRead cd p then Some (cd\<lparr>IsTls := True\<rparr>) else None)" if "\<not> isRead"
    unfolding special_command_def command_packet_def using that by (simp only: if_True if_False not_False_eq_True)
  have cmd': "\<exists>sc. special_command p isRead cd =
      Some (if command_packet isRead cd p then Some (cd\<lparr>SpecialCommandBytes := sc, IsTls := True\<rparr>) else None)"
    if isRead
    using that assms(2) by (cases "Auther cd") (auto simp: special_command_def command_packet_def split: if_splits)
  show ?thesis
  proof (cases isRead)
    case True
    with cmd' obtain sc where "special_command p isRead cd =
        Some (if command_packet isRead cd p then Some (cd\<lparr>SpecialCommandBytes := sc, IsTls := True\<rparr>) else None)" by blast
    with True show ?thesis
      unfolding eq by (auto intro: exI [of _ sc] exI [of _ "SpecialCommandBytes cd"])
  next
    case False
    then show ?thesis unfolding eq cmd [OF False] by (auto intro: exI [of _ "SpecialCommandBytes cd"])
  qed
qed

section \<open>Invariant of one direction\<close>

text \<open>After the packets \<open>ps\<close> of a direction were seen. The clauses say, in turn: nothing is known
  before the first packet; a sniffer without a verdict has counted every packet, at most nine;
  the two verdicts exclude each other; a passed hello was the first packet; TLS was concluded from
  a later packet.\<close>

definition side_inv :: "bool \<Rightarrow> bytes list \<Rightarrow> ComSniff \<Rightarrow> bool" where
  "side_inv isRead ps cd \<longleftrightarrow>
     (ps = [] \<longrightarrow> packetCount cd = 0 \<and> \<not> settled cd \<and> \<not> helloPacketPass cd)
     \<and> (settled cd \<or> packetCount cd = length ps \<and> length ps \<le> 9)
     \<and> \<not> (IsTls cd \<and> DefinitelyNotTLS cd)
     \<and> (helloPacketPass cd \<longrightarrow> ps \<noteq> [] \<and> hello_head isRead (hd ps))
     \<and> (IsTls cd \<longrightarrow> ps \<noteq> [] \<and> hello_head isRead (hd ps)
          \<and> (\<exists>q\<in>set (tl ps). data_record q \<or> command_packet isRead cd q))"

definition same_setup :: "bool \<Rightarrow> ComSniff \<Rightarrow> ComSniff \<Rightarrow> bool" where
  "same_setup isRead a b \<longleftrightarrow> Isclient b = Isclient a \<and> Is_secure b = Is_secure a \<and> Auther b = Auther a
     \<and> (\<not> isRead \<longrightarrow> SpecialCommandBytes b = SpecialCommandBytes a)"

lemma same_setup_refl [simp]: "same_setup isRead a a"
  by (simp add: same_setup_def)

lemma same_setup_trans: "same_setup d a b \<Longrightarrow> same_setup d b c \<Longrightarrow> same_setup d a c"
  by (simp add: same_setup_def)

lemma same_side_setup: "same_side a b \<Longrightarrow> same_setup isRead a b"
  by (simp add: same_side_def same_setup_def)

lemma command_packet_setup: "same_setup isRead a b \<Longrightarrow> command_packet isRead b = command_packet isRead a"
  by (rule ext) (auto simp: command_packet_def same_setup_def)

lemma touched_inv: "touched (Some a) (Some b) \<Longrightarrow> side_inv d ps b = side_inv d ps a \<and> same_setup d a b"
proof -
  have "command_packet d (a\<lparr>CantBeTLS13 := True\<rparr>) = command_packet d a"
    by (rule command_packet_setup) (simp add: same_setup_def)
  then show "touched (Some a) (Some b) \<Longrightarrow> ?thesis"
    unfolding touched_def by (elim disjE) (simp_all add: side_inv_def settled_def same_setup_def)
qed

definition step_ok :: "bool \<Rightarrow> bytes list \<Rightarrow> sniffer \<Rightarrow> sniffer \<Rightarrow> bool" where
  "step_ok isRead ps s t \<longleftrightarrow> side_inv isRead ps (fst t) \<and> touched (snd s) (snd t) \<and> same_setup isRead (fst s) (fst t)"

lemma detect_first_inv:
  assumes "side_inv isRead [] cd"
  shows "pred_option (\<lambda>t. step_ok isRead [p] (cd, peer) (incr t)) (detect_first p past isRead sni (cd, peer))"
proof (cases "hello_head isRead p")
  case True
  have "step_ok isRead [p] (cd, peer) (incr t)" if "same_conn (cd, peer) t" for t
    using that assms True
    by (auto simp: step_ok_def side_inv_def same_conn_def same_side_def settled_def same_setup_def)
  with detect_first_frame [of "(cd, peer)" p past isRead sni] show ?thesis
    by (cases "detect_first p past isRead sni (cd, peer)") auto
next
  case False
  then obtain r where "detect_first p past isRead sni (cd, peer) = Some (not_tls r cd, peer)"
    using detect_first_head by blast
  with assms show ?thesis
    by (simp add: step_ok_def side_inv_def settled_def incr_def not_tls_def same_setup_def touched_def)
qed

lemma detect_later_inv:
  assumes "side_inv isRead ps cd" "\<not> settled cd" "helloPacketPass cd" "3 < length p" "length ps \<le> 8"
  shows "pred_option (\<lambda>t. step_ok isRead (ps @ [p]) (cd, peer) (incr t)) (detect_later False p isRead (cd, peer))"
proof (cases "isRead \<and> \<not> Isclient cd \<and> Auther cd = None")
  case True
  then show ?thesis by (simp add: detect_later_def special_command_def)
next
  case False
  with detect_later_cases [of p isRead cd peer] assms(4) obtain sc where
    d: "detect_later False p isRead (cd, peer) = Some (cd\<lparr>SpecialCommandBytes := sc,
        IsTls := (IsTls cd \<or> command_packet isRead cd p \<or> data_record p)\<rparr>, peer)"
    and sc: "\<not> isRead \<longrightarrow> sc = SpecialCommandBytes cd" by auto
  have c: "command_packet isRead (cd\<lparr>SpecialCommandBytes := sc, IsTls := i, packetCount := n\<rparr>)
      = command_packet isRead cd" for i n
    using sc by (intro command_packet_setup) (simp add: same_setup_def)
  have "ps \<noteq> []" using assms(1,3) by (auto simp: side_inv_def)
  then show ?thesis
    using assms sc
    by (auto simp: d step_ok_def side_inv_def settled_def incr_def c same_setup_def touched_def)
qed

lemma filter_inv:
  assumes "side_inv isRead ps cd"
  shows "pred_option (step_ok isRead (if \<not> closed \<and> length p > 3 then ps @ [p] else ps) (cd, peer))
    (commonFilterStep False closed p past isRead (cd, peer))"
proof (cases "settled cd \<or> closed \<or> packetCount cd > 8 \<or> \<not> length p > 3")
  case True
  have same: "step_ok isRead (if \<not> closed \<and> length p > 3 then ps @ [p] else ps) (cd, peer) (cd, peer)"
    if "settled cd \<or> closed \<or> \<not> length p > 3"
    using that assms by (auto simp: step_ok_def side_inv_def touched_def)
  have "step_ok isRead (ps @ [p]) (cd, peer) (not_tls (- 1) cd, peer)"
    "step_ok isRead ps (cd, peer) (not_tls (- 1) cd, peer)" if "8 < packetCount cd" "\<not> settled cd"
    using that assms
    by (auto simp: step_ok_def side_inv_def settled_def touched_def same_setup_def not_tls_def)
  with True same show ?thesis
    unfolding commonFilterStep_def settled_def by (auto simp del: length_greater_0_conv)
next
  case False
  then have p: "3 < length p" and n: "packetCount cd = length ps" "length ps \<le> 8" "\<not> settled cd"
    using assms by (auto simp: side_inv_def)
  then have f: "commonFilterStep False closed p past isRead (cd, peer) = CommonDetect False p past isRead False (cd, peer)"
    using False by (auto simp: commonFilterStep_def settled_def)
  have "pred_option (\<lambda>t. step_ok isRead (ps @ [p]) (cd, peer) (incr t))
      (if packetCount cd = 0 then detect_first p past isRead False (cd, peer)
       else if \<not> helloPacketPass cd then Some (cd\<lparr>DefinitelyNotTLS := True\<rparr>, peer)
       else detect_later False p isRead (cd, peer))"
  proof (cases "packetCount cd = 0 \<or> helloPacketPass cd")
    case True
    then show ?thesis
      using detect_first_inv [of isRead cd p peer past False] detect_later_inv [OF assms n(3) _ p n(2)] assms n(1)
      by (cases "packetCount cd = 0") simp_all
  next
    case False
    moreover have "\<not> IsTls cd" "length ps \<noteq> 0" using n False by (auto simp: settled_def)
    ultimately have "step_ok isRead (ps @ [p]) (cd, peer) (incr (cd\<lparr>DefinitelyNotTLS := True\<rparr>, peer))"
      by (simp add: step_ok_def side_inv_def incr_def settled_def same_setup_def touched_def)
    with False show ?thesis by simp
  qed
  moreover have "commonFilterStep False closed p past isRead (cd, peer) = map_option incr
      (if packetCount cd = 0 then detect_first p past isRead False (cd, peer)
       else if \<not> helloPacketPass cd then Some (cd\<lparr>DefinitelyNotTLS := True\<rparr>, peer)
       else detect_later False p isRead (cd, peer))"
    unfolding f CommonDetect_def byte_at_0 [OF p] by (simp add: map_conv_bind_option comp_def)
  ultimately show ?thesis
    using False p by (simp add: option.pred_map comp_def)
qed

section \<open>Runs\<close>

definition conn_inv :: "sniff_event list \<Rightarrow> SniffConn \<Rightarrow> SniffConn \<Rightarrow> bool" where
  "conn_inv es c c' \<longleftrightarrow> (\<forall>d. side_inv d (seen d es) (side d c') \<and> same_setup d (side d c) (side d c'))"

lemma seen_snoc: "seen d (es @ [e]) = seen d es @ seen d [e]"
  by (induction d es rule: seen.induct) simp_all

lemma ev_filter_ok:
  assumes "conn_inv es c c'"
  shows "pred_option (step_ok (ev_read e) (seen (ev_read e) (es @ [e])) (side (ev_read e) c', peer))
    (ev_filter e (side (ev_read e) c', peer))"
proof (cases e)
  case (ReadEv closed p past)
  have "side_inv True (seen True es) (side True c')" using assms by (simp add: conn_inv_def)
  from filter_inv [OF this, of closed p peer past] ReadEv show ?thesis
    by (cases "\<not> closed \<and> length p > 3") (auto simp: seen_snoc)
next
  case (WriteEv p past)
  have "side_inv False (seen False es) (side False c')" using assms by (simp add: conn_inv_def)
  from filter_inv [OF this, of False p peer past] WriteEv show ?thesis
    by (cases "length p > 3") (auto simp: seen_snoc)
qed

lemma conn_inv_step:
  assumes "conn_inv es c c'" "sniff_step False e c' = Some c''"
  shows "conn_inv (es @ [e]) c c''"
proof -
  define d where "d = ev_read e"
  have "pred_option (step_ok d (seen d (es @ [e])) (side d c', Some (side (\<not> d) c')))
      (ev_filter e (side d c', Some (side (\<not> d) c')))"
    unfolding d_def by (rule ev_filter_ok [OF assms(1)])
  with assms(2) have "step_ok d (seen d (es @ [e])) (side d c', Some (side (\<not> d) c')) (side d c'', Some (side (\<not> d) c''))"
    by (simp add: sniff_step_Some d_def)
  moreover have "seen (\<not> d) (es @ [e]) = seen (\<not> d) es"
    by (cases e) (simp_all add: d_def seen_snoc)
  moreover have "(\<forall>b. P b) \<longleftrightarrow> P d \<and> P (\<not> d)" for P
    by (cases d) (simp_all add: all_bool_eq conj_commute)
  ultimately show ?thesis
    using assms(1) touched_inv [of "side (\<not> d) c'" "side (\<not> d) c''" "\<not> d"]
    by (auto simp: conn_inv_def step_ok_def intro: same_setup_trans)
qed

lemma conn_inv_run:
  "conn_inv es c c' \<Longrightarrow> sniff_run False es' c' = Some c'' \<Longrightarrow> conn_inv (es @ es') c c''"
proof (induction es' arbitrary: es c')
  case (Cons e es')
  then obtain c1 where "sniff_step False e c' = Some c1" "sniff_run False es' c1 = Some c''"
    by (auto split: bind_splits)
  with Cons show ?case using conn_inv_step [of es c c' e c1] by (metis append.assoc append_Cons append_Nil)
qed simp

definition relay_start :: "bool \<Rightarrow> bool \<Rightarrow> bytes \<Rightarrow> nat \<times> (bytes \<Rightarrow> bool) \<Rightarrow> SniffConn" where
  "relay_start isclient secure sc auther = lazy_start isclient sc auther (NewSniffConn isclient secure None)"

lemma side_start [simp]:
  "Isclient (side d (relay_start ic sec sc au)) = ic" "Is_secure (side d (relay_start ic sec sc au)) = sec"
  "\<not> ic \<Longrightarrow> Auther (side True (relay_start ic sec sc au)) = Some au"
  "ic \<Longrightarrow> SpecialCommandBytes (side d (relay_start ic sec sc au)) = sc"
  by (simp_all add: relay_start_def lazy_start_def NewSniffConn_def new_ComSniff_def side_def)

lemma conn_inv_start: "conn_inv [] (relay_start ic sec sc au) (relay_start ic sec sc au)"
  by (simp add: conn_inv_def side_inv_def settled_def relay_start_def lazy_start_def NewSniffConn_def
      new_ComSniff_def side_def)

lemma relay_inv:
  "sniff_run False es (relay_start ic sec sc au) = Some c' \<Longrightarrow> conn_inv es (relay_start ic sec sc au) c'"
  using conn_inv_run [OF conn_inv_start] by fastforce

text \<open>Without the client's secure mode nothing panics.\<close>

lemma filter_total:
  assumes "\<not> (Is_secure cd \<and> Isclient cd)" "isRead \<Longrightarrow> \<not> Isclient cd \<Longrightarrow> Auther cd \<noteq> None"
  shows "commonFilterStep False closed p past isRead (cd, peer) \<noteq> None"
proof (cases "length p > 3")
  case True
  have "detect_later False p isRead (cd, peer) \<noteq> None"
    using detect_later_cases [OF True, of isRead cd peer] assms(2) by auto
  moreover have "detect_first p past isRead False (cd, peer) \<noteq> None"
    using detect_first_head [of isRead p past False cd peer] detect_first_plain [OF _ assms(1)]
    by (cases "hello_head isRead p") auto
  ultimately show ?thesis
    by (auto simp: commonFilterStep_def CommonDetect_def byte_at_0 [OF True])
qed (simp add: commonFilterStep_def)

lemma sniff_step_total:
  assumes "\<not> (isclient \<and> secure)" "conn_inv es (relay_start isclient secure sc au) c"
  shows "sniff_step False e c \<noteq> None"
proof -
  define d where "d = ev_read e"
  have "same_setup d (side d (relay_start isclient secure sc au)) (side d c)"
    using assms(2) by (simp add: conn_inv_def)
  then have "\<not> (Is_secure (side d c) \<and> Isclient (side d c))"
    and "d \<Longrightarrow> \<not> Isclient (side d c) \<Longrightarrow> Auther (side d c) \<noteq> None"
    using assms(1) by (auto simp: same_setup_def)
  then have "ev_filter e (side d c, Some (side (\<not> d) c)) \<noteq> None"
    using filter_total [of "side d c" d] by (cases e) (simp_all add: d_def)
  then obtain t where t: "ev_filter e (side d c, Some (side (\<not> d) c)) = Some t" by blast
  have "step_ok d (seen d (es @ [e])) (side d c, Some (side (\<not> d) c)) t"
    using ev_filter_ok [OF assms(2), of e] t by (auto simp: d_def dest: pred_optionD)
  then obtain a b where "t = (a, Some b)"
    by (cases t) (auto simp: step_ok_def touched_def)
  with t have "sniff_step False e c = Some (if d then \<lparr>W = b, R = a\<rparr> else \<lparr>W = a, R = b\<rparr>)"
    by (simp add: sniff_step_Some d_def side_def)
  then show ?thesis by simp
qed

lemma sniff_run_total:
  "\<not> (isclient \<and> secure) \<Longrightarrow> conn_inv es (relay_start isclient secure sc au) c \<Longrightarrow> sniff_run False es' c \<noteq> None"
proof (induction es' arbitrary: es c)
  case (Cons e es')
  then obtain c1 where c1: "sniff_step False e c = Some c1" using sniff_step_total by blast
  with Cons show ?case using conn_inv_step [OF Cons.prems(2) c1] by simp
qed simp


text \<open>C16: TLS is concluded only from evidence: the first packet of the direction was a hello of the
  right kind, and a later one is an application data record, or starts with the command of lazy
  encryption (which a client looks for in what it writes, a server in what it reads).\<close>

theorem sniff_sound:
  assumes "sniff_run False es (relay_start isclient secure sc auther) = Some c'" "IsTls (side d c')"
  shows "\<exists>p0 qs q. seen d es = p0 # qs \<and> hello_head d p0 \<and> q \<in> set qs
    \<and> (data_record q
       \<or> (if d then \<not> isclient \<and> fst auther \<le> length q \<and> snd auther (take (fst auther) q)
          else isclient \<and> take (length sc) q = sc))"
proof -
  have i: "side_inv d (seen d es) (side d c')"
    and "same_setup d (side d (relay_start isclient secure sc auther)) (side d c')"
    using relay_inv [OF assms(1)] by (simp_all add: conn_inv_def)
  then have "command_packet d (side d c') q \<longleftrightarrow>
      (if d then \<not> isclient \<and> fst auther \<le> length q \<and> snd auther (take (fst auther) q)
       else isclient \<and> take (length sc) q = sc)" for q
    by (cases auther) (auto simp: command_packet_setup command_packet_def)
  then show ?thesis
    using i assms(2) by (cases "seen d es") (auto simp: side_inv_def)
qed

text \<open>A verdict is one of the two, and it is final.\<close>

theorem sniff_verdict_final:
  assumes "sniff_run False es (relay_start isclient secure sc auther) = Some c'"
    and "sniff_run False es' c' = Some c''" and "settled (side d c')"
  shows "IsTls (side d c') \<noteq> DefinitelyNotTLS (side d c')
    \<and> IsTls (side d c'') = IsTls (side d c') \<and> DefinitelyNotTLS (side d c'') = DefinitelyNotTLS (side d c')"
proof
  show "IsTls (side d c') \<noteq> DefinitelyNotTLS (side d c')"
  proof -
    have "side_inv d (seen d es) (side d c')" using relay_inv [OF assms(1)] by (simp add: conn_inv_def)
    then have "\<not> (IsTls (side d c') \<and> DefinitelyNotTLS (side d c'))" unfolding side_inv_def by blast
    with assms(3) show ?thesis unfolding settled_def by blast
  qed
  show "IsTls (side d c'') = IsTls (side d c') \<and> DefinitelyNotTLS (side d c'') = DefinitelyNotTLS (side d c')"
    using relay_inv [OF assms(1)] assms(2,3)
  proof (induction es' arbitrary: c' es)
    case (Cons e es')
    then obtain c1 where c1: "sniff_step False e c' = Some c1" "sniff_run False es' c1 = Some c''"
      by (auto split: bind_splits)
    have inv: "conn_inv (es @ [e]) (relay_start isclient secure sc auther) c1"
      by (rule conn_inv_step [OF Cons.prems(1) c1(1)])
    have "IsTls (side d c1) = IsTls (side d c') \<and> DefinitelyNotTLS (side d c1) = DefinitelyNotTLS (side d c')"
    proof (cases "d = ev_read e")
      case True
      have "ev_filter e (side d c', Some (side (\<not> d) c')) = Some (side d c1, Some (side (\<not> d) c1))"
        using c1(1) by (simp add: sniff_step_Some True)
      moreover have "ev_filter e (side d c', Some (side (\<not> d) c')) = Some (side d c', Some (side (\<not> d) c'))"
        using Cons.prems(3) by (cases e) (simp_all add: filter_settled)
      ultimately show ?thesis by simp
    next
      case False
      then have d: "ev_read e = (\<not> d)" by (simp add: not_iff)
      have "pred_option (step_ok (\<not> d) (seen (\<not> d) (es @ [e])) (side (\<not> d) c', Some (side d c')))
          (ev_filter e (side (\<not> d) c', Some (side d c')))"
        using ev_filter_ok [OF Cons.prems(1), of e] by (simp add: d)
      moreover have "ev_filter e (side (\<not> d) c', Some (side d c')) = Some (side (\<not> d) c1, Some (side d c1))"
        using c1(1) by (simp add: sniff_step_Some d)
      ultimately have "touched (Some (side d c')) (Some (side d c1))"
        by (simp add: step_ok_def)
      then show ?thesis by (auto simp: touched_def)
    qed
    with Cons.IH [OF inv c1(2)] Cons.prems(3) show ?case by (simp add: settled_def)
  qed simp
qed

text \<open>A client whose browser opens a TLS connection through it: a hello, a key exchange in a
  handshake record, then application data.\<close>

definition sample_hello :: bytes where
  "sample_hello = [22, 3, 1, 0, 6, 1, 0, 0, 2, 3, 3]"

definition sample_events :: "sniff_event list" where
  "sample_events = [ReadEv False sample_hello [], WriteEv [22, 3, 3, 0] [], ReadEv False [22, 3, 3, 0] [],
     ReadEv False [23, 3, 3, 0] []]"

lemmas sniff_defs [model_defs] =
  relay_start_def lazy_start_def NewSniffConn_def new_ComSniff_def DetectReader_Read_def
  DetectLazyWriter_Write_def commonFilterStep_def CommonDetect_def detect_first_def detect_later_def
  special_command_def tls_record_head_def byte_at_def pass_hello_def incr_def not_tls_def side_def

lemma sample_run: "\<exists>c'. sniff_run False sample_events (relay_start True False [9, 9, 9, 9] (4, \<lambda>_. False)) = Some c'
    \<and> IsTls (side True c') \<and> DefinitelyNotTLS (side False c')"
  by (simp add: sample_events_def sample_hello_def sniff_defs)


theorem sniff_sound_witness:
  "\<exists>c' p0 qs q. sniff_run False sample_events (relay_start True False [9, 9, 9, 9] (4, \<lambda>_. False)) = Some c'
    \<and> IsTls (side True c') \<and> seen True sample_events = p0 # qs \<and> hello_head True p0 \<and> q \<in> set qs"
  using sample_run sniff_sound [of sample_events True False "[9, 9, 9, 9]" "(4, \<lambda>_. False)" _ True] by blast

theorem sniff_verdict_final_witness:
  "\<exists>c' c''. sniff_run False sample_events (relay_start True False [9, 9, 9, 9] (4, \<lambda>_. False)) = Some c'
    \<and> sniff_run False [ReadEv False [0, 0, 0, 0] []] c' = Some c''
    \<and> IsTls (side True c') \<and> IsTls (side True c'')"
proof -
  obtain c' where c: "sniff_run False sample_events (relay_start True False [9, 9, 9, 9] (4, \<lambda>_. False)) = Some c'"
    "IsTls (side True c')" using sample_run by blast
  have s: "settled (side True c')" using c(2) by (simp add: settled_def)
  have "sniff_run False [ReadEv False [0, 0, 0, 0] []] c' = Some c'"
    using c(2) by (simp add: DetectReader_Read_def commonFilterStep_def side_def)
  with c sniff_verdict_final [OF c(1) this s] show ?thesis by blast
qed

section \<open>The two ends switch together\<close>

text \<open>The download direction of tls lazy encryption, up to the verdict: what the server's
  \<open>DetectLazyWriter\<close> writes goes through the TLS tunnel, one packet per write, and is written to
  the client's, which passes it to the browser. Returned are both conns and what the browser got.\<close>

fun deliver :: "bytes list \<Rightarrow> SniffConn \<Rightarrow> (SniffConn \<times> bytes list) option" where
  "deliver [] c = Some (c, [])"
| "deliver (p # ps) c =
     do {
       (c, out, n) \<leftarrow> DetectLazyWriter_Write False p [] c;
       (c, out') \<leftarrow> deliver ps c;
       Some (c, out @ out') }"

fun lazy_download :: "bytes list \<Rightarrow> SniffConn \<Rightarrow> SniffConn \<Rightarrow> (SniffConn \<times> SniffConn \<times> bytes list) option" where
  "lazy_download [] s c = Some (s, c, [])"
| "lazy_download (p # ws) s c =
     do {
       (s, sent, n) \<leftarrow> DetectLazyWriter_Write False p [] s;
       (c, out) \<leftarrow> deliver sent c;
       if settled (W s) \<or> settled (W c) then Some (s, c, out)
       else do {
         (s, c, out') \<leftarrow> lazy_download ws s c;
         Some (s, c, out @ out') } }"

text \<open>One step of an undecided writer that is not in the client's secure mode.\<close>

lemma write_filter:
  assumes "\<not> settled cd" "\<not> (Is_secure cd \<and> Isclient cd)"
  obtains cd' where "commonFilterStep False False p past False (cd, peer) = Some (cd', peer)"
    "same_setup False cd cd'"
    "packetCount cd' = (if packetCount cd \<le> 8 \<and> 3 < length p then Suc (packetCount cd) else packetCount cd)"
    "helloPacketPass cd' = (helloPacketPass cd \<or> packetCount cd = 0 \<and> 3 < length p \<and> hello_head False p)"
    "DefinitelyNotTLS cd' = (packetCount cd > 8
       \<or> 3 < length p \<and> (if packetCount cd = 0 then \<not> hello_head False p else \<not> helloPacketPass cd))"
    "IsTls cd' = (packetCount cd \<le> 8 \<and> 3 < length p \<and> packetCount cd \<noteq> 0 \<and> helloPacketPass cd
       \<and> (command_packet False cd p \<or> data_record p))"
proof (cases "8 < packetCount cd \<or> length p \<le> 3")
  case True
  with assms show ?thesis
    by (intro that [of "if 8 < packetCount cd then not_tls (- 1) cd else cd"])
      (auto simp: commonFilterStep_def settled_def not_tls_def same_setup_def)
next
  case False
  then have p: "3 < length p" and n: "packetCount cd \<le> 8" by auto
  have f: "commonFilterStep False False p past False (cd, peer) = map_option incr
      (if packetCount cd = 0 then detect_first p past False False (cd, peer)
       else if \<not> helloPacketPass cd then Some (cd\<lparr>DefinitelyNotTLS := True\<rparr>, peer)
       else detect_later False p False (cd, peer))"
    using assms n p unfolding commonFilterStep_def CommonDetect_def byte_at_0 [OF p] settled_def
    by (simp add: map_conv_bind_option comp_def)
  consider (bad) "packetCount cd = 0" "\<not> hello_head False p" | (good) "packetCount cd = 0" "hello_head False p"
    | (no) "packetCount cd \<noteq> 0" "\<not> helloPacketPass cd" | (later) "packetCount cd \<noteq> 0" "helloPacketPass cd"
    by blast
  then show ?thesis
  proof cases
    case bad
    then obtain r where "detect_first p past False False (cd, peer) = Some (not_tls r cd, peer)"
      using detect_first_head by blast
    with bad f assms n p show ?thesis
      by (intro that [of "fst (incr (not_tls r cd, peer))"])
        (auto simp: incr_def settled_def same_setup_def not_tls_def)
  next
    case good
    with detect_first_plain [OF good(2) assms(2)] f assms n p show ?thesis
      by (intro that [of "fst (incr (pass_hello (cd, peer)))"])
        (auto simp: incr_def settled_def same_setup_def pass_hello_def)
  next
    case no
    with f assms n p show ?thesis
      by (intro that [of "fst (incr (cd\<lparr>DefinitelyNotTLS := True\<rparr>, peer))"])
        (auto simp: incr_def settled_def same_setup_def)
  next
    case later
    with detect_later_cases [OF p, of False cd peer] f assms n p show ?thesis
      by (intro that [of "fst (incr (cd\<lparr>IsTls := (command_packet False cd p \<or> data_record p)\<rparr>, peer))"])
        (auto simp: incr_def settled_def same_setup_def)
  qed
qed

text \<open>Server and client conn in step.\<close>

definition in_step :: "bytes \<Rightarrow> SniffConn \<Rightarrow> SniffConn \<Rightarrow> bool" where
  "in_step sc s c \<longleftrightarrow> \<not> settled (W s) \<and> \<not> settled (W c) \<and> \<not> Isclient (W s) \<and> Isclient (W c) \<and> \<not> Is_secure (W c)
     \<and> SpecialCommandBytes (W s) = sc \<and> SpecialCommandBytes (W c) = sc
     \<and> packetCount (W c) = packetCount (W s) \<and> helloPacketPass (W c) = helloPacketPass (W s)"

lemma plain_write:
  assumes "\<not> settled (W c)" "\<not> (Is_secure (W c) \<and> Isclient (W c))"
    "commonFilterStep False False p [] False (W c, Some (R c)) = Some (w, Some (R c))"
  shows "DetectLazyWriter_Write False p [] c = Some
    (if IsTls w then (if Isclient w then (c\<lparr>W := w\<rparr>, [], 0) else (c\<lparr>W := w\<rparr>, [SpecialCommandBytes w], length p))
     else (c\<lparr>W := w\<rparr>, [p], length p))"
  using assms by (auto simp: DetectLazyWriter_Write_def settled_def)

lemma in_step_write:
  assumes "in_step sc s c" "take (length sc) p \<noteq> sc" "3 < length sc"
  shows "\<exists>s' c' sent n out. DetectLazyWriter_Write False p [] s = Some (s', sent, n) \<and> deliver sent c = Some (c', out)
    \<and> (in_step sc s' c' \<and> out = [p]
       \<or> IsTls (W s') \<and> IsTls (W c') \<and> \<not> DefinitelyNotTLS (W s') \<and> \<not> DefinitelyNotTLS (W c') \<and> out = [] \<and> data_record p
       \<or> DefinitelyNotTLS (W s') \<and> DefinitelyNotTLS (W c') \<and> \<not> IsTls (W s') \<and> \<not> IsTls (W c') \<and> out = [p])"
proof -
  let ?w = "W s" and ?v = "W c"
  have s: "\<not> settled ?w" "\<not> (Is_secure ?w \<and> Isclient ?w)" and c: "\<not> settled ?v" "\<not> (Is_secure ?v \<and> Isclient ?v)"
    using assms(1) by (auto simp: in_step_def)
  obtain w where w: "commonFilterStep False False p [] False (?w, Some (R s)) = Some (w, Some (R s))"
    "same_setup False ?w w" "packetCount w = (if packetCount ?w \<le> 8 \<and> 3 < length p then Suc (packetCount ?w) else packetCount ?w)"
    "helloPacketPass w = (helloPacketPass ?w \<or> packetCount ?w = 0 \<and> 3 < length p \<and> hello_head False p)"
    "DefinitelyNotTLS w = (packetCount ?w > 8
       \<or> 3 < length p \<and> (if packetCount ?w = 0 then \<not> hello_head False p else \<not> helloPacketPass ?w))"
    "IsTls w = (packetCount ?w \<le> 8 \<and> 3 < length p \<and> packetCount ?w \<noteq> 0 \<and> helloPacketPass ?w
       \<and> (command_packet False ?w p \<or> data_record p))"
    by (rule write_filter [OF s])
  have cmds: "\<not> command_packet False ?w p" "\<not> command_packet False ?v p" "command_packet False ?v sc"
    using assms by (auto simp: command_packet_def in_step_def)
  have sw: "DetectLazyWriter_Write False p [] s = Some
      (if IsTls w then (s\<lparr>W := w\<rparr>, [sc], length p) else (s\<lparr>W := w\<rparr>, [p], length p))"
    using plain_write [OF s w(1)] w(2) assms(1) by (auto simp: same_setup_def in_step_def)
  define q where "q = (if IsTls w then sc else p)"
  obtain v where v: "commonFilterStep False False q [] False (?v, Some (R c)) = Some (v, Some (R c))"
    "same_setup False ?v v" "packetCount v = (if packetCount ?v \<le> 8 \<and> 3 < length q then Suc (packetCount ?v) else packetCount ?v)"
    "helloPacketPass v = (helloPacketPass ?v \<or> packetCount ?v = 0 \<and> 3 < length q \<and> hello_head False q)"
    "DefinitelyNotTLS v = (packetCount ?v > 8
       \<or> 3 < length q \<and> (if packetCount ?v = 0 then \<not> hello_head False q else \<not> helloPacketPass ?v))"
    "IsTls v = (packetCount ?v \<le> 8 \<and> 3 < length q \<and> packetCount ?v \<noteq> 0 \<and> helloPacketPass ?v
       \<and> (command_packet False ?v q \<or> data_record q))"
    by (rule write_filter [OF c])
  have cw: "DetectLazyWriter_Write False q [] c = Some
      (if IsTls v then (c\<lparr>W := v\<rparr>, [], 0) else (c\<lparr>W := v\<rparr>, [q], length q))"
    using plain_write [OF c v(1)] v(2) assms(1) by (auto simp: same_setup_def in_step_def)
  have eq: "packetCount ?v = packetCount ?w" "helloPacketPass ?v = helloPacketPass ?w"
    using assms(1) by (simp_all add: in_step_def)
  show ?thesis
  proof (cases "IsTls w")
    case True
    then have "IsTls v" "\<not> DefinitelyNotTLS v" "\<not> DefinitelyNotTLS w" "data_record p"
      using w v cmds assms(3) eq by (auto simp: q_def)
    with True sw cw show ?thesis by (simp add: q_def)
  next
    case False
    have same: "DefinitelyNotTLS v = DefinitelyNotTLS w" "IsTls v = IsTls w" "packetCount v = packetCount w"
      "helloPacketPass v = helloPacketPass w"
      using False w v cmds eq by (auto simp: q_def)
    with False sw cw have r: "DetectLazyWriter_Write False p [] s = Some (s\<lparr>W := w\<rparr>, [p], length p)"
      "deliver [p] c = Some (c\<lparr>W := v\<rparr>, [p])" by (simp_all add: q_def)
    have "in_step sc (s\<lparr>W := w\<rparr>) (c\<lparr>W := v\<rparr>)" if "\<not> DefinitelyNotTLS w"
      using that False same w(2) v(2) assms(1) by (simp add: in_step_def same_setup_def settled_def)
    with r False same show ?thesis by (cases "DefinitelyNotTLS w") auto
  qed
qed

text \<open>The server's conn once its reader has met the command of the client.\<close>

definition knows_command :: "bytes \<Rightarrow> SniffConn \<Rightarrow> SniffConn" where
  "knows_command sc c = c\<lparr>W := (W c)\<lparr>SpecialCommandBytes := sc\<rparr>\<rparr>"

lemma in_step_start:
  "in_step sc (knows_command sc (relay_start False secure sc' au)) (relay_start True False sc au')"
  by (simp add: in_step_def knows_command_def relay_start_def lazy_start_def NewSniffConn_def
      new_ComSniff_def settled_def)

lemma lazy_download_in_step:
  assumes "in_step sc s c" "3 < length sc" "\<forall>p\<in>set ws. take (length sc) p \<noteq> sc"
  shows "\<exists>s' c' k. lazy_download ws s c = Some (s', c', take k ws) \<and> k \<le> length ws
    \<and> IsTls (W c') = IsTls (W s') \<and> DefinitelyNotTLS (W c') = DefinitelyNotTLS (W s')
    \<and> (IsTls (W s') \<longrightarrow> k < length ws \<and> data_record (ws ! k)) \<and> (settled (W s') \<or> k = length ws)"
  using assms
proof (induction ws arbitrary: s c)
  case Nil
  then show ?case by (auto simp: in_step_def settled_def)
next
  case (Cons p ws)
  obtain s1 c1 sent n out where w: "DetectLazyWriter_Write False p [] s = Some (s1, sent, n)"
    "deliver sent c = Some (c1, out)"
    and o: "in_step sc s1 c1 \<and> out = [p]
       \<or> IsTls (W s1) \<and> IsTls (W c1) \<and> \<not> DefinitelyNotTLS (W s1) \<and> \<not> DefinitelyNotTLS (W c1) \<and> out = [] \<and> data_record p
       \<or> DefinitelyNotTLS (W s1) \<and> DefinitelyNotTLS (W c1) \<and> \<not> IsTls (W s1) \<and> \<not> IsTls (W c1) \<and> out = [p]"
    using in_step_write [OF Cons.prems(1), of p] Cons.prems(2,3) by auto
  from o show ?case
  proof (elim disjE conjE)
    assume i: "in_step sc s1 c1" and "out = [p]"
    with Cons.IH [OF i] Cons.prems obtain s' c' k where "lazy_download ws s1 c1 = Some (s', c', take k ws)"
      "k \<le> length ws" "IsTls (W c') = IsTls (W s')" "DefinitelyNotTLS (W c') = DefinitelyNotTLS (W s')"
      "IsTls (W s') \<longrightarrow> k < length ws \<and> data_record (ws ! k)" "settled (W s') \<or> k = length ws" by auto
    moreover have "\<not> settled (W s1)" "\<not> settled (W c1)" using i by (simp_all add: in_step_def)
    ultimately show ?thesis using w \<open>out = [p]\<close> by (intro exI [of _ s'] exI [of _ c'] exI [of _ "Suc k"]) simp
  next
    assume "IsTls (W s1)" "IsTls (W c1)" "\<not> DefinitelyNotTLS (W s1)" "\<not> DefinitelyNotTLS (W c1)" "out = []" "data_record p"
    with w show ?thesis by (intro exI [of _ s1] exI [of _ c1] exI [of _ 0]) (simp add: settled_def)
  next
    assume "DefinitelyNotTLS (W s1)" "DefinitelyNotTLS (W c1)" "\<not> IsTls (W s1)" "\<not> IsTls (W c1)" "out = [p]"
    with w show ?thesis by (intro exI [of _ s1] exI [of _ c1] exI [of _ 1]) (simp add: settled_def)
  qed
qed


definition sample_server_hello :: bytes where
  "sample_server_hello = [22, 3, 3, 0, 6, 2, 0, 0, 2, 3, 3]"

definition sample_download :: "bytes list" where
  "sample_download = [sample_server_hello, [22, 3, 3, 0], [23, 3, 3, 0, 1, 0]]"


text \<open>Nothing makes the server wait for the command. When the remote server sends an application
  data record before the client's command has arrived, the server writes the empty command and
  leaves the tunnel, while the client stays in it.\<close>

theorem lazy_lost_command:
  assumes "hello_head False p" "3 < length q" "data_record q" "sc \<noteq> []"
  shows "\<exists>s' c'. lazy_download [p, q] (relay_start False secure sc' au) (relay_start True False sc au')
       = Some (s', c', [p, []]) \<and> IsTls (W s') \<and> \<not> settled (W c')"
proof -
  let ?s = "relay_start False secure sc' au" and ?c = "relay_start True False sc au'"
  have p: "3 < length p" using assms(1) by (simp add: hello_head_def)
  have s: "\<not> settled (W ?s)" "\<not> (Is_secure (W ?s) \<and> Isclient (W ?s))" "packetCount (W ?s) = 0"
    "SpecialCommandBytes (W ?s) = []" "\<not> Isclient (W ?s)"
   and c: "\<not> settled (W ?c)" "\<not> (Is_secure (W ?c) \<and> Isclient (W ?c))" "packetCount (W ?c) = 0" "\<not> Is_secure (W ?c)"
    by (simp_all add: relay_start_def lazy_start_def NewSniffConn_def new_ComSniff_def settled_def)
  obtain w where w: "commonFilterStep False False p [] False (W ?s, Some (R ?s)) = Some (w, Some (R ?s))"
    "same_setup False (W ?s) w" "packetCount w = 1" "helloPacketPass w" "\<not> DefinitelyNotTLS w" "\<not> IsTls w"
    using assms(1) p s(3) by (rule_tac write_filter [OF s(1,2), of p "[]" "Some (R ?s)"]) auto
  obtain v where v: "commonFilterStep False False p [] False (W ?c, Some (R ?c)) = Some (v, Some (R ?c))"
    "same_setup False (W ?c) v" "packetCount v = 1" "helloPacketPass v" "\<not> DefinitelyNotTLS v" "\<not> IsTls v"
    using assms(1) p c(3) by (rule_tac write_filter [OF c(1,2), of p "[]" "Some (R ?c)"]) auto
  have s1: "\<not> settled w" "\<not> (Is_secure w \<and> Isclient w)" "SpecialCommandBytes w = []" "\<not> Isclient w"
    and c1: "\<not> settled v" "\<not> (Is_secure v \<and> Isclient v)"
    using w v s c by (simp_all add: settled_def same_setup_def)
  obtain w2 where w2: "commonFilterStep False False q [] False (w, Some (R ?s)) = Some (w2, Some (R ?s))"
    "same_setup False w w2" "\<not> DefinitelyNotTLS w2" "IsTls w2"
    using assms(2,3) w(3,4) by (rule_tac write_filter [OF s1(1,2), of q "[]" "Some (R ?s)"]) auto
  have "DetectLazyWriter_Write False p [] ?s = Some (?s\<lparr>W := w\<rparr>, [p], length p)"
    "DetectLazyWriter_Write False p [] ?c = Some (?c\<lparr>W := v\<rparr>, [p], length p)"
    using plain_write [OF s(1,2) w(1)] plain_write [OF c(1,2) v(1)] w(6) v(6) by simp_all
  moreover have "DetectLazyWriter_Write False q [] (?s\<lparr>W := w\<rparr>) = Some (?s\<lparr>W := w2\<rparr>, [[]], length q)"
    using plain_write [of "?s\<lparr>W := w\<rparr>" q w2] s1 w2 by (simp add: same_setup_def)
  moreover have "DetectLazyWriter_Write False [] [] (?c\<lparr>W := v\<rparr>) = Some (?c\<lparr>W := v\<rparr>, [[]], 0)"
    using plain_write [of "?c\<lparr>W := v\<rparr>" "[]" v] c1 v(3,6) by (simp add: commonFilterStep_def settled_def)
  ultimately show ?thesis
    using s1 c1 w2(4) v(6) by (simp add: settled_def)
qed

theorem lazy_lost_command_witness:
  "\<exists>s' c'. lazy_download [sample_server_hello, [23, 3, 3, 0]] (relay_start False False [] (4, \<lambda>_. False))
       (relay_start True False [9, 9, 9, 9] (4, \<lambda>_. False))
     = Some (s', c', [sample_server_hello, []]) \<and> IsTls (W s') \<and> \<not> settled (W c')"
  by (rule lazy_lost_command) (simp_all add: sample_server_hello_def hello_head_def data_record_def)

section \<open>Records and the recorder\<close>

text \<open>A TLS record.\<close>

definition tls_record :: "byte \<Rightarrow> byte \<Rightarrow> byte \<Rightarrow> bytes \<Rightarrow> bytes" where
  "tls_record t v1 v2 body = [t, v1, v2, hi8 (int (length body)), lo8 (int (length body))] @ body"

definition is_record :: "bytes \<Rightarrow> bool" where
  "is_record r \<longleftrightarrow> 5 \<le> length r \<and> int (length r) = 5 + int_add_be (r ! 3) (r ! 4)"

lemma is_record_tls_record: "length body < 65536 \<Longrightarrow> is_record (tls_record t v1 v2 body)"
  by (simp add: is_record_def tls_record_def int_add_be_hi_lo)

lemma next_index_record [simp]: "is_record r \<Longrightarrow> GetTlsRecordNextIndex (r @ rest) = int (length r)"
  by (auto simp: GetTlsRecordNextIndex_def is_record_def nth_append)

text \<open>What the server forwards from its recorder is what follows the record of the command.\<close>

lemma free_data_after_command: "is_record r \<Longrightarrow> drop (nat (GetTlsRecordNextIndex (r @ free))) (r @ free) = free"
  by simp

lemma tail_loop_records:
  "(\<forall>r\<in>set rs. is_record r) \<Longrightarrow> length rest < 5 \<Longrightarrow> last_cursor \<le> length pre
    \<Longrightarrow> tail_loop (pre @ concat rs @ rest) (length pre) last_cursor n =
      (if rs = [] then last_cursor else length pre + length (concat (butlast rs)), n + length rs + 1)"
proof (induction rs arbitrary: pre last_cursor n)
  case Nil
  then show ?case by (subst tail_loop.simps) (simp add: GetTlsRecordNextIndex_def)
next
  case (Cons r rs)
  have r: "is_record r" using Cons.prems(1) by simp
  have "tail_loop (pre @ concat (r # rs) @ rest) (length pre) last_cursor n =
      tail_loop ((pre @ r) @ concat rs @ rest) (length (pre @ r)) (length pre) (Suc n)"
    using r Cons.prems(3) by (subst tail_loop.simps) simp
  with Cons.IH [of "length pre" "pre @ r" "Suc n"] Cons.prems show ?case by simp
qed

text \<open>On whole records followed by at most an incomplete header, \<open>GetLastTlsRecordTailIndex\<close>
  finds where the last record starts. Its count is the number of records plus one.\<close>

theorem GetLastTlsRecordTailIndex_records:
  assumes "\<forall>r\<in>set rs. is_record r" "rs \<noteq> []" "length rest < 5"
  shows "GetLastTlsRecordTailIndex (concat rs @ rest) = (length (concat (butlast rs)), length rs + 1)"
  using tail_loop_records [OF assms(1,3), of 0 "[]" 0] assms(2) by (simp add: GetLastTlsRecordTailIndex_def)

theorem GetLastTlsRecordTailIndex_records_witness:
  "GetLastTlsRecordTailIndex (concat [tls_record 23 3 3 [1, 2], tls_record 23 3 3 [7]] @ [23, 3]) = (7, 3)"
proof -
  have "\<forall>r\<in>set [tls_record 23 3 3 [1, 2], tls_record 23 3 3 [7]]. is_record r"
    by (simp add: is_record_tls_record)
  from GetLastTlsRecordTailIndex_records [OF this, of "[23, 3]"] show ?thesis
    by (simp add: tls_record_def)
qed

text \<open>The recorder keeps the second to the fifty-first packet, and no more.\<close>

lemma Recorder_fold:
  "\<not> stop wr \<Longrightarrow> 0 < writeCount wr \<Longrightarrow> writeCount wr \<le> 50
    \<Longrightarrow> Buflist (fold Recorder_Write ps wr) = Buflist wr @ take (51 - writeCount wr) ps"
proof (induction ps arbitrary: wr)
  case (Cons p ps)
  have stopped: "stop w \<Longrightarrow> fold Recorder_Write ps w = w" for w
    by (induction ps) (simp_all add: Recorder_Write_def)
  show ?case
  proof (cases "writeCount wr = 50")
    case True
    with Cons.prems have "Recorder_Write p wr = wr\<lparr>Buflist := Buflist wr @ [p], writeCount := 51, stop := True\<rparr>"
      by (simp add: Recorder_Write_def StopRecord_def)
    with True show ?thesis by (simp add: stopped)
  next
    case False
    with Cons.prems have "51 - writeCount wr = Suc (50 - writeCount wr)" by simp
    with Cons.prems False Cons.IH [of "Recorder_Write p wr"] show ?thesis
      by (simp add: Recorder_Write_def Let_def)
  qed
qed simp

theorem Recorder_keeps: "Buflist (fold Recorder_Write ps NewRecorder) = take 50 (drop 1 ps)"
proof (cases ps)
  case (Cons p qs)
  with Recorder_fold [of "Recorder_Write p NewRecorder" qs] show ?thesis
    by (simp add: Recorder_Write_def NewRecorder_def Let_def)
qed (simp add: NewRecorder_def)

end
