(* ===== verification/MainPipeline.thy ===== *)
theory MainPipeline
  imports MainDial NetRoute NetDns HttpFallback TlsSniff ProxyTrojan
begin

text \<open>
  \<open>main.go\<close> behind the layers of the server: \<open>handshakeInserver\<close>,
  \<open>handshakeInserver_and_passToOutClient\<close>, \<open>passToOutClient\<close> and \<open>dialClient_andRelay\<close>, the
  way of a connection from the handshake of its server to the relay. It composes the models of its parts:
  the fallback (\<open>HttpFallback\<close>), the sniffer (\<open>TlsSniff\<close>), the resolver (\<open>NetDns\<close>), the route policy
  (\<open>NetRoute\<close>) and the dial (\<open>MainDial\<close>). What the server, the first read and the libraries
  deliver is in \<open>pass_env\<close>. Each stage of \<open>passToOutClient\<close> is a definition, in the order of the
  code; a stage may end the connection with a \<open>pass_end\<close>. The HTTP/2 round trip to a fallback and the
  relays themselves are events; log output and connection ids are left out.
\<close>

section \<open>The state of an incoming connection\<close>

text \<open>A wrapped connection is one that knows how to reject (and whether it wants to) or another one.\<close>

datatype wrapped = PlainConn | RejectConn bool

record ('c, 're, 'd) RoutingEnv =
  re_RoutePolicy :: "('c, 're) RouteSet list option"
  re_Fallback :: "ClassicFallback option"
  re_DnsMachine :: "'d DNSMachine option"
  re_ClientsTagMap :: "string \<rightharpoonup> wire option proxy"

record ('c, 're, 'd) incoming = conn_state +
  wrappedConn :: "wrapped option"
  inServer :: "wire option proxy option"
  defaultClient :: "wire option proxy"
  routingEnv :: "('c, 're, 'd) RoutingEnv option"
  isInner :: bool
  inTag :: string
  useSniffing :: bool
  inServerTlsConn :: "(string \<times> string) option"
  isFallbackH2 :: bool
  requestPath :: string
  firstBuffer :: "bytes option"
  isTlsLazyServerEnd :: bool
  shouldCloseBase :: bool
  routedToDirect :: bool
  heapObj :: "(bool \<times> bytes option) option"
  has_GlobalInfo :: bool

datatype read_err = ReadTimeout | ReadFailed

record ('c, 're, 'd) pass_env =
  pe_route :: "('c, 're) route_env"
  pe_gmap :: "(string \<times> 're GeositeList) list"
  pe_intn :: "nat \<Rightarrow> nat"
  pe_dns :: "'d dns_env"
  pe_now :: int
  pe_comb :: "nat \<Rightarrow> nat \<Rightarrow> nat list list"
  pe_read :: "bytes \<times> read_err option"
  pe_ReadMsg :: "bytes \<times> Addr \<times> read_err option"
  pe_past :: bytes
  pe_dial :: dial_env
  pe_DirectClient :: "wire option proxy"

section \<open>Fallback\<close>

datatype hangup = WriteNginx400 | RejectResponse | CloseConn

datatype relay_ev =
    AddActive int
  | LazyRelayClient | LazyRelayServer
  | RelayConn Addr "rwc option" "lc option"
  | WriteFirst bytes Addr
  | RelayMsgs "rwc option" bool
  | CloseWlc | CloseBase

datatype pass_end =
    Panicked
  | HungUp "hangup list"
  | FirstReadFailed
  | FallbackH2 Addr int
  | Handled
  | Passed "wire option proxy" Addr trace "relay_ev list"

definition fallback_view :: "('c, 're, 'd) incoming \<Rightarrow> iics option" where
  "fallback_view x =
     map_option (\<lambda>s. \<lparr>iics_fallback = (case routingEnv x of Some re \<Rightarrow> re_Fallback re | None \<Rightarrow> None),
        fallbackRequestPath = requestPath x, fallbackFirstBuffer = firstBuffer x, iics_tls = inServerTlsConn x,
        iics_tag = b_Tag s, iics_default = b_FallbackAddr s\<rparr>) (inServer x)"

type_synonym 'i stage = "pass_end + 'i \<times> lc option \<times> Addr"

definition pass_fallback ::
    "('c, 're, 'd) pass_env \<Rightarrow> ('c, 're, 'd) incoming \<Rightarrow> bool \<Rightarrow> lc option \<Rightarrow> Addr \<Rightarrow> ('c, 're, 'd) incoming stage" where
  "pass_fallback env x isfallback wlc targetAddr =
     (if \<not> isfallback then Inr (x\<lparr>fallbackXver := -1\<rparr>, wlc, targetAddr)
      else case Option.bind (fallback_view x) (checkfallback (pe_comb env)) of
        None \<Rightarrow> Inl Panicked
      | Some (fallbackTargetAddr, fbResult) \<Rightarrow>
          if fbResult \<ge> 0 then
            if isFallbackH2 x then Inl (FallbackH2 fallbackTargetAddr fbResult)
            else Inr (x\<lparr>fallbackXver := fbResult\<rparr>, map_option (\<lambda>_. Wrapped) (wrappedConn x), fallbackTargetAddr)
          else Inr (x\<lparr>fallbackXver := fbResult\<rparr>, wlc, targetAddr))"

definition pass_hangup :: "('c, 're, 'd) incoming \<Rightarrow> hangup list" where
  "pass_hangup x =
     (case wrappedConn x of
        None \<Rightarrow> []
      | Some (RejectConn defined) \<Rightarrow> (if defined then [RejectResponse] else []) @ [CloseConn]
      | Some PlainConn \<Rightarrow> [WriteNginx400, CloseConn])"

section \<open>First payload\<close>

definition pass_first ::
    "('c, 're, 'd) pass_env \<Rightarrow> ('c, 're, 'd) incoming \<Rightarrow> lc option \<Rightarrow> string option option \<Rightarrow> Addr
      \<Rightarrow> ('c, 're, 'd) incoming option" where
  "pass_first env x wlc udp_wlc targetAddr =
     (if isTlsLazyServerEnd x then Some x
      else case firstBuffer x of
        Some buf \<Rightarrow>
          (let x = x\<lparr>firstPayload := buf, firstBuffer := None\<rparr> in
           Some (if IsUDP targetAddr then x\<lparr>udpFirstTarget := targetAddr\<rparr> else x))
      | None \<Rightarrow>
          if \<not> IsUDP targetAddr \<and> wlc \<noteq> None then
            (case pe_read env of (bs, err) \<Rightarrow>
               if err = Some ReadFailed \<and> bs = [] then None
               else Some (if bs \<noteq> [] then x\<lparr>firstPayload := bs\<rparr> else x))
          else if IsUDP targetAddr \<and> udp_wlc \<noteq> None then
            (case pe_ReadMsg env of (bs, targetAd, err) \<Rightarrow>
               if err = Some ReadFailed then None
               else Some (if bs \<noteq> [] then x\<lparr>firstPayload := bs, udpFirstTarget := targetAd\<rparr> else x))
          else Some x)"

section \<open>Sniffing and resolving\<close>

text \<open>\<open>None\<close> is a panic of the sniffer.\<close>

definition pass_sniff :: "('c, 're, 'd) pass_env \<Rightarrow> ('c, 're, 'd) incoming \<Rightarrow> Addr \<Rightarrow> (ComSniff option \<times> Addr) option" where
  "pass_sniff env x targetAddr =
     (if firstPayload x = [] then Some (None, targetAddr)
      else
        let inserverMarkedSniffing = (case inServer x of None \<Rightarrow> useSniffing x | Some s \<Rightarrow> Sniffing s);
            dialIslazy = IsLazyTls (defaultClient x) in
        if inserverMarkedSniffing \<or> dialIslazy then
          map_option (\<lambda>(cd, _). (Some cd,
              if SniffedServerName cd \<noteq> [] then targetAddr\<lparr>Name := SniffedServerName cd\<rparr> else targetAddr))
            (CommonDetect False (firstPayload x) (pe_past env) True
               (inserverMarkedSniffing \<and> \<not> (isTlsLazyServerEnd x \<or> dialIslazy))
               (new_ComSniff (\<not> isTlsLazyServerEnd x) False, None))
        else Some (None, targetAddr))"

definition pass_dns :: "('c, 're, 'd) pass_env \<Rightarrow> ('c, 're, 'd) incoming \<Rightarrow> Addr \<Rightarrow> ('c, 're, 'd) incoming \<times> Addr" where
  "pass_dns env x targetAddr =
     (case routingEnv x of
        None \<Rightarrow> (x, targetAddr)
      | Some re \<Rightarrow>
          (case re_DnsMachine re of
             None \<Rightarrow> (x, targetAddr)
           | Some dm \<Rightarrow>
               if Name targetAddr \<noteq> [] \<and> ip_len (IP targetAddr) = 0 \<and> Network targetAddr \<noteq> ''unix'' then
                 (case Query (pe_dns env) (pe_now env) (Name targetAddr) dm of (ip, dm') \<Rightarrow>
                    (x\<lparr>routingEnv := Some (re\<lparr>re_DnsMachine := Some dm'\<rparr>)\<rparr>,
                     if ip \<noteq> None then targetAddr\<lparr>IP := ip\<rparr> else targetAddr))
               else (x, targetAddr)))"

section \<open>Routing\<close>

definition source_user :: "lc option \<Rightarrow> string option option \<Rightarrow> string" where
  "source_user wlc udp_wlc =
     (case wlc of
        Some (Accepted (Some u)) \<Rightarrow> u
      | _ \<Rightarrow> (case udp_wlc of Some (Some u) \<Rightarrow> u | _ \<Rightarrow> []))"

definition route_desc :: "('c, 're, 'd) incoming \<Rightarrow> lc option \<Rightarrow> string option option \<Rightarrow> Addr \<Rightarrow> TargetDescription" where
  "route_desc x wlc udp_wlc targetAddr =
     \<lparr>tdAddr = targetAddr, tdInTag = (case inServer x of Some s \<Rightarrow> b_Tag s | None \<Rightarrow> inTag x),
      tdUser = source_user wlc udp_wlc\<rparr>"

text \<open>The client, and whether the request was routed to the built-in direct client.\<close>

definition pass_route ::
    "('c, 're, 'd) pass_env \<Rightarrow> ('c, 're, 'd) incoming \<Rightarrow> lc option \<Rightarrow> string option option \<Rightarrow> Addr \<Rightarrow> wire option proxy \<times> bool" where
  "pass_route env x wlc udp_wlc targetAddr =
     (case Option.bind (routingEnv x) re_RoutePolicy of
        None \<Rightarrow> (defaultClient x, routedToDirect x)
      | Some rp \<Rightarrow>
          if (case inServer x of Some s \<Rightarrow> b_IsCantRoute s | None \<Rightarrow> False) then (defaultClient x, routedToDirect x)
          else
            let outtag = CalcuOutTag (pe_route env) (pe_gmap env) (pe_intn env) rp (route_desc x wlc udp_wlc targetAddr) in
            case Option.bind (routingEnv x) (\<lambda>re. GetClient outtag (re_ClientsTagMap re)) of
              Some tagC \<Rightarrow> (tagC, routedToDirect x)
            | None \<Rightarrow>
                if outtag = DirectName then (pe_DirectClient env, True) else (defaultClient x, routedToDirect x))"

section \<open>Tls lazy and closing\<close>

definition keeps_base_open :: "string \<Rightarrow> bool" where
  "keeps_base_open name \<longleftrightarrow> name = ''socks5'' \<or> name = ''socks5http''"

definition pass_lazy ::
    "('c, 're, 'd) incoming \<Rightarrow> wire option proxy \<Rightarrow> lc option \<Rightarrow> Addr \<Rightarrow> ('c, 're, 'd) incoming \<times> bool \<times> lc option" where
  "pass_lazy x client wlc targetAddr =
     (let clientEnd = (\<not> IsUDP targetAddr \<and> IsLazyTls client \<and> CanLazyEncrypt client);
          x = (if IsUDP targetAddr then x\<lparr>isTlsLazyServerEnd := False\<rparr> else x);
          wlc = (if clientEnd \<or> isTlsLazyServerEnd x then Some (LazySniff wlc) else wlc);
          close = (if IsUDP targetAddr
                   then (case inServer x of Some s \<Rightarrow> \<not> keeps_base_open (p_Name s) | None \<Rightarrow> False)
                   else \<not> isTlsLazyServerEnd x
                     \<and> (case inServer x of
                          Some s \<Rightarrow> \<not> (case b_AdvS s of Some a \<Rightarrow> IsMux a | None \<Rightarrow> False)
                        | None \<Rightarrow> False)) in
      (x\<lparr>shouldCloseBase := shouldCloseBase x \<or> close\<rparr>, clientEnd, wlc))"

section \<open>Relaying\<close>

definition relay_counted :: "bool \<Rightarrow> relay_ev list \<Rightarrow> relay_ev list" where
  "relay_counted gi es = (if gi then [AddActive 1] @ es @ [AddActive (-1)] else es)"

text \<open>\<open>None\<close> is a panic: the client of a lazy relay must have a user.\<close>

definition relay_events ::
    "('c, 're, 'd) incoming \<Rightarrow> wire option proxy \<Rightarrow> Addr \<Rightarrow> bool \<Rightarrow> lc option \<Rightarrow> dial_result \<Rightarrow> relay_ev list option" where
  "relay_events x client targetAddr clientEnd wlc res =
     (if \<not> IsUDP targetAddr then
        let plain = relay_counted (has_GlobalInfo x) [RelayConn (realTargetAddr res) (wrc res) wlc] in
        if \<not> routedToDirect x \<and> clientEnd then
          (if \<not> b_TLS client then Some plain
           else if p_is_user client then Some [LazyRelayClient] else None)
        else if \<not> routedToDirect x \<and> isTlsLazyServerEnd x
          \<and> (case inServer x of Some s \<Rightarrow> p_is_user s | None \<Rightarrow> False) then Some [LazyRelayServer]
        else Some plain
      else
        Some ((case firstBuffer x of Some buf \<Rightarrow> [WriteFirst buf targetAddr] | None \<Rightarrow> [])
          @ relay_counted (has_GlobalInfo x) [RelayMsgs (udp_wrc res) (p_IsUDP_MultiChannel client)]))"

definition deferred_closes :: "('c, 're, 'd) incoming \<Rightarrow> wire option proxy \<Rightarrow> lc option \<Rightarrow> relay_ev list" where
  "deferred_closes x client wlc =
     (if fst (p_HasInnerMux client) = 0 then
        (if wlc \<noteq> None then [CloseWlc] else [])
        @ (if shouldCloseBase x \<and> \<not> isInner x \<and> baseLocalConn x then [CloseBase] else [])
      else [])"

definition dialClient_andRelay ::
    "('c, 're, 'd) pass_env \<Rightarrow> ('c, 're, 'd) incoming \<Rightarrow> Addr \<Rightarrow> wire option proxy \<Rightarrow> bool \<Rightarrow> lc option
      \<Rightarrow> string option option \<Rightarrow> pass_end" where
  "dialClient_andRelay env x targetAddr client clientEnd wlc udp_wlc =
     (case dialClient (pe_dial env) x targetAddr wlc udp_wlc clientEnd \<lparr>w_trace = [], w_client = client\<rparr> of
        (Inl Panic, w) \<Rightarrow> Panicked
      | (Inl (Result n), w) \<Rightarrow> Passed client targetAddr (w_trace w) (deferred_closes x client wlc)
      | (Inr res, w) \<Rightarrow>
          (case relay_events x client targetAddr clientEnd wlc res of
             None \<Rightarrow> Panicked
           | Some es \<Rightarrow> Passed client targetAddr (w_trace w) (es @ deferred_closes x client wlc)))"

text \<open>The function that a relay with a channel per destination dials a further channel with.\<close>

definition separate_dial ::
    "('c, 're, 'd) pass_env \<Rightarrow> ('c, 're, 'd) incoming \<Rightarrow> string option option \<Rightarrow> Addr \<Rightarrow> rwc option option act" where
  "separate_dial env x udp_wlc raddr =
     (\<lambda>w. case dialClient (pe_dial env) x raddr None udp_wlc False w of
            (Inr res, w') \<Rightarrow> (Inr (Some (udp_wrc res)), w')
          | (Inl Panic, w') \<Rightarrow> (Inl Panic, w')
          | (Inl (Result n), w') \<Rightarrow> (Inr None, w'))"

section \<open>passToOutClient\<close>

definition passToOutClient ::
    "('c, 're, 'd) pass_env \<Rightarrow> ('c, 're, 'd) incoming \<Rightarrow> bool \<Rightarrow> lc option \<Rightarrow> string option option \<Rightarrow> Addr \<Rightarrow> pass_end" where
  "passToOutClient env x isfallback wlc udp_wlc targetAddr =
     (case pass_fallback env x isfallback wlc targetAddr of
        Inl e \<Rightarrow> e
      | Inr (x, wlc, targetAddr) \<Rightarrow>
          if wlc = None \<and> udp_wlc = None then HungUp (pass_hangup x)
          else case pass_first env x wlc udp_wlc targetAddr of
            None \<Rightarrow> FirstReadFailed
          | Some x \<Rightarrow>
              (case pass_sniff env x targetAddr of
                 None \<Rightarrow> Panicked
               | Some (tlsSniff, targetAddr) \<Rightarrow>
                   (case pass_dns env x targetAddr of (x, targetAddr) \<Rightarrow>
                   (case pass_route env x wlc udp_wlc targetAddr of (client, direct) \<Rightarrow>
                   (case pass_lazy (x\<lparr>routedToDirect := direct\<rparr>) client wlc targetAddr of (x, clientEnd, wlc) \<Rightarrow>
                      dialClient_andRelay env x targetAddr client clientEnd wlc udp_wlc)))))"

section \<open>The handshake of the server\<close>

text \<open>What the server's handshake delivers.\<close>

type_synonym accepted = "goerr + lc option \<times> string option option \<times> Addr"

text \<open>What an accepted connection says of an inner mux: \<open>mux_marker\<close> is \<open>None\<close> when it is not a
  \<open>MuxMarker\<close>, \<open>mux_server\<close> the error of making the inner server, \<open>mux_session\<close> whether there is a
  session. \<open>udp_ReadMsg\<close> is what a read of the message conn delivers.\<close>

record inserver_env =
  ie_Handshake :: accepted
  udp_ReadMsg :: "goerr + bytes \<times> Addr"
  mux_marker :: "bool option"
  mux_server :: "goerr option"
  mux_session :: bool

definition handshakeInserver :: "inserver_env \<Rightarrow> ('c, 're, 'd) incoming \<Rightarrow> ('c, 're, 'd) incoming \<times> accepted" where
  "handshakeInserver ie x =
     (case inServer x of
        None \<Rightarrow> (x, Inl (err_text ''Failed handshakeInserver, nil inServer''))
      | Some s \<Rightarrow>
          (case ie_Handshake ie of
             Inl e \<Rightarrow> (x, Inl e)
           | Inr (wlc, udp_wlc, targetAddr) \<Rightarrow>
               (case (if udp_wlc \<noteq> None \<and> p_Name s = ''socks5'' then
                        (case udp_ReadMsg ie of
                           Inl e \<Rightarrow> Inl e
                         | Inr (bs, a) \<Rightarrow> Inr (x\<lparr>firstBuffer := Some bs\<rparr>, a))
                      else Inr (x, targetAddr)) of
                  Inl e \<Rightarrow> (x, Inl e)
                | Inr (x, targetAddr) \<Rightarrow>
                    if fst (p_HasInnerMux s) > 0 \<and> wlc \<noteq> None \<and> mux_marker ie = Some True then
                      (case mux_server ie of
                         Some e \<Rightarrow> (x, Inl e)
                       | None \<Rightarrow> (x, Inl (if mux_session ie then ErrHandled else ErrFailed)))
                    else (x, Inr (wlc, udp_wlc, targetAddr)))))"

text \<open>\<open>extractFirstBufFromErr\<close> with its effect on the connection.\<close>

definition close_wrapped :: "('c, 're, 'd) incoming \<Rightarrow> pass_end" where
  "close_wrapped x = HungUp (case wrappedConn x of None \<Rightarrow> [] | Some _ \<Rightarrow> [CloseConn])"

definition first_buf :: "('c, 're, 'd) incoming \<Rightarrow> goerr \<Rightarrow> pass_end + ('c, 're, 'd) incoming" where
  "first_buf x err =
     (case inServer x of
        None \<Rightarrow> Inl Panicked
      | Some s \<Rightarrow>
          (case extractFirstBufFromErr (p_CanFallback s \<or> b_Header s) (heapObj x) err of
             None \<Rightarrow> Inl (close_wrapped x)
           | Some buf \<Rightarrow> Inr (x\<lparr>firstBuffer := Some buf\<rparr>)))"

definition handshakeInserver_and_passToOutClient ::
    "('c, 're, 'd) pass_env \<Rightarrow> inserver_env \<Rightarrow> ('c, 're, 'd) incoming \<Rightarrow> pass_end" where
  "handshakeInserver_and_passToOutClient env ie x =
     (case handshakeInserver ie x of
        (x, Inr (wlc, udp_wlc, targetAddr)) \<Rightarrow> passToOutClient env x False wlc udp_wlc targetAddr
      | (x, Inl err) \<Rightarrow>
          if err = ErrHandled then Handled
          else case first_buf x err of
            Inl e \<Rightarrow> e
          | Inr x \<Rightarrow> passToOutClient env (x\<lparr>isTlsLazyServerEnd := False\<rparr>) True None None zero_Addr)"

text \<open>A stream of an inner mux, after the handshake of the inner server. The user of the outer connection
  is assigned to the inner one when that one takes a user.\<close>

definition assign_user :: "string option \<Rightarrow> string option \<Rightarrow> string option" where
  "assign_user outer inner = (case outer of Some u \<Rightarrow> Some u | None \<Rightarrow> inner)"

definition serve_mux_stream ::
    "('c, 're, 'd) pass_env \<Rightarrow> ('c, 're, 'd) incoming \<Rightarrow> string option \<Rightarrow> accepted \<Rightarrow> pass_end" where
  "serve_mux_stream env x outer_user r =
     (case r of
        Inl err1 \<Rightarrow>
          (case first_buf x err1 of
             Inl e \<Rightarrow> e
           | Inr x \<Rightarrow> passToOutClient env x True None None zero_Addr)
      | Inr (wlc1, udp_wlc1, targetAddr1) \<Rightarrow>
          passToOutClient env (x\<lparr>isInner := True\<rparr>) False
            (map_option (\<lambda>c. case c of Accepted u \<Rightarrow> Accepted (assign_user outer_user u) | c \<Rightarrow> c) wlc1)
            (if wlc1 = None then map_option (assign_user outer_user) udp_wlc1 else udp_wlc1) targetAddr1)"

section \<open>The stages and the setting of a connection\<close>

text \<open>What the stages leave alone: the server, the default client, the rules and the clients.\<close>

definition same_setting :: "('c, 're, 'd) incoming \<Rightarrow> ('c, 're, 'd) incoming \<Rightarrow> bool" where
  "same_setting x x' \<longleftrightarrow> inServer x' = inServer x \<and> defaultClient x' = defaultClient x \<and> inTag x' = inTag x
     \<and> routedToDirect x' = routedToDirect x \<and> isTlsLazyServerEnd x' = isTlsLazyServerEnd x
     \<and> map_option re_RoutePolicy (routingEnv x') = map_option re_RoutePolicy (routingEnv x)
     \<and> map_option re_ClientsTagMap (routingEnv x') = map_option re_ClientsTagMap (routingEnv x)"

lemma same_setting_refl [simp]: "same_setting x x"
  by (simp add: same_setting_def)

lemma same_setting_trans: "same_setting x y \<Longrightarrow> same_setting y z \<Longrightarrow> same_setting x z"
  by (simp add: same_setting_def)

lemma pass_first_setting: "pass_first env x wlc udp a = Some x' \<Longrightarrow> same_setting x x'"
  by (auto simp: pass_first_def same_setting_def Let_def split: if_splits option.splits prod.splits)

lemma pass_dns_setting: "pass_dns env x a = (x', a') \<Longrightarrow> same_setting x x'"
  by (auto simp: pass_dns_def same_setting_def split: if_splits option.splits prod.splits)

lemma pass_fallback_setting: "pass_fallback env x fb wlc a = Inr (x', wlc', a') \<Longrightarrow> same_setting x x'"
  by (auto simp: pass_fallback_def same_setting_def split: if_splits option.splits prod.splits)

lemma pass_route_setting:
  assumes "same_setting x x'"
  shows "pass_route env x' wlc udp a = pass_route env x wlc udp a"
proof -
  have "Option.bind (routingEnv x') re_RoutePolicy = Option.bind (routingEnv x) re_RoutePolicy"
    "Option.bind (routingEnv x') (\<lambda>re. GetClient t (re_ClientsTagMap re)) = Option.bind (routingEnv x) (\<lambda>re. GetClient t (re_ClientsTagMap re))" for t
    using assms by (cases "routingEnv x"; cases "routingEnv x'"; simp add: same_setting_def)+
  moreover from assms have "inServer x' = inServer x" "defaultClient x' = defaultClient x" "inTag x' = inTag x"
    "routedToDirect x' = routedToDirect x" by (simp_all add: same_setting_def)
  ultimately show ?thesis unfolding pass_route_def route_desc_def by (simp only:)
qed

lemma dialClient_andRelay_target:
  "dialClient_andRelay env x a c lazy wlc udp = Passed client target tr es \<Longrightarrow> client = c \<and> target = a"
  by (auto simp: dialClient_andRelay_def split: prod.splits sum.splits exit.splits option.splits)

lemma Passed_stages:
  assumes "passToOutClient env x False wlc udp_wlc targetAddr = Passed client target tr es"
  obtains x1 sn a1 x2 dir x3 lz wlc3 where
    "pass_first env (x\<lparr>fallbackXver := - 1\<rparr>) wlc udp_wlc targetAddr = Some x1" "pass_sniff env x1 targetAddr = Some (sn, a1)"
    "pass_dns env x1 a1 = (x2, target)" "pass_route env x2 wlc udp_wlc target = (client, dir)"
    "pass_lazy (x2\<lparr>routedToDirect := dir\<rparr>) client wlc target = (x3, lz, wlc3)"
    "dialClient_andRelay env x3 target client lz wlc3 udp_wlc = Passed client target tr es"
proof -
  let ?x0 = "x\<lparr>fallbackXver := - 1\<rparr>"
  from assms obtain x1 sn a1 where f: "pass_first env ?x0 wlc udp_wlc targetAddr = Some x1" and n: "pass_sniff env x1 targetAddr = Some (sn, a1)"
    by (auto simp: passToOutClient_def pass_fallback_def split: if_splits option.splits prod.splits)
  obtain x2 a2 where d: "pass_dns env x1 a1 = (x2, a2)" by fastforce
  obtain c dir where r: "pass_route env x2 wlc udp_wlc a2 = (c, dir)" by fastforce
  obtain x3 lz wlc3 where l: "pass_lazy (x2\<lparr>routedToDirect := dir\<rparr>) c wlc a2 = (x3, lz, wlc3)" by (metis prod_cases3)
  from assms f n d r l have p: "dialClient_andRelay env x3 a2 c lz wlc3 udp_wlc = Passed client target tr es"
    by (auto simp: passToOutClient_def pass_fallback_def split: if_splits)
  from dialClient_andRelay_target [OF this] have "client = c" "target = a2" by simp_all
  with f n d r l p show thesis by (intro that) simp_all
qed

lemma passToOutClient_route:
  assumes "passToOutClient env x False wlc udp_wlc targetAddr = Passed client target tr es"
  shows "client = fst (pass_route env x wlc udp_wlc target)"
proof -
  have s0: "same_setting x (x\<lparr>fallbackXver := - 1\<rparr>)" by (simp add: same_setting_def)
  obtain x1 a1 x2 dir where "pass_first env (x\<lparr>fallbackXver := - 1\<rparr>) wlc udp_wlc targetAddr = Some x1" "pass_dns env x1 a1 = (x2, target)"
    and r: "pass_route env x2 wlc udp_wlc target = (client, dir)" using Passed_stages [OF assms] by metis
  then have "same_setting x x2" using s0 same_setting_trans pass_first_setting pass_dns_setting by blast
  from pass_route_setting [OF this] r show ?thesis by simp
qed

text \<open>C2: The first rule set that contains the resolved target decides which client is dialed.\<close>

theorem first_rule_decides_client:
  assumes "passToOutClient env x False wlc udp_wlc targetAddr = Passed client target tr es"
    and "inServer x = Some s" "\<not> b_IsCantRoute s" "routingEnv x = Some re" "re_RoutePolicy re = Some (rps @ rs # rest)"
    and "\<forall>r\<in>set rps. \<not> IsIn (pe_route env) (pe_gmap env) r \<lparr>tdAddr = target, tdInTag = b_Tag s, tdUser = source_user wlc udp_wlc\<rparr>"
    and "IsIn (pe_route env) (pe_gmap env) rs \<lparr>tdAddr = target, tdInTag = b_Tag s, tdUser = source_user wlc udp_wlc\<rparr>"
  shows "client = (case GetClient (out_tag (pe_intn env) rs) (re_ClientsTagMap re) of
       Some c \<Rightarrow> c
     | None \<Rightarrow> if out_tag (pe_intn env) rs = DirectName then pe_DirectClient env else defaultClient x)"
proof -
  let ?td = "\<lparr>tdAddr = target, tdInTag = b_Tag s, tdUser = source_user wlc udp_wlc\<rparr>"
  have "CalcuOutTag (pe_route env) (pe_gmap env) (pe_intn env) (rps @ rs # rest) ?td = out_tag (pe_intn env) rs"
    using assms(6,7) by (induction rps) auto
  with passToOutClient_route [OF assms(1)] assms(2-5) show ?thesis
    by (auto simp: pass_route_def route_desc_def Let_def split: option.splits)
qed

section \<open>Refused connections\<close>

lemma handshake_refused:
  assumes "inServer x = Some s" "ie_Handshake ie = Inl e"
  shows "handshakeInserver ie x = (x, Inl e)"
  by (simp add: handshakeInserver_def assms)


lemma trojan_read_loop_err:
  "trojan_read_loop acc conn = (Inl e, conn') \<Longrightarrow> \<exists>e'. e = err_wrap ''read underlay failed'' e'"
proof (induction acc conn rule: trojan_read_loop.induct)
  case (1 acc conn)
  obtain r c1 where rd: "src_Read (MTU - length acc) conn = (r, c1)" by force
  from "1.prems" rd "1.IH" [OF rd [symmetric]] show ?case
    by (subst (asm) trojan_read_loop.simps) (auto split: sum.splits if_splits)
qed

lemma trojan_refused_stream:
  assumes "trojan_Handshake auth conn = (Inl (ErrBuffer e bs), conn')"
  shows "bs @ concat conn' = concat conn \<and> bs \<noteq> []"
  using assms trojan_read_loop_stream [of "[]" conn] trojan_read_loop_err [of "[]" conn "ErrBuffer e bs" conn']
  by (auto simp: trojan_Handshake_def err_wrap_def err_text_def split: prod.splits sum.splits if_splits)

text \<open>A connection that is refused with a buffer, with a default fallback only and a direct client.\<close>

lemma refused_to_direct_fallback:
  assumes "ie_Handshake ie = Inl (ErrBuffer e bs)" "bs \<noteq> []"
    and "inServer x = Some s" "p_CanFallback s" "b_FallbackAddr s = Some fa" "\<not> IsUDP fa" "\<not> Sniffing s"
    and "wrappedConn x \<noteq> None" "\<not> isFallbackH2 x" "routingEnv x = None"
    and "p_Name (defaultClient x) = DirectName" "b_Addr (defaultClient x) = []" "fst (p_HasInnerMux (defaultClient x)) = 0"
    and "\<not> IsLazyTls (defaultClient x)"
  shows "\<exists>x3. firstPayload x3 = bs
    \<and> handshakeInserver_and_passToOutClient env ie x
        = dialClient_andRelay env x3 fa (defaultClient x) False (Some Wrapped) None
    \<and> \<not> isTlsLazyServerEnd x3"
proof -
  have ne: "ErrBuffer e bs \<noteq> ErrHandled" by (simp add: ErrHandled_def)
  let ?x1 = "x\<lparr>firstBuffer := Some bs, isTlsLazyServerEnd := False\<rparr>"
  let ?x2 = "?x1\<lparr>fallbackXver := 0, firstPayload := bs, firstBuffer := None\<rparr>"
  obtain w where w: "wrappedConn x = Some w" using assms(8) by auto
  have view: "Option.bind (fallback_view ?x1) (checkfallback (pe_comb env)) = Some (fa, 0)"
    by (simp add: fallback_view_def assms(3,5,10) checkfallback_def)
  have h: "handshakeInserver_and_passToOutClient env ie x = passToOutClient env ?x1 True None None zero_Addr"
    using ne by (simp add: handshakeInserver_and_passToOutClient_def handshake_refused [OF assms(3,1)] first_buf_def
        assms(3,4) extractFirstBufFromErr_def)
  obtain x3 where l: "pass_lazy (?x2\<lparr>routedToDirect := routedToDirect x\<rparr>) (defaultClient x) (Some Wrapped) fa = (x3, False, Some Wrapped)"
    and x3: "firstPayload x3 = bs" "\<not> isTlsLazyServerEnd x3"
    by (simp add: pass_lazy_def assms(6,14) Let_def)
  have f: "pass_fallback env ?x1 True None zero_Addr = Inr (?x1\<lparr>fallbackXver := 0\<rparr>, Some Wrapped, fa)"
    using view by (simp add: pass_fallback_def w assms(9))
  have g: "pass_first env (?x1\<lparr>fallbackXver := 0\<rparr>) (Some Wrapped) None fa = Some ?x2"
    by (simp add: pass_first_def assms(6))
  have n: "pass_sniff env ?x2 fa = Some (None, fa)" by (simp add: pass_sniff_def assms(3,7,14))
  have d: "pass_dns env ?x2 fa = (?x2, fa)" by (simp add: pass_dns_def assms(10))
  have r: "pass_route env ?x2 (Some Wrapped) None fa = (defaultClient x, routedToDirect x)"
    by (simp add: pass_route_def assms(10))
  have p: "passToOutClient env ?x1 True None None zero_Addr = dialClient_andRelay env x3 fa (defaultClient x) False (Some Wrapped) None"
    unfolding passToOutClient_def f by (simp only: sum.case prod.case option.distinct if_False g option.case n d r l simp_thms)
  show ?thesis by (intro exI [of _ x3]) (simp add: h p x3)
qed


section \<open>First datagrams\<close>

lemma IsUDP_cong: "Network a' = Network a \<Longrightarrow> IsUDP a' = IsUDP a"
  by (simp add: IsUDP_def)

lemma pass_sniff_Network: "pass_sniff env x a = Some (sn, a') \<Longrightarrow> Network a' = Network a"
  by (auto simp: pass_sniff_def Let_def split: if_splits)

lemma pass_dns_keeps:
  "pass_dns env x a = (x', a') \<Longrightarrow> firstPayload x' = firstPayload x \<and> firstBuffer x' = firstBuffer x
     \<and> udpFirstTarget x' = udpFirstTarget x \<and> Network a' = Network a"
  by (auto simp: pass_dns_def split: if_splits option.splits prod.splits)

lemma pass_lazy_keeps:
  "pass_lazy x c wlc a = (x', lz, wlc') \<Longrightarrow> firstPayload x' = firstPayload x \<and> firstBuffer x' = firstBuffer x
     \<and> udpFirstTarget x' = udpFirstTarget x"
  by (cases "IsUDP a") (auto simp: pass_lazy_def Let_def)

definition written :: "relay_ev list \<Rightarrow> (bytes \<times> Addr) list" where
  "written es = List.map_filter (\<lambda>e. case e of WriteFirst b a \<Rightarrow> Some (b, a) | _ \<Rightarrow> None) es"

lemma written_simps [simp]:
  "written [] = []" "written (es @ es') = written es @ written es'" "written (WriteFirst b a # es) = (b, a) # written es"
  "written (RelayMsgs r m # es) = written es" "written (AddActive n # es) = written es"
  "written (CloseWlc # es) = written es" "written (CloseBase # es) = written es"
  by (simp_all add: written_def map_filter_def)

lemma written_closes [simp]: "written (deferred_closes x c wlc) = []"
  by (simp add: deferred_closes_def)

lemma closes_no_relay [simp]: "RelayMsgs r m \<notin> set (deferred_closes x c wlc)"
  by (simp add: deferred_closes_def)

lemma relay_udp_delivers:
  assumes "dialClient_andRelay env x a client lz wlc udp = Passed client a tr es" "RelayMsgs r m \<in> set es" "IsUDP a"
  shows "delivered tr @ written es =
    (if firstPayload x = [] then [] else [(firstPayload x, udpFirstTarget x)])
    @ (case firstBuffer x of Some buf \<Rightarrow> [(buf, a)] | None \<Rightarrow> [])"
proof -
  let ?w = "\<lparr>w_trace = [], w_client = client\<rparr>"
  obtain q w' where d: "dialClient (pe_dial env) x a wlc udp lz ?w = (q, w')" by fastforce
  with assms obtain res where q: "q = Inr res"
    by (auto simp: dialClient_andRelay_def split: sum.splits exit.splits)
  have es: "tr = w_trace w'" "es = (case firstBuffer x of Some buf \<Rightarrow> [WriteFirst buf a] | None \<Rightarrow> [])
      @ relay_counted (has_GlobalInfo x) [RelayMsgs (udp_wrc res) (p_IsUDP_MultiChannel client)] @ deferred_closes x client wlc"
    using assms(1,3) by (simp_all add: dialClient_andRelay_def d q relay_events_def)
  have "delivered tr = (if firstPayload x = [] then [] else [(firstPayload x, udpFirstTarget x)])"
    using dial_delivered [OF d] assms(3) by (auto simp: es q)
  then show ?thesis by (simp add: es(2) relay_counted_def split: option.split)
qed


text \<open>C40: Every further channel of a separate relay is dialed for the first destination, and the first
  datagram is sent through it again, whatever destination it is wanted for.\<close>

theorem separate_dial_repeats_first:
  assumes "separate_dial env x udp_wlc raddr w = (Inr (Some c), w')" "firstPayload x \<noteq> []" "IsUDP raddr"
  shows "\<exists>new. w_trace w' = w_trace w @ new \<and> delivered new = [(firstPayload x, udpFirstTarget x)]"
proof -
  from assms(1) obtain res where "dialClient (pe_dial env) x raddr None udp_wlc False w = (Inr res, w')"
    by (auto simp: separate_dial_def split: prod.splits sum.splits exit.splits)
  from dial_delivered [OF this] assms(2,3) show ?thesis by simp
qed

section \<open>Examples\<close>

definition sample_server :: "string \<Rightarrow> wire option proxy" where
  "sample_server n = sample_Base\<lparr>p_Name := n, b_Tag := ''in'', p_CanFallback := True\<rparr>"

definition sample_incoming :: "wire option proxy \<Rightarrow> (string list, string, nat) incoming" where
  "sample_incoming s =
     \<lparr>baseLocalConn = True, firstPayload = [], udpFirstTarget = zero_Addr, fallbackXver = 0, wrappedConn = Some PlainConn,
      inServer = Some s, defaultClient = sample_Base, routingEnv = None, isInner = False, inTag = [], useSniffing = False,
      inServerTlsConn = None, isFallbackH2 = False, requestPath = [], firstBuffer = None, isTlsLazyServerEnd = False,
      shouldCloseBase = False, routedToDirect = False, heapObj = None, has_GlobalInfo = True\<rparr>"

definition sample_pass_env :: "(string list, string, nat) pass_env" where
  "sample_pass_env =
     \<lparr>pe_route = sample_env, pe_gmap = [], pe_intn = (\<lambda>_. 0), pe_dns = demo_dns_env, pe_now = 0, pe_comb = sample_comb,
      pe_read = ([1, 2], None), pe_ReadMsg = ([], zero_Addr, Some ReadTimeout), pe_past = [], pe_dial = all_ok, pe_DirectClient = sample_Base\<rparr>"

definition sample_inserver_env :: "accepted \<Rightarrow> inserver_env" where
  "sample_inserver_env r =
     \<lparr>ie_Handshake = r, udp_ReadMsg = Inr ([5, 6], sample_to\<lparr>Network := ''udp''\<rparr>), mux_marker = None, mux_server = None, mux_session = False\<rparr>"

lemma sample_server_fields:
  "p_CanFallback (sample_server n\<lparr>b_FallbackAddr := f\<rparr>)" "b_FallbackAddr (sample_server n\<lparr>b_FallbackAddr := f\<rparr>) = f"
  "\<not> Sniffing (sample_server n\<lparr>b_FallbackAddr := f\<rparr>)"
  by (simp_all add: sample_server_def sample_Base_def Sniffing_def)

lemmas sample_pass_defs = sample_server_def sample_incoming_def sample_pass_env_def sample_inserver_env_def sample_Base_def

definition sample_rule_block :: "(string list, string) RouteSet" where
  "sample_rule_block = zero_RouteSet\<lparr>AllowedTransportLayerProtocols := TCP, OutTag := ''block''\<rparr>"

definition sample_rules :: "(string list, string) RouteSet list" where
  "sample_rules = [zero_RouteSet, sample_rule_block]"

definition sample_block :: "wire option proxy" where
  "sample_block = sample_Base\<lparr>p_Name := ''reject''\<rparr>"

lemma sample_not_in: "\<not> IsIn sample_env [] zero_RouteSet \<lparr>tdAddr = sample_to, tdInTag = i, tdUser = u\<rparr>"
  by (simp add: IsIn_def IsAddrIn_def zero_RouteSet_def IsAddrNetworkAllowed_def IsTransportProtocolAllowed_def Let_def
      sample_to_def StrToTransportProtocol_def TCP_def UnknownNetwork_def)

lemma sample_in: "IsIn sample_env [] sample_rule_block \<lparr>tdAddr = sample_to, tdInTag = i, tdUser = u\<rparr>"
  by (simp add: sample_rule_block_def IsIn_def IsAddrIn_def zero_RouteSet_def IsAddrNetworkAllowed_def IsTransportProtocolAllowed_def Let_def
      IsNoLimitForNetworkLayer_def sample_to_def StrToTransportProtocol_def TCP_def UnknownNetwork_def)

theorem first_rule_decides_client_witness:
  "\<exists>x tr es. passToOutClient sample_pass_env x False (Some (Accepted None)) None sample_to = Passed sample_block sample_to tr es"
proof -
  let ?re = "\<lparr>re_RoutePolicy = Some sample_rules, re_Fallback = None, re_DnsMachine = None, re_ClientsTagMap = [''block'' \<mapsto> sample_block]\<rparr>
    :: (string list, string, nat) RoutingEnv"
  let ?x = "(sample_incoming (sample_server ''trojan''))\<lparr>routingEnv := Some ?re\<rparr>"
  have r: "CalcuOutTag sample_env [] (\<lambda>_. 0) sample_rules \<lparr>tdAddr = sample_to, tdInTag = i, tdUser = u\<rparr> = ''block''" for i u
    by (simp add: sample_rules_def sample_not_in sample_in) (simp add: out_tag_def sample_rule_block_def zero_RouteSet_def)
  obtain client tr es where p: "passToOutClient sample_pass_env ?x False (Some (Accepted None)) None sample_to = Passed client sample_to tr es"
    using sample_not_udp
    by (auto simp: passToOutClient_def pass_fallback_def pass_first_def pass_sniff_def pass_dns_def pass_route_def pass_lazy_def
        dialClient_andRelay_def reject_dials_nothing RejectName_def sample_block_def route_desc_def r GetClient_def
        sample_pass_defs Sniffing_def IsLazyTls_def Let_def)
  have "client = (case GetClient (out_tag (pe_intn sample_pass_env) sample_rule_block) (re_ClientsTagMap ?re) of
       Some c \<Rightarrow> c
     | None \<Rightarrow> if out_tag (pe_intn sample_pass_env) sample_rule_block = DirectName
         then pe_DirectClient sample_pass_env else defaultClient ?x)"
    by (rule first_rule_decides_client [OF p, of "sample_server ''trojan''" ?re "[zero_RouteSet]" sample_rule_block "[]"])
      (simp_all add: sample_incoming_def sample_server_def sample_Base_def sample_rules_def sample_not_in sample_in sample_pass_env_def)
  then have "client = sample_block" by (simp add: out_tag_def sample_rule_block_def zero_RouteSet_def GetClient_def)
  with p show ?thesis by blast
qed




theorem separate_dial_repeats_first_witness:
  "\<exists>w'. separate_dial sample_pass_env ((sample_incoming sample_Base)\<lparr>firstPayload := [7], udpFirstTarget := sample_to\<lparr>Network := ''udp'', Port := 53\<rparr>\<rparr>)
       (Some None) (sample_to\<lparr>Network := ''udp''\<rparr>) \<lparr>w_trace = [], w_client = sample_Base\<rparr> = (Inr (Some (Some (Outer None))), w')
    \<and> delivered (w_trace w') = [([7], sample_to\<lparr>Network := ''udp'', Port := 53\<rparr>)]"
proof -
  let ?a = "sample_to\<lparr>Network := ''udp''\<rparr>"
  let ?x = "(sample_incoming sample_Base)\<lparr>firstPayload := [7], udpFirstTarget := sample_to\<lparr>Network := ''udp'', Port := 53\<rparr>\<rparr>"
  have u: "IsUDP ?a" by (simp add: IsUDP_def IsStrUDP_network_def)
  obtain w' where d: "separate_dial sample_pass_env ?x (Some None) ?a \<lparr>w_trace = [], w_client = sample_Base\<rparr> = (Inr (Some (Some (Outer None))), w')"
    using u direct_dial [of "\<lparr>w_trace = [], w_client = sample_Base\<rparr>" all_ok ?x ?a None "Some None" False]
    by (auto simp: separate_dial_def require_ret sample_pass_env_def all_ok_def sample_Base_def DirectName_def)
  from separate_dial_repeats_first [OF d _ u] d show ?thesis by auto
qed

end
