(* ===== verification/TlsClientHello.thy ===== *)
theory TlsClientHello
  imports TlsSniff
begin

text \<open>
  Client hellos as RFC 8446 and the RFCs of the extensions lay them out, and what the sniffer makes
  of them. The first part is the specification side: the bytes of a hello, written down from the
  grammar of the RFCs. The second part shows that the sniffer finds the server name in every such
  hello, whatever comes before it, as long as it is one of the extensions that it parses correctly;
  the third shows hellos that it does not survive or does not accept.
\<close>

section \<open>Vectors\<close>

definition vec8 :: "bytes \<Rightarrow> bytes" where
  "vec8 xs = word_of_nat (length xs) # xs"

definition vec16 :: "bytes \<Rightarrow> bytes" where
  "vec16 xs = [hi8 (int (length xs)), lo8 (int (length xs))] @ xs"

lemma length_vec [simp]: "length (vec8 xs) = Suc (length xs)" "length (vec16 xs) = length xs + 2"
  by (simp_all add: vec8_def vec16_def)

lemma uint16_at_split: "uint16_at (pre @ a # b # post) (length pre) = Some (uint16_be a b)"
  by (simp add: uint16_at_def byte_at_def nth_append)

lemma int_at_vec16:
  assumes "bs = pre @ vec16 xs @ post" "length xs < 65536" "c = length pre"
  shows "int_at bs c = Some (length xs)"
proof -
  have "int_add_be (hi8 (int (length xs))) (lo8 (int (length xs))) = int (length xs)"
    using assms(2) by (simp add: int_add_be_hi_lo)
  then show ?thesis using assms by (simp add: int_at_def vec16_def byte_at_def nth_append)
qed

lemma byte_at_vec8:
  assumes "bs = pre @ vec8 xs @ post" "c = length pre"
  shows "byte_at bs c = Some (word_of_nat (length xs))"
  using assms by (simp add: vec8_def)

lemma unat_len8 [simp]: "n < 256 \<Longrightarrow> unat (word_of_nat n :: byte) = n"
  by (simp add: unat_of_nat)

lemma skip16_vec:
  assumes "bs = pre @ vec16 xs @ post" "length xs < 65536" "c = length pre"
  shows "skip16 r bs c cd = Some (Continue (c + 2 + length xs) cd)"
proof -
  have "int_at bs c = Some (length xs)" by (rule int_at_vec16 [OF assms])
  then show ?thesis using assms by (simp add: skip16_def)
qed

lemma skip8_vec:
  assumes "bs = pre @ vec8 xs @ post" "length xs < 256" "c = length pre"
  shows "skip8 r bs c cd = Some (Continue (c + 1 + length xs) cd)"
proof -
  have "byte_at bs c = Some (word_of_nat (length xs))" by (rule byte_at_vec8 [OF assms(1,3)])
  then show ?thesis using assms by (simp add: skip8_def)
qed

section \<open>Extensions\<close>

datatype hello_ext =
    ServerNames "bytes list"
  | StatusRequest bytes bytes
  | Heartbeat byte
  | Alpn "bytes list"
  | EmptyExt nat
  | Padding nat
  | SupportedVersions "(byte \<times> byte) list"
  | ListExt nat bytes
  | PskModes bytes
  | PreSharedKey bytes bytes
  | OtherExt nat bytes

fun ext_type :: "hello_ext \<Rightarrow> nat" where
  "ext_type (ServerNames ns) = 0"
| "ext_type (StatusRequest a b) = 5"
| "ext_type (Heartbeat m) = 15"
| "ext_type (Alpn ps) = 16"
| "ext_type (EmptyExt n) = n"
| "ext_type (Padding n) = 21"
| "ext_type (SupportedVersions vs) = 43"
| "ext_type (ListExt n a) = n"
| "ext_type (PskModes m) = 45"
| "ext_type (PreSharedKey a b) = 41"
| "ext_type (OtherExt n b) = n"

fun ext_body :: "hello_ext \<Rightarrow> bytes" where
  "ext_body (ServerNames ns) = vec16 (concat (map (\<lambda>n. 0 # vec16 n) ns))"
| "ext_body (StatusRequest a b) = 1 # vec16 a @ vec16 b"
| "ext_body (Heartbeat m) = [m]"
| "ext_body (Alpn ps) = vec16 (concat (map vec8 ps))"
| "ext_body (EmptyExt n) = []"
| "ext_body (Padding n) = replicate n 0"
| "ext_body (SupportedVersions vs) = vec8 (concat (map (\<lambda>(a, b). [a, b]) vs))"
| "ext_body (ListExt n a) = vec16 a"
| "ext_body (PskModes m) = vec8 m"
| "ext_body (PreSharedKey a b) = vec16 a @ vec16 b"
| "ext_body (OtherExt n b) = b"

definition special_types :: "nat list" where
  "special_types = [0, 1, 5, 14, 15, 16, 18, 49, 42, 19, 20, 21, 43, 44, 13, 50, 47, 48, 10, 51, 45, 41]"

fun ext_wf :: "hello_ext \<Rightarrow> bool" where
  "ext_wf (Heartbeat m) = (m = 1 \<or> m = 2)"
| "ext_wf (Alpn ps) = (\<forall>p\<in>set ps. length p < 256)"
| "ext_wf (EmptyExt n) = (n \<in> {18, 49, 42})"
| "ext_wf (SupportedVersions vs) = (length vs < 128)"
| "ext_wf (ListExt n a) = (n \<in> {44, 13, 50, 47, 48, 10, 51})"
| "ext_wf (PskModes m) = (length m < 256)"
| "ext_wf (OtherExt n b) = (n < 65536 \<and> n \<notin> set special_types)"
| "ext_wf _ = True"

definition ext_bytes :: "hello_ext \<Rightarrow> bytes" where
  "ext_bytes e = [hi8 (int (ext_type e)), lo8 (int (ext_type e))] @ vec16 (ext_body e)"

lemma length_ext_bytes [simp]: "length (ext_bytes e) = 4 + length (ext_body e)"
  by (simp add: ext_bytes_def)

lemma ext_type_less: "ext_wf e \<Longrightarrow> ext_type e < 65536"
  by (cases e) auto

lemma unat_be_hi_lo: "n < 65536 \<Longrightarrow> unat (uint16_be (hi8 (int n)) (lo8 (int n))) = n"
  by (metis int_add_be_hi_lo int_ops(3) mod_less nat_int of_nat_mod uint_uint16_be unat_eq_nat_uint
      zmod_int of_nat_numeral)

lemma ext_header:
  assumes "bs = pre @ ext_bytes e @ post" "ext_wf e" "length (ext_body e) < 65536"
  shows "uint16_at bs (length pre) \<bind> (\<lambda>et. uint16_at bs (length pre + 2) \<bind> (\<lambda>l. f (unat et) (unat l)))
    = f (ext_type e) (length (ext_body e))"
proof -
  have "uint16_at bs (length pre) = Some (uint16_be (hi8 (int (ext_type e))) (lo8 (int (ext_type e))))"
    using uint16_at_split [of pre] by (simp add: assms(1) ext_bytes_def)
  moreover have "uint16_at bs (length pre + 2) =
      Some (uint16_be (hi8 (int (length (ext_body e)))) (lo8 (int (length (ext_body e)))))"
    using uint16_at_split [of "pre @ [hi8 (int (ext_type e)), lo8 (int (ext_type e))]"]
    by (simp add: assms(1) ext_bytes_def vec16_def)
  ultimately show ?thesis
    using assms by (simp add: unat_be_hi_lo ext_type_less)
qed

section \<open>Every other extension is skipped\<close>

definition quiet :: "ComSniff \<Rightarrow> ComSniff \<Rightarrow> bool" where
  "quiet a b \<longleftrightarrow> SniffedServerName b = SniffedServerName a \<and> DefinitelyNotTLS b = DefinitelyNotTLS a
     \<and> helloPacketPass b = helloPacketPass a"

lemma quiet_refl [simp]: "quiet a a"
  by (simp add: quiet_def)

lemma quiet_trans: "quiet a b \<Longrightarrow> quiet b c \<Longrightarrow> quiet a c"
  by (simp add: quiet_def)

lemma alpn_loop_vec:
  "bs = pre @ concat (map vec8 ps) @ post \<Longrightarrow> (\<forall>p\<in>set ps. length p < 256)
    \<Longrightarrow> alpn_loop bs beyond (length pre + length (concat (map vec8 ps))) (length pre) acc
        = Some (acc @ map string_of_bytes ps)"
proof (induction ps arbitrary: pre acc)
  case Nil
  then show ?case by (subst alpn_loop.simps) simp
next
  case (Cons p ps)
  have b: "byte_at bs (length pre) = Some (word_of_nat (length p))"
    using Cons.prems(1) by (simp add: vec8_def)
  have s: "cap_slice bs beyond (Suc (length pre)) (Suc (length pre + length p)) = Some p"
    using Cons.prems(1) by (simp add: cap_slice_def bytes_slice_def list_slice_def vec8_def)
  have "alpn_loop bs beyond (length pre + length (concat (map vec8 (p # ps)))) (length pre) acc
      = alpn_loop bs beyond (length (pre @ vec8 p) + length (concat (map vec8 ps))) (length (pre @ vec8 p))
          (acc @ [string_of_bytes p])"
    using b s Cons.prems(2) by (subst alpn_loop.simps) (simp add: add.assoc)
  with Cons.IH [of "pre @ vec8 p" "acc @ [string_of_bytes p]"] Cons.prems show ?case by simp
qed

definition version_bytes :: "(byte \<times> byte) list \<Rightarrow> bytes" where
  "version_bytes vs = concat (map (\<lambda>(a, b). [a, b]) vs)"

lemma length_version_bytes [simp]: "length (version_bytes vs) = 2 * length vs"
  by (induction vs) (auto simp: version_bytes_def)

lemma versions_loop_vec:
  "bs = pre @ version_bytes vs @ post
    \<Longrightarrow> versions_loop bs (length pre + 2 * length vs) (length pre) (length vs)
        = Some (\<exists>v\<in>set vs. uint16_be (fst v) (snd v) = VersionTLS13, length pre + 2 * length vs)"
proof (induction vs arbitrary: pre)
  case (Cons v vs)
  obtain a b where v: "v = (a, b)" by (cases v)
  have "uint16_at bs (length pre) = Some (uint16_be a b)"
    using uint16_at_split [of pre a b] Cons.prems by (simp add: v version_bytes_def)
  with Cons.IH [of "pre @ [a, b]"] Cons.prems show ?case by (simp add: v version_bytes_def)
qed simp

lemma sniff_ext_skips:
  assumes bs: "bs = pre @ ext_bytes e @ post" and wf: "ext_wf e" "length (ext_body e) < 65536"
    and e: "\<forall>ns. e \<noteq> ServerNames ns" and cd: "SniffedServerName cd = []"
  shows "\<exists>cd'. sniff_ext True True bs beyond (ext_type e) (length (ext_body e)) (length pre + 4) (cd, peer)
      = Some (Continue (length pre + length (ext_bytes e)) (cd', peer)) \<and> quiet cd cd'"
proof -
  define p where "p = pre @ take 4 (ext_bytes e)"
  have p: "bs = p @ ext_body e @ post" "length pre + 4 = length p"
    by (simp_all add: p_def bs ext_bytes_def vec16_def)
  show ?thesis
  proof (cases e)
    case (ServerNames ns)
    with e show ?thesis by blast
  next
    case (StatusRequest a b)
    with p have 1: "bs = (p @ [1]) @ vec16 a @ (vec16 b @ post)" "bs = (p @ 1 # vec16 a) @ vec16 b @ post"
      by simp_all
    have "skip16 25 bs (length p + 1) cd = Some (Continue (length p + 1 + 2 + length a) cd)"
      by (rule skip16_vec [OF 1(1)]) (use wf StatusRequest in simp_all)
    moreover have "skip16 25 bs (length p + 1 + 2 + length a) cd
        = Some (Continue (length p + 1 + 2 + length a + 2 + length b) cd)"
      by (rule skip16_vec [OF 1(2)]) (use wf StatusRequest in simp_all)
    moreover have "byte_at bs (length p) = Some 1" using p(1) StatusRequest by simp
    ultimately show ?thesis
      using StatusRequest p(2)
      by (auto simp: sniff_ext_def ext_status_request_def flow_bind_def)
  next
    case (Heartbeat m)
    with p have "byte_at bs (length p) = Some m" by simp
    with Heartbeat wf p(2) show ?thesis by (auto simp: sniff_ext_def ext_heartbeat_def)
  next
    case (Alpn ps)
    let ?l = "concat (map vec8 ps)"
    have b: "bs = p @ vec16 ?l @ post" "bs = (p @ take 2 (vec16 ?l)) @ ?l @ post"
      using p Alpn by (simp_all add: vec16_def)
    have i: "int_at bs (length p) = Some (length ?l)"
      by (rule int_at_vec16 [OF b(1)]) (use wf Alpn in simp_all)
    have a: "alpn_loop bs beyond (length p + 2 + length ?l) (length p + 2) acc = Some (acc @ map string_of_bytes ps)"
      for acc using alpn_loop_vec [OF b(2)] wf Alpn by (simp add: vec16_def)
    have "length p + 2 + length ?l \<le> length bs" using b(1) by simp
    with i a Alpn p(2) show ?thesis
      by (auto simp: sniff_ext_def ext_alpn_def quiet_def)
  next
    case (EmptyExt n)
    with wf p(2) show ?thesis by (auto simp: sniff_ext_def)
  next
    case (Padding n)
    with p show ?thesis by (auto simp: sniff_ext_def ext_padding_def)
  next
    case (SupportedVersions vs)
    then have b: "bs = p @ vec8 (version_bytes vs) @ post" "bs = (p @ take 1 (vec8 (version_bytes vs))) @ version_bytes vs @ post"
      using p by (simp_all add: vec8_def version_bytes_def)
    have l: "unat (word_of_nat (2 * length vs) :: byte) = 2 * length vs"
      using wf SupportedVersions by (intro unat_len8) simp
    have "byte_at bs (length p) = Some (word_of_nat (2 * length vs))"
      using byte_at_vec8 [OF b(1)] by simp
    moreover have "versions_loop bs (length p + 1 + 2 * length vs) (length p + 1) (length vs)
        = Some (\<exists>v\<in>set vs. uint16_be (fst v) (snd v) = VersionTLS13, length p + 1 + 2 * length vs)"
      using versions_loop_vec [OF b(2)] by (simp add: vec8_def)
    moreover have "length p + 1 + 2 * length vs \<le> length bs" using b(1) by simp
    ultimately show ?thesis
      using SupportedVersions p(2) l cd
      by (auto simp: sniff_ext_def ext_client_versions_def quiet_def version_bytes_def [symmetric])
  next
    case (ListExt n a)
    then have "skip16 18 bs (length p) cd = Some (Continue (length p + 2 + length a) cd)"
      using p(1) wf by (intro skip16_vec [of bs p a post]) simp_all
    with ListExt wf p(2) show ?thesis by (auto simp: sniff_ext_def)
  next
    case (PskModes m)
    then have "skip8 19 bs (length p) cd = Some (Continue (length p + 1 + length m) cd)"
      using p(1) wf by (intro skip8_vec [of bs p m post]) simp_all
    with PskModes p(2) show ?thesis by (auto simp: sniff_ext_def)
  next
    case (PreSharedKey a b)
    then have "skip16 20 bs (length p) cd = Some (Continue (length p + 2 + length a) cd)"
      using p(1) wf by (intro skip16_vec [of bs p a "vec16 b @ post"]) simp_all
    moreover have "skip16 20 bs (length p + 2 + length a) cd = Some (Continue (length p + 2 + length a + 2 + length b) cd)"
      using PreSharedKey p(1) wf by (intro skip16_vec [of bs "p @ vec16 a" b post]) simp_all
    ultimately show ?thesis
      using PreSharedKey p(2) by (auto simp: sniff_ext_def ext_psk_def flow_bind_def)
  next
    case (OtherExt n b)
    with wf p(2) show ?thesis by (auto simp: sniff_ext_def special_types_def)
  qed
qed

section \<open>The server name is found\<close>

lemma string_slice: "bs = p @ xs @ post \<Longrightarrow> c = length p \<Longrightarrow> list_slice c (c + length xs) bs = xs"
  by (simp add: list_slice_def)

lemma sniff_ext_sni:
  assumes bs: "bs = pre @ ext_bytes (ServerNames (n # ns)) @ post"
    and len: "length (ext_body (ServerNames (n # ns))) < 65536"
  shows "sniff_ext True True bs beyond 0 l (length pre + 4) (cd, peer)
    = Some (Return (cd\<lparr>SniffedServerName := string_of_bytes n\<rparr>, peer))"
proof -
  define rest where "rest = concat (map (\<lambda>n. 0 # vec16 n) ns)"
  define hdr where "hdr = pre @ take 4 (ext_bytes (ServerNames (n # ns)))"
  let ?list = "0 # vec16 n @ rest"
  have c: "length pre + 4 = length hdr" by (simp add: hdr_def ext_bytes_def)
  have b: "bs = hdr @ vec16 ?list @ post"
    by (simp add: bs hdr_def rest_def ext_bytes_def vec16_def)
  have len': "length ?list < 65536" using len by (simp add: rest_def)
  define lh where "lh = take 2 (vec16 ?list)"
  have lh: "length lh = 2" "vec16 ?list = lh @ ?list" by (simp_all add: lh_def vec16_def)
  have l: "int_at bs (length hdr) = Some (length ?list)" by (rule int_at_vec16 [OF b len' refl])
  have lb: "length bs = length hdr + 5 + length n + length rest + length post" by (simp add: b)
  have zero: "byte_at bs (length hdr + 2) = Some 0"
    using byte_at_append [of "hdr @ lh" 0] by (simp add: b lh)
  have "bs = (hdr @ lh @ [0]) @ vec16 n @ (rest @ post)" by (simp add: b lh(2))
  then have nn: "int_at bs (length hdr + 3) = Some (length n)"
    by (rule int_at_vec16) (use len' lh in simp_all)
  have "bs = (hdr @ lh @ 0 # take 2 (vec16 n)) @ n @ (rest @ post)" by (simp add: b lh(2)) (simp add: vec16_def)
  then have s: "list_slice (length hdr + 5) (length hdr + 5 + length n) bs = n"
    by (rule string_slice) (use lh in \<open>simp add: vec16_def\<close>)
  have "sni_loop True bs (length hdr + 2 + length ?list) (length hdr + 2) cd
      = Some (Return (cd\<lparr>SniffedServerName := string_of_bytes n\<rparr>))"
    using zero nn s lb by (subst sni_loop.simps) (simp add: eval_nat_numeral)
  with l lb show ?thesis
    unfolding c by (simp add: sniff_ext_def ext_server_name_def)
qed

lemma ext_loop_step:
  assumes "bs = pre @ ext_bytes e @ post" "ext_wf e" "length (ext_body e) < 65536"
  shows "ext_loop h o' bs beyond (length pre) s =
    sniff_ext h o' bs beyond (ext_type e) (length (ext_body e)) (length pre + 4) s \<bind>
      (\<lambda>r. case r of Return s' \<Rightarrow> Some s' | Continue c s' \<Rightarrow> ext_loop h o' bs beyond c s')"
proof -
  have "\<not> length bs \<le> length pre" by (simp add: assms(1))
  then show ?thesis
    by (subst ext_loop.simps, simp only: if_False)
      (rule ext_header [OF assms, of "\<lambda>et l. sniff_ext h o' bs beyond et l (length pre + 4) s \<bind>
        case_flow Some (ext_loop h o' bs beyond)"])
qed

definition skippable :: "hello_ext \<Rightarrow> bool" where
  "skippable e \<longleftrightarrow> ext_wf e \<and> length (ext_body e) < 65536 \<and> (case e of ServerNames ns \<Rightarrow> False | _ \<Rightarrow> True)"

lemma skippableD:
  "skippable e \<Longrightarrow> ext_wf e" "skippable e \<Longrightarrow> length (ext_body e) < 65536"
  "skippable e \<Longrightarrow> \<forall>ns. e \<noteq> ServerNames ns"
  by (auto simp: skippable_def)

lemma ext_loop_prefix:
  assumes "\<forall>e\<in>set es. skippable e" "SniffedServerName cd = []" "bs = pre @ concat (map ext_bytes es) @ post"
  shows "\<exists>cd'. ext_loop True True bs beyond (length pre) (cd, peer)
      = ext_loop True True bs beyond (length (pre @ concat (map ext_bytes es))) (cd', peer) \<and> quiet cd cd'"
  using assms
proof (induction es arbitrary: pre cd)
  case (Cons e es)
  from Cons.prems have b: "bs = pre @ ext_bytes e @ (concat (map ext_bytes es) @ post)" and w: "skippable e" by simp_all
  obtain cd1 where s: "sniff_ext True True bs beyond (ext_type e) (length (ext_body e)) (length pre + 4) (cd, peer)
      = Some (Continue (length pre + length (ext_bytes e)) (cd1, peer))" and q: "quiet cd cd1"
    using sniff_ext_skips [OF b skippableD [OF w] Cons.prems(2)] by blast
  have "ext_loop True True bs beyond (length pre) (cd, peer)
      = ext_loop True True bs beyond (length (pre @ ext_bytes e)) (cd1, peer)"
    using s by (simp only: ext_loop_step [OF b skippableD(1,2) [OF w]]) simp
  moreover have "\<exists>cd'. ext_loop True True bs beyond (length (pre @ ext_bytes e)) (cd1, peer)
      = ext_loop True True bs beyond (length ((pre @ ext_bytes e) @ concat (map ext_bytes es))) (cd', peer)
      \<and> quiet cd1 cd'"
    by (rule Cons.IH) (use Cons.prems q in \<open>simp_all add: quiet_def\<close>)
  ultimately show ?case using q by (auto simp: quiet_def)
qed auto

lemma ext_loop_prefix0:
  assumes "\<forall>e\<in>set es. skippable e" "SniffedServerName cd = []" "bs = concat (map ext_bytes es) @ post"
  obtains cd' where "ext_loop True True bs beyond 0 (cd, peer)
      = ext_loop True True bs beyond (length (concat (map ext_bytes es))) (cd', peer)" "quiet cd cd'"
  using ext_loop_prefix [OF assms(1,2), of bs "[]" post] assms(3) by auto

lemma ext_loop_sni:
  assumes "\<forall>e\<in>set es. skippable e" "length (ext_body (ServerNames (n # ns))) < 65536" "SniffedServerName cd = []"
    and "bs = concat (map ext_bytes es) @ ext_bytes (ServerNames (n # ns)) @ post"
  shows "\<exists>cd'. ext_loop True True bs beyond 0 (cd, peer) = Some (cd', peer)
    \<and> SniffedServerName cd' = string_of_bytes n \<and> DefinitelyNotTLS cd' = DefinitelyNotTLS cd
    \<and> helloPacketPass cd' = helloPacketPass cd"
proof -
  let ?e = "ServerNames (n # ns)" and ?pre = "concat (map ext_bytes es)"
  obtain cd' where l: "ext_loop True True bs beyond 0 (cd, peer) = ext_loop True True bs beyond (length ?pre) (cd', peer)"
    and q: "quiet cd cd'"
    by (rule ext_loop_prefix0 [OF assms(1,3,4)])
  have "ext_loop True True bs beyond (length ?pre) (cd', peer)
      = Some (cd'\<lparr>SniffedServerName := string_of_bytes n\<rparr>, peer)"
    using ext_loop_step [OF assms(4) _ assms(2)] sniff_ext_sni [OF assms(4,2)] by simp
  with l q show ?thesis by (simp add: quiet_def)
qed

section \<open>The whole hello\<close>

record hello_fields =
  random :: bytes
  session_id :: bytes
  cipher_suites :: bytes
  compression_methods :: bytes

definition hello_wf :: "hello_fields \<Rightarrow> bool" where
  "hello_wf h \<longleftrightarrow> length (random h) = 32 \<and> length (session_id h) \<le> 32
     \<and> 2 \<le> length (cipher_suites h) \<and> length (cipher_suites h) < 65534
     \<and> 1 \<le> length (compression_methods h) \<and> length (compression_methods h) < 255"

definition hello_body :: "hello_fields \<Rightarrow> bytes \<Rightarrow> bytes" where
  "hello_body h exts = random h @ vec8 (session_id h) @ vec16 (cipher_suites h)
     @ vec8 (compression_methods h) @ vec16 exts"

text \<open>The record with the hello: record header, message type and 24-bit length, version 1.2.
  The length fields of the two headers are not looked at.\<close>

definition client_hello :: "byte \<Rightarrow> bytes \<Rightarrow> bytes \<Rightarrow> hello_fields \<Rightarrow> bytes \<Rightarrow> bytes" where
  "client_hello minor rlen mlen h exts = [22, 3, minor] @ rlen @ [1] @ mlen @ [3, 3] @ hello_body h exts"

lemma uint16_at_vec16: "uint16_at (vec16 xs @ post) 0 = Some (uint16_be (hi8 (int (length xs))) (lo8 (int (length xs))))"
  using uint16_at_split [of "[]"] by (simp add: vec16_def)

lemma sniff_pre:
  assumes "hello_wf h" "2 \<le> length exts"
  shows "sniff_commonHelloPre cd (hello_body h exts) = Some (Some (vec16 exts), cd)"
proof -
  let ?s = "session_id h" and ?c = "cipher_suites h" and ?m = "compression_methods h"
  have w: "length (random h) = 32" "length ?s \<le> 32" "length ?c < 65534" "length ?m < 255"
    using assms(1) by (simp_all add: hello_wf_def)
  have s: "unat (word_of_nat (length ?s) :: byte) = length ?s" "unat (word_of_nat (length ?m) :: byte) = length ?m"
    using w by (simp_all add: unat_of_nat)
  have c: "unat (uint16_be (hi8 (int (length ?c))) (lo8 (int (length ?c)))) = length ?c"
    using w by (intro unat_be_hi_lo) simp
  have s1: "unat (1 + (word_of_nat (length ?s) :: byte)) = 1 + length ?s"
    "unat (1 + (word_of_nat (length ?m) :: byte)) = 1 + length ?m"
    using w s by (simp_all add: unat_word_ariths)
  have c2: "unat (2 + uint16_be (hi8 (int (length ?c))) (lo8 (int (length ?c)))) = 2 + length ?c"
    using w c by (simp add: unat_word_ariths)
  show ?thesis
    using w s c s1 c2 assms(2)
    by (simp add: sniff_commonHelloPre_def hello_body_def uint16_at_vec16 byte_at_vec8 [of _ "[]"] vec8_def
      byte_at_def) (simp add: vec16_def)
qed

lemma sniff_hello_body:
  assumes "hello_wf h" "8 \<le> length exts" "length exts < 65534" "\<not> helloPacketPass cd" "\<not> DefinitelyNotTLS cd"
  shows "sniff_hello ic sni (hello_body h exts) past (cd, peer) = ext_loop ic sni exts past 0 (cd, peer)"
proof -
  have e: "unat (uint16_be (hi8 (int (length exts))) (lo8 (int (length exts)))) = length exts"
    using assms(3) by (intro unat_be_hi_lo) simp
  have e2: "unat (2 + uint16_be (hi8 (int (length exts))) (lo8 (int (length exts)))) = 2 + length exts"
    using assms(3) e by (simp add: unat_word_ariths)
  have "bytes_slice (vec16 exts) 2 (2 + length exts) = Some exts"
    by (simp add: list_slice_def) (simp add: vec16_def)
  then show ?thesis
    using assms e e2 uint16_at_vec16 [of exts "[]"] sniff_pre [OF assms(1), of exts]
    by (simp add: sniff_hello_def)
qed

lemma client_hello_detect:
  assumes "hello_wf h" "8 \<le> length exts" "length exts < 65534" "length rlen = 2" "length mlen = 3"
    and "packetCount cd = 0" "\<not> DefinitelyNotTLS cd" "\<not> helloPacketPass cd"
  shows "CommonDetect onlyTest (client_hello minor rlen mlen h exts) past True True (cd, peer) =
    (case ext_loop True True exts past 0 (cd, peer) of
       None \<Rightarrow> None
     | Some (cd', peer') \<Rightarrow> Some (incr (if DefinitelyNotTLS cd' then (cd', peer')
                                      else pass_hello (cd'\<lparr>handshakeVer := VersionTLS12\<rparr>, peer'))))"
proof -
  let ?p = "client_hello minor rlen mlen h exts"
  have s: "sniff_hello True True (hello_body h exts) past (cd, peer) = ext_loop True True exts past 0 (cd, peer)"
    by (rule sniff_hello_body) (use assms in simp_all)
  obtain r1 r2 where r: "rlen = [r1, r2]" using assms(4) by (auto simp: numeral_2_eq_2 length_Suc_conv)
  obtain m1 m2 m3 where m: "mlen = [m1, m2, m3]" using assms(5) by (auto simp: numeral_3_eq_3 length_Suc_conv)
  have p: "?p = [22, 3, minor, r1, r2, 1, m1, m2, m3, 3, 3] @ hello_body h exts"
    by (simp add: client_hello_def r m)
  have b: "49 \<le> length (hello_body h exts)"
    using assms(1,2) by (simp add: hello_body_def hello_wf_def)
  have "client_hello_step ?p past True VersionTLS12 (cd, peer) =
      (case ext_loop True True exts past 0 (cd, peer) of None \<Rightarrow> None
       | Some (cd', peer') \<Rightarrow> Some (if DefinitelyNotTLS cd' then (cd', peer')
           else pass_hello (cd'\<lparr>handshakeVer := VersionTLS12\<rparr>, peer')))"
    using s b by (simp add: client_hello_step_def p split: option.splits)
  moreover have "uint16_be 3 3 = VersionTLS12" by (simp add: uint16_be_def VersionTLS12_def)
  ultimately have "detect_first ?p past True True (cd, peer) = (case ext_loop True True exts past 0 (cd, peer) of None \<Rightarrow> None
       | Some (cd', peer') \<Rightarrow> Some (if DefinitelyNotTLS cd' then (cd', peer')
           else pass_hello (cd'\<lparr>handshakeVer := VersionTLS12\<rparr>, peer')))"
    by (simp add: detect_first_def p byte_at_def)
  then show ?thesis
    using assms(6) by (simp add: CommonDetect_def p byte_at_def split: option.splits)
qed

lemma client_hello_named:
  assumes "hello_wf h" "\<forall>e\<in>set es. skippable e" "length (ext_body (ServerNames (n # ns))) < 65536"
    and "exts = concat (map ext_bytes es) @ ext_bytes (ServerNames (n # ns)) @ tail" "length exts < 65534"
    and "length rlen = 2" "length mlen = 3"
    and "packetCount cd = 0" "\<not> DefinitelyNotTLS cd" "\<not> helloPacketPass cd" "SniffedServerName cd = []"
  shows "\<exists>cd'. CommonDetect onlyTest (client_hello minor rlen mlen h exts) past True True (cd, peer) = Some (cd', peer)
    \<and> SniffedServerName cd' = string_of_bytes n \<and> helloPacketPass cd' \<and> \<not> DefinitelyNotTLS cd'"
proof -
  obtain cd' where l: "ext_loop True True exts past 0 (cd, peer) = Some (cd', peer)"
    "SniffedServerName cd' = string_of_bytes n" "DefinitelyNotTLS cd' = DefinitelyNotTLS cd"
    "helloPacketPass cd' = helloPacketPass cd"
    using ext_loop_sni [OF assms(2,3,11,4)] by blast
  have long: "8 \<le> length exts" by (simp add: assms(4))
  have "CommonDetect onlyTest (client_hello minor rlen mlen h exts) past True True (cd, peer)
      = Some (incr (pass_hello (cd'\<lparr>handshakeVer := VersionTLS12\<rparr>, peer)))"
    using client_hello_detect [OF assms(1) long assms(5-10)] l(1,3) assms(9) by simp
  then show ?thesis
    using l assms(9) by (simp add: pass_hello_def incr_def)
qed

text \<open>C18: The server name of every client hello of TLS 1.2 or 1.3 is found: for a hello laid out by the
  RFCs, with any well-formed extensions of the kinds of \<open>hello_ext\<close> in front of the server name
  and anything behind it, sniffing for the server name alone neither panics nor rejects, and notes
  the first host name of the list.\<close>

theorem client_hello_sni:
  assumes "hello_wf h" "\<forall>e\<in>set es. skippable e" "length (ext_body (ServerNames (n # ns))) < 65536"
    and "exts = concat (map ext_bytes es) @ ext_bytes (ServerNames (n # ns)) @ tail" "length exts < 65534"
    and "length rlen = 2" "length mlen = 3"
    and "packetCount cd = 0" "\<not> DefinitelyNotTLS cd" "\<not> helloPacketPass cd" "SniffedServerName cd = []"
  shows "\<exists>cd'. CommonDetect onlyTest (client_hello minor rlen mlen h exts) past True True (cd, peer) = Some (cd', peer)
    \<and> SniffedServerName cd' = string_of_bytes n \<and> helloPacketPass cd' \<and> \<not> DefinitelyNotTLS cd'"
  using assms by (rule client_hello_named)

definition sample_hello_record :: hello_fields where
  "sample_hello_record = \<lparr>random = replicate 32 7, session_id = [1, 2, 3], cipher_suites = [0x13, 1, 0x13, 2],
     compression_methods = [0]\<rparr>"

definition sample_exts :: "hello_ext list" where
  "sample_exts = [OtherExt 0x2a2a [], ListExt 10 [0, 29], Alpn [[104, 50]], SupportedVersions [(3, 4), (3, 3)], Padding 3]"

lemma sample_exts_ok: "\<forall>e\<in>set sample_exts. skippable e" "length (concat (map ext_bytes sample_exts)) = 37"
  by (simp_all add: sample_exts_def skippable_def special_types_def)

lemma sample_hello_wf: "hello_wf sample_hello_record"
  by (simp add: hello_wf_def sample_hello_record_def)

theorem client_hello_sni_witness:
  "\<exists>cd'. CommonDetect False (client_hello 1 [0, 0] [0, 0, 0] sample_hello_record
       (concat (map ext_bytes sample_exts) @ ext_bytes (ServerNames [bytes_of_string ''a.b'']) @ [])) [] True True
       (new_ComSniff True False, None) = Some (cd', None)
    \<and> SniffedServerName cd' = ''a.b'' \<and> helloPacketPass cd' \<and> \<not> DefinitelyNotTLS cd'"
proof -
  have n: "string_of_bytes (bytes_of_string ''a.b'') = ''a.b''" by simp
  show ?thesis
    by (subst n [symmetric], rule client_hello_sni [OF sample_hello_wf sample_exts_ok(1) _ refl])
      (simp_all add: sample_exts_ok(2) new_ComSniff_def)
qed

section \<open>Hellos the sniffer does not survive\<close>

text \<open>An extension that is a vector with a one-byte length and not empty (client_certificate_type
  and server_certificate_type of RFC 7250), at the end of the list.\<close>

theorem certificate_type_panics:
  assumes "hello_wf h" "\<forall>e\<in>set es. skippable e" "t \<in> {19, 20}" "types \<noteq> []" "length types < 256"
    and "exts = concat (map ext_bytes es) @ [0, word_of_nat t] @ vec16 (vec8 types)" "8 \<le> length exts" "length exts < 65534"
    and "length rlen = 2" "length mlen = 3"
    and "packetCount cd = 0" "\<not> DefinitelyNotTLS cd" "\<not> helloPacketPass cd" "SniffedServerName cd = []"
  shows "CommonDetect onlyTest (client_hello minor rlen mlen h exts) past True True (cd, peer) = None"
proof -
  let ?pre = "concat (map ext_bytes es)"
  obtain cd' where l: "ext_loop True True exts past 0 (cd, peer) = ext_loop True True exts past (length ?pre) (cd', peer)"
    by (rule ext_loop_prefix0 [OF assms(2,14,6)])
  have "uint16_at exts (length ?pre) = Some (uint16_be 0 (word_of_nat t))"
    using uint16_at_split [of ?pre 0] by (simp add: assms(6))
  moreover have "unat (uint16_be 0 (word_of_nat t)) = t" using assms(3) by (auto simp: uint16_be_def)
  moreover obtain len where "uint16_at exts (length ?pre + 2) = Some len"
    using uint16_at_split [of "?pre @ [0, word_of_nat t]"] by (auto simp: assms(6) vec16_def)
  moreover have "byte_at exts (length ?pre + 4) = Some (word_of_nat (length types))"
    by (rule byte_at_vec8 [of _ "?pre @ [0, word_of_nat t] @ take 2 (vec16 (vec8 types))" types "[]"])
      (simp_all add: assms(6) vec16_def)
  moreover have "length exts = length ?pre + 5 + length types" by (simp add: assms(6))
  moreover have "ext_loop True True exts past (length ?pre + 4 + length types) s = None" for s
    using \<open>length exts = _\<close> by (subst ext_loop.simps) (simp add: uint16_at_def byte_at_def)
  ultimately have "ext_loop True True exts past (length ?pre) (cd', peer) = None"
    using assms(3,5)
    by (subst ext_loop.simps) (auto simp: sniff_ext_def skip8_in_place_def)
  then show ?thesis
    using client_hello_detect [OF assms(1,7-13)] l by simp
qed

theorem certificate_type_panics_witness:
  "CommonDetect False (client_hello 1 [0, 0] [0, 0, 0] sample_hello_record
     (concat (map ext_bytes sample_exts) @ [0, word_of_nat 19] @ vec16 (vec8 [2]))) [] True True
     (new_ComSniff True False, None) = None"
  by (rule certificate_type_panics [OF sample_hello_wf sample_exts_ok(1) _ _ _ refl])
    (simp_all add: sample_exts_ok(2) new_ComSniff_def)

text \<open>max_fragment_length (RFC 6066) is compared with the lengths, not with the codes 1 to 4 that
  stand for them: a hello with any of the four codes counts as not TLS.\<close>

theorem max_fragment_length_rejected:
  assumes "hello_wf h" "\<forall>e\<in>set es. skippable e" "m \<in> {1, 2, 3, 4}"
    and "exts = concat (map ext_bytes es) @ ([0, 1] @ vec16 [m]) @ tail" "8 \<le> length exts" "length exts < 65534"
    and "length rlen = 2" "length mlen = 3"
    and "packetCount cd = 0" "\<not> DefinitelyNotTLS cd" "\<not> helloPacketPass cd" "SniffedServerName cd = []"
  shows "\<exists>cd'. CommonDetect onlyTest (client_hello minor rlen mlen h exts) past True True (cd, peer) = Some (cd', peer)
    \<and> DefinitelyNotTLS cd' \<and> handshakeFailReason cd' = 23"
proof -
  let ?pre = "concat (map ext_bytes es)"
  obtain cd' where l: "ext_loop True True exts past 0 (cd, peer) = ext_loop True True exts past (length ?pre) (cd', peer)"
    by (rule ext_loop_prefix0 [OF assms(2,12,4)])
  have "uint16_at exts (length ?pre) = Some (uint16_be 0 1)"
    using uint16_at_split [of ?pre 0] by (simp add: assms(4))
  moreover have "unat (uint16_be 0 1) = 1" by (simp add: uint16_be_def)
  moreover obtain len where "uint16_at exts (length ?pre + 2) = Some len"
    using uint16_at_split [of "?pre @ [0, 1]"] by (auto simp: assms(4) vec16_def)
  moreover have "byte_at exts (length ?pre + 4) = Some m"
    by (simp add: assms(4) vec16_def byte_at_def nth_append)
  moreover have "unat m \<notin> {2 * 2 ^ 9, 2 * 2 ^ 10, 2 * 2 ^ 11, 2 * 2 ^ 12}"
    using unat_less_256 [of m] by auto
  ultimately have "ext_loop True True exts past (length ?pre) (cd', peer) = Some (not_tls 23 cd', peer)"
    using assms(4) by (subst ext_loop.simps) (auto simp: sniff_ext_def ext_max_fragment_length_def)
  then show ?thesis
    using client_hello_detect [OF assms(1,5-11)] l by (simp add: not_tls_def incr_def)
qed

theorem max_fragment_length_rejected_witness:
  "\<exists>cd'. CommonDetect False (client_hello 1 [0, 0] [0, 0, 0] sample_hello_record
       (concat (map ext_bytes sample_exts) @ ([0, 1] @ vec16 [2]) @ [])) [] True True
       (new_ComSniff True False, None) = Some (cd', None)
    \<and> DefinitelyNotTLS cd' \<and> handshakeFailReason cd' = 23"
  by (rule max_fragment_length_rejected [OF sample_hello_wf sample_exts_ok(1) _ refl])
    (simp_all add: sample_exts_ok(2) new_ComSniff_def)

text \<open>A hello whose declared session id reaches to the end of the packet is taken apart without
  looking for the cipher suites: the index past the end panics.\<close>

theorem long_session_id_panics:
  assumes "hello_head True p" "p ! 10 = 3" "16 \<le> unat (p ! 43)" "unat (p ! 43) < 255" "length p = 44 + unat (p ! 43)"
    and "packetCount cd = 0"
  shows "CommonDetect onlyTest p past True True (cd, peer) = None"
proof -
  let ?s = "p ! 43"
  have d: "drop 11 p ! 32 = ?s" "length (drop 11 p) = 33 + unat ?s"
    using assms(5) by simp_all
  have w: "unat (1 + ?s) = 1 + unat ?s" using assms(4) by (simp add: unat_word_ariths)
  have "sniff_commonHelloPre cd (drop 11 p) = None"
    using d w assms(5) by (simp add: sniff_commonHelloPre_def byte_at_def uint16_at_def)
  then have "client_hello_step p past True VersionTLS12 (cd, peer) = None"
    using assms(3,5) by (simp add: client_hello_step_def sniff_hello_def)
  moreover have "uint16_be 3 3 = VersionTLS12" by (simp add: uint16_be_def VersionTLS12_def)
  moreover have "byte_at p 0 = Some (p ! 0)" using assms(5) by (intro byte_at_0 [of 10]) simp
  ultimately show ?thesis
    using assms(1,2,5,6) by (simp add: CommonDetect_def detect_first_def hello_head_def)
qed

theorem long_session_id_panics_witness:
  "CommonDetect False ([22, 3, 1, 0, 55, 1, 0, 0, 51, 3, 3] @ replicate 32 0 @ [16] @ replicate 16 0) [] True True
     (new_ComSniff True False, None) = None"
  by (rule long_session_id_panics) (simp_all add: hello_head_def new_ComSniff_def nth_append)

end
