(* ===== verification/MainInbound.thy ===== *)
theory MainInbound
  imports MainPipeline TlsClientHello
begin

text \<open>
  \<open>ListenSer\<close> and \<open>handleNewIncomeConnection\<close> of \<open>main.go\<close>: what is listened on, and the
  layers that are put around an accepted connection before the proxy handshake of its server. As in
  \<open>MainDial\<close>, a connection is a term that shows its layers. The first read of an accepted connection,
  the TLS and websocket handshakes and what the proxy handshake finds are arguments. A multiplexing
  layer (grpc) gets the connection and calls back for each of its streams.
\<close>

section \<open>What is listened on\<close>

datatype listener =
    SelfListen bool bool
  | SuperListen
  | NetListen string

text \<open>\<open>self\<close> is what \<open>SelfListen\<close> returns, \<open>listens\<close> whether a listener could be started. The
  result is the listeners that are started and those that the returned closer stops.\<close>

definition self_network :: "bool \<times> int \<times> int \<Rightarrow> string \<Rightarrow> string" where
  "self_network self network =
     (case self of (is_self, tcp, udp) \<Rightarrow>
        if network = DualNetworkName \<and> is_self \<and> is_self \<noteq> (tcp = 1 \<and> udp = 1)
        then (if tcp = 1 then ''udp'' else ''tcp'')
        else network)"

definition ListenSer ::
    "(listener \<Rightarrow> bool) \<Rightarrow> bool \<times> int \<times> int \<Rightarrow> ('c, 'b) Base_scheme \<Rightarrow> listener list \<times> listener list" where
  "ListenSer listens self ser =
     (case self of (is_self, tcp, udp) \<Rightarrow>
        let own = SelfListen (tcp = 1) (udp = 1);
            extra = (if is_self \<and> listens own then [own] else []) in
        if is_self \<and> tcp + udp \<noteq> 1 then (extra, extra)
        else if (case b_AdvS ser of Some a \<Rightarrow> IsSuper a \<and> IsMux a | None \<Rightarrow> False) then
          (if listens SuperListen then (extra @ [SuperListen], [SuperListen]) else (extra, []))
        else
          let here = NetListen (self_network self (b_TransportLayer ser)) in
          if listens here then (extra @ [here], [here] @ extra) else (extra, extra))"

section \<open>The layers of an accepted connection\<close>

datatype inwire =
    LocalConn
  | TeeIn inwire
  | ReadAhead bytes inwire
  | TlsIn inwire
  | HeaderIn inwire
  | WsIn inwire

record tls_conf =
  RejectUnknownSni :: bool
  IsShadowTls :: bool
  tc_Host :: string

datatype tls_result = TlsOk "(string \<times> string) option" | TlsErr bool

record fallback_meta =
  fm_Path :: string
  fm_H1RequestBuf :: "bytes option"

datatype ws_result = WsOk | WsShouldFallback fallback_meta | WsErr

record inbound_env =
  ib_first_read :: "goerr + bytes"
  ib_past :: bytes
  ib_tls :: "inwire \<Rightarrow> tls_result"
  ib_ws :: "inwire \<Rightarrow> ws_result"
  ib_handshake :: "inwire \<Rightarrow> inserver_env"
  ib_header_pass :: "bool \<times> bytes option"

datatype inbound_end =
    InPanicked
  | InClosed
  | InLeftOpen
  | InMux inwire
  | InPassed pass_end

definition zero_ComSniff :: ComSniff where
  "zero_ComSniff = new_ComSniff False False"

text \<open>The test of the server name before the TLS handshake; \<open>None\<close> closes, \<open>Some None\<close> panics.\<close>

definition check_sni :: "inbound_env \<Rightarrow> tls_conf \<Rightarrow> inwire \<Rightarrow> inwire option option" where
  "check_sni ib tc w =
     (if \<not> RejectUnknownSni tc then Some (Some w)
      else case ib_first_read ib of
        Inl e \<Rightarrow> None
      | Inr firstpayload \<Rightarrow>
          (case CommonDetect False firstpayload (ib_past ib) True True (zero_ComSniff, None) of
             None \<Rightarrow> Some None
           | Some (cd, _) \<Rightarrow>
               if SniffedServerName cd = [] then None
               else if IsShadowTls tc \<and> SniffedServerName cd \<noteq> tc_Host tc then None
               else Some (Some (ReadAhead firstpayload w))))"

definition income_tls ::
    "inbound_env \<Rightarrow> tls_conf \<Rightarrow> ('c, 'b) Base_scheme \<Rightarrow> bool \<Rightarrow> inbound_end + inwire \<times> (string \<times> string) option" where
  "income_tls ib tc ser lazy =
     (if \<not> b_TLS ser then Inr (LocalConn, None)
      else case check_sni ib tc (if lazy then TeeIn LocalConn else LocalConn) of
        None \<Rightarrow> Inl InClosed
      | Some None \<Rightarrow> Inl InPanicked
      | Some (Some w) \<Rightarrow>
          (case ib_tls ib w of
             TlsErr do_not_close \<Rightarrow> Inl (if do_not_close then InLeftOpen else InClosed)
           | TlsOk tlsConn \<Rightarrow> Inr (TlsIn w, tlsConn)))"

definition income_header :: "('c, 'b) Base_scheme \<Rightarrow> inwire \<Rightarrow> inwire" where
  "income_header ser w =
     (if b_Header ser \<and> \<not> (case b_AdvS ser of Some a \<Rightarrow> CanHandleHeaders a | None \<Rightarrow> False) then HeaderIn w else w)"

definition has_header_layer :: "('c, 'b) Base_scheme \<Rightarrow> bool" where
  "has_header_layer ser \<longleftrightarrow> b_Header ser \<and> \<not> (case b_AdvS ser of Some a \<Rightarrow> CanHandleHeaders a | None \<Rightarrow> False)"

datatype income = InWire inwire | InFallback fallback_meta | InEnd inbound_end

definition income_adv :: "inbound_env \<Rightarrow> ('c, 'b) Base_scheme \<Rightarrow> inwire \<Rightarrow> income" where
  "income_adv ib ser w =
     (if b_AdvancedL ser = [] then InWire w
      else case b_AdvS ser of
        None \<Rightarrow> InEnd InPanicked
      | Some a \<Rightarrow>
          if IsSuper a then InWire w
          else if IsMux a then InEnd (InMux w)
          else (case ib_ws ib w of
                  WsOk \<Rightarrow> InWire (WsIn w)
                | WsShouldFallback meta \<Rightarrow> InFallback meta
                | WsErr \<Rightarrow> InEnd InClosed))"

text \<open>\<open>x\<close> is the state as it is made for a server and a default client.\<close>

definition income_layers ::
    "inbound_env \<Rightarrow> tls_conf \<Rightarrow> wire option proxy \<Rightarrow> inbound_end + income \<times> (string \<times> string) option" where
  "income_layers ib tc ser =
     (case income_tls ib tc ser (IsLazyTls ser \<and> CanLazyEncrypt ser) of
        Inl e \<Rightarrow> Inl e
      | Inr (w, tlsConn) \<Rightarrow> Inr (income_adv ib ser (income_header ser w), tlsConn))"

definition handleNewIncomeConnection ::
    "('c, 're, 'd) pass_env \<Rightarrow> inbound_env \<Rightarrow> tls_conf \<Rightarrow> wire option proxy \<Rightarrow> ('c, 're, 'd) incoming \<Rightarrow> inbound_end" where
  "handleNewIncomeConnection env ib tc ser x =
     (let x = x\<lparr>inServer := Some ser, isTlsLazyServerEnd := IsLazyTls ser \<and> CanLazyEncrypt ser, wrappedConn := Some PlainConn,
               heapObj := (if has_header_layer ser then Some (ib_header_pass ib) else heapObj x)\<rparr> in
      case income_layers ib tc ser of
        Inl e \<Rightarrow> e
      | Inr (InEnd e, tlsConn) \<Rightarrow> e
      | Inr (InFallback meta, tlsConn) \<Rightarrow>
          InPassed (passToOutClient env
            (x\<lparr>inServerTlsConn := tlsConn, requestPath := fm_Path meta, firstBuffer := fm_H1RequestBuf meta\<rparr>) True None None zero_Addr)
      | Inr (InWire w, tlsConn) \<Rightarrow>
          InPassed (handshakeInserver_and_passToOutClient env (ib_handshake ib w) (x\<lparr>inServerTlsConn := tlsConn\<rparr>)))"

section \<open>Listening\<close>

text \<open>What a listener accepts.\<close>

definition on_tcp :: "listener \<Rightarrow> nat" where
  "on_tcp l = (case l of SelfListen t u \<Rightarrow> of_bool t | SuperListen \<Rightarrow> 0 | NetListen n \<Rightarrow> of_bool (n = ''tcp'' \<or> n = DualNetworkName))"

definition on_udp :: "listener \<Rightarrow> nat" where
  "on_udp l = (case l of SelfListen t u \<Rightarrow> of_bool u | SuperListen \<Rightarrow> 1 | NetListen n \<Rightarrow> of_bool (n = ''udp'' \<or> n = DualNetworkName))"

text \<open>A server for both transports that listens to one or both of them itself is listened to once on
  each, and the closer stops every listener.\<close>

theorem ListenSer_covers_dual:
  assumes "\<And>l. listens l" "b_TransportLayer ser = DualNetworkName" "b_AdvS ser = None"
    and "is_self \<longrightarrow> (tcp, udp) \<in> {(1, 1), (1, 0), (0, 1)}"
  shows "sum_list (map on_tcp (fst (ListenSer listens (is_self, tcp, udp) ser))) = 1
    \<and> sum_list (map on_udp (fst (ListenSer listens (is_self, tcp, udp) ser))) = 1
    \<and> set (snd (ListenSer listens (is_self, tcp, udp) ser)) = set (fst (ListenSer listens (is_self, tcp, udp) ser))"
  using assms by (auto simp: ListenSer_def self_network_def on_tcp_def on_udp_def Let_def DualNetworkName_def)

section \<open>Server names\<close>

text \<open>C35: With \<open>RejectUnknownSni\<close> a connection gets through only if its first packet names a
  server, for ShadowTLS the configured one, and then the TLS handshake is given that packet again.\<close>

theorem unknown_sni_gets_nowhere:
  assumes "b_TLS ser" "RejectUnknownSni tc" "handleNewIncomeConnection env ib tc ser x = e"
    and "e \<noteq> InClosed" "e \<noteq> InPanicked" "e \<noteq> InLeftOpen"
  shows "\<exists>p cd peer below tlsConn. ib_first_read ib = Inr p
    \<and> CommonDetect False p (ib_past ib) True True (zero_ComSniff, None) = Some (cd, peer)
    \<and> SniffedServerName cd \<noteq> [] \<and> (IsShadowTls tc \<longrightarrow> SniffedServerName cd = tc_Host tc)
    \<and> ib_tls ib (ReadAhead p below) = TlsOk tlsConn \<and> below \<in> {LocalConn, TeeIn LocalConn}"
  using assms
  by (auto simp: handleNewIncomeConnection_def income_layers_def income_tls_def check_sni_def Let_def
      split: sum.splits option.splits if_splits tls_result.splits prod.splits income.splits)

section \<open>Both ends\<close>

primrec wire_layers :: "wire \<Rightarrow> string list" where
  "wire_layers (Dialed a) = []"
| "wire_layers (Teed w) = wire_layers w"
| "wire_layers (TlsOver w) = wire_layers w @ [''tls'']"
| "wire_layers (HeaderOver w) = wire_layers w @ [''http'']"
| "wire_layers CommonPooled = [''mux'']"
| "wire_layers (CommonOver w) = wire_layers w @ [''mux'']"
| "wire_layers (SubOf w) = wire_layers w"
| "wire_layers (WsOver w n) = wire_layers w @ [''ws'']"

primrec inwire_layers :: "inwire \<Rightarrow> string list" where
  "inwire_layers LocalConn = []"
| "inwire_layers (TeeIn w) = inwire_layers w"
| "inwire_layers (ReadAhead p w) = inwire_layers w"
| "inwire_layers (TlsIn w) = inwire_layers w @ [''tls'']"
| "inwire_layers (HeaderIn w) = inwire_layers w @ [''http'']"
| "inwire_layers (WsIn w) = inwire_layers w @ [''ws'']"

text \<open>The configurations of both ends name the same layers.\<close>

definition same_layers :: "('c, 'b) Base_scheme \<Rightarrow> ('c, 'd) Base_scheme \<Rightarrow> bool" where
  "same_layers cl ser \<longleftrightarrow> b_TLS cl = b_TLS ser \<and> b_Header cl = b_Header ser \<and> b_AdvancedL cl = b_AdvancedL ser
     \<and> b_AdvC cl = b_AdvS ser"

lemma income_tls_layers:
  "income_tls ib tc ser lazy = Inr (w, t) \<Longrightarrow> inwire_layers w = (if b_TLS ser then [''tls''] else [])"
  by (auto simp: income_tls_def check_sni_def split: if_splits option.splits sum.splits tls_result.splits prod.splits)

lemma plan_below_layers:
  "wire_layers (plan_below cl lazy a) = (if b_TLS cl then [''tls''] else []) @
     (if b_Header cl \<and> \<not> (case b_AdvC cl of Some adv \<Rightarrow> CanHandleHeaders adv | None \<Rightarrow> False) then [''http''] else [])"
  by (simp add: plan_below_def plan_tls_def header_layer_def)


section \<open>Examples\<close>

theorem ListenSer_covers_dual_witness:
  "fst (ListenSer (\<lambda>_. True) (True, 1, 0) (sample_Base\<lparr>b_TransportLayer := DualNetworkName\<rparr>)) = [SelfListen True False, NetListen ''udp'']
    \<and> sum_list (map on_udp (fst (ListenSer (\<lambda>_. True) (True, 1, 0) (sample_Base\<lparr>b_TransportLayer := DualNetworkName\<rparr>)))) = 1"
  using ListenSer_covers_dual [of "\<lambda>_. True" "sample_Base\<lparr>b_TransportLayer := DualNetworkName\<rparr>" True 1 0]
  by (simp add: ListenSer_def self_network_def sample_Base_def Let_def)

definition sample_hello :: bytes where
  "sample_hello = client_hello 1 [0, 0] [0, 0, 0] sample_hello_record
     (concat (map ext_bytes sample_exts) @ ext_bytes (ServerNames [bytes_of_string ''a.b'']) @ [])"

definition sample_inbound_env :: inbound_env where
  "sample_inbound_env = \<lparr>ib_first_read = Inr sample_hello, ib_past = [], ib_tls = (\<lambda>_. TlsOk None), ib_ws = (\<lambda>_. WsOk),
     ib_handshake = (\<lambda>_. sample_inserver_env (Inl (ErrBuffer ErrInvalidData [9]))), ib_header_pass = (False, None)\<rparr>"

definition sample_tls_conf :: tls_conf where
  "sample_tls_conf = \<lparr>RejectUnknownSni = True, IsShadowTls = True, tc_Host = ''a.b''\<rparr>"

lemma sample_hello_named:
  "\<exists>cd. CommonDetect False sample_hello [] True True (zero_ComSniff, None) = Some (cd, None) \<and> SniffedServerName cd = ''a.b''"
proof -
  have n: "string_of_bytes (bytes_of_string ''a.b'') = ''a.b''" by simp
  have "\<exists>cd. CommonDetect False sample_hello [] True True (zero_ComSniff, None) = Some (cd, None)
      \<and> SniffedServerName cd = string_of_bytes (bytes_of_string ''a.b'') \<and> helloPacketPass cd \<and> \<not> DefinitelyNotTLS cd"
    unfolding sample_hello_def
    by (rule client_hello_named [OF sample_hello_wf sample_exts_ok(1) _ refl])
      (simp_all add: sample_exts_ok(2) zero_ComSniff_def new_ComSniff_def)
  then show ?thesis by auto
qed

theorem unknown_sni_gets_nowhere_witness:
  "\<exists>e cd peer. handleNewIncomeConnection sample_pass_env sample_inbound_env sample_tls_conf ((sample_server ''trojan'')\<lparr>b_TLS := True\<rparr>)
       (sample_incoming sample_Base) = InPassed e
    \<and> CommonDetect False sample_hello [] True True (zero_ComSniff, None) = Some (cd, peer) \<and> SniffedServerName cd = ''a.b''"
proof -
  let ?ser = "(sample_server ''trojan'')\<lparr>b_TLS := True\<rparr>"
  have f: "b_TLS ?ser" "b_AdvancedL ?ser = []" "\<not> has_header_layer ?ser" "\<not> b_Header ?ser"
    by (simp_all add: sample_server_def sample_Base_def has_header_layer_def)
  obtain cd where "CommonDetect False sample_hello [] True True (zero_ComSniff, None) = Some (cd, None)" "SniffedServerName cd = ''a.b''"
    using sample_hello_named by auto
  then obtain e where h: "handleNewIncomeConnection sample_pass_env sample_inbound_env sample_tls_conf ?ser (sample_incoming sample_Base) = InPassed e"
    using f by (auto simp: handleNewIncomeConnection_def income_layers_def income_tls_def check_sni_def income_adv_def income_header_def
        sample_inbound_env_def sample_tls_conf_def Let_def)
  from unknown_sni_gets_nowhere [OF f(1) _ h] obtain p cd peer where "ib_first_read sample_inbound_env = Inr p"
    "CommonDetect False p (ib_past sample_inbound_env) True True (zero_ComSniff, None) = Some (cd, peer)" "SniffedServerName cd = tc_Host sample_tls_conf"
    by (auto simp: sample_tls_conf_def)
  with h show ?thesis by (auto simp: sample_inbound_env_def sample_tls_conf_def)
qed

lemma sample_all_ok_plan: "\<exists>w'. require_all all_ok es w = (Inr (), w')"
  by (induction es arbitrary: w) (auto simp: ret_def require_def attempt_def andthen_def all_ok_def Let_def)


end
