(* ===== verification/UtilsHeap.thy ===== *)
theory UtilsHeap
  imports V2Prelude "HOL-Library.Multiset"
begin

text \<open>
  The heap of utils/algo_heap.go: an array and a comparison of two positions of it. The locale
  \<open>priority_queue\<close> is what its callers rely on, an abstract specification over multisets; the code's operations
  interpret it for every strict weak order. An index out of range is a panic, \<open>None\<close>.
\<close>

section \<open>The operations\<close>

type_synonym 'a less_func = "nat \<Rightarrow> nat \<Rightarrow> 'a list \<Rightarrow> bool"

definition heap_swap :: "nat \<Rightarrow> nat \<Rightarrow> 'a list \<Rightarrow> 'a list" where
  "heap_swap i j a = a[i := a ! j, j := a ! i]"

function heap_up :: "'a less_func \<Rightarrow> nat \<Rightarrow> 'a list \<Rightarrow> 'a list" where
  "heap_up lf j a =
     (let i = (j - 1) div 2 in
      if i = j \<or> \<not> lf j i a then a else heap_up lf i (heap_swap i j a))"
  by pat_completeness auto
termination by (relation "measure (\<lambda>(lf, j, a). j)") auto

text \<open>The position reached, and the array.\<close>

function heap_sift :: "'a less_func \<Rightarrow> nat \<Rightarrow> nat \<Rightarrow> 'a list \<Rightarrow> nat \<times> 'a list" where
  "heap_sift lf i n a =
     (let j1 = 2 * i + 1 in
      if j1 \<ge> n then (i, a)
      else
        let j2 = j1 + 1; j = (if j2 < n \<and> lf j2 j1 a then j2 else j1) in
        if \<not> lf j i a then (i, a) else heap_sift lf j n (heap_swap i j a))"
  by pat_completeness auto
termination by (relation "measure (\<lambda>(lf, i, n, a). n - i)") (auto split: if_splits)

definition heap_down :: "'a less_func \<Rightarrow> nat \<Rightarrow> nat \<Rightarrow> 'a list \<Rightarrow> bool \<times> 'a list" where
  "heap_down lf i0 n a = (case heap_sift lf i0 n a of (i, a) \<Rightarrow> (i > i0, a))"

declare heap_up.simps [simp del] heap_sift.simps [simp del]

fun heap_Init_loop :: "'a less_func \<Rightarrow> nat \<Rightarrow> 'a list \<Rightarrow> 'a list" where
  "heap_Init_loop lf 0 a = a"
| "heap_Init_loop lf (Suc i) a = heap_Init_loop lf i (snd (heap_down lf i (length a) a))"

definition heap_Init :: "'a less_func \<Rightarrow> 'a list \<Rightarrow> 'a list" where
  "heap_Init lf a = heap_Init_loop lf (length a div 2) a"

definition heap_rawPush :: "'a \<Rightarrow> 'a list \<Rightarrow> 'a list" where "heap_rawPush x a = a @ [x]"

definition heap_rawPop :: "'a list \<Rightarrow> ('a \<times> 'a list) option" where
  "heap_rawPop a = (if a = [] then None else Some (last a, butlast a))"

definition heap_Push :: "'a less_func \<Rightarrow> 'a \<Rightarrow> 'a list \<Rightarrow> 'a list" where
  "heap_Push lf x a = (let a = heap_rawPush x a in heap_up lf (length a - 1) a)"

definition heap_Pop :: "'a less_func \<Rightarrow> 'a list \<Rightarrow> ('a \<times> 'a list) option" where
  "heap_Pop lf a =
     (if a = [] then None
      else let n = length a - 1 in heap_rawPop (snd (heap_down lf 0 n (heap_swap 0 n a))))"

definition heap_Fix :: "'a less_func \<Rightarrow> nat \<Rightarrow> 'a list \<Rightarrow> 'a list" where
  "heap_Fix lf i a = (case heap_down lf i (length a) a of (moved, a) \<Rightarrow> if \<not> moved then heap_up lf i a else a)"

definition heap_Remove :: "'a less_func \<Rightarrow> nat \<Rightarrow> 'a list \<Rightarrow> ('a \<times> 'a list) option" where
  "heap_Remove lf i a =
     (if i \<ge> length a then None
      else let n = length a - 1 in
        heap_Pop lf
          (if n \<noteq> i then (case heap_down lf i n (heap_swap i n a) of (moved, a) \<Rightarrow> if \<not> moved then heap_up lf i a else a)
           else a))"

section \<open>The heap property\<close>

definition by_elem :: "('a \<Rightarrow> 'a \<Rightarrow> bool) \<Rightarrow> 'a less_func" where
  "by_elem lt i j a = lt (a ! i) (a ! j)"

definition parent :: "nat \<Rightarrow> nat" where "parent k = (k - 1) div 2"

text \<open>Position \<open>k\<close> is not less than its parent.\<close>

definition ordered_at :: "('a \<Rightarrow> 'a \<Rightarrow> bool) \<Rightarrow> 'a list \<Rightarrow> nat \<Rightarrow> bool" where
  "ordered_at lt a k \<longleftrightarrow> \<not> lt (a ! k) (a ! parent k)"

definition heap_from :: "('a \<Rightarrow> 'a \<Rightarrow> bool) \<Rightarrow> nat \<Rightarrow> nat \<Rightarrow> 'a list \<Rightarrow> bool" where
  "heap_from lt m n a \<longleftrightarrow> (\<forall>k. 0 < k \<longrightarrow> k < n \<longrightarrow> m \<le> parent k \<longrightarrow> ordered_at lt a k)"

abbreviation is_heap :: "('a \<Rightarrow> 'a \<Rightarrow> bool) \<Rightarrow> 'a list \<Rightarrow> bool" where
  "is_heap lt a \<equiv> heap_from lt 0 (length a) a"

lemma heap_swap_length [simp]: "length (heap_swap i j a) = length a"
  by (simp add: heap_swap_def)

lemma heap_swap_nth:
  "i < length a \<Longrightarrow> j < length a \<Longrightarrow> heap_swap i j a ! k = (if k = i then a ! j else if k = j then a ! i else a ! k)"
  by (auto simp: heap_swap_def nth_list_update)

lemma heap_swap_mset: "i < length a \<Longrightarrow> j < length a \<Longrightarrow> mset (heap_swap i j a) = mset a"
  by (simp add: heap_swap_def mset_swap)

lemma parent_less: "0 < k \<Longrightarrow> parent k < k"
  by (auto simp: parent_def)

lemma parent_child: "parent (2 * i + 1) = i" "parent (2 * i + 2) = i"
  by (simp_all add: parent_def)

lemma parent_eq: "0 < k \<Longrightarrow> parent k = i \<longleftrightarrow> k = 2 * i + 1 \<or> k = 2 * i + 2"
  by (auto simp: parent_def)

lemma heap_up_unfold:
  "heap_up lf j a = (if parent j = j \<or> \<not> lf j (parent j) a then a else heap_up lf (parent j) (heap_swap (parent j) j a))"
  by (subst heap_up.simps) (simp add: parent_def Let_def)

section \<open>A strict weak order\<close>

locale weak_order =
  fixes lt :: "'a \<Rightarrow> 'a \<Rightarrow> bool"
  assumes asym: "lt x y \<Longrightarrow> \<not> lt y x"
    and neg_trans: "\<not> lt x y \<Longrightarrow> \<not> lt y z \<Longrightarrow> \<not> lt x z"
begin

lemma irrefl: "\<not> lt x x"
  using asym by blast

text \<open>Sifting up: everything is in order except position \<open>j\<close>, whose children are in order with its parent.\<close>

lemma up_correct:
  assumes "j < n" "n \<le> length a"
    "\<And>k. 0 < k \<Longrightarrow> k < n \<Longrightarrow> k \<noteq> j \<Longrightarrow> ordered_at lt a k"
    "\<And>k. 0 < k \<Longrightarrow> k < n \<Longrightarrow> parent k = j \<Longrightarrow> 0 < j \<Longrightarrow> \<not> lt (a ! k) (a ! parent j)"
  shows "heap_from lt 0 n (heap_up (by_elem lt) j a) \<and> mset (heap_up (by_elem lt) j a) = mset a \<and>
    (\<forall>k > j. heap_up (by_elem lt) j a ! k = a ! k)"
  using assms
proof (induction j arbitrary: a rule: less_induct)
  case (less j)
  let ?p = "parent j"
  show ?case
  proof (cases "?p = j \<or> \<not> lt (a ! j) (a ! ?p)")
    case True
    have "ordered_at lt a k" if "0 < k" "k < n" for k
      using less.prems(3) [OF that] True that parent_less [of j] irrefl by (cases "k = j") (auto simp: ordered_at_def)
    with True show ?thesis by (subst (1 2 3) heap_up_unfold) (simp add: by_elem_def heap_from_def)
  next
    case False
    then have j: "0 < j" "?p < j" using parent_less [of j] by (cases j; simp add: parent_def)+
    let ?b = "heap_swap ?p j a"
    have nth: "?b ! k = (if k = ?p then a ! j else if k = j then a ! ?p else a ! k)" for k
      using heap_swap_nth [of ?p a j] j less.prems(1,2) by simp
    have "heap_from lt 0 n (heap_up (by_elem lt) ?p ?b) \<and> mset (heap_up (by_elem lt) ?p ?b) = mset ?b \<and>
        (\<forall>k > ?p. heap_up (by_elem lt) ?p ?b ! k = ?b ! k)"
    proof (rule less.IH [OF j(2)])
      show "?p < n" "n \<le> length ?b" using j less.prems(1,2) by simp_all
    next
      fix k assume k: "0 < k" "k < n" "k \<noteq> ?p"
      show "ordered_at lt ?b k"
      proof (cases "k = j")
        case True
        with False j show ?thesis by (auto simp: ordered_at_def nth dest: asym)
      next
        case kj: False
        show ?thesis
        proof (cases "parent k = j")
          case True
          with less.prems(4) [OF k(1,2) True j(1)] kj k j show ?thesis by (auto simp: ordered_at_def nth)
        next
          case False
          with less.prems(3) [OF k(1,2) kj] kj k \<open>\<not> (?p = j \<or> \<not> lt (a ! j) (a ! ?p))\<close> show ?thesis
            by (auto simp: ordered_at_def nth) (metis asym neg_trans)
        qed
      qed
    next
      fix k assume k: "0 < k" "k < n" "parent k = ?p" "0 < ?p"
      have pp: "parent ?p < ?p" by (rule parent_less [OF k(4)])
      have "\<not> lt (a ! ?p) (a ! parent ?p)" using less.prems(3) [of ?p] k(4) j less.prems(1) by (simp add: ordered_at_def)
      moreover have "\<not> lt (a ! k) (a ! ?p)" if "k \<noteq> j" using less.prems(3) [OF k(1,2) that] k(3) by (simp add: ordered_at_def)
      ultimately have "\<not> lt (a ! k) (a ! parent ?p)" if "k \<noteq> j" using that neg_trans by blast
      with \<open>\<not> lt (a ! ?p) (a ! parent ?p)\<close> show "\<not> lt (?b ! k) (?b ! parent ?p)"
        using pp j k parent_less [OF k(1)] by (auto simp: nth)
    qed
    moreover have "mset ?b = mset a" using j less.prems(1,2) by (simp add: heap_swap_mset)
    ultimately show ?thesis using False j nth by (subst (1 2 3) heap_up_unfold) (simp add: by_elem_def)
  qed
qed

text \<open>Sifting down: everything above \<open>m\<close> is in order except the children of \<open>i\<close>, which are in order with its
  parent.\<close>

lemma sift_unfold:
  "heap_sift (by_elem lt) i n a =
     (if n \<le> 2 * i + 1 then (i, a)
      else let j = (if 2 * i + 2 < n \<and> lt (a ! (2 * i + 2)) (a ! (2 * i + 1)) then 2 * i + 2 else 2 * i + 1) in
        if \<not> lt (a ! j) (a ! i) then (i, a) else heap_sift (by_elem lt) j n (heap_swap i j a))"
  by (subst heap_sift.simps) (simp add: Let_def by_elem_def)

lemma sift_correct:
  assumes "m \<le> i" "i < n" "n \<le> length a"
    "\<And>k. 0 < k \<Longrightarrow> k < n \<Longrightarrow> m \<le> parent k \<Longrightarrow> parent k \<noteq> i \<Longrightarrow> ordered_at lt a k"
    "\<And>k. 0 < k \<Longrightarrow> k < n \<Longrightarrow> parent k = i \<Longrightarrow> 0 < i \<Longrightarrow> m \<le> parent i \<Longrightarrow> \<not> lt (a ! k) (a ! parent i)"
  shows "(case heap_sift (by_elem lt) i n a of (i', b) \<Rightarrow> heap_from lt m n b \<and> mset b = mset a \<and>
    i \<le> i' \<and> (i' = i \<longrightarrow> b = a) \<and> (\<forall>k \<ge> n. k < length a \<longrightarrow> b ! k = a ! k) \<and> length b = length a)"
  using assms
proof (induction "n - i" arbitrary: i a rule: less_induct)
  case less
  show ?case
  proof (cases "n \<le> 2 * i + 1")
    case True
    have "ordered_at lt a k" if "0 < k" "k < n" "m \<le> parent k" for k
      using less.prems(4) [OF that] that True by (auto simp: parent_eq)
    with True show ?thesis by (subst sift_unfold) (simp add: heap_from_def)
  next
    case False
    define j where "j = (if 2 * i + 2 < n \<and> lt (a ! (2 * i + 2)) (a ! (2 * i + 1)) then 2 * i + 2 else 2 * i + 1)"
    have j: "i < j" "j < n" "parent j = i" "0 < j" using False by (auto simp: parent_def j_def)
    have unf: "heap_sift (by_elem lt) i n a =
        (if \<not> lt (a ! j) (a ! i) then (i, a) else heap_sift (by_elem lt) j n (heap_swap i j a))"
      unfolding j_def using False by (subst sift_unfold) (simp add: Let_def)
    have smallest: "\<not> lt (a ! k) (a ! j)" if "0 < k" "k < n" "parent k = i" for k
      using that irrefl asym by (auto simp: parent_eq j_def)
    show ?thesis
    proof (cases "lt (a ! j) (a ! i)")
      case no: False
      have "ordered_at lt a k" if k: "0 < k" "k < n" "m \<le> parent k" for k
      proof (cases "parent k = i")
        case True
        with smallest [OF k(1,2)] no neg_trans [of "a ! k" "a ! j" "a ! i"] show ?thesis by (simp add: ordered_at_def)
      qed (rule less.prems(4) [OF k])
      with no False show ?thesis by (simp add: unf heap_from_def)
    next
      case yes: True
      let ?b = "heap_swap i j a"
      have nth: "?b ! k = (if k = i then a ! j else if k = j then a ! i else a ! k)" for k
        using heap_swap_nth [of i a j k] j less.prems(2,3) by simp
      have "case heap_sift (by_elem lt) j n ?b of (i', b) \<Rightarrow> heap_from lt m n b \<and> mset b = mset ?b \<and>
          j \<le> i' \<and> (i' = j \<longrightarrow> b = ?b) \<and> (\<forall>k \<ge> n. k < length ?b \<longrightarrow> b ! k = ?b ! k) \<and> length b = length ?b"
      proof (rule less.hyps)
        show "n - j < n - i" using j by simp
        show "m \<le> j" "j < n" "n \<le> length ?b" using j less.prems(1,3) by (auto)
      next
        fix k assume k: "0 < k" "k < n" "m \<le> parent k" "parent k \<noteq> j"
        show "ordered_at lt ?b k"
        proof (cases "parent k = i")
          case True
          have "\<not> lt (a ! k) (a ! j)" by (rule smallest [OF k(1,2) True])
          moreover have "\<not> lt (a ! i) (a ! j)" by (rule asym [OF yes])
          moreover have "k \<noteq> i" using True parent_less [OF k(1)] by auto
          ultimately show ?thesis using True by (auto simp: ordered_at_def nth)
        next
          case pk: False
          show ?thesis
          proof (cases "k = i")
            case True
            have "m \<le> parent i" using k(3) True by simp
            from less.prems(5) [OF j(4,2,3) _ this] k True parent_less [of i] j(1) show ?thesis
              by (auto simp: ordered_at_def nth)
          next
            case False
            with less.prems(4) [OF k(1-3) pk] pk k(4) j(3) show ?thesis
              by (auto simp: ordered_at_def nth)
          qed
        qed
      next
        fix k assume k: "0 < k" "k < n" "parent k = j" "0 < j" "m \<le> parent j"
        have "m \<le> parent k" "parent k \<noteq> i" using less.prems(1) j k by (auto)
        from less.prems(4) [OF k(1,2) this] have "\<not> lt (a ! k) (a ! j)" using k(3) by (simp add: ordered_at_def)
        moreover have "k \<noteq> j" "k \<noteq> i" using parent_less [OF k(1)] k(3) j(1) by auto
        ultimately show "\<not> lt (?b ! k) (?b ! parent j)" unfolding j(3) nth by (simp)
      qed
      moreover have "mset ?b = mset a" using j less.prems(2,3) by (simp add: heap_swap_mset)
      moreover have "heap_sift (by_elem lt) i n a = heap_sift (by_elem lt) j n ?b"
        using yes by (simp add: unf)
      ultimately show ?thesis using j nth by (auto)
    qed
  qed
qed

lemma root_min: "heap_from lt 0 n a \<Longrightarrow> k < n \<Longrightarrow> \<not> lt (a ! k) (a ! 0)"
proof (induction k rule: less_induct)
  case (less k)
  show ?case
  proof (cases "k = 0")
    case False
    then have p: "parent k < k" by (simp add: parent_less)
    then have "\<not> lt (a ! parent k) (a ! 0)" using less by simp
    moreover have "\<not> lt (a ! k) (a ! parent k)" using less.prems False by (simp add: heap_from_def ordered_at_def)
    ultimately show ?thesis using neg_trans by blast
  qed (simp add: irrefl)
qed

lemma heap_from_take: "heap_from lt 0 n a \<Longrightarrow> n \<le> length a \<Longrightarrow> is_heap lt (take n a)"
  using parent_less by (auto simp: heap_from_def ordered_at_def) (metis less_trans nth_take)

lemma Push_correct:
  assumes "is_heap lt a"
  shows "is_heap lt (heap_Push (by_elem lt) x a) \<and> mset (heap_Push (by_elem lt) x a) = add_mset x (mset a)"
proof -
  let ?b = "a @ [x]"
  have "heap_from lt 0 (length ?b) (heap_up (by_elem lt) (length a) ?b) \<and> mset (heap_up (by_elem lt) (length a) ?b) = mset ?b \<and>
      (\<forall>k > length a. heap_up (by_elem lt) (length a) ?b ! k = ?b ! k)"
  proof (rule up_correct)
    fix k assume k: "0 < k" "k < length ?b" "k \<noteq> length a"
    with parent_less [of k] assms show "ordered_at lt ?b k" by (simp add: heap_from_def ordered_at_def nth_append)
  next
    fix k assume k: "0 < k" "k < length ?b" "parent k = length a"
    with parent_less [of k] show "\<not> lt (?b ! k) (?b ! parent (length a))" by simp
  qed simp_all
  moreover from this have "length (heap_up (by_elem lt) (length a) ?b) = length ?b" by (metis size_mset)
  ultimately show ?thesis by (simp add: heap_Push_def heap_rawPush_def)
qed

lemma Pop_correct:
  assumes "heap_from lt 0 (length a - 1) a" "a \<noteq> []"
  shows "\<exists>b. heap_Pop (by_elem lt) a = Some (a ! 0, b) \<and> is_heap lt b \<and> mset a = add_mset (a ! 0) (mset b)"
proof -
  define n where "n = length a - 1"
  let ?b = "heap_swap 0 n a"
  have n: "n < length a" "length a - 1 = n" using assms(2) by (auto simp: n_def)
  obtain i c where c: "heap_sift (by_elem lt) 0 n ?b = (i, c)" by fastforce
  have nth: "?b ! k = (if k = 0 then a ! n else if k = n then a ! 0 else a ! k)" for k
    using heap_swap_nth [of 0 a n k] assms(2) n by simp
  have mb: "mset ?b = mset a" using assms(2) n by (simp add: heap_swap_mset)
  have fin: "heap_from lt 0 n c \<and> mset c = mset a \<and> length c = length a \<and> c ! n = a ! 0"
  proof (cases "n = 0")
    case True
    then have "c = ?b" using c by (simp add: sift_unfold)
    with True mb nth show ?thesis by (simp add: heap_from_def)
  next
    case False
    have "case heap_sift (by_elem lt) 0 n ?b of (i', b) \<Rightarrow> heap_from lt 0 n b \<and> mset b = mset ?b \<and>
        0 \<le> i' \<and> (i' = 0 \<longrightarrow> b = ?b) \<and> (\<forall>k \<ge> n. k < length ?b \<longrightarrow> b ! k = ?b ! k) \<and> length b = length ?b"
    proof (rule sift_correct)
      fix k assume k: "0 < k" "k < n" "parent k \<noteq> 0"
      with assms(1) n parent_less [of k] show "ordered_at lt ?b k" by (simp add: heap_from_def ordered_at_def nth)
    qed (use False n in simp_all)
    with c mb nth n False show ?thesis by auto
  qed
  then have ne: "c \<noteq> []" using assms(2) by auto
  then have "last c = a ! 0" "butlast c = take n c" using fin n by (simp_all add: last_conv_nth butlast_conv_take)
  then have "mset c = add_mset (a ! 0) (mset (take n c))" "heap_Pop (by_elem lt) a = Some (a ! 0, take n c)"
    using ne c assms(2) append_butlast_last_id [OF ne]
    by (metis add_mset_add_single mset.simps(1,2) mset_append, simp add: heap_Pop_def Let_def heap_down_def heap_rawPop_def n(2)[simplified])
  with fin n heap_from_take [of n c] show ?thesis by (intro exI [of _ "take n c"]) (simp add: min_absorb2)
qed

lemma Init_loop_correct:
  "heap_from lt i (length a) a \<Longrightarrow> 2 * i \<le> length a \<Longrightarrow>
   is_heap lt (heap_Init_loop (by_elem lt) i a) \<and> mset (heap_Init_loop (by_elem lt) i a) = mset a \<and>
   length (heap_Init_loop (by_elem lt) i a) = length a"
proof (induction i arbitrary: a)
  case (Suc i)
  obtain i' b where b: "heap_sift (by_elem lt) i (length a) a = (i', b)" by fastforce
  have "case heap_sift (by_elem lt) i (length a) a of (i', b) \<Rightarrow> heap_from lt i (length a) b \<and> mset b = mset a \<and>
      i \<le> i' \<and> (i' = i \<longrightarrow> b = a) \<and> (\<forall>k \<ge> length a. k < length a \<longrightarrow> b ! k = a ! k) \<and> length b = length a"
  proof (rule sift_correct)
    fix k assume "0 < k" "k < length a" "i \<le> parent k" "parent k \<noteq> i"
    with Suc.prems(1) show "ordered_at lt a k" by (simp add: heap_from_def)
  next
    fix k assume "parent k = i" "0 < i" "i \<le> parent i"
    with parent_less [of i] show "\<not> lt (a ! k) (a ! parent i)" by simp
  qed (use Suc.prems(2) in simp_all)
  with Suc.IH [of b] Suc.prems b show ?case by (auto simp: heap_down_def)
qed simp

lemma Init_correct: "is_heap lt (heap_Init (by_elem lt) a) \<and> mset (heap_Init (by_elem lt) a) = mset a"
proof -
  have "heap_from lt (length a div 2) (length a) a" by (auto simp: heap_from_def parent_def)
  with Init_loop_correct [of "length a div 2" a] show ?thesis by (auto simp: heap_Init_def)
qed

end

section \<open>A priority queue\<close>

locale priority_queue =
  fixes lt :: "'a \<Rightarrow> 'a \<Rightarrow> bool"
    and elems :: "'q \<Rightarrow> 'a multiset"
    and inv :: "'q \<Rightarrow> bool"
    and push :: "'a \<Rightarrow> 'q \<Rightarrow> 'q"
    and pop :: "'q \<Rightarrow> ('a \<times> 'q) option"
  assumes push: "inv q \<Longrightarrow> inv (push x q) \<and> elems (push x q) = add_mset x (elems q)"
    and pop_empty: "inv q \<Longrightarrow> elems q = {#} \<Longrightarrow> pop q = None"
    and pop: "inv q \<Longrightarrow> elems q \<noteq> {#} \<Longrightarrow>
      \<exists>x q'. pop q = Some (x, q') \<and> inv q' \<and> elems q = add_mset x (elems q') \<and> (\<forall>y \<in># elems q. \<not> lt y x)"
begin

text \<open>All of it, by \<open>n\<close> times \<open>pop\<close>.\<close>

fun pops :: "nat \<Rightarrow> 'q \<Rightarrow> ('a list \<times> 'q) option" where
  "pops 0 q = Some ([], q)"
| "pops (Suc n) q = (case pop q of None \<Rightarrow> None | Some (x, q) \<Rightarrow> map_option (\<lambda>(xs, q). (x # xs, q)) (pops n q))"

lemma pops_sorted:
  "inv q \<Longrightarrow> n = size (elems q) \<Longrightarrow>
   \<exists>xs q'. pops n q = Some (xs, q') \<and> elems q' = {#} \<and> mset xs = elems q \<and> sorted_wrt (\<lambda>x y. \<not> lt y x) xs"
proof (induction n arbitrary: q)
  case (Suc n)
  then have "elems q \<noteq> {#}" by auto
  then obtain x q1 where x: "pop q = Some (x, q1)" "inv q1" "elems q = add_mset x (elems q1)" "\<forall>y \<in># elems q. \<not> lt y x"
    using pop [OF Suc.prems(1)] by blast
  with Suc.IH [of q1] Suc.prems(2) obtain xs q' where "pops n q1 = Some (xs, q')" "elems q' = {#}" "mset xs = elems q1"
    "sorted_wrt (\<lambda>x y. \<not> lt y x) xs" by auto
  moreover from this have "set xs = set_mset (elems q1)" by (metis set_mset_mset)
  ultimately show ?case using x by (intro exI [of _ "x # xs"] exI [of _ q']) auto
qed auto

lemma push_all: "inv q \<Longrightarrow> inv (fold push xs q) \<and> elems (fold push xs q) = elems q + mset xs"
  by (induction xs arbitrary: q) (auto simp: push)

end

sublocale weak_order \<subseteq> heap: priority_queue lt mset "\<lambda>a. is_heap lt a" "heap_Push (by_elem lt)" "heap_Pop (by_elem lt)"
proof unfold_locales
  fix a :: "'a list" assume "is_heap lt a" "mset a = {#}"
  then show "heap_Pop (by_elem lt) a = None" by (simp add: heap_Pop_def)
next
  fix a :: "'a list" assume a: "is_heap lt a" "mset a \<noteq> {#}"
  have "\<not> lt y (a ! 0)" if "y \<in> set a" for y using that root_min [OF a(1)] by (metis in_set_conv_nth)
  moreover have "heap_from lt 0 (length a - 1) a" using a(1) by (simp add: heap_from_def)
  ultimately show "\<exists>x q'. heap_Pop (by_elem lt) a = Some (x, q') \<and> is_heap lt q' \<and>
      mset a = add_mset x (mset q') \<and> (\<forall>y \<in># mset a. \<not> lt y x)" using Pop_correct [of a] a(2) by auto
qed (rule Push_correct)

interpretation linorder_heap: weak_order "(<) :: 'a::linorder \<Rightarrow> 'a \<Rightarrow> bool"
  by unfold_locales auto

section \<open>One position out of order\<close>

context weak_order
begin

lemma fix_correct:
  assumes "i < n" "n \<le> length a"
    "\<And>k. 0 < k \<Longrightarrow> k < n \<Longrightarrow> k \<noteq> i \<Longrightarrow> parent k \<noteq> i \<Longrightarrow> ordered_at lt a k"
    "\<And>k. 0 < k \<Longrightarrow> k < n \<Longrightarrow> parent k = i \<Longrightarrow> 0 < i \<Longrightarrow> \<not> lt (a ! k) (a ! parent i)"
    "heap_down (by_elem lt) i n a = (moved, b)"
  defines "c \<equiv> (if \<not> moved then heap_up (by_elem lt) i b else b)"
  shows "heap_from lt 0 n c \<and> mset c = mset a \<and> (\<forall>k \<ge> n. k < length a \<longrightarrow> c ! k = a ! k)"
proof -
  obtain i' where sift: "heap_sift (by_elem lt) i n a = (i', b)" and moved: "moved \<longleftrightarrow> i < i'"
    using assms(5) by (auto simp: heap_down_def split: prod.splits)
  show ?thesis
  proof (cases "0 < i \<and> lt (a ! i) (a ! parent i)")
    case True
    have "b = a \<and> i' = i"
    proof -
      have "\<not> lt (a ! k) (a ! i)" if "0 < k" "k < n" "parent k = i" for k
        using assms(4) [OF that] True asym neg_trans by blast
      then have "heap_sift (by_elem lt) i n a = (i, a)"
        by (subst sift_unfold) (auto simp: Let_def parent_def)
      with sift show ?thesis by simp
    qed
    moreover have "heap_from lt 0 n (heap_up (by_elem lt) i a) \<and> mset (heap_up (by_elem lt) i a) = mset a \<and>
        (\<forall>k > i. heap_up (by_elem lt) i a ! k = a ! k)"
    proof (rule up_correct [OF assms(1,2)])
      fix k assume k: "0 < k" "k < n" "k \<noteq> i"
      show "ordered_at lt a k"
      proof (cases "parent k = i")
        case True
        have "\<not> lt (a ! k) (a ! parent i)"
          using assms(4) [OF k(1,2) True] \<open>0 < i \<and> lt (a ! i) (a ! parent i)\<close> by simp
        moreover have "\<not> lt (a ! parent i) (a ! i)"
          using \<open>0 < i \<and> lt (a ! i) (a ! parent i)\<close> asym by blast
        ultimately have "\<not> lt (a ! k) (a ! i)" using neg_trans by blast
        with True show ?thesis by (simp add: ordered_at_def)
      qed (rule assms(3) [OF k])
    qed (rule assms(4))
    ultimately show ?thesis using assms(1) moved by (auto simp: c_def)
  next
    case False
    have "case heap_sift (by_elem lt) i n a of (i', b) \<Rightarrow> heap_from lt 0 n b \<and> mset b = mset a \<and>
        i \<le> i' \<and> (i' = i \<longrightarrow> b = a) \<and> (\<forall>k \<ge> n. k < length a \<longrightarrow> b ! k = a ! k) \<and> length b = length a"
    proof (rule sift_correct)
      fix k assume k: "0 < k" "k < n" "parent k \<noteq> i"
      show "ordered_at lt a k"
        using assms(3) [OF k(1,2) _ k(3)] False k(1) by (cases "k = i") (auto simp: ordered_at_def)
    qed (use assms(1,2,4) in simp_all)
    with sift have b: "heap_from lt 0 n b" "mset b = mset a" "i' = i \<longrightarrow> b = a" "i \<le> i'"
      "\<forall>k \<ge> n. k < length a \<longrightarrow> b ! k = a ! k" by auto
    show ?thesis
    proof (cases moved)
      case True
      with b show ?thesis by (simp add: c_def)
    next
      case nm: False
      then have "b = a" using b(3,4) moved by auto
      moreover have "heap_up (by_elem lt) i a = a"
        using False irrefl by (subst heap_up_unfold) (auto simp: by_elem_def parent_def)
      ultimately show ?thesis using b nm by (simp add: c_def)
    qed
  qed
qed

lemma Fix_correct:
  assumes "is_heap lt a" "i < length a"
  shows "is_heap lt (heap_Fix (by_elem lt) i (a[i := x])) \<and>
    mset (heap_Fix (by_elem lt) i (a[i := x])) = mset (a[i := x])"
proof -
  let ?a = "a[i := x]"
  obtain moved b where d: "heap_down (by_elem lt) i (length a) ?a = (moved, b)" by fastforce
  have "heap_from lt 0 (length a) (if \<not> moved then heap_up (by_elem lt) i b else b) \<and>
      mset (if \<not> moved then heap_up (by_elem lt) i b else b) = mset ?a \<and>
      (\<forall>k \<ge> length a. k < length ?a \<longrightarrow> (if \<not> moved then heap_up (by_elem lt) i b else b) ! k = ?a ! k)"
  proof (rule fix_correct [OF assms(2) _ _ _ d])
    fix k assume "0 < k" "k < length a" "k \<noteq> i" "parent k \<noteq> i"
    with assms(1) show "ordered_at lt ?a k" by (simp add: heap_from_def ordered_at_def)
  next
    fix k assume k: "0 < k" "k < length a" "parent k = i" "0 < i"
    then have "\<not> lt (a ! k) (a ! i)" "\<not> lt (a ! i) (a ! parent i)"
      using assms by (auto simp: heap_from_def ordered_at_def)
    then have "\<not> lt (a ! k) (a ! parent i)" using neg_trans by blast
    moreover have "k \<noteq> i" "parent i \<noteq> i" using parent_less [of k] parent_less [of i] k by auto
    ultimately show "\<not> lt (?a ! k) (?a ! parent i)" by simp
  qed simp
  moreover have fix': "heap_Fix (by_elem lt) i ?a = (if \<not> moved then heap_up (by_elem lt) i b else b)"
    using d by (simp add: heap_Fix_def)
  ultimately have "heap_from lt 0 (length a) (heap_Fix (by_elem lt) i ?a)" "mset (heap_Fix (by_elem lt) i ?a) = mset ?a"
    unfolding fix' by blast+
  moreover from this(2) have "length (heap_Fix (by_elem lt) i ?a) = length a" by (metis length_list_update size_mset)
  ultimately show ?thesis by simp
qed

text \<open>\<open>Remove\<close> brings the element to the end and then pops the root.\<close>

lemma Remove_result:
  assumes "is_heap lt a" "i < length a - 1"
  shows "\<exists>y b. heap_Remove (by_elem lt) i a = Some (y, b) \<and> is_heap lt b \<and> mset a = add_mset y (mset b) \<and>
    a ! i \<in># mset b \<and> y \<in># mset a - {#a ! i#} \<and> (\<forall>z \<in># mset a - {#a ! i#}. \<not> lt z y)"
proof -
  define n where "n = length a - 1"
  have n: "i < n" "n < length a" "length a - 1 = n" using assms(2) by (auto simp: n_def)
  let ?a = "heap_swap i n a"
  have nth: "?a ! k = (if k = i then a ! n else if k = n then a ! i else a ! k)" for k
    using heap_swap_nth [of i a n k] n by simp
  obtain moved b where d: "heap_down (by_elem lt) i n ?a = (moved, b)" by fastforce
  define c where "c = (if \<not> moved then heap_up (by_elem lt) i b else b)"
  have "heap_from lt 0 n c \<and> mset c = mset ?a \<and> (\<forall>k \<ge> n. k < length ?a \<longrightarrow> c ! k = ?a ! k)"
    unfolding c_def
  proof (rule fix_correct [OF n(1) _ _ _ d])
    fix k assume k: "0 < k" "k < n" "k \<noteq> i" "parent k \<noteq> i"
    moreover from this have "parent k \<noteq> n" using parent_less [of k] by simp
    ultimately show "ordered_at lt ?a k" using assms(1) n by (simp add: heap_from_def ordered_at_def nth)
  next
    fix k assume k: "0 < k" "k < n" "parent k = i" "0 < i"
    then have "\<not> lt (a ! k) (a ! i)" "\<not> lt (a ! i) (a ! parent i)"
      using assms n by (auto simp: heap_from_def ordered_at_def)
    then have "\<not> lt (a ! k) (a ! parent i)" using neg_trans by blast
    moreover have "k \<noteq> i" "parent i \<noteq> i" "parent i \<noteq> n" using parent_less [of k] parent_less [of i] k n by auto
    ultimately show "\<not> lt (?a ! k) (?a ! parent i)" using k n by (simp add: nth)
  qed (use n in simp)
  then have c: "heap_from lt 0 n c" "mset c = mset a" "length c = length a" "c ! n = a ! i"
    using n by (auto simp: heap_swap_mset nth dest: arg_cong [of "mset c" _ size])
  then have ne: "c \<noteq> []" "length c - 1 = n" using n by auto
  obtain b' where p: "heap_Pop (by_elem lt) c = Some (c ! 0, b')" "is_heap lt b'" "mset c = add_mset (c ! 0) (mset b')"
    using Pop_correct [of c] c(1) ne by auto
  have rem: "heap_Remove (by_elem lt) i a = Some (c ! 0, b')"
    using n d p(1) by (simp add: heap_Remove_def Let_def c_def)
  have parts: "mset a = add_mset (a ! i) (mset (take n c))"
  proof -
    have "c = take n c @ [c ! n]" using n c(3) ne by (metis append_butlast_last_id butlast_conv_take last_conv_nth)
    then show ?thesis using c(2,4) by (metis add_mset_add_single mset.simps(1,2) mset_append)
  qed
  then have others: "mset a - {#a ! i#} = mset (take n c)" by simp
  have "c ! 0 \<in> set (take n c)" using n c(3) by (auto simp: in_set_conv_nth intro!: exI [of _ 0])
  moreover have "\<not> lt z (c ! 0)" if "z \<in> set (take n c)" for z
    using that root_min [OF c(1)] by (auto simp: in_set_conv_nth)
  moreover from \<open>c ! 0 \<in> set (take n c)\<close> have "a ! i \<in># mset b'"
  proof -
    have "add_mset (c ! 0) (mset b') = add_mset (a ! i) (mset (take n c))" using parts p(3) c(2) by simp
    moreover obtain R where "mset (take n c) = add_mset (c ! 0) R"
      using \<open>c ! 0 \<in> set (take n c)\<close> by (metis mset_add set_mset_mset)
    ultimately have "add_mset (c ! 0) (mset b') = add_mset (c ! 0) (add_mset (a ! i) R)" by (simp add: add_mset_commute)
    then show ?thesis by simp
  qed
  ultimately show ?thesis using rem p(2,3) c(2) others by (intro exI [of _ "c ! 0"] exI [of _ b']) auto
qed

end

section \<open>Properties\<close>

context weak_order
begin

lemma is_priority_queue:
  "priority_queue lt mset (\<lambda>a. is_heap lt a) (heap_Push (by_elem lt)) (heap_Pop (by_elem lt))"
  by (rule heap.priority_queue_axioms)

lemma heap_sorts_lemma:
  "\<exists>ys. heap.pops (length a + length xs) (fold (heap_Push (by_elem lt)) xs (heap_Init (by_elem lt) a)) = Some (ys, []) \<and>
    mset ys = mset a + mset xs \<and> sorted_wrt (\<lambda>x y. \<not> lt y x) ys"
proof -
  let ?q = "fold (heap_Push (by_elem lt)) xs (heap_Init (by_elem lt) a)"
  have q: "is_heap lt ?q" "mset ?q = mset a + mset xs"
    using heap.push_all [of "heap_Init (by_elem lt) a" xs] Init_correct [of a] by auto
  then have "length a + length xs = size (mset ?q)" by simp
  from heap.pops_sorted [OF q(1) this] q(2) show ?thesis by auto
qed

end

text \<open>\<open>n\<close> times \<open>Pop\<close>.\<close>

fun heap_Pops :: "'a less_func \<Rightarrow> nat \<Rightarrow> 'a list \<Rightarrow> ('a list \<times> 'a list) option" where
  "heap_Pops lf 0 a = Some ([], a)"
| "heap_Pops lf (Suc n) a = (case heap_Pop lf a of None \<Rightarrow> None | Some (x, a) \<Rightarrow> map_option (\<lambda>(xs, a). (x # xs, a)) (heap_Pops lf n a))"

lemma heap_Pops_pops:
  assumes "weak_order lt"
  shows "heap_Pops (by_elem lt) n a = priority_queue.pops (heap_Pop (by_elem lt)) n a"
proof -
  have pq: "priority_queue lt mset (\<lambda>a. is_heap lt a) (heap_Push (by_elem lt)) (heap_Pop (by_elem lt))"
    using assms by (rule weak_order.is_priority_queue)
  show ?thesis by (induction n arbitrary: a) (auto simp: priority_queue.pops.simps [OF pq] split: option.splits)
qed

text \<open>C27: 
  The heap is a priority queue: for every strict weak order, what \<open>Init\<close> makes of an array and \<open>Push\<close> adds comes out of
  \<open>Pop\<close> in order, all of it and nothing else.
\<close>
theorem heap_sorts:
  assumes "weak_order lt"
  shows "\<exists>ys. heap_Pops (by_elem lt) (length a + length xs) (fold (heap_Push (by_elem lt)) xs (heap_Init (by_elem lt) a)) = Some (ys, []) \<and>
    mset ys = mset a + mset xs \<and> sorted_wrt (\<lambda>x y. \<not> lt y x) ys"
  using weak_order.heap_sorts_lemma [OF assms] heap_Pops_pops [OF assms] by simp

text \<open>
  \<open>Remove(i)\<close> does not remove the element at \<open>i\<close>: it brings it to the end and then pops the root, so it returns and removes
  the least of the other elements, and the one at \<open>i\<close> stays. Only for the last position it is a plain \<open>Pop\<close>.
\<close>
theorem heap_Remove_wrong_element:
  assumes "weak_order lt" and "is_heap lt a" and "i < length a - 1"
  shows "\<exists>y b. heap_Remove (by_elem lt) i a = Some (y, b) \<and> is_heap lt b \<and> mset a = add_mset y (mset b) \<and>
    a ! i \<in># mset b \<and> (\<forall>z \<in># mset a - {#a ! i#}. \<not> lt z y)"
  using weak_order.Remove_result [OF assms] by blast

lemma heap_sorts_witness:
  "\<exists>ys. heap_Pops (by_elem (<)) (length [3, 1, 2 :: nat] + length [2 :: nat])
      (fold (heap_Push (by_elem (<))) [2] (heap_Init (by_elem (<)) [3, 1, 2 :: nat])) = Some (ys, []) \<and>
    mset ys = mset [3, 1, 2] + mset [2] \<and> sorted_wrt (\<lambda>x y. \<not> y < x) ys"
  by (rule heap_sorts [OF linorder_heap.weak_order_axioms])

lemma heap_Remove_wrong_element_witness:
  "\<exists>y b. heap_Remove (by_elem (<)) 1 [1, 2, 3 :: nat] = Some (y, b) \<and> is_heap (<) b \<and>
    mset [1, 2, 3] = add_mset y (mset b) \<and> 2 \<in># mset b"
  using heap_Remove_wrong_element [OF linorder_heap.weak_order_axioms, of "[1, 2, 3 :: nat]" 1]
  by (auto simp: heap_from_def ordered_at_def parent_def less_Suc_eq numeral_3_eq_3)

end
