(* ===== verification/Spec2Isabelle.thy ===== *)
theory Spec2Isabelle
  imports ProxyTrojan ProxySimplesocks ProxyVless ProxyShadowsocks ProxyHttp ProxySocks5 VmessServer HttpFallback HttpHeader
    NetGeosite NetDns NetRelay NetUdp MainInbound UtilsHeap
begin

text \<open>
  v2ray_simple, a proxy framework in Go, and what this library shows of it.

  The program. A listening server (\<open>main.go\<close>, \<open>ListenSer\<close>) accepts a connection, puts its optional
  layers around it (tls, an http header, websocket, grpc, quic) and hands it to the server of one proxy
  protocol (\<open>proxy/*\<close>). The protocol's handshake authenticates a user (\<open>utils/user.go\<close>) and returns a
  target address (\<open>netLayer/addr.go\<close>) and a stream or a channel of datagrams. A refused handshake may
  fall back to a web server (\<open>iics.go\<close>, \<open>httpLayer\<close>). The first payload is read and sniffed, the name
  resolved (\<open>netLayer/dns.go\<close>), and the router (\<open>netLayer/route.go\<close>, \<open>geosite*.go\<close>) picks a client,
  again of one of the protocols, through whose layers the target is dialed. The data are then relayed
  (\<open>netLayer/relay_udp.go\<close>), and the tls sniffer (\<open>tlsLayer/sniff*.go\<close>) may take inner TLS records out of
  the tunnel.

  Conventions. A Go slice is a list of bytes (\<open>8 word\<close>), a Go \<open>int\<close> an \<open>int\<close>, written out on
  words where it is shifted, truncated or overflows; a Go string is a list of characters, one per byte. An
  error is a value of \<open>goerr\<close> on the left of a sum, with the constructors of \<open>utils/error.go\<close>. An
  index or slice expression out of range, which panics in Go, is \<open>None\<close> where the code can reach it. A
  connection is the list of chunks that its successive reads return, so that every statement quantifies over how
  the network cuts the stream. Buffers from pools keep their old content, which is an argument. Functions of
  packages outside the repository (digests, ciphers, the CIDR trie, regular expressions, the DNS
  exchange, the random source, the clock) are arguments; what is used of them stands as a hypothesis of
  the theorem. Goroutines that share a state are step relations or lists of events, with a step for each
  access or critical section, and the theorems hold for every interleaving. In the pipeline of
  \<open>main.go\<close> an operation on a connection is an event; the environment says whether it succeeds.

  The theories.

  \<^item> \<open>V2Prelude\<close>, \<open>UtilsError\<close>, \<open>GoReader\<close>, \<open>GoStrings\<close>, \<open>GoNet\<close>: bytes and words, errors, the
    standard library the sources use: \<open>bytes.Buffer\<close>, \<open>bufio.Reader\<close>, \<open>io.ReadFull\<close>, packages
    strings, strconv and net. The locales \<open>stream_reader\<close>, \<open>byte_reader\<close> and \<open>full_reader\<close> are the
    interface of readers; both readers of the library interpret them.

  \<^item> \<open>UtilsStrings\<close>, \<open>UtilsUser\<close>, \<open>UtilsAlgo\<close>, \<open>UtilsBuffers\<close>, \<open>UtilsHeap\<close> (\<open>utils/\<close>): uuids,
    users and \<open>MultiUserMap\<close> (locale \<open>user_authenticator\<close>, extended by \<open>keyed_users\<close>), the slice
    algorithms, buffer lists, the heap.

  \<^item> \<open>NetAddr\<close>, \<open>NetAddrText\<close>, \<open>NetRoute\<close>, \<open>NetGeosite\<close>, \<open>NetDns\<close> (\<open>netLayer/\<close>): addresses on the
    wire and in text, routing rules and domain lists, the resolver with its cache and servers.

  \<^item> \<open>NetRelay\<close>, \<open>NetUdp\<close> (\<open>netLayer/\<close>): the two UDP relays, and the UDP connections: \<open>UDPConn\<close>,
    \<open>UDPMsgConn\<close> with a socket and a reader per destination, \<open>UDPListener\<close>.

  \<^item> \<open>SocksFormat\<close>, \<open>MsgCodec\<close>, \<open>ProxyTrojan\<close>, \<open>ProxySimplesocks\<close>, \<open>ProxyVless\<close>, \<open>ProxyConn\<close>,
    \<open>ProxySocks5\<close>, \<open>ProxyShadowsocks\<close>, \<open>ProxyHttp\<close> (\<open>proxy/\<close>): the address format the protocols
    share, datagrams over streams (locale \<open>msg_codec\<close>, interpreted by each framing), client and server of each
    protocol, the connection a server returns. The shadowsocks cipher is a parameter.

  \<^item> \<open>VmessStream\<close>, \<open>VmessAead\<close>, \<open>VmessReplay\<close>, \<open>VmessHeader\<close>, \<open>VmessConn\<close>, \<open>VmessServer\<close>
    (\<open>proxy/vmess/\<close>): chunks with masked sizes and padding, sealed chunks, the two replay filters, the
    authentication id and the sealed header, the connection, client and server. The record of the ciphers and hash
    functions is a parameter, with that opening undoes sealing as the only law.

  \<^item> \<open>HttpRequest\<close>, \<open>HttpFallback\<close>, \<open>HttpHeader\<close> (\<open>httpLayer/\<close>, \<open>iics.go\<close>): the filter for HTTP/1.1
    requests, the search for a fallback target, the http obfuscation header.

  \<^item> \<open>TlsHello\<close>, \<open>TlsSniff\<close>, \<open>TlsClientHello\<close> (\<open>tlsLayer/\<close>, \<open>tls_lazy.go\<close>): the parser of hellos,
    the state machine of the sniffer in both directions, and hellos as the RFCs lay them out.

  \<^item> \<open>ProxyBase\<close>, \<open>MainDial\<close>, \<open>MainPipeline\<close>, \<open>MainInbound\<close> (\<open>proxy/base.go\<close>, \<open>main.go\<close>): what
    every client and server has; \<open>dialClient\<close> and \<open>dialInnerProxy\<close>; \<open>handshakeInserver\<close>,
    \<open>passToOutClient\<close> and \<open>dialClient_andRelay\<close>, which compose the models of the fallback, the
    sniffer, the resolver, the router and the dial; \<open>ListenSer\<close> and \<open>handleNewIncomeConnection\<close>.

  The lemmas. For each protocol: client and server agree on user, destination and payload for every way
  the stream is cut (round trips), whatever the server accepts is well formed and authenticated
  (soundness), and a sequence of datagrams arrives in order. For the parsers: they accept exactly the
  grammar, and never index out of range, or the inputs that make them do so. For the searches and
  algorithms: equality with a specification (first matching rule, most specific fallback, the power set, a
  sorted permutation, filters and caches that never forget). For the state machines and relays: invariants over
  every interleaving. For the pipeline: the dial equals a plan of events, the first payload is handed
  over exactly once, the first rule decides the client, a refused trojan connection reaches the fallback
  complete, an unknown server name gets nowhere, and both ends build the same layers. Where the code does
  not do what it means to, a theorem shows the case.

  Bounds and fuel. \<open>ReadFull_loop\<close> has one unit of fuel per byte, which is enough as every read makes
  progress; the inclusion of geosite lists runs until nothing changes and is shown to return; the other loops
  are structural or have a measure. The channels between goroutines have their capacities (20, 50 and
  100). A word in an \<open>assumes\<close> that bounds a length is the width of the field that carries it.

  Not modelled. System calls (readv, splice, sockopt, tproxy, tun) and with them the TCP relay, which only
  chooses among them; the pools themselves, logging and deadlines; crypto/tls, websocket, grpc, quic and smux,
  which are libraries the sources wrap; the TOML and URL configuration readers, which decode by reflection;
  the command line and the graphical interface. Of \<open>main.go\<close>, the HTTP/2 round trip of a
  fallback and the goroutines that accept the streams of a multiplexing layer; other connections do not change
  the session of a client during a dial.
\<close>

end
